(* ===== verification/Prelude.thy ===== *)
theory Prelude
  imports Main "HOL-Library.Multiset" "HOL-Library.Word"
begin

text \<open>
  Shared vocabulary of the development.

  \<^item> Errors: every \<open>sparta_assert\<close> and every thrown \<open>SpartaException\<close> of the simulator is a
    value \<^term>\<open>Inl e\<close> of the result type \<open>sim_error + 'a\<close>; \<open>bindE\<close> sequences such results and
    \<open>assertE\<close> is \<open>sparta_assert\<close>. An out-of-range access or a division by zero, which C++ leaves
    undefined, is the error \<open>UndefinedBehaviour\<close>.
  \<^item> Unsigned 32-bit arithmetic on counters: \<open>sub32\<close> writes out the wrap-around of a
    \<open>uint32_t\<close> subtraction on natural numbers.
  \<^item> Generic lemmas on lists, counts and loops (\<open>foldE\<close>, a range-for loop whose body may throw;
    \<open>drop_back\<close>, a loop that pops the back of a queue while a condition holds) that the
    components share.
\<close>

named_theorems result_simps \<open>evaluation rules of the result monad\<close>
named_theorems queue_simps \<open>rules on queues of instruction handles\<close>

section \<open>Results\<close>

datatype sim_error =
    SpartaAssert string
  | SpartaException string
  | UndefinedBehaviour string

type_synonym 'a result = "sim_error + 'a"

definition bindE :: "'a result \<Rightarrow> ('a \<Rightarrow> 'b result) \<Rightarrow> 'b result" where
  "bindE m f = (case m of Inl e \<Rightarrow> Inl e | Inr x \<Rightarrow> f x)"

definition assertE :: "bool \<Rightarrow> string \<Rightarrow> unit result" where
  "assertE b msg = (if b then Inr () else Inl (SpartaAssert msg))"

definition is_ok :: "'a result \<Rightarrow> bool" where
  "is_ok m = (case m of Inl _ \<Rightarrow> False | Inr _ \<Rightarrow> True)"

primrec foldE :: "('s \<Rightarrow> 'a \<Rightarrow> 's result) \<Rightarrow> 's \<Rightarrow> 'a list \<Rightarrow> 's result" where
  "foldE f s [] = Inr s"
| "foldE f s (x # xs) = bindE (f s x) (\<lambda>s'. foldE f s' xs)"

lemma bindE_Inl [simp, result_simps]: "bindE (Inl e) f = Inl e"
  by (simp add: bindE_def)

lemma bindE_Inr [simp, result_simps]: "bindE (Inr x) f = f x"
  by (simp add: bindE_def)

lemma bindE_eq_Inr [result_simps]: "bindE m f = Inr y \<longleftrightarrow> (\<exists>x. m = Inr x \<and> f x = Inr y)"
  by (cases m) auto

lemma bindE_InrE:
  assumes "bindE m f = Inr y"
  obtains x where "m = Inr x" and "f x = Inr y"
  using assms by (auto simp: bindE_eq_Inr)

lemma bindE_cong [fundef_cong]:
  "m = m' \<Longrightarrow> (\<And>x. m' = Inr x \<Longrightarrow> f x = f' x) \<Longrightarrow> bindE m f = bindE m' f'"
  by (cases m') auto

lemma assertE_True [simp, result_simps]: "assertE True msg = Inr ()"
  by (simp add: assertE_def)

lemma assertE_False [simp, result_simps]: "assertE False msg = Inl (SpartaAssert msg)"
  by (simp add: assertE_def)

lemma assertE_eq_Inr [simp, result_simps]: "assertE b msg = Inr u \<longleftrightarrow> b"
  by (cases b) (auto simp: assertE_def)

lemma bind_assertE_eq_Inr [simp, result_simps]:
  "bindE (assertE b msg) f = Inr y \<longleftrightarrow> b \<and> f () = Inr y"
  by (cases b) auto

lemma is_ok_simps [simp]: "is_ok (Inr x)" "\<not> is_ok (Inl e)"
  by (simp_all add: is_ok_def)

lemma is_ok_iff: "is_ok m \<longleftrightarrow> (\<exists>x. m = Inr x)"
  by (cases m) auto

lemma foldE_append: "foldE f s (xs @ ys) = bindE (foldE f s xs) (\<lambda>s'. foldE f s' ys)"
  by (induction xs arbitrary: s) (auto simp: bindE_def split: sum.splits)

text \<open>The loop rule: an invariant over the elements still to come, total and partial.\<close>

lemma foldE_rule:
  assumes "I s xs"
    and "\<And>s x xs. I s (x # xs) \<Longrightarrow> \<exists>s'. f s x = Inr s' \<and> I s' xs"
  shows "\<exists>s'. foldE f s xs = Inr s' \<and> I s' []"
  using assms(1)
proof (induction xs arbitrary: s)
  case Nil
  then show ?case by simp
next
  case (Cons x xs)
  from assms(2)[OF Cons.prems] obtain s1 where "f s x = Inr s1" "I s1 xs" by blast
  with Cons.IH[of s1] show ?case by simp
qed

lemma foldE_partial:
  assumes "foldE f s xs = Inr s'" and "I s"
    and "\<And>s x s'. x \<in> set xs \<Longrightarrow> I s \<Longrightarrow> f s x = Inr s' \<Longrightarrow> I s'"
  shows "I s'"
  using assms
proof (induction xs arbitrary: s)
  case Nil
  then show ?case by simp
next
  case (Cons x xs)
  from Cons.prems(1) obtain s1 where s1: "f s x = Inr s1" "foldE f s1 xs = Inr s'"
    by (auto simp: bindE_eq_Inr)
  with Cons.prems have "I s1" by (meson list.set_intros(1))
  with s1(2) show ?case using Cons.IH Cons.prems(3) by (meson list.set_intros(2))
qed

section \<open>Unsigned 32-bit counters\<close>

abbreviation (input) UINT32_MAX :: nat where
  "UINT32_MAX \<equiv> 4294967295"

definition sub32 :: "nat \<Rightarrow> nat \<Rightarrow> nat" where
  "sub32 a b = (a + 4294967296 - b mod 4294967296) mod 4294967296"

definition add32 :: "nat \<Rightarrow> nat \<Rightarrow> nat" where
  "add32 a b = (a + b) mod 4294967296"

lemma sub32_exact: "b \<le> a \<Longrightarrow> a < 4294967296 \<Longrightarrow> sub32 a b = a - b"
proof -
  assume "b \<le> a" "a < 4294967296"
  then have "a + 4294967296 - b mod 4294967296 = (a - b) + 4294967296" by simp
  with \<open>a < 4294967296\<close> show ?thesis by (simp add: sub32_def)
qed

lemma sub32_wraps: "a < b \<Longrightarrow> b < 4294967296 \<Longrightarrow> sub32 a b = a + 4294967296 - b"
  by (simp add: sub32_def)

lemma add32_exact: "a + b < 4294967296 \<Longrightarrow> add32 a b = a + b"
  by (simp add: add32_def)

lemma add32_le [simp]: "add32 a b \<le> UINT32_MAX"
proof -
  have "(a + b) mod 4294967296 < 4294967296" by (rule mod_less_divisor) simp
  then show ?thesis by (simp add: add32_def)
qed

section \<open>Counting in lists\<close>

lemma count_list_update:
  assumes "i < length xs"
  shows "count_list (xs[i := v]) y + (if xs ! i = y then 1 else 0)
       = count_list xs y + (if v = y then 1 else 0)"
  using assms
proof (induction xs arbitrary: i)
  case (Cons x xs)
  show ?case
  proof (cases i)
    case (Suc j)
    with Cons.prems have "j < length xs" by simp
    from Cons.IH[OF this] show ?thesis by (auto simp: Suc split: if_splits)
  qed simp
qed simp

lemma count_list_pos_iff: "0 < count_list xs y \<longleftrightarrow> y \<in> set xs"
  using count_list_0_iff[of xs y] by auto

lemma nth_count_list_pos: "i < length xs \<Longrightarrow> 0 < count_list xs (xs ! i)"
  by (simp add: count_list_pos_iff)

lemma count_list_distinct: "distinct xs \<Longrightarrow> count_list xs x = (if x \<in> set xs then 1 else 0)"
  by (induction xs) auto

section \<open>Popping the back of a queue\<close>

text \<open>
  \<open>drop_back P q\<close> is what is left of a queue after a loop that pops its back while \<open>P\<close> holds;
  \<open>taken_back P q\<close> are the popped elements, youngest first.
\<close>

definition drop_back :: "('a \<Rightarrow> bool) \<Rightarrow> 'a list \<Rightarrow> 'a list" where
  "drop_back P q = rev (dropWhile P (rev q))"

definition taken_back :: "('a \<Rightarrow> bool) \<Rightarrow> 'a list \<Rightarrow> 'a list" where
  "taken_back P q = takeWhile P (rev q)"

lemma drop_back_Nil [simp]: "drop_back P [] = []"
  by (simp add: drop_back_def)

lemma drop_back_snoc [simp, queue_simps]:
  "drop_back P (q @ [x]) = (if P x then drop_back P q else q @ [x])"
  by (simp add: drop_back_def)

lemma taken_back_Nil [simp]: "taken_back P [] = []"
  by (simp add: taken_back_def)

lemma taken_back_snoc [simp, queue_simps]:
  "taken_back P (q @ [x]) = (if P x then x # taken_back P q else [])"
  by (simp add: taken_back_def)

lemma drop_taken_back: "drop_back P q @ rev (taken_back P q) = q"
  by (metis drop_back_def taken_back_def rev_append rev_rev_ident takeWhile_dropWhile_id)

lemma set_drop_back: "set (drop_back P q) \<subseteq> set q"
  by (auto simp: drop_back_def dest: set_dropWhileD)

lemma length_drop_back: "length (drop_back P q) + length (taken_back P q) = length q"
  by (metis drop_taken_back length_append length_rev)

lemma taken_back_sat: "x \<in> set (taken_back P q) \<Longrightarrow> P x"
  by (auto simp: taken_back_def dest: set_takeWhileD)

text \<open>Where the condition is monotone along the queue, popping the back removes exactly the
  elements that satisfy it.\<close>

lemma drop_back_filter:
  assumes "sorted_wrt (\<lambda>x y. P x \<longrightarrow> P y) q"
  shows "drop_back P q = filter (\<lambda>x. \<not> P x) q"
  using assms
proof (induction q rule: rev_induct)
  case (snoc x q)
  show ?case
  proof (cases "P x")
    case True
    with snoc show ?thesis by (simp add: sorted_wrt_append)
  next
    case False
    with snoc.prems have "\<forall>y\<in>set q. \<not> P y" by (auto simp: sorted_wrt_append)
    then have "filter (\<lambda>y. \<not> P y) q = q" by (simp add: filter_id_conv)
    with False show ?thesis by simp
  qed
qed simp

lemma drop_taken_append:
  assumes "\<forall>p\<in>set new. P p" and "\<forall>p\<in>set q. \<not> P p"
  shows "drop_back P (q @ new) = q \<and> taken_back P (q @ new) = rev new"
  using assms
proof (induction new rule: rev_induct)
  case Nil
  then show ?case by (cases q rule: rev_cases) simp_all
next
  case (snoc x new)
  then have "drop_back P ((q @ new) @ [x]) = q \<and> taken_back P ((q @ new) @ [x]) = x # rev new"
    by (simp del: append_assoc)
  then show ?case by simp
qed

end
