(* ===== verification/InstModel.thy ===== *)
theory InstModel
  imports Prelude
begin

text \<open>
  The instruction object (\<open>core/Inst.hpp\<close>, \<open>core/Inst.cpp\<close>), its static data
  (\<open>core/InstArchInfo.hpp\<close>), its rename data (\<open>core/rename/RenameData.hpp\<close>), the register files
  (\<open>core/CoreTypes.hpp\<close>, \<open>core/CoreUtils.hpp\<close>) and the vector configuration
  (\<open>core/vector/VectorConfig.hpp\<close>).

  An instruction is shared by every unit that holds a pointer to it, so the units hold handles
  (\<open>ptr\<close>) into one store (\<open>heap\<close>) and a status written by one unit is seen by all.

  What the Mavis decoder returns for an opcode is data of the model (\<open>opcode_info\<close>): the
  instruction-type test, the operand lists and the special fields are what its getters return.
\<close>

section \<open>Register files and operands\<close>

datatype RegFile = RF_INTEGER | RF_FLOAT | RF_VECTOR | RF_INVALID

definition regfiles :: "RegFile list" where
  "regfiles = [RF_INTEGER, RF_FLOAT, RF_VECTOR]"

datatype OperandTypes = OT_SINGLE | OT_DOUBLE | OT_WORD | OT_LONG | OT_QUAD | OT_VECTOR | OT_OTHER nat

datatype OperandFieldID = OF_NONE | OF_RD | OF_RS1 | OF_RS2 | OF_RS3 | OF_RS4 | OF_OTHER nat

record op_element =
  oe_field_id :: OperandFieldID
  oe_operand_type :: OperandTypes
  oe_field_value :: nat

fun determineRegisterFile :: "OperandTypes \<Rightarrow> RegFile result" where
  "determineRegisterFile OT_SINGLE = Inr RF_FLOAT"
| "determineRegisterFile OT_DOUBLE = Inr RF_FLOAT"
| "determineRegisterFile OT_WORD = Inr RF_INTEGER"
| "determineRegisterFile OT_LONG = Inr RF_INTEGER"
| "determineRegisterFile OT_QUAD = Inr RF_INTEGER"
| "determineRegisterFile OT_VECTOR = Inr RF_VECTOR"
| "determineRegisterFile (OT_OTHER n) = Inl (SpartaAssert ''Unknown reg type'')"

definition determineRegisterFile_target :: "string \<Rightarrow> RegFile result" where
  "determineRegisterFile_target target_name =
     (if target_name = ''alu'' \<or> target_name = ''br'' then Inr RF_INTEGER
      else if target_name = ''fpu'' then Inr RF_FLOAT
      else Inl (SpartaAssert ''Not supported this target''))"

record OpInfoWithRegfile =
  field_value :: nat
  field_id :: OperandFieldID
  reg_file :: RegFile
  is_x0 :: bool

definition default_op_info :: OpInfoWithRegfile where
  "default_op_info = \<lparr>field_value = UINT32_MAX, field_id = OF_NONE, reg_file = RF_INVALID,
     is_x0 = False\<rparr>"

definition mk_OpInfoWithRegfile :: "op_element \<Rightarrow> OpInfoWithRegfile result" where
  "mk_OpInfoWithRegfile op =
     bindE (determineRegisterFile (oe_operand_type op)) (\<lambda>rf.
       Inr \<lparr>field_value = oe_field_value op, field_id = oe_field_id op, reg_file = rf,
            is_x0 = (oe_field_value op = 0 \<and> rf = RF_INTEGER)\<rparr>)"

fun getOpcodeInfoWithRegFileInfo :: "op_element list \<Rightarrow> OpInfoWithRegfile list result" where
  "getOpcodeInfoWithRegFileInfo [] = Inr []"
| "getOpcodeInfoWithRegFileInfo (op # ops) =
     bindE (mk_OpInfoWithRegfile op) (\<lambda>o1.
       bindE (getOpcodeInfoWithRegFileInfo ops) (\<lambda>os. Inr (o1 # os)))"

section \<open>Rename data\<close>

record Reg =
  phys_reg :: nat
  prev_dest :: nat
  op_info :: OpInfoWithRegfile

definition mk_Reg :: "nat \<Rightarrow> OpInfoWithRegfile \<Rightarrow> Reg" where
  "mk_Reg preg opinfo = \<lparr>phys_reg = preg, prev_dest = UINT32_MAX, op_info = opinfo\<rparr>"

definition mk_Reg_prev :: "nat \<Rightarrow> OpInfoWithRegfile \<Rightarrow> nat \<Rightarrow> Reg" where
  "mk_Reg_prev preg opinfo pv_dest =
     \<lparr>phys_reg = preg, prev_dest = pv_dest, op_info = opinfo\<rparr>"

definition default_Reg :: Reg where
  "default_Reg = \<lparr>phys_reg = 0, prev_dest = UINT32_MAX, op_info = default_op_info\<rparr>"

record RenameData =
  rd_src :: "RegFile \<Rightarrow> Reg list"
  rd_num_sources :: nat
  rd_dest :: "RegFile \<Rightarrow> Reg list"
  rd_num_dests :: nat
  rd_data_reg :: Reg

definition init_RenameData :: RenameData where
  "init_RenameData = \<lparr>rd_src = (\<lambda>_. []), rd_num_sources = 0, rd_dest = (\<lambda>_. []),
     rd_num_dests = 0, rd_data_reg = default_Reg\<rparr>"

definition addSource :: "Reg \<Rightarrow> RenameData \<Rightarrow> RenameData" where
  "addSource r d =
     d\<lparr>rd_src := (rd_src d)(reg_file (op_info r) := rd_src d (reg_file (op_info r)) @ [r]),
       rd_num_sources := rd_num_sources d + 1\<rparr>"

definition addDestination :: "Reg \<Rightarrow> RenameData \<Rightarrow> RenameData" where
  "addDestination r d =
     d\<lparr>rd_dest := (rd_dest d)(reg_file (op_info r) := rd_dest d (reg_file (op_info r)) @ [r]),
       rd_num_dests := rd_num_dests d + 1\<rparr>"

definition setDataReg :: "Reg \<Rightarrow> RenameData \<Rightarrow> RenameData" where
  "setDataReg r d = d\<lparr>rd_data_reg := r\<rparr>"

definition clear_RenameData :: "RegFile \<Rightarrow> RenameData \<Rightarrow> RenameData" where
  "clear_RenameData rf d =
     (let d1 = d\<lparr>rd_src := (rd_src d)(rf := []), rd_dest := (rd_dest d)(rf := [])\<rparr>
      in if reg_file (op_info (rd_data_reg d1)) = rf then d1\<lparr>rd_data_reg := default_Reg\<rparr> else d1)"

section \<open>Static instruction data\<close>

datatype TargetPipe = TP_BR | TP_CMOV | TP_DIV | TP_FADDSUB | TP_FLOAT | TP_FMAC | TP_I2F | TP_F2I
  | TP_INT | TP_LSU | TP_MUL | TP_VINT | TP_VDIV | TP_VMUL | TP_VFIXED | TP_VMASK | TP_VMV | TP_V2S
  | TP_VFLOAT | TP_VFDIV | TP_VFMUL | TP_VPERMUTE | TP_VLOAD | TP_VSTORE | TP_VSET | TP_ROB | TP_SYS
  | TP_UNKNOWN

datatype UopGenType = UG_ELEMENTWISE | UG_SINGLE_DEST | UG_SINGLE_SRC | UG_WIDENING
  | UG_WIDENING_MIXED | UG_NARROWING | UG_MAC | UG_MAC_WIDE | UG_REDUCTION | UG_REDUCTION_WIDE
  | UG_INT_EXT | UG_SLIDE1UP | UG_SLIDE1DOWN | UG_PERMUTE | UG_NONE | UG_UNKNOWN

definition N_VECTOR_UOPS :: nat where
  "N_VECTOR_UOPS = 8"

definition execution_pipe_map :: "(string \<times> TargetPipe) list" where
  "execution_pipe_map =
     [(''br'', TP_BR), (''cmov'', TP_CMOV), (''div'', TP_DIV), (''faddsub'', TP_FADDSUB),
      (''float'', TP_FLOAT), (''fmac'', TP_FMAC), (''i2f'', TP_I2F), (''f2i'', TP_F2I),
      (''int'', TP_INT), (''lsu'', TP_LSU), (''mul'', TP_MUL), (''vint'', TP_VINT),
      (''vdiv'', TP_VDIV), (''vmul'', TP_VMUL), (''vfixed'', TP_VFIXED), (''vmask'', TP_VMASK),
      (''vmv'', TP_VMV), (''v2s'', TP_V2S), (''vfloat'', TP_VFLOAT), (''vfdiv'', TP_VFDIV),
      (''vfmul'', TP_VFMUL), (''vpermute'', TP_VPERMUTE), (''vload'', TP_VLOAD),
      (''vstore'', TP_VSTORE), (''vset'', TP_VSET), (''rob'', TP_ROB), (''sys'', TP_SYS),
      (''?'', TP_UNKNOWN)]"

definition execution_pipe_string_map :: "(TargetPipe \<times> string) list" where
  "execution_pipe_string_map =
     [(TP_BR, ''BR''), (TP_CMOV, ''CMOV''), (TP_DIV, ''DIV''), (TP_FADDSUB, ''FADDSUB''),
      (TP_FLOAT, ''FLOAT''), (TP_FMAC, ''FMAC''), (TP_I2F, ''I2F''), (TP_F2I, ''F2I''),
      (TP_INT, ''INT''), (TP_LSU, ''LSU''), (TP_MUL, ''MUL''), (TP_VINT, ''VINT''),
      (TP_VDIV, ''VDIV''), (TP_VMUL, ''VMUL''), (TP_VFIXED, ''VFIXED''), (TP_VMASK, ''VMASK''),
      (TP_VMV, ''VMV''), (TP_V2S, ''V2S''), (TP_VFLOAT, ''VFLOAT''), (TP_VFDIV, ''VFDIV''),
      (TP_VFMUL, ''VFMUL''), (TP_VPERMUTE, ''VPERMUTE''), (TP_VLOAD, ''VLOAD''),
      (TP_VSTORE, ''VSTORE''), (TP_VSET, ''VSET''), (TP_ROB, ''ROB''), (TP_SYS, ''SYS''),
      (TP_UNKNOWN, ''?'')]"

definition uop_gen_type_map :: "(string \<times> UopGenType) list" where
  "uop_gen_type_map =
     [(''ELEMENTWISE'', UG_ELEMENTWISE), (''SINGLE_DEST'', UG_SINGLE_DEST),
      (''SINGLE_SRC'', UG_SINGLE_SRC), (''WIDENING'', UG_WIDENING),
      (''WIDENING_MIXED'', UG_WIDENING_MIXED), (''NARROWING'', UG_NARROWING), (''MAC'', UG_MAC),
      (''MAC_WIDE'', UG_MAC_WIDE), (''REDUCTION'', UG_REDUCTION),
      (''REDUCTION_WIDE'', UG_REDUCTION_WIDE), (''INT_EXT'', UG_INT_EXT),
      (''SLIDE1UP'', UG_SLIDE1UP), (''SLIDE1DOWN'', UG_SLIDE1DOWN), (''PERMUTE'', UG_PERMUTE),
      (''NONE'', UG_NONE)]"

record InstArchInfo =
  tgt_pipe :: TargetPipe
  execute_time :: nat
  uop_gen :: UopGenType
  is_load_store :: bool
  is_vset :: bool

definition default_InstArchInfo :: InstArchInfo where
  "default_InstArchInfo = \<lparr>tgt_pipe = TP_UNKNOWN, execute_time = 0, uop_gen = UG_UNKNOWN,
     is_load_store = False, is_vset = False\<rparr>"

text \<open>The JSON object of an instruction, by the keys \<open>update\<close> looks up.\<close>

record arch_json =
  js_pipe :: "string option"
  js_latency :: "nat option"
  js_uop_gen :: "string option"

definition InstArchInfo_update :: "arch_json \<Rightarrow> InstArchInfo \<Rightarrow> InstArchInfo result" where
  "InstArchInfo_update jobj ai =
     bindE (case js_pipe jobj of
              None \<Rightarrow> Inr ai
            | Some pipe_name \<Rightarrow>
                (case map_of execution_pipe_map pipe_name of
                   None \<Rightarrow> Inl (SpartaAssert ''Unknown pipe target'')
                 | Some tp \<Rightarrow> Inr (ai\<lparr>tgt_pipe := tp\<rparr>))) (\<lambda>ai1.
     let ai2 = (case js_latency jobj of None \<Rightarrow> ai1 | Some n \<Rightarrow> ai1\<lparr>execute_time := n\<rparr>) in
     bindE (case js_uop_gen jobj of
              None \<Rightarrow> Inr ai2
            | Some uop_gen_name \<Rightarrow>
                (case map_of uop_gen_type_map uop_gen_name of
                   None \<Rightarrow> Inl (SpartaAssert ''Unknown uop gen'')
                 | Some ug \<Rightarrow> Inr (ai2\<lparr>uop_gen := ug\<rparr>))) (\<lambda>ai3.
     Inr (ai3\<lparr>is_load_store := (tgt_pipe ai3 = TP_LSU), is_vset := (tgt_pipe ai3 = TP_VSET)\<rparr>)))"

section \<open>Vector configuration\<close>

definition VLEN :: nat where
  "VLEN = 1024"

record VectorConfig =
  vc_sew :: nat
  vc_lmul :: nat
  vc_vl :: nat
  vc_vlmax :: nat
  vc_vta :: bool

definition vlmax_formula :: "nat \<Rightarrow> nat \<Rightarrow> nat result" where
  "vlmax_formula sew lmul =
     (if sew = 0 then Inl (UndefinedBehaviour ''division by zero'')
      else Inr ((VLEN div sew * lmul) mod 4294967296))"

definition mk_VectorConfig :: "nat \<Rightarrow> nat \<Rightarrow> nat \<Rightarrow> nat \<Rightarrow> VectorConfig result" where
  "mk_VectorConfig vl sew lmul vta =
     bindE (vlmax_formula sew lmul) (\<lambda>vlmax.
     bindE (assertE (lmul \<le> 8) ''LMUL cannot be greater than 8'') (\<lambda>_.
     bindE (assertE (vl \<le> vlmax) ''VL cannot be greater than VLMAX'') (\<lambda>_.
       Inr \<lparr>vc_sew = sew, vc_lmul = lmul, vc_vl = vl, vc_vlmax = vlmax, vc_vta = (vta \<noteq> 0)\<rparr>)))"

definition default_VectorConfig :: VectorConfig where
  "default_VectorConfig = \<lparr>vc_sew = 8, vc_lmul = 1, vc_vl = 16, vc_vlmax = 128, vc_vta = False\<rparr>"

definition setSEW :: "nat \<Rightarrow> VectorConfig \<Rightarrow> VectorConfig result" where
  "setSEW sew vc =
     bindE (vlmax_formula sew (vc_lmul vc)) (\<lambda>m. Inr (vc\<lparr>vc_sew := sew, vc_vlmax := m\<rparr>))"

definition setLMUL :: "nat \<Rightarrow> VectorConfig \<Rightarrow> VectorConfig result" where
  "setLMUL lmul vc =
     bindE (vlmax_formula (vc_sew vc) lmul) (\<lambda>m. Inr (vc\<lparr>vc_lmul := lmul, vc_vlmax := m\<rparr>))"

definition setVL :: "nat \<Rightarrow> VectorConfig \<Rightarrow> VectorConfig" where
  "setVL vl vc = vc\<lparr>vc_vl := vl\<rparr>"

definition setVTA :: "nat \<Rightarrow> VectorConfig \<Rightarrow> VectorConfig" where
  "setVTA vta vc = vc\<lparr>vc_vta := (vta \<noteq> 0)\<rparr>"

section \<open>Instruction status\<close>

datatype Status = BEFORE_FETCH | FETCHED | DECODED | RENAMED | DISPATCHED | SCHEDULED | COMPLETED
  | RETIRED | FLUSHED | UNMOD | FUSED | FUSION_GHOST

fun status_code :: "Status \<Rightarrow> nat" where
  "status_code BEFORE_FETCH = 0"
| "status_code FETCHED = 1"
| "status_code DECODED = 2"
| "status_code RENAMED = 3"
| "status_code DISPATCHED = 4"
| "status_code SCHEDULED = 5"
| "status_code COMPLETED = 6"
| "status_code RETIRED = 7"
| "status_code FLUSHED = 8"
| "status_code UNMOD = 9"
| "status_code FUSED = 10"
| "status_code FUSION_GHOST = 11"

lemma status_code_inj: "status_code a = status_code b \<Longrightarrow> a = b"
  by (cases a; cases b; simp)

text \<open>The order of the C++ enumeration, as a type class instance.\<close>

instantiation Status :: linorder
begin

definition less_eq_Status :: "Status \<Rightarrow> Status \<Rightarrow> bool" where
  "less_eq_Status a b = (status_code a \<le> status_code b)"

definition less_Status :: "Status \<Rightarrow> Status \<Rightarrow> bool" where
  "less_Status a b = (status_code a < status_code b)"

instance
  by standard (auto simp: less_eq_Status_def less_Status_def dest: status_code_inj)

end

section \<open>The instruction\<close>

datatype InstructionTypes = IT_STORE | IT_LOAD | IT_MOVE | IT_BRANCH | IT_CONDITIONAL | IT_JAL
  | IT_JALR | IT_CSR | IT_VECTOR | IT_WHOLE | IT_OTHER nat

datatype SpecialField = SF_VM | SF_NF | SF_OTHER nat

text \<open>What Mavis answers about a decoded opcode; a special field that Mavis refuses with one of its
  two exceptions is \<^term>\<open>None\<close>.\<close>

record opcode_info =
  oi_isInstType :: "InstructionTypes \<Rightarrow> bool"
  oi_source_list :: "op_element list"
  oi_dest_list :: "op_element list"
  oi_source_field :: "OperandFieldID \<Rightarrow> nat"
  oi_dest_field :: "OperandFieldID \<Rightarrow> nat"
  oi_special_field :: "SpecialField \<Rightarrow> nat option"
  oi_hasImmediate :: bool
  oi_immediate :: nat
  oi_mnemonic :: string
  oi_mavis_uid :: nat
  oi_data_size :: nat

type_synonym ptr = nat

text \<open>The place in the trace an instruction was read from: an iterator of the STF reader, given by the position it
  points to (a default-constructed one points nowhere), or the index in the JSON array.\<close>

datatype RewindIterator = STFIterator "nat option" | JSONIterator nat

record Inst =
  i_opcode_info :: opcode_info
  i_arch_info :: InstArchInfo
  i_dest_ops :: "OpInfoWithRegfile list"
  i_src_ops :: "OpInfoWithRegfile list"
  i_pc :: "64 word"
  i_target_vaddr :: "64 word"
  i_is_oldest :: bool
  i_unique_id :: nat
  i_program_id :: nat
  i_uopid :: "nat option"
  i_program_id_increment :: nat
  i_is_speculative :: bool
  i_is_store :: bool
  i_is_load :: bool
  i_is_move :: bool
  i_is_transfer :: bool
  i_is_branch :: bool
  i_is_condbranch :: bool
  i_is_call :: bool
  i_is_csr :: bool
  i_is_return :: bool
  i_is_cof :: bool
  i_has_immediate :: bool
  i_rob_targeted :: bool
  i_has_load_producer :: bool
  i_is_vector :: bool
  i_is_vector_whole_reg :: bool
  i_vector_config :: VectorConfig
  i_has_tail :: bool
  i_is_blocking_vset :: bool
  i_parent_uop :: "ptr option"
  i_is_mispredicted :: bool
  i_is_taken_branch :: bool
  i_last_in_fetch_block :: bool
  i_ev_retire :: bool
  i_status :: Status
  i_extended_status :: Status
  i_rewind_iter :: RewindIterator
  i_src_mask :: "RegFile \<Rightarrow> nat set"
  i_dest_mask :: "RegFile \<Rightarrow> nat set"
  i_data_mask :: "RegFile \<Rightarrow> nat set"
  i_rename_data :: RenameData

type_synonym heap = "ptr \<Rightarrow> Inst"

definition isCallInstruction :: "opcode_info \<Rightarrow> bool" where
  "isCallInstruction oi =
     (if oi_isInstType oi IT_JAL \<or> oi_isInstType oi IT_JALR
      then (let dest = oi_dest_field oi OF_RD in dest = 1 \<or> dest = 5)
      else False)"

definition isReturnInstruction :: "opcode_info \<Rightarrow> bool" where
  "isReturnInstruction oi =
     (if oi_isInstType oi IT_JALR
      then (let dest = oi_dest_field oi OF_RD; src = oi_source_field oi OF_RS1
            in if dest \<noteq> src then src = 1 \<or> src = 5 else False)
      else False)"

text \<open>The constructor; the null check of \<open>inst_arch_info\<close> is the \<^term>\<open>None\<close> case. A constructor
  that throws builds no instruction.\<close>

definition mk_Inst :: "opcode_info \<Rightarrow> InstArchInfo option \<Rightarrow> Inst result" where
  "mk_Inst oi ai_opt =
     (case ai_opt of
        None \<Rightarrow> Inl (UndefinedBehaviour ''null inst_arch_info'')
      | Some ai \<Rightarrow>
     bindE (getOpcodeInfoWithRegFileInfo (oi_dest_list oi)) (\<lambda>dests.
     bindE (getOpcodeInfoWithRegFileInfo (oi_source_list oi)) (\<lambda>srcs.
     bindE (assertE (tgt_pipe ai \<noteq> TP_UNKNOWN) ''Unknown target pipe (execution)'') (\<lambda>_.
     bindE (assertE (execute_time ai \<noteq> 0) ''Unknown execution time (latency)'') (\<lambda>_.
       Inr \<lparr>i_opcode_info = oi, i_arch_info = ai, i_dest_ops = dests, i_src_ops = srcs,
         i_pc = 0, i_target_vaddr = 0, i_is_oldest = False, i_unique_id = 0, i_program_id = 0,
         i_uopid = None, i_program_id_increment = 1, i_is_speculative = False,
         i_is_store = oi_isInstType oi IT_STORE, i_is_load = oi_isInstType oi IT_LOAD,
         i_is_move = oi_isInstType oi IT_MOVE,
         i_is_transfer = (tgt_pipe ai = TP_I2F \<or> tgt_pipe ai = TP_F2I),
         i_is_branch = oi_isInstType oi IT_BRANCH,
         i_is_condbranch = oi_isInstType oi IT_CONDITIONAL,
         i_is_call = isCallInstruction oi, i_is_csr = oi_isInstType oi IT_CSR,
         i_is_return = isReturnInstruction oi, i_is_cof = False,
         i_has_immediate = oi_hasImmediate oi, i_rob_targeted = (tgt_pipe ai = TP_ROB),
         i_has_load_producer = False, i_is_vector = oi_isInstType oi IT_VECTOR,
         i_is_vector_whole_reg = (oi_isInstType oi IT_VECTOR \<and> oi_isInstType oi IT_WHOLE),
         i_vector_config = default_VectorConfig, i_has_tail = False, i_is_blocking_vset = False,
         i_parent_uop = None, i_is_mispredicted = False, i_is_taken_branch = False,
         i_last_in_fetch_block = False, i_ev_retire = False, i_status = BEFORE_FETCH,
         i_extended_status = UNMOD, i_rewind_iter = STFIterator None, i_src_mask = (\<lambda>_. {}), i_dest_mask = (\<lambda>_. {}),
         i_data_mask = (\<lambda>_. {}), i_rename_data = init_RenameData\<rparr>)))))"

text \<open>\<open>setStatus\<close> returns the instruction and whether the ROB's retire event was scheduled.\<close>

definition setStatus :: "Status \<Rightarrow> Inst \<Rightarrow> (Inst \<times> bool) result" where
  "setStatus st i =
     bindE (assertE (i_status i \<noteq> st) ''Status being set twice to the same value'') (\<lambda>_.
     bindE (assertE (i_status i < st) ''Cannot go backwards in status'') (\<lambda>_.
       Inr (i\<lparr>i_status := st\<rparr>, st = COMPLETED \<and> i_ev_retire i)))"

definition setExtendedStatus :: "Status \<Rightarrow> Inst \<Rightarrow> Inst result" where
  "setExtendedStatus st i =
     bindE (assertE (i_extended_status i = UNMOD \<or> i_extended_status i = FUSED
                     \<or> i_extended_status i = FUSION_GHOST)
              ''Attempt to set unknown extended status'') (\<lambda>_.
       Inr (i\<lparr>i_extended_status := st\<rparr>))"

definition setOldest :: "bool \<Rightarrow> Inst \<Rightarrow> Inst" where
  "setOldest oldest i = i\<lparr>i_ev_retire := True, i_is_oldest := oldest\<rparr>"

definition getPipe :: "Inst \<Rightarrow> TargetPipe" where
  "getPipe i = tgt_pipe (i_arch_info i)"

definition getUOpID :: "Inst \<Rightarrow> nat" where
  "getUOpID i = (case i_uopid i of Some u \<Rightarrow> u | None \<Rightarrow> 0)"

definition isLoadStoreInst :: "Inst \<Rightarrow> bool" where
  "isLoadStoreInst i = is_load_store (i_arch_info i)"

definition getExecuteTime :: "Inst \<Rightarrow> nat" where
  "getExecuteTime i = execute_time (i_arch_info i)"

definition getUopGenType :: "Inst \<Rightarrow> UopGenType" where
  "getUopGenType i = uop_gen (i_arch_info i)"

definition isVset :: "Inst \<Rightarrow> bool" where
  "isVset i = is_vset (i_arch_info i)"

definition getRAdr :: "Inst \<Rightarrow> 64 word" where
  "getRAdr i = Bit_Operations.or (i_target_vaddr i) 0x8000000"

definition getMemAccessSize :: "Inst \<Rightarrow> nat" where
  "getMemAccessSize i = (oi_data_size (i_opcode_info i) div 8) mod 4294967296"

definition hasZeroRegSource :: "Inst \<Rightarrow> bool" where
  "hasZeroRegSource i = list_ex (\<lambda>e. oe_field_value e = 0) (oi_source_list (i_opcode_info i))"

definition hasZeroRegDest :: "Inst \<Rightarrow> bool" where
  "hasZeroRegDest i = list_ex (\<lambda>e. oe_field_value e = 0) (oi_dest_list (i_opcode_info i))"

definition getImmediate :: "Inst \<Rightarrow> nat result" where
  "getImmediate i =
     bindE (assertE (i_has_immediate i) ''Instruction does not have an immediate!'') (\<lambda>_.
       Inr (oi_immediate (i_opcode_info i)))"

definition getVectorMaskEnabled :: "Inst \<Rightarrow> bool" where
  "getVectorMaskEnabled i =
     (case oi_special_field (i_opcode_info i) SF_VM of Some vm_bit \<Rightarrow> vm_bit = 0 | None \<Rightarrow> False)"

definition setDataRegister :: "Reg \<Rightarrow> Inst \<Rightarrow> Inst" where
  "setDataRegister r i =
     (let i1 = (if \<not> is_x0 (op_info r)
                then i\<lparr>i_data_mask := (i_data_mask i)(reg_file (op_info r) :=
                        insert (phys_reg r) (i_data_mask i (reg_file (op_info r))))\<rparr>
                else i)
      in i1\<lparr>i_rename_data := setDataReg r (i_rename_data i1)\<rparr>)"

definition addSrcRegister :: "Reg \<Rightarrow> Inst \<Rightarrow> Inst" where
  "addSrcRegister r i =
     (let i1 = (if \<not> is_x0 (op_info r)
                then i\<lparr>i_src_mask := (i_src_mask i)(reg_file (op_info r) :=
                        insert (phys_reg r) (i_src_mask i (reg_file (op_info r))))\<rparr>
                else i)
      in i1\<lparr>i_rename_data := addSource r (i_rename_data i1)\<rparr>)"

definition addDestRegister :: "Reg \<Rightarrow> Inst \<Rightarrow> Inst" where
  "addDestRegister r i = i\<lparr>i_rename_data := addDestination r (i_rename_data i)\<rparr>"

text \<open>A scoreboard is the set of its ready physical registers: \<open>set\<close> adds a bit mask and
  \<open>clearBits\<close> removes one.\<close>

type_synonym scoreboard = "nat set"

definition setDestRegisterBitWithScoreboardUpdate ::
    "Reg \<Rightarrow> Inst \<Rightarrow> scoreboard \<Rightarrow> Inst \<times> scoreboard" where
  "setDestRegisterBitWithScoreboardUpdate r i sb =
     (let rf = reg_file (op_info r);
          mask = insert (phys_reg r) (i_dest_mask i rf)
      in (i\<lparr>i_dest_mask := (i_dest_mask i)(rf := mask)\<rparr>, sb - mask))"

definition addDestRegisterWithScoreboardUpdate ::
    "Reg \<Rightarrow> Inst \<Rightarrow> scoreboard \<Rightarrow> Inst \<times> scoreboard" where
  "addDestRegisterWithScoreboardUpdate r i sb =
     (let (i1, sb1) = (if \<not> is_x0 (op_info r)
                       then setDestRegisterBitWithScoreboardUpdate r i sb else (i, sb))
      in (addDestRegister r i1, sb1))"

section \<open>Sample instructions\<close>

text \<open>An instruction as the constructor builds it, for a given pipe, id and operand lists; the
  witnesses of the development evaluate the model on such instructions.\<close>

definition sample_opcode :: opcode_info where
  "sample_opcode = \<lparr>oi_isInstType = (\<lambda>_. False), oi_source_list = [], oi_dest_list = [],
     oi_source_field = (\<lambda>_. 0), oi_dest_field = (\<lambda>_. 0), oi_special_field = (\<lambda>_. None),
     oi_hasImmediate = False, oi_immediate = 0, oi_mnemonic = ''add'', oi_mavis_uid = 0,
     oi_data_size = 64\<rparr>"

definition sample_Inst ::
    "TargetPipe \<Rightarrow> nat \<Rightarrow> OpInfoWithRegfile list \<Rightarrow> OpInfoWithRegfile list \<Rightarrow> Inst" where
  "sample_Inst pipe uid dests srcs =
     \<lparr>i_opcode_info = sample_opcode,
      i_arch_info = \<lparr>tgt_pipe = pipe, execute_time = 1, uop_gen = UG_NONE,
                     is_load_store = (pipe = TP_LSU), is_vset = (pipe = TP_VSET)\<rparr>,
      i_dest_ops = dests, i_src_ops = srcs, i_pc = 0, i_target_vaddr = 0, i_is_oldest = False,
      i_unique_id = uid, i_program_id = uid, i_uopid = None, i_program_id_increment = 1,
      i_is_speculative = False, i_is_store = False, i_is_load = False, i_is_move = False,
      i_is_transfer = False, i_is_branch = False, i_is_condbranch = False, i_is_call = False,
      i_is_csr = False, i_is_return = False, i_is_cof = False, i_has_immediate = False,
      i_rob_targeted = False, i_has_load_producer = False, i_is_vector = False,
      i_is_vector_whole_reg = False, i_vector_config = default_VectorConfig, i_has_tail = False,
      i_is_blocking_vset = False, i_parent_uop = None, i_is_mispredicted = False,
      i_is_taken_branch = False, i_last_in_fetch_block = False, i_ev_retire = False,
      i_status = DECODED, i_extended_status = UNMOD, i_rewind_iter = STFIterator None, i_src_mask = (\<lambda>_. {}),
      i_dest_mask = (\<lambda>_. {}), i_data_mask = (\<lambda>_. {}), i_rename_data = init_RenameData\<rparr>"

definition int_op :: "nat \<Rightarrow> OperandFieldID \<Rightarrow> OpInfoWithRegfile" where
  "int_op v fid = \<lparr>field_value = v, field_id = fid, reg_file = RF_INTEGER, is_x0 = (v = 0)\<rparr>"

lemma sample_Inst_simps [simp]:
  "i_unique_id (sample_Inst pipe uid dests srcs) = uid"
  "i_status (sample_Inst pipe uid dests srcs) = DECODED"
  "i_dest_ops (sample_Inst pipe uid dests srcs) = dests"
  "i_src_ops (sample_Inst pipe uid dests srcs) = srcs"
  "i_rename_data (sample_Inst pipe uid dests srcs) = init_RenameData"
  by (simp_all add: sample_Inst_def)

section \<open>The life of an instruction\<close>

text \<open>A sequence of status changes.\<close>

definition setStatuses :: "Inst \<Rightarrow> Status list \<Rightarrow> Inst result" where
  "setStatuses i sts = foldE (\<lambda>i1 st. bindE (setStatus st i1) (\<lambda>(i2, _). Inr i2)) i sts"

lemma setStatus_ok_iff:
  "setStatus st i = (if i_status i < st then Inr (i\<lparr>i_status := st\<rparr>, st = COMPLETED \<and> i_ev_retire i)
     else if i_status i = st then Inl (SpartaAssert ''Status being set twice to the same value'')
     else Inl (SpartaAssert ''Cannot go backwards in status''))"
  by (auto simp: setStatus_def)

lemma setStatuses_Cons:
  "setStatuses i (st # sts) = (if i_status i < st then setStatuses (i\<lparr>i_status := st\<rparr>) sts
     else if i_status i = st then Inl (SpartaAssert ''Status being set twice to the same value'')
     else Inl (SpartaAssert ''Cannot go backwards in status''))"
  by (simp add: setStatuses_def setStatus_ok_iff)

text \<open>The status of an instruction only moves forward. A sequence of status changes passes the
  checks of \<open>setStatus\<close> exactly when the statuses increase strictly from the current one, and then the
  instruction differs from the old one in its status only, which is the last of the sequence.\<close>

theorem status_only_moves_forward:
  "setStatuses i sts = Inr i' \<longleftrightarrow>
     sorted_wrt (<) (i_status i # sts) \<and> i' = i\<lparr>i_status := last (i_status i # sts)\<rparr>"
proof (induction sts arbitrary: i)
  case Nil
  have "i\<lparr>i_status := i_status i\<rparr> = i" by (cases i) simp
  then show ?case by (auto simp: setStatuses_def)
next
  case (Cons st sts)
  show ?case
  proof (cases "i_status i < st")
    case True
    then have "sorted_wrt (<) (i_status i # st # sts) = sorted_wrt (<) (st # sts)"
      by (auto dest: less_trans)
    with True Cons.IH[of "i\<lparr>i_status := st\<rparr>"] show ?thesis by (simp add: setStatuses_Cons)
  next
    case False
    then show ?thesis by (auto simp: setStatuses_Cons)
  qed
qed

end
