(* ===== verification/FlushMgr.thy ===== *)
theory FlushMgr
  imports InstModel
begin

text \<open>
  The flush manager (\<open>core/FlushManager.hpp\<close>): the flushing criteria that every unit receives, the
  capture of the oldest request of a cycle and its forwarding to the lower or the upper pipeline.
  The specification of a flush is the set of unique ids it removes (\<open>flushed_ids\<close>); capturing
  requests implements the union of what the requests ask for.
\<close>

datatype FlushCause = TRAP | MISPREDICTION | TARGET_MISPREDICTION | MISFETCH | POST_SYNC | UNKNOWN

fun determineInclusive :: "FlushCause \<Rightarrow> bool result" where
  "determineInclusive TRAP = Inr True"
| "determineInclusive MISFETCH = Inr True"
| "determineInclusive MISPREDICTION = Inr False"
| "determineInclusive TARGET_MISPREDICTION = Inr False"
| "determineInclusive POST_SYNC = Inr False"
| "determineInclusive UNKNOWN = Inl (SpartaAssert ''Unknown flush cause'')"

record FlushingCriteria =
  fc_cause :: FlushCause
  fc_is_inclusive :: bool
  fc_inst :: ptr

definition mk_FlushingCriteria :: "FlushCause \<Rightarrow> ptr \<Rightarrow> FlushingCriteria result" where
  "mk_FlushingCriteria cause p =
     bindE (determineInclusive cause) (\<lambda>inc.
       Inr \<lparr>fc_cause = cause, fc_is_inclusive = inc, fc_inst = p\<rparr>)"

definition isLowerPipeFlush :: "FlushingCriteria \<Rightarrow> bool" where
  "isLowerPipeFlush c = (fc_cause c = MISFETCH)"

definition includedInFlush :: "heap \<Rightarrow> FlushingCriteria \<Rightarrow> ptr \<Rightarrow> bool" where
  "includedInFlush h c other =
     (if fc_is_inclusive c then i_unique_id (h (fc_inst c)) \<le> i_unique_id (h other)
      else i_unique_id (h (fc_inst c)) < i_unique_id (h other))"

datatype flush_out = OutFlushLower FlushingCriteria | OutFlushUpper FlushingCriteria

record flush_manager =
  fm_pending :: "FlushingCriteria option"
  fm_ev_flush :: bool

definition init_flush_manager :: flush_manager where
  "init_flush_manager = \<lparr>fm_pending = None, fm_ev_flush = False\<rparr>"

definition receiveFlush :: "heap \<Rightarrow> FlushingCriteria \<Rightarrow> flush_manager \<Rightarrow> flush_manager" where
  "receiveFlush h flush_data fm =
     (let fm1 = fm\<lparr>fm_ev_flush := True\<rparr> in
      case fm_pending fm1 of
        Some pending \<Rightarrow>
          (if includedInFlush h pending (fc_inst flush_data) then fm1
           else fm1\<lparr>fm_pending := Some flush_data\<rparr>)
      | None \<Rightarrow> fm1\<lparr>fm_pending := Some flush_data\<rparr>)"

definition forwardFlush :: "flush_manager \<Rightarrow> (flush_manager \<times> flush_out) result" where
  "forwardFlush fm =
     (case fm_pending fm of
        None \<Rightarrow> Inl (SpartaAssert ''no flush to forward onwards?'')
      | Some flush_data \<Rightarrow>
          Inr (fm\<lparr>fm_pending := None, fm_ev_flush := False\<rparr>,
               if isLowerPipeFlush flush_data then OutFlushLower flush_data
               else OutFlushUpper flush_data))"

text \<open>Specification: what a flush removes.\<close>

definition flushed_ids :: "heap \<Rightarrow> FlushingCriteria \<Rightarrow> nat set" where
  "flushed_ids h c = (if fc_is_inclusive c then {i_unique_id (h (fc_inst c)) ..}
                      else {i_unique_id (h (fc_inst c)) <..})"

lemma includedInFlush_iff: "includedInFlush h c p \<longleftrightarrow> i_unique_id (h p) \<in> flushed_ids h c"
  by (simp add: includedInFlush_def flushed_ids_def)

lemma includedInFlush_mono:
  "includedInFlush h c p \<Longrightarrow> i_unique_id (h p) \<le> i_unique_id (h q) \<Longrightarrow> includedInFlush h c q"
  by (auto simp: includedInFlush_def split: if_splits)

lemma flushed_ids_linear:
  "(if includedInFlush h c (fc_inst d) then flushed_ids h c else flushed_ids h d)
     = flushed_ids h c \<union> flushed_ids h d"
  by (auto simp: includedInFlush_def flushed_ids_def)

definition pending_ids :: "heap \<Rightarrow> flush_manager \<Rightarrow> nat set" where
  "pending_ids h fm = (case fm_pending fm of None \<Rightarrow> {} | Some c \<Rightarrow> flushed_ids h c)"

lemma receiveFlush_pending_ids:
  "pending_ids h (receiveFlush h d fm) = pending_ids h fm \<union> flushed_ids h d"
proof (cases "fm_pending fm")
  case (Some c)
  then show ?thesis
    using flushed_ids_linear[of h c d] by (simp add: receiveFlush_def pending_ids_def Let_def split: if_splits)
qed (simp add: receiveFlush_def pending_ids_def Let_def)

lemma receiveFlush_pending_Some [simp]: "\<exists>c. fm_pending (receiveFlush h d fm) = Some c"
  by (simp add: receiveFlush_def Let_def split: option.split)

lemma fold_receiveFlush_pending_ids:
  "pending_ids h (fold (receiveFlush h) ds fm) = pending_ids h fm \<union> (\<Union>d\<in>set ds. flushed_ids h d)"
  by (induction ds arbitrary: fm) (auto simp: receiveFlush_pending_ids)

lemma fold_receiveFlush_Some:
  "ds \<noteq> [] \<Longrightarrow> \<exists>c. fm_pending (fold (receiveFlush h) ds fm) = Some c"
  by (induction ds arbitrary: fm rule: rev_induct) simp_all

lemma fold_receiveFlush_origin:
  "fm_pending (fold (receiveFlush h) ds fm) = Some c \<Longrightarrow> c \<in> set ds \<or> fm_pending fm = Some c"
proof (induction ds arbitrary: fm)
  case (Cons d ds)
  from Cons.IH[of "receiveFlush h d fm"] Cons.prems show ?case
    by (auto simp: receiveFlush_def Let_def split: option.splits if_splits)
qed simp

text \<open>C24. The flush manager keeps the oldest request. After any non-empty sequence of requests in a
  cycle, forwarding succeeds, sends one of the requests, to the lower pipeline exactly for a misfetch
  and to the upper one otherwise, and that request alone flushes everything that any of the requests
  flushes, and nothing else; nothing is left pending.\<close>

theorem flush_manager_forwards_union:
  assumes "ds \<noteq> []"
  shows "\<exists>fm' c. forwardFlush (fold (receiveFlush h) ds init_flush_manager)
      = Inr (fm', if fc_cause c = MISFETCH then OutFlushLower c else OutFlushUpper c)
    \<and> c \<in> set ds \<and> fm_pending fm' = None
    \<and> (\<forall>p. includedInFlush h c p \<longleftrightarrow> (\<exists>d\<in>set ds. includedInFlush h d p))"
proof -
  let ?fm = "fold (receiveFlush h) ds init_flush_manager"
  from fold_receiveFlush_Some[OF assms] obtain c where c: "fm_pending ?fm = Some c" by blast
  have "c \<in> set ds" using fold_receiveFlush_origin[OF c] by (simp add: init_flush_manager_def)
  moreover have "flushed_ids h c = (\<Union>d\<in>set ds. flushed_ids h d)"
    using fold_receiveFlush_pending_ids[of h ds init_flush_manager] c
    by (simp add: pending_ids_def init_flush_manager_def)
  ultimately show ?thesis using c
    by (auto simp: forwardFlush_def isLowerPipeFlush_def includedInFlush_iff)
qed

theorem flush_manager_forwards_union_witness:
  "\<exists>fm' c. forwardFlush (fold (receiveFlush (\<lambda>p. sample_Inst TP_INT p [] []))
      [\<lparr>fc_cause = MISPREDICTION, fc_is_inclusive = False, fc_inst = 9\<rparr>,
       \<lparr>fc_cause = MISFETCH, fc_is_inclusive = True, fc_inst = 4\<rparr>] init_flush_manager)
      = Inr (fm', if fc_cause c = MISFETCH then OutFlushLower c else OutFlushUpper c)
    \<and> includedInFlush (\<lambda>p. sample_Inst TP_INT p [] []) c 4"
proof -
  let ?h = "\<lambda>p. sample_Inst TP_INT p [] []"
  let ?ds = "[\<lparr>fc_cause = MISPREDICTION, fc_is_inclusive = False, fc_inst = 9\<rparr>,
       \<lparr>fc_cause = MISFETCH, fc_is_inclusive = True, fc_inst = 4\<rparr>]"
  from flush_manager_forwards_union[of ?ds ?h] obtain fm' c where
    "forwardFlush (fold (receiveFlush ?h) ?ds init_flush_manager)
      = Inr (fm', if fc_cause c = MISFETCH then OutFlushLower c else OutFlushUpper c)"
    "\<forall>p. includedInFlush ?h c p \<longleftrightarrow> (\<exists>d\<in>set ?ds. includedInFlush ?h d p)" by blast
  moreover have "\<exists>d\<in>set ?ds. includedInFlush ?h d 4" by (simp add: includedInFlush_def)
  ultimately show ?thesis by blast
qed

end
