(* ===== verification/RenameUnit.thy ===== *)
theory RenameUnit
  imports FlushMgr
begin

text \<open>
  The rename unit (\<open>core/rename/Rename.hpp\<close>, \<open>core/rename/Rename.cpp\<close>): the map tables, the
  reference counters and free lists of the three register files, the uop queue, the queue of
  in-flight instructions, and every handler of the unit. What a handler sends on a port and the
  events it schedules are appended to the log \<open>rn_out\<close>. The stall counters and the histogram are
  statistics and are left out; \<open>current_stall_\<close> is kept.

  A cell of \<open>map_table_\<close> that the constructor leaves uninitialised (integer x0) is \<^term>\<open>None\<close>.
\<close>

section \<open>State\<close>

definition NUM_RISCV_REGS :: nat where
  "NUM_RISCV_REGS = 32"

datatype StallReason = RN_NO_DECODE_INSTS | RN_NO_DISPATCH_CREDITS | RN_NO_INTEGER_RENAMES
  | RN_NO_FLOAT_RENAMES | RN_NO_VECTOR_RENAMES | RN_NOT_STALLED

record Producer =
  cnt :: nat
  producer_id :: nat
  producer :: "ptr option"
  producer_is_load :: bool

definition mk_Producer :: "nat \<Rightarrow> Producer" where
  "mk_Producer c = \<lparr>cnt = c, producer_id = 0, producer = None, producer_is_load = False\<rparr>"

record RegfileComponents =
  rc_scoreboard :: scoreboard
  reference_counter :: "Producer list"
  freelist :: "nat list"

record RenameParameterSet =
  p_num_to_rename :: nat
  p_rename_queue_depth :: nat
  p_num_integer_renames :: nat
  p_num_float_renames :: nat
  p_num_vector_renames :: nat
  p_partial_rename :: bool
  p_move_elimination :: bool

datatype rename_out =
    OutUopQueueCredits nat
  | OutDispatchQueueWrite "ptr list"
  | EvScheduleRename nat
  | EvRenameInsts

record Rename =
  rn_credits_dispatch :: nat
  rn_uop_queue :: "ptr list"
  rn_regcount :: "RegFile \<Rightarrow> nat"
  rn_map_table :: "RegFile \<Rightarrow> nat option list"
  rn_inst_queue :: "ptr list"
  rn_current_stall :: StallReason
  rn_comps :: "RegFile \<Rightarrow> RegfileComponents"
  rn_move_eliminations :: nat
  rn_out :: "rename_out list"

definition rn_emit :: "rename_out \<Rightarrow> Rename \<Rightarrow> Rename" where
  "rn_emit e s = s\<lparr>rn_out := rn_out s @ [e]\<rparr>"

definition setStall :: "StallReason \<Rightarrow> Rename \<Rightarrow> Rename" where
  "setStall reason s = s\<lparr>rn_current_stall := reason\<rparr>"

section \<open>Construction\<close>

definition setup_map :: "RegFile \<Rightarrow> nat \<Rightarrow> nat option list \<times> nat" where
  "setup_map rf num_regs_reserved =
     (let starting_arf = (if rf = RF_INTEGER then 1 else 0)
      in foldl (\<lambda>(mt, n) areg. (mt[areg := Some n], n + 1))
           (replicate NUM_RISCV_REGS None, num_regs_reserved) [starting_arf ..< NUM_RISCV_REGS])"

definition setup_freelists :: "RegFile \<Rightarrow> nat \<Rightarrow> nat \<Rightarrow> RegfileComponents" where
  "setup_freelists rf num_renames num_regs_reserved =
     \<lparr>rc_scoreboard = {},
      reference_counter =
        (if rf = RF_INTEGER then [mk_Producer 0] else [])
        @ map (\<lambda>_. mk_Producer 1) [(if rf = RF_INTEGER then 1 else 0) ..< num_regs_reserved]
        @ map (\<lambda>_. mk_Producer 0) [num_regs_reserved ..< num_renames],
      freelist = [num_regs_reserved ..< num_renames]\<rparr>"

definition num_renames_of :: "RenameParameterSet \<Rightarrow> RegFile \<Rightarrow> nat" where
  "num_renames_of p rf =
     (case rf of RF_INTEGER \<Rightarrow> p_num_integer_renames p | RF_FLOAT \<Rightarrow> p_num_float_renames p
      | RF_VECTOR \<Rightarrow> p_num_vector_renames p | RF_INVALID \<Rightarrow> 0)"

definition regs_reserved_init :: "RegFile \<Rightarrow> nat" where
  "regs_reserved_init rf = (if rf = RF_INTEGER then 1 else 0)"

definition mk_Rename :: "RenameParameterSet \<Rightarrow> Rename" where
  "mk_Rename p =
     \<lparr>rn_credits_dispatch = 0, rn_uop_queue = [], rn_regcount = (\<lambda>_. 0),
      rn_map_table = (\<lambda>rf. fst (setup_map rf (regs_reserved_init rf))),
      rn_inst_queue = [], rn_current_stall = RN_NO_DECODE_INSTS,
      rn_comps = (\<lambda>rf. setup_freelists rf (num_renames_of p rf)
                         (snd (setup_map rf (regs_reserved_init rf)))),
      rn_move_eliminations = 0, rn_out = []\<rparr>"

definition setupRename :: "RenameParameterSet \<Rightarrow> Rename \<Rightarrow> Rename" where
  "setupRename p s =
     (let bits = (\<lambda>rf. set [(if rf = RF_INTEGER then 1 else 0) ..< NUM_RISCV_REGS]);
          s1 = s\<lparr>rn_comps := (\<lambda>rf. (rn_comps s rf)\<lparr>rc_scoreboard :=
                    rc_scoreboard (rn_comps s rf) \<union> bits rf\<rparr>)\<rparr>
      in rn_emit (OutUopQueueCredits (p_rename_queue_depth p)) s1)"

section \<open>Credits from dispatch\<close>

definition creditsDispatchQueue :: "nat \<Rightarrow> Rename \<Rightarrow> Rename" where
  "creditsDispatchQueue credits s =
     (let s1 = s\<lparr>rn_credits_dispatch := add32 (rn_credits_dispatch s) credits\<rparr>
      in if length (rn_uop_queue s1) > 0 then rn_emit (EvScheduleRename 0) s1
         else setStall RN_NO_DECODE_INSTS s1)"

section \<open>Reference counters\<close>

definition ref_at :: "RegfileComponents \<Rightarrow> nat \<Rightarrow> Producer result" where
  "ref_at rc p = (if p < length (reference_counter rc) then Inr (reference_counter rc ! p)
                  else Inl (UndefinedBehaviour ''reference_counter''))"

definition set_ref :: "nat \<Rightarrow> Producer \<Rightarrow> RegfileComponents \<Rightarrow> RegfileComponents" where
  "set_ref p pr rc = rc\<lparr>reference_counter := (reference_counter rc)[p := pr]\<rparr>"

definition set_comp :: "RegFile \<Rightarrow> RegfileComponents \<Rightarrow> Rename \<Rightarrow> Rename" where
  "set_comp rf rc s = s\<lparr>rn_comps := (rn_comps s)(rf := rc)\<rparr>"

text \<open>Drop one reference to \<open>p\<close> and return the register to the free list at zero: the common tail
  of reclaiming at retirement and at a flush.\<close>

definition release_ref :: "nat \<Rightarrow> RegfileComponents \<Rightarrow> RegfileComponents result" where
  "release_ref p rc =
     bindE (ref_at rc p) (\<lambda>ref.
     bindE (assertE (cnt ref \<noteq> 0) ''reclaim had a 0 ref'') (\<lambda>_.
       let ref1 = ref\<lparr>cnt := cnt ref - 1\<rparr>;
           rc1 = set_ref p ref1 rc
       in Inr (if cnt ref1 = 0 then rc1\<lparr>freelist := freelist rc1 @ [p]\<rparr> else rc1)))"

section \<open>Retirement acknowledge\<close>

definition reclaim_rename :: "Rename \<Rightarrow> Reg \<Rightarrow> Rename result" where
  "reclaim_rename s dest =
     (if \<not> is_x0 (op_info dest)
      then bindE (assertE (prev_dest dest \<noteq> UINT32_MAX) ''prev_dest'') (\<lambda>_.
           bindE (release_ref (prev_dest dest) (rn_comps s (reg_file (op_info dest)))) (\<lambda>rc.
             Inr (set_comp (reg_file (op_info dest)) rc s)))
      else Inr s)"

definition ack_inst :: "heap \<Rightarrow> Rename \<Rightarrow> ptr \<Rightarrow> Rename result" where
  "ack_inst h s p =
     bindE (assertE (i_status (h p) = RETIRED) ''Get ROB Ack, but the inst has not retired yet'') (\<lambda>_.
     bindE (foldE (\<lambda>s1 rf. foldE reclaim_rename s1 (rd_dest (i_rename_data (h p)) rf)) s regfiles)
       (\<lambda>s2.
     (case rn_inst_queue s2 of
        [] \<Rightarrow> Inl (SpartaAssert ''ROB and rename inst_queue out of sync'')
      | oldest # rest \<Rightarrow>
          bindE (assertE (i_unique_id (h oldest) = i_unique_id (h p))
                   ''ROB and rename inst_queue out of sync'') (\<lambda>_.
            Inr (s2\<lparr>rn_inst_queue := rest\<rparr>)))))"

definition getAckFromROB :: "heap \<Rightarrow> ptr list \<Rightarrow> Rename \<Rightarrow> Rename result" where
  "getAckFromROB h grp s =
     bindE (foldE (ack_inst h) s grp) (\<lambda>s1.
       Inr (if rn_credits_dispatch s1 > 0 \<and> length (rn_uop_queue s1) > 0
            then rn_emit (EvScheduleRename 0) s1 else s1))"

section \<open>Flush\<close>

definition undo_dest :: "Rename \<Rightarrow> Reg \<Rightarrow> Rename result" where
  "undo_dest s dest =
     (if \<not> is_x0 (op_info dest)
      then (let rf = reg_file (op_info dest) in
        if field_value (op_info dest) < length (rn_map_table s rf)
        then (let s1 = s\<lparr>rn_map_table := (rn_map_table s)(rf :=
                        (rn_map_table s rf)[field_value (op_info dest) := Some (prev_dest dest)])\<rparr>
              in bindE (release_ref (phys_reg dest) (rn_comps s1 rf)) (\<lambda>rc. Inr (set_comp rf rc s1)))
        else Inl (UndefinedBehaviour ''map_table''))
      else Inr s)"

definition undo_regfile :: "ptr \<Rightarrow> Rename \<times> heap \<Rightarrow> RegFile \<Rightarrow> (Rename \<times> heap) result" where
  "undo_regfile p sh rf =
     (case sh of (s, h) \<Rightarrow>
       bindE (foldE undo_dest s (rd_dest (i_rename_data (h p)) rf)) (\<lambda>s1.
         Inr (s1, h(p := (h p)\<lparr>i_rename_data := clear_RenameData rf (i_rename_data (h p))\<rparr>))))"

definition undo_inst :: "ptr \<Rightarrow> Rename \<times> heap \<Rightarrow> (Rename \<times> heap) result" where
  "undo_inst p sh = foldE (undo_regfile p) sh regfiles"

text \<open>The walk over \<open>inst_queue_\<close> from its back; the list holds what is left, youngest first.\<close>

fun flush_loop :: "FlushingCriteria \<Rightarrow> ptr list \<Rightarrow> Rename \<times> heap \<Rightarrow> (Rename \<times> heap) result" where
  "flush_loop c [] sh = Inr sh"
| "flush_loop c (p # ps) sh =
     (if \<not> includedInFlush (snd sh) c p then Inr sh
      else bindE (undo_inst p sh) (\<lambda>(s1, h1).
             flush_loop c ps (s1\<lparr>rn_inst_queue := rev ps\<rparr>, h1)))"

definition handleFlush :: "FlushingCriteria \<Rightarrow> Rename \<times> heap \<Rightarrow> (Rename \<times> heap) result" where
  "handleFlush c sh =
     bindE (flush_loop c (rev (rn_inst_queue (fst sh))) sh) (\<lambda>(s1, h1).
       let s2 = setStall RN_NO_DECODE_INSTS s1
       in Inr (if rn_uop_queue s2 \<noteq> []
               then (rn_emit (OutUopQueueCredits (length (rn_uop_queue s2))) s2)\<lparr>rn_uop_queue := []\<rparr>
               else s2, h1))"

section \<open>Instructions from decode\<close>

definition count_dest :: "(RegFile \<Rightarrow> nat) \<Rightarrow> OpInfoWithRegfile \<Rightarrow> RegFile \<Rightarrow> nat" where
  "count_dest c dest =
     (if \<not> is_x0 dest then c(reg_file dest := c (reg_file dest) + 1) else c)"

fun regcount_loop :: "bool \<Rightarrow> heap \<Rightarrow> ptr list \<Rightarrow> (RegFile \<Rightarrow> nat) \<Rightarrow> RegFile \<Rightarrow> nat" where
  "regcount_loop partial h [] c = c"
| "regcount_loop partial h (p # ps) c =
     (let c1 = foldl count_dest c (i_dest_ops (h p))
      in if partial then c1 else regcount_loop partial h ps c1)"

definition updateRegcountData :: "RenameParameterSet \<Rightarrow> heap \<Rightarrow> Rename \<Rightarrow> Rename" where
  "updateRegcountData pr h s =
     s\<lparr>rn_regcount := regcount_loop (p_partial_rename pr) h (rn_uop_queue s) (\<lambda>_. 0)\<rparr>"

definition push_uop :: "RenameParameterSet \<Rightarrow> Rename \<Rightarrow> ptr \<Rightarrow> Rename result" where
  "push_uop pr s p =
     bindE (assertE (length (rn_uop_queue s) < p_rename_queue_depth pr) ''uop queue full'') (\<lambda>_.
       Inr (s\<lparr>rn_uop_queue := rn_uop_queue s @ [p]\<rparr>))"

definition decodedInstructions ::
    "RenameParameterSet \<Rightarrow> heap \<Rightarrow> ptr list \<Rightarrow> Rename \<Rightarrow> Rename result" where
  "decodedInstructions pr h insts s =
     bindE (foldE (push_uop pr) s insts) (\<lambda>s1.
       Inr (rn_emit (EvScheduleRename 0) (updateRegcountData pr h s1)))"

section \<open>Scheduling\<close>

definition stall_reason_map :: "RegFile \<Rightarrow> StallReason" where
  "stall_reason_map rf =
     (case rf of RF_INTEGER \<Rightarrow> RN_NO_INTEGER_RENAMES | RF_FLOAT \<Rightarrow> RN_NO_FLOAT_RENAMES
      | RF_VECTOR \<Rightarrow> RN_NO_VECTOR_RENAMES | RF_INVALID \<Rightarrow> RN_NOT_STALLED)"

fun enough_loop :: "Rename \<Rightarrow> RegFile list \<Rightarrow> bool \<times> StallReason" where
  "enough_loop s [] = (True, RN_NOT_STALLED)"
| "enough_loop s (rf # rfs) =
     (if rn_regcount s rf > length (freelist (rn_comps s rf)) then (False, stall_reason_map rf)
      else enough_loop s rfs)"

definition enoughRenames :: "Rename \<Rightarrow> bool \<times> StallReason" where
  "enoughRenames s = enough_loop s regfiles"

definition scheduleRenaming :: "RenameParameterSet \<Rightarrow> Rename \<Rightarrow> Rename" where
  "scheduleRenaming pr s0 =
     (let s = setStall RN_NOT_STALLED s0;
          disp_size = length (rn_uop_queue s)
      in if disp_size = 0 then setStall RN_NO_DECODE_INSTS s
         else
           let (have_dispatch_credits, s1) =
                 (if \<not> p_partial_rename pr
                  then (if rn_credits_dispatch s < disp_size
                        then (False, setStall RN_NO_DISPATCH_CREDITS s) else (True, s))
                  else (rn_credits_dispatch s > 0, s))
           in if have_dispatch_credits
              then (case enoughRenames s1 of (enough_renames, stalled_regfile) \<Rightarrow>
                      if enough_renames then rn_emit EvRenameInsts s1
                      else setStall stalled_regfile s1)
              else (if rn_credits_dispatch s1 = 0 then setStall RN_NO_DISPATCH_CREDITS s1 else s1))"

section \<open>Renaming\<close>

definition lookup_map :: "Rename \<Rightarrow> RegFile \<Rightarrow> nat \<Rightarrow> nat result" where
  "lookup_map s rf arch =
     (if arch < length (rn_map_table s rf)
      then (case rn_map_table s rf ! arch of
              Some p \<Rightarrow> Inr p | None \<Rightarrow> Inl (UndefinedBehaviour ''uninitialised map_table''))
      else Inl (UndefinedBehaviour ''map_table''))"

definition rename_source :: "Rename \<Rightarrow> Inst \<Rightarrow> OpInfoWithRegfile \<Rightarrow> Inst result" where
  "rename_source s i src =
     (let is_rs2 = (field_id src = OF_RS2); is_rs3 = (field_id src = OF_RS3) in
      if is_x0 src
      then Inr (if is_rs2 then setDataRegister (mk_Reg (field_value src) src) i else i)
      else
        bindE (lookup_map s (reg_file src) (field_value src)) (\<lambda>prf.
        bindE (if isLoadStoreInst i
               then bindE (ref_at (rn_comps s (reg_file src)) prf) (\<lambda>ref.
                      Inr (if producer_is_load ref then i\<lparr>i_has_load_producer := True\<rparr> else i))
               else Inr i) (\<lambda>i1.
        Inr (if (is_rs2 \<or> is_rs3) \<and> isLoadStoreInst i1
             then setDataRegister (mk_Reg prf src) i1
             else addSrcRegister (mk_Reg prf src) i1))))"

definition renameSources :: "Rename \<Rightarrow> Inst \<Rightarrow> Inst result" where
  "renameSources s i = foldE (rename_source s) i (i_src_ops i)"

text \<open>The physical register of a destination: the source's own register for an eliminated move,
  else the head of the free list. The last component says whether the move was eliminated.\<close>

definition choose_prf ::
    "bool \<Rightarrow> Inst \<Rightarrow> RegFile \<Rightarrow> RegfileComponents \<Rightarrow> (nat \<times> RegfileComponents \<times> bool) result" where
  "choose_prf move_elim i rf rc =
     (case freelist rc of
        [] \<Rightarrow> Inl (SpartaAssert ''Freelist should never be empty'')
      | p # fl \<Rightarrow>
          (if move_elim \<and> i_is_move i \<and> rd_src (i_rename_data i) rf \<noteq> []
           then Inr (phys_reg (hd (rd_src (i_rename_data i) rf)), rc, True)
           else Inr (p, rc\<lparr>freelist := fl\<rparr>, False)))"

definition rename_dest ::
    "RenameParameterSet \<Rightarrow> ptr \<Rightarrow> Rename \<times> Inst \<Rightarrow> OpInfoWithRegfile \<Rightarrow> (Rename \<times> Inst) result" where
  "rename_dest pr self si dest =
     (case si of (s, i) \<Rightarrow>
      if is_x0 dest then Inr (s, i)
      else
        let rf = reg_file dest; arch = field_value dest in
        bindE (choose_prf (p_move_elimination pr) i rf (rn_comps s rf)) (\<lambda>(prf, rc, elim).
        bindE (assertE (prf \<noteq> UINT32_MAX) ''PRF not assigned'') (\<lambda>_.
        bindE (lookup_map s rf arch) (\<lambda>prev.
        bindE (ref_at rc prf) (\<lambda>ref.
          let renamed_dst = mk_Reg_prev prf dest prev;
              ref1 = ref\<lparr>cnt := cnt ref + 1, producer_id := i_unique_id i, producer := Some self,
                         producer_is_load := i_is_load i\<rparr>;
              i1 = (if elim then i\<lparr>i_rob_targeted := True\<rparr> else i);
              (i2, sb) = (if elim then (addDestRegister renamed_dst i1, rc_scoreboard rc)
                          else addDestRegisterWithScoreboardUpdate renamed_dst i1 (rc_scoreboard rc));
              rc1 = (set_ref prf ref1 rc)\<lparr>rc_scoreboard := sb\<rparr>;
              s1 = s\<lparr>rn_map_table := (rn_map_table s)(rf := (rn_map_table s rf)[arch := Some prf]),
                     rn_move_eliminations := rn_move_eliminations s + (if elim then 1 else 0)\<rparr>
          in Inr (set_comp rf rc1 s1, i2))))))"

definition renameDests ::
    "RenameParameterSet \<Rightarrow> ptr \<Rightarrow> Rename \<times> Inst \<Rightarrow> (Rename \<times> Inst) result" where
  "renameDests pr self si = foldE (rename_dest pr self) si (i_dest_ops (snd si))"

text \<open>One pass of the loop body on the instruction at the front of the uop queue.\<close>

definition rename_inst ::
    "RenameParameterSet \<Rightarrow> ptr \<Rightarrow> Rename \<times> heap \<Rightarrow> (Rename \<times> heap) result" where
  "rename_inst pr p sh =
     (case sh of (s, h) \<Rightarrow>
        bindE (renameSources s (h p)) (\<lambda>i1.
        bindE (renameDests pr p (s, i1)) (\<lambda>(s2, i2).
        bindE (setStatus RENAMED i2) (\<lambda>(i3, _). Inr (s2, h(p := i3))))))"

fun rename_loop ::
    "RenameParameterSet \<Rightarrow> nat \<Rightarrow> Rename \<times> heap \<Rightarrow> ptr list
       \<Rightarrow> ((Rename \<times> heap) \<times> ptr list \<times> nat) result" where
  "rename_loop pr 0 sh insts = Inr (sh, insts, 0)"
| "rename_loop pr (Suc n) sh insts =
     (case rn_uop_queue (fst sh) of
        [] \<Rightarrow> Inl (SpartaAssert ''uop_queue access'')
      | p # rest \<Rightarrow>
          (if p_partial_rename pr \<and> \<not> fst (enoughRenames (fst sh))
           then Inr ((setStall (snd (enoughRenames (fst sh))) (fst sh), snd sh), insts, Suc n)
           else
             bindE (rename_inst pr p sh) (\<lambda>(s2, h2).
               let s3 = s2\<lparr>rn_uop_queue := rest, rn_inst_queue := rn_inst_queue s2 @ [p]\<rparr>;
                   s4 = (if p_partial_rename pr \<and> rest \<noteq> [] then updateRegcountData pr h2 s3 else s3)
               in rename_loop pr n (s4, h2) (insts @ [p]))))"

definition send_renamed :: "ptr list \<Rightarrow> Rename \<Rightarrow> Rename" where
  "send_renamed insts s =
     (if insts \<noteq> []
      then rn_emit (OutUopQueueCredits (length insts))
             ((rn_emit (OutDispatchQueueWrite insts) s)
                \<lparr>rn_credits_dispatch := sub32 (rn_credits_dispatch s) (length insts)\<rparr>)
      else s)"

definition renameInstructions ::
    "RenameParameterSet \<Rightarrow> Rename \<times> heap \<Rightarrow> (Rename \<times> heap) result" where
  "renameInstructions pr sh =
     (let num_to_rename = min (rn_credits_dispatch (fst sh))
                            (min (length (rn_uop_queue (fst sh))) (p_num_to_rename pr)) in
      bindE (assertE (num_to_rename > 0) ''no credits and/or no insts'') (\<lambda>_.
      bindE (rename_loop pr num_to_rename sh []) (\<lambda>((s1, h1), insts, remaining).
      bindE (assertE (\<not> p_partial_rename pr \<longrightarrow> remaining = 0)
               ''Still have instructions to rename'') (\<lambda>_.
      bindE (assertE (\<not> p_partial_rename pr \<longrightarrow> rn_uop_queue s1 = [])
               ''How is the uop queue not empty?'') (\<lambda>_.
        let s2 = send_renamed insts s1
        in Inr (if rn_credits_dispatch s2 > 0 \<and> length (rn_uop_queue s2) > 0
                then rn_emit (EvScheduleRename 1) s2
                else if rn_credits_dispatch s2 = 0 then setStall RN_NO_DISPATCH_CREDITS s2
                else setStall RN_NO_DECODE_INSTS s2, h1))))))"

end
