(* ===== verification/RenameInv.thy ===== *)
theory RenameInv
  imports RenameUnit
begin

text \<open>
  The register-accounting invariant of the rename unit and its preservation.

  \<^item> \<open>rf_inv\<close>: in one register file, the counter of a physical register is the number of
    architectural registers mapped to it plus the number of references held by in-flight
    instructions for their previous mapping (a multiset of outstanding references); the free list
    is duplicate free and holds exactly the registers with counter zero.
  \<^item> \<open>register_pool\<close>: the interface of such a file to the handlers, a pool of references that can
    be acquired, shared and released; the model's register file interprets it.
  \<^item> \<open>chain\<close>: undoing the in-flight destinations youngest first meets, at each step, the mapping
    that the destination installed.
\<close>

section \<open>One register file\<close>

definition refs_of :: "RegfileComponents \<Rightarrow> nat list" where
  "refs_of rc = map cnt (reference_counter rc)"

lemma length_refs_of: "length (refs_of rc) = length (reference_counter rc)"
  by (simp add: refs_of_def)

lemma nth_refs_of: "p < length (refs_of rc) \<Longrightarrow> cnt (reference_counter rc ! p) = refs_of rc ! p"
  by (simp add: refs_of_def)

definition map_ok :: "RegFile \<Rightarrow> nat option list \<Rightarrow> bool" where
  "map_ok rf mt \<longleftrightarrow> length mt = NUM_RISCV_REGS
     \<and> (\<forall>a < NUM_RISCV_REGS. mt ! a = None \<longleftrightarrow> rf = RF_INTEGER \<and> a = 0)"

definition counts_ok :: "nat option list \<Rightarrow> nat list \<Rightarrow> nat multiset \<Rightarrow> bool" where
  "counts_ok mt refs M \<longleftrightarrow>
     (\<forall>p. (if p < length refs then refs ! p else 0) = count_list mt (Some p) + count M p)"

definition free_ok :: "RegFile \<Rightarrow> nat list \<Rightarrow> nat list \<Rightarrow> bool" where
  "free_ok rf refs fl \<longleftrightarrow> distinct fl
     \<and> (\<forall>p. p \<in> set fl \<longleftrightarrow> p < length refs \<and> refs ! p = 0 \<and> \<not> (rf = RF_INTEGER \<and> p = 0))"

definition rf_inv :: "RegFile \<Rightarrow> nat option list \<Rightarrow> RegfileComponents \<Rightarrow> nat multiset \<Rightarrow> bool" where
  "rf_inv rf mt rc M \<longleftrightarrow> map_ok rf mt \<and> counts_ok mt (refs_of rc) M \<and> free_ok rf (refs_of rc) (freelist rc)
     \<and> (rf = RF_INTEGER \<longrightarrow> 0 < length (refs_of rc) \<and> refs_of rc ! 0 = 0)
     \<and> length (refs_of rc) \<le> UINT32_MAX"

lemma rf_inv_cong:
  "rf_inv rf mt rc M \<Longrightarrow> refs_of rc' = refs_of rc \<Longrightarrow> freelist rc' = freelist rc \<Longrightarrow> rf_inv rf mt rc' M"
  by (simp add: rf_inv_def)

lemma rf_inv_lengthD: "rf_inv rf mt rc M \<Longrightarrow> length mt = 32"
  by (simp add: rf_inv_def map_ok_def NUM_RISCV_REGS_def)

lemma rf_inv_mapped:
  assumes "rf_inv rf mt rc M" and "a < 32" and "\<not> (rf = RF_INTEGER \<and> a = 0)"
  obtains p where "mt ! a = Some p" and "p < length (refs_of rc)" and "0 < refs_of rc ! p"
proof -
  from assms have "mt ! a \<noteq> None" by (auto simp: rf_inv_def map_ok_def NUM_RISCV_REGS_def)
  then obtain p where p: "mt ! a = Some p" by blast
  with assms have "0 < count_list mt (Some p)"
    using nth_count_list_pos[of a mt] by (simp add: rf_inv_def map_ok_def NUM_RISCV_REGS_def)
  with assms(1) have "0 < (if p < length (refs_of rc) then refs_of rc ! p else 0)"
    unfolding rf_inv_def counts_ok_def by (metis add_gr_0)
  then show thesis using that p by (simp split: if_splits)
qed

lemma rf_inv_held:
  assumes "rf_inv rf mt rc M" and "p \<in># M"
  shows "p < length (refs_of rc)" and "0 < refs_of rc ! p"
proof -
  from assms have "0 < (if p < length (refs_of rc) then refs_of rc ! p else 0)"
    unfolding rf_inv_def counts_ok_def by (metis add_gr_0 count_greater_zero_iff)
  then show "p < length (refs_of rc)" "0 < refs_of rc ! p" by (simp_all split: if_splits)
qed

text \<open>Exchange of a reference: the map drops \<open>x\<close> for \<open>y\<close>, the holder of \<open>y\<close> now holds \<open>x\<close>.\<close>

lemma counts_ok_swap:
  assumes "counts_ok mt refs M" and "a < length mt" and "mt ! a = Some x" and "y \<in># M"
  shows "counts_ok (mt[a := Some y]) refs (add_mset x (M - {#y#}))"
  unfolding counts_ok_def
proof
  fix p
  have "count_list (mt[a := Some y]) (Some p) + (if x = p then 1 else 0)
      = count_list mt (Some p) + (if y = p then 1 else 0)"
    using count_list_update[OF assms(2), of "Some y" "Some p"] assms(3) by simp
  moreover have "y = p \<Longrightarrow> 0 < count M p" using assms(4) by simp
  moreover have "(if p < length refs then refs ! p else 0) = count_list mt (Some p) + count M p"
    using assms(1) by (simp add: counts_ok_def)
  ultimately show "(if p < length refs then refs ! p else 0)
      = count_list (mt[a := Some y]) (Some p) + count (add_mset x (M - {#y#})) p"
    by (auto split: if_splits)
qed

lemma rf_inv_swap:
  assumes "rf_inv rf mt rc M" and "a < 32" and "mt ! a = Some x" and "y \<in># M"
  shows "rf_inv rf (mt[a := Some y]) rc (add_mset x (M - {#y#}))"
proof -
  from assms have len: "length mt = 32" by (simp add: rf_inv_lengthD)
  have "map_ok rf (mt[a := Some y])"
    using assms len by (auto simp: rf_inv_def map_ok_def NUM_RISCV_REGS_def nth_list_update)
  then show ?thesis
    using assms counts_ok_swap[of mt "refs_of rc" M a x y] len by (simp add: rf_inv_def)
qed

lemma free_okD: "free_ok rf refs fl \<Longrightarrow>
    p \<in> set fl \<longleftrightarrow> p < length refs \<and> refs ! p = 0 \<and> \<not> (rf = RF_INTEGER \<and> p = 0)"
  by (simp add: free_ok_def)

lemma free_okI:
  assumes "distinct fl"
    and "\<And>p. p \<in> set fl \<longleftrightarrow> p < length refs \<and> refs ! p = 0 \<and> \<not> (rf = RF_INTEGER \<and> p = 0)"
  shows "free_ok rf refs fl"
  using assms by (simp add: free_ok_def)

lemma free_ok_push:
  assumes "free_ok rf refs fl" and "p < length refs" and "refs ! p \<noteq> 0" and "rf = RF_INTEGER \<Longrightarrow> p \<noteq> 0"
  shows "free_ok rf (refs[p := 0]) (fl @ [p])"
proof (rule free_okI)
  show "distinct (fl @ [p])" using assms(1,3) free_okD[OF assms(1), of p] by (simp add: free_ok_def)
  show "q \<in> set (fl @ [p]) \<longleftrightarrow> q < length (refs[p := 0]) \<and> refs[p := 0] ! q = 0
      \<and> \<not> (rf = RF_INTEGER \<and> q = 0)" for q
    using assms(2,4) free_okD[OF assms(1), of q] by (cases "q = p") auto
qed

lemma free_ok_keep:
  assumes "free_ok rf refs fl" and "p < length refs" and "refs ! p \<noteq> 0" and "v \<noteq> 0"
  shows "free_ok rf (refs[p := v]) fl"
proof (rule free_okI)
  show "distinct fl" using assms(1) by (simp add: free_ok_def)
  show "q \<in> set fl \<longleftrightarrow> q < length (refs[p := v]) \<and> refs[p := v] ! q = 0
      \<and> \<not> (rf = RF_INTEGER \<and> q = 0)" for q
    using assms(2,3,4) free_okD[OF assms(1), of q] by (cases "q = p") auto
qed

lemma free_ok_pop:
  assumes "free_ok rf refs (p # fl)" and "v \<noteq> 0"
  shows "free_ok rf (refs[p := v]) fl"
proof (rule free_okI)
  show "distinct fl" using assms(1) by (simp add: free_ok_def)
  have "p \<notin> set fl" "p < length refs" using assms(1) free_okD[OF assms(1), of p] by (auto simp: free_ok_def)
  then show "q \<in> set fl \<longleftrightarrow> q < length (refs[p := v]) \<and> refs[p := v] ! q = 0
      \<and> \<not> (rf = RF_INTEGER \<and> q = 0)" for q
    using assms(2) free_okD[OF assms(1), of q] by (cases "q = p") auto
qed

lemma counts_ok_release:
  assumes "counts_ok mt refs (add_mset p M)" and "p < length refs"
  shows "counts_ok mt (refs[p := refs ! p - 1]) M"
  unfolding counts_ok_def
proof
  fix q
  have "(if q < length refs then refs ! q else 0) = count_list mt (Some q) + count (add_mset p M) q"
    using assms(1) by (simp add: counts_ok_def)
  then show "(if q < length (refs[p := refs ! p - 1]) then refs[p := refs ! p - 1] ! q else 0)
      = count_list mt (Some q) + count M q"
    using assms(2) by (auto simp: nth_list_update split: if_splits)
qed

lemma counts_ok_acquire:
  assumes "counts_ok mt refs M" and "p < length refs"
  shows "counts_ok mt (refs[p := Suc (refs ! p)]) (add_mset p M)"
  unfolding counts_ok_def
proof
  fix q
  have "(if q < length refs then refs ! q else 0) = count_list mt (Some q) + count M q"
    using assms(1) by (simp add: counts_ok_def)
  then show "(if q < length (refs[p := Suc (refs ! p)]) then refs[p := Suc (refs ! p)] ! q else 0)
      = count_list mt (Some q) + count (add_mset p M) q"
    using assms(2) by (auto simp: nth_list_update split: if_splits)
qed

section \<open>The pool of references\<close>

definition acquire_ref :: "nat \<Rightarrow> Producer \<Rightarrow> RegfileComponents \<Rightarrow> RegfileComponents" where
  "acquire_ref p pr rc = set_ref p (pr\<lparr>cnt := cnt (reference_counter rc ! p) + 1\<rparr>) rc"

lemma refs_of_set_ref [simp]:
  "refs_of (set_ref p pr rc) = (refs_of rc)[p := cnt pr]"
  by (simp add: refs_of_def set_ref_def map_update)

lemma freelist_set_ref [simp]: "freelist (set_ref p pr rc) = freelist rc"
  by (simp add: set_ref_def)

lemma set_ref_more [simp]:
  "reference_counter (set_ref p pr rc) = (reference_counter rc)[p := pr]"
  "rc_scoreboard (set_ref p pr rc) = rc_scoreboard rc"
  by (simp_all add: set_ref_def)

lemma refs_of_more [simp]:
  "refs_of (rc\<lparr>rc_scoreboard := sb\<rparr>) = refs_of rc"
  "refs_of (rc\<lparr>freelist := fl\<rparr>) = refs_of rc"
  by (simp_all add: refs_of_def)

lemma rf_inv_scoreboard [simp]: "rf_inv rf mt (rc\<lparr>rc_scoreboard := sb\<rparr>) M = rf_inv rf mt rc M"
  by (simp add: rf_inv_def)

lemma refs_of_acquire:
  "p < length (refs_of rc) \<Longrightarrow> refs_of (acquire_ref p pr rc) = (refs_of rc)[p := Suc (refs_of rc ! p)]"
  by (simp add: acquire_ref_def nth_refs_of)

lemma rf_inv_acquire_shared:
  assumes "rf_inv rf mt rc M" and "p < length (refs_of rc)" and "0 < refs_of rc ! p"
  shows "rf_inv rf mt (acquire_ref p pr rc) (add_mset p M)"
proof -
  note eq = refs_of_acquire[OF assms(2), of pr]
  from assms have "p \<noteq> 0 \<or> rf \<noteq> RF_INTEGER" by (auto simp: rf_inv_def)
  moreover have "freelist (acquire_ref p pr rc) = freelist rc" by (simp add: acquire_ref_def)
  ultimately show ?thesis
    using assms counts_ok_acquire[of mt "refs_of rc" M p]
      free_ok_keep[of rf "refs_of rc" "freelist rc" p "Suc (refs_of rc ! p)"]
    unfolding rf_inv_def eq by (auto simp: nth_list_update)
qed

lemma rf_inv_acquire_fresh:
  assumes "rf_inv rf mt rc M" and "freelist rc = p # fl"
  shows "rf_inv rf mt (acquire_ref p pr (rc\<lparr>freelist := fl\<rparr>)) (add_mset p M)"
    and "p < length (refs_of rc)"
proof -
  have f: "free_ok rf (refs_of rc) (p # fl)" using assms by (simp add: rf_inv_def)
  have p: "p < length (refs_of rc)" "p \<noteq> 0 \<or> rf \<noteq> RF_INTEGER"
    using free_okD[OF f, of p] by auto
  have eq: "refs_of (acquire_ref p pr (rc\<lparr>freelist := fl\<rparr>)) = (refs_of rc)[p := Suc (refs_of rc ! p)]"
    using refs_of_acquire[of p "rc\<lparr>freelist := fl\<rparr>" pr] p(1) by simp
  have "freelist (acquire_ref p pr (rc\<lparr>freelist := fl\<rparr>)) = fl" by (simp add: acquire_ref_def)
  with assms p show "rf_inv rf mt (acquire_ref p pr (rc\<lparr>freelist := fl\<rparr>)) (add_mset p M)"
    using counts_ok_acquire[of mt "refs_of rc" M p] free_ok_pop[OF f, of "Suc (refs_of rc ! p)"]
    unfolding rf_inv_def eq by (auto simp: nth_list_update)
  show "p < length (refs_of rc)" by fact
qed

lemma release_ref_eq:
  assumes "p < length (refs_of rc)" and "0 < refs_of rc ! p"
  shows "\<exists>rc'. release_ref p rc = Inr rc' \<and> refs_of rc' = (refs_of rc)[p := refs_of rc ! p - 1]
    \<and> freelist rc' = freelist rc @ (if refs_of rc ! p = 1 then [p] else [])"
  using assms nth_refs_of[OF assms(1)]
  by (auto simp: release_ref_def ref_at_def length_refs_of Let_def)

lemma rf_inv_release:
  assumes "rf_inv rf mt rc (add_mset p M)"
  shows "\<exists>rc'. release_ref p rc = Inr rc' \<and> rf_inv rf mt rc' M"
proof -
  have p: "p < length (refs_of rc)" "0 < refs_of rc ! p"
    using rf_inv_held[OF assms, of p] by simp_all
  then have z: "rf = RF_INTEGER \<Longrightarrow> p \<noteq> 0" using assms by (cases "p = 0") (auto simp: rf_inv_def)
  from release_ref_eq[OF p] obtain rc' where rc': "release_ref p rc = Inr rc'"
    and eq: "refs_of rc' = (refs_of rc)[p := refs_of rc ! p - 1]"
    and fl: "freelist rc' = freelist rc @ (if refs_of rc ! p = 1 then [p] else [])" by blast
  have c: "counts_ok mt (refs_of rc') M"
    using assms p counts_ok_release[of mt "refs_of rc" p M] by (simp add: rf_inv_def eq)
  have "free_ok rf (refs_of rc') (freelist rc')"
    using assms p z free_ok_push[of rf "refs_of rc" "freelist rc" p]
      free_ok_keep[of rf "refs_of rc" "freelist rc" p "refs_of rc ! p - 1"]
    by (cases "refs_of rc ! p = 1") (auto simp: eq fl rf_inv_def)
  with assms c z have "rf_inv rf mt rc' M"
    by (auto simp: rf_inv_def eq nth_list_update)
  with rc' show ?thesis by blast
qed

text \<open>
  The interface that the handlers rely on: a pool whose outstanding references form a multiset.
  \<open>holds\<close> is the pool's invariant for the given outstanding references.
\<close>

locale register_pool =
  fixes holds :: "'pool \<Rightarrow> nat multiset \<Rightarrow> bool"
    and acquire :: "nat \<Rightarrow> 'pool \<Rightarrow> 'pool"
    and release :: "nat \<Rightarrow> 'pool \<Rightarrow> 'pool result"
    and live :: "'pool \<Rightarrow> nat \<Rightarrow> bool"
  assumes held_live: "holds s M \<Longrightarrow> p \<in># M \<Longrightarrow> live s p"
    and acquire_live: "holds s M \<Longrightarrow> live s p \<Longrightarrow> holds (acquire p s) (add_mset p M)"
    and release_held: "holds s (add_mset p M) \<Longrightarrow> \<exists>s'. release p s = Inr s' \<and> holds s' M"
begin

text \<open>Releasing any list of outstanding references, in any order, never fails.\<close>

lemma release_all:
  assumes "holds s (mset ps + M)"
  shows "\<exists>s'. foldE (\<lambda>s p. release p s) s ps = Inr s' \<and> holds s' M"
  using assms
proof (induction ps arbitrary: s)
  case (Cons p ps)
  from Cons.prems have "holds s (add_mset p (mset ps + M))" by simp
  from release_held[OF this] obtain s1 where "release p s = Inr s1" "holds s1 (mset ps + M)" by blast
  with Cons.IH[of s1] show ?case by simp
qed simp

text \<open>A reference that was acquired can be released again.\<close>

lemma acquire_release:
  "holds s M \<Longrightarrow> live s p \<Longrightarrow> \<exists>s'. release p (acquire p s) = Inr s' \<and> holds s' M"
  using acquire_live release_held by blast

end

interpretation rf_pool: register_pool
  "rf_inv rf mt" "\<lambda>p. acquire_ref p pr" release_ref
  "\<lambda>rc p. p < length (refs_of rc) \<and> 0 < refs_of rc ! p"
  for rf mt pr
proof (standard, goal_cases)
  case (1 s M p)
  then show ?case using rf_inv_held by blast
next
  case (2 s M p)
  then show ?case using rf_inv_acquire_shared by blast
next
  case (3 s p M)
  then show ?case by (rule rf_inv_release)
qed

section \<open>Undoing and redoing destinations\<close>

abbreviation arch_of :: "Reg \<Rightarrow> nat" where
  "arch_of d \<equiv> field_value (op_info d)"

definition undo_map :: "nat option list \<Rightarrow> Reg list \<Rightarrow> nat option list" where
  "undo_map mt ds = foldl (\<lambda>m d. m[arch_of d := Some (prev_dest d)]) mt ds"

definition redo_map :: "nat option list \<Rightarrow> Reg list \<Rightarrow> nat option list" where
  "redo_map mt ds = foldl (\<lambda>m d. m[arch_of d := Some (phys_reg d)]) mt ds"

fun chain :: "nat option list \<Rightarrow> Reg list \<Rightarrow> bool" where
  "chain mt [] = True"
| "chain mt (d # ds) =
     (mt ! arch_of d = Some (phys_reg d) \<and> chain (mt[arch_of d := Some (prev_dest d)]) ds)"

lemma undo_map_simps [simp]:
  "undo_map mt [] = mt"
  "undo_map mt (d # ds) = undo_map (mt[arch_of d := Some (prev_dest d)]) ds"
  "undo_map mt (ds @ es) = undo_map (undo_map mt ds) es"
  by (simp_all add: undo_map_def)

lemma redo_map_simps [simp]:
  "redo_map mt [] = mt"
  "redo_map mt (d # ds) = redo_map (mt[arch_of d := Some (phys_reg d)]) ds"
  "redo_map mt (ds @ es) = redo_map (redo_map mt ds) es"
  by (simp_all add: redo_map_def)

lemma chain_append: "chain mt (ds @ es) \<longleftrightarrow> chain mt ds \<and> chain (undo_map mt ds) es"
  by (induction ds arbitrary: mt) auto

lemma length_redo_map [simp]: "length (redo_map mt ds) = length mt"
  by (induction ds arbitrary: mt) auto

lemma nth_redo_map_other: "a \<notin> arch_of ` set ds \<Longrightarrow> redo_map mt ds ! a = mt ! a"
  by (induction ds arbitrary: mt) auto

lemma redo_map_update_commute:
  "a \<notin> arch_of ` set ds \<Longrightarrow> redo_map (mt[a := v]) ds = (redo_map mt ds)[a := v]"
proof (induction ds arbitrary: mt)
  case (Cons d ds)
  then have "a \<noteq> arch_of d" by auto
  from list_update_swap[OF this, of mt v] Cons show ?case by simp
qed simp

text \<open>Renaming destinations with distinct architectural registers and undoing them in the same
  (not the reverse) order gives the old map back: the order the flush uses.\<close>

lemma undo_redo:
  assumes "distinct (map arch_of ds)"
    and "\<And>d. d \<in> set ds \<Longrightarrow> arch_of d < length mt \<and> mt ! arch_of d = Some (prev_dest d)"
  shows "undo_map (redo_map mt ds) ds = mt \<and> chain (redo_map mt ds) ds"
  using assms
proof (induction ds)
  case (Cons d ds)
  have a: "arch_of d \<notin> arch_of ` set ds" using Cons.prems(1) by auto
  have d: "arch_of d < length mt" "mt ! arch_of d = Some (prev_dest d)" using Cons.prems(2) by auto
  have eq: "redo_map mt (d # ds) = (redo_map mt ds)[arch_of d := Some (phys_reg d)]"
    by (simp add: redo_map_update_commute[OF a])
  have "(redo_map mt ds) ! arch_of d = Some (prev_dest d)"
    using nth_redo_map_other[OF a] d by simp
  then have "(redo_map mt ds)[arch_of d := Some (prev_dest d)] = redo_map mt ds"
    by (metis list_update_id)
  with Cons d show ?case unfolding eq by simp
qed simp

section \<open>The unit's register state\<close>

text \<open>\<open>rf_st s rf ds\<close>: register file \<open>rf\<close> of \<open>s\<close> is consistent with the in-flight destinations \<open>ds\<close>
  (undo order).\<close>

definition rf_st :: "Rename \<Rightarrow> RegFile \<Rightarrow> Reg list \<Rightarrow> bool" where
  "rf_st s rf ds \<longleftrightarrow> rf_inv rf (rn_map_table s rf) (rn_comps s rf) (mset (map prev_dest ds))
     \<and> chain (rn_map_table s rf) ds"

definition wf_dest :: "RegFile \<Rightarrow> Reg \<Rightarrow> bool" where
  "wf_dest rf d \<longleftrightarrow> reg_file (op_info d) = rf \<and> \<not> is_x0 (op_info d) \<and> arch_of d < NUM_RISCV_REGS"

definition same_sizes :: "Rename \<Rightarrow> Rename \<Rightarrow> bool" where
  "same_sizes s t \<longleftrightarrow> (\<forall>rf. length (reference_counter (rn_comps t rf)) = length (reference_counter (rn_comps s rf)))"

lemma same_sizes_refl [simp]: "same_sizes s s"
  by (simp add: same_sizes_def)

lemma same_sizes_trans: "same_sizes s t \<Longrightarrow> same_sizes t u \<Longrightarrow> same_sizes s u"
  by (simp add: same_sizes_def)

lemma release_ref_size:
  "release_ref p rc = Inr rc' \<Longrightarrow> length (reference_counter rc') = length (reference_counter rc)"
  by (auto simp: release_ref_def ref_at_def Let_def split: if_splits)

lemma release_all_size:
  "foldE (\<lambda>rc p. release_ref p rc) rc ps = Inr rc' \<Longrightarrow> length (reference_counter rc') = length (reference_counter rc)"
  by (rule foldE_partial[where I = "\<lambda>r. length (reference_counter r) = length (reference_counter rc)"])
     (auto dest: release_ref_size)

lemma same_sizes_set_comp:
  "length (reference_counter rc) = length (reference_counter (rn_comps s rf)) \<Longrightarrow> same_sizes s (set_comp rf rc s)"
  by (simp add: same_sizes_def set_comp_def)

text \<open>Two states that differ in the register file \<open>rf\<close> only.\<close>

definition same_but :: "RegFile set \<Rightarrow> Rename \<Rightarrow> Rename \<Rightarrow> bool" where
  "same_but R s t \<longleftrightarrow> rn_credits_dispatch t = rn_credits_dispatch s \<and> rn_uop_queue t = rn_uop_queue s
     \<and> rn_regcount t = rn_regcount s \<and> rn_inst_queue t = rn_inst_queue s
     \<and> same_sizes s t
     \<and> (\<forall>rf. rf \<notin> R \<longrightarrow> rn_map_table t rf = rn_map_table s rf \<and> rn_comps t rf = rn_comps s rf)"

lemma same_but_refl [simp]: "same_but R s s"
  by (simp add: same_but_def)

lemma same_but_trans: "same_but R s t \<Longrightarrow> same_but R' t u \<Longrightarrow> same_but (R \<union> R') s u"
  using same_sizes_trans[of s t u] by (simp add: same_but_def)

lemma same_but_trans1: "same_but R s t \<Longrightarrow> same_but R t u \<Longrightarrow> same_but R s u"
  using same_but_trans[of R s t R u] by simp

lemma rf_st_same: "same_but R s t \<Longrightarrow> rf \<notin> R \<Longrightarrow> rf_st t rf ds = rf_st s rf ds"
  by (simp add: same_but_def rf_st_def)

lemma undo_dest_ok:
  assumes "rf_st s rf (d # ds)" and "wf_dest rf d"
  shows "\<exists>s'. undo_dest s d = Inr s' \<and> rf_st s' rf ds \<and> same_but {rf} s s'
    \<and> rn_map_table s' rf = undo_map (rn_map_table s rf) [d]"
proof -
  let ?mt = "rn_map_table s rf" and ?M = "mset (map prev_dest ds)"
  have inv: "rf_inv rf ?mt (rn_comps s rf) (add_mset (prev_dest d) ?M)"
    and a: "arch_of d < 32" and m: "?mt ! arch_of d = Some (phys_reg d)"
    and ch: "chain (?mt[arch_of d := Some (prev_dest d)]) ds"
    using assms by (simp_all add: rf_st_def wf_dest_def NUM_RISCV_REGS_def)
  have "rf_inv rf (?mt[arch_of d := Some (prev_dest d)]) (rn_comps s rf) (add_mset (phys_reg d) ?M)"
    using rf_inv_swap[OF inv a m, of "prev_dest d"] by simp
  from rf_pool.release_held[OF this] obtain rc
    where rc: "release_ref (phys_reg d) (rn_comps s rf) = Inr rc"
      and "rf_inv rf (?mt[arch_of d := Some (prev_dest d)]) rc ?M" by blast
  with ch a rf_inv_lengthD[OF inv] assms(2) show ?thesis
    using release_ref_size[OF rc]
    by (simp add: undo_dest_def wf_dest_def set_comp_def rf_st_def same_but_def same_sizes_def)
qed

lemma undo_dests_ok:
  assumes "rf_st s rf (ds @ es)" and "\<forall>d\<in>set ds. wf_dest rf d"
  shows "\<exists>s'. foldE undo_dest s ds = Inr s' \<and> rf_st s' rf es \<and> same_but {rf} s s'
    \<and> rn_map_table s' rf = undo_map (rn_map_table s rf) ds"
  using assms
proof (induction ds arbitrary: s)
  case (Cons d ds)
  from undo_dest_ok[of s rf d "ds @ es"] Cons.prems obtain s1 where s1: "undo_dest s d = Inr s1"
    "rf_st s1 rf (ds @ es)" "same_but {rf} s s1" "rn_map_table s1 rf = undo_map (rn_map_table s rf) [d]"
    by auto
  from Cons.IH[OF s1(2)] Cons.prems(2) obtain s2 where "foldE undo_dest s1 ds = Inr s2"
    "rf_st s2 rf es" "same_but {rf} s1 s2" "rn_map_table s2 rf = undo_map (rn_map_table s1 rf) ds"
    by auto
  with s1 show ?case using same_but_trans1[of "{rf}" s s1 s2] by simp
qed auto

lemma reclaim_dests_eq:
  assumes "\<forall>d\<in>set ds. wf_dest rf d \<and> prev_dest d \<noteq> UINT32_MAX"
  shows "foldE reclaim_rename s ds =
    bindE (foldE (\<lambda>rc p. release_ref p rc) (rn_comps s rf) (map prev_dest ds)) (\<lambda>rc.
      Inr (if ds = [] then s else set_comp rf rc s))"
  using assms
proof (induction ds arbitrary: s)
  case (Cons d ds)
  then have d: "wf_dest rf d" "prev_dest d \<noteq> UINT32_MAX" by auto
  show ?case
  proof (cases "release_ref (prev_dest d) (rn_comps s rf)")
    case (Inr rc)
    then show ?thesis using d Cons.IH[of "set_comp rf rc s"] Cons.prems
      by (cases "foldE (\<lambda>rc p. release_ref p rc) rc (map prev_dest ds)")
         (auto simp: reclaim_rename_def wf_dest_def set_comp_def)
  qed (use d in \<open>simp add: reclaim_rename_def wf_dest_def\<close>)
qed simp

lemma reclaim_dests_ok:
  assumes "rf_st s rf (es @ ds)" and "\<forall>d\<in>set ds. wf_dest rf d"
  shows "\<exists>s'. foldE reclaim_rename s ds = Inr s' \<and> rf_st s' rf es \<and> same_but {rf} s s'
    \<and> rn_map_table s' rf = rn_map_table s rf"
proof -
  have inv: "rf_inv rf (rn_map_table s rf) (rn_comps s rf)
      (mset (map prev_dest ds) + mset (map prev_dest es))"
    using assms(1) by (simp add: rf_st_def add.commute)
  have "prev_dest d \<noteq> UINT32_MAX" if "d \<in> set ds" for d
    using rf_inv_held(1)[OF inv, of "prev_dest d"] that inv by (auto simp: rf_inv_def)
  with assms(2) have eq: "foldE reclaim_rename s ds =
    bindE (foldE (\<lambda>rc p. release_ref p rc) (rn_comps s rf) (map prev_dest ds)) (\<lambda>rc.
      Inr (if ds = [] then s else set_comp rf rc s))" by (intro reclaim_dests_eq) auto
  from rf_pool.release_all[OF inv] obtain rc
    where rc: "foldE (\<lambda>rc p. release_ref p rc) (rn_comps s rf) (map prev_dest ds) = Inr rc"
      and "rf_inv rf (rn_map_table s rf) rc (mset (map prev_dest es))" by blast
  moreover have "chain (rn_map_table s rf) es" using assms(1) by (simp add: rf_st_def chain_append)
  ultimately show ?thesis using assms(1) release_all_size[OF rc]
    by (auto simp: eq set_comp_def rf_st_def same_but_def same_sizes_def)
qed

end
