(* ===== verification/RenameFlow.thy ===== *)
theory RenameFlow
  imports RenameInv
begin

text \<open>
  The handlers of the rename unit against the invariant: retirement acknowledges and flushes
  (first part), renaming (second part), the step relation over all handlers and the properties
  that hold in every reachable state (last part).
\<close>

section \<open>The invariant of the unit\<close>

abbreviation dests_of :: "heap \<Rightarrow> ptr \<Rightarrow> RegFile \<Rightarrow> Reg list" where
  "dests_of h p rf \<equiv> rd_dest (i_rename_data (h p)) rf"

definition inflight :: "heap \<Rightarrow> ptr list \<Rightarrow> RegFile \<Rightarrow> Reg list" where
  "inflight h q rf = concat (map (\<lambda>p. dests_of h p rf) (rev q))"

definition wf_dests :: "heap \<Rightarrow> ptr \<Rightarrow> bool" where
  "wf_dests h p \<longleftrightarrow> (\<forall>rf\<in>set regfiles. \<forall>d\<in>set (dests_of h p rf). wf_dest rf d)"

definition rn_inv :: "heap \<Rightarrow> Rename \<Rightarrow> bool" where
  "rn_inv h s \<longleftrightarrow> (\<forall>rf\<in>set regfiles. rf_st s rf (inflight h (rn_inst_queue s) rf))
     \<and> distinct (rn_inst_queue s @ rn_uop_queue s) \<and> (\<forall>p\<in>set (rn_inst_queue s). wf_dests h p)"

lemma inflight_simps [simp]:
  "inflight h [] rf = []"
  "inflight h (p # q) rf = inflight h q rf @ dests_of h p rf"
  "inflight h (q @ [p]) rf = dests_of h p rf @ inflight h q rf"
  by (simp_all add: inflight_def)

lemma inflight_cong:
  "(\<And>p. p \<in> set q \<Longrightarrow> dests_of h' p rf = dests_of h p rf) \<Longrightarrow> inflight h' q rf = inflight h q rf"
  unfolding inflight_def by (metis (mono_tags, lifting) map_cong set_rev)

lemma distinct_regfiles [simp]: "distinct regfiles"
  by (simp add: regfiles_def)

lemma rn_inv_emit [simp]: "rn_inv h (rn_emit e s) = rn_inv h s"
  by (simp add: rn_inv_def rn_emit_def rf_st_def)

lemma rn_inv_setStall [simp]: "rn_inv h (setStall r s) = rn_inv h s"
  by (simp add: rn_inv_def setStall_def rf_st_def)

lemma rn_inv_credits [simp]: "rn_inv h (s\<lparr>rn_credits_dispatch := c\<rparr>) = rn_inv h s"
  by (simp add: rn_inv_def rf_st_def)

lemma rn_inv_regcount [simp]: "rn_inv h (s\<lparr>rn_regcount := c\<rparr>) = rn_inv h s"
  by (simp add: rn_inv_def rf_st_def)

section \<open>Retirement acknowledges\<close>

lemma reclaim_regfiles_ok:
  assumes "distinct rfs"
    and "\<forall>rf\<in>set rfs. rf_st s rf (E rf @ D rf) \<and> (\<forall>d\<in>set (D rf). wf_dest rf d)"
  shows "\<exists>s'. foldE (\<lambda>s1 rf. foldE reclaim_rename s1 (D rf)) s rfs = Inr s'
    \<and> (\<forall>rf\<in>set rfs. rf_st s' rf (E rf)) \<and> same_but (set rfs) s s'
    \<and> (\<forall>rf. rn_map_table s' rf = rn_map_table s rf)"
  using assms
proof (induction rfs arbitrary: s)
  case (Cons r rfs)
  from reclaim_dests_ok[of s r "E r" "D r"] Cons.prems obtain s1 where
    s1: "foldE reclaim_rename s (D r) = Inr s1" "rf_st s1 r (E r)" "same_but {r} s s1"
      "rn_map_table s1 r = rn_map_table s r" by auto
  have "rf_st s1 rf (E rf @ D rf)" if "rf \<in> set rfs" for rf
    using Cons.prems rf_st_same[OF s1(3), of rf] that by auto
  with Cons.IH[of s1] Cons.prems obtain s2 where
    s2: "foldE (\<lambda>s1 rf. foldE reclaim_rename s1 (D rf)) s1 rfs = Inr s2"
      "\<forall>rf\<in>set rfs. rf_st s2 rf (E rf)" "same_but (set rfs) s1 s2"
      "\<forall>rf. rn_map_table s2 rf = rn_map_table s1 rf" by auto
  have "rf_st s2 r (E r)" using rf_st_same[OF s2(3)] s1(2) Cons.prems(1) by simp
  moreover have "same_but (set (r # rfs)) s s2" using same_but_trans[OF s1(3) s2(3)] by simp
  moreover have "rn_map_table s2 rf = rn_map_table s rf" for rf
    using s1(3,4) s2(4) by (cases "rf = r") (auto simp: same_but_def)
  ultimately show ?case using s1(1) s2 by auto
qed simp

lemma ack_inst_ok:
  assumes "rn_inv h s" and "rn_inst_queue s = p # rest" and "i_status (h p) = RETIRED"
  shows "\<exists>s'. ack_inst h s p = Inr s' \<and> rn_inv h s' \<and> rn_inst_queue s' = rest
    \<and> rn_map_table s' = rn_map_table s \<and> rn_uop_queue s' = rn_uop_queue s
    \<and> rn_credits_dispatch s' = rn_credits_dispatch s \<and> rn_regcount s' = rn_regcount s \<and> same_sizes s s'"
proof -
  have "\<forall>rf\<in>set regfiles. rf_st s rf (inflight h rest rf @ dests_of h p rf)
      \<and> (\<forall>d\<in>set (dests_of h p rf). wf_dest rf d)"
    using assms(1,2) by (auto simp: rn_inv_def wf_dests_def)
  from reclaim_regfiles_ok[OF distinct_regfiles this] obtain s1 where
    s1: "foldE (\<lambda>s1 rf. foldE reclaim_rename s1 (dests_of h p rf)) s regfiles = Inr s1"
      "\<forall>rf\<in>set regfiles. rf_st s1 rf (inflight h rest rf)" "same_but (set regfiles) s s1"
      "\<forall>rf. rn_map_table s1 rf = rn_map_table s rf" by blast
  have "rn_inv h (s1\<lparr>rn_inst_queue := rest\<rparr>)"
    using s1(2,3) assms(1,2) by (simp add: rn_inv_def rf_st_def same_but_def)
  moreover have "rn_map_table s1 = rn_map_table s" using s1(4) by auto
  ultimately show ?thesis
    using assms(2,3) s1(1,3) by (simp add: ack_inst_def same_but_def same_sizes_def)
qed

lemma ack_group_ok:
  assumes "rn_inv h s" and "rn_inst_queue s = grp @ rest" and "\<forall>p\<in>set grp. i_status (h p) = RETIRED"
  shows "\<exists>s'. foldE (ack_inst h) s grp = Inr s' \<and> rn_inv h s' \<and> rn_inst_queue s' = rest
    \<and> rn_map_table s' = rn_map_table s \<and> rn_uop_queue s' = rn_uop_queue s
    \<and> rn_credits_dispatch s' = rn_credits_dispatch s \<and> rn_regcount s' = rn_regcount s \<and> same_sizes s s'"
  using assms
proof (induction grp arbitrary: s)
  case (Cons p grp)
  from ack_inst_ok[of h s p "grp @ rest"] Cons.prems obtain s1 where
    s1: "ack_inst h s p = Inr s1" "rn_inv h s1" "rn_inst_queue s1 = grp @ rest"
      "rn_map_table s1 = rn_map_table s" "rn_uop_queue s1 = rn_uop_queue s"
      "rn_credits_dispatch s1 = rn_credits_dispatch s" "rn_regcount s1 = rn_regcount s" "same_sizes s s1" by auto
  from Cons.IH[OF s1(2,3)] Cons.prems(3) s1 show ?case using same_sizes_trans[of s s1] by auto
qed simp

section \<open>Flush\<close>

lemma rd_dest_clear [simp]:
  "rd_dest (clear_RenameData rf d) rf' = (if rf' = rf then [] else rd_dest d rf')"
  by (simp add: clear_RenameData_def Let_def)

definition clear_all :: "Inst \<Rightarrow> RegFile list \<Rightarrow> Inst" where
  "clear_all i rfs = i\<lparr>i_rename_data := fold clear_RenameData rfs (i_rename_data i)\<rparr>"

lemma clear_all_simps [simp]:
  "clear_all i [] = i"
  "i_unique_id (clear_all i rfs) = i_unique_id i"
  by (simp_all add: clear_all_def)

lemma undo_regfiles_ok:
  assumes "distinct rfs"
    and "\<forall>rf\<in>set rfs. rf_st s rf (dests_of h p rf @ E rf) \<and> (\<forall>d\<in>set (dests_of h p rf). wf_dest rf d)"
  shows "\<exists>s'. foldE (undo_regfile p) (s, h) rfs = Inr (s', h(p := clear_all (h p) rfs))
    \<and> (\<forall>rf\<in>set rfs. rf_st s' rf (E rf)) \<and> same_but (set rfs) s s'
    \<and> (\<forall>rf\<in>set rfs. rn_map_table s' rf = undo_map (rn_map_table s rf) (dests_of h p rf))"
  using assms
proof (induction rfs arbitrary: s h)
  case (Cons r rfs)
  let ?h = "h(p := (h p)\<lparr>i_rename_data := clear_RenameData r (i_rename_data (h p))\<rparr>)"
  from undo_dests_ok[of s r "dests_of h p r" "E r"] Cons.prems obtain s1 where
    s1: "foldE undo_dest s (dests_of h p r) = Inr s1" "rf_st s1 r (E r)" "same_but {r} s s1"
      "rn_map_table s1 r = undo_map (rn_map_table s r) (dests_of h p r)" by auto
  have same: "dests_of ?h p rf = dests_of h p rf" if "rf \<in> set rfs" for rf
    using that Cons.prems(1) by auto
  have "rf_st s1 rf (dests_of ?h p rf @ E rf) \<and> (\<forall>d\<in>set (dests_of ?h p rf). wf_dest rf d)"
    if "rf \<in> set rfs" for rf
    unfolding same[OF that] using Cons.prems rf_st_same[OF s1(3), of rf] that by auto
  moreover have "distinct rfs" using Cons.prems(1) by simp
  ultimately obtain s2 where
    s2: "foldE (undo_regfile p) (s1, ?h) rfs = Inr (s2, ?h(p := clear_all (?h p) rfs))"
      "\<forall>rf\<in>set rfs. rf_st s2 rf (E rf)" "same_but (set rfs) s1 s2"
      "\<forall>rf\<in>set rfs. rn_map_table s2 rf = undo_map (rn_map_table s1 rf) (dests_of ?h p rf)"
    using Cons.IH[of s1 ?h] by blast
  have "rf_st s2 r (E r)" using rf_st_same[OF s2(3)] s1(2) Cons.prems(1) by simp
  moreover have "same_but (set (r # rfs)) s s2" using same_but_trans[OF s1(3) s2(3)] by simp
  moreover have "rn_map_table s2 rf = undo_map (rn_map_table s rf) (dests_of h p rf)"
    if "rf \<in> set (r # rfs)" for rf
    using that s1(3,4) s2(3,4) same Cons.prems(1) by (cases "rf = r") (auto simp: same_but_def)
  moreover have "undo_regfile p (s, h) r = Inr (s1, ?h)" by (simp add: undo_regfile_def s1(1))
  moreover have "?h(p := clear_all (?h p) rfs) = h(p := clear_all (h p) (r # rfs))"
    by (simp add: clear_all_def)
  ultimately show ?case using s2(1,2) by (auto simp del: fun_upd_apply)
qed simp

lemma fold_clear_dest:
  "rd_dest (fold clear_RenameData rfs d) rf = (if rf \<in> set rfs then [] else rd_dest d rf)"
  by (induction rfs arbitrary: d) auto

definition same_uids :: "heap \<Rightarrow> heap \<Rightarrow> bool" where
  "same_uids h h' \<longleftrightarrow> (\<forall>q. i_unique_id (h' q) = i_unique_id (h q))"

lemma same_uids_included: "same_uids h h' \<Longrightarrow> includedInFlush h' c = includedInFlush h c"
  by (auto simp: same_uids_def includedInFlush_def fun_eq_iff)

lemma flush_loop_ok:
  assumes "rn_inv h s" and "rn_inst_queue s = rev ps"
  shows "\<exists>s' h'. flush_loop c ps (s, h) = Inr (s', h') \<and> rn_inv h' s'
    \<and> rn_inst_queue s' = rev (dropWhile (includedInFlush h c) ps)
    \<and> (\<forall>rf\<in>set regfiles. rn_map_table s' rf
         = undo_map (rn_map_table s rf) (inflight h (rev (takeWhile (includedInFlush h c) ps)) rf))
    \<and> rn_uop_queue s' = rn_uop_queue s \<and> rn_credits_dispatch s' = rn_credits_dispatch s
    \<and> (\<forall>q. q \<notin> set (takeWhile (includedInFlush h c) ps) \<longrightarrow> h' q = h q) \<and> same_uids h h' \<and> same_sizes s s'"
  using assms
proof (induction ps arbitrary: s h)
  case Nil
  then show ?case by (auto simp: same_uids_def)
next
  case (Cons p ps)
  show ?case
  proof (cases "includedInFlush h c p")
    case False
    with Cons.prems show ?thesis by (auto simp: same_uids_def)
  next
    case True
    have "\<forall>rf\<in>set regfiles. rf_st s rf (dests_of h p rf @ inflight h (rev ps) rf)
        \<and> (\<forall>d\<in>set (dests_of h p rf). wf_dest rf d)"
      using Cons.prems by (auto simp: rn_inv_def wf_dests_def)
    from undo_regfiles_ok[OF distinct_regfiles, of s h p "inflight h (rev ps)"] this obtain s1 where
      s1: "undo_inst p (s, h) = Inr (s1, h(p := clear_all (h p) regfiles))"
        "\<forall>rf\<in>set regfiles. rf_st s1 rf (inflight h (rev ps) rf)" "same_but (set regfiles) s s1"
        "\<forall>rf\<in>set regfiles. rn_map_table s1 rf = undo_map (rn_map_table s rf) (dests_of h p rf)"
      unfolding undo_inst_def by blast
    let ?h = "h(p := clear_all (h p) regfiles)" and ?s = "s1\<lparr>rn_inst_queue := rev ps\<rparr>"
    have p: "p \<notin> set ps" "distinct ps" using Cons.prems by (auto simp: rn_inv_def)
    have fl: "inflight ?h q rf = inflight h q rf" if "set q \<subseteq> set ps" for q rf
      using p(1) that by (intro inflight_cong) auto
    have inv: "rn_inv ?h ?s"
      using s1(2,3) Cons.prems p fl[of "rev ps"]
      by (auto simp: rn_inv_def rf_st_def same_but_def wf_dests_def)
    have uid: "same_uids h ?h" by (simp add: same_uids_def)
    have sub: "set (rev (takeWhile (includedInFlush h c) ps)) \<subseteq> set ps"
      by (auto dest: set_takeWhileD)
    have q: "rn_inst_queue ?s = rev ps" by simp
    obtain s' h' where
      r: "flush_loop c ps (?s, ?h) = Inr (s', h')" "rn_inv h' s'"
        "rn_inst_queue s' = rev (dropWhile (includedInFlush h c) ps)"
        "\<forall>rf\<in>set regfiles. rn_map_table s' rf
          = undo_map (rn_map_table ?s rf) (inflight ?h (rev (takeWhile (includedInFlush h c) ps)) rf)"
        "rn_uop_queue s' = rn_uop_queue ?s" "rn_credits_dispatch s' = rn_credits_dispatch ?s"
        "\<forall>q. q \<notin> set (takeWhile (includedInFlush h c) ps) \<longrightarrow> h' q = ?h q" "same_uids ?h h'" "same_sizes ?s s'"
      using Cons.IH[OF inv q] unfolding same_uids_included[OF uid, of c] by blast
    then show ?thesis using True s1 fl[OF sub] uid
      by (auto simp: same_but_def same_uids_def same_sizes_def)
  qed
qed

section \<open>Renaming one instruction\<close>

definition wf_op :: "OpInfoWithRegfile \<Rightarrow> bool" where
  "wf_op op \<longleftrightarrow> reg_file op \<in> set regfiles \<and> field_value op < NUM_RISCV_REGS
     \<and> is_x0 op = (field_value op = 0 \<and> reg_file op = RF_INTEGER)"

definition real_dests :: "RegFile \<Rightarrow> OpInfoWithRegfile list \<Rightarrow> OpInfoWithRegfile list" where
  "real_dests rf ops = filter (\<lambda>op. \<not> is_x0 op \<and> reg_file op = rf) ops"

text \<open>An instruction as decode delivers it: nothing renamed yet, operands as the constructor builds
  them, no architectural register written twice.\<close>

definition fresh_inst :: "Inst \<Rightarrow> bool" where
  "fresh_inst i \<longleftrightarrow> (\<forall>rf\<in>set regfiles. rd_dest (i_rename_data i) rf = [] \<and> rd_src (i_rename_data i) rf = []
       \<and> distinct (map field_value (real_dests rf (i_dest_ops i))))
     \<and> i_status i < RENAMED \<and> (\<forall>op\<in>set (i_dest_ops i) \<union> set (i_src_ops i). wf_op op)"

definition live_src :: "Rename \<Rightarrow> Inst \<Rightarrow> bool" where
  "live_src s i \<longleftrightarrow> (\<forall>rf\<in>set regfiles. \<forall>r\<in>set (rd_src (i_rename_data i) rf).
     phys_reg r < length (refs_of (rn_comps s rf)) \<and> 0 < refs_of (rn_comps s rf) ! phys_reg r)"

definition same_inst :: "Inst \<Rightarrow> Inst \<Rightarrow> bool" where
  "same_inst i i' \<longleftrightarrow> i_dest_ops i' = i_dest_ops i \<and> i_src_ops i' = i_src_ops i \<and> i_status i' = i_status i
     \<and> i_unique_id i' = i_unique_id i"

lemma same_inst_refl [simp]: "same_inst i i"
  by (simp add: same_inst_def)

lemma same_inst_trans: "same_inst i j \<Longrightarrow> same_inst j k \<Longrightarrow> same_inst i k"
  by (simp add: same_inst_def)

lemmas inst_reg_defs = setDataRegister_def addSrcRegister_def addDestRegister_def setDataReg_def
  addSource_def addDestination_def addDestRegisterWithScoreboardUpdate_def
  setDestRegisterBitWithScoreboardUpdate_def mk_Reg_def mk_Reg_prev_def Let_def

lemma rename_source_ok:
  assumes "\<forall>rf\<in>set regfiles. rf_inv rf (rn_map_table s rf) (rn_comps s rf) (M rf)"
    and "wf_op src" and "live_src s i"
  shows "\<exists>i'. rename_source s i src = Inr i' \<and> live_src s i' \<and> same_inst i i'
    \<and> rd_dest (i_rename_data i') = rd_dest (i_rename_data i)"
proof (cases "is_x0 src")
  case True
  then show ?thesis using assms(3)
    by (auto simp: rename_source_def live_src_def same_inst_def inst_reg_defs)
next
  case False
  have inv: "rf_inv (reg_file src) (rn_map_table s (reg_file src)) (rn_comps s (reg_file src)) (M (reg_file src))"
    and f: "field_value src < 32" "\<not> (reg_file src = RF_INTEGER \<and> field_value src = 0)"
    using assms(1,2) False by (auto simp: wf_op_def NUM_RISCV_REGS_def)
  from rf_inv_mapped[OF inv f] obtain p where p: "rn_map_table s (reg_file src) ! field_value src = Some p"
    "p < length (refs_of (rn_comps s (reg_file src)))" "0 < refs_of (rn_comps s (reg_file src)) ! p" .
  have l: "lookup_map s (reg_file src) (field_value src) = Inr p"
    using p(1) f(1) rf_inv_lengthD[OF inv] by (simp add: lookup_map_def)
  have r: "ref_at (rn_comps s (reg_file src)) p = Inr (reference_counter (rn_comps s (reg_file src)) ! p)"
    using p(2) by (simp add: ref_at_def length_refs_of)
  show ?thesis using False l r assms(3) p(2,3)
    by (auto simp: rename_source_def live_src_def same_inst_def isLoadStoreInst_def inst_reg_defs)
qed

lemma renameSources_ok:
  assumes "\<forall>rf\<in>set regfiles. rf_inv rf (rn_map_table s rf) (rn_comps s rf) (M rf)"
    and "\<forall>op\<in>set ops. wf_op op" and "live_src s i"
  shows "\<exists>i'. foldE (rename_source s) i ops = Inr i' \<and> live_src s i' \<and> same_inst i i'
    \<and> rd_dest (i_rename_data i') = rd_dest (i_rename_data i)"
  using assms(2,3)
proof (induction ops arbitrary: i)
  case (Cons op ops)
  from rename_source_ok[OF assms(1), of op i] Cons.prems obtain i1 where
    i1: "rename_source s i op = Inr i1" "live_src s i1" "same_inst i i1"
      "rd_dest (i_rename_data i1) = rd_dest (i_rename_data i)" by auto
  from Cons.IH[OF _ i1(2)] Cons.prems i1 same_inst_trans show ?case by fastforce
qed auto

text \<open>The choice of the physical register keeps the pool consistent whether it is fresh or shared.\<close>

lemma choose_prf_ok:
  assumes "rf_inv rf mt rc M" and "freelist rc \<noteq> []"
    and "\<forall>r\<in>set (rd_src (i_rename_data i) rf). phys_reg r < length (refs_of rc) \<and> 0 < refs_of rc ! phys_reg r"
  shows "\<exists>p rc' elim. choose_prf me i rf rc = Inr (p, rc', elim)
    \<and> (\<forall>pr. rf_inv rf mt (acquire_ref p pr rc') (add_mset p M)) \<and> p < length (refs_of rc)
    \<and> reference_counter rc' = reference_counter rc \<and> length (freelist rc) \<le> Suc (length (freelist rc'))"
proof -
  from assms(2) obtain q fl where fl: "freelist rc = q # fl" by (cases "freelist rc") auto
  show ?thesis
  proof (cases "me \<and> i_is_move i \<and> rd_src (i_rename_data i) rf \<noteq> []")
    case True
    let ?p = "phys_reg (hd (rd_src (i_rename_data i) rf))"
    from True assms(3) have "?p < length (refs_of rc)" "0 < refs_of rc ! ?p" by auto
    with True fl show ?thesis
      using rf_inv_acquire_shared[OF assms(1)] by (auto simp: choose_prf_def)
  next
    case False
    with fl show ?thesis
      using rf_inv_acquire_fresh[OF assms(1) fl] by (auto simp: choose_prf_def)
  qed
qed

lemma rename_dest_ok:
  assumes inv: "rf_inv (reg_file op) (rn_map_table s (reg_file op)) (rn_comps s (reg_file op)) M"
    and op: "wf_op op" "\<not> is_x0 op" and live: "live_src s i"
    and ne: "freelist (rn_comps s (reg_file op)) \<noteq> []"
  shows "\<exists>s' i' d. rename_dest pr self (s, i) op = Inr (s', i')
    \<and> rd_dest (i_rename_data i') = (rd_dest (i_rename_data i))(reg_file op := rd_dest (i_rename_data i) (reg_file op) @ [d])
    \<and> rf_inv (reg_file op) (rn_map_table s' (reg_file op)) (rn_comps s' (reg_file op)) (add_mset (prev_dest d) M)
    \<and> op_info d = op \<and> rn_map_table s (reg_file op) ! field_value op = Some (prev_dest d)
    \<and> rn_map_table s' (reg_file op) = redo_map (rn_map_table s (reg_file op)) [d]
    \<and> same_but {reg_file op} s s' \<and> live_src s' i' \<and> same_inst i i'
    \<and> length (freelist (rn_comps s (reg_file op))) \<le> Suc (length (freelist (rn_comps s' (reg_file op))))"
proof -
  let ?rf = "reg_file op" and ?a = "field_value op"
  let ?mt = "rn_map_table s ?rf" and ?rc = "rn_comps s ?rf"
  have rf: "?rf \<in> set regfiles" and a: "?a < 32" "\<not> (?rf = RF_INTEGER \<and> ?a = 0)"
    using op by (auto simp: wf_op_def NUM_RISCV_REGS_def)
  from rf_inv_mapped[OF inv a] obtain q where q: "?mt ! ?a = Some q" by blast
  have "\<forall>r\<in>set (rd_src (i_rename_data i) ?rf). phys_reg r < length (refs_of ?rc) \<and> 0 < refs_of ?rc ! phys_reg r"
    using live rf by (auto simp: live_src_def)
  from choose_prf_ok[OF inv ne this, of "p_move_elimination pr"] obtain p rc' elim where
    c: "choose_prf (p_move_elimination pr) i ?rf ?rc = Inr (p, rc', elim)"
      "\<And>pr. rf_inv ?rf ?mt (acquire_ref p pr rc') (add_mset p M)" "p < length (refs_of ?rc)"
      "reference_counter rc' = reference_counter ?rc" "length (freelist ?rc) \<le> Suc (length (freelist rc'))"
    by blast
  have refs: "refs_of rc' = refs_of ?rc" using c(4) by (simp add: refs_of_def)
  have pm: "p \<noteq> UINT32_MAX" using c(3) inv by (auto simp: rf_inv_def)
  let ?ref = "(reference_counter ?rc ! p)\<lparr>cnt := cnt (reference_counter ?rc ! p) + 1,
      producer_id := i_unique_id i, producer := Some self, producer_is_load := i_is_load i\<rparr>"
  have inv': "rf_inv ?rf (?mt[?a := Some p]) (set_ref p ?ref rc') (add_mset q M)"
  proof (rule rf_inv_cong)
    show "rf_inv ?rf (?mt[?a := Some p]) (acquire_ref p ?ref rc') (add_mset q M)"
      using rf_inv_swap[OF c(2)[of ?ref] a(1) q, of p] by simp
  qed (simp_all add: acquire_ref_def c(4))
  have l: "lookup_map s ?rf ?a = Inr q"
    using q a(1) rf_inv_lengthD[OF inv] by (simp add: lookup_map_def)
  have r: "ref_at rc' p = Inr (reference_counter ?rc ! p)"
    using c(3) refs c(4) by (simp add: ref_at_def length_refs_of)
  have lv: "0 < (refs_of ?rc)[p := n] ! k" if "0 < refs_of ?rc ! k" "0 < n" "k < length (refs_of ?rc)" for k n
    using that by (cases "k = p") auto
  let ?d = "\<lparr>phys_reg = p, prev_dest = q, op_info = op\<rparr>"
  have "\<exists>s' i'. rename_dest pr self (s, i) op = Inr (s', i')
    \<and> rd_dest (i_rename_data i') = (rd_dest (i_rename_data i))(?rf := rd_dest (i_rename_data i) ?rf @ [?d])
    \<and> rf_inv ?rf (rn_map_table s' ?rf) (rn_comps s' ?rf) (add_mset (prev_dest ?d) M)
    \<and> rn_map_table s' ?rf = redo_map ?mt [?d] \<and> same_but {?rf} s s' \<and> live_src s' i' \<and> same_inst i i'
    \<and> length (freelist ?rc) \<le> Suc (length (freelist (rn_comps s' ?rf)))"
    using op c(1,5) l r pm inv' live lv[of _ "Suc (cnt (reference_counter ?rc ! p))"] refs
    using c(4)
    by (auto simp: rename_dest_def mk_Reg_prev_def set_comp_def same_but_def same_sizes_def same_inst_def live_src_def
        addDestRegister_def addDestination_def addDestRegisterWithScoreboardUpdate_def
        setDestRegisterBitWithScoreboardUpdate_def Let_def)
  then obtain s' i' where res: "rename_dest pr self (s, i) op = Inr (s', i')"
    "rd_dest (i_rename_data i') = (rd_dest (i_rename_data i))(?rf := rd_dest (i_rename_data i) ?rf @ [?d])"
    "rf_inv ?rf (rn_map_table s' ?rf) (rn_comps s' ?rf) (add_mset (prev_dest ?d) M)"
    "rn_map_table s' ?rf = redo_map ?mt [?d]" "same_but {?rf} s s'" "live_src s' i'" "same_inst i i'"
    "length (freelist ?rc) \<le> Suc (length (freelist (rn_comps s' ?rf)))" by blast
  show ?thesis
    by (rule exI[of _ s'], rule exI[of _ i'], rule exI[of _ ?d]) (use res q in simp)
qed

lemma real_dests_Cons:
  "real_dests rf (op # ops) = (if \<not> is_x0 op \<and> reg_file op = rf then op # real_dests rf ops else real_dests rf ops)"
  by (simp add: real_dests_def)

lemma rename_dests_ok:
  assumes "\<forall>rf\<in>set regfiles. rf_inv rf (rn_map_table s rf) (rn_comps s rf) (M rf)"
    and "live_src s i" and "\<forall>op\<in>set ops. wf_op op"
    and "\<forall>rf\<in>set regfiles. length (real_dests rf ops) \<le> length (freelist (rn_comps s rf))
       \<and> distinct (map field_value (real_dests rf ops))"
  shows "\<exists>s' i' D. foldE (rename_dest pr self) (s, i) ops = Inr (s', i')
    \<and> (\<forall>rf\<in>set regfiles. rd_dest (i_rename_data i') rf = rd_dest (i_rename_data i) rf @ D rf
        \<and> rn_map_table s' rf = redo_map (rn_map_table s rf) (D rf)
        \<and> rf_inv rf (rn_map_table s' rf) (rn_comps s' rf) (M rf + mset (map prev_dest (D rf)))
        \<and> map op_info (D rf) = real_dests rf ops
        \<and> (\<forall>d\<in>set (D rf). rn_map_table s rf ! arch_of d = Some (prev_dest d))
        \<and> length (freelist (rn_comps s rf)) \<le> length (freelist (rn_comps s' rf)) + length (D rf))
    \<and> same_but (set regfiles) s s' \<and> same_inst i i'"
  using assms
proof (induction ops arbitrary: s i M)
  case Nil
  then show ?case by (intro exI[of _ s] exI[of _ i] exI[of _ "\<lambda>_. []"]) (simp add: real_dests_def)
next
  case (Cons op ops)
  show ?case
  proof (cases "is_x0 op")
    case True
    with Cons show ?thesis by (simp add: rename_dest_def real_dests_Cons)
  next
    case False
    let ?r = "reg_file op"
    have wf: "wf_op op" and r: "?r \<in> set regfiles" using Cons.prems(3) by (auto simp: wf_op_def)
    have ne: "freelist (rn_comps s ?r) \<noteq> []"
      using Cons.prems(4) r False by (auto simp: real_dests_Cons)
    from rename_dest_ok[OF _ wf False Cons.prems(2) ne, of "M ?r" pr self] Cons.prems(1) r
    obtain s1 i1 d where d: "rename_dest pr self (s, i) op = Inr (s1, i1)"
      "rd_dest (i_rename_data i1) = (rd_dest (i_rename_data i))(?r := rd_dest (i_rename_data i) ?r @ [d])"
      "rf_inv ?r (rn_map_table s1 ?r) (rn_comps s1 ?r) (add_mset (prev_dest d) (M ?r))"
      "op_info d = op" "rn_map_table s ?r ! field_value op = Some (prev_dest d)"
      "rn_map_table s1 ?r = redo_map (rn_map_table s ?r) [d]" "same_but {?r} s s1" "live_src s1 i1"
      "same_inst i i1" "length (freelist (rn_comps s ?r)) \<le> Suc (length (freelist (rn_comps s1 ?r)))"
      by blast
    let ?M = "M(?r := add_mset (prev_dest d) (M ?r))"
    have o: "rn_map_table s1 rf = rn_map_table s rf \<and> rn_comps s1 rf = rn_comps s rf" if "rf \<noteq> ?r" for rf
      using d(7) that by (simp add: same_but_def)
    have "\<forall>rf\<in>set regfiles. rf_inv rf (rn_map_table s1 rf) (rn_comps s1 rf) (?M rf)"
      using d(3) o Cons.prems(1) by (metis fun_upd_apply)
    moreover have "length (real_dests rf ops) \<le> length (freelist (rn_comps s1 rf))
        \<and> distinct (map field_value (real_dests rf ops))" if "rf \<in> set regfiles" for rf
      using Cons.prems(4) that d(10) o[of rf] False by (cases "rf = ?r") (auto simp: real_dests_Cons)
    ultimately obtain s' i' D where IH: "foldE (rename_dest pr self) (s1, i1) ops = Inr (s', i')"
      "\<And>rf. rf \<in> set regfiles \<Longrightarrow> rd_dest (i_rename_data i') rf = rd_dest (i_rename_data i1) rf @ D rf
        \<and> rn_map_table s' rf = redo_map (rn_map_table s1 rf) (D rf)
        \<and> rf_inv rf (rn_map_table s' rf) (rn_comps s' rf) (?M rf + mset (map prev_dest (D rf)))
        \<and> map op_info (D rf) = real_dests rf ops
        \<and> (\<forall>d\<in>set (D rf). rn_map_table s1 rf ! arch_of d = Some (prev_dest d))
        \<and> length (freelist (rn_comps s1 rf)) \<le> length (freelist (rn_comps s' rf)) + length (D rf)"
      "same_but (set regfiles) s1 s'" "same_inst i1 i'"
      using Cons.IH[of s1 ?M i1] d(8) Cons.prems(3) by fastforce
    have old: "rn_map_table s ?r ! arch_of e = Some (prev_dest e)" if "e \<in> set (D ?r)" for e
    proof -
      from that have "op_info e \<in> set (real_dests ?r ops)" using IH(2)[OF r] by (metis image_eqI list.set_map)
      moreover have "field_value op \<notin> field_value ` set (real_dests ?r ops)"
        using Cons.prems(4) r False by (auto simp: real_dests_Cons)
      ultimately have "arch_of e \<noteq> field_value op" by (metis image_eqI)
      with IH(2)[OF r] that d(4,6) show ?thesis by auto
    qed
    let ?D = "\<lambda>rf. if rf = ?r then d # D rf else D rf"
    have all: "rd_dest (i_rename_data i') rf = rd_dest (i_rename_data i) rf @ ?D rf
        \<and> rn_map_table s' rf = redo_map (rn_map_table s rf) (?D rf)
        \<and> rf_inv rf (rn_map_table s' rf) (rn_comps s' rf) (M rf + mset (map prev_dest (?D rf)))
        \<and> map op_info (?D rf) = real_dests rf (op # ops)
        \<and> (\<forall>d\<in>set (?D rf). rn_map_table s rf ! arch_of d = Some (prev_dest d))
        \<and> length (freelist (rn_comps s rf)) \<le> length (freelist (rn_comps s' rf)) + length (?D rf)"
      if "rf \<in> set regfiles" for rf
    proof (cases "rf = ?r")
      case True
      then show ?thesis using IH(2)[OF r] d(2,4,5,6,10) old False by (auto simp: real_dests_Cons)
    next
      case ne: False
      then show ?thesis using IH(2)[OF that] d(2) o[OF ne] by (auto simp: real_dests_Cons)
    qed
    have "foldE (rename_dest pr self) (s, i) (op # ops) = Inr (s', i')" using d(1) IH(1) by simp
    moreover have "same_but (set regfiles) s s'"
      using same_but_trans[OF d(7) IH(3)] r by (simp add: insert_absorb)
    moreover have "same_inst i i'" using d(9) IH(4) by (rule same_inst_trans)
    ultimately show ?thesis
      by (intro exI[of _ s'] exI[of _ i'] exI[of _ ?D]) (use all in blast)
  qed
qed

definition need :: "heap \<Rightarrow> RegFile \<Rightarrow> ptr \<Rightarrow> nat" where
  "need h rf p = length (real_dests rf (i_dest_ops (h p)))"

lemma rename_inst_ok:
  assumes inv: "\<forall>rf\<in>set regfiles. rf_st s rf (E rf)" and fr: "fresh_inst (h p)"
    and en: "\<forall>rf\<in>set regfiles. need h rf p \<le> length (freelist (rn_comps s rf))"
  shows "\<exists>s' i'. rename_inst pr p (s, h) = Inr (s', h(p := i'))
    \<and> (\<forall>rf\<in>set regfiles. rf_st s' rf (rd_dest (i_rename_data i') rf @ E rf)
        \<and> undo_map (rn_map_table s' rf) (rd_dest (i_rename_data i') rf) = rn_map_table s rf
        \<and> length (freelist (rn_comps s rf)) \<le> length (freelist (rn_comps s' rf)) + need h rf p)
    \<and> wf_dests (h(p := i')) p \<and> i_status i' = RENAMED \<and> i_unique_id i' = i_unique_id (h p)
    \<and> same_but (set regfiles) s s'"
proof -
  let ?M = "\<lambda>rf. mset (map prev_dest (E rf))"
  have inv': "\<forall>rf\<in>set regfiles. rf_inv rf (rn_map_table s rf) (rn_comps s rf) (?M rf)"
    using inv by (auto simp: rf_st_def)
  have "\<forall>op\<in>set (i_src_ops (h p)). wf_op op" "live_src s (h p)"
    using fr by (auto simp: fresh_inst_def live_src_def)
  from renameSources_ok[OF inv' this] obtain i1 where i1: "renameSources s (h p) = Inr i1" "live_src s i1"
    "same_inst (h p) i1" "rd_dest (i_rename_data i1) = rd_dest (i_rename_data (h p))"
    by (auto simp: renameSources_def)
  have "\<forall>op\<in>set (i_dest_ops i1). wf_op op" using fr i1(3) by (auto simp: fresh_inst_def same_inst_def)
  moreover have "\<forall>rf\<in>set regfiles. length (real_dests rf (i_dest_ops i1)) \<le> length (freelist (rn_comps s rf))
      \<and> distinct (map field_value (real_dests rf (i_dest_ops i1)))"
    using fr en i1(3) by (auto simp: fresh_inst_def need_def same_inst_def)
  ultimately obtain s' i2 D where r: "renameDests pr p (s, i1) = Inr (s', i2)"
    and D: "\<And>rf. rf \<in> set regfiles \<Longrightarrow> rd_dest (i_rename_data i2) rf = rd_dest (i_rename_data i1) rf @ D rf
        \<and> rn_map_table s' rf = redo_map (rn_map_table s rf) (D rf)
        \<and> rf_inv rf (rn_map_table s' rf) (rn_comps s' rf) (?M rf + mset (map prev_dest (D rf)))
        \<and> map op_info (D rf) = real_dests rf (i_dest_ops i1)
        \<and> (\<forall>d\<in>set (D rf). rn_map_table s rf ! arch_of d = Some (prev_dest d))
        \<and> length (freelist (rn_comps s rf)) \<le> length (freelist (rn_comps s' rf)) + length (D rf)"
    and sb: "same_but (set regfiles) s s'" "same_inst i1 i2"
    using rename_dests_ok[OF inv' i1(2), of "i_dest_ops i1" pr p] unfolding renameDests_def snd_conv
    by blast
  let ?i = "i2\<lparr>i_status := RENAMED\<rparr>"
  have st: "setStatus RENAMED i2 = Inr (?i, False)"
    using fr i1(3) sb(2) by (auto simp: setStatus_def fresh_inst_def same_inst_def)
  have dD: "rd_dest (i_rename_data i2) rf = D rf" if "rf \<in> set regfiles" for rf
    using D[OF that] i1(4) fr that by (simp add: fresh_inst_def)
  have wf: "wf_dest rf d" if "rf \<in> set regfiles" "d \<in> set (D rf)" for rf d
  proof -
    have "op_info d \<in> set (real_dests rf (i_dest_ops i1))" using D[OF that(1)] that(2)
      by (metis image_eqI list.set_map)
    then show ?thesis using fr i1(3)
      by (auto simp: real_dests_def wf_dest_def wf_op_def fresh_inst_def same_inst_def)
  qed
  have ur: "undo_map (rn_map_table s' rf) (D rf) = rn_map_table s rf \<and> chain (rn_map_table s' rf) (D rf)"
    if "rf \<in> set regfiles" for rf
  proof -
    have "map arch_of (D rf) = map field_value (real_dests rf (i_dest_ops i1))"
      using D[OF that] by (metis comp_apply map_map map_cong)
    moreover have "distinct (map field_value (real_dests rf (i_dest_ops i1)))"
      using fr i1(3) that by (simp add: fresh_inst_def same_inst_def)
    ultimately have "undo_map (redo_map (rn_map_table s rf) (D rf)) (D rf) = rn_map_table s rf
        \<and> chain (redo_map (rn_map_table s rf) (D rf)) (D rf)"
      using D[OF that] wf[OF that] rf_inv_lengthD[of rf "rn_map_table s rf"] inv' that
      by (intro undo_redo) (auto simp: wf_dest_def NUM_RISCV_REGS_def)
    then show ?thesis using D[OF that] by simp
  qed
  have len: "length (D rf) = need h rf p" if "rf \<in> set regfiles" for rf
    using D[OF that] i1(3) by (metis length_map need_def same_inst_def)
  have "rf_st s' rf (D rf @ E rf)" if "rf \<in> set regfiles" for rf
    using D[OF that] ur[OF that] inv that
    by (auto simp: rf_st_def chain_append add.commute)
  then show ?thesis
    using r st i1(1,3) sb D ur wf len dD
    by (intro exI[of _ s'] exI[of _ ?i]) (auto simp: rename_inst_def wf_dests_def same_inst_def)
qed

section \<open>The renaming loop\<close>

lemma foldl_count_dest: "foldl count_dest c ops rf = c rf + length (real_dests rf ops)"
  by (induction ops arbitrary: c) (auto simp: count_dest_def real_dests_def)

lemma regcount_loop_eq:
  "regcount_loop partial h ps c rf =
     c rf + (if partial then (case ps of [] \<Rightarrow> 0 | p # _ \<Rightarrow> need h rf p) else sum_list (map (need h rf) ps))"
  by (induction ps arbitrary: c) (auto simp: foldl_count_dest need_def split: list.splits)

lemma enoughRenames_iff:
  "fst (enoughRenames s) \<longleftrightarrow> (\<forall>rf\<in>set regfiles. rn_regcount s rf \<le> length (freelist (rn_comps s rf)))"
  by (auto simp: enoughRenames_def regfiles_def)

text \<open>The counts that \<open>enoughRenames_\<close> reads are those of the uop queue.\<close>

definition regcount_ok :: "RenameParameterSet \<Rightarrow> heap \<Rightarrow> Rename \<Rightarrow> bool" where
  "regcount_ok pr h s \<longleftrightarrow> rn_uop_queue s \<noteq> [] \<longrightarrow>
     (\<forall>rf. rn_regcount s rf = regcount_loop (p_partial_rename pr) h (rn_uop_queue s) (\<lambda>_. 0) rf)"

definition uops_fresh :: "heap \<Rightarrow> Rename \<Rightarrow> bool" where
  "uops_fresh h s \<longleftrightarrow> (\<forall>p\<in>set (rn_uop_queue s). fresh_inst (h p))"

lemma regcount_ok_update [simp]: "regcount_ok pr h (updateRegcountData pr h s)"
  by (simp add: regcount_ok_def updateRegcountData_def)

lemma rn_inv_updateRegcountData [simp]: "rn_inv h (updateRegcountData pr h s) = rn_inv h s"
  by (simp add: updateRegcountData_def)

lemma rename_step_inv:
  assumes "rn_inv h s" and "rn_uop_queue s = p # rest" and "same_but (set regfiles) s s2"
    and "\<forall>rf\<in>set regfiles. rf_st s2 rf (rd_dest (i_rename_data i') rf @ inflight h (rn_inst_queue s) rf)"
    and "wf_dests (h(p := i')) p"
  shows "rn_inv (h(p := i')) (s2\<lparr>rn_uop_queue := rest, rn_inst_queue := rn_inst_queue s2 @ [p]\<rparr>)"
proof -
  have p: "p \<notin> set (rn_inst_queue s)" using assms(1,2) by (auto simp: rn_inv_def)
  have "inflight (h(p := i')) (rn_inst_queue s) rf = inflight h (rn_inst_queue s) rf" for rf
    using p by (intro inflight_cong) auto
  then show ?thesis using assms p
    by (auto simp: rn_inv_def rf_st_def same_but_def wf_dests_def)
qed

end
