(* ===== verification/RenameProps.thy ===== *)
theory RenameProps
  imports RenameFlow
begin

text \<open>
  The renaming loop, the handlers as steps of one state machine, and the properties of the rename
  unit: the register accounting holds in every reachable state, no assertion of the unit fires, a
  flush restores the rename map that the flushed instructions replaced.
\<close>

section \<open>The renaming loop\<close>

lemma rn_emit_simps [simp]:
  "rn_uop_queue (rn_emit e s) = rn_uop_queue s" "rn_inst_queue (rn_emit e s) = rn_inst_queue s"
  "rn_map_table (rn_emit e s) = rn_map_table s" "rn_comps (rn_emit e s) = rn_comps s"
  "rn_regcount (rn_emit e s) = rn_regcount s" "rn_credits_dispatch (rn_emit e s) = rn_credits_dispatch s"
  "rn_out (rn_emit e s) = rn_out s @ [e]"
  by (simp_all add: rn_emit_def)

lemma setStall_simps [simp]:
  "rn_uop_queue (setStall r s) = rn_uop_queue s" "rn_inst_queue (setStall r s) = rn_inst_queue s"
  "rn_map_table (setStall r s) = rn_map_table s" "rn_comps (setStall r s) = rn_comps s"
  "rn_regcount (setStall r s) = rn_regcount s" "rn_credits_dispatch (setStall r s) = rn_credits_dispatch s"
  "rn_out (setStall r s) = rn_out s"
  by (simp_all add: setStall_def)

lemma send_renamed_simps [simp]:
  "rn_uop_queue (send_renamed g s) = rn_uop_queue s" "rn_inst_queue (send_renamed g s) = rn_inst_queue s"
  "rn_map_table (send_renamed g s) = rn_map_table s" "rn_comps (send_renamed g s) = rn_comps s"
  "rn_regcount (send_renamed g s) = rn_regcount s"
  "rn_credits_dispatch (send_renamed g s)
     = (if g = [] then rn_credits_dispatch s else sub32 (rn_credits_dispatch s) (length g))"
  "rn_out (send_renamed g s)
     = rn_out s @ (if g = [] then [] else [OutDispatchQueueWrite g, OutUopQueueCredits (length g)])"
  by (simp_all add: send_renamed_def)

text \<open>What a run of the loop that renames the instructions \<open>new\<close> does to state and store.\<close>

definition renamed_to ::
    "RenameParameterSet \<Rightarrow> Rename \<times> heap \<Rightarrow> ptr list \<Rightarrow> Rename \<times> heap \<Rightarrow> bool" where
  "renamed_to pr sh new sh' \<longleftrightarrow> (case (sh, sh') of ((s, h), (s', h')) \<Rightarrow>
     same_sizes s s' \<and> rn_inv h' s' \<and> uops_fresh h' s' \<and> (p_partial_rename pr \<longrightarrow> regcount_ok pr h' s')
     \<and> rn_uop_queue s = new @ rn_uop_queue s' \<and> rn_inst_queue s' = rn_inst_queue s @ new
     \<and> rn_credits_dispatch s' = rn_credits_dispatch s
     \<and> (\<forall>rf\<in>set regfiles. undo_map (rn_map_table s' rf) (inflight h' new rf) = rn_map_table s rf)
     \<and> (\<forall>q. q \<notin> set new \<longrightarrow> h' q = h q) \<and> same_uids h h' \<and> (\<forall>q\<in>set new. i_status (h' q) = RENAMED))"

definition supply_ok :: "RenameParameterSet \<Rightarrow> Rename \<times> heap \<Rightarrow> bool" where
  "supply_ok pr sh \<longleftrightarrow> (if p_partial_rename pr then regcount_ok pr (snd sh) (fst sh)
     else \<forall>rf\<in>set regfiles. sum_list (map (need (snd sh) rf) (rn_uop_queue (fst sh)))
            \<le> length (freelist (rn_comps (fst sh) rf)))"

lemma renamed_to_refl:
  "rn_inv h s \<Longrightarrow> uops_fresh h s \<Longrightarrow> (p_partial_rename pr \<Longrightarrow> regcount_ok pr h s) \<Longrightarrow>
   renamed_to pr (s, h) [] (s, h)"
  by (simp add: renamed_to_def same_uids_def)

text \<open>Only the queues, the register state and the counts matter: logging, stall reasons and credits
  do not.\<close>

lemma renamed_to_cong:
  assumes "renamed_to pr (s, h) new (s1, h1)"
    and "rn_uop_queue s2 = rn_uop_queue s1" "rn_inst_queue s2 = rn_inst_queue s1"
    and "rn_map_table s2 = rn_map_table s1" "rn_comps s2 = rn_comps s1" "rn_regcount s2 = rn_regcount s1"
    and "rn_credits_dispatch s2 = rn_credits_dispatch s"
  shows "renamed_to pr (s, h) new (s2, h1)"
proof -
  have "rn_inv h1 s2 = rn_inv h1 s1" by (simp add: rn_inv_def rf_st_def assms(2-6))
  moreover have "uops_fresh h1 s2 = uops_fresh h1 s1" by (simp add: uops_fresh_def assms(2))
  moreover have "regcount_ok pr h1 s2 = regcount_ok pr h1 s1" by (simp add: regcount_ok_def assms(2,6))
  moreover have "same_sizes s s2 = same_sizes s s1" by (simp add: same_sizes_def assms(5))
  ultimately show ?thesis using assms by (simp add: renamed_to_def)
qed

lemma renamed_to_Cons:
  assumes "renamed_to pr (s, h) [p] sh1" and "renamed_to pr sh1 new sh2" and "p \<notin> set new"
  shows "renamed_to pr (s, h) (p # new) sh2"
proof -
  obtain s1 h1 s2 h2 where eq: "sh1 = (s1, h1)" "sh2 = (s2, h2)" by (cases sh1, cases sh2)
  from assms(2,3) have "h2 p = h1 p" by (simp add: renamed_to_def eq)
  with assms show ?thesis using same_sizes_trans[of s s1 s2] by (auto simp: renamed_to_def eq same_uids_def)
qed

lemma rename_one_ok:
  assumes inv: "rn_inv h s" "uops_fresh h s" and q: "rn_uop_queue s = p # rest"
    and en: "\<forall>rf\<in>set regfiles. need h rf p \<le> length (freelist (rn_comps s rf))"
  shows "\<exists>s2 h2. rename_inst pr p (s, h) = Inr (s2, h2)
    \<and> (let s3 = s2\<lparr>rn_uop_queue := rest, rn_inst_queue := rn_inst_queue s2 @ [p]\<rparr>;
           s4 = (if p_partial_rename pr \<and> rest \<noteq> [] then updateRegcountData pr h2 s3 else s3)
       in renamed_to pr (s, h) [p] (s4, h2)
          \<and> (\<forall>rf\<in>set regfiles. length (freelist (rn_comps s rf)) \<le> length (freelist (rn_comps s4 rf)) + need h rf p)
          \<and> (\<forall>rf r. r \<in> set rest \<longrightarrow> need h2 rf r = need h rf r))"
proof -
  have p: "p \<notin> set rest" "p \<notin> set (rn_inst_queue s)" and fr: "fresh_inst (h p)"
    using inv q by (auto simp: rn_inv_def uops_fresh_def)
  from inv(1) have "\<forall>rf\<in>set regfiles. rf_st s rf (inflight h (rn_inst_queue s) rf)" by (simp add: rn_inv_def)
  from rename_inst_ok[OF this fr en, of pr] obtain s2 i' where
    r: "rename_inst pr p (s, h) = Inr (s2, h(p := i'))"
      "\<forall>rf\<in>set regfiles. rf_st s2 rf (rd_dest (i_rename_data i') rf @ inflight h (rn_inst_queue s) rf)
        \<and> undo_map (rn_map_table s2 rf) (rd_dest (i_rename_data i') rf) = rn_map_table s rf
        \<and> length (freelist (rn_comps s rf)) \<le> length (freelist (rn_comps s2 rf)) + need h rf p"
      "wf_dests (h(p := i')) p" "i_status i' = RENAMED" "i_unique_id i' = i_unique_id (h p)"
      "same_but (set regfiles) s s2" by blast
  let ?s3 = "s2\<lparr>rn_uop_queue := rest, rn_inst_queue := rn_inst_queue s2 @ [p]\<rparr>"
  have inv3: "rn_inv (h(p := i')) ?s3" using rename_step_inv[OF inv(1) q r(6) _ r(3)] r(2) by blast
  have "uops_fresh (h(p := i')) ?s3" using inv(2) q p by (auto simp: uops_fresh_def)
  then show ?thesis using r inv3 p q
    by (auto simp: renamed_to_def same_but_def same_uids_def same_sizes_def Let_def updateRegcountData_def uops_fresh_def
        regcount_ok_def need_def)
qed

lemma rename_loop_ok:
  assumes "rn_inv h s" and "uops_fresh h s" and "n \<le> length (rn_uop_queue s)" and "supply_ok pr (s, h)"
  shows "\<exists>s' h' new rem. rename_loop pr n (s, h) insts = Inr ((s', h'), insts @ new, rem)
    \<and> renamed_to pr (s, h) new (s', h') \<and> length new + rem = n \<and> (\<not> p_partial_rename pr \<longrightarrow> rem = 0)
    \<and> (0 < rem \<longrightarrow> \<not> fst (enoughRenames s'))"
  using assms
proof (induction n arbitrary: s h insts)
  case 0
  then show ?case by (auto simp: supply_ok_def intro: renamed_to_refl)
next
  case (Suc n)
  from Suc.prems(3) obtain p rest where q: "rn_uop_queue s = p # rest" by (cases "rn_uop_queue s") auto
  show ?case
  proof (cases "p_partial_rename pr \<and> \<not> fst (enoughRenames s)")
    case True
    let ?s = "setStall (snd (enoughRenames s)) s"
    have "renamed_to pr (s, h) [] (?s, h)"
      using Suc.prems True by (simp add: renamed_to_def same_uids_def same_sizes_def supply_ok_def uops_fresh_def
          regcount_ok_def setStall_def rn_inv_def rf_st_def)
    moreover have "enoughRenames ?s = enoughRenames s"
      by (simp add: enoughRenames_def regfiles_def setStall_def)
    ultimately show ?thesis using True q by auto
  next
    case False
    have en: "\<forall>rf\<in>set regfiles. need h rf p \<le> length (freelist (rn_comps s rf))"
    proof (cases "p_partial_rename pr")
      case True
      with False have "\<forall>rf\<in>set regfiles. rn_regcount s rf \<le> length (freelist (rn_comps s rf))"
        by (simp add: enoughRenames_iff)
      with True Suc.prems(4) q show ?thesis by (simp add: supply_ok_def regcount_ok_def foldl_count_dest need_def)
    next
      case False
      with Suc.prems(4) q show ?thesis by (auto simp: supply_ok_def)
    qed
    from rename_one_ok[OF Suc.prems(1,2) q en, of pr] obtain s2 h2 s4 where
      r: "rename_inst pr p (s, h) = Inr (s2, h2)"
        "s4 = (let s3 = s2\<lparr>rn_uop_queue := rest, rn_inst_queue := rn_inst_queue s2 @ [p]\<rparr>
               in if p_partial_rename pr \<and> rest \<noteq> [] then updateRegcountData pr h2 s3 else s3)"
        "renamed_to pr (s, h) [p] (s4, h2)"
        "\<forall>rf\<in>set regfiles. length (freelist (rn_comps s rf)) \<le> length (freelist (rn_comps s4 rf)) + need h rf p"
        "\<forall>rf r. r \<in> set rest \<longrightarrow> need h2 rf r = need h rf r"
      by (auto simp: Let_def)
    have rest: "rn_uop_queue s4 = rest" using r(3) q by (simp add: renamed_to_def)
    have "sum_list (map (need h2 rf) rest) = sum_list (map (need h rf) rest)" for rf
      using r(5) by (intro arg_cong[of _ _ sum_list] map_cong) auto
    then have sum: "sum_list (map (need h rf) (rn_uop_queue s)) = need h rf p + sum_list (map (need h2 rf) rest)" for rf
      using q by simp
    have "supply_ok pr (s4, h2)"
    proof (cases "p_partial_rename pr")
      case True
      with r(3) show ?thesis by (simp add: supply_ok_def renamed_to_def)
    next
      case False
      have "sum_list (map (need h2 rf) rest) \<le> length (freelist (rn_comps s4 rf))" if "rf \<in> set regfiles" for rf
        using Suc.prems(4) False r(4) sum[of rf] that by (fastforce simp: supply_ok_def)
      with False rest show ?thesis by (simp add: supply_ok_def)
    qed
    moreover have "rn_inv h2 s4" "uops_fresh h2 s4" using r(3) by (simp_all add: renamed_to_def)
    moreover have "n \<le> length (rn_uop_queue s4)" using Suc.prems(3) q rest by simp
    ultimately obtain s' h' new rem where IH: "rename_loop pr n (s4, h2) (insts @ [p]) = Inr ((s', h'), (insts @ [p]) @ new, rem)"
      "renamed_to pr (s4, h2) new (s', h')" "length new + rem = n" "\<not> p_partial_rename pr \<longrightarrow> rem = 0"
      "0 < rem \<longrightarrow> \<not> fst (enoughRenames s')"
      using Suc.IH[of h2 s4 "insts @ [p]"] by blast
    have "p \<notin> set new" using IH(2) r(3) q Suc.prems(1) by (auto simp: renamed_to_def rn_inv_def)
    then have "renamed_to pr (s, h) (p # new) (s', h')" using renamed_to_Cons[OF r(3) IH(2)] by blast
    moreover have "rename_loop pr (Suc n) (s, h) insts = Inr ((s', h'), insts @ p # new, rem)"
      using q False r(1,2) IH(1) by (simp add: Let_def)
    ultimately show ?thesis using IH(3,4,5) by (intro exI[of _ s'] exI[of _ h'] exI[of _ "p # new"]) simp
  qed
qed

lemma rename_loop_rem: "rename_loop pr n sh insts = Inr (sh', insts', rem) \<Longrightarrow> rem \<le> n"
proof (induction n arbitrary: sh insts)
  case (Suc n)
  show ?case
  proof (cases "rn_uop_queue (fst sh)")
    case Nil
    with Suc.prems show ?thesis by simp
  next
    case (Cons p rest)
    show ?thesis
    proof (cases "p_partial_rename pr \<and> \<not> fst (enoughRenames (fst sh))")
      case True
      with Suc.prems Cons show ?thesis by simp
    next
      case False
      with Suc.prems Cons obtain sh2 insts2 where "rename_loop pr n sh2 insts2 = Inr (sh', insts', rem)"
        by (auto simp: bindE_eq_Inr Let_def)
      from Suc.IH[OF this] show ?thesis by simp
    qed
  qed
qed simp

text \<open>With enough free registers for the oldest instruction the first pass renames it.\<close>

lemma rename_loop_first:
  assumes "rn_inv h s" "uops_fresh h s" and "rn_uop_queue s = p # rest" and "fst (enoughRenames s)"
    and "rename_loop pr (Suc m) (s, h) insts = Inr (sh', insts', rem)"
  shows "rem \<le> m"
proof -
  obtain s2 h2 where "rename_inst pr p (s, h) = Inr (s2, h2)"
    using assms(3,4,5) by (auto simp: bindE_eq_Inr)
  with assms(3,4,5) obtain s4 insts1 where l: "rename_loop pr m (s4, h2) insts1 = Inr (sh', insts', rem)"
    by (auto simp: Let_def split: if_splits)
  show ?thesis using rename_loop_rem[OF l] .
qed

lemma renameInstructions_ok:
  assumes inv: "rn_inv h s" "uops_fresh h s" and sup: "supply_ok pr (s, h)"
    and n: "0 < min (rn_credits_dispatch s) (min (length (rn_uop_queue s)) (p_num_to_rename pr))"
    and full: "\<not> p_partial_rename pr \<Longrightarrow>
       length (rn_uop_queue s) \<le> p_num_to_rename pr \<and> length (rn_uop_queue s) \<le> rn_credits_dispatch s"
    and cr: "rn_credits_dispatch s \<le> UINT32_MAX"
  shows "\<exists>s' h' new. renameInstructions pr (s, h) = Inr (s', h')
    \<and> renamed_to pr (s, h) new (s'\<lparr>rn_credits_dispatch := rn_credits_dispatch s\<rparr>, h')
    \<and> rn_credits_dispatch s' + length new = rn_credits_dispatch s
    \<and> length new \<le> p_num_to_rename pr
    \<and> (fst (enoughRenames s) \<longrightarrow> new \<noteq> [])
    \<and> (new \<noteq> [] \<longrightarrow> OutDispatchQueueWrite new \<in> set (rn_out s') \<and> OutUopQueueCredits (length new) \<in> set (rn_out s'))"
proof -
  let ?n = "min (rn_credits_dispatch s) (min (length (rn_uop_queue s)) (p_num_to_rename pr))"
  obtain s1 h1 new rem where l: "rename_loop pr ?n (s, h) [] = Inr ((s1, h1), new, rem)"
    "renamed_to pr (s, h) new (s1, h1)" "length new + rem = ?n" "\<not> p_partial_rename pr \<longrightarrow> rem = 0"
    "0 < rem \<longrightarrow> \<not> fst (enoughRenames s1)"
    using rename_loop_ok[OF inv _ sup, of ?n "[]"] unfolding append_Nil by (metis min.cobounded1 min.coboundedI2)
  have e: "\<not> p_partial_rename pr \<Longrightarrow> rn_uop_queue s1 = []"
    using l(2,3,4) full by (auto simp: renamed_to_def)
  have c: "rn_credits_dispatch s1 = rn_credits_dispatch s" using l(2) by (simp add: renamed_to_def)
  have sub: "sub32 (rn_credits_dispatch s1) (length new) = rn_credits_dispatch s - length new"
    using l(3) cr c by (simp add: sub32_exact)
  have ne: "new \<noteq> []" if "fst (enoughRenames s)"
  proof
    assume "new = []"
    with l(3) n obtain m where m: "?n = Suc m" "rem = Suc m" by (cases rem) auto
    from n obtain p rest where q: "rn_uop_queue s = p # rest" by (cases "rn_uop_queue s") auto
    from rename_loop_first[OF inv q that, of pr m "[]"] l(1) m show False by auto
  qed
  define t where "t = (let s2 = send_renamed new s1 in
     if rn_credits_dispatch s2 > 0 \<and> length (rn_uop_queue s2) > 0 then rn_emit (EvScheduleRename 1) s2
     else if rn_credits_dispatch s2 = 0 then setStall RN_NO_DISPATCH_CREDITS s2 else setStall RN_NO_DECODE_INSTS s2)"
  have res: "renameInstructions pr (s, h) = Inr (t, h1)"
    using n l(1,4) e by (simp add: renameInstructions_def t_def Let_def)
  have view: "rn_uop_queue t = rn_uop_queue s1" "rn_inst_queue t = rn_inst_queue s1"
    "rn_map_table t = rn_map_table s1" "rn_comps t = rn_comps s1" "rn_regcount t = rn_regcount s1"
    by (simp_all add: t_def Let_def)
  have "rn_credits_dispatch t = rn_credits_dispatch s - length new"
    using sub c by (auto simp: t_def Let_def)
  moreover have "renamed_to pr (s, h) new (t\<lparr>rn_credits_dispatch := rn_credits_dispatch s\<rparr>, h1)"
    by (rule renamed_to_cong[OF l(2)]) (simp_all add: view)
  moreover have "new \<noteq> [] \<longrightarrow> OutDispatchQueueWrite new \<in> set (rn_out t) \<and> OutUopQueueCredits (length new) \<in> set (rn_out t)"
    by (simp add: t_def Let_def)
  moreover have "length new \<le> rn_credits_dispatch s" "length new \<le> p_num_to_rename pr" using l(3) by simp_all
  ultimately show ?thesis
    using ne res by (intro exI[of _ t] exI[of _ h1] exI[of _ new]) simp
qed

section \<open>The initial state\<close>

lemma setup_map_eq:
  "setup_map rf (regs_reserved_init rf) =
     (if rf = RF_INTEGER then (None # map Some [1..<32], 32) else (map Some [0..<32], 32))"
  by (cases rf) (simp_all add: setup_map_def regs_reserved_init_def NUM_RISCV_REGS_def upt_rec numeral_eq_Suc)

lemma mk_Rename_rf_inv:
  assumes "rf \<in> set regfiles" and "num_renames_of pr rf \<le> UINT32_MAX"
  shows "rf_inv rf (rn_map_table (mk_Rename pr) rf) (rn_comps (mk_Rename pr) rf) {#}"
proof -
  let ?z = "if rf = RF_INTEGER then 1 else 0 :: nat" and ?n = "max 32 (num_renames_of pr rf)"
  let ?mt = "rn_map_table (mk_Rename pr) rf" and ?rc = "rn_comps (mk_Rename pr) rf"
  have mt: "?mt = (if rf = RF_INTEGER then [None] else []) @ map Some [?z..<32]"
    by (simp add: mk_Rename_def setup_map_eq)
  have rc: "?rc = setup_freelists rf (num_renames_of pr rf) 32"
    by (simp add: mk_Rename_def setup_map_eq)
  have fl: "freelist ?rc = [32..<num_renames_of pr rf]" by (simp add: rc setup_freelists_def)
  have len: "length (refs_of ?rc) = ?n" by (simp add: rc refs_of_def setup_freelists_def max_def)
  have nth: "refs_of ?rc ! p = (if ?z \<le> p \<and> p < 32 then 1 else 0)" if "p < ?n" for p
    using that by (auto simp: rc refs_of_def setup_freelists_def mk_Producer_def nth_append nth_Cons' split: if_splits)
  have cl: "count_list ?mt (Some p) = (if ?z \<le> p \<and> p < 32 then 1 else 0)" for p
    unfolding mt by (auto simp: count_list_distinct distinct_map)
  have "map_ok rf ?mt" unfolding mt by (auto simp: map_ok_def NUM_RISCV_REGS_def nth_Cons')
  moreover have "counts_ok ?mt (refs_of ?rc) {#}" using nth by (auto simp: counts_ok_def cl len)
  moreover have "free_ok rf (refs_of ?rc) (freelist ?rc)"
    using nth by (auto simp: free_ok_def fl len split: if_splits)
  moreover have "refs_of ?rc \<noteq> []" using len by (metis length_0_conv max_nat.eq_neutr_iff zero_neq_numeral)
  moreover have "length (refs_of ?rc) \<le> UINT32_MAX" using assms(2) by (simp add: len)
  moreover have "rf = RF_INTEGER \<Longrightarrow> refs_of ?rc ! 0 = 0" using nth[of 0] by (simp add: less_max_iff_disj)
  ultimately show ?thesis by (auto simp: rf_inv_def)
qed
section \<open>The unit as a state machine\<close>

definition params_ok :: "RenameParameterSet \<Rightarrow> bool" where
  "params_ok pr \<longleftrightarrow> (\<forall>rf\<in>set regfiles. num_renames_of pr rf \<le> UINT32_MAX)
     \<and> 0 < p_num_to_rename pr
     \<and> (\<not> p_partial_rename pr \<longrightarrow> p_rename_queue_depth pr \<le> p_num_to_rename pr)"

text \<open>What the other units may do to the instructions the rename unit holds: anything that keeps
  their ids, their rename data, and, before renaming, the operands and the status.\<close>

definition env_ok :: "Rename \<Rightarrow> heap \<Rightarrow> heap \<Rightarrow> bool" where
  "env_ok s h h' \<longleftrightarrow> (\<forall>p\<in>set (rn_inst_queue s).
       i_rename_data (h' p) = i_rename_data (h p) \<and> i_unique_id (h' p) = i_unique_id (h p))
     \<and> (\<forall>p\<in>set (rn_uop_queue s). fresh_inst (h' p) \<and> i_dest_ops (h' p) = i_dest_ops (h p))"

inductive rename_step :: "RenameParameterSet \<Rightarrow> Rename \<times> heap \<Rightarrow> Rename \<times> heap \<Rightarrow> bool" for pr where
  credits: "rename_step pr (s, h) (creditsDispatchQueue n s, h)"
| decoded: "\<lbrakk>distinct (rn_inst_queue s @ rn_uop_queue s @ insts); \<forall>p\<in>set insts. fresh_inst (h p);
     decodedInstructions pr h insts s = Inr s'\<rbrakk> \<Longrightarrow> rename_step pr (s, h) (s', h)"
| schedule: "rename_step pr (s, h) (scheduleRenaming pr s, h)"
| rename: "\<lbrakk>rn_out (scheduleRenaming pr s) = rn_out s @ [EvRenameInsts];
     renameInstructions pr (scheduleRenaming pr s, h) = Inr sh'\<rbrakk> \<Longrightarrow> rename_step pr (s, h) sh'"
| ack: "\<lbrakk>rn_inst_queue s = grp @ rest; \<forall>p\<in>set grp. i_status (h p) = RETIRED;
     getAckFromROB h grp s = Inr s'\<rbrakk> \<Longrightarrow> rename_step pr (s, h) (s', h)"
| flush: "handleFlush c (s, h) = Inr sh' \<Longrightarrow> rename_step pr (s, h) sh'"
| env: "env_ok s h h' \<Longrightarrow> rename_step pr (s, h) (s, h')"

inductive rename_reachable :: "RenameParameterSet \<Rightarrow> Rename \<times> heap \<Rightarrow> bool" for pr where
  start: "rename_reachable pr (setupRename pr (mk_Rename pr), h)"
| step: "\<lbrakk>rename_reachable pr sh; rename_step pr sh sh'\<rbrakk> \<Longrightarrow> rename_reachable pr sh'"

definition rn_ok :: "RenameParameterSet \<Rightarrow> Rename \<times> heap \<Rightarrow> bool" where
  "rn_ok pr sh \<longleftrightarrow> rn_inv (snd sh) (fst sh) \<and> uops_fresh (snd sh) (fst sh) \<and> regcount_ok pr (snd sh) (fst sh)
     \<and> rn_credits_dispatch (fst sh) \<le> UINT32_MAX \<and> length (rn_uop_queue (fst sh)) \<le> p_rename_queue_depth pr"

lemma rn_ok_cong:
  assumes "rn_ok pr (s, h)" and "rn_uop_queue s' = rn_uop_queue s" "rn_inst_queue s' = rn_inst_queue s"
    and "rn_map_table s' = rn_map_table s" "rn_comps s' = rn_comps s" "rn_regcount s' = rn_regcount s"
    and "rn_credits_dispatch s' \<le> UINT32_MAX"
  shows "rn_ok pr (s', h)"
  using assms by (simp add: rn_ok_def rn_inv_def rf_st_def uops_fresh_def regcount_ok_def)

lemma scheduleRenaming_view [simp]:
  "rn_uop_queue (scheduleRenaming pr s) = rn_uop_queue s"
  "rn_inst_queue (scheduleRenaming pr s) = rn_inst_queue s"
  "rn_map_table (scheduleRenaming pr s) = rn_map_table s" "rn_comps (scheduleRenaming pr s) = rn_comps s"
  "rn_regcount (scheduleRenaming pr s) = rn_regcount s"
  "rn_credits_dispatch (scheduleRenaming pr s) = rn_credits_dispatch s"
  by (simp_all add: scheduleRenaming_def Let_def split: prod.splits)

text \<open>The rename event is scheduled exactly when there is work, credit and registers for it.\<close>

lemma scheduleRenaming_event:
  "rn_out (scheduleRenaming pr s) = rn_out s @ [EvRenameInsts] \<longleftrightarrow>
     rn_uop_queue s \<noteq> [] \<and> fst (enoughRenames s) \<and>
     (if p_partial_rename pr then 0 < rn_credits_dispatch s
      else length (rn_uop_queue s) \<le> rn_credits_dispatch s)"
proof -
  have "enoughRenames (setStall r s) = enoughRenames s" for r
    by (simp add: enoughRenames_def regfiles_def)
  then show ?thesis by (auto simp: scheduleRenaming_def Let_def split: prod.splits)
qed

lemma enoughRenames_schedule: "enoughRenames (scheduleRenaming pr s) = enoughRenames s"
  by (simp add: enoughRenames_def regfiles_def)

lemma rename_ok_result:
  assumes ok: "rn_ok pr (s, h)" and pr: "params_ok pr"
    and ev: "rn_out (scheduleRenaming pr s) = rn_out s @ [EvRenameInsts]"
  shows "\<exists>s' h' new. renameInstructions pr (scheduleRenaming pr s, h) = Inr (s', h')
    \<and> renamed_to pr (s, h) new (s'\<lparr>rn_credits_dispatch := rn_credits_dispatch s\<rparr>, h')
    \<and> rn_credits_dispatch s' + length new = rn_credits_dispatch s
    \<and> length new \<le> p_num_to_rename pr \<and> new \<noteq> []
    \<and> OutDispatchQueueWrite new \<in> set (rn_out s') \<and> OutUopQueueCredits (length new) \<in> set (rn_out s')"
proof -
  let ?s = "scheduleRenaming pr s"
  have ok': "rn_ok pr (?s, h)" using rn_ok_cong[OF ok, of ?s] ok by (simp add: rn_ok_def)
  from ev have e: "rn_uop_queue s \<noteq> []" "fst (enoughRenames s)"
    "if p_partial_rename pr then 0 < rn_credits_dispatch s
     else length (rn_uop_queue s) \<le> rn_credits_dispatch s"
    unfolding scheduleRenaming_event by blast+
  have sup: "supply_ok pr (?s, h)"
    using ok' e(1,2) by (auto simp: rn_ok_def supply_ok_def regcount_ok_def regcount_loop_eq enoughRenames_iff)
  have n: "0 < min (rn_credits_dispatch ?s) (min (length (rn_uop_queue ?s)) (p_num_to_rename pr))"
    using e(1,3) pr by (cases "rn_uop_queue s") (auto simp: params_ok_def split: if_splits)
  have "renamed_to pr (?s, h) new sh' = renamed_to pr (s, h) new sh'" for new sh'
    by (simp add: renamed_to_def same_sizes_def)
  moreover have "\<not> p_partial_rename pr \<Longrightarrow>
      length (rn_uop_queue ?s) \<le> p_num_to_rename pr \<and> length (rn_uop_queue ?s) \<le> rn_credits_dispatch ?s"
    using pr ok e(3) by (auto simp: params_ok_def rn_ok_def)
  ultimately show ?thesis
    using renameInstructions_ok[of h ?s pr] ok' sup n e(2) enoughRenames_schedule[of pr s]
    unfolding rn_ok_def fst_conv snd_conv scheduleRenaming_view by metis
qed

lemma rn_ok_renamed:
  assumes "rn_ok pr (s, h)" and "renamed_to pr (s, h) new (s'\<lparr>rn_credits_dispatch := rn_credits_dispatch s\<rparr>, h')"
    and "rn_credits_dispatch s' \<le> rn_credits_dispatch s" and "\<not> p_partial_rename pr \<Longrightarrow> rn_uop_queue s' = []"
  shows "rn_ok pr (s', h')"
  using assms unfolding rn_ok_def renamed_to_def
  by (cases "p_partial_rename pr") (auto simp: regcount_ok_def uops_fresh_def)

lemma renameInstructions_full:
  "renameInstructions pr (s, h) = Inr (s', h') \<Longrightarrow> \<not> p_partial_rename pr \<Longrightarrow> rn_uop_queue s' = []"
  by (auto simp: renameInstructions_def Let_def bindE_eq_Inr split: prod.splits if_splits)

lemma push_uop_Inr:
  "push_uop pr s p = Inr s1 \<longleftrightarrow>
     length (rn_uop_queue s) < p_rename_queue_depth pr \<and> s1 = s\<lparr>rn_uop_queue := rn_uop_queue s @ [p]\<rparr>"
  by (auto simp: push_uop_def)

lemma push_uops:
  "foldE (push_uop pr) s insts = Inr s' \<Longrightarrow>
     s' = s\<lparr>rn_uop_queue := rn_uop_queue s @ insts\<rparr> \<and> (insts \<noteq> [] \<longrightarrow> length (rn_uop_queue s @ insts) \<le> p_rename_queue_depth pr)"
proof (induction insts arbitrary: s)
  case (Cons p insts)
  then have "length (rn_uop_queue s) < p_rename_queue_depth pr"
    and "foldE (push_uop pr) (s\<lparr>rn_uop_queue := rn_uop_queue s @ [p]\<rparr>) insts = Inr s'"
    by (auto simp: bindE_eq_Inr push_uop_Inr)
  with Cons.IH[of "s\<lparr>rn_uop_queue := rn_uop_queue s @ [p]\<rparr>"] show ?case by auto
qed simp

lemma handleFlush_ok:
  assumes "rn_inv h s"
  shows "\<exists>s' h'. handleFlush c (s, h) = Inr (s', h') \<and> rn_inv h' s'
    \<and> rn_inst_queue s' = drop_back (includedInFlush h c) (rn_inst_queue s)
    \<and> (\<forall>rf\<in>set regfiles. rn_map_table s' rf
         = undo_map (rn_map_table s rf) (inflight h (rev (taken_back (includedInFlush h c) (rn_inst_queue s))) rf))
    \<and> rn_uop_queue s' = [] \<and> rn_credits_dispatch s' = rn_credits_dispatch s
    \<and> (rn_uop_queue s \<noteq> [] \<longrightarrow> OutUopQueueCredits (length (rn_uop_queue s)) \<in> set (rn_out s'))
    \<and> (\<forall>q. q \<notin> set (taken_back (includedInFlush h c) (rn_inst_queue s)) \<longrightarrow> h' q = h q) \<and> same_sizes s s'"
proof -
  from flush_loop_ok[OF assms, of "rev (rn_inst_queue s)" c] obtain s1 h1 where
    f: "flush_loop c (rev (rn_inst_queue s)) (s, h) = Inr (s1, h1)" "rn_inv h1 s1"
      "rn_inst_queue s1 = drop_back (includedInFlush h c) (rn_inst_queue s)"
      "\<forall>rf\<in>set regfiles. rn_map_table s1 rf
         = undo_map (rn_map_table s rf) (inflight h (rev (taken_back (includedInFlush h c) (rn_inst_queue s))) rf)"
      "rn_uop_queue s1 = rn_uop_queue s" "rn_credits_dispatch s1 = rn_credits_dispatch s"
      "\<forall>q. q \<notin> set (taken_back (includedInFlush h c) (rn_inst_queue s)) \<longrightarrow> h1 q = h q" "same_sizes s s1"
    unfolding drop_back_def taken_back_def rev_rev_ident by blast
  have "rn_inv h1 ((rn_emit (OutUopQueueCredits n) (setStall RN_NO_DECODE_INSTS s1))\<lparr>rn_uop_queue := []\<rparr>)" for n
    using f(2) by (simp add: rn_inv_def rf_st_def)
  with f show ?thesis by (auto simp: handleFlush_def same_sizes_def Let_def)
qed

lemma rename_step_ok:
  assumes "rename_step pr sh sh'" and "rn_ok pr sh" and "params_ok pr"
  shows "rn_ok pr sh'"
  using assms
proof (induction rule: rename_step.induct)
  case (credits s h n)
  show ?case
    by (rule rn_ok_cong[OF credits(1)]) (simp_all add: creditsDispatchQueue_def Let_def)
next
  case (decoded s insts h s')
  from decoded(3) obtain s1 where s1: "foldE (push_uop pr) s insts = Inr s1"
    "s' = rn_emit (EvScheduleRename 0) (updateRegcountData pr h s1)"
    by (auto simp: decodedInstructions_def bindE_eq_Inr)
  note q = push_uops[OF s1(1)]
  have v: "rn_uop_queue s' = rn_uop_queue s @ insts" "rn_inst_queue s' = rn_inst_queue s"
    "rn_map_table s' = rn_map_table s" "rn_comps s' = rn_comps s" "rn_credits_dispatch s' = rn_credits_dispatch s"
    using q s1(2) by (simp_all add: updateRegcountData_def)
  have "rn_inv h s'" using decoded(1,4) by (simp add: rn_ok_def rn_inv_def rf_st_def v)
  moreover have "regcount_ok pr h s'"
    using s1(2) regcount_ok_update[of pr h s1] by (simp add: regcount_ok_def)
  moreover have "uops_fresh h s'" using decoded(2,4) v(1) by (auto simp: rn_ok_def uops_fresh_def)
  moreover have "length (rn_uop_queue s') \<le> p_rename_queue_depth pr"
    using q decoded(4) v(1) by (cases insts) (simp_all add: rn_ok_def)
  ultimately show ?case using decoded(4) v(5) by (simp add: rn_ok_def)
next
  case (schedule s h)
  then show ?case using rn_ok_cong[OF schedule(1), of "scheduleRenaming pr s"] by (simp add: rn_ok_def)
next
  case (rename s h sh')
  from rename_ok_result[OF rename(3,4,1)] rename(2) obtain s' h' new where
    "sh' = (s', h')" "renamed_to pr (s, h) new (s'\<lparr>rn_credits_dispatch := rn_credits_dispatch s\<rparr>, h')"
    "rn_credits_dispatch s' + length new = rn_credits_dispatch s" by auto
  with rn_ok_renamed[OF rename(3)] renameInstructions_full rename(2) show ?case by fastforce
next
  case (ack s grp rest h s')
  from ack_group_ok[of h s grp rest] ack obtain s1 where
    "foldE (ack_inst h) s grp = Inr s1" "rn_inv h s1" "rn_uop_queue s1 = rn_uop_queue s"
    "rn_credits_dispatch s1 = rn_credits_dispatch s" "rn_regcount s1 = rn_regcount s"
    by (auto simp: rn_ok_def)
  with ack show ?case by (auto simp: getAckFromROB_def rn_ok_def uops_fresh_def regcount_ok_def split: if_splits)
next
  case (flush c s h sh')
  with handleFlush_ok[of h s c] show ?case by (auto simp: rn_ok_def uops_fresh_def regcount_ok_def)
next
  case (env s h h')
  have "inflight h' (rn_inst_queue s) rf = inflight h (rn_inst_queue s) rf" for rf
    using env(1) by (intro inflight_cong) (simp add: env_ok_def)
  moreover have "need h' rf p = need h rf p" if "p \<in> set (rn_uop_queue s)" for rf p
    using env(1) that by (simp add: env_ok_def need_def)
  then have "regcount_loop b h' (rn_uop_queue s) (\<lambda>_. 0) rf = regcount_loop b h (rn_uop_queue s) (\<lambda>_. 0) rf" for b rf
    unfolding regcount_loop_eq by (auto split: list.splits intro!: arg_cong[of _ _ sum_list])
  ultimately show ?case using env
    by (auto simp: rn_ok_def rn_inv_def uops_fresh_def regcount_ok_def wf_dests_def env_ok_def)
qed

lemma mk_Rename_ok: "params_ok pr \<Longrightarrow> rn_ok pr (setupRename pr (mk_Rename pr), h)"
  using mk_Rename_rf_inv[of _ pr]
  by (auto simp: rn_ok_def rn_inv_def rf_st_def setupRename_def params_ok_def Let_def uops_fresh_def
      regcount_ok_def mk_Rename_def)

lemma rename_reachable_ok: "rename_reachable pr sh \<Longrightarrow> params_ok pr \<Longrightarrow> rn_ok pr sh"
  by (induction rule: rename_reachable.induct) (auto intro: mk_Rename_ok rename_step_ok)

section \<open>Properties of the rename unit\<close>

text \<open>The handlers run on a concrete unit with the default parameters and one queued instruction
  \<open>add x5, x6, x7\<close>, for the witnesses.\<close>

definition ex_params :: RenameParameterSet where
  "ex_params = \<lparr>p_num_to_rename = 4, p_rename_queue_depth = 10, p_num_integer_renames = 128,
     p_num_float_renames = 128, p_num_vector_renames = 128, p_partial_rename = True,
     p_move_elimination = False\<rparr>"

definition ex_heap :: heap where
  "ex_heap p = sample_Inst TP_INT p [int_op 5 OF_RD] [int_op 6 OF_RS1, int_op 7 OF_RS2]"

definition ex_rn0 :: Rename where
  "ex_rn0 = creditsDispatchQueue 4 (setupRename ex_params (mk_Rename ex_params))"

definition ex_rn1 :: Rename where
  "ex_rn1 = rn_emit (EvScheduleRename 0)
     (updateRegcountData ex_params ex_heap (ex_rn0\<lparr>rn_uop_queue := [1]\<rparr>))"

lemma ex_params_ok [simp]: "params_ok ex_params"
  by (simp add: params_ok_def ex_params_def num_renames_of_def regfiles_def)

lemma ex_fresh: "fresh_inst (ex_heap p)"
  by (simp add: fresh_inst_def ex_heap_def init_RenameData_def int_op_def wf_op_def NUM_RISCV_REGS_def
      regfiles_def real_dests_def less_Status_def)

lemma ex_rn0_fields:
  "rn_uop_queue ex_rn0 = []" "rn_inst_queue ex_rn0 = []" "rn_credits_dispatch ex_rn0 = 4"
  "freelist (rn_comps ex_rn0 rf) = [32..<num_renames_of ex_params rf]"
  by (simp_all add: ex_rn0_def creditsDispatchQueue_def setupRename_def mk_Rename_def Let_def add32_def
      setup_freelists_def setup_map_eq)

lemma ex_reachable: "rename_reachable ex_params (ex_rn1, ex_heap)"
proof -
  have "rename_reachable ex_params (ex_rn0, ex_heap)"
    unfolding ex_rn0_def by (rule rename_reachable.step[OF rename_reachable.start rename_step.credits])
  moreover have "decodedInstructions ex_params ex_heap [1] ex_rn0 = Inr ex_rn1"
    by (simp add: decodedInstructions_def push_uop_def ex_rn0_fields ex_rn1_def ex_params_def)
  then have "rename_step ex_params (ex_rn0, ex_heap) (ex_rn1, ex_heap)"
    by (rule rename_step.decoded[rotated 2]) (simp_all add: ex_rn0_fields ex_fresh)
  ultimately show ?thesis by (rule rename_reachable.step)
qed

lemma ex_scheduled: "rn_out (scheduleRenaming ex_params ex_rn1) = rn_out ex_rn1 @ [EvRenameInsts]"
  unfolding scheduleRenaming_event
  by (simp add: ex_rn1_def enoughRenames_iff regfiles_def updateRegcountData_def
      count_dest_def ex_heap_def int_op_def ex_rn0_fields num_renames_of_def ex_params_def)

text \<open>C1. Register accounting. In every reachable state of the rename unit, in every register file,
  the reference counter of a physical register is the number of architectural registers mapped to it
  plus the number of in-flight instructions that still hold it as their previous mapping; the free
  list has no duplicates and holds exactly the registers whose counter is zero (but never the
  physical register 0 of the integer file, which stands for x0).\<close>

theorem rename_register_accounting:
  assumes "rename_reachable pr (s, h)" and "params_ok pr" and "rf \<in> set regfiles"
    and "p < length (reference_counter (rn_comps s rf))"
  shows "cnt (reference_counter (rn_comps s rf) ! p)
       = count_list (rn_map_table s rf) (Some p)
         + count_list (map prev_dest (inflight h (rn_inst_queue s) rf)) p
    \<and> distinct (freelist (rn_comps s rf))
    \<and> (p \<in> set (freelist (rn_comps s rf))
         \<longleftrightarrow> cnt (reference_counter (rn_comps s rf) ! p) = 0 \<and> \<not> (rf = RF_INTEGER \<and> p = 0))"
proof -
  have inv: "rf_inv rf (rn_map_table s rf) (rn_comps s rf) (mset (map prev_dest (inflight h (rn_inst_queue s) rf)))"
    using rename_reachable_ok[OF assms(1,2)] assms(3) by (auto simp: rn_ok_def rn_inv_def rf_st_def)
  then have f: "free_ok rf (refs_of (rn_comps s rf)) (freelist (rn_comps s rf))" by (simp add: rf_inv_def)
  have c: "cnt (reference_counter (rn_comps s rf) ! p) = refs_of (rn_comps s rf) ! p"
    using assms(4) by (simp add: nth_refs_of length_refs_of)
  have "refs_of (rn_comps s rf) ! p
      = count_list (rn_map_table s rf) (Some p) + count (mset (map prev_dest (inflight h (rn_inst_queue s) rf))) p"
    using inv assms(4) unfolding rf_inv_def counts_ok_def by (metis length_refs_of)
  then show ?thesis
    using c f free_okD[OF f, of p] assms(4) by (simp add: free_ok_def length_refs_of count_mset del: mset_map)
qed

theorem rename_register_accounting_witness:
  "rename_reachable ex_params (ex_rn1, ex_heap) \<and> params_ok ex_params
   \<and> cnt (reference_counter (rn_comps ex_rn1 RF_FLOAT) ! 0)
       = count_list (rn_map_table ex_rn1 RF_FLOAT) (Some 0)
         + count_list (map prev_dest (inflight ex_heap (rn_inst_queue ex_rn1) RF_FLOAT)) 0"
proof -
  have "0 < length (reference_counter (rn_comps ex_rn1 RF_FLOAT))"
    by (simp add: ex_rn1_def updateRegcountData_def ex_rn0_def creditsDispatchQueue_def setupRename_def
        mk_Rename_def Let_def setup_freelists_def setup_map_eq)
  from rename_register_accounting[OF ex_reachable ex_params_ok _ this] ex_reachable show ?thesis
    by (simp add: regfiles_def)
qed

text \<open>C2. No assertion of the rename unit can fire, for parameters with \<open>params_ok\<close>: a positive
  \<open>num_to_rename\<close>, at most 2 to the 32 minus 1 registers per file, and either partial renaming or a
  rename queue no deeper than \<open>num_to_rename\<close>. The last condition excludes a configuration in which the
  code does assert: without partial renaming, and with more than \<open>num_to_rename\<close> instructions queued, the
  queue is not empty after a rename event, which \<open>Rename.cpp:501\<close> requires. In every reachable state a flush succeeds, the
  acknowledge of any retired prefix of the in-flight instructions succeeds, and the rename event that
  \<open>scheduleRenaming_\<close> schedules succeeds and renames at least one instruction (at most
  \<open>num_to_rename\<close>), sending the renamed group to dispatch and its credits to decode.\<close>

theorem rename_handlers_never_assert:
  assumes "rename_reachable pr (s, h)" and "params_ok pr"
  shows "is_ok (handleFlush c (s, h))
    \<and> (\<forall>grp rest. rn_inst_queue s = grp @ rest \<and> (\<forall>p\<in>set grp. i_status (h p) = RETIRED)
         \<longrightarrow> is_ok (getAckFromROB h grp s))
    \<and> (rn_out (scheduleRenaming pr s) = rn_out s @ [EvRenameInsts] \<longrightarrow>
         (\<exists>s' h' new. renameInstructions pr (scheduleRenaming pr s, h) = Inr (s', h')
            \<and> new \<noteq> [] \<and> length new \<le> p_num_to_rename pr
            \<and> rn_inst_queue s' = rn_inst_queue s @ new \<and> rn_uop_queue s = new @ rn_uop_queue s'
            \<and> OutDispatchQueueWrite new \<in> set (rn_out s')
            \<and> OutUopQueueCredits (length new) \<in> set (rn_out s')))"
proof -
  have ok: "rn_ok pr (s, h)" using rename_reachable_ok[OF assms] .
  then have inv: "rn_inv h s" by (simp add: rn_ok_def)
  have "is_ok (handleFlush c (s, h))" using handleFlush_ok[OF inv, of c] by (auto simp: is_ok_iff)
  moreover have "is_ok (getAckFromROB h grp s)"
    if "rn_inst_queue s = grp @ rest" "\<forall>p\<in>set grp. i_status (h p) = RETIRED" for grp rest
    using ack_group_ok[OF inv that] by (auto simp: getAckFromROB_def)
  moreover have "\<exists>s' h' new. renameInstructions pr (scheduleRenaming pr s, h) = Inr (s', h')
            \<and> new \<noteq> [] \<and> length new \<le> p_num_to_rename pr
            \<and> rn_inst_queue s' = rn_inst_queue s @ new \<and> rn_uop_queue s = new @ rn_uop_queue s'
            \<and> OutDispatchQueueWrite new \<in> set (rn_out s')
            \<and> OutUopQueueCredits (length new) \<in> set (rn_out s')"
    if "rn_out (scheduleRenaming pr s) = rn_out s @ [EvRenameInsts]"
    using rename_ok_result[OF ok assms(2) that] by (auto simp: renamed_to_def)
  ultimately show ?thesis by blast
qed

theorem rename_handlers_never_assert_witness:
  "rename_reachable ex_params (ex_rn1, ex_heap) \<and> params_ok ex_params
   \<and> is_ok (handleFlush \<lparr>fc_cause = TRAP, fc_is_inclusive = True, fc_inst = 1\<rparr> (ex_rn1, ex_heap))
   \<and> (\<exists>s' h'. renameInstructions ex_params (scheduleRenaming ex_params ex_rn1, ex_heap) = Inr (s', h'))"
  using rename_handlers_never_assert[OF ex_reachable ex_params_ok,
      of "\<lparr>fc_cause = TRAP, fc_is_inclusive = True, fc_inst = 1\<rparr>"] ex_reachable ex_scheduled
  by auto

text \<open>The free set of a register file is determined by the map, the outstanding references and the
  size of the file.\<close>

lemma rf_inv_free_set:
  assumes "rf_inv rf mt rc M" and "rf_inv rf mt rc' M"
    and "length (reference_counter rc) = length (reference_counter rc')"
  shows "set (freelist rc) = set (freelist rc')"
proof -
  have len: "length (refs_of rc) = length (refs_of rc')" using assms(3) by (simp add: length_refs_of)
  have eq: "refs_of rc ! p = refs_of rc' ! p" if "p < length (refs_of rc)" for p
    using assms(1,2) that len unfolding rf_inv_def counts_ok_def by metis
  have f: "free_ok rf (refs_of rc) (freelist rc)" "free_ok rf (refs_of rc') (freelist rc')"
    using assms(1,2) by (simp_all add: rf_inv_def)
  show ?thesis
  proof (rule set_eqI)
    show "p \<in> set (freelist rc) \<longleftrightarrow> p \<in> set (freelist rc')" for p
      using free_okD[OF f(1), of p] free_okD[OF f(2), of p] eq[of p] len by metis
  qed
qed

text \<open>C5. A flush undoes renaming. From any reachable state, let the unit rename a group and then
  receive a flush that covers the group and none of the older in-flight instructions: both handlers
  succeed, and the rename map of every register file, the queue of in-flight instructions and the set
  of free registers are those from before the renaming.\<close>

theorem rename_then_flush_restores:
  assumes "rename_reachable pr (s, h)" and "params_ok pr"
    and "rn_out (scheduleRenaming pr s) = rn_out s @ [EvRenameInsts]"
    and "\<forall>p\<in>set (rn_inst_queue s). \<not> includedInFlush h c p"
    and "\<forall>p\<in>set (rn_uop_queue s). includedInFlush h c p"
  shows "\<exists>s1 h1 s2 h2 new. renameInstructions pr (scheduleRenaming pr s, h) = Inr (s1, h1)
    \<and> new \<noteq> [] \<and> rn_inst_queue s1 = rn_inst_queue s @ new
    \<and> handleFlush c (s1, h1) = Inr (s2, h2)
    \<and> rn_inst_queue s2 = rn_inst_queue s \<and> rn_uop_queue s2 = []
    \<and> (\<forall>rf\<in>set regfiles. rn_map_table s2 rf = rn_map_table s rf
         \<and> set (freelist (rn_comps s2 rf)) = set (freelist (rn_comps s rf)))"
proof -
  have ok: "rn_ok pr (s, h)" using rename_reachable_ok[OF assms(1,2)] .
  from rename_ok_result[OF ok assms(2,3)] obtain s1 h1 new where
    r: "renameInstructions pr (scheduleRenaming pr s, h) = Inr (s1, h1)" "new \<noteq> []"
      "renamed_to pr (s, h) new (s1\<lparr>rn_credits_dispatch := rn_credits_dispatch s\<rparr>, h1)" by blast
  have inv: "rn_inv h1 s1" "rn_inst_queue s1 = rn_inst_queue s @ new" "same_uids h h1" "same_sizes s s1"
    "\<forall>q. q \<notin> set new \<longrightarrow> h1 q = h q" "set new \<subseteq> set (rn_uop_queue s)"
    "\<forall>rf\<in>set regfiles. undo_map (rn_map_table s1 rf) (inflight h1 new rf) = rn_map_table s rf"
    using r(3) by (auto simp: renamed_to_def same_sizes_def)
  have inc: "includedInFlush h1 c = includedInFlush h c" using same_uids_included[OF inv(3)] .
  have d: "drop_back (includedInFlush h1 c) (rn_inst_queue s1) = rn_inst_queue s"
    "taken_back (includedInFlush h1 c) (rn_inst_queue s1) = rev new"
    using drop_taken_append[of new "includedInFlush h c" "rn_inst_queue s"] assms(4,5) inv(2,6) inc by auto
  from handleFlush_ok[OF inv(1), of c] obtain s2 h2 where f: "handleFlush c (s1, h1) = Inr (s2, h2)"
    "rn_inv h2 s2" "rn_inst_queue s2 = rn_inst_queue s" "rn_uop_queue s2 = []"
    "\<forall>rf\<in>set regfiles. rn_map_table s2 rf = rn_map_table s rf"
    "\<forall>q. q \<notin> set new \<longrightarrow> h2 q = h1 q" "same_sizes s1 s2"
    unfolding d using inv(7) by auto
  have "set new \<inter> set (rn_inst_queue s) = {}" using inv(1,2) by (auto simp: rn_inv_def)
  then have "inflight h2 (rn_inst_queue s) rf = inflight h (rn_inst_queue s) rf" for rf
    using f(6) inv(5) by (intro inflight_cong) (metis disjoint_iff)
  then have "set (freelist (rn_comps s2 rf)) = set (freelist (rn_comps s rf))" if "rf \<in> set regfiles" for rf
    using that f(2,3,5,7) inv(4) ok
    by (intro rf_inv_free_set[of rf "rn_map_table s rf" _ "mset (map prev_dest (inflight h (rn_inst_queue s) rf))"])
       (auto simp: rn_inv_def rn_ok_def rf_st_def same_sizes_def)
  with r(1,2) f inv(2) show ?thesis by blast
qed

theorem rename_then_flush_restores_witness:
  "rename_reachable ex_params (ex_rn1, ex_heap) \<and> rn_uop_queue ex_rn1 = [1] \<and>
   (\<exists>s1 h1 s2 h2. renameInstructions ex_params (scheduleRenaming ex_params ex_rn1, ex_heap) = Inr (s1, h1)
    \<and> handleFlush \<lparr>fc_cause = TRAP, fc_is_inclusive = True, fc_inst = 1\<rparr> (s1, h1) = Inr (s2, h2)
    \<and> rn_map_table s2 RF_INTEGER = rn_map_table ex_rn1 RF_INTEGER)"
proof -
  have q: "rn_uop_queue ex_rn1 = [1]" "rn_inst_queue ex_rn1 = []"
    by (simp_all add: ex_rn1_def ex_rn0_fields updateRegcountData_def)
  from rename_then_flush_restores[OF ex_reachable ex_params_ok ex_scheduled,
      of "\<lparr>fc_cause = TRAP, fc_is_inclusive = True, fc_inst = 1\<rparr>"]
  show ?thesis using ex_reachable q by (auto simp: includedInFlush_def regfiles_def)
qed

text \<open>No register leaks. In a reachable state without in-flight instructions the free registers of
  a file are exactly the registers that no architectural register maps to (the physical register 0 of
  the integer file apart).\<close>

theorem rename_no_register_leak:
  assumes "rename_reachable pr (s, h)" and "params_ok pr" and "rf \<in> set regfiles"
    and "rn_inst_queue s = []"
  shows "set (freelist (rn_comps s rf))
       = {p. p < length (reference_counter (rn_comps s rf)) \<and> Some p \<notin> set (rn_map_table s rf)
            \<and> \<not> (rf = RF_INTEGER \<and> p = 0)}"
proof -
  have inv: "rf_inv rf (rn_map_table s rf) (rn_comps s rf) {#}"
    using rename_reachable_ok[OF assms(1,2)] assms(3,4) by (auto simp: rn_ok_def rn_inv_def rf_st_def)
  then have f: "free_ok rf (refs_of (rn_comps s rf)) (freelist (rn_comps s rf))" by (simp add: rf_inv_def)
  have eq: "refs_of (rn_comps s rf) ! p = count_list (rn_map_table s rf) (Some p)"
    if "p < length (refs_of (rn_comps s rf))" for p
    using inv that unfolding rf_inv_def counts_ok_def by (metis add.right_neutral count_empty)
  show ?thesis
  proof (rule set_eqI)
    fix p
    show "p \<in> set (freelist (rn_comps s rf)) \<longleftrightarrow> p \<in> {p. p < length (reference_counter (rn_comps s rf))
        \<and> Some p \<notin> set (rn_map_table s rf) \<and> \<not> (rf = RF_INTEGER \<and> p = 0)}"
      using free_okD[OF f, of p] eq[of p] count_list_0_iff[of "rn_map_table s rf" "Some p"]
      by (auto simp: length_refs_of)
  qed
qed

text \<open>A flush removes exactly the covered instructions. Where the in-flight instructions are in
  program order (their ids do not decrease), what is left of the queue after a flush are the
  instructions the criteria do not include, in their old order.\<close>

theorem rename_flush_exact:
  assumes "rename_reachable pr (s, h)" and "params_ok pr"
    and "sorted (map (\<lambda>p. i_unique_id (h p)) (rn_inst_queue s))"
  shows "\<exists>s' h'. handleFlush c (s, h) = Inr (s', h')
    \<and> rn_inst_queue s' = filter (\<lambda>p. \<not> includedInFlush h c p) (rn_inst_queue s)"
proof -
  have inv: "rn_inv h s" using rename_reachable_ok[OF assms(1,2)] by (simp add: rn_ok_def)
  have "sorted_wrt (\<lambda>p q. includedInFlush h c p \<longrightarrow> includedInFlush h c q) (rn_inst_queue s)"
    using assms(3) unfolding sorted_map
    by (rule sorted_wrt_mono_rel[rotated]) (blast intro: includedInFlush_mono)
  with handleFlush_ok[OF inv, of c] show ?thesis by (auto simp: drop_back_filter)
qed

end
