(* ===== verification/ReorderBuffer.thy ===== *)
theory ReorderBuffer
  imports FlushMgr
begin

text \<open>
  The reorder buffer (\<open>core/ROB.hpp\<close>, \<open>core/ROB.cpp\<close>): appending dispatched groups, in-order
  retirement with its early exits (instruction limit, misprediction, CSR), the flush the buffer
  expects back, the credits it returns to dispatch, and the forward-progress watchdog. What a handler
  sends on a port and the events it schedules are appended to the log \<open>rob_out\<close>.
\<close>

section \<open>State\<close>

record ROBParameterSet =
  rp_num_to_retire :: nat
  rp_retire_queue_depth :: nat
  rp_num_insts_to_retire :: nat
  rp_retire_heartbeat :: nat
  rp_retire_timeout_interval :: nat

datatype rob_event =
    OutROBCredits nat
  | OutRetireFlush FlushingCriteria
  | OutRetireAck ptr
  | OutRetireAckRename "ptr list"
  | EvRetire
  | EvForwardProgress nat
  | StopRunning
  | Heartbeat nat

record ROB =
  rob_buffer :: "ptr list"
  rob_stopped_simulation :: bool
  rob_expected_program_id :: nat
  rob_expect_flush :: bool
  rob_last_inst_retired :: "ptr option"
  rob_last_retirement :: nat
  rob_num_retired :: nat
  rob_num_uops_retired :: nat
  rob_num_flushes :: nat
  rob_out :: "rob_event list"

definition mk_ROB :: ROB where
  "mk_ROB = \<lparr>rob_buffer = [], rob_stopped_simulation = False, rob_expected_program_id = 1,
     rob_expect_flush = False, rob_last_inst_retired = None, rob_last_retirement = 0,
     rob_num_retired = 0, rob_num_uops_retired = 0, rob_num_flushes = 0, rob_out = []\<rparr>"

definition rob_emit :: "rob_event \<Rightarrow> ROB \<Rightarrow> ROB" where
  "rob_emit e s = s\<lparr>rob_out := rob_out s @ [e]\<rparr>"

section \<open>Startup and append\<close>

definition sendInitialCredits :: "ROBParameterSet \<Rightarrow> ROB \<Rightarrow> ROB" where
  "sendInitialCredits pr s =
     rob_emit (EvForwardProgress (rp_retire_timeout_interval pr))
       (rob_emit (OutROBCredits (rp_retire_queue_depth pr)) s)"

definition rob_push :: "ROBParameterSet \<Rightarrow> ROB \<Rightarrow> ptr \<Rightarrow> ROB result" where
  "rob_push pr s p =
     bindE (assertE (length (rob_buffer s) < rp_retire_queue_depth pr) ''ReorderBuffer full'') (\<lambda>_.
       Inr (s\<lparr>rob_buffer := rob_buffer s @ [p]\<rparr>))"

definition robAppended :: "ROBParameterSet \<Rightarrow> ptr list \<Rightarrow> ROB \<Rightarrow> ROB result" where
  "robAppended pr grp s =
     bindE (foldE (rob_push pr) s grp) (\<lambda>s1. Inr (rob_emit EvRetire s1))"

section \<open>Flush\<close>

text \<open>The loop that pops the back of the buffer; the list holds what is left, youngest first.\<close>

fun rob_flush_loop ::
    "FlushingCriteria \<Rightarrow> ptr list \<Rightarrow> nat \<Rightarrow> heap \<Rightarrow> (ptr list \<times> nat \<times> heap) result" where
  "rob_flush_loop c [] credits h = Inr ([], credits, h)"
| "rob_flush_loop c (p # ps) credits h =
     (if includedInFlush h c p
      then bindE (setStatus FLUSHED (h p)) (\<lambda>(i, _).
             rob_flush_loop c ps (credits + 1) (h(p := i)))
      else Inr (p # ps, credits, h))"

definition rob_handleFlush :: "FlushingCriteria \<Rightarrow> ROB \<times> heap \<Rightarrow> (ROB \<times> heap) result" where
  "rob_handleFlush c sh =
     (case sh of (s, h) \<Rightarrow>
        bindE (assertE (rob_expect_flush s) ''Received a flush, but did not expect one'') (\<lambda>_.
        let s1 = s\<lparr>rob_expect_flush := False\<rparr> in
        bindE (rob_flush_loop c (rev (rob_buffer s1)) 0 h) (\<lambda>(left, credits_to_send, h1).
          Inr (rob_emit (OutROBCredits credits_to_send) (s1\<lparr>rob_buffer := rev left\<rparr>), h1))))"

section \<open>Retirement\<close>

definition retireSysInst :: "ptr \<Rightarrow> heap \<Rightarrow> ROB \<Rightarrow> ROB result" where
  "retireSysInst p h s =
     (if i_is_csr (h p)
      then bindE (mk_FlushingCriteria POST_SYNC p) (\<lambda>c.
             Inr ((rob_emit (OutRetireFlush c) s)
                    \<lparr>rob_expect_flush := True, rob_num_flushes := rob_num_flushes s + 1\<rparr>))
      else Inr s)"

text \<open>What retiring an instruction with micro-op id 0 adds: the counters and the program-order
  check.\<close>

definition count_retired :: "Inst \<Rightarrow> ROB \<Rightarrow> nat \<Rightarrow> (ROB \<times> nat) result" where
  "count_retired i s retired_this_cycle =
     (if getUOpID i = 0
      then bindE (assertE (i_program_id i = rob_expected_program_id s)
                    ''Unexpected program ID when retiring instruction'') (\<lambda>_.
             Inr (s\<lparr>rob_num_retired := rob_num_retired s + 1,
                    rob_expected_program_id := rob_expected_program_id s + i_program_id_increment i\<rparr>,
                  retired_this_cycle + 1))
      else Inr (s, retired_this_cycle))"

text \<open>The tail of the loop body: heartbeat, instruction limit, misprediction, system instruction.
  The flag says whether the loop is left.\<close>

definition after_retire :: "ROBParameterSet \<Rightarrow> ptr \<Rightarrow> heap \<Rightarrow> ROB \<Rightarrow> (ROB \<times> bool) result" where
  "after_retire pr p h s =
     (if rp_retire_heartbeat pr = 0 then Inl (UndefinedBehaviour ''division by zero'')
      else
        let s1 = (if rob_num_retired s mod rp_retire_heartbeat pr = 0
                  then rob_emit (Heartbeat (rob_num_retired s)) s else s)
        in if rob_num_retired s1 = rp_num_insts_to_retire pr
           then Inr (rob_emit StopRunning (s1\<lparr>rob_stopped_simulation := True\<rparr>), True)
           else if i_is_mispredicted (h p)
           then bindE (mk_FlushingCriteria MISPREDICTION p) (\<lambda>c.
                  Inr ((rob_emit (OutRetireFlush c) s1)\<lparr>rob_expect_flush := True\<rparr>, True))
           else if getPipe (h p) = TP_SYS
           then bindE (retireSysInst p h s1) (\<lambda>s2. Inr (s2, rob_expect_flush s2))
           else Inr (s1, False))"

definition retire_one ::
    "ROBParameterSet \<Rightarrow> ptr \<Rightarrow> ptr list \<Rightarrow> ROB \<times> heap \<Rightarrow> nat \<Rightarrow> ((ROB \<times> heap) \<times> nat \<times> bool) result" where
  "retire_one pr p rest sh retired_this_cycle =
     (case sh of (s, h) \<Rightarrow>
        bindE (setStatus RETIRED (h p)) (\<lambda>(i, _).
        let h1 = h(p := i);
            s1 = (if i_is_store i then rob_emit (OutRetireAck p) s else s);
            s2 = s1\<lparr>rob_num_uops_retired := rob_num_uops_retired s1 + 1\<rparr>
        in bindE (count_retired i s2 retired_this_cycle) (\<lambda>(s3, n).
           let s4 = s3\<lparr>rob_buffer := rest, rob_last_inst_retired := Some p\<rparr>
           in bindE (after_retire pr p h1 s4) (\<lambda>(s5, stop). Inr ((s5, h1), n, stop)))))"

text \<open>The loop over at most \<open>num_to_retire\<close> entries; the accumulators are the retired group and the
  number of credits.\<close>

fun retire_loop ::
    "ROBParameterSet \<Rightarrow> nat \<Rightarrow> ROB \<times> heap \<Rightarrow> ptr list \<Rightarrow> nat
       \<Rightarrow> ((ROB \<times> heap) \<times> ptr list \<times> nat) result" where
  "retire_loop pr 0 sh insts n = Inr (sh, insts, n)"
| "retire_loop pr (Suc k) sh insts n =
     (case rob_buffer (fst sh) of
        [] \<Rightarrow> Inl (SpartaAssert ''access beyond the end of the queue'')
      | p # rest \<Rightarrow>
          bindE (assertE (\<not> i_is_speculative (snd sh p)) ''A speculative instruction is being retired'') (\<lambda>_.
          if i_status (snd sh p) = COMPLETED
          then bindE (retire_one pr p rest sh n) (\<lambda>(sh1, n1, stop).
                 if stop then Inr (sh1, insts @ [p], n1)
                 else retire_loop pr k sh1 (insts @ [p]) n1)
          else Inr (sh, insts, n)))"

definition send_ack_rename :: "ptr list \<Rightarrow> ROB \<Rightarrow> ROB" where
  "send_ack_rename insts s = (if insts \<noteq> [] then rob_emit (OutRetireAckRename insts) s else s)"

definition mark_oldest :: "ROB \<times> heap \<Rightarrow> ROB \<times> heap" where
  "mark_oldest sh =
     (case sh of (s, h) \<Rightarrow>
        (case rob_buffer s of
           [] \<Rightarrow> (s, h)
         | p # _ \<Rightarrow>
             (if i_status (h p) = COMPLETED then (rob_emit EvRetire s, h)
              else if \<not> i_is_oldest (h p) then (s, h(p := setOldest True (h p)))
              else (s, h))))"

definition return_credits :: "nat \<Rightarrow> nat \<Rightarrow> ROB \<Rightarrow> ROB" where
  "return_credits cycle n s =
     (if n \<noteq> 0 then (rob_emit (OutROBCredits n) s)\<lparr>rob_last_retirement := cycle\<rparr> else s)"

definition retireInstructions ::
    "ROBParameterSet \<Rightarrow> nat \<Rightarrow> ROB \<times> heap \<Rightarrow> (ROB \<times> heap) result" where
  "retireInstructions pr cycle sh =
     (if rob_expect_flush (fst sh) then Inr sh
      else
        bindE (retire_loop pr (min (length (rob_buffer (fst sh))) (rp_num_to_retire pr)) sh [] 0)
          (\<lambda>((s1, h1), insts, n).
            let (s3, h3) = mark_oldest (send_ack_rename insts s1, h1)
            in Inr (return_credits cycle n s3, h3)))"

section \<open>Watchdog and teardown\<close>

definition checkForwardProgress :: "ROBParameterSet \<Rightarrow> nat \<Rightarrow> ROB \<Rightarrow> ROB result" where
  "checkForwardProgress pr cycle s =
     (if cycle - rob_last_retirement s \<ge> rp_retire_timeout_interval pr
      then Inl (SpartaException ''Been a while since we have retired an instruction'')
      else Inr (rob_emit (EvForwardProgress (rp_retire_timeout_interval pr)) s))"

definition teardown_warns :: "ROB \<Rightarrow> bool" where
  "teardown_warns s = (length (rob_buffer s) > 0 \<and> \<not> rob_stopped_simulation s)"

section \<open>What the log of the buffer says\<close>

definition rob_credits_sent :: "rob_event list \<Rightarrow> nat" where
  "rob_credits_sent es = (\<Sum>e\<leftarrow>es. case e of OutROBCredits n \<Rightarrow> n | _ \<Rightarrow> 0)"

definition rob_acked :: "rob_event list \<Rightarrow> ptr list" where
  "rob_acked es = concat (map (\<lambda>e. case e of OutRetireAckRename g \<Rightarrow> g | _ \<Rightarrow> []) es)"

definition rob_flushes :: "rob_event list \<Rightarrow> FlushingCriteria list" where
  "rob_flushes es = concat (map (\<lambda>e. case e of OutRetireFlush c \<Rightarrow> [c] | _ \<Rightarrow> []) es)"

lemma rob_log_append [simp]:
  "rob_credits_sent (es @ fs) = rob_credits_sent es + rob_credits_sent fs"
  "rob_acked (es @ fs) = rob_acked es @ rob_acked fs"
  "rob_flushes (es @ fs) = rob_flushes es @ rob_flushes fs"
  by (simp_all add: rob_credits_sent_def rob_acked_def rob_flushes_def)

lemma rob_log_simps [simp]:
  "rob_credits_sent [] = 0" "rob_acked [] = []" "rob_flushes [] = []"
  "rob_credits_sent (e # es) = (case e of OutROBCredits n \<Rightarrow> n | _ \<Rightarrow> 0) + rob_credits_sent es"
  "rob_acked (e # es) = (case e of OutRetireAckRename g \<Rightarrow> g | _ \<Rightarrow> []) @ rob_acked es"
  "rob_flushes (e # es) = (case e of OutRetireFlush c \<Rightarrow> [c] | _ \<Rightarrow> []) @ rob_flushes es"
  by (simp_all add: rob_credits_sent_def rob_acked_def rob_flushes_def)

lemma rob_emit_simps [simp]:
  "rob_buffer (rob_emit e s) = rob_buffer s"
  "rob_stopped_simulation (rob_emit e s) = rob_stopped_simulation s"
  "rob_expected_program_id (rob_emit e s) = rob_expected_program_id s"
  "rob_expect_flush (rob_emit e s) = rob_expect_flush s"
  "rob_last_retirement (rob_emit e s) = rob_last_retirement s"
  "rob_num_retired (rob_emit e s) = rob_num_retired s"
  "rob_num_uops_retired (rob_emit e s) = rob_num_uops_retired s"
  "rob_num_flushes (rob_emit e s) = rob_num_flushes s"
  "rob_out (rob_emit e s) = rob_out s @ [e]"
  by (simp_all add: rob_emit_def)

section \<open>Specification of retirement\<close>

definition raises_flush :: "heap \<Rightarrow> ptr \<Rightarrow> bool" where
  "raises_flush h p = (i_is_mispredicted (h p) \<or> (getPipe (h p) = TP_SYS \<and> i_is_csr (h p)))"

definition retire_flush :: "heap \<Rightarrow> ptr \<Rightarrow> FlushingCriteria" where
  "retire_flush h p = \<lparr>fc_cause = (if i_is_mispredicted (h p) then MISPREDICTION else POST_SYNC),
     fc_is_inclusive = False, fc_inst = p\<rparr>"

definition is_inst :: "heap \<Rightarrow> ptr \<Rightarrow> nat" where
  "is_inst h p = (if getUOpID (h p) = 0 then 1 else 0)"

definition insts_in :: "heap \<Rightarrow> ptr list \<Rightarrow> nat" where
  "insts_in h ps = (\<Sum>p\<leftarrow>ps. is_inst h p)"

definition pid_step :: "heap \<Rightarrow> ptr \<Rightarrow> nat" where
  "pid_step h p = (if getUOpID (h p) = 0 then i_program_id_increment (h p) else 0)"

definition pid_span :: "heap \<Rightarrow> ptr list \<Rightarrow> nat" where
  "pid_span h ps = (\<Sum>p\<leftarrow>ps. pid_step h p)"

text \<open>The instructions of a list are in program order from the id \<open>e\<close> on.\<close>

fun pid_chain :: "heap \<Rightarrow> nat \<Rightarrow> ptr list \<Rightarrow> bool" where
  "pid_chain h e [] = True"
| "pid_chain h e (p # ps) =
     ((getUOpID (h p) = 0 \<longrightarrow> i_program_id (h p) = e) \<and> pid_chain h (e + pid_step h p) ps)"

text \<open>The group a retirement takes from the front of the buffer, for the number of instructions
  \<open>cnt\<close> retired so far.\<close>

fun retire_group :: "ROBParameterSet \<Rightarrow> heap \<Rightarrow> nat \<Rightarrow> nat \<Rightarrow> ptr list \<Rightarrow> ptr list" where
  "retire_group pr h cnt 0 ps = []"
| "retire_group pr h cnt (Suc k) [] = []"
| "retire_group pr h cnt (Suc k) (p # ps) =
     (if i_status (h p) \<noteq> COMPLETED then []
      else if cnt + is_inst h p = rp_num_insts_to_retire pr \<or> raises_flush h p then [p]
      else p # retire_group pr h (cnt + is_inst h p) k ps)"

definition set_retired :: "heap \<Rightarrow> ptr list \<Rightarrow> heap" where
  "set_retired h g = (\<lambda>q. if q \<in> set g then (h q)\<lparr>i_status := RETIRED\<rparr> else h q)"

text \<open>The invariant under which retirement never asserts.\<close>

definition rob_ok :: "heap \<Rightarrow> ROB \<Rightarrow> bool" where
  "rob_ok h s \<longleftrightarrow> distinct (rob_buffer s) \<and> (\<forall>p\<in>set (rob_buffer s). \<not> i_is_speculative (h p))
     \<and> pid_chain h (rob_expected_program_id s) (rob_buffer s)"

lemma mk_flush_simps [simp]:
  "mk_FlushingCriteria MISPREDICTION p
     = Inr \<lparr>fc_cause = MISPREDICTION, fc_is_inclusive = False, fc_inst = p\<rparr>"
  "mk_FlushingCriteria POST_SYNC p
     = Inr \<lparr>fc_cause = POST_SYNC, fc_is_inclusive = False, fc_inst = p\<rparr>"
  by (simp_all add: mk_FlushingCriteria_def)

lemma setStatus_RETIRED:
  "i_status i = COMPLETED \<Longrightarrow> setStatus RETIRED i = Inr (i\<lparr>i_status := RETIRED\<rparr>, False)"
  by (simp add: setStatus_def less_Status_def)

lemma status_update_simps [simp]:
  "getUOpID (i\<lparr>i_status := st\<rparr>) = getUOpID i"
  "getPipe (i\<lparr>i_status := st\<rparr>) = getPipe i"
  by (simp_all add: getUOpID_def getPipe_def)

definition retired_state :: "ROBParameterSet \<Rightarrow> heap \<Rightarrow> ROB \<Rightarrow> ptr list \<Rightarrow> ROB \<Rightarrow> bool" where
  "retired_state pr h s g s' \<longleftrightarrow>
     rob_buffer s = g @ rob_buffer s'
   \<and> rob_expected_program_id s' = rob_expected_program_id s + pid_span h g
   \<and> rob_num_retired s' = rob_num_retired s + insts_in h g
   \<and> rob_num_uops_retired s' = rob_num_uops_retired s + length g
   \<and> rob_credits_sent (rob_out s') = rob_credits_sent (rob_out s)
   \<and> rob_acked (rob_out s') = rob_acked (rob_out s)
   \<and> rob_expect_flush s' = (g \<noteq> [] \<and> rob_num_retired s' \<noteq> rp_num_insts_to_retire pr \<and> raises_flush h (last g))
   \<and> rob_flushes (rob_out s') = rob_flushes (rob_out s) @
       (if rob_expect_flush s' then [retire_flush h (last g)] else [])"

lemma after_retire_ok:
  assumes "rp_retire_heartbeat pr > 0" and "\<not> rob_expect_flush s"
  shows "\<exists>s' stop. after_retire pr p h s = Inr (s', stop)
    \<and> rob_buffer s' = rob_buffer s \<and> rob_expected_program_id s' = rob_expected_program_id s
    \<and> rob_num_retired s' = rob_num_retired s \<and> rob_num_uops_retired s' = rob_num_uops_retired s
    \<and> rob_credits_sent (rob_out s') = rob_credits_sent (rob_out s)
    \<and> rob_acked (rob_out s') = rob_acked (rob_out s)
    \<and> stop = (rob_num_retired s = rp_num_insts_to_retire pr \<or> raises_flush h p)
    \<and> rob_expect_flush s' = (rob_num_retired s \<noteq> rp_num_insts_to_retire pr \<and> raises_flush h p)
    \<and> rob_flushes (rob_out s') = rob_flushes (rob_out s) @
       (if rob_expect_flush s' then [retire_flush h p] else [])"
  using assms by (auto simp: after_retire_def Let_def retireSysInst_def raises_flush_def retire_flush_def)

lemma retire_one_ok:
  assumes "rp_retire_heartbeat pr > 0" and "\<not> rob_expect_flush s" and "rob_buffer s = p # rest"
    and "i_status (h p) = COMPLETED"
    and "getUOpID (h p) = 0 \<longrightarrow> i_program_id (h p) = rob_expected_program_id s"
  shows "\<exists>s' stop. retire_one pr p rest (s, h) n = Inr ((s', set_retired h [p]), n + is_inst h p, stop)
    \<and> retired_state pr h s [p] s'
    \<and> stop = (rob_num_retired s + is_inst h p = rp_num_insts_to_retire pr \<or> raises_flush h p)"
proof -
  define i where "i = (h p)\<lparr>i_status := RETIRED\<rparr>"
  define s2 where "s2 = (if i_is_store i then rob_emit (OutRetireAck p) s else s)
     \<lparr>rob_num_uops_retired := rob_num_uops_retired (if i_is_store i then rob_emit (OutRetireAck p) s else s) + 1\<rparr>"
  define s3 where "s3 = s2\<lparr>rob_num_retired := rob_num_retired s2 + is_inst h p,
      rob_expected_program_id := rob_expected_program_id s2 + pid_step h p\<rparr>"
  define s4 where "s4 = s3\<lparr>rob_buffer := rest, rob_last_inst_retired := Some p\<rparr>"
  have st: "setStatus RETIRED (h p) = Inr (i, False)" using assms(4) by (simp add: i_def setStatus_RETIRED)
  have s2: "rob_expected_program_id s2 = rob_expected_program_id s" "\<not> rob_expect_flush s2"
    "rob_num_retired s2 = rob_num_retired s" "rob_num_uops_retired s2 = rob_num_uops_retired s + 1"
    "rob_credits_sent (rob_out s2) = rob_credits_sent (rob_out s)"
    "rob_acked (rob_out s2) = rob_acked (rob_out s)" "rob_flushes (rob_out s2) = rob_flushes (rob_out s)"
    using assms(2) by (simp_all add: s2_def)
  have c: "count_retired i s2 n = Inr (s3, n + is_inst h p)"
    using assms(5) s2(1) by (simp add: count_retired_def i_def is_inst_def pid_step_def s3_def)
  have r: "retire_one pr p rest (s, h) n = bindE (after_retire pr p (h(p := i)) s4)
      (\<lambda>(s5, stop). Inr ((s5, h(p := i)), n + is_inst h p, stop))"
    using c[unfolded s2_def] by (cases "i_is_store i") (simp_all add: retire_one_def st Let_def s4_def)
  have h: "h(p := i) = set_retired h [p]" by (auto simp: set_retired_def i_def)
  have rf: "raises_flush (h(p := i)) p = raises_flush h p" "retire_flush (h(p := i)) p = retire_flush h p"
    by (simp_all add: raises_flush_def retire_flush_def i_def)
  have "\<not> rob_expect_flush s4" using s2(2) by (simp add: s4_def s3_def)
  from after_retire_ok[OF assms(1) this, of p "h(p := i)"] obtain s5 stop where a:
    "after_retire pr p (h(p := i)) s4 = Inr (s5, stop)"
    "rob_buffer s5 = rob_buffer s4" "rob_expected_program_id s5 = rob_expected_program_id s4"
    "rob_num_retired s5 = rob_num_retired s4" "rob_num_uops_retired s5 = rob_num_uops_retired s4"
    "rob_credits_sent (rob_out s5) = rob_credits_sent (rob_out s4)"
    "rob_acked (rob_out s5) = rob_acked (rob_out s4)"
    "stop = (rob_num_retired s4 = rp_num_insts_to_retire pr \<or> raises_flush h p)"
    "rob_expect_flush s5 = (rob_num_retired s4 \<noteq> rp_num_insts_to_retire pr \<and> raises_flush h p)"
    "rob_flushes (rob_out s5) = rob_flushes (rob_out s4) @
       (if rob_expect_flush s5 then [retire_flush h p] else [])"
    unfolding rf by blast
  have s4: "rob_num_retired s4 = rob_num_retired s + is_inst h p" "rob_buffer s4 = rest"
    "rob_expected_program_id s4 = rob_expected_program_id s + pid_step h p"
    "rob_num_uops_retired s4 = rob_num_uops_retired s + 1" "rob_out s4 = rob_out s2"
    using s2 by (simp_all add: s4_def s3_def)
  have "retired_state pr h s [p] s5"
    using a s4 s2 assms(3) by (simp add: retired_state_def pid_span_def insts_in_def)
  with r a(1,8) s4(1) h show ?thesis by simp
qed

lemma set_retired_fields [simp]:
  "is_inst (set_retired h g) = is_inst h" "pid_step (set_retired h g) = pid_step h"
  "raises_flush (set_retired h g) = raises_flush h" "retire_flush (set_retired h g) = retire_flush h"
  "i_unique_id (set_retired h g p) = i_unique_id (h p)"
  "i_is_speculative (set_retired h g p) = i_is_speculative (h p)"
  "getUOpID (set_retired h g p) = getUOpID (h p)"
  "i_program_id (set_retired h g p) = i_program_id (h p)"
  by (auto simp: is_inst_def pid_step_def raises_flush_def retire_flush_def set_retired_def fun_eq_iff)

lemma set_retired_sums [simp]:
  "insts_in (set_retired h g) = insts_in h" "pid_span (set_retired h g) = pid_span h"
  by (simp_all add: insts_in_def pid_span_def fun_eq_iff)

lemma pid_chain_set_retired [simp]: "pid_chain (set_retired h g) e ps = pid_chain h e ps"
  by (induction ps arbitrary: e) simp_all

lemma retire_group_cong:
  "\<forall>p\<in>set ps. i_status (h' p) = i_status (h p) \<Longrightarrow> is_inst h' = is_inst h \<Longrightarrow> raises_flush h' = raises_flush h
     \<Longrightarrow> retire_group pr h' cnt k ps = retire_group pr h cnt k ps"
  by (induction pr h cnt k ps rule: retire_group.induct) auto

lemma set_retired_append: "set_retired (set_retired h g) g' = set_retired h (g @ g')"
  by (auto simp: set_retired_def)

lemma retired_state_Cons:
  assumes "retired_state pr h s [p] s1" and "retired_state pr h s1 g s2" and "\<not> rob_expect_flush s1"
    and "\<not> raises_flush h p"
  shows "retired_state pr h s (p # g) s2"
  using assms by (auto simp: retired_state_def pid_span_def insts_in_def)

lemma retired_state_Nil: "\<not> rob_expect_flush s \<Longrightarrow> retired_state pr h s [] s"
  by (simp add: retired_state_def pid_span_def insts_in_def)

lemma retired_state_set_retired [simp]:
  "retired_state pr (set_retired h g0) s g s' = retired_state pr h s g s'"
  by (simp add: retired_state_def)

lemma retire_loop_ok:
  assumes "rp_retire_heartbeat pr > 0" and "\<not> rob_expect_flush s" and "rob_ok h s"
    and "k \<le> length (rob_buffer s)"
  shows "\<exists>s'. let g = retire_group pr h (rob_num_retired s) k (rob_buffer s) in
    retire_loop pr k (s, h) insts n = Inr ((s', set_retired h g), insts @ g, n + insts_in h g)
    \<and> retired_state pr h s g s'"
  using assms(2-4)
proof (induction k arbitrary: s h insts n)
  case 0
  then show ?case by (simp add: Let_def retired_state_Nil set_retired_def insts_in_def)
next
  case (Suc k)
  then obtain p rest where b: "rob_buffer s = p # rest" by (cases "rob_buffer s") auto
  have p: "\<not> i_is_speculative (h p)" "getUOpID (h p) = 0 \<longrightarrow> i_program_id (h p) = rob_expected_program_id s"
    "pid_chain h (rob_expected_program_id s + pid_step h p) rest" "p \<notin> set rest" "distinct rest"
    "\<forall>q\<in>set rest. \<not> i_is_speculative (h q)"
    using Suc.prems(2) b by (auto simp: rob_ok_def)
  show ?case
  proof (cases "i_status (h p) = COMPLETED")
    case False
    with b p(1) Suc.prems(1) show ?thesis
      by (auto simp: Let_def retired_state_Nil set_retired_def insts_in_def intro!: exI[of _ s])
  next
    case True
    from retire_one_ok[where h = h and n = n, OF assms(1) Suc.prems(1) b True p(2)] obtain s1 stop where r:
      "retire_one pr p rest (s, h) n = Inr ((s1, set_retired h [p]), n + is_inst h p, stop)"
      "retired_state pr h s [p] s1"
      "stop = (rob_num_retired s + is_inst h p = rp_num_insts_to_retire pr \<or> raises_flush h p)" by blast
    show ?thesis
    proof (cases stop)
      case True
      with r b p(1) \<open>i_status (h p) = COMPLETED\<close> show ?thesis
        by (auto simp: Let_def insts_in_def)
    next
      case False
      have s1: "rob_buffer s1 = rest" "rob_num_retired s1 = rob_num_retired s + is_inst h p"
        "rob_expected_program_id s1 = rob_expected_program_id s + pid_step h p" "\<not> rob_expect_flush s1"
        using r(2,3) b False by (auto simp: retired_state_def insts_in_def pid_span_def)
      have ok: "rob_ok (set_retired h [p]) s1" using s1 p by (simp add: rob_ok_def)
      have k: "k \<le> length (rob_buffer s1)" using Suc.prems(3) b s1(1) by simp
      have q: "\<forall>q\<in>set rest. i_status (set_retired h [p] q) = i_status (h q)"
        using p(4) by (auto simp: set_retired_def)
      let ?g = "retire_group pr h (rob_num_retired s1) k rest"
      have g: "retire_group pr (set_retired h [p]) (rob_num_retired s1) k (rob_buffer s1) = ?g"
        unfolding s1(1) by (rule retire_group_cong[OF q]) simp_all
      from Suc.IH[OF s1(4) ok k, of "insts @ [p]" "n + is_inst h p"] obtain s2 where
        "retire_loop pr k (s1, set_retired h [p]) (insts @ [p]) (n + is_inst h p)
          = Inr ((s2, set_retired h (p # ?g)), insts @ p # ?g, n + is_inst h p + insts_in h ?g)"
        "retired_state pr h s1 ?g s2" by (auto simp: g Let_def set_retired_append)
      moreover have "retire_group pr h (rob_num_retired s) (Suc k) (rob_buffer s) = p # ?g"
        using True False r(3) s1(2) b by simp
      moreover have "retired_state pr h s (p # ?g) s2"
        using retired_state_Cons[OF r(2) _ s1(4)] calculation(2) False r(3) by blast
      ultimately show ?thesis using r(1) b p(1) True False
        by (auto simp: Let_def insts_in_def add.assoc intro!: exI[of _ s2])
    qed
  qed
qed

lemma retire_one_pid:
  "retire_one pr p rest (s, h) n = Inr r \<Longrightarrow> i_status (h p) = COMPLETED
     \<Longrightarrow> getUOpID (h p) = 0 \<longrightarrow> i_program_id (h p) = rob_expected_program_id s"
  by (auto simp: retire_one_def setStatus_RETIRED count_retired_def Let_def bindE_eq_Inr split: if_splits)

lemma retire_loop_partial:
  assumes "rp_retire_heartbeat pr > 0" and "\<not> rob_expect_flush s"
    and "retire_loop pr k (s, h) insts n = Inr ((s', h'), insts', n')"
  shows "\<exists>g. insts' = insts @ g \<and> n' = n + insts_in h g \<and> h' = set_retired h g
    \<and> retired_state pr h s g s' \<and> pid_chain h (rob_expected_program_id s) g"
  using assms(2,3)
proof (induction k arbitrary: s h insts n)
  case 0
  then show ?case
    by (intro exI[of _ "[]"]) (simp add: retired_state_Nil set_retired_def insts_in_def)
next
  case (Suc k)
  then obtain p rest where b: "rob_buffer s = p # rest" by (cases "rob_buffer s") auto
  show ?case
  proof (cases "i_status (h p) = COMPLETED")
    case False
    with Suc.prems b show ?thesis
      by (intro exI[of _ "[]"]) (simp add: retired_state_Nil set_retired_def insts_in_def)
  next
    case True
    with Suc.prems b obtain r0 where "retire_one pr p rest (s, h) n = Inr r0"
      by (auto simp: bindE_eq_Inr)
    from retire_one_pid[OF this True]
    have pid: "getUOpID (h p) = 0 \<longrightarrow> i_program_id (h p) = rob_expected_program_id s" .
    from retire_one_ok[where h = h and n = n, OF assms(1) Suc.prems(1) b True pid] obtain s1 stop where r:
      "retire_one pr p rest (s, h) n = Inr ((s1, set_retired h [p]), n + is_inst h p, stop)"
      "retired_state pr h s [p] s1"
      "stop = (rob_num_retired s + is_inst h p = rp_num_insts_to_retire pr \<or> raises_flush h p)" by blast
    show ?thesis
    proof (cases stop)
      case True
      with r(1) Suc.prems b \<open>i_status (h p) = COMPLETED\<close>
      have "s' = s1" "h' = set_retired h [p]" "insts' = insts @ [p]" "n' = n + is_inst h p" by auto
      with r(2) pid show ?thesis by (intro exI[of _ "[p]"]) (simp add: insts_in_def)
    next
      case False
      have s1: "rob_expected_program_id s1 = rob_expected_program_id s + pid_step h p" "\<not> rob_expect_flush s1"
        using r(2,3) False by (auto simp: retired_state_def pid_span_def insts_in_def)
      have "retire_loop pr k (s1, set_retired h [p]) (insts @ [p]) (n + is_inst h p) = Inr ((s', h'), insts', n')"
        using Suc.prems(2) b True False r(1) by simp
      from Suc.IH[OF s1(2) this] obtain g where g: "insts' = (insts @ [p]) @ g"
        "n' = n + is_inst h p + insts_in h g" "h' = set_retired h ([p] @ g)" "retired_state pr h s1 g s'"
        "pid_chain h (rob_expected_program_id s1) g" by (auto simp: set_retired_append)
      moreover have "retired_state pr h s (p # g) s'"
        using retired_state_Cons[OF r(2) g(4) s1(2)] False r(3) by blast
      ultimately show ?thesis using pid s1(1)
        by (intro exI[of _ "p # g"]) (simp add: insts_in_def)
    qed
  qed
qed

lemma retire_group_spec:
  "g = retire_group pr h cnt k ps \<Longrightarrow>
    (\<exists>rest. ps = g @ rest) \<and> length g \<le> k \<and> (\<forall>p\<in>set g. i_status (h p) = COMPLETED)
    \<and> (\<forall>p\<in>set (butlast g). \<not> raises_flush h p)
    \<and> (length g = min k (length ps)
       \<or> g \<noteq> [] \<and> (raises_flush h (last g) \<or> cnt + insts_in h g = rp_num_insts_to_retire pr)
       \<or> (\<exists>p rest. ps = g @ p # rest \<and> i_status (h p) \<noteq> COMPLETED))"
proof (induction pr h cnt k ps arbitrary: g rule: retire_group.induct)
  case (3 pr h cnt k p ps)
  show ?case
  proof (cases "i_status (h p) = COMPLETED \<and> \<not> (cnt + is_inst h p = rp_num_insts_to_retire pr \<or> raises_flush h p)")
    case True
    then obtain g' where g': "g = p # g'" "g' = retire_group pr h (cnt + is_inst h p) k ps" using 3(2) by auto
    from 3(1)[OF _ _ g'(2)] True have ih: "(\<exists>rest. ps = g' @ rest) \<and> length g' \<le> k \<and> (\<forall>p\<in>set g'. i_status (h p) = COMPLETED)
    \<and> (\<forall>p\<in>set (butlast g'). \<not> raises_flush h p)
    \<and> (length g' = min k (length ps)
       \<or> g' \<noteq> [] \<and> (raises_flush h (last g') \<or> cnt + is_inst h p + insts_in h g' = rp_num_insts_to_retire pr)
       \<or> (\<exists>p rest. ps = g' @ p # rest \<and> i_status (h p) \<noteq> COMPLETED))" by blast
    then show ?thesis using True g'(1) by (auto simp: insts_in_def add.assoc)
  next
    case False
    with 3(2) show ?thesis by (auto simp: insts_in_def)
  qed
qed simp_all

end
