(* ===== verification/Credits.thy ===== *)
theory Credits
  imports Prelude
begin

text \<open>
  The credit protocol between the units of the pipeline, as an interface. A receiver with a queue of
  capacity \<open>cap\<close> sends credits; a sender writes at most as many elements as it got credits for. The
  law a receiver promises is conservation: in every reachable state the credits sent and the occupancy
  of its queue are covered by the capacity and the elements received. Under that law a sender that
  stays within its credits can never overflow the queue.
\<close>

text \<open>The queue itself: an append that asserts when the queue is full. Appending a group succeeds
  exactly when the group fits.\<close>

locale bounded_queue =
  fixes cap :: "'p \<Rightarrow> nat"
    and items :: "'s \<Rightarrow> 'a list"
    and set_items :: "'a list \<Rightarrow> 's \<Rightarrow> 's"
    and push :: "'p \<Rightarrow> 's \<Rightarrow> 'a \<Rightarrow> 's result"
  assumes items_set: "items (set_items xs s) = xs"
    and set_set: "set_items xs (set_items ys s) = set_items xs s"
    and set_same: "set_items (items s) s = s"
    and push_room: "length (items s) < cap pr \<Longrightarrow> push pr s x = Inr (set_items (items s @ [x]) s)"
    and push_full: "\<not> length (items s) < cap pr \<Longrightarrow> \<not> is_ok (push pr s x)"
begin

lemma push_all:
  "foldE (push pr) s xs = Inr s' \<longleftrightarrow>
     s' = set_items (items s @ xs) s \<and> (xs = [] \<or> length (items s) + length xs \<le> cap pr)"
proof (induction xs arbitrary: s)
  case Nil
  then show ?case by (auto simp: set_same)
next
  case (Cons x xs)
  show ?case
  proof (cases "length (items s) < cap pr")
    case True
    with Cons.IH[of "set_items (items s @ [x]) s"] show ?thesis
      by (cases xs) (simp_all add: push_room items_set set_set)
  next
    case False
    with push_full[of s pr x] show ?thesis by (cases "push pr s x") simp_all
  qed
qed

end

locale credit_interface =
  fixes reach :: "'p \<Rightarrow> 's \<Rightarrow> bool"
    and cap :: "'p \<Rightarrow> nat"
    and sent :: "'s \<Rightarrow> nat"
    and occ :: "'s \<Rightarrow> nat"
    and recv :: "'s \<Rightarrow> nat"
  assumes conserve: "reach pr x \<Longrightarrow> sent x + occ x \<le> cap pr + recv x"
begin

lemma fits: "reach pr x \<Longrightarrow> recv x + n \<le> sent x \<Longrightarrow> occ x + n \<le> cap pr"
  using conserve[of pr x] by linarith

lemma outstanding_le: "reach pr x \<Longrightarrow> recv x \<le> sent x \<Longrightarrow> sent x - recv x \<le> cap pr - occ x"
  using conserve[of pr x] by linarith

end

text \<open>A receiver that loses no credit: the law is an equation, and an idle receiver (empty queue) has
  handed out its whole capacity.\<close>

locale exact_credit_interface =
  fixes reach :: "'p \<Rightarrow> 's \<Rightarrow> bool"
    and cap :: "'p \<Rightarrow> nat"
    and sent :: "'s \<Rightarrow> nat"
    and occ :: "'s \<Rightarrow> nat"
    and recv :: "'s \<Rightarrow> nat"
  assumes conserve_eq: "reach pr x \<Longrightarrow> sent x + occ x = cap pr + recv x"
begin

lemma idle_all_credits: "reach pr x \<Longrightarrow> occ x = 0 \<Longrightarrow> sent x = cap pr + recv x"
  using conserve_eq[of pr x] by simp

end

sublocale exact_credit_interface \<subseteq> credit_interface reach cap sent occ recv
  by unfold_locales (simp add: conserve_eq)

end
