(* ===== verification/RobProps.thy ===== *)
theory RobProps
  imports ReorderBuffer Credits
begin

text \<open>
  Properties of the reorder buffer: what a retirement does, that a flush it raises stops retirement
  and empties what is younger, the exactness of a flush, and, over every sequence of handlers
  (\<open>rob_reachable\<close>), the conservation of credits and the program order of what was retired.
\<close>

section \<open>One retirement\<close>

lemma mark_oldest_simps [simp]:
  "rob_buffer (fst (mark_oldest sh)) = rob_buffer (fst sh)"
  "rob_expected_program_id (fst (mark_oldest sh)) = rob_expected_program_id (fst sh)"
  "rob_num_retired (fst (mark_oldest sh)) = rob_num_retired (fst sh)"
  "rob_num_uops_retired (fst (mark_oldest sh)) = rob_num_uops_retired (fst sh)"
  "rob_expect_flush (fst (mark_oldest sh)) = rob_expect_flush (fst sh)"
  "rob_credits_sent (rob_out (fst (mark_oldest sh))) = rob_credits_sent (rob_out (fst sh))"
  "rob_acked (rob_out (fst (mark_oldest sh))) = rob_acked (rob_out (fst sh))"
  "rob_flushes (rob_out (fst (mark_oldest sh))) = rob_flushes (rob_out (fst sh))"
  "i_status (snd (mark_oldest sh) p) = i_status (snd sh p)"
  "i_unique_id (snd (mark_oldest sh) p) = i_unique_id (snd sh p)"
  "i_program_id (snd (mark_oldest sh) p) = i_program_id (snd sh p)"
  "i_program_id_increment (snd (mark_oldest sh) p) = i_program_id_increment (snd sh p)"
  "i_rename_data (snd (mark_oldest sh) p) = i_rename_data (snd sh p)"
  "i_uopid (snd (mark_oldest sh) p) = i_uopid (snd sh p)"
  by (simp_all add: mark_oldest_def setOldest_def split: prod.split list.split)

text \<open>The state and the heap a retirement ends in, for the group \<open>g\<close> it retires.\<close>

definition retire_result :: "ROBParameterSet \<Rightarrow> ROB \<times> heap \<Rightarrow> ptr list \<Rightarrow> ROB \<times> heap \<Rightarrow> bool" where
  "retire_result pr sh g sh' \<longleftrightarrow>
     rob_buffer (fst sh) = g @ rob_buffer (fst sh')
   \<and> rob_acked (rob_out (fst sh')) = rob_acked (rob_out (fst sh)) @ g
   \<and> rob_credits_sent (rob_out (fst sh')) = rob_credits_sent (rob_out (fst sh)) + insts_in (snd sh) g
   \<and> rob_expected_program_id (fst sh') = rob_expected_program_id (fst sh) + pid_span (snd sh) g
   \<and> rob_num_retired (fst sh') = rob_num_retired (fst sh) + insts_in (snd sh) g
   \<and> rob_num_uops_retired (fst sh') = rob_num_uops_retired (fst sh) + length g
   \<and> rob_expect_flush (fst sh') = (g \<noteq> [] \<and> rob_num_retired (fst sh') \<noteq> rp_num_insts_to_retire pr
                                   \<and> raises_flush (snd sh) (last g))
   \<and> rob_flushes (rob_out (fst sh')) = rob_flushes (rob_out (fst sh)) @
       (if rob_expect_flush (fst sh') then [retire_flush (snd sh) (last g)] else [])
   \<and> (\<forall>p. i_status (snd sh' p) = (if p \<in> set g then RETIRED else i_status (snd sh p)))
   \<and> (\<forall>p. i_unique_id (snd sh' p) = i_unique_id (snd sh p) \<and> i_program_id (snd sh' p) = i_program_id (snd sh p)
        \<and> i_program_id_increment (snd sh' p) = i_program_id_increment (snd sh p)
        \<and> i_uopid (snd sh' p) = i_uopid (snd sh p) \<and> i_rename_data (snd sh' p) = i_rename_data (snd sh p))"

lemma retire_tail_result:
  assumes "retired_state pr h s g s1" and "\<not> rob_expect_flush s"
    and "m = mark_oldest (send_ack_rename g s1, set_retired h g)"
  shows "retire_result pr (s, h) g (return_credits cyc (insts_in h g) (fst m), snd m)"
  using assms unfolding retire_result_def retired_state_def
  by (auto simp: return_credits_def send_ack_rename_def set_retired_def)

lemma retireInstructions_ok:
  assumes "rp_retire_heartbeat pr > 0" and "\<not> rob_expect_flush s" and "rob_ok h s"
  shows "\<exists>s' h'. let g = retire_group pr h (rob_num_retired s) (min (length (rob_buffer s)) (rp_num_to_retire pr))
        (rob_buffer s) in retireInstructions pr cyc (s, h) = Inr (s', h') \<and> retire_result pr (s, h) g (s', h')"
proof -
  let ?k = "min (length (rob_buffer s)) (rp_num_to_retire pr)"
  let ?g = "retire_group pr h (rob_num_retired s) ?k (rob_buffer s)"
  from retire_loop_ok[OF assms, of ?k "[]" 0] obtain s1 where r:
    "retire_loop pr ?k (s, h) [] 0 = Inr ((s1, set_retired h ?g), ?g, insts_in h ?g)"
    "retired_state pr h s ?g s1" by (auto simp: Let_def)
  define m where "m = mark_oldest (send_ack_rename ?g s1, set_retired h ?g)"
  have "retireInstructions pr cyc (s, h) = Inr (return_credits cyc (insts_in h ?g) (fst m), snd m)"
    using assms(2) r(1) by (simp add: retireInstructions_def m_def split: prod.split)
  with retire_tail_result[OF r(2) assms(2) m_def] show ?thesis by (auto simp: Let_def)
qed

lemma retireInstructions_partial:
  assumes "rp_retire_heartbeat pr > 0" and "\<not> rob_expect_flush s"
    and "retireInstructions pr cyc (s, h) = Inr (s', h')"
  shows "\<exists>g. retire_result pr (s, h) g (s', h') \<and> pid_chain h (rob_expected_program_id s) g"
proof -
  from assms(2,3) obtain s1 h1 insts n where l:
    "retire_loop pr (min (length (rob_buffer s)) (rp_num_to_retire pr)) (s, h) [] 0 = Inr ((s1, h1), insts, n)"
    and e: "s' = return_credits cyc n (fst (mark_oldest (send_ack_rename insts s1, h1)))"
      "h' = snd (mark_oldest (send_ack_rename insts s1, h1))"
    by (auto simp: retireInstructions_def bindE_eq_Inr case_prod_beta Let_def)
  from retire_loop_partial[OF assms(1,2) l] obtain g where g: "insts = g" "n = insts_in h g"
    "h1 = set_retired h g" "retired_state pr h s g s1" "pid_chain h (rob_expected_program_id s) g" by auto
  from retire_tail_result[OF g(4) assms(2) refl] e g show ?thesis by auto
qed

section \<open>Flush\<close>

lemma rob_flush_loop_ok:
  assumes "distinct ps" and "\<forall>p\<in>set ps. i_status (h p) < FLUSHED"
  shows "rob_flush_loop c ps n h
    = Inr (dropWhile (includedInFlush h c) ps, n + length (takeWhile (includedInFlush h c) ps),
           \<lambda>q. if q \<in> set (takeWhile (includedInFlush h c) ps) then (h q)\<lparr>i_status := FLUSHED\<rparr> else h q)"
  using assms
proof (induction ps arbitrary: n h)
  case (Cons p ps)
  show ?case
  proof (cases "includedInFlush h c p")
    case True
    define h1 where "h1 = h(p := (h p)\<lparr>i_status := FLUSHED\<rparr>)"
    have st: "setStatus FLUSHED (h p) = Inr ((h p)\<lparr>i_status := FLUSHED\<rparr>, False)"
      using Cons.prems by (auto simp: setStatus_def)
    have inc: "includedInFlush h1 c = includedInFlush h c" by (auto simp: h1_def includedInFlush_def fun_eq_iff)
    have "\<forall>q\<in>set ps. i_status (h1 q) < FLUSHED" using Cons.prems by (auto simp: h1_def)
    from Cons.IH[OF _ this, of "n + 1"] Cons.prems
    have "rob_flush_loop c ps (n + 1) h1 = Inr (dropWhile (includedInFlush h c) ps,
        n + 1 + length (takeWhile (includedInFlush h c) ps),
        \<lambda>q. if q \<in> set (takeWhile (includedInFlush h c) ps) then (h1 q)\<lparr>i_status := FLUSHED\<rparr> else h1 q)"
      unfolding inc by simp
    with True st show ?thesis by (simp add: h1_def[symmetric]) (auto simp: h1_def)
  qed simp
qed simp

definition flush_result :: "FlushingCriteria \<Rightarrow> ROB \<times> heap \<Rightarrow> ROB \<times> heap \<Rightarrow> bool" where
  "flush_result c sh sh' \<longleftrightarrow>
     rob_buffer (fst sh') = drop_back (includedInFlush (snd sh) c) (rob_buffer (fst sh))
   \<and> \<not> rob_expect_flush (fst sh')
   \<and> rob_out (fst sh') = rob_out (fst sh) @
       [OutROBCredits (length (taken_back (includedInFlush (snd sh) c) (rob_buffer (fst sh))))]
   \<and> rob_expected_program_id (fst sh') = rob_expected_program_id (fst sh)
   \<and> rob_num_retired (fst sh') = rob_num_retired (fst sh)
   \<and> rob_num_uops_retired (fst sh') = rob_num_uops_retired (fst sh)
   \<and> snd sh' = (\<lambda>q. if q \<in> set (taken_back (includedInFlush (snd sh) c) (rob_buffer (fst sh)))
                    then (snd sh q)\<lparr>i_status := FLUSHED\<rparr> else snd sh q)"

lemma rob_handleFlush_ok:
  assumes "rob_expect_flush s" and "distinct (rob_buffer s)" and "\<forall>p\<in>set (rob_buffer s). i_status (h p) < FLUSHED"
  shows "\<exists>s' h'. rob_handleFlush c (s, h) = Inr (s', h') \<and> flush_result c (s, h) (s', h')"
proof -
  have "rob_flush_loop c (rev (rob_buffer s)) 0 h
    = Inr (rev (drop_back (includedInFlush h c) (rob_buffer s)),
           length (taken_back (includedInFlush h c) (rob_buffer s)),
           \<lambda>q. if q \<in> set (taken_back (includedInFlush h c) (rob_buffer s)) then (h q)\<lparr>i_status := FLUSHED\<rparr> else h q)"
    using rob_flush_loop_ok[of "rev (rob_buffer s)" h c 0] assms(2,3) by (simp add: drop_back_def taken_back_def)
  then show ?thesis using assms(1) by (auto simp: rob_handleFlush_def Let_def flush_result_def)
qed

lemma rob_flush_loop_partial:
  "rob_flush_loop c ps n h = Inr (left, m, h') \<Longrightarrow>
     m + length left = n + length ps
     \<and> (\<forall>p. i_uopid (h' p) = i_uopid (h p) \<and> i_program_id (h' p) = i_program_id (h p)
            \<and> i_program_id_increment (h' p) = i_program_id_increment (h p))"
proof (induction c ps n h rule: rob_flush_loop.induct)
  case (2 c p ps n h)
  show ?case
  proof (cases "includedInFlush h c p")
    case True
    with 2(2) obtain i b where st: "setStatus FLUSHED (h p) = Inr (i, b)"
      "rob_flush_loop c ps (n + 1) (h(p := i)) = Inr (left, m, h')" by (auto simp: bindE_eq_Inr)
    have i: "i = (h p)\<lparr>i_status := FLUSHED\<rparr>" using st(1) by (auto simp: setStatus_def)
    from 2(1)[OF True st(1) refl st(2)] i show ?thesis by (auto split: if_splits)
  next
    case False
    with 2(2) show ?thesis by auto
  qed
qed simp

section \<open>Sequences of handlers\<close>

text \<open>
  A step is a successful call of a handler of the unit or a change of the instructions by other units
  (which keeps their ids). The third component counts the instructions appended so far.
\<close>

definition same_ids :: "heap \<Rightarrow> heap \<Rightarrow> bool" where
  "same_ids h h' \<longleftrightarrow> (\<forall>p. i_uopid (h' p) = i_uopid (h p) \<and> i_program_id (h' p) = i_program_id (h p)
     \<and> i_program_id_increment (h' p) = i_program_id_increment (h p))"

inductive rob_step :: "ROBParameterSet \<Rightarrow> ROB \<times> heap \<times> nat \<Rightarrow> ROB \<times> heap \<times> nat \<Rightarrow> bool"
  for pr :: ROBParameterSet where
  rob_append: "robAppended pr grp s = Inr s' \<Longrightarrow> rob_step pr (s, h, n) (s', h, n + length grp)"
| rob_retire: "retireInstructions pr cyc (s, h) = Inr (s', h') \<Longrightarrow> rob_step pr (s, h, n) (s', h', n)"
| rob_flush: "rob_handleFlush c (s, h) = Inr (s', h') \<Longrightarrow> rob_step pr (s, h, n) (s', h', n)"
| rob_watchdog: "checkForwardProgress pr cyc s = Inr s' \<Longrightarrow> rob_step pr (s, h, n) (s', h, n)"
| rob_env: "same_ids h h' \<Longrightarrow> rob_step pr (s, h, n) (s, h', n)"

inductive rob_reachable :: "ROBParameterSet \<Rightarrow> ROB \<times> heap \<times> nat \<Rightarrow> bool" for pr where
  rob_init: "rob_reachable pr (sendInitialCredits pr mk_ROB, h, 0)"
| rob_next: "rob_reachable pr x \<Longrightarrow> rob_step pr x y \<Longrightarrow> rob_reachable pr y"

inductive_cases rob_stepE: "rob_step pr (s, h, n) y"

definition rob_inv :: "ROBParameterSet \<Rightarrow> ROB \<times> heap \<times> nat \<Rightarrow> bool" where
  "rob_inv pr x \<longleftrightarrow> (case x of (s, h, n) \<Rightarrow>
     rob_credits_sent (rob_out s) + length (rob_buffer s) + length (rob_acked (rob_out s))
       = rp_retire_queue_depth pr + n + insts_in h (rob_acked (rob_out s))
   \<and> rob_num_retired s = insts_in h (rob_acked (rob_out s))
   \<and> rob_num_uops_retired s = length (rob_acked (rob_out s))
   \<and> rob_expected_program_id s = 1 + pid_span h (rob_acked (rob_out s))
   \<and> pid_chain h 1 (rob_acked (rob_out s)))"

lemma same_ids_fields:
  assumes "same_ids h h'"
  shows "is_inst h' = is_inst h" "pid_step h' = pid_step h" "insts_in h' = insts_in h" "pid_span h' = pid_span h"
    "pid_chain h' e ps = pid_chain h e ps"
proof -
  have u: "getUOpID (h' p) = getUOpID (h p)" for p using assms by (simp add: same_ids_def getUOpID_def)
  show a: "is_inst h' = is_inst h" "pid_step h' = pid_step h"
    using assms u by (auto simp: same_ids_def is_inst_def pid_step_def fun_eq_iff)
  then show "insts_in h' = insts_in h" "pid_span h' = pid_span h"
    by (simp_all add: insts_in_def pid_span_def fun_eq_iff)
  show "pid_chain h' e ps = pid_chain h e ps"
    using assms u a by (induction ps arbitrary: e) (auto simp: same_ids_def)
qed

lemma insts_in_append [simp]: "insts_in h (ps @ qs) = insts_in h ps + insts_in h qs"
  by (simp add: insts_in_def)

lemma pid_span_append [simp]: "pid_span h (ps @ qs) = pid_span h ps + pid_span h qs"
  by (simp add: pid_span_def)

lemma pid_chain_append:
  "pid_chain h e (ps @ qs) = (pid_chain h e ps \<and> pid_chain h (e + pid_span h ps) qs)"
  by (induction ps arbitrary: e) (auto simp: pid_span_def add.assoc)

interpretation rob_queue: bounded_queue rp_retire_queue_depth rob_buffer "\<lambda>xs s. s\<lparr>rob_buffer := xs\<rparr>" rob_push
  by unfold_locales (auto simp: rob_push_def)

lemma rob_inv_retire:
  assumes "rob_inv pr (s, h, n)" and "retire_result pr (s, h) g (s', h')"
    and "pid_chain h (rob_expected_program_id s) g"
  shows "rob_inv pr (s', h', n)"
proof -
  have "same_ids h h'" using assms(2) by (simp add: retire_result_def same_ids_def)
  note f = same_ids_fields[OF this]
  show ?thesis using assms unfolding rob_inv_def prod.case f retire_result_def fst_conv snd_conv
    by (simp add: pid_chain_append)
qed

lemma rob_step_inv:
  assumes "rob_step pr x y" and "rob_inv pr x" and "rp_retire_heartbeat pr > 0"
  shows "rob_inv pr y"
  using assms
proof (cases rule: rob_step.cases)
  case (rob_append grp s s' h n)
  then show ?thesis using assms(2) by (auto simp: robAppended_def bindE_eq_Inr rob_queue.push_all rob_inv_def)
next
  case (rob_retire cyc s h s' h' n)
  show ?thesis
  proof (cases "rob_expect_flush s")
    case True
    then show ?thesis using rob_retire assms(2) by (simp add: retireInstructions_def)
  next
    case False
    from retireInstructions_partial[OF assms(3) False rob_retire(3)] rob_inv_retire assms(2) rob_retire(1,2)
    show ?thesis by blast
  qed
next
  case (rob_flush c s h s' h' n)
  then obtain left m where l: "rob_flush_loop c (rev (rob_buffer s)) 0 h = Inr (left, m, h')"
    "s' = rob_emit (OutROBCredits m) (s\<lparr>rob_expect_flush := False, rob_buffer := rev left\<rparr>)"
    by (auto simp: rob_handleFlush_def Let_def bindE_eq_Inr)
  from rob_flush_loop_partial[OF l(1)] have "m + length left = length (rob_buffer s)" "same_ids h h'"
    by (simp_all add: same_ids_def)
  with same_ids_fields[OF this(2)] assms(2) rob_flush(1,2) l(2) show ?thesis by (simp add: rob_inv_def)
next
  case (rob_watchdog cyc s s' h n)
  then show ?thesis using assms(2) by (auto simp: checkForwardProgress_def rob_inv_def split: if_splits)
next
  case (rob_env h h' s n)
  then show ?thesis using assms(2) same_ids_fields[OF rob_env(3)] by (simp add: rob_inv_def)
qed

lemma rob_reachable_inv:
  assumes "rob_reachable pr x" and "rp_retire_heartbeat pr > 0"
  shows "rob_inv pr x"
  using assms(1)
proof (induction rule: rob_reachable.induct)
  case (rob_init h)
  then show ?case by (simp add: rob_inv_def sendInitialCredits_def mk_ROB_def insts_in_def pid_span_def)
next
  case (rob_next x y)
  then show ?case using rob_step_inv assms(2) by blast
qed

text \<open>The reorder buffer keeps the credit protocol.\<close>

definition rob_runs :: "ROBParameterSet \<Rightarrow> ROB \<times> heap \<times> nat \<Rightarrow> bool" where
  "rob_runs pr x \<longleftrightarrow> rob_reachable pr x \<and> rp_retire_heartbeat pr > 0"

lemma insts_in_le: "insts_in h ps \<le> length ps"
  by (induction ps) (auto simp: insts_in_def is_inst_def)

interpretation rob_credits: credit_interface rob_runs rp_retire_queue_depth
  "\<lambda>x. rob_credits_sent (rob_out (fst x))" "\<lambda>x. length (rob_buffer (fst x))" "\<lambda>x. snd (snd x)"
proof
  fix pr and x :: "ROB \<times> heap \<times> nat"
  assume "rob_runs pr x"
  then have "rob_inv pr x" using rob_reachable_inv by (auto simp: rob_runs_def)
  then show "rob_credits_sent (rob_out (fst x)) + length (rob_buffer (fst x)) \<le> rp_retire_queue_depth pr + snd (snd x)"
    using insts_in_le[of "fst (snd x)" "rob_acked (rob_out (fst x))"] by (auto simp: rob_inv_def split: prod.splits)
qed

section \<open>A sample buffer\<close>

definition ex_rob_params :: ROBParameterSet where
  "ex_rob_params = \<lparr>rp_num_to_retire = 4, rp_retire_queue_depth = 30, rp_num_insts_to_retire = 0,
     rp_retire_heartbeat = 1000000, rp_retire_timeout_interval = 10000\<rparr>"

definition ex_rob_heap :: heap where
  "ex_rob_heap = (\<lambda>p. (sample_Inst TP_INT p [] [])
     \<lparr>i_status := (if p \<le> 2 then COMPLETED else DISPATCHED), i_is_mispredicted := (p = 2)\<rparr>)"

definition ex_rob :: ROB where
  "ex_rob = rob_emit EvRetire ((sendInitialCredits ex_rob_params mk_ROB)\<lparr>rob_buffer := [1, 2, 3, 4]\<rparr>)"

lemma ex_rob_heap_simps [simp]:
  "i_status (ex_rob_heap p) = (if p \<le> 2 then COMPLETED else DISPATCHED)"
  "i_unique_id (ex_rob_heap p) = p" "i_program_id (ex_rob_heap p) = p"
  "getUOpID (ex_rob_heap p) = 0" "i_program_id_increment (ex_rob_heap p) = 1"
  "\<not> i_is_speculative (ex_rob_heap p)" "raises_flush ex_rob_heap p = (p = 2)"
  by (simp_all add: ex_rob_heap_def sample_Inst_def getUOpID_def raises_flush_def getPipe_def)

lemma ex_rob_simps [simp]:
  "rob_buffer ex_rob = [1, 2, 3, 4]" "rob_expected_program_id ex_rob = 1" "\<not> rob_expect_flush ex_rob"
  "rob_num_retired ex_rob = 0" "rp_retire_heartbeat ex_rob_params = 1000000"
  "rp_num_insts_to_retire ex_rob_params = 0" "rp_num_to_retire ex_rob_params = 4"
  "rp_retire_queue_depth ex_rob_params = 30" "rob_credits_sent (rob_out ex_rob) = 30"
  "rob_acked (rob_out ex_rob) = []"
  by (simp_all add: ex_rob_def sendInitialCredits_def mk_ROB_def ex_rob_params_def)

lemma ex_rob_ok: "rob_ok ex_rob_heap ex_rob"
  by (simp add: rob_ok_def pid_step_def)

lemma ex_rob_reachable: "rob_reachable ex_rob_params (ex_rob, ex_rob_heap, 4)"
proof -
  have "robAppended ex_rob_params [1, 2, 3, 4] (sendInitialCredits ex_rob_params mk_ROB) = Inr ex_rob"
    by (simp add: robAppended_def rob_push_def ex_rob_def sendInitialCredits_def mk_ROB_def ex_rob_params_def
        rob_emit_def)
  from rob_next[OF rob_init rob_append[OF this, of ex_rob_heap 0]] show ?thesis by (simp add: eval_nat_numeral)
qed

section \<open>Properties\<close>

text \<open>C3. In-order retirement. Where the buffer holds distinct, non-speculative instructions in
  program order and no flush is awaited, a retirement never asserts. It retires a prefix of the
  buffer of at most \<open>num_to_retire\<close> completed instructions, reports exactly that group to rename,
  returns one credit per retired instruction, advances the expected program id over the group and
  leaves every other status alone. The group is maximal: the retirement stops early only behind an
  instruction that raises a flush, at the instruction limit, or before an instruction that has not
  completed.\<close>

theorem rob_retires_completed_prefix:
  assumes "rp_retire_heartbeat pr > 0" and "\<not> rob_expect_flush s" and "rob_ok h s"
  shows "\<exists>s' h' g. retireInstructions pr cyc (s, h) = Inr (s', h')
    \<and> rob_buffer s = g @ rob_buffer s' \<and> length g \<le> rp_num_to_retire pr
    \<and> (\<forall>p\<in>set g. i_status (h p) = COMPLETED \<and> i_status (h' p) = RETIRED)
    \<and> (\<forall>p. p \<notin> set g \<longrightarrow> i_status (h' p) = i_status (h p))
    \<and> rob_acked (rob_out s') = rob_acked (rob_out s) @ g
    \<and> rob_credits_sent (rob_out s') = rob_credits_sent (rob_out s) + insts_in h g
    \<and> rob_expected_program_id s' = rob_expected_program_id s + pid_span h g
    \<and> (length g = min (length (rob_buffer s)) (rp_num_to_retire pr)
       \<or> g \<noteq> [] \<and> (raises_flush h (last g) \<or> rob_num_retired s' = rp_num_insts_to_retire pr)
       \<or> (\<exists>p rest. rob_buffer s' = p # rest \<and> i_status (h p) \<noteq> COMPLETED))"
proof -
  define g where "g = retire_group pr h (rob_num_retired s) (min (length (rob_buffer s)) (rp_num_to_retire pr))
    (rob_buffer s)"
  from retireInstructions_ok[OF assms, of cyc] obtain s' h' where
    r: "retireInstructions pr cyc (s, h) = Inr (s', h')" "retire_result pr (s, h) g (s', h')"
    unfolding g_def Let_def by blast
  from retire_group_spec[OF g_def] r(2) have "length g \<le> rp_num_to_retire pr"
    "\<forall>p\<in>set g. i_status (h p) = COMPLETED"
    "length g = min (length (rob_buffer s)) (rp_num_to_retire pr)
       \<or> g \<noteq> [] \<and> (raises_flush h (last g) \<or> rob_num_retired s' = rp_num_insts_to_retire pr)
       \<or> (\<exists>p rest. rob_buffer s' = p # rest \<and> i_status (h p) \<noteq> COMPLETED)"
    by (auto simp: retire_result_def min.absorb1 min.absorb2)
  then show ?thesis using r
    by (intro exI[of _ s'] exI[of _ h'] exI[of _ g]) (simp add: retire_result_def)
qed

theorem rob_retires_completed_prefix_witness:
  "rob_ok ex_rob_heap ex_rob \<and> (\<exists>s' h'. retireInstructions ex_rob_params 7 (ex_rob, ex_rob_heap) = Inr (s', h')
    \<and> {3, 4} \<subseteq> set (rob_buffer s') \<and> length (rob_buffer s') < 4)"
proof -
  have hb: "rp_retire_heartbeat ex_rob_params > 0" by simp
  from rob_retires_completed_prefix[OF hb _ ex_rob_ok, of 7] obtain s' h' g where
    r: "retireInstructions ex_rob_params 7 (ex_rob, ex_rob_heap) = Inr (s', h')"
      "rob_buffer ex_rob = g @ rob_buffer s'"
      "\<forall>p\<in>set g. i_status (ex_rob_heap p) = COMPLETED \<and> i_status (h' p) = RETIRED"
    and m: "length g = min (length (rob_buffer ex_rob)) (rp_num_to_retire ex_rob_params)
       \<or> g \<noteq> [] \<and> (raises_flush ex_rob_heap (last g) \<or> rob_num_retired s' = rp_num_insts_to_retire ex_rob_params)
       \<or> (\<exists>p rest. rob_buffer s' = p # rest \<and> i_status (ex_rob_heap p) \<noteq> COMPLETED)"
    using ex_rob_simps(3) by blast
  note r2 = r(2)[unfolded ex_rob_simps]
  have "set [1, 2, 3, 4] = set g \<union> set (rob_buffer s')" by (simp only: r2 set_append)
  moreover have "3 \<notin> set g" "4 \<notin> set g" using r(3) by (auto split: if_splits)
  ultimately have "{3, 4} \<subseteq> set (rob_buffer s')" by auto
  moreover have "g \<noteq> []"
  proof
    assume "g = []"
    with r2 have "rob_buffer s' = [1, 2, 3, 4]" by simp
    with m \<open>g = []\<close> show False by simp
  qed
  then have "length (rob_buffer s') < 4" using arg_cong[OF r2, of length] by (cases g) auto
  ultimately show ?thesis using r(1) ex_rob_ok by blast
qed

text \<open>C6. A flush request stops retirement. While the buffer waits for the flush it asked for, a
  retirement does nothing. A retirement that raises a flush sends exactly one request, for the last
  instruction it retires, that instruction excluded; where the ids of the buffer increase strictly,
  the flush that comes back then removes every instruction left in the buffer, marks each of them
  flushed and returns one credit for each.\<close>

theorem rob_flush_request_stops_retirement:
  assumes "rp_retire_heartbeat pr > 0" and "rob_ok h s"
    and "sorted_wrt (<) (map (\<lambda>p. i_unique_id (h p)) (rob_buffer s))"
    and "\<forall>p\<in>set (rob_buffer s). i_status (h p) < FLUSHED"
    and "\<not> rob_expect_flush s" and "retireInstructions pr cyc (s, h) = Inr (s1, h1)" and "rob_expect_flush s1"
  shows "(\<forall>cyc. retireInstructions pr cyc (s1, h1) = Inr (s1, h1))
    \<and> (\<exists>g c s2 h2. rob_buffer s = g @ rob_buffer s1 \<and> g \<noteq> []
         \<and> rob_flushes (rob_out s1) = rob_flushes (rob_out s) @ [c]
         \<and> fc_inst c = last g \<and> \<not> fc_is_inclusive c
         \<and> rob_handleFlush c (s1, h1) = Inr (s2, h2)
         \<and> rob_buffer s2 = [] \<and> \<not> rob_expect_flush s2
         \<and> (\<forall>p\<in>set (rob_buffer s1). i_status (h2 p) = FLUSHED)
         \<and> rob_credits_sent (rob_out s2) = rob_credits_sent (rob_out s1) + length (rob_buffer s1))"
proof -
  from retireInstructions_partial[OF assms(1,5,6)] obtain g where g: "retire_result pr (s, h) g (s1, h1)" by blast
  define c where "c = retire_flush h (last g)"
  have r: "rob_buffer s = g @ rob_buffer s1" "g \<noteq> []" "rob_flushes (rob_out s1) = rob_flushes (rob_out s) @ [c]"
    "i_unique_id (h1 p) = i_unique_id (h p)" "p \<notin> set g \<Longrightarrow> i_status (h1 p) = i_status (h p)" for p
    using g assms(7) by (simp_all add: retire_result_def c_def)
  have d: "distinct (rob_buffer s1)" "set g \<inter> set (rob_buffer s1) = {}"
    using assms(2) r(1) by (auto simp: rob_ok_def)
  have "includedInFlush h1 c p" if "p \<in> set (rob_buffer s1)" for p
  proof -
    have "i_unique_id (h (last g)) < i_unique_id (h p)"
      using assms(3) r(1,2) that by (auto simp: sorted_wrt_append)
    then show ?thesis by (simp add: includedInFlush_def c_def retire_flush_def r(4))
  qed
  then have t: "taken_back (includedInFlush h1 c) (rob_buffer s1) = rev (rob_buffer s1)"
    "drop_back (includedInFlush h1 c) (rob_buffer s1) = []"
    by (simp_all add: taken_back_def drop_back_def)
  have "\<forall>p\<in>set (rob_buffer s1). i_status (h1 p) < FLUSHED"
    using assms(4) r(1) d(2) by (metis IntI UnCI emptyE r(5) set_append)
  from rob_handleFlush_ok[OF assms(7) d(1) this, of c] obtain s2 h2 where
    "rob_handleFlush c (s1, h1) = Inr (s2, h2)" "flush_result c (s1, h1) (s2, h2)" by blast
  then have "\<exists>s2 h2. rob_handleFlush c (s1, h1) = Inr (s2, h2)
         \<and> rob_buffer s2 = [] \<and> \<not> rob_expect_flush s2
         \<and> (\<forall>p\<in>set (rob_buffer s1). i_status (h2 p) = FLUSHED)
         \<and> rob_credits_sent (rob_out s2) = rob_credits_sent (rob_out s1) + length (rob_buffer s1)"
    by (intro exI[of _ s2] exI[of _ h2]) (simp add: flush_result_def t)
  moreover have "fc_inst c = last g" "\<not> fc_is_inclusive c" by (simp_all add: c_def retire_flush_def)
  moreover have "\<forall>cyc. retireInstructions pr cyc (s1, h1) = Inr (s1, h1)"
    using assms(7) by (simp add: retireInstructions_def)
  ultimately show ?thesis using r(1-3) by blast
qed

lemma ex_rob_retired:
  "\<exists>s1 h1. retireInstructions ex_rob_params 7 (ex_rob, ex_rob_heap) = Inr (s1, h1)
     \<and> rob_expect_flush s1 \<and> rob_buffer s1 = [3, 4]"
proof -
  have g: "retire_group ex_rob_params ex_rob_heap 0 4 [1, 2, 3, 4] = [1, 2]"
    by (simp add: eval_nat_numeral is_inst_def)
  from retireInstructions_ok[of ex_rob_params ex_rob ex_rob_heap 7, OF _ _ ex_rob_ok] show ?thesis
    by (auto simp: g retire_result_def insts_in_def is_inst_def Let_def)
qed

theorem rob_flush_request_stops_retirement_witness:
  "\<exists>s1 h1 c s2 h2. retireInstructions ex_rob_params 7 (ex_rob, ex_rob_heap) = Inr (s1, h1)
     \<and> rob_buffer s1 = [3, 4] \<and> rob_handleFlush c (s1, h1) = Inr (s2, h2) \<and> rob_buffer s2 = []"
proof -
  from ex_rob_retired obtain s1 h1 where r: "retireInstructions ex_rob_params 7 (ex_rob, ex_rob_heap) = Inr (s1, h1)"
    "rob_expect_flush s1" "rob_buffer s1 = [3, 4]" by blast
  have st: "\<forall>p\<in>set (rob_buffer ex_rob). i_status (ex_rob_heap p) < FLUSHED" by (simp add: less_Status_def)
  have "\<exists>g c s2 h2. rob_buffer ex_rob = g @ rob_buffer s1 \<and> g \<noteq> []
         \<and> rob_flushes (rob_out s1) = rob_flushes (rob_out ex_rob) @ [c]
         \<and> fc_inst c = last g \<and> \<not> fc_is_inclusive c \<and> rob_handleFlush c (s1, h1) = Inr (s2, h2)
         \<and> rob_buffer s2 = [] \<and> \<not> rob_expect_flush s2
         \<and> (\<forall>p\<in>set (rob_buffer s1). i_status (h2 p) = FLUSHED)
         \<and> rob_credits_sent (rob_out s2) = rob_credits_sent (rob_out s1) + length (rob_buffer s1)"
    using rob_flush_request_stops_retirement[OF _ ex_rob_ok _ st _ r(1,2)] by simp
  with r show ?thesis by blast
qed

text \<open>A flush of the buffer is exact. Where a flush is expected, the ids of the buffer do not
  decrease and no instruction of it has been flushed, the handler succeeds; what is left of the
  buffer are the instructions the criteria do not include, in order, and exactly the others are
  marked flushed and give a credit each.\<close>

theorem rob_flush_exact:
  assumes "rob_expect_flush s" and "distinct (rob_buffer s)"
    and "\<forall>p\<in>set (rob_buffer s). i_status (h p) < FLUSHED"
    and "sorted (map (\<lambda>p. i_unique_id (h p)) (rob_buffer s))"
  shows "\<exists>s' h'. rob_handleFlush c (s, h) = Inr (s', h')
    \<and> rob_buffer s' = filter (\<lambda>p. \<not> includedInFlush h c p) (rob_buffer s)
    \<and> (\<forall>p\<in>set (rob_buffer s). i_status (h' p) = (if includedInFlush h c p then FLUSHED else i_status (h p)))
    \<and> rob_credits_sent (rob_out s') = rob_credits_sent (rob_out s)
         + length (filter (includedInFlush h c) (rob_buffer s))"
proof -
  let ?P = "includedInFlush h c"
  have sw: "sorted_wrt (\<lambda>p q. ?P p \<longrightarrow> ?P q) (rob_buffer s)"
    using assms(4) unfolding sorted_map
    by (rule sorted_wrt_mono_rel[rotated]) (blast intro: includedInFlush_mono)
  note d = drop_back_filter[OF sw]
  have len: "length (taken_back ?P (rob_buffer s)) = length (filter ?P (rob_buffer s))"
    using length_drop_back[of ?P "rob_buffer s"] sum_length_filter_compl[of ?P "rob_buffer s"] d by simp
  have mem: "p \<in> set (taken_back ?P (rob_buffer s)) \<longleftrightarrow> ?P p" if "p \<in> set (rob_buffer s)" for p
    using that drop_taken_back[of ?P "rob_buffer s"] taken_back_sat[of p ?P "rob_buffer s"] d
    by (metis (mono_tags, lifting) Un_iff mem_Collect_eq set_append set_filter set_rev)
  from rob_handleFlush_ok[OF assms(1-3), of c] obtain s' h' where
    "rob_handleFlush c (s, h) = Inr (s', h')" "flush_result c (s, h) (s', h')" by blast
  then show ?thesis
    by (intro exI[of _ s'] exI[of _ h']) (simp add: flush_result_def d len mem)
qed

text \<open>C15. Conservation of credits. In every state that a sequence of handlers reaches, the credits
  sent so far plus the occupancy of the buffer plus the retired micro-ops with a non-zero id equal the
  depth of the buffer plus the instructions appended: each instruction that leaves the buffer returns
  its credit, except a retired micro-op with a non-zero id, which returns none.\<close>

theorem rob_credits_conserved:
  assumes "rob_reachable pr (s, h, n)" and "rp_retire_heartbeat pr > 0"
  shows "rob_credits_sent (rob_out s) + length (rob_buffer s)
      + length (filter (\<lambda>p. getUOpID (h p) \<noteq> 0) (rob_acked (rob_out s)))
    = rp_retire_queue_depth pr + n"
proof -
  have e: "insts_in h ps + length (filter (\<lambda>p. getUOpID (h p) \<noteq> 0) ps) = length ps" for ps
    by (induction ps) (auto simp: insts_in_def is_inst_def)
  from rob_reachable_inv[OF assms] e[of "rob_acked (rob_out s)"] show ?thesis by (simp add: rob_inv_def)
qed

theorem rob_credits_conserved_witness:
  "rob_reachable ex_rob_params (ex_rob, ex_rob_heap, 4) \<and>
   rob_credits_sent (rob_out ex_rob) + length (rob_buffer ex_rob) = 34"
  using rob_credits_conserved[OF ex_rob_reachable] ex_rob_reachable by simp

text \<open>A sender that spends only the credits it received never overflows the buffer: appending a
  group succeeds in every reachable state where the instructions appended so far and the group fit in
  the credits sent.\<close>

theorem rob_append_within_credits:
  assumes "rob_reachable pr (s, h, n)" and "rp_retire_heartbeat pr > 0"
    and "n + length grp \<le> rob_credits_sent (rob_out s)"
  shows "\<exists>s'. robAppended pr grp s = Inr s' \<and> rob_buffer s' = rob_buffer s @ grp
    \<and> length (rob_buffer s') \<le> rp_retire_queue_depth pr"
proof -
  have "rob_runs pr (s, h, n)" using assms(1,2) by (simp add: rob_runs_def)
  from rob_credits.fits[OF this, of "length grp"] assms(3)
  have b: "length (rob_buffer s) + length grp \<le> rp_retire_queue_depth pr" by simp
  then have "foldE (rob_push pr) s grp = Inr (s\<lparr>rob_buffer := rob_buffer s @ grp\<rparr>)" by (simp add: rob_queue.push_all)
  with b show ?thesis by (simp add: robAppended_def)
qed

text \<open>C7. Program order of retirement. In every reachable state the instructions acknowledged to
  rename, from the first on, carry consecutive program ids (a fused instruction counts for the ids it
  stands for), the expected id is the one after them, and the counters count them.\<close>

theorem rob_retires_in_program_order:
  assumes "rob_reachable pr (s, h, n)" and "rp_retire_heartbeat pr > 0"
  shows "pid_chain h 1 (rob_acked (rob_out s))
    \<and> rob_expected_program_id s = 1 + pid_span h (rob_acked (rob_out s))
    \<and> rob_num_retired s = insts_in h (rob_acked (rob_out s))
    \<and> rob_num_uops_retired s = length (rob_acked (rob_out s))"
  using rob_reachable_inv[OF assms] by (simp add: rob_inv_def)

theorem rob_retires_in_program_order_witness:
  "\<exists>s h. rob_reachable ex_rob_params (s, h, 4) \<and> rob_buffer s = [3, 4]
     \<and> rob_expected_program_id s = 1 + pid_span h (rob_acked (rob_out s))"
proof -
  from ex_rob_retired obtain s1 h1 where r: "retireInstructions ex_rob_params 7 (ex_rob, ex_rob_heap) = Inr (s1, h1)"
    "rob_buffer s1 = [3, 4]" by blast
  have "rob_reachable ex_rob_params (s1, h1, 4)" using rob_next[OF ex_rob_reachable rob_retire[OF r(1)]] .
  with rob_retires_in_program_order[OF this] r show ?thesis by auto
qed

end
