(* ===== verification/DispatchUnit.thy ===== *)
theory DispatchUnit
  imports FlushMgr
begin

text \<open>
  The dispatch unit (\<open>core/dispatch/Dispatch.hpp\<close>, \<open>core/dispatch/Dispatch.cpp\<close>) and its dispatchers
  (\<open>core/dispatch/Dispatcher.hpp\<close>, \<open>core/dispatch/Dispatcher.cpp\<close>). One dispatcher serves an issue
  queue and may stand in the lists of several target pipes, so the dispatchers are a store
  (\<open>ds_dispatchers\<close>) and a pipe holds their positions (\<open>ds_pipe_map\<close>); credits spent through one pipe
  are seen through the others. The constructor takes the topology of the core extension: the pipelines
  by their pipe names, the issue queues by the range of execution units they feed (the numbers the
  code reads with \<open>std::stoi\<close>) and the renames of the issue queues. Statistics other than the unit
  distribution are left out.
\<close>

section \<open>Dispatchers\<close>

record Dispatcher =
  dp_name :: string
  dp_unit_credits :: nat
  dp_num_can_dispatch :: nat

definition mk_Dispatcher :: "string \<Rightarrow> Dispatcher" where
  "mk_Dispatcher nm = \<lparr>dp_name = nm, dp_unit_credits = 0, dp_num_can_dispatch = 1\<rparr>"

definition canAccept :: "Dispatcher \<Rightarrow> bool" where
  "canAccept d = (dp_unit_credits d \<noteq> 0 \<and> dp_num_can_dispatch d \<noteq> 0)"

definition acceptInst :: "Dispatcher \<Rightarrow> Dispatcher result" where
  "acceptInst d =
     bindE (assertE (dp_unit_credits d \<noteq> 0) ''cannot accept the given instruction (not enough credits)'') (\<lambda>_.
     bindE (assertE (dp_num_can_dispatch d \<noteq> 0)
              ''cannot accept the given instruction (already accepted an instruction)'') (\<lambda>_.
       Inr (d\<lparr>dp_unit_credits := dp_unit_credits d - 1, dp_num_can_dispatch := dp_num_can_dispatch d - 1\<rparr>)))"

definition Dispatcher_reset :: "Dispatcher \<Rightarrow> Dispatcher" where
  "Dispatcher_reset d = d\<lparr>dp_num_can_dispatch := 1\<rparr>"

section \<open>State\<close>

datatype DispatchStall = PIPE_BUSY TargetPipe | DS_NOT_STALLED

datatype dispatch_event =
    OutDispatchQueueCredits nat
  | OutReorderWrite "ptr list"
  | OutInst nat ptr
  | EvDispatchInsts nat
  | CancelReorderWrite

record DispatchParameterSet =
  dsp_num_to_dispatch :: nat
  dsp_dispatch_queue_depth :: nat

record Dispatch =
  ds_queue :: "ptr list"
  ds_dispatchers :: "Dispatcher list"
  ds_pipe_map :: "TargetPipe \<Rightarrow> nat list"
  ds_blocking_dispatcher :: TargetPipe
  ds_credits_rob :: nat
  ds_current_stall :: DispatchStall
  ds_unit_distribution :: "TargetPipe \<Rightarrow> nat"
  ds_out :: "dispatch_event list"

definition ds_emit :: "dispatch_event \<Rightarrow> Dispatch \<Rightarrow> Dispatch" where
  "ds_emit e s = s\<lparr>ds_out := ds_out s @ [e]\<rparr>"

section \<open>Construction\<close>

fun digits :: "nat \<Rightarrow> string" where
  "digits n = (if n < 10 then [char_of (48 + n)] else digits (n div 10) @ [char_of (48 + n mod 10)])"

definition issue_queue_name :: "string list list \<Rightarrow> nat \<Rightarrow> string result" where
  "issue_queue_name issue_queue_rename iq_num =
     (let iq_name = ''iq'' @ digits iq_num in
      if length issue_queue_rename > 0
      then (if iq_num < length issue_queue_rename \<and> length (issue_queue_rename ! iq_num) > 1
            then bindE (assertE (issue_queue_rename ! iq_num ! 0 = iq_name)
                          ''Rename mapping for issue queue is not in order'') (\<lambda>_.
                   Inr (issue_queue_rename ! iq_num ! 1))
            else Inl (UndefinedBehaviour ''issue_queue_rename''))
      else Inr iq_name)"

text \<open>Enter dispatcher \<open>d\<close> for one pipe name of an execution unit, once.\<close>

definition map_target :: "nat \<Rightarrow> (TargetPipe \<Rightarrow> nat list) \<Rightarrow> string \<Rightarrow> (TargetPipe \<Rightarrow> nat list) result" where
  "map_target d pm pipe_target =
     (case map_of execution_pipe_map pipe_target of
        None \<Rightarrow> Inl (UndefinedBehaviour ''execution_pipe_map end'')
      | Some tp \<Rightarrow>
          (if tp = TP_UNKNOWN then Inl (UndefinedBehaviour ''dispatchers_ index'')
           else Inr (if d \<in> set (pm tp) then pm else pm(tp := pm tp @ [d]))))"

definition map_unit ::
    "string list list \<Rightarrow> nat \<Rightarrow> (TargetPipe \<Rightarrow> nat list) \<Rightarrow> nat \<Rightarrow> (TargetPipe \<Rightarrow> nat list) result" where
  "map_unit pipelines d pm pipe_idx =
     (if pipe_idx < length pipelines then foldE (map_target d) pm (pipelines ! pipe_idx)
      else Inl (UndefinedBehaviour ''pipelines''))"

definition add_issue_queue ::
    "string list list \<Rightarrow> string list list \<Rightarrow> Dispatch \<Rightarrow> nat list \<Rightarrow> Dispatch result" where
  "add_issue_queue pipelines issue_queue_rename s iq =
     (let iq_num = length (ds_dispatchers s) in
      bindE (issue_queue_name issue_queue_rename iq_num) (\<lambda>iq_name.
      case iq of
        [] \<Rightarrow> Inl (UndefinedBehaviour ''issue_queue_to_pipe_map'')
      | pipe_target_start # iq_tail \<Rightarrow>
          (let pipe_target_end = (case iq_tail of [] \<Rightarrow> pipe_target_start | e # _ \<Rightarrow> e) + 1 in
           bindE (foldE (map_unit pipelines iq_num) (ds_pipe_map s) [pipe_target_start ..< pipe_target_end]) (\<lambda>pm.
             Inr (s\<lparr>ds_dispatchers := ds_dispatchers s @ [mk_Dispatcher iq_name], ds_pipe_map := pm\<rparr>)))))"

definition mk_Dispatch ::
    "string list list \<Rightarrow> nat list list \<Rightarrow> string list list \<Rightarrow> Dispatch result" where
  "mk_Dispatch pipelines issue_queue_to_pipe_map issue_queue_rename =
     bindE (foldE (add_issue_queue pipelines issue_queue_rename)
              \<lparr>ds_queue = [], ds_dispatchers = [], ds_pipe_map = (\<lambda>_. []),
               ds_blocking_dispatcher = TP_UNKNOWN, ds_credits_rob = 0,
               ds_current_stall = DS_NOT_STALLED, ds_unit_distribution = (\<lambda>_. 0), ds_out = []\<rparr>
              issue_queue_to_pipe_map) (\<lambda>s.
       let lsu = length (ds_dispatchers s) in
       Inr (s\<lparr>ds_dispatchers := ds_dispatchers s @ [mk_Dispatcher ''lsu''],
              ds_pipe_map := (ds_pipe_map s)(TP_LSU := ds_pipe_map s TP_LSU @ [lsu]),
              ds_blocking_dispatcher := TP_INT\<rparr>))"

section \<open>Scheduling and credits\<close>

definition scheduleDispatchSession :: "Dispatch \<Rightarrow> Dispatch" where
  "scheduleDispatchSession s =
     (if ds_credits_rob s > 0 \<and> length (ds_queue s) > 0
      then (if ds_blocking_dispatcher s \<noteq> TP_UNKNOWN
            then (if list_ex (\<lambda>d. canAccept (ds_dispatchers s ! d)) (ds_pipe_map s (ds_blocking_dispatcher s))
                  then ds_emit (EvDispatchInsts 0) (s\<lparr>ds_blocking_dispatcher := TP_UNKNOWN\<rparr>)
                  else s)
            else ds_emit (EvDispatchInsts 0) s)
      else s)"

definition ds_sendInitialCredits :: "DispatchParameterSet \<Rightarrow> Dispatch \<Rightarrow> Dispatch" where
  "ds_sendInitialCredits pr s = ds_emit (OutDispatchQueueCredits (dsp_dispatch_queue_depth pr)) s"

definition receiveCredits :: "nat \<Rightarrow> nat \<Rightarrow> Dispatch \<Rightarrow> Dispatch" where
  "receiveCredits d credits s =
     scheduleDispatchSession
       (s\<lparr>ds_dispatchers := (ds_dispatchers s)[d := (ds_dispatchers s ! d)
            \<lparr>dp_unit_credits := add32 (dp_unit_credits (ds_dispatchers s ! d)) credits\<rparr>]\<rparr>)"

definition robCredits :: "nat \<Rightarrow> Dispatch \<Rightarrow> Dispatch" where
  "robCredits nc s = scheduleDispatchSession (s\<lparr>ds_credits_rob := add32 (ds_credits_rob s) nc\<rparr>)"

definition ds_push :: "DispatchParameterSet \<Rightarrow> Dispatch \<Rightarrow> ptr \<Rightarrow> Dispatch result" where
  "ds_push pr s p =
     bindE (assertE (length (ds_queue s) < dsp_dispatch_queue_depth pr)
              ''pushing more instructions into Dispatch Queue than the limit'') (\<lambda>_.
       Inr (s\<lparr>ds_queue := ds_queue s @ [p]\<rparr>))"

definition dispatchQueueAppended :: "DispatchParameterSet \<Rightarrow> ptr list \<Rightarrow> Dispatch \<Rightarrow> Dispatch result" where
  "dispatchQueueAppended pr grp s =
     bindE (foldE (ds_push pr) s grp) (\<lambda>s1. Inr (scheduleDispatchSession s1))"

section \<open>Dispatching\<close>

text \<open>The scan for the dispatcher with the most credits; the accumulator holds the best one so far and
  its credits.\<close>

fun best_dispatcher :: "Dispatcher list \<Rightarrow> nat list \<Rightarrow> nat option \<Rightarrow> nat \<Rightarrow> nat option" where
  "best_dispatcher ds [] best max_credits = best"
| "best_dispatcher ds (d # rest) best max_credits =
     (if canAccept (ds ! d) \<and> dp_unit_credits (ds ! d) > max_credits
      then best_dispatcher ds rest (Some d) (dp_unit_credits (ds ! d))
      else best_dispatcher ds rest best max_credits)"

text \<open>The scan of the LSU dispatchers: the first that accepts, and whether one before it refused.\<close>

fun first_dispatcher :: "Dispatcher list \<Rightarrow> nat list \<Rightarrow> bool \<Rightarrow> nat option \<times> bool" where
  "first_dispatcher ds [] blocked = (None, blocked)"
| "first_dispatcher ds (d # rest) blocked =
     (if canAccept (ds ! d) then (Some d, blocked) else first_dispatcher ds rest True)"

definition choose_dispatcher :: "TargetPipe \<Rightarrow> Dispatch \<Rightarrow> nat option \<times> Dispatch" where
  "choose_dispatcher target_pipe s =
     (if target_pipe \<noteq> TP_LSU
      then (best_dispatcher (ds_dispatchers s) (ds_pipe_map s target_pipe) None 0, s)
      else (case first_dispatcher (ds_dispatchers s) (ds_pipe_map s target_pipe) False of
              (d, blocked) \<Rightarrow> (d, if blocked then s\<lparr>ds_blocking_dispatcher := target_pipe\<rparr> else s)))"

definition dispatch_to ::
    "nat \<Rightarrow> TargetPipe \<Rightarrow> ptr \<Rightarrow> Dispatch \<times> heap \<Rightarrow> (Dispatch \<times> heap) result" where
  "dispatch_to d target_pipe p sh =
     (case sh of (s, h) \<Rightarrow>
        bindE (acceptInst (ds_dispatchers s ! d)) (\<lambda>dp.
        bindE (setStatus DISPATCHED (h p)) (\<lambda>(i, _).
          Inr (ds_emit (OutInst d p)
                 (s\<lparr>ds_dispatchers := (ds_dispatchers s)[d := dp],
                    ds_unit_distribution := (ds_unit_distribution s)(target_pipe :=
                       ds_unit_distribution s target_pipe + 1)\<rparr>),
               h(p := i)))))"

fun dispatch_loop ::
    "nat \<Rightarrow> Dispatch \<times> heap \<Rightarrow> ptr list \<Rightarrow> ((Dispatch \<times> heap) \<times> ptr list) result" where
  "dispatch_loop 0 sh insts = Inr (sh, insts)"
| "dispatch_loop (Suc k) sh insts =
     (case sh of (s, h) \<Rightarrow>
      case ds_queue s of
        [] \<Rightarrow> Inl (SpartaAssert ''access beyond the end of the queue'')
      | p # rest \<Rightarrow>
          (let target_pipe = getPipe (h p) in
           bindE (assertE (target_pipe \<noteq> TP_UNKNOWN)
                    ''Have an instruction that does not know where to go'') (\<lambda>_.
           bindE (assertE (ds_pipe_map s target_pipe \<noteq> [])
                    ''Pipe Target does not have any execution unit'') (\<lambda>_.
           case choose_dispatcher target_pipe s of
             (None, s1) \<Rightarrow> Inr ((s1\<lparr>ds_current_stall := PIPE_BUSY target_pipe\<rparr>, h), insts)
           | (Some d, s1) \<Rightarrow>
               bindE (dispatch_to d target_pipe p (s1, h)) (\<lambda>(s2, h2).
                 dispatch_loop k
                   (s2\<lparr>ds_queue := rest, ds_credits_rob := sub32 (ds_credits_rob s2) 1\<rparr>, h2)
                   (insts @ [p]))))))"

text \<open>Every dispatcher that some pipe lists gets its bandwidth back.\<close>

definition target_pipes :: "TargetPipe list" where
  "target_pipes = [TP_BR, TP_CMOV, TP_DIV, TP_FADDSUB, TP_FLOAT, TP_FMAC, TP_I2F, TP_F2I, TP_INT, TP_LSU,
     TP_MUL, TP_VINT, TP_VDIV, TP_VMUL, TP_VFIXED, TP_VMASK, TP_VMV, TP_V2S, TP_VFLOAT, TP_VFDIV, TP_VFMUL,
     TP_VPERMUTE, TP_VLOAD, TP_VSTORE, TP_VSET, TP_ROB, TP_SYS]"

definition reset_dispatchers :: "Dispatch \<Rightarrow> Dispatch" where
  "reset_dispatchers s =
     s\<lparr>ds_dispatchers := foldl (\<lambda>ds d. ds[d := Dispatcher_reset (ds ! d)]) (ds_dispatchers s)
          (concat (map (ds_pipe_map s) target_pipes))\<rparr>"

definition send_dispatched :: "ptr list \<Rightarrow> Dispatch \<Rightarrow> Dispatch" where
  "send_dispatched insts s =
     (if insts \<noteq> []
      then ds_emit (OutReorderWrite insts) (ds_emit (OutDispatchQueueCredits (length insts)) s) else s)"

definition dispatchInstructions ::
    "DispatchParameterSet \<Rightarrow> Dispatch \<times> heap \<Rightarrow> (Dispatch \<times> heap) result" where
  "dispatchInstructions pr sh =
     (let num_dispatch = min (ds_credits_rob (fst sh))
                           (min (length (ds_queue (fst sh))) (dsp_num_to_dispatch pr)) in
      if num_dispatch = 0 then Inr sh
      else
        bindE (dispatch_loop num_dispatch ((fst sh)\<lparr>ds_current_stall := DS_NOT_STALLED\<rparr>, snd sh) [])
          (\<lambda>((s1, h1), insts).
            let s2 = send_dispatched insts (reset_dispatchers s1)
            in Inr (if ds_credits_rob s2 > 0 \<and> length (ds_queue s2) > 0 \<and> ds_current_stall s2 = DS_NOT_STALLED
                    then ds_emit (EvDispatchInsts 1) s2 else s2, h1)))"

section \<open>Flush\<close>

definition ds_handleFlush :: "FlushingCriteria \<Rightarrow> Dispatch \<Rightarrow> Dispatch" where
  "ds_handleFlush c s =
     ds_emit CancelReorderWrite
       ((ds_emit (OutDispatchQueueCredits (length (ds_queue s))) s)\<lparr>ds_queue := []\<rparr>)"

end
