(* ===== verification/DispatchProps.thy ===== *)
theory DispatchProps
  imports DispatchUnit Credits
begin

text \<open>
  Properties of the dispatch unit: the choice of a dispatcher, what one dispatch session does, the
  dispatcher lists the constructor builds, and the credits the unit returns to rename.
\<close>

section \<open>Choosing a dispatcher\<close>

lemma best_dispatcher_spec:
  "(best_dispatcher ds dl b m = b \<and> (\<forall>e\<in>set dl. canAccept (ds ! e) \<longrightarrow> dp_unit_credits (ds ! e) \<le> m))
   \<or> (\<exists>d\<in>set dl. best_dispatcher ds dl b m = Some d \<and> canAccept (ds ! d) \<and> m < dp_unit_credits (ds ! d)
        \<and> (\<forall>e\<in>set dl. canAccept (ds ! e) \<longrightarrow> dp_unit_credits (ds ! e) \<le> dp_unit_credits (ds ! d)))"
proof (induction dl arbitrary: b m)
  case (Cons d dl)
  show ?case
  proof (cases "canAccept (ds ! d) \<and> m < dp_unit_credits (ds ! d)")
    case True
    with Cons.IH[of "Some d" "dp_unit_credits (ds ! d)"] show ?thesis by auto
  next
    case False
    with Cons.IH[of b m] show ?thesis by auto
  qed
qed simp

lemma best_dispatcher_None:
  assumes "best_dispatcher ds dl None 0 = None"
  shows "\<forall>e\<in>set dl. \<not> canAccept (ds ! e)"
  using best_dispatcher_spec[of ds dl None 0] assms by (auto simp: canAccept_def)

lemma best_dispatcher_Some:
  assumes "best_dispatcher ds dl None 0 = Some d"
  shows "d \<in> set dl \<and> canAccept (ds ! d)
    \<and> (\<forall>e\<in>set dl. canAccept (ds ! e) \<longrightarrow> dp_unit_credits (ds ! e) \<le> dp_unit_credits (ds ! d))"
  using best_dispatcher_spec[of ds dl None 0] assms by auto

lemma first_dispatcher_spec:
  "first_dispatcher ds dl b = (r, b') \<Longrightarrow>
     (case r of None \<Rightarrow> \<forall>e\<in>set dl. \<not> canAccept (ds ! e) | Some d \<Rightarrow> d \<in> set dl \<and> canAccept (ds ! d))"
proof (induction dl arbitrary: b)
  case (Cons d dl)
  show ?case
  proof (cases "canAccept (ds ! d)")
    case False
    with Cons.prems have "first_dispatcher ds dl True = (r, b')" by simp
    from Cons.IH[OF this] False show ?thesis by (auto split: option.splits)
  qed (use Cons.prems in auto)
qed auto

text \<open>Two dispatch states that differ at most in the blocking dispatcher.\<close>

definition same_but_blocking :: "Dispatch \<Rightarrow> Dispatch \<Rightarrow> bool" where
  "same_but_blocking s s' \<longleftrightarrow> s'\<lparr>ds_blocking_dispatcher := ds_blocking_dispatcher s\<rparr> = s"

lemma same_but_blocking_fields:
  assumes "same_but_blocking s s'"
  shows "ds_queue s' = ds_queue s" "ds_dispatchers s' = ds_dispatchers s" "ds_pipe_map s' = ds_pipe_map s"
    "ds_credits_rob s' = ds_credits_rob s" "ds_current_stall s' = ds_current_stall s" "ds_out s' = ds_out s"
  using assms unfolding same_but_blocking_def by (cases s; cases s'; simp)+

lemma choose_dispatcher_spec:
  "case choose_dispatcher tp s of (r, s1) \<Rightarrow> same_but_blocking s s1
     \<and> (case r of None \<Rightarrow> \<forall>e\<in>set (ds_pipe_map s tp). \<not> canAccept (ds_dispatchers s ! e)
        | Some d \<Rightarrow> d \<in> set (ds_pipe_map s tp) \<and> canAccept (ds_dispatchers s ! d))"
proof (cases "tp = TP_LSU")
  case True
  obtain r b where f: "first_dispatcher (ds_dispatchers s) (ds_pipe_map s tp) False = (r, b)" by fastforce
  from first_dispatcher_spec[OF f] True f show ?thesis
    by (auto simp: choose_dispatcher_def same_but_blocking_def)
next
  case False
  then show ?thesis
    using best_dispatcher_None[of "ds_dispatchers s" "ds_pipe_map s tp"]
      best_dispatcher_Some[of "ds_dispatchers s" "ds_pipe_map s tp"]
    by (auto simp: choose_dispatcher_def same_but_blocking_def split: option.splits)
qed

section \<open>A dispatch session\<close>

definition set_dispatched :: "heap \<Rightarrow> ptr list \<Rightarrow> heap" where
  "set_dispatched h g = (\<lambda>q. if q \<in> set g then (h q)\<lparr>i_status := DISPATCHED\<rparr> else h q)"

text \<open>Every instruction of the queue knows a pipe that has a dispatcher and has not been dispatched.\<close>

definition queue_ok :: "heap \<Rightarrow> Dispatch \<Rightarrow> bool" where
  "queue_ok h s \<longleftrightarrow> distinct (ds_queue s)
     \<and> (\<forall>tp. \<forall>d\<in>set (ds_pipe_map s tp). d < length (ds_dispatchers s))
     \<and> (\<forall>p\<in>set (ds_queue s). getPipe (h p) \<noteq> TP_UNKNOWN \<and> ds_pipe_map s (getPipe (h p)) \<noteq> []
          \<and> i_status (h p) < DISPATCHED)"

text \<open>The assignment \<open>asg\<close> of dispatchers to instructions leads from \<open>s\<close> to \<open>s'\<close>.\<close>

definition dispatched_by :: "heap \<Rightarrow> Dispatch \<Rightarrow> (nat \<times> ptr) list \<Rightarrow> Dispatch \<Rightarrow> bool" where
  "dispatched_by h s asg s' \<longleftrightarrow>
     ds_queue s = map snd asg @ ds_queue s'
   \<and> ds_pipe_map s' = ds_pipe_map s
   \<and> length (ds_dispatchers s') = length (ds_dispatchers s)
   \<and> ds_out s' = ds_out s @ map (\<lambda>(d, p). OutInst d p) asg
   \<and> (\<forall>(d, p)\<in>set asg. d \<in> set (ds_pipe_map s (getPipe (h p))))
   \<and> (\<forall>d<length (ds_dispatchers s).
        dp_unit_credits (ds_dispatchers s' ! d) + count_list (map fst asg) d = dp_unit_credits (ds_dispatchers s ! d)
      \<and> dp_num_can_dispatch (ds_dispatchers s' ! d) + count_list (map fst asg) d
          = dp_num_can_dispatch (ds_dispatchers s ! d))"

lemma dispatched_by_Nil: "same_but_blocking s s' \<Longrightarrow> dispatched_by h s [] (s'\<lparr>ds_current_stall := st\<rparr>)"
  by (simp add: dispatched_by_def same_but_blocking_fields)

lemma acceptInst_ok:
  "canAccept d \<Longrightarrow> acceptInst d
     = Inr (d\<lparr>dp_unit_credits := dp_unit_credits d - 1, dp_num_can_dispatch := dp_num_can_dispatch d - 1\<rparr>)"
  by (simp add: acceptInst_def canAccept_def)

lemma dispatch_one_ok:
  assumes "same_but_blocking s s1" and "ds_queue s = p # rest" and "canAccept (ds_dispatchers s ! d)"
    and "d \<in> set (ds_pipe_map s (getPipe (h p)))" and "d < length (ds_dispatchers s)" and "i_status (h p) < DISPATCHED"
  shows "\<exists>s2. dispatch_to d tp p (s1, h) = Inr (s2, set_dispatched h [p])
    \<and> dispatched_by h s [(d, p)] (s2\<lparr>ds_queue := rest, ds_credits_rob := c\<rparr>)
    \<and> ds_credits_rob s2 = ds_credits_rob s \<and> ds_current_stall s2 = ds_current_stall s"
proof -
  note f = same_but_blocking_fields[OF assms(1)]
  have st: "setStatus DISPATCHED (h p) = Inr ((h p)\<lparr>i_status := DISPATCHED\<rparr>, False)"
    using assms(6) by (auto simp: setStatus_def)
  have h: "h(p := (h p)\<lparr>i_status := DISPATCHED\<rparr>) = set_dispatched h [p]" by (auto simp: set_dispatched_def)
  show ?thesis
    using assms(2-5) by (auto simp: dispatch_to_def acceptInst_ok f st h dispatched_by_def ds_emit_def
        nth_list_update canAccept_def)
qed

lemma dispatched_by_Cons:
  assumes "dispatched_by h s [(d, p)] s1" and "dispatched_by h s1 asg s2"
  shows "dispatched_by h s ((d, p) # asg) s2"
  using assms unfolding dispatched_by_def by (auto simp: ac_simps)

lemma dispatched_by_heap:
  "\<forall>p. getPipe (h' p) = getPipe (h p) \<Longrightarrow> dispatched_by h' s asg s' = dispatched_by h s asg s'"
  by (simp add: dispatched_by_def)

lemma set_dispatched_simps [simp]:
  "getPipe (set_dispatched h g p) = getPipe (h p)"
  "set_dispatched (set_dispatched h g) g' = set_dispatched h (g @ g')"
  by (auto simp: set_dispatched_def getPipe_def)

lemma dispatched_by_set_dispatched [simp]:
  "dispatched_by (set_dispatched h g) s asg s' = dispatched_by h s asg s'"
  by (simp add: dispatched_by_heap)

lemma dispatch_loop_ok:
  assumes "queue_ok h s" and "k \<le> length (ds_queue s)" and "k \<le> ds_credits_rob s" and "ds_credits_rob s < 4294967296"
  shows "\<exists>s' asg. dispatch_loop k (s, h) insts = Inr ((s', set_dispatched h (map snd asg)), insts @ map snd asg)
    \<and> dispatched_by h s asg s' \<and> length asg \<le> k \<and> ds_credits_rob s' = ds_credits_rob s - length asg
    \<and> (length asg = k \<longrightarrow> ds_current_stall s' = ds_current_stall s)
    \<and> (length asg \<noteq> k \<longrightarrow> (\<exists>p rest. ds_queue s' = p # rest \<and> ds_current_stall s' = PIPE_BUSY (getPipe (h p))
              \<and> (\<forall>d\<in>set (ds_pipe_map s (getPipe (h p))). \<not> canAccept (ds_dispatchers s' ! d))))"
  using assms
proof (induction k arbitrary: s h insts)
  case 0
  have "dispatched_by h s [] s" by (simp add: dispatched_by_def)
  then show ?case by (intro exI[of _ s] exI[of _ "[]"]) (simp add: set_dispatched_def)
next
  case (Suc k)
  then obtain p rest where b: "ds_queue s = p # rest" by (cases "ds_queue s") auto
  have p: "getPipe (h p) \<noteq> TP_UNKNOWN" "ds_pipe_map s (getPipe (h p)) \<noteq> []" "i_status (h p) < DISPATCHED"
    using Suc.prems(1) b by (auto simp: queue_ok_def)
  obtain r s1 where c: "choose_dispatcher (getPipe (h p)) s = (r, s1)" by fastforce
  from choose_dispatcher_spec[where tp = "getPipe (h p)" and s = s] c have sb: "same_but_blocking s s1" by simp
  show ?case
  proof (cases r)
    case None
    let ?s = "s1\<lparr>ds_current_stall := PIPE_BUSY (getPipe (h p))\<rparr>"
    have "\<forall>e\<in>set (ds_pipe_map s (getPipe (h p))). \<not> canAccept (ds_dispatchers s ! e)"
      using choose_dispatcher_spec[where tp = "getPipe (h p)" and s = s] c None by simp
    moreover have "dispatch_loop (Suc k) (s, h) insts = Inr ((?s, h), insts)" using b p(1,2) c None by (simp add: Let_def)
    ultimately show ?thesis using b same_but_blocking_fields[OF sb] dispatched_by_Nil[OF sb]
      by (intro exI[of _ ?s] exI[of _ "[]"]) (auto simp: set_dispatched_def)
  next
    case (Some d)
    have d: "d \<in> set (ds_pipe_map s (getPipe (h p)))" "canAccept (ds_dispatchers s ! d)"
      using choose_dispatcher_spec[where tp = "getPipe (h p)" and s = s] c Some by simp_all
    then have dl: "d < length (ds_dispatchers s)" using Suc.prems(1) by (auto simp: queue_ok_def)
    let ?c = "ds_credits_rob s - 1"
    from dispatch_one_ok[where h = h and tp = "getPipe (h p)" and c = ?c, OF sb b d(2,1) dl p(3)] obtain s2 where s2:
      "dispatch_to d (getPipe (h p)) p (s1, h) = Inr (s2, set_dispatched h [p])"
      "dispatched_by h s [(d, p)] (s2\<lparr>ds_queue := rest, ds_credits_rob := ?c\<rparr>)"
      "ds_credits_rob s2 = ds_credits_rob s" "ds_current_stall s2 = ds_current_stall s" by blast
    define t where "t = s2\<lparr>ds_queue := rest, ds_credits_rob := ?c\<rparr>"
    have sub: "sub32 (ds_credits_rob s2) 1 = ?c" using Suc.prems(3,4) s2(3) by (simp add: sub32_exact)
    have l: "dispatch_loop (Suc k) (s, h) insts = dispatch_loop k (t, set_dispatched h [p]) (insts @ [p])"
      using b p(1,2) c Some s2(1) sub by (simp add: Let_def t_def)
    have t: "ds_queue t = rest" "ds_credits_rob t = ?c" "ds_pipe_map t = ds_pipe_map s"
      "length (ds_dispatchers t) = length (ds_dispatchers s)" "ds_current_stall t = ds_current_stall s"
      using s2(2,4) by (simp_all add: t_def dispatched_by_def)
    have ok: "queue_ok (set_dispatched h [p]) t"
      using Suc.prems(1) b t by (auto simp: queue_ok_def set_dispatched_def getPipe_def)
    have k: "k \<le> length (ds_queue t)" "k \<le> ds_credits_rob t" "ds_credits_rob t < 4294967296"
      using Suc.prems(2-4) b t by auto
    from Suc.IH[OF ok k, of "insts @ [p]"] obtain s' asg where i:
      "dispatch_loop k (t, set_dispatched h [p]) (insts @ [p])
         = Inr ((s', set_dispatched h (p # map snd asg)), (insts @ [p]) @ map snd asg)"
      "dispatched_by h t asg s'" "length asg \<le> k" "ds_credits_rob s' = ds_credits_rob t - length asg"
      "length asg = k \<longrightarrow> ds_current_stall s' = ds_current_stall t"
      "length asg \<noteq> k \<longrightarrow> (\<exists>q rest. ds_queue s' = q # rest \<and> ds_current_stall s' = PIPE_BUSY (getPipe (h q))
              \<and> (\<forall>d\<in>set (ds_pipe_map t (getPipe (h q))). \<not> canAccept (ds_dispatchers s' ! d)))"
      by auto
    have "dispatched_by h s ((d, p) # asg) s'"
      using dispatched_by_Cons[OF s2(2)[folded t_def] i(2)] .
    with i l t show ?thesis by (intro exI[of _ s'] exI[of _ "(d, p) # asg"]) auto
  qed
qed

lemma Dispatcher_reset_idem [simp]: "Dispatcher_reset (Dispatcher_reset d) = Dispatcher_reset d"
  by (simp add: Dispatcher_reset_def)

lemma reset_fold:
  "length (foldl (\<lambda>ds d. ds[d := Dispatcher_reset (ds ! d)]) ds ids) = length ds
   \<and> (\<forall>d<length ds. foldl (\<lambda>ds d. ds[d := Dispatcher_reset (ds ! d)]) ds ids ! d
        = (if d \<in> set ids then Dispatcher_reset (ds ! d) else ds ! d))"
proof (induction ids arbitrary: ds)
  case (Cons i ids)
  from Cons.IH[of "ds[i := Dispatcher_reset (ds ! i)]"] show ?case
    by (cases "i < length ds") (auto simp: nth_list_update list_update_beyond)
qed simp

lemma reset_dispatchers_simps [simp]:
  "ds_queue (reset_dispatchers s) = ds_queue s" "ds_pipe_map (reset_dispatchers s) = ds_pipe_map s"
  "ds_credits_rob (reset_dispatchers s) = ds_credits_rob s" "ds_out (reset_dispatchers s) = ds_out s"
  "ds_current_stall (reset_dispatchers s) = ds_current_stall s"
  "length (ds_dispatchers (reset_dispatchers s)) = length (ds_dispatchers s)"
  by (simp_all add: reset_dispatchers_def reset_fold)

lemma set_target_pipes: "set target_pipes = {tp. tp \<noteq> TP_UNKNOWN}"
proof -
  have "tp \<in> set target_pipes \<longleftrightarrow> tp \<noteq> TP_UNKNOWN" for tp by (cases tp) (simp_all add: target_pipes_def)
  then show ?thesis by auto
qed

lemma reset_dispatchers_nth:
  assumes "d < length (ds_dispatchers s)"
  shows "ds_dispatchers (reset_dispatchers s) ! d
    = (if \<exists>tp. tp \<noteq> TP_UNKNOWN \<and> d \<in> set (ds_pipe_map s tp) then Dispatcher_reset (ds_dispatchers s ! d)
       else ds_dispatchers s ! d)"
  using assms reset_fold[of "ds_dispatchers s" "concat (map (ds_pipe_map s) target_pipes)"]
  by (auto simp: reset_dispatchers_def set_target_pipes)

lemma send_dispatched_simps [simp]:
  "ds_queue (send_dispatched g s) = ds_queue s" "ds_pipe_map (send_dispatched g s) = ds_pipe_map s"
  "ds_credits_rob (send_dispatched g s) = ds_credits_rob s" "ds_dispatchers (send_dispatched g s) = ds_dispatchers s"
  "ds_current_stall (send_dispatched g s) = ds_current_stall s"
  "ds_out (send_dispatched g s) = ds_out s @
     (if g = [] then [] else [OutDispatchQueueCredits (length g), OutReorderWrite g])"
  by (simp_all add: send_dispatched_def ds_emit_def)

lemma ds_emit_simps [simp]:
  "ds_queue (ds_emit e s) = ds_queue s" "ds_pipe_map (ds_emit e s) = ds_pipe_map s"
  "ds_credits_rob (ds_emit e s) = ds_credits_rob s" "ds_dispatchers (ds_emit e s) = ds_dispatchers s"
  "ds_current_stall (ds_emit e s) = ds_current_stall s" "ds_out (ds_emit e s) = ds_out s @ [e]"
  by (simp_all add: ds_emit_def)

text \<open>Between sessions every dispatcher has its bandwidth of one.\<close>

definition bandwidth_ok :: "Dispatch \<Rightarrow> bool" where
  "bandwidth_ok s \<longleftrightarrow> (\<forall>d<length (ds_dispatchers s). dp_num_can_dispatch (ds_dispatchers s ! d) = 1)"

text \<open>What the log says.\<close>

definition ds_credits_sent :: "dispatch_event list \<Rightarrow> nat" where
  "ds_credits_sent es = (\<Sum>e\<leftarrow>es. case e of OutDispatchQueueCredits n \<Rightarrow> n | _ \<Rightarrow> 0)"

definition ds_to_rob :: "dispatch_event list \<Rightarrow> ptr list" where
  "ds_to_rob es = concat (map (\<lambda>e. case e of OutReorderWrite g \<Rightarrow> g | _ \<Rightarrow> []) es)"

lemma ds_log_simps [simp]:
  "ds_credits_sent (es @ fs) = ds_credits_sent es + ds_credits_sent fs"
  "ds_to_rob (es @ fs) = ds_to_rob es @ ds_to_rob fs"
  "ds_credits_sent [] = 0" "ds_to_rob [] = []"
  "ds_credits_sent (e # es) = (case e of OutDispatchQueueCredits n \<Rightarrow> n | _ \<Rightarrow> 0) + ds_credits_sent es"
  "ds_to_rob (e # es) = (case e of OutReorderWrite g \<Rightarrow> g | _ \<Rightarrow> []) @ ds_to_rob es"
  "ds_credits_sent (map (\<lambda>(d, p). OutInst d p) asg) = 0"
  "ds_to_rob (map (\<lambda>(d, p). OutInst d p) asg) = []"
  by (induction asg) (auto simp: ds_credits_sent_def ds_to_rob_def)

lemma count_list_le_1_distinct: "(\<And>x. count_list xs x \<le> 1) \<Longrightarrow> distinct xs"
proof (induction xs)
  case (Cons a xs)
  have "count_list xs x \<le> 1" for x using Cons.prems[of x] by (simp split: if_splits)
  moreover have "a \<notin> set xs" using Cons.prems[of a] count_list_pos_iff[of xs a] by simp
  ultimately show ?case using Cons.IH by simp
qed simp

text \<open>With a bandwidth of one, an assignment uses a dispatcher at most once.\<close>

lemma asg_valid:
  assumes "queue_ok h s" and "dispatched_by h s asg s1" and "(d, p) \<in> set asg"
  shows "d < length (ds_dispatchers s)" "getPipe (h p) \<noteq> TP_UNKNOWN" "d \<in> set (ds_pipe_map s (getPipe (h p)))"
proof -
  show d: "d \<in> set (ds_pipe_map s (getPipe (h p)))" using assms(2,3) by (auto simp: dispatched_by_def)
  then show "d < length (ds_dispatchers s)" using assms(1) by (auto simp: queue_ok_def)
  have "p \<in> set (ds_queue s)" using assms(2,3) by (force simp: dispatched_by_def)
  then show "getPipe (h p) \<noteq> TP_UNKNOWN" using assms(1) by (auto simp: queue_ok_def)
qed

lemma asg_counts:
  assumes "queue_ok h s" and "bandwidth_ok s" and "dispatched_by h s asg s1"
  shows "distinct (map fst asg)"
    and "d < length (ds_dispatchers s) \<Longrightarrow>
      dp_unit_credits (ds_dispatchers s1 ! d) = dp_unit_credits (ds_dispatchers s ! d) - (if d \<in> set (map fst asg) then 1 else 0)
      \<and> (d \<in> set (map fst asg) \<longrightarrow> dp_unit_credits (ds_dispatchers s ! d) > 0)
      \<and> dp_num_can_dispatch (ds_dispatchers s1 ! d) = (if d \<in> set (map fst asg) then 0 else 1)"
proof -
  have d: "dp_unit_credits (ds_dispatchers s1 ! d) + count_list (map fst asg) d = dp_unit_credits (ds_dispatchers s ! d)
      \<and> dp_num_can_dispatch (ds_dispatchers s1 ! d) + count_list (map fst asg) d = 1"
    if "d < length (ds_dispatchers s)" for d
    using assms(2,3) that by (auto simp: dispatched_by_def bandwidth_ok_def)
  have "count_list (map fst asg) d \<le> 1" for d
  proof (cases "d \<in> set (map fst asg)")
    case True
    then have "d < length (ds_dispatchers s)" using asg_valid[OF assms(1,3)] by auto
    from d[OF this] show ?thesis by linarith
  qed simp
  then show dist: "distinct (map fst asg)" by (rule count_list_le_1_distinct)
  show "dp_unit_credits (ds_dispatchers s1 ! d) = dp_unit_credits (ds_dispatchers s ! d) - (if d \<in> set (map fst asg) then 1 else 0)
      \<and> (d \<in> set (map fst asg) \<longrightarrow> dp_unit_credits (ds_dispatchers s ! d) > 0)
      \<and> dp_num_can_dispatch (ds_dispatchers s1 ! d) = (if d \<in> set (map fst asg) then 0 else 1)"
    if "d < length (ds_dispatchers s)"
    using d[OF that] count_list_distinct[OF dist, of d] by (auto split: if_splits)
qed

lemma reset_bandwidth_ok:
  assumes "queue_ok h s" and "bandwidth_ok s" and "dispatched_by h s asg s1"
  shows "bandwidth_ok (reset_dispatchers s1)"
  unfolding bandwidth_ok_def
proof (intro allI impI)
  have s1: "ds_pipe_map s1 = ds_pipe_map s" "length (ds_dispatchers s1) = length (ds_dispatchers s)"
    using assms(3) by (simp_all add: dispatched_by_def)
  fix d assume "d < length (ds_dispatchers (reset_dispatchers s1))"
  then have dl: "d < length (ds_dispatchers s)" by (simp add: s1)
  show "dp_num_can_dispatch (ds_dispatchers (reset_dispatchers s1) ! d) = 1"
  proof (cases "\<exists>tp. tp \<noteq> TP_UNKNOWN \<and> d \<in> set (ds_pipe_map s tp)")
    case True
    with dl show ?thesis by (simp add: reset_dispatchers_nth s1 Dispatcher_reset_def)
  next
    case False
    then have "d \<notin> set (map fst asg)" using asg_valid(2,3)[OF assms(1,3)] by fastforce
    with False dl asg_counts(2)[OF assms dl] show ?thesis by (auto simp: reset_dispatchers_nth s1)
  qed
qed

text \<open>What a session does, for the assignment it makes and its bound \<open>n\<close>.\<close>

definition session_result :: "heap \<Rightarrow> nat \<Rightarrow> Dispatch \<Rightarrow> (nat \<times> ptr) list \<Rightarrow> Dispatch \<Rightarrow> bool" where
  "session_result h n s asg s' \<longleftrightarrow>
     ds_queue s = map snd asg @ ds_queue s' \<and> length asg \<le> n
   \<and> ds_pipe_map s' = ds_pipe_map s \<and> length (ds_dispatchers s') = length (ds_dispatchers s)
   \<and> distinct (map fst asg)
   \<and> (\<forall>(d, p)\<in>set asg. d \<in> set (ds_pipe_map s (getPipe (h p))) \<and> OutInst d p \<in> set (ds_out s'))
   \<and> (\<forall>d<length (ds_dispatchers s). dp_unit_credits (ds_dispatchers s' ! d)
        = dp_unit_credits (ds_dispatchers s ! d) - (if d \<in> set (map fst asg) then 1 else 0)
        \<and> (d \<in> set (map fst asg) \<longrightarrow> dp_unit_credits (ds_dispatchers s ! d) > 0))
   \<and> bandwidth_ok s' \<and> ds_credits_rob s' = ds_credits_rob s - length asg
   \<and> ds_to_rob (ds_out s') = ds_to_rob (ds_out s) @ map snd asg
   \<and> ds_credits_sent (ds_out s') = ds_credits_sent (ds_out s) + length asg
   \<and> (length asg < n \<longrightarrow> (\<exists>p rest. ds_queue s' = p # rest \<and> ds_current_stall s' = PIPE_BUSY (getPipe (h p))
        \<and> (\<forall>d\<in>set (ds_pipe_map s (getPipe (h p))). d \<in> set (map fst asg)
             \<or> dp_unit_credits (ds_dispatchers s ! d) = 0)))"

lemma session_resultI:
  assumes "queue_ok h s" and "bandwidth_ok s" and "dispatched_by h s asg s1" and "length asg \<le> n"
    and "ds_credits_rob s1 = ds_credits_rob s - length asg"
    and "length asg \<noteq> n \<longrightarrow> (\<exists>p rest. ds_queue s1 = p # rest \<and> ds_current_stall s1 = PIPE_BUSY (getPipe (h p))
         \<and> (\<forall>d\<in>set (ds_pipe_map s (getPipe (h p))). \<not> canAccept (ds_dispatchers s1 ! d)))"
    and "s2 = send_dispatched (map snd asg) (reset_dispatchers s1)"
    and "s' = (if b then ds_emit (EvDispatchInsts 1) s2 else s2)"
  shows "session_result h n s asg s'"
proof -
  note c = asg_counts[OF assms(1-3)]
  have f: "ds_queue s' = ds_queue s1" "ds_pipe_map s' = ds_pipe_map s1"
    "ds_dispatchers s' = ds_dispatchers (reset_dispatchers s1)"
    "ds_credits_rob s' = ds_credits_rob s1" "ds_current_stall s' = ds_current_stall s1"
    "ds_to_rob (ds_out s') = ds_to_rob (ds_out s1) @ map snd asg"
    "ds_credits_sent (ds_out s') = ds_credits_sent (ds_out s1) + length asg"
    "set (ds_out s1) \<subseteq> set (ds_out s')"
    by (auto simp: assms(7,8))
  have d: "ds_queue s = map snd asg @ ds_queue s1" "ds_pipe_map s1 = ds_pipe_map s"
    "length (ds_dispatchers s1) = length (ds_dispatchers s)"
    "ds_out s1 = ds_out s @ map (\<lambda>(d, p). OutInst d p) asg"
    using assms(3) by (auto simp: dispatched_by_def)
  have u: "dp_unit_credits (ds_dispatchers s' ! d) = dp_unit_credits (ds_dispatchers s1 ! d)"
    if "d < length (ds_dispatchers s)" for d
    using that by (simp add: f(3) reset_dispatchers_nth d(3) Dispatcher_reset_def)
  have stall: "\<exists>p rest. ds_queue s' = p # rest \<and> ds_current_stall s' = PIPE_BUSY (getPipe (h p))
      \<and> (\<forall>d\<in>set (ds_pipe_map s (getPipe (h p))). d \<in> set (map fst asg) \<or> dp_unit_credits (ds_dispatchers s ! d) = 0)"
    if "length asg < n"
  proof -
    from assms(6) that obtain p rest where p: "ds_queue s1 = p # rest" "ds_current_stall s1 = PIPE_BUSY (getPipe (h p))"
      "\<forall>d\<in>set (ds_pipe_map s (getPipe (h p))). \<not> canAccept (ds_dispatchers s1 ! d)" by auto
    have "d \<in> set (map fst asg) \<or> dp_unit_credits (ds_dispatchers s ! d) = 0"
      if "d \<in> set (ds_pipe_map s (getPipe (h p)))" for d
    proof -
      have "d < length (ds_dispatchers s)" using that assms(1) by (auto simp: queue_ok_def)
      from c(2)[OF this] p(3) that show ?thesis by (force simp: canAccept_def split: if_splits)
    qed
    with p f show ?thesis by auto
  qed
  have o: "\<forall>(d, p)\<in>set asg. d \<in> set (ds_pipe_map s (getPipe (h p))) \<and> OutInst d p \<in> set (ds_out s')"
    using asg_valid(3)[OF assms(1,3)] f(8) by (force simp: d(4))
  have b: "bandwidth_ok s'" using reset_bandwidth_ok[OF assms(1-3)] f(3) by (simp add: bandwidth_ok_def)
  show ?thesis unfolding session_result_def
    using c u o b stall f d assms(4,5) by (simp add: f)
qed

lemma dispatchInstructions_ok:
  assumes "queue_ok h s" and "bandwidth_ok s" and "ds_credits_rob s < 4294967296"
    and n: "n = min (ds_credits_rob s) (min (length (ds_queue s)) (dsp_num_to_dispatch pr))"
  shows "\<exists>s' asg. dispatchInstructions pr (s, h) = Inr (s', set_dispatched h (map snd asg))
    \<and> session_result h n s asg s'"
proof (cases "n = 0")
  case True
  then have "dispatchInstructions pr (s, h) = Inr (s, h)" by (simp add: dispatchInstructions_def n)
  with True assms(2) show ?thesis
    by (intro exI[of _ s] exI[of _ "[]"]) (simp add: set_dispatched_def session_result_def)
next
  case False
  define t where "t = s\<lparr>ds_current_stall := DS_NOT_STALLED\<rparr>"
  have t: "queue_ok h t" "n \<le> length (ds_queue t)" "n \<le> ds_credits_rob t" "ds_credits_rob t < 4294967296"
    "bandwidth_ok t"
    using assms by (simp_all add: t_def queue_ok_def bandwidth_ok_def)
  from dispatch_loop_ok[OF t(1-4), of "[]"] obtain s1 asg where l:
    "dispatch_loop n (t, h) [] = Inr ((s1, set_dispatched h (map snd asg)), map snd asg)"
    "dispatched_by h t asg s1" "length asg \<le> n" "ds_credits_rob s1 = ds_credits_rob t - length asg"
    "length asg \<noteq> n \<longrightarrow> (\<exists>p rest. ds_queue s1 = p # rest \<and> ds_current_stall s1 = PIPE_BUSY (getPipe (h p))
       \<and> (\<forall>d\<in>set (ds_pipe_map t (getPipe (h p))). \<not> canAccept (ds_dispatchers s1 ! d)))" by auto
  define s2 where "s2 = send_dispatched (map snd asg) (reset_dispatchers s1)"
  define s' where "s' = (if ds_credits_rob s2 > 0 \<and> length (ds_queue s2) > 0 \<and> ds_current_stall s2 = DS_NOT_STALLED
                  then ds_emit (EvDispatchInsts 1) s2 else s2)"
  have "dispatchInstructions pr (s, h) = Inr (s', set_dispatched h (map snd asg))"
    unfolding dispatchInstructions_def fst_conv snd_conv n[symmetric] t_def[symmetric] s'_def s2_def Let_def
    using False l(1) by simp
  moreover have "session_result h n t asg s'"
    using session_resultI[OF t(1,5) l(2-5) s2_def s'_def] .
  ultimately show ?thesis
    by (intro exI[of _ s'] exI[of _ asg]) (simp add: session_result_def t_def)
qed

section \<open>The dispatcher lists\<close>

definition names_pipe :: "string list \<Rightarrow> TargetPipe \<Rightarrow> bool" where
  "names_pipe names tp \<longleftrightarrow> (\<exists>nm\<in>set names. map_of execution_pipe_map nm = Some tp)"

definition iq_units :: "nat list \<Rightarrow> nat list" where
  "iq_units iq = (case iq of [] \<Rightarrow> [] | a # r \<Rightarrow> [a ..< (case r of [] \<Rightarrow> a | e # _ \<Rightarrow> e) + 1])"

text \<open>The execution units of an issue queue support a pipe.\<close>

definition iq_serves :: "string list list \<Rightarrow> nat list \<Rightarrow> TargetPipe \<Rightarrow> bool" where
  "iq_serves pipelines iq tp \<longleftrightarrow> (\<exists>u\<in>set (iq_units iq). names_pipe (pipelines ! u) tp)"

lemma map_target_spec:
  assumes "map_target d pm nm = Inr pm'"
  shows "set (pm' tp) = set (pm tp) \<union> (if map_of execution_pipe_map nm = Some tp then {d} else {})
    \<and> (distinct (pm tp) \<longrightarrow> distinct (pm' tp))"
  using assms by (auto simp: map_target_def split: option.splits if_splits)

lemma foldE_map_target:
  "foldE (map_target d) pm names = Inr pm' \<Longrightarrow>
     set (pm' tp) = set (pm tp) \<union> (if names_pipe names tp then {d} else {})
     \<and> (distinct (pm tp) \<longrightarrow> distinct (pm' tp))"
proof (induction names arbitrary: pm)
  case (Cons nm names)
  then obtain pm1 where 1: "map_target d pm nm = Inr pm1" "foldE (map_target d) pm1 names = Inr pm'"
    by (auto simp: bindE_eq_Inr)
  from map_target_spec[OF 1(1), of tp] Cons.IH[OF 1(2)] show ?case by (auto simp: names_pipe_def)
qed (simp add: names_pipe_def)

lemma foldE_map_unit:
  "foldE (map_unit pipelines d) pm us = Inr pm' \<Longrightarrow>
     set (pm' tp) = set (pm tp) \<union> (if \<exists>u\<in>set us. names_pipe (pipelines ! u) tp then {d} else {})
     \<and> (distinct (pm tp) \<longrightarrow> distinct (pm' tp))"
proof (induction us arbitrary: pm)
  case (Cons u us)
  from Cons.prems obtain pm1 where 0: "map_unit pipelines d pm u = Inr pm1"
    and 1: "foldE (map_unit pipelines d) pm1 us = Inr pm'"
    by (auto simp: bindE_eq_Inr)
  have 2: "foldE (map_target d) pm (pipelines ! u) = Inr pm1"
    using 0 by (simp add: map_unit_def split: if_splits)
  from foldE_map_target[OF 2, of tp] Cons.IH[OF 1] show ?case by auto
qed simp

text \<open>The state of the constructor after some issue queues.\<close>

definition built :: "string list list \<Rightarrow> nat list list \<Rightarrow> Dispatch \<Rightarrow> bool" where
  "built pipelines iqs s \<longleftrightarrow> length (ds_dispatchers s) = length iqs
     \<and> (\<forall>d<length iqs. dp_unit_credits (ds_dispatchers s ! d) = 0 \<and> dp_num_can_dispatch (ds_dispatchers s ! d) = 1)
     \<and> (\<forall>tp. distinct (ds_pipe_map s tp) \<and> set (ds_pipe_map s tp) = {d. d < length iqs \<and> iq_serves pipelines (iqs ! d) tp})
     \<and> ds_queue s = [] \<and> ds_credits_rob s = 0 \<and> ds_out s = []"

lemma add_issue_queue_built:
  assumes "add_issue_queue pipelines rn s iq = Inr s'" and "built pipelines iqs s"
  shows "built pipelines (iqs @ [iq]) s'"
proof -
  from assms(1) obtain pm nm where a: "foldE (map_unit pipelines (length (ds_dispatchers s))) (ds_pipe_map s) (iq_units iq) = Inr pm"
    "s' = s\<lparr>ds_dispatchers := ds_dispatchers s @ [mk_Dispatcher nm], ds_pipe_map := pm\<rparr>"
    by (cases iq) (auto simp: add_issue_queue_def Let_def bindE_eq_Inr iq_units_def simp del: upt_Suc)
  have "distinct (pm tp) \<and> set (pm tp) = {d. d < length (iqs @ [iq]) \<and> iq_serves pipelines ((iqs @ [iq]) ! d) tp}" for tp
    using foldE_map_unit[OF a(1), of tp] assms(2)
    by (auto simp: built_def iq_serves_def nth_append less_Suc_eq split: if_splits)
  then show ?thesis using assms(2) a(2)
    by (auto simp: built_def nth_append mk_Dispatcher_def less_Suc_eq)
qed

lemma foldE_add_issue_queue:
  "foldE (add_issue_queue pipelines rn) s qs = Inr s' \<Longrightarrow> built pipelines iqs s \<Longrightarrow> built pipelines (iqs @ qs) s'"
proof (induction qs arbitrary: s iqs)
  case (Cons iq qs)
  then obtain s1 where "add_issue_queue pipelines rn s iq = Inr s1" "foldE (add_issue_queue pipelines rn) s1 qs = Inr s'"
    by (auto simp: bindE_eq_Inr)
  with Cons.IH[of s1 "iqs @ [iq]"] add_issue_queue_built Cons.prems(2) show ?case by fastforce
qed simp

lemma mk_Dispatch_spec:
  assumes "mk_Dispatch pipelines iqs rn = Inr s"
  shows "length (ds_dispatchers s) = length iqs + 1 \<and> bandwidth_ok s \<and> ds_queue s = [] \<and> ds_credits_rob s = 0
    \<and> ds_out s = [] \<and> (\<forall>d<length (ds_dispatchers s). dp_unit_credits (ds_dispatchers s ! d) = 0)
    \<and> (\<forall>tp. distinct (ds_pipe_map s tp) \<and>
         set (ds_pipe_map s tp) = {d. d < length iqs \<and> iq_serves pipelines (iqs ! d) tp}
            \<union> (if tp = TP_LSU then {length iqs} else {}))"
proof -
  define s0 where "s0 = \<lparr>ds_queue = [], ds_dispatchers = [], ds_pipe_map = (\<lambda>_. []),
               ds_blocking_dispatcher = TP_UNKNOWN, ds_credits_rob = 0,
               ds_current_stall = DS_NOT_STALLED, ds_unit_distribution = (\<lambda>_. 0), ds_out = []\<rparr>"
  from assms obtain s1 where a: "foldE (add_issue_queue pipelines rn) s0 iqs = Inr s1"
    "s = s1\<lparr>ds_dispatchers := ds_dispatchers s1 @ [mk_Dispatcher ''lsu''],
              ds_pipe_map := (ds_pipe_map s1)(TP_LSU := ds_pipe_map s1 TP_LSU @ [length (ds_dispatchers s1)]),
              ds_blocking_dispatcher := TP_INT\<rparr>"
    unfolding mk_Dispatch_def s0_def[symmetric] by (auto simp: bindE_eq_Inr Let_def)
  have "built pipelines [] s0" by (simp add: built_def s0_def)
  from foldE_add_issue_queue[OF a(1) this] have "built pipelines iqs s1" by simp
  then show ?thesis unfolding a(2) built_def bandwidth_ok_def
    by (auto simp: nth_append mk_Dispatcher_def less_Suc_eq)
qed

section \<open>Sequences of handlers\<close>

text \<open>
  A step is a successful call of a handler or a change of the instructions by other units. The ghost
  components count the instructions received from rename (\<open>n\<close>) and the credits received from the
  reorder buffer (\<open>r\<close>, below the width of the counter).
\<close>

inductive ds_step :: "DispatchParameterSet \<Rightarrow> Dispatch \<times> heap \<times> nat \<times> nat \<Rightarrow> Dispatch \<times> heap \<times> nat \<times> nat \<Rightarrow> bool"
  for pr :: DispatchParameterSet where
  ds_append: "dispatchQueueAppended pr grp s = Inr s' \<Longrightarrow> ds_step pr (s, h, n, r) (s', h, n + length grp, r)"
| ds_unit_credits: "d < length (ds_dispatchers s) \<Longrightarrow> ds_step pr (s, h, n, r) (receiveCredits d c s, h, n, r)"
| ds_rob_credits: "r + c < 4294967296 \<Longrightarrow> ds_step pr (s, h, n, r) (robCredits c s, h, n, r + c)"
| ds_session: "dispatchInstructions pr (s, h) = Inr (s', h') \<Longrightarrow> ds_step pr (s, h, n, r) (s', h', n, r)"
| ds_flush: "ds_step pr (s, h, n, r) (ds_handleFlush c s, h, n, r)"
| ds_env: "ds_step pr (s, h, n, r) (s, h', n, r)"

inductive ds_reachable :: "DispatchParameterSet \<Rightarrow> Dispatch \<times> heap \<times> nat \<times> nat \<Rightarrow> bool" for pr where
  ds_init: "mk_Dispatch pipelines iqs rn = Inr s \<Longrightarrow> ds_reachable pr (ds_sendInitialCredits pr s, h, 0, 0)"
| ds_next: "ds_reachable pr x \<Longrightarrow> ds_step pr x y \<Longrightarrow> ds_reachable pr y"

definition ds_inv :: "DispatchParameterSet \<Rightarrow> Dispatch \<times> heap \<times> nat \<times> nat \<Rightarrow> bool" where
  "ds_inv pr x \<longleftrightarrow> (case x of (s, h, n, r) \<Rightarrow>
     ds_credits_sent (ds_out s) + length (ds_queue s) = dsp_dispatch_queue_depth pr + n
   \<and> ds_credits_rob s + length (ds_to_rob (ds_out s)) = r \<and> r < 4294967296)"

lemma scheduleDispatchSession_simps [simp]:
  "ds_queue (scheduleDispatchSession s) = ds_queue s"
  "ds_credits_rob (scheduleDispatchSession s) = ds_credits_rob s"
  "ds_credits_sent (ds_out (scheduleDispatchSession s)) = ds_credits_sent (ds_out s)"
  "ds_to_rob (ds_out (scheduleDispatchSession s)) = ds_to_rob (ds_out s)"
  by (simp_all add: scheduleDispatchSession_def)

interpretation ds_fifo: bounded_queue dsp_dispatch_queue_depth ds_queue "\<lambda>xs s. s\<lparr>ds_queue := xs\<rparr>" ds_push
  by unfold_locales (auto simp: ds_push_def)

lemma dispatch_loop_partial:
  assumes "dispatch_loop k (s, h) insts = Inr ((s', h'), insts')" and "k \<le> ds_credits_rob s"
    and "ds_credits_rob s < 4294967296"
  shows "\<exists>g. insts' = insts @ g \<and> ds_queue s = g @ ds_queue s' \<and> ds_credits_rob s' + length g = ds_credits_rob s
    \<and> ds_credits_sent (ds_out s') = ds_credits_sent (ds_out s) \<and> ds_to_rob (ds_out s') = ds_to_rob (ds_out s)"
  using assms
proof (induction k arbitrary: s h insts)
  case (Suc k)
  then obtain p rest where b: "ds_queue s = p # rest" by (cases "ds_queue s") auto
  obtain r s1 where c: "choose_dispatcher (getPipe (h p)) s = (r, s1)" by fastforce
  from choose_dispatcher_spec[where tp = "getPipe (h p)" and s = s] c have sb: "same_but_blocking s s1" by simp
  note f = same_but_blocking_fields[OF sb]
  show ?case
  proof (cases r)
    case None
    with Suc.prems(1) b c have "s' = s1\<lparr>ds_current_stall := PIPE_BUSY (getPipe (h p))\<rparr>" "insts' = insts"
      by (auto simp: Let_def)
    with f show ?thesis by simp
  next
    case (Some d)
    with Suc.prems(1) b c obtain s2 h2 where d: "dispatch_to d (getPipe (h p)) p (s1, h) = Inr (s2, h2)"
      "dispatch_loop k (s2\<lparr>ds_queue := rest, ds_credits_rob := sub32 (ds_credits_rob s2) 1\<rparr>, h2) (insts @ [p])
         = Inr ((s', h'), insts')" by (auto simp: Let_def bindE_eq_Inr)
    from d(1) have s2: "ds_credits_rob s2 = ds_credits_rob s" "ds_out s2 = ds_out s @ [OutInst d p]"
      by (auto simp: dispatch_to_def bindE_eq_Inr f)
    have sub: "sub32 (ds_credits_rob s2) 1 = ds_credits_rob s - 1"
      using Suc.prems(2,3) s2(1) by (simp add: sub32_exact)
    have k: "k \<le> ds_credits_rob (s2\<lparr>ds_queue := rest, ds_credits_rob := sub32 (ds_credits_rob s2) 1\<rparr>)"
      "ds_credits_rob (s2\<lparr>ds_queue := rest, ds_credits_rob := sub32 (ds_credits_rob s2) 1\<rparr>) < 4294967296"
      using sub Suc.prems(2,3) by simp_all
    from Suc.IH[OF d(2) k] obtain g where "insts' = (insts @ [p]) @ g" "rest = g @ ds_queue s'"
      "ds_credits_rob s' + length g = ds_credits_rob s - 1"
      "ds_credits_sent (ds_out s') = ds_credits_sent (ds_out s2)" "ds_to_rob (ds_out s') = ds_to_rob (ds_out s2)"
      by (auto simp: sub[simplified])
    then show ?thesis using b s2 Suc.prems(2) by (intro exI[of _ "p # g"]) simp
  qed
qed simp

lemma dispatchInstructions_partial:
  assumes "dispatchInstructions pr (s, h) = Inr (s', h')" and "ds_credits_rob s < 4294967296"
  shows "\<exists>g. ds_queue s = g @ ds_queue s' \<and> ds_credits_rob s' + length g = ds_credits_rob s
    \<and> ds_credits_sent (ds_out s') = ds_credits_sent (ds_out s) + length g
    \<and> ds_to_rob (ds_out s') = ds_to_rob (ds_out s) @ g"
proof (cases "min (ds_credits_rob s) (min (length (ds_queue s)) (dsp_num_to_dispatch pr)) = 0")
  case True
  with assms(1) show ?thesis by (simp add: dispatchInstructions_def)
next
  case False
  let ?k = "min (ds_credits_rob s) (min (length (ds_queue s)) (dsp_num_to_dispatch pr))"
  from assms(1) False obtain s1 insts where l: "dispatch_loop ?k (s\<lparr>ds_current_stall := DS_NOT_STALLED\<rparr>, h) [] = Inr ((s1, h'), insts)"
    and s': "s' = (let s2 = send_dispatched insts (reset_dispatchers s1) in
        if ds_credits_rob s2 > 0 \<and> length (ds_queue s2) > 0 \<and> ds_current_stall s2 = DS_NOT_STALLED
        then ds_emit (EvDispatchInsts 1) s2 else s2)"
    by (auto simp: dispatchInstructions_def bindE_eq_Inr Let_def)
  from dispatch_loop_partial[OF l] assms(2) obtain g where "insts = g" "ds_queue s = g @ ds_queue s1"
    "ds_credits_rob s1 + length g = ds_credits_rob s" "ds_credits_sent (ds_out s1) = ds_credits_sent (ds_out s)"
    "ds_to_rob (ds_out s1) = ds_to_rob (ds_out s)" by auto
  with s' show ?thesis by (intro exI[of _ g]) (simp add: Let_def)
qed

lemma ds_step_inv:
  assumes "ds_step pr x y" and "ds_inv pr x"
  shows "ds_inv pr y"
  using assms
proof (cases rule: ds_step.cases)
  case (ds_append grp s s' h n r)
  then show ?thesis using assms(2) by (auto simp: dispatchQueueAppended_def bindE_eq_Inr ds_fifo.push_all ds_inv_def)
next
  case (ds_unit_credits d s h n r c)
  then show ?thesis using assms(2) by (simp add: receiveCredits_def ds_inv_def)
next
  case (ds_rob_credits r c s h n)
  then show ?thesis using assms(2) by (simp add: robCredits_def ds_inv_def add32_exact)
next
  case (ds_session s h s' h' n r)
  then have "ds_credits_rob s < 4294967296" using assms(2) by (simp add: ds_inv_def)
  from dispatchInstructions_partial[OF ds_session(3) this] show ?thesis
    using assms(2) ds_session(1,2) by (auto simp: ds_inv_def)
next
  case (ds_flush s h n r c)
  then show ?thesis using assms(2) by (simp add: ds_handleFlush_def ds_inv_def)
next
  case (ds_env s h n r h')
  then show ?thesis using assms(2) by (simp add: ds_inv_def)
qed

lemma ds_reachable_inv: "ds_reachable pr x \<Longrightarrow> ds_inv pr x"
proof (induction rule: ds_reachable.induct)
  case (ds_init pipelines iqs rn s h)
  from mk_Dispatch_spec[OF ds_init] show ?case by (simp add: ds_inv_def ds_sendInitialCredits_def)
next
  case (ds_next x y)
  then show ?case using ds_step_inv by blast
qed

interpretation ds_credits: exact_credit_interface ds_reachable dsp_dispatch_queue_depth
  "\<lambda>x. ds_credits_sent (ds_out (fst x))" "\<lambda>x. length (ds_queue (fst x))" "\<lambda>x. fst (snd (snd x))"
proof
  fix pr and x :: "Dispatch \<times> heap \<times> nat \<times> nat"
  assume "ds_reachable pr x"
  from ds_reachable_inv[OF this]
  show "ds_credits_sent (ds_out (fst x)) + length (ds_queue (fst x)) = dsp_dispatch_queue_depth pr + fst (snd (snd x))"
    by (auto simp: ds_inv_def split: prod.splits)
qed

section \<open>A sample unit\<close>

definition ex_pipelines :: "string list list" where
  "ex_pipelines = [[''int''], [''int'', ''div''], [''int'', ''mul'']]"

definition ex_ds_params :: DispatchParameterSet where
  "ex_ds_params = \<lparr>dsp_num_to_dispatch = 3, dsp_dispatch_queue_depth = 10\<rparr>"

definition ex_ds :: Dispatch where
  "ex_ds = \<lparr>ds_queue = [1, 2, 3],
     ds_dispatchers = [\<lparr>dp_name = ''iq0'', dp_unit_credits = 2, dp_num_can_dispatch = 1\<rparr>,
                       \<lparr>dp_name = ''iq1'', dp_unit_credits = 3, dp_num_can_dispatch = 1\<rparr>],
     ds_pipe_map = (\<lambda>tp. if tp = TP_INT then [0, 1] else []),
     ds_blocking_dispatcher = TP_UNKNOWN, ds_credits_rob = 5, ds_current_stall = DS_NOT_STALLED,
     ds_unit_distribution = (\<lambda>_. 0), ds_out = []\<rparr>"

definition ex_ds_heap :: heap where
  "ex_ds_heap = (\<lambda>p. sample_Inst TP_INT p [] [])"

lemma ex_ds_ok: "queue_ok ex_ds_heap ex_ds" "bandwidth_ok ex_ds" "ds_credits_rob ex_ds < 4294967296"
  by (auto simp: queue_ok_def bandwidth_ok_def ex_ds_def ex_ds_heap_def getPipe_def sample_Inst_def
      less_Status_def less_Suc_eq)

lemma ex_mk_Dispatch: "\<exists>s. mk_Dispatch ex_pipelines [[0], [1, 2]] [] = Inr s"
  by (simp add: mk_Dispatch_def add_issue_queue_def issue_queue_name_def map_unit_def map_target_def
      ex_pipelines_def execution_pipe_map_def Let_def eval_nat_numeral)

lemma ex_ds_reachable: "\<exists>s. ds_reachable ex_ds_params (s, ex_ds_heap, 0, 4) \<and> ds_credits_sent (ds_out s) = 10"
proof -
  from ex_mk_Dispatch obtain s where s: "mk_Dispatch ex_pipelines [[0], [1, 2]] [] = Inr s" by blast
  have o: "ds_out s = []" using mk_Dispatch_spec[OF s] by blast
  let ?s = "ds_sendInitialCredits ex_ds_params s"
  have "ds_reachable ex_ds_params (robCredits 4 ?s, ex_ds_heap, 0, 0 + 4)"
    by (rule ds_next[OF ds_init[OF s] ds_rob_credits]) simp
  moreover have "ds_credits_sent (ds_out (robCredits 4 ?s)) = 10"
    by (simp add: robCredits_def ds_sendInitialCredits_def o ex_ds_params_def)
  ultimately show ?thesis by auto
qed

section \<open>Properties\<close>

text \<open>C4. A dispatch session is in order and respects every credit. Where each queued instruction
  has a target pipe with a dispatcher and the dispatchers have their bandwidth of one, a session never
  asserts. It dispatches a prefix of the queue, of at most \<open>num_to_dispatch\<close> instructions and at most
  the credits of the reorder buffer; each instruction goes to a dispatcher of its pipe that had a credit,
  no dispatcher takes two, exactly the used dispatchers lose one credit each, the group goes to the
  reorder buffer in order, its credits back to rename, and every bandwidth is restored. The session
  stops early only at an instruction none of whose dispatchers could accept.\<close>

theorem dispatch_session_in_order:
  assumes "queue_ok h s" and "bandwidth_ok s" and "ds_credits_rob s < 4294967296"
    and "n = min (ds_credits_rob s) (min (length (ds_queue s)) (dsp_num_to_dispatch pr))"
  shows "\<exists>s' h' asg. dispatchInstructions pr (s, h) = Inr (s', h')
    \<and> ds_queue s = map snd asg @ ds_queue s' \<and> length asg \<le> n
    \<and> (\<forall>p. i_status (h' p) = (if p \<in> set (map snd asg) then DISPATCHED else i_status (h p)))
    \<and> distinct (map fst asg)
    \<and> (\<forall>(d, p)\<in>set asg. d \<in> set (ds_pipe_map s (getPipe (h p))) \<and> OutInst d p \<in> set (ds_out s'))
    \<and> (\<forall>d<length (ds_dispatchers s). dp_unit_credits (ds_dispatchers s' ! d)
         = dp_unit_credits (ds_dispatchers s ! d) - (if d \<in> set (map fst asg) then 1 else 0)
         \<and> (d \<in> set (map fst asg) \<longrightarrow> dp_unit_credits (ds_dispatchers s ! d) > 0))
    \<and> bandwidth_ok s' \<and> ds_credits_rob s' = ds_credits_rob s - length asg
    \<and> ds_to_rob (ds_out s') = ds_to_rob (ds_out s) @ map snd asg
    \<and> ds_credits_sent (ds_out s') = ds_credits_sent (ds_out s) + length asg
    \<and> (length asg < n \<longrightarrow> (\<exists>p rest. ds_queue s' = p # rest \<and> ds_current_stall s' = PIPE_BUSY (getPipe (h p))
         \<and> (\<forall>d\<in>set (ds_pipe_map s (getPipe (h p))). d \<in> set (map fst asg)
              \<or> dp_unit_credits (ds_dispatchers s ! d) = 0)))"
proof -
  from dispatchInstructions_ok[OF assms] obtain s' asg where
    r: "dispatchInstructions pr (s, h) = Inr (s', set_dispatched h (map snd asg))" "session_result h n s asg s'" by blast
  have "\<forall>p. i_status (set_dispatched h (map snd asg) p) = (if p \<in> set (map snd asg) then DISPATCHED else i_status (h p))"
    by (simp add: set_dispatched_def)
  with r show ?thesis
    by (intro exI[of _ s'] exI[of _ "set_dispatched h (map snd asg)"] exI[of _ asg]) (simp add: session_result_def)
qed

theorem dispatch_session_in_order_witness:
  "queue_ok ex_ds_heap ex_ds \<and> (\<exists>s' h' (asg :: (nat \<times> ptr) list). dispatchInstructions ex_ds_params (ex_ds, ex_ds_heap) = Inr (s', h')
     \<and> [1, 2, 3] = map snd asg @ ds_queue s' \<and> length asg \<le> 3 \<and> distinct (map fst asg)
     \<and> ds_credits_rob s' = 5 - length asg)"
proof -
  have n: "3 = min (ds_credits_rob ex_ds) (min (length (ds_queue ex_ds)) (dsp_num_to_dispatch ex_ds_params))"
    by (simp add: ex_ds_def ex_ds_params_def)
  have e: "ds_queue ex_ds = [1, 2, 3]" "ds_credits_rob ex_ds = 5" by (simp_all add: ex_ds_def)
  from dispatch_session_in_order[OF ex_ds_ok n] ex_ds_ok(1) show ?thesis unfolding e by blast
qed

text \<open>The choice of an issue queue. For a pipe other than the LSU the chosen dispatcher is one of
  the pipe's that can accept, and none of them that can accept has more credits; no dispatcher is chosen
  only if none of them can accept.\<close>

theorem dispatch_picks_most_credits:
  assumes "tp \<noteq> TP_LSU"
  shows "case fst (choose_dispatcher tp s) of
     None \<Rightarrow> \<forall>d\<in>set (ds_pipe_map s tp). \<not> canAccept (ds_dispatchers s ! d)
   | Some d \<Rightarrow> d \<in> set (ds_pipe_map s tp) \<and> canAccept (ds_dispatchers s ! d)
       \<and> (\<forall>e\<in>set (ds_pipe_map s tp). canAccept (ds_dispatchers s ! e)
            \<longrightarrow> dp_unit_credits (ds_dispatchers s ! e) \<le> dp_unit_credits (ds_dispatchers s ! d))"
  using assms best_dispatcher_None[of "ds_dispatchers s" "ds_pipe_map s tp"]
    best_dispatcher_Some[of "ds_dispatchers s" "ds_pipe_map s tp"]
  by (auto simp: choose_dispatcher_def split: option.splits)

text \<open>The topology. Where the constructor succeeds, the list of a pipe holds each dispatcher at
  most once and holds exactly the issue queues one of whose execution units supports the pipe, plus, for
  the LSU pipe, the LSU dispatcher; every dispatcher starts without credits and with its bandwidth.\<close>

theorem dispatch_topology_exact:
  assumes "mk_Dispatch pipelines iqs rn = Inr s"
  shows "length (ds_dispatchers s) = length iqs + 1 \<and> bandwidth_ok s
    \<and> (\<forall>d<length (ds_dispatchers s). dp_unit_credits (ds_dispatchers s ! d) = 0)
    \<and> (\<forall>tp. distinct (ds_pipe_map s tp) \<and>
         set (ds_pipe_map s tp) = {d. d < length iqs \<and> iq_serves pipelines (iqs ! d) tp}
            \<union> (if tp = TP_LSU then {length iqs} else {}))"
  using mk_Dispatch_spec[OF assms] by simp

text \<open>C23. Credits of the dispatch unit. In every state that a sequence of handlers reaches, the
  credits sent to rename and the occupancy of the queue make up exactly its depth and the instructions
  received, so a group that fits in the credits never trips the queue-limit assertion; and the
  instructions sent to the reorder buffer plus the credits left are exactly the credits it granted.\<close>

theorem dispatch_credits_exact:
  assumes "ds_reachable pr (s, h, n, r)"
  shows "ds_credits_sent (ds_out s) + length (ds_queue s) = dsp_dispatch_queue_depth pr + n
    \<and> ds_credits_rob s + length (ds_to_rob (ds_out s)) = r
    \<and> (n + length grp \<le> ds_credits_sent (ds_out s) \<longrightarrow>
         (\<exists>s'. dispatchQueueAppended pr grp s = Inr s' \<and> ds_queue s' = ds_queue s @ grp))"
proof -
  have "\<exists>s'. dispatchQueueAppended pr grp s = Inr s' \<and> ds_queue s' = ds_queue s @ grp"
    if "n + length grp \<le> ds_credits_sent (ds_out s)"
  proof -
    have "length (ds_queue s) + length grp \<le> dsp_dispatch_queue_depth pr"
      using ds_credits.fits[OF assms, of "length grp"] that by simp
    then have "foldE (ds_push pr) s grp = Inr (s\<lparr>ds_queue := ds_queue s @ grp\<rparr>)" by (simp add: ds_fifo.push_all)
    then show ?thesis by (simp add: dispatchQueueAppended_def)
  qed
  then show ?thesis using ds_reachable_inv[OF assms] by (simp add: ds_inv_def)
qed

theorem dispatch_credits_exact_witness:
  "\<exists>s s'. ds_reachable ex_ds_params (s, ex_ds_heap, 0, 4) \<and> dispatchQueueAppended ex_ds_params [1, 2] s = Inr s'"
proof -
  from ex_ds_reachable obtain s where r: "ds_reachable ex_ds_params (s, ex_ds_heap, 0, 4)"
    "ds_credits_sent (ds_out s) = 10" by blast
  with dispatch_credits_exact[OF r(1), of "[1, 2]"] show ?thesis by auto
qed

end
