(* ===== verification/VectorUop.thy ===== *)
theory VectorUop
  imports FlushMgr
begin

text \<open>
  The vector micro-op generator (\<open>core/vector/VectorUopGenerator.hpp\<close>,
  \<open>core/vector/VectorUopGenerator.cpp\<close>): how many micro-ops a vector instruction becomes, the operands
  of each of them for every generator type, their ids, and the flush.

  Mavis builds the micro-op from a mnemonic and operand lists (\<open>makeInstDirectly\<close>, a third-party
  decoder): it is the parameter \<open>mav\<close> of the definitions. The quotient that \<open>setInst\<close> computes in
  single precision is the integer quotient rounded up, which single precision yields exactly for a
  vector length below $2^{24}$.
\<close>

section \<open>Mavis identifiers\<close>

text \<open>\<open>MavisUIDs\<close> of \<open>core/decode/MavisUnit.hpp\<close>.\<close>

abbreviation (input) MAVIS_UID_VSETIVLI :: nat where "MAVIS_UID_VSETIVLI \<equiv> 2"
abbreviation (input) MAVIS_UID_VSETVLI :: nat where "MAVIS_UID_VSETVLI \<equiv> 3"
abbreviation (input) MAVIS_UID_VSETVL :: nat where "MAVIS_UID_VSETVL \<equiv> 4"
abbreviation (input) MAVIS_UID_VMV1R :: nat where "MAVIS_UID_VMV1R \<equiv> 5"
abbreviation (input) MAVIS_UID_VMV2R :: nat where "MAVIS_UID_VMV2R \<equiv> 6"
abbreviation (input) MAVIS_UID_VMV4R :: nat where "MAVIS_UID_VMV4R \<equiv> 7"
abbreviation (input) MAVIS_UID_VMV8R :: nat where "MAVIS_UID_VMV8R \<equiv> 8"
abbreviation (input) MAVIS_UID_VZEXTVF2 :: nat where "MAVIS_UID_VZEXTVF2 \<equiv> 9"
abbreviation (input) MAVIS_UID_VSEXTVF2 :: nat where "MAVIS_UID_VSEXTVF2 \<equiv> 10"
abbreviation (input) MAVIS_UID_VZEXTVF4 :: nat where "MAVIS_UID_VZEXTVF4 \<equiv> 11"
abbreviation (input) MAVIS_UID_VSEXTVF4 :: nat where "MAVIS_UID_VSEXTVF4 \<equiv> 12"
abbreviation (input) MAVIS_UID_VZEXTVF8 :: nat where "MAVIS_UID_VZEXTVF8 \<equiv> 13"
abbreviation (input) MAVIS_UID_VSEXTVF8 :: nat where "MAVIS_UID_VSEXTVF8 \<equiv> 14"

definition getMavisUid :: "Inst \<Rightarrow> nat" where
  "getMavisUid i = oi_mavis_uid (i_opcode_info i)"

section \<open>State\<close>

record VectorUopGenerator =
  vg_current_inst :: "ptr option"
  vg_modifiers :: "(string \<times> nat) list"
  vg_num_uops_to_generate :: nat
  vg_num_uops_generated :: nat
  vg_vuops_generated :: nat

definition mk_VectorUopGenerator :: VectorUopGenerator where
  "mk_VectorUopGenerator = \<lparr>vg_current_inst = None, vg_modifiers = [], vg_num_uops_to_generate = 0,
     vg_num_uops_generated = 0, vg_vuops_generated = 0\<rparr>"

definition vg_reset :: "VectorUopGenerator \<Rightarrow> VectorUopGenerator" where
  "vg_reset g = g\<lparr>vg_current_inst := None, vg_modifiers := [], vg_num_uops_to_generate := 0,
     vg_num_uops_generated := 0\<rparr>"

definition addModifier :: "string \<Rightarrow> nat \<Rightarrow> VectorUopGenerator \<Rightarrow> VectorUopGenerator" where
  "addModifier nm v g = g\<lparr>vg_modifiers := vg_modifiers g @ [(nm, v)]\<rparr>"

definition getModifier :: "string \<Rightarrow> VectorUopGenerator \<Rightarrow> nat option" where
  "getModifier nm g = map_of (vg_modifiers g) nm"

definition getNumUopsRemaining :: "VectorUopGenerator \<Rightarrow> nat" where
  "getNumUopsRemaining g = vg_num_uops_to_generate g"

section \<open>Starting an instruction\<close>

definition int_ext_modifier :: "Inst \<Rightarrow> VectorUopGenerator \<Rightarrow> VectorUopGenerator" where
  "int_ext_modifier i g =
     (if getUopGenType i = UG_INT_EXT
      then (if getMavisUid i = MAVIS_UID_VZEXTVF2 \<or> getMavisUid i = MAVIS_UID_VSEXTVF2
            then addModifier ''viext'' 2 g
            else if getMavisUid i = MAVIS_UID_VZEXTVF4 \<or> getMavisUid i = MAVIS_UID_VSEXTVF4
            then addModifier ''viext'' 4 g
            else if getMavisUid i = MAVIS_UID_VZEXTVF8 \<or> getMavisUid i = MAVIS_UID_VSEXTVF8
            then addModifier ''viext'' 8 g
            else g)
      else g)"

definition is_widening :: "UopGenType \<Rightarrow> bool" where
  "is_widening ty = (ty = UG_WIDENING \<or> ty = UG_WIDENING_MIXED \<or> ty = UG_MAC_WIDE \<or> ty = UG_REDUCTION_WIDE)"

definition whole_register_uops :: "Inst \<Rightarrow> nat result" where
  "whole_register_uops i =
     (let mavis_uid = getMavisUid i in
      if mavis_uid = MAVIS_UID_VMV1R then Inr 1
      else if mavis_uid = MAVIS_UID_VMV2R then Inr 2
      else if mavis_uid = MAVIS_UID_VMV4R then Inr 4
      else if mavis_uid = MAVIS_UID_VMV8R then Inr 8
      else (case oi_special_field (i_opcode_info i) SF_NF of
              Some nf \<Rightarrow> Inr nf
            | None \<Rightarrow> Inl (SpartaException ''no special field NF'')))"

definition num_uops_for :: "Inst \<Rightarrow> nat result" where
  "num_uops_for i =
     (let vc = i_vector_config i in
      if vc_sew vc = 0 then Inl (UndefinedBehaviour ''division by zero'')
      else let num_elems_per_uop = VLEN div vc_sew vc in
        if num_elems_per_uop = 0 then Inl (UndefinedBehaviour ''conversion of a non-finite float'')
        else let num = (vc_vl vc + num_elems_per_uop - 1) div num_elems_per_uop in
          if is_widening (getUopGenType i)
          then bindE (assertE (vc_lmul vc \<le> 4) ''LMUL must be lower or equal to 4'') (\<lambda>_. Inr (num * 2))
          else if i_is_vector_whole_reg i then whole_register_uops i
          else Inr num)"

definition vg_setInst :: "ptr \<Rightarrow> heap \<Rightarrow> VectorUopGenerator \<Rightarrow> VectorUopGenerator result" where
  "vg_setInst p h g =
     bindE (assertE (vg_current_inst g = None) ''current instruction has not finished'') (\<lambda>_.
     bindE (assertE (getUopGenType (h p) \<noteq> UG_UNKNOWN) ''uop gen type is unknown'') (\<lambda>_.
     bindE (assertE (getUopGenType (h p) \<noteq> UG_NONE) ''uop gen type is none'') (\<lambda>_.
     let g1 = int_ext_modifier (h p) g in
     bindE (num_uops_for (h p)) (\<lambda>num.
     bindE (assertE (num \<le> N_VECTOR_UOPS) ''Cannot generate more than 8 vector uops'') (\<lambda>_.
       Inr (g1\<lparr>vg_num_uops_to_generate := num, vg_current_inst := Some p\<rparr>))))))"

section \<open>Operands of a micro-op\<close>

definition bump :: "nat \<Rightarrow> op_element \<Rightarrow> op_element" where
  "bump k e = e\<lparr>oe_field_value := oe_field_value e + k\<rparr>"

definition uop_src :: "UopGenType \<Rightarrow> nat \<Rightarrow> nat option \<Rightarrow> op_element \<Rightarrow> op_element result" where
  "uop_src ty n ext src =
     (if oe_operand_type src \<noteq> OT_VECTOR \<or> ty = UG_SINGLE_SRC then Inr src
      else if ty = UG_ELEMENTWISE \<or> ty = UG_MAC \<or> ty = UG_REDUCTION then Inr (bump n src)
      else if ty = UG_WIDENING \<or> ty = UG_MAC_WIDE then Inr (bump (n div 2) src)
      else if ty = UG_WIDENING_MIXED \<or> ty = UG_REDUCTION_WIDE
      then Inr (if oe_field_id src = OF_RS2 then bump n src
                else if oe_field_id src = OF_RS1 then bump (n div 2) src else src)
      else if ty = UG_NARROWING
      then Inr (if oe_field_id src = OF_RS2 then bump (n * 2) src
                else if oe_field_id src = OF_RS1 then bump n src else src)
      else if ty = UG_INT_EXT
      then (case ext of None \<Rightarrow> Inl (SpartaException ''Modifier at current instruction doesnt exist.'')
            | Some e \<Rightarrow> Inr (bump (n div e) src))
      else Inr src)"

fun uop_srcs :: "UopGenType \<Rightarrow> nat \<Rightarrow> nat option \<Rightarrow> op_element list \<Rightarrow> op_element list result" where
  "uop_srcs ty n ext [] = Inr []"
| "uop_srcs ty n ext (s # ss) =
     bindE (uop_src ty n ext s) (\<lambda>s1. bindE (uop_srcs ty n ext ss) (\<lambda>ss1. Inr (s1 # ss1)))"

text \<open>The extra source of a narrowing micro-op: the register after the last RS2 vector source.\<close>

definition narrowing_rs3 :: "nat \<Rightarrow> op_element list \<Rightarrow> op_element option" where
  "narrowing_rs3 n srcs =
     (case filter (\<lambda>s. oe_operand_type s = OT_VECTOR \<and> oe_field_id s = OF_RS2) srcs of
        [] \<Rightarrow> None
      | cs \<Rightarrow> Some \<lparr>oe_field_id = OF_RS3, oe_operand_type = OT_VECTOR,
                    oe_field_value = oe_field_value (last cs) + n * 2 + 1\<rparr>)"

definition add_narrowing :: "UopGenType \<Rightarrow> nat \<Rightarrow> op_element list \<Rightarrow> op_element list \<Rightarrow> op_element list result" where
  "add_narrowing ty n orig srcs =
     (if ty = UG_NARROWING
      then (case narrowing_rs3 n orig of
              None \<Rightarrow> Inl (SpartaAssert ''Vector narrowing instructions need to include an RS3 operand!'')
            | Some e \<Rightarrow> Inr (srcs @ [e]))
      else Inr srcs)"

definition rs_field :: "nat \<Rightarrow> OperandFieldID result" where
  "rs_field k =
     (if k = 0 then Inr OF_RS1 else if k = 1 then Inr OF_RS2 else if k = 2 then Inr OF_RS3
      else if k = 3 then Inr OF_RS4
      else Inl (SpartaAssert ''Mavis does not support instructions with more than RS_MAX sources''))"

definition add_dest_as_src :: "op_element list \<Rightarrow> op_element \<Rightarrow> op_element list result" where
  "add_dest_as_src srcs dest =
     bindE (rs_field (length srcs)) (\<lambda>fid.
       Inr (srcs @ [\<lparr>oe_field_id = fid, oe_operand_type = oe_operand_type dest,
                     oe_field_value = oe_field_value dest\<rparr>]))"

text \<open>The loop over the destinations; the state is the sources and the destinations done so far.\<close>

definition uop_dest ::
    "UopGenType \<Rightarrow> nat \<Rightarrow> op_element list \<times> op_element list \<Rightarrow> op_element
       \<Rightarrow> (op_element list \<times> op_element list) result" where
  "uop_dest ty n sd dest =
     (case sd of (srcs, dests) \<Rightarrow>
        let d1 = bump n dest in
        bindE (if ty = UG_MAC \<or> ty = UG_MAC_WIDE then add_dest_as_src srcs d1 else Inr srcs) (\<lambda>srcs1.
        bindE (if (ty = UG_REDUCTION \<or> ty = UG_REDUCTION_WIDE) \<and> n \<noteq> 0
               then add_dest_as_src srcs1 (d1\<lparr>oe_field_value := oe_field_value d1 - 1\<rparr>) else Inr srcs1) (\<lambda>srcs2.
          Inr (srcs2, dests @ [d1]))))"

definition generateUops ::
    "UopGenType \<Rightarrow> nat \<Rightarrow> nat option \<Rightarrow> op_element list \<Rightarrow> op_element list
       \<Rightarrow> (op_element list \<times> op_element list) result" where
  "generateUops ty n ext srcs0 dests0 =
     bindE (uop_srcs ty n ext srcs0) (\<lambda>srcs1.
     bindE (add_narrowing ty n srcs0 srcs1) (\<lambda>srcs2.
       if ty \<noteq> UG_SINGLE_DEST then foldE (uop_dest ty n) (srcs2, []) dests0
       else Inr (srcs2, dests0)))"

definition slide_src :: "UopGenType \<Rightarrow> nat \<Rightarrow> nat \<Rightarrow> op_element \<Rightarrow> op_element list" where
  "slide_src ty n num_total src =
     (let scalar_uop = (if ty = UG_SLIDE1UP then n = 0 else n + 1 = num_total);
          other = (if ty = UG_SLIDE1UP then oe_field_value src + n - 1 else oe_field_value src + n + 1)
      in if oe_operand_type src \<noteq> OT_VECTOR then (if scalar_uop then [src] else [])
         else bump n src # (if \<not> scalar_uop
                then [\<lparr>oe_field_id = OF_RS3, oe_operand_type = oe_operand_type src, oe_field_value = other\<rparr>]
                else []))"

definition generateSlideUops ::
    "UopGenType \<Rightarrow> nat \<Rightarrow> nat \<Rightarrow> op_element list \<Rightarrow> op_element list \<Rightarrow> op_element list \<times> op_element list" where
  "generateSlideUops ty n num_total srcs0 dests0 = (concat (map (slide_src ty n num_total) srcs0), map (bump n) dests0)"

text \<open>The dispatch through \<open>uop_gen_function_map_\<close>; \<open>at\<close> throws for a type that has no entry.\<close>

definition uop_operands ::
    "UopGenType \<Rightarrow> VectorUopGenerator \<Rightarrow> op_element list \<Rightarrow> op_element list
       \<Rightarrow> (op_element list \<times> op_element list) result" where
  "uop_operands ty g srcs0 dests0 =
     (let n = vg_num_uops_generated g in
      if ty = UG_PERMUTE
      then Inl (SpartaAssert ''Vector permute uop generation is currently not supported!'')
      else if ty = UG_SLIDE1UP \<or> ty = UG_SLIDE1DOWN
      then Inr (generateSlideUops ty n (vg_num_uops_to_generate g) srcs0 dests0)
      else if ty = UG_NONE then Inl (SpartaException ''uop_gen_function_map_ at'')
      else generateUops ty n (getModifier ''viext'' g) srcs0 dests0)"

section \<open>Generating a micro-op\<close>

record direct_op_info =
  di_mnemonic :: string
  di_srcs :: "op_element list"
  di_dests :: "op_element list"
  di_immediate :: "nat option"

definition makeInst ::
    "(direct_op_info \<Rightarrow> Inst result) \<Rightarrow> Inst \<Rightarrow> op_element list \<Rightarrow> op_element list \<Rightarrow> Inst result" where
  "makeInst mav parent srcs dests =
     (if i_has_immediate parent
      then bindE (getImmediate parent) (\<lambda>imm.
             mav \<lparr>di_mnemonic = oi_mnemonic (i_opcode_info parent), di_srcs = srcs, di_dests = dests,
                   di_immediate = Some imm\<rparr>)
      else mav \<lparr>di_mnemonic = oi_mnemonic (i_opcode_info parent), di_srcs = srcs, di_dests = dests,
                 di_immediate = None\<rparr>)"

definition generateUop ::
    "(direct_op_info \<Rightarrow> Inst result) \<Rightarrow> heap \<Rightarrow> VectorUopGenerator \<Rightarrow> (VectorUopGenerator \<times> Inst) result" where
  "generateUop mav h g =
     (case vg_current_inst g of
        None \<Rightarrow> Inl (SpartaAssert ''Cannot generate uops, current instruction is not set'')
      | Some p \<Rightarrow>
          (let parent = h p; vc = i_vector_config parent in
           bindE (assertE (getUopGenType parent \<noteq> UG_UNKNOWN) ''uop gen type is unknown'') (\<lambda>_.
           bindE (uop_operands (getUopGenType parent) g (oi_source_list (i_opcode_info parent))
                    (oi_dest_list (i_opcode_info parent))) (\<lambda>(srcs, dests).
           bindE (makeInst mav parent srcs dests) (\<lambda>uop.
           if vc_sew vc = 0 then Inl (UndefinedBehaviour ''division by zero'')
           else
             let n1 = vg_num_uops_generated g + 1;
                 num_elems_per_uop = vc_vlmax vc div vc_sew vc;
                 uop1 = uop\<lparr>i_unique_id := i_unique_id parent, i_program_id := i_program_id parent,
                            i_vector_config := vc, i_uopid := Some (vg_num_uops_generated g),
                            i_parent_uop := Some p,
                            i_has_tail := (num_elems_per_uop * n1 > vc_vl vc)\<rparr>;
                 g1 = g\<lparr>vg_num_uops_generated := n1, vg_vuops_generated := vg_vuops_generated g + 1\<rparr>
             in Inr (if n1 = vg_num_uops_to_generate g then vg_reset g1 else g1, uop1))))))"

definition vg_handleFlush :: "FlushingCriteria \<Rightarrow> heap \<Rightarrow> VectorUopGenerator \<Rightarrow> VectorUopGenerator" where
  "vg_handleFlush c h g =
     (case vg_current_inst g of
        Some p \<Rightarrow> (if includedInFlush h c p then vg_reset g else g)
      | None \<Rightarrow> g)"

section \<open>How many micro-ops\<close>

lemma ceil_div_bounds:
  assumes "0 < (e::nat)"
  shows "v \<le> ((v + e - 1) div e) * e" and "0 < v \<Longrightarrow> ((v + e - 1) div e - 1) * e < v"
proof -
  have m: "(v + e - 1) div e * e + (v + e - 1) mod e = v + e - 1" by (rule div_mult_mod_eq)
  have l: "(v + e - 1) mod e < e" using assms by simp
  show "v \<le> ((v + e - 1) div e) * e" using m l by linarith
  assume v: "0 < v"
  have "((v + e - 1) div e - 1) * e = (v + e - 1) div e * e - e" by (simp add: diff_mult_distrib)
  then show "((v + e - 1) div e - 1) * e < v" using m v assms by linarith
qed

lemma ceil_div_least:
  assumes "0 < (e::nat)" and "k < (v + e - 1) div e"
  shows "k * e < v"
proof -
  have "Suc k * e \<le> (v + e - 1) div e * e" using assms(2) by (intro mult_right_mono) simp_all
  also have "\<dots> \<le> v + e - 1" by (rule div_times_less_eq_dividend)
  finally show ?thesis using assms(1) by simp
qed

text \<open>A configuration as the vector extension has it.\<close>

definition vector_config_ok :: "VectorConfig \<Rightarrow> bool" where
  "vector_config_ok vc \<longleftrightarrow> 0 < vc_sew vc \<and> vc_sew vc \<le> VLEN \<and> vc_vlmax vc = VLEN div vc_sew vc * vc_lmul vc
     \<and> vc_lmul vc \<le> 8 \<and> vc_vl vc \<le> vc_vlmax vc"

lemma ceil_div_le_lmul:
  assumes "0 < (e::nat)" and "v \<le> e * l"
  shows "(v + e - 1) div e \<le> l"
proof -
  have "v + e - 1 < (l + 1) * e" using assms by (simp add: algebra_simps)
  then have "(v + e - 1) div e < l + 1" by (rule less_mult_imp_div_less)
  then show ?thesis by simp
qed

lemma elems_pos: "vector_config_ok vc \<Longrightarrow> 0 < VLEN div vc_sew vc"
  by (simp add: vector_config_ok_def div_greater_zero_iff)

lemma num_uops_for_regular:
  assumes "vector_config_ok (i_vector_config i)" and "\<not> i_is_vector_whole_reg i"
    and "is_widening (getUopGenType i) \<longrightarrow> vc_lmul (i_vector_config i) \<le> 4"
  defines "e \<equiv> VLEN div vc_sew (i_vector_config i)"
  defines "m \<equiv> (vc_vl (i_vector_config i) + e - 1) div e"
  shows "num_uops_for i = Inr (if is_widening (getUopGenType i) then m * 2 else m)"
    and "(if is_widening (getUopGenType i) then m * 2 else m) \<le> N_VECTOR_UOPS"
proof -
  have e: "0 < e" using elems_pos[OF assms(1)] by (simp add: e_def)
  show "num_uops_for i = Inr (if is_widening (getUopGenType i) then m * 2 else m)"
    using assms(1-3) e by (simp add: num_uops_for_def Let_def vector_config_ok_def m_def e_def)
  have "m \<le> vc_lmul (i_vector_config i)"
    unfolding m_def by (rule ceil_div_le_lmul[OF e]) (use assms(1) in \<open>simp add: vector_config_ok_def e_def\<close>)
  then show "(if is_widening (getUopGenType i) then m * 2 else m) \<le> N_VECTOR_UOPS"
    using assms(1,3) by (auto simp: N_VECTOR_UOPS_def vector_config_ok_def)
qed

section \<open>Running the generator\<close>

text \<open>Call \<open>generateUop\<close> \<open>k\<close> times.\<close>

primrec generate_n ::
    "(direct_op_info \<Rightarrow> Inst result) \<Rightarrow> heap \<Rightarrow> nat \<Rightarrow> VectorUopGenerator \<Rightarrow> (VectorUopGenerator \<times> Inst list) result" where
  "generate_n mav h 0 g = Inr (g, [])"
| "generate_n mav h (Suc k) g =
     bindE (generateUop mav h g) (\<lambda>(g1, u). bindE (generate_n mav h k g1) (\<lambda>(g2, us). Inr (g2, u # us)))"

definition uop_of :: "heap \<Rightarrow> ptr \<Rightarrow> nat \<Rightarrow> Inst \<Rightarrow> bool" where
  "uop_of h p k u \<longleftrightarrow> i_uopid u = Some k \<and> i_unique_id u = i_unique_id (h p)
     \<and> i_program_id u = i_program_id (h p) \<and> i_parent_uop u = Some p \<and> i_vector_config u = i_vector_config (h p)"

definition operands_ok :: "Inst \<Rightarrow> VectorUopGenerator \<Rightarrow> nat \<Rightarrow> bool" where
  "operands_ok i g k \<longleftrightarrow> is_ok (uop_operands (getUopGenType i) (g\<lparr>vg_num_uops_generated := k\<rparr>)
     (oi_source_list (i_opcode_info i)) (oi_dest_list (i_opcode_info i)))"

lemma makeInst_ok: "(\<And>d. is_ok (mav d)) \<Longrightarrow> \<exists>u. makeInst mav parent srcs dests = Inr u"
  by (auto simp: makeInst_def getImmediate_def is_ok_iff)

lemma generateUop_ok:
  assumes "vg_current_inst g = Some p" and "getUopGenType (h p) \<noteq> UG_UNKNOWN" and "0 < vc_sew (i_vector_config (h p))"
    and "operands_ok (h p) g (vg_num_uops_generated g)" and mav: "\<And>d. is_ok (mav d)"
  shows "\<exists>u. generateUop mav h g
      = Inr (let g1 = g\<lparr>vg_num_uops_generated := vg_num_uops_generated g + 1,
                        vg_vuops_generated := vg_vuops_generated g + 1\<rparr>
             in if vg_num_uops_generated g + 1 = vg_num_uops_to_generate g then vg_reset g1 else g1, u)
    \<and> uop_of h p (vg_num_uops_generated g) u"
proof -
  have "g\<lparr>vg_num_uops_generated := vg_num_uops_generated g\<rparr> = g" by (cases g) simp
  with assms(4) obtain srcs dests where o: "uop_operands (getUopGenType (h p)) g
      (oi_source_list (i_opcode_info (h p))) (oi_dest_list (i_opcode_info (h p))) = Inr (srcs, dests)"
    by (auto simp: operands_ok_def is_ok_iff)
  from makeInst_ok[of mav, OF mav] obtain u where u: "makeInst mav (h p) srcs dests = Inr u" by blast
  show ?thesis using assms(1-3) o u by (simp add: generateUop_def Let_def uop_of_def)
qed

lemma generate_n_ok:
  assumes "vg_current_inst g = Some p" and "getUopGenType (h p) \<noteq> UG_UNKNOWN" and "0 < vc_sew (i_vector_config (h p))"
    and mav: "\<And>d. is_ok (mav d)"
    and "\<forall>k<vg_num_uops_to_generate g. operands_ok (h p) g k"
    and "vg_num_uops_generated g + r = vg_num_uops_to_generate g" and "0 < r"
  shows "\<exists>g' us. generate_n mav h r g = Inr (g', us) \<and> length us = r
    \<and> (\<forall>k<r. uop_of h p (vg_num_uops_generated g + k) (us ! k))
    \<and> g' = (vg_reset g)\<lparr>vg_vuops_generated := vg_vuops_generated g + r\<rparr>"
  using assms(1,5-7)
proof (induction r arbitrary: g)
  case (Suc r)
  define n where "n = vg_num_uops_generated g"
  define g1 where "g1 = g\<lparr>vg_num_uops_generated := n + 1, vg_vuops_generated := vg_vuops_generated g + 1\<rparr>"
  have "operands_ok (h p) g n" using Suc.prems(2,3) by (simp add: n_def)
  from generateUop_ok[where h = h and mav = mav, OF Suc.prems(1) assms(2,3) this[unfolded n_def] mav] obtain u where u:
    "generateUop mav h g = Inr (if n + 1 = vg_num_uops_to_generate g then vg_reset g1 else g1, u)" "uop_of h p n u"
    by (auto simp: Let_def n_def g1_def)
  show ?case
  proof (cases r)
    case 0
    have "vg_reset g1 = (vg_reset g)\<lparr>vg_vuops_generated := vg_vuops_generated g + 1\<rparr>" by (simp add: vg_reset_def g1_def)
    then show ?thesis using u 0 Suc.prems(3) by (simp add: n_def)
  next
    case (Suc r')
    have ne: "n + 1 \<noteq> vg_num_uops_to_generate g" using Suc Suc.prems(3) by (simp add: n_def)
    have g1: "vg_current_inst g1 = Some p" "vg_num_uops_to_generate g1 = vg_num_uops_to_generate g"
      "vg_num_uops_generated g1 = n + 1" "vg_vuops_generated g1 = vg_vuops_generated g + 1"
      using Suc.prems(1) by (simp_all add: g1_def)
    have "operands_ok (h p) g1 k = operands_ok (h p) g k" for k
      by (simp add: operands_ok_def g1_def uop_operands_def getModifier_def Let_def cong: if_cong)
    then have "\<forall>k<vg_num_uops_to_generate g1. operands_ok (h p) g1 k" using Suc.prems(2) g1(2) by simp
    moreover have "vg_num_uops_generated g1 + r = vg_num_uops_to_generate g1" using Suc.prems(3) g1 by (simp add: n_def)
    moreover have "0 < r" using Suc by simp
    ultimately obtain g' us where r:
      "generate_n mav h r g1 = Inr (g', us)" "length us = r"
      "\<forall>k<r. uop_of h p (n + 1 + k) (us ! k)" "g' = (vg_reset g1)\<lparr>vg_vuops_generated := vg_vuops_generated g + 1 + r\<rparr>"
      using Suc.IH[OF g1(1)] unfolding g1 by blast
    have "(vg_reset g1)\<lparr>vg_vuops_generated := vg_vuops_generated g + 1 + r\<rparr>
        = (vg_reset g)\<lparr>vg_vuops_generated := vg_vuops_generated g + Suc r\<rparr>" by (simp add: vg_reset_def g1_def)
    moreover have "\<forall>k<Suc r. uop_of h p (n + k) ((u # us) ! k)"
      using r(3) u(2) by (auto simp: nth_Cons split: nat.split)
    ultimately show ?thesis using u(1) ne r by (simp add: n_def)
  qed
qed simp

section \<open>Operands\<close>





lemma bump_0 [simp]: "bump 0 s = s"
  by (simp add: bump_def)







section \<open>A sample vector instruction\<close>

definition ex_vec_opcode :: opcode_info where
  "ex_vec_opcode = sample_opcode\<lparr>
     oi_source_list := [\<lparr>oe_field_id = OF_RS1, oe_operand_type = OT_VECTOR, oe_field_value = 8\<rparr>,
                        \<lparr>oe_field_id = OF_RS2, oe_operand_type = OT_VECTOR, oe_field_value = 4\<rparr>],
     oi_dest_list := [\<lparr>oe_field_id = OF_RD, oe_operand_type = OT_VECTOR, oe_field_value = 12\<rparr>],
     oi_mavis_uid := 100\<rparr>"

definition ex_vec_inst :: "nat \<Rightarrow> Inst" where
  "ex_vec_inst vl = (sample_Inst TP_VINT 5 [] [])\<lparr>i_opcode_info := ex_vec_opcode,
     i_arch_info := \<lparr>tgt_pipe = TP_VINT, execute_time = 1, uop_gen = UG_MAC, is_load_store = False, is_vset = False\<rparr>,
     i_is_vector := True,
     i_vector_config := \<lparr>vc_sew = 8, vc_lmul = 4, vc_vl = vl, vc_vlmax = 512, vc_vta = False\<rparr>\<rparr>"

definition ex_mavis :: "direct_op_info \<Rightarrow> Inst result" where
  "ex_mavis d = Inr ((sample_Inst TP_VINT 0 [] [])\<lparr>i_opcode_info := ex_vec_opcode
     \<lparr>oi_source_list := di_srcs d, oi_dest_list := di_dests d\<rparr>, i_status := BEFORE_FETCH\<rparr>)"

definition ex_vg :: "nat \<Rightarrow> VectorUopGenerator" where
  "ex_vg n = mk_VectorUopGenerator\<lparr>vg_num_uops_to_generate := n, vg_current_inst := Some 1\<rparr>"

lemma ex_setInst:
  "vg_setInst 1 (\<lambda>_. ex_vec_inst 500) mk_VectorUopGenerator = Inr (ex_vg 4)"
  "vg_setInst 1 (\<lambda>_. ex_vec_inst 0) mk_VectorUopGenerator = Inr (ex_vg 0)"
  by (simp_all add: vg_setInst_def ex_vec_inst_def ex_vg_def mk_VectorUopGenerator_def getUopGenType_def
      int_ext_modifier_def num_uops_for_def sample_Inst_def VLEN_def is_widening_def N_VECTOR_UOPS_def Let_def)

lemma ex_operands_ok: "operands_ok (ex_vec_inst vl) (ex_vg n) k"
  by (simp add: operands_ok_def uop_operands_def ex_vec_inst_def getUopGenType_def generateUops_def uop_src_def
      ex_vec_opcode_def add_narrowing_def uop_dest_def add_dest_as_src_def rs_field_def Let_def)

lemma ex_mavis_ok: "is_ok (ex_mavis d)"
  by (simp add: ex_mavis_def)

section \<open>Properties\<close>

text \<open>C25. A vector instruction becomes exactly its micro-ops. After \<open>setInst\<close> has set a count \<open>n\<close>
  above zero on an idle generator, \<open>n\<close> calls of \<open>generateUop\<close> succeed (where Mavis builds every
  requested micro-op and its operands exist); the micro-ops carry the ids 0 to n - 1 in order and the
  unique id, program id, vector configuration and handle of their parent; and the generator is idle
  again after the last of them.\<close>

theorem vector_uops_complete:
  assumes "vg_setInst p h g0 = Inr g" and "vg_num_uops_generated g0 = 0" and "0 < getNumUopsRemaining g"
    and "\<And>d. is_ok (mav d)" and "\<forall>k<getNumUopsRemaining g. operands_ok (h p) g k"
  shows "\<exists>g' us. generate_n mav h (getNumUopsRemaining g) g = Inr (g', us) \<and> length us = getNumUopsRemaining g
    \<and> (\<forall>k<length us. i_uopid (us ! k) = Some k \<and> i_unique_id (us ! k) = i_unique_id (h p)
         \<and> i_program_id (us ! k) = i_program_id (h p) \<and> i_parent_uop (us ! k) = Some p
         \<and> i_vector_config (us ! k) = i_vector_config (h p))
    \<and> vg_current_inst g' = None \<and> getNumUopsRemaining g' = 0 \<and> vg_num_uops_generated g' = 0
    \<and> vg_vuops_generated g' = vg_vuops_generated g0 + length us"
proof -
  have g: "vg_current_inst g = Some p" "vg_num_uops_generated g = 0" "vg_vuops_generated g = vg_vuops_generated g0"
    "getUopGenType (h p) \<noteq> UG_UNKNOWN"
    using assms(1,2) by (auto simp: vg_setInst_def Let_def bindE_eq_Inr int_ext_modifier_def addModifier_def split: if_splits)
  have "0 < vc_sew (i_vector_config (h p))"
    using assms(1) by (auto simp: vg_setInst_def Let_def bindE_eq_Inr num_uops_for_def split: if_splits)
  from generate_n_ok[where mav = mav and h = h and r = "getNumUopsRemaining g", OF g(1,4) this assms(4)] assms(3,5) g(2)
  show ?thesis by (auto simp: getNumUopsRemaining_def uop_of_def vg_reset_def g(3))
qed

theorem vector_uops_complete_witness:
  "\<exists>g' us. vg_setInst 1 (\<lambda>_. ex_vec_inst 500) mk_VectorUopGenerator = Inr (ex_vg 4)
    \<and> generate_n ex_mavis (\<lambda>_. ex_vec_inst 500) 4 (ex_vg 4) = Inr (g', us) \<and> length us = 4
    \<and> i_uopid (us ! 3) = Some 3 \<and> vg_current_inst g' = None"
proof -
  have n: "getNumUopsRemaining (ex_vg 4) = 4" by (simp add: getNumUopsRemaining_def ex_vg_def)
  have z: "vg_num_uops_generated mk_VectorUopGenerator = 0" by (simp add: mk_VectorUopGenerator_def)
  from vector_uops_complete[OF ex_setInst(1) z, of ex_mavis] n ex_mavis_ok ex_operands_ok ex_setInst(1)
  show ?thesis by fastforce
qed

text \<open>C26. The number of micro-ops. For a legal configuration (and LMUL at most 4 for a widening instruction) an idle
  generator accepts an instruction that is no whole-register instruction, with a count of at most 8. The count is the
  smallest number \<open>m\<close> of vector registers that hold \<open>vl\<close> elements, and twice that number for a widening one, whose
  results are twice as wide. A whole-register instruction gets the count of its encoding instead, whatever the
  vector length: 1, 2, 4 and 8 for the four moves, the field NF otherwise, and is rejected if that exceeds 8.\<close>

theorem vector_uop_count_covers:
  assumes "vg_current_inst g = None" and "vector_config_ok (i_vector_config (h p))"
    and "getUopGenType (h p) \<notin> {UG_UNKNOWN, UG_NONE}"
    and "is_widening (getUopGenType (h p)) \<longrightarrow> vc_lmul (i_vector_config (h p)) \<le> 4"
  shows "(\<not> i_is_vector_whole_reg (h p) \<longrightarrow> (\<exists>g' m. vg_setInst p h g = Inr g' \<and> vg_current_inst g' = Some p
      \<and> getNumUopsRemaining g' = (if is_widening (getUopGenType (h p)) then 2 * m else m)
      \<and> getNumUopsRemaining g' \<le> N_VECTOR_UOPS
      \<and> vc_vl (i_vector_config (h p)) \<le> m * (VLEN div vc_sew (i_vector_config (h p)))
      \<and> (\<forall>k<m. k * (VLEN div vc_sew (i_vector_config (h p))) < vc_vl (i_vector_config (h p)))))
    \<and> (i_is_vector_whole_reg (h p) \<and> \<not> is_widening (getUopGenType (h p)) \<longrightarrow>
        (\<forall>n. (getMavisUid (h p), n) \<in> {(5, 1), (6, 2), (7, 4), (8, 8)}
             \<or> getMavisUid (h p) \<notin> {5, 6, 7, 8} \<and> oi_special_field (i_opcode_info (h p)) SF_NF = Some n \<longrightarrow>
           (if n \<le> N_VECTOR_UOPS then \<exists>g'. vg_setInst p h g = Inr g' \<and> vg_current_inst g' = Some p \<and> getNumUopsRemaining g' = n
            else vg_setInst p h g = Inl (SpartaAssert ''Cannot generate more than 8 vector uops''))))"
proof -
  define e where "e = VLEN div vc_sew (i_vector_config (h p))"
  define m where "m = (vc_vl (i_vector_config (h p)) + e - 1) div e"
  have e: "0 < e" using elems_pos[OF assms(2)] by (simp add: e_def)
  have "\<exists>g' m. vg_setInst p h g = Inr g' \<and> vg_current_inst g' = Some p
      \<and> getNumUopsRemaining g' = (if is_widening (getUopGenType (h p)) then 2 * m else m)
      \<and> getNumUopsRemaining g' \<le> N_VECTOR_UOPS \<and> vc_vl (i_vector_config (h p)) \<le> m * e
      \<and> (\<forall>k<m. k * e < vc_vl (i_vector_config (h p)))" if w: "\<not> i_is_vector_whole_reg (h p)"
  proof -
    have n: "num_uops_for (h p) = Inr (if is_widening (getUopGenType (h p)) then m * 2 else m)"
      "(if is_widening (getUopGenType (h p)) then m * 2 else m) \<le> N_VECTOR_UOPS"
      using num_uops_for_regular[OF assms(2) w assms(4)] unfolding m_def e_def by blast+
    have "\<exists>g'. vg_setInst p h g = Inr g' \<and> vg_current_inst g' = Some p
        \<and> getNumUopsRemaining g' = (if is_widening (getUopGenType (h p)) then 2 * m else m)"
      using assms(1,3) n by (auto simp: vg_setInst_def Let_def getNumUopsRemaining_def mult.commute)
    then obtain g' where g': "vg_setInst p h g = Inr g'" "vg_current_inst g' = Some p"
      "getNumUopsRemaining g' = (if is_widening (getUopGenType (h p)) then 2 * m else m)" by blast
    have "getNumUopsRemaining g' \<le> N_VECTOR_UOPS" using g'(3) n(2) by (simp add: mult.commute split: if_splits)
    moreover have "k * e < vc_vl (i_vector_config (h p))" if "k < m" for k using ceil_div_least[OF e] that by (simp add: m_def)
    ultimately show ?thesis using g' ceil_div_bounds(1)[OF e, of "vc_vl (i_vector_config (h p))"] unfolding m_def by blast
  qed
  moreover have "if n \<le> N_VECTOR_UOPS then \<exists>g'. vg_setInst p h g = Inr g' \<and> vg_current_inst g' = Some p \<and> getNumUopsRemaining g' = n
      else vg_setInst p h g = Inl (SpartaAssert ''Cannot generate more than 8 vector uops'')"
    if w: "i_is_vector_whole_reg (h p)" "\<not> is_widening (getUopGenType (h p))"
      and "(getMavisUid (h p), n) \<in> {(5, 1), (6, 2), (7, 4), (8, 8)} \<or>
        getMavisUid (h p) \<notin> {5, 6, 7, 8} \<and> oi_special_field (i_opcode_info (h p)) SF_NF = Some n" for n
  proof -
    have "whole_register_uops (h p) = Inr n" using that(3) by (auto simp: whole_register_uops_def Let_def)
    then have "num_uops_for (h p) = Inr n"
      using w assms(2) e by (simp add: num_uops_for_def Let_def vector_config_ok_def e_def)
    then show ?thesis using assms(1,3) by (auto simp: vg_setInst_def Let_def getNumUopsRemaining_def assertE_def)
  qed
  ultimately show ?thesis unfolding e_def by blast
qed

theorem vector_uop_count_covers_witness:
  "\<exists>g' m. vg_setInst 1 (\<lambda>_. ex_vec_inst 500) mk_VectorUopGenerator = Inr g' \<and> getNumUopsRemaining g' = m
     \<and> 500 \<le> m * 128 \<and> (\<forall>k<m. k * 128 < 500)"
proof -
  let ?i = "ex_vec_inst 500"
  have c: "vector_config_ok (i_vector_config ?i)" "getUopGenType ?i \<notin> {UG_UNKNOWN, UG_NONE}" "\<not> i_is_vector_whole_reg ?i"
    "\<not> is_widening (getUopGenType ?i)" "vc_vl (i_vector_config ?i) = 500" "VLEN div vc_sew (i_vector_config ?i) = 128"
    by (simp_all add: ex_vec_inst_def vector_config_ok_def VLEN_def getUopGenType_def is_widening_def sample_Inst_def)
  have i: "vg_current_inst mk_VectorUopGenerator = None" by (simp add: mk_VectorUopGenerator_def)
  from vector_uop_count_covers[where h = "\<lambda>_. ?i" and p = 1, OF i c(1,2)] c(3-6) show ?thesis by auto
qed



text \<open>C28. An instruction with vector length zero wedges the generator. For a legal configuration with vector length zero,
  and an instruction that is no whole-register instruction (or is widening, which comes first), \<open>setInst\<close> on an idle generator
  succeeds with a count of zero; the one micro-op that decode asks for is then produced (where Mavis builds it), no
  micro-op counts as remaining, yet the generator is not reset: the next vector instruction trips the assertion of \<open>setInst\<close>.\<close>

theorem vector_vl_zero_wedges_generator:
  assumes "vg_current_inst g0 = None" and "vector_config_ok (i_vector_config (h p))" and "vc_vl (i_vector_config (h p)) = 0"
    and "getUopGenType (h p) \<notin> {UG_UNKNOWN, UG_NONE}" and "is_widening (getUopGenType (h p)) \<or> \<not> i_is_vector_whole_reg (h p)"
    and "is_widening (getUopGenType (h p)) \<longrightarrow> vc_lmul (i_vector_config (h p)) \<le> 4"
    and "\<And>d. is_ok (mav d)" and "\<And>g. vg_setInst p h g0 = Inr g \<Longrightarrow> operands_ok (h p) g (vg_num_uops_generated g)"
  shows "\<exists>g g1 u. vg_setInst p h g0 = Inr g \<and> getNumUopsRemaining g = 0 \<and> generateUop mav h g = Inr (g1, u)
    \<and> getNumUopsRemaining g1 = 0
    \<and> vg_setInst q h' g1 = Inl (SpartaAssert ''current instruction has not finished'')"
proof -
  let ?e = "VLEN div vc_sew (i_vector_config (h p))"
  have e: "0 < ?e" by (rule elems_pos[OF assms(2)])
  then have "(?e - 1) div ?e = 0" by simp
  then have "num_uops_for (h p) = Inr 0"
    using assms(2,3,5,6) e by (auto simp: num_uops_for_def Let_def vector_config_ok_def)
  then obtain g where g: "vg_setInst p h g0 = Inr g" "vg_current_inst g = Some p" "vg_num_uops_to_generate g = 0"
    using assms(1,4) by (auto simp: vg_setInst_def Let_def)
  have "getUopGenType (h p) \<noteq> UG_UNKNOWN" "0 < vc_sew (i_vector_config (h p))"
    using assms(2,4) by (auto simp: vector_config_ok_def)
  from generateUop_ok[where h = h and mav = mav, OF g(2) this assms(8)[OF g(1)] assms(7)] g(3) obtain g1 u where
    "generateUop mav h g = Inr (g1, u)" "vg_current_inst g1 = Some p" "vg_num_uops_to_generate g1 = 0"
    using g(2) by (auto simp: Let_def)
  with g show ?thesis by (auto simp: vg_setInst_def getNumUopsRemaining_def)
qed

theorem vector_vl_zero_wedges_generator_witness:
  "\<exists>g1 u. vc_vl (i_vector_config (ex_vec_inst 0)) = 0
     \<and> vg_setInst 1 (\<lambda>_. ex_vec_inst 0) mk_VectorUopGenerator = Inr (ex_vg 0)
     \<and> generateUop ex_mavis (\<lambda>_. ex_vec_inst 0) (ex_vg 0) = Inr (g1, u)
     \<and> vg_setInst 2 (\<lambda>_. ex_vec_inst 500) g1 = Inl (SpartaAssert ''current instruction has not finished'')"
proof -
  have i: "vg_current_inst mk_VectorUopGenerator = None" by (simp add: mk_VectorUopGenerator_def)
  have c: "vector_config_ok (i_vector_config (ex_vec_inst 0))" "vc_vl (i_vector_config (ex_vec_inst 0)) = 0"
    "getUopGenType (ex_vec_inst 0) \<notin> {UG_UNKNOWN, UG_NONE}"
    "is_widening (getUopGenType (ex_vec_inst 0)) \<or> \<not> i_is_vector_whole_reg (ex_vec_inst 0)"
    "is_widening (getUopGenType (ex_vec_inst 0)) \<longrightarrow> vc_lmul (i_vector_config (ex_vec_inst 0)) \<le> 4"
    by (simp_all add: ex_vec_inst_def vector_config_ok_def VLEN_def getUopGenType_def is_widening_def sample_Inst_def)
  have o: "operands_ok (ex_vec_inst 0) g (vg_num_uops_generated g)"
    if "vg_setInst 1 (\<lambda>_. ex_vec_inst 0) mk_VectorUopGenerator = Inr g" for g
    using that ex_setInst(2) ex_operands_ok by simp
  from vector_vl_zero_wedges_generator[where h = "\<lambda>_. ex_vec_inst 0" and p = 1 and mav = ex_mavis, OF i c ex_mavis_ok o,
      of 2 "\<lambda>_. ex_vec_inst 500"] c(2) ex_setInst(2)
  show ?thesis by auto
qed

end
