(* ===== verification/DecodeUnit.thy ===== *)
theory DecodeUnit
  imports VectorUop
begin

text \<open>
  The decode unit (\<open>core/decode/Decode.hpp\<close>, \<open>core/decode/Decode.cpp\<close>) and its fusion support
  (\<open>core/decode/FusionDecode.cpp\<close>): the fetch queue, the decode session with micro-op generation,
  blocking on a \<open>vset\<close>, macro-op fusion and the flush.

  Three pieces of foreign code are parameters: Mavis (\<open>mav\<close>, as in the micro-op generator), the hash
  cache and match size of the fusion API (a submodule) and \<open>std::sort\<close>, which is given the comparison of the code and
  leaves equal elements in any order (\<open>fusion_api\<close>). The groups of the fusion container are given in its iteration order.
  A vector configuration is a value: only a \<open>vset\<close> changes a configuration in place, its own, at the
  moment decode takes it over. A micro-op gets the next free handle (\<open>dc_next\<close>) of the store.
\<close>

section \<open>State\<close>

record DecodeParameterSet =
  dcp_num_to_decode :: nat
  dcp_fetch_queue_size :: nat
  dcp_fusion_enable :: bool
  dcp_fusion_max_latency :: nat
  dcp_fusion_match_max_tries :: nat
  dcp_fusion_max_group_size :: nat
  dcp_init_lmul :: nat
  dcp_init_sew :: nat
  dcp_init_vl :: nat
  dcp_init_vta :: nat

datatype decode_event =
    OutFetchQueueCredits nat
  | OutUopQueueWrite "ptr list"
  | EvDecodeInsts nat

record Decode =
  dc_fetch_queue :: "ptr list"
  dc_uop_queue_credits :: nat
  dc_vec_uop_gen :: VectorUopGenerator
  dc_vector_config :: VectorConfig
  dc_waiting_on_vset :: bool
  dc_vset_block_start :: nat
  dc_vset_blocking_count :: nat
  dc_vset_blocking_stall_latency :: nat
  dc_latency_count :: nat
  dc_num_fuse_instructions :: nat
  dc_num_ghost_instructions :: nat
  dc_pred_cycles_saved :: nat
  dc_matched_groups :: "(string \<times> nat) list"
  dc_num_groups_utilized :: nat
  dc_next :: ptr
  dc_out :: "decode_event list"

text \<open>The constructor leaves \<open>waiting_on_vset_\<close> and \<open>vset_block_start_\<close> uninitialised: their first
  values are arguments, as is the first free handle.\<close>

definition mk_Decode :: "DecodeParameterSet \<Rightarrow> bool \<Rightarrow> nat \<Rightarrow> ptr \<Rightarrow> Decode result" where
  "mk_Decode pr waiting0 start0 next0 =
     bindE (mk_VectorConfig (dcp_init_vl pr) (dcp_init_sew pr) (dcp_init_lmul pr) (dcp_init_vta pr)) (\<lambda>vc.
       Inr \<lparr>dc_fetch_queue = [], dc_uop_queue_credits = 0, dc_vec_uop_gen = mk_VectorUopGenerator,
            dc_vector_config = vc, dc_waiting_on_vset = waiting0, dc_vset_block_start = start0,
            dc_vset_blocking_count = 0, dc_vset_blocking_stall_latency = 0, dc_latency_count = 0,
            dc_num_fuse_instructions = 0, dc_num_ghost_instructions = 0, dc_pred_cycles_saved = 0,
            dc_matched_groups = [], dc_num_groups_utilized = 0, dc_next = next0, dc_out = []\<rparr>)"

definition dc_emit :: "decode_event \<Rightarrow> Decode \<Rightarrow> Decode" where
  "dc_emit e s = s\<lparr>dc_out := dc_out s @ [e]\<rparr>"

definition getNumVecUopsRemaining :: "Decode \<Rightarrow> nat" where
  "getNumVecUopsRemaining s = getNumUopsRemaining (dc_vec_uop_gen s)"

definition dc_sendInitialCredits :: "DecodeParameterSet \<Rightarrow> Decode \<Rightarrow> Decode" where
  "dc_sendInitialCredits pr s = dc_emit (OutFetchQueueCredits (dcp_fetch_queue_size pr)) s"

section \<open>Handlers of credits, appends, vset results and flushes\<close>

definition receiveUopQueueCredits :: "nat \<Rightarrow> Decode \<Rightarrow> Decode" where
  "receiveUopQueueCredits credits s =
     (let s1 = s\<lparr>dc_uop_queue_credits := add32 (dc_uop_queue_credits s) credits\<rparr>
      in if length (dc_fetch_queue s1) > 0 then dc_emit (EvDecodeInsts 0) s1 else s1)"

definition dc_push :: "DecodeParameterSet \<Rightarrow> Decode \<Rightarrow> ptr \<Rightarrow> Decode result" where
  "dc_push pr s p =
     bindE (assertE (length (dc_fetch_queue s) < dcp_fetch_queue_size pr) ''fetch queue full'') (\<lambda>_.
       Inr (s\<lparr>dc_fetch_queue := dc_fetch_queue s @ [p]\<rparr>))"

definition fetchBufferAppended :: "DecodeParameterSet \<Rightarrow> ptr list \<Rightarrow> Decode \<Rightarrow> Decode result" where
  "fetchBufferAppended pr insts s =
     bindE (foldE (dc_push pr) s insts) (\<lambda>s1.
       Inr (if dc_uop_queue_credits s1 > 0 then dc_emit (EvDecodeInsts 0) s1 else s1))"

definition updateVectorConfig :: "ptr \<Rightarrow> Decode \<times> heap \<Rightarrow> Decode \<times> heap" where
  "updateVectorConfig p sh =
     (case sh of (s, h) \<Rightarrow>
        let vc = i_vector_config (h p);
            vc1 = (if getMavisUid (h p) = MAVIS_UID_VSETVLI \<and> hasZeroRegSource (h p)
                   then setVL (if hasZeroRegDest (h p) then min (vc_vl vc) (vc_vlmax vc) else vc_vlmax vc) vc
                   else vc)
        in (s\<lparr>dc_vector_config := vc1\<rparr>, h(p := (h p)\<lparr>i_vector_config := vc1\<rparr>)))"

text \<open>\<open>now\<close> is the current cycle of the clock; its difference is a 64-bit subtraction.\<close>

definition processVset :: "nat \<Rightarrow> ptr \<Rightarrow> Decode \<times> heap \<Rightarrow> Decode \<times> heap" where
  "processVset now p sh =
     (case updateVectorConfig p sh of (s, h) \<Rightarrow>
        if dc_waiting_on_vset s
        then (dc_emit (EvDecodeInsts 0)
                (s\<lparr>dc_vset_blocking_stall_latency := dc_vset_blocking_stall_latency s + (now - dc_vset_block_start s),
                   dc_waiting_on_vset := False\<rparr>), h)
        else (s, h))"

definition dc_handleFlush :: "FlushingCriteria \<Rightarrow> heap \<Rightarrow> Decode \<Rightarrow> Decode" where
  "dc_handleFlush c h s =
     (let s1 = (dc_emit (OutFetchQueueCredits (length (dc_fetch_queue s))) s)\<lparr>dc_fetch_queue := []\<rparr>
      in s1\<lparr>dc_vec_uop_gen := vg_handleFlush c h (dc_vec_uop_gen s1)\<rparr>)"

section \<open>Fusion\<close>

record FusionGroup =
  fg_name :: string
  fg_uids :: "nat list"

record FusionGroupMatchInfo =
  mi_name :: string
  mi_startIdx :: nat
  mi_uids :: "nat list"

type_synonym HCache = "nat \<rightharpoonup> (nat \<times> nat) list"

record fusion_api =
  fa_build :: "nat list \<Rightarrow> nat \<Rightarrow> HCache \<Rightarrow> HCache"
  fa_size :: "FusionGroupMatchInfo \<Rightarrow> nat"
  fa_sort :: "(FusionGroupMatchInfo \<Rightarrow> FusionGroupMatchInfo \<Rightarrow> bool) \<Rightarrow> FusionGroupMatchInfo list \<Rightarrow> FusionGroupMatchInfo list"

definition match_before :: "fusion_api \<Rightarrow> FusionGroupMatchInfo \<Rightarrow> FusionGroupMatchInfo \<Rightarrow> bool" where
  "match_before fa lhs rhs =
     (if fa_size fa lhs = fa_size fa rhs then mi_startIdx lhs < mi_startIdx rhs
      else fa_size fa lhs > fa_size fa rhs)"

definition build_cache :: "fusion_api \<Rightarrow> nat list \<Rightarrow> (nat \<times> FusionGroup) list \<Rightarrow> HCache \<Rightarrow> HCache" where
  "build_cache fa uids groups hc =
     fold (\<lambda>(hash, g) c. if length (fg_uids g) > length uids then c else fa_build fa uids (length (fg_uids g)) c)
       groups hc"

text \<open>The inner comparison, with its loop from \<open>startIdx\<close> to the group size.\<close>

definition segment_matches :: "nat list \<Rightarrow> nat list \<Rightarrow> nat \<Rightarrow> bool" where
  "segment_matches uids grp startIdx =
     list_all (\<lambda>i. uids ! i = grp ! (i - startIdx)) [startIdx ..< length grp]"

definition group_matches :: "nat list \<Rightarrow> nat \<times> FusionGroup \<Rightarrow> (nat \<times> nat) list \<Rightarrow> FusionGroupMatchInfo list" where
  "group_matches uids hg pairs =
     (case hg of (grpHash, g) \<Rightarrow>
        map (\<lambda>ep. \<lparr>mi_name = fg_name g, mi_startIdx = fst ep, mi_uids = fg_uids g\<rparr>)
          (filter (\<lambda>ep. snd ep = grpHash \<and> segment_matches uids (fg_uids g) (fst ep)) pairs))"

definition match_group ::
    "fusion_api \<Rightarrow> nat list \<Rightarrow> HCache \<times> FusionGroupMatchInfo list \<Rightarrow> nat \<times> FusionGroup
       \<Rightarrow> (HCache \<times> FusionGroupMatchInfo list) result" where
  "match_group fa uids cm hg =
     (case cm of (hc, ms) \<Rightarrow>
        let n = length (fg_uids (snd hg)) in
        if n > length uids then Inr (hc, ms)
        else let hc1 = (if hc n = None then fa_build fa uids n hc else hc) in
          (case hc1 n of
             None \<Rightarrow> Inl (SpartaAssert ''hcache find'')
           | Some pairs \<Rightarrow> Inr (hc1, ms @ group_matches uids hg pairs)))"

definition matchFusionGroups ::
    "fusion_api \<Rightarrow> nat list \<Rightarrow> (nat \<times> FusionGroup) list \<Rightarrow> FusionGroupMatchInfo list result" where
  "matchFusionGroups fa uids groups =
     bindE (foldE (match_group fa uids) (build_cache fa uids groups Map.empty, []) groups) (\<lambda>(hc, ms).
       Inr (fa_sort fa (match_before fa) ms))"

fun count_group :: "string \<Rightarrow> (string \<times> nat) list \<Rightarrow> (string \<times> nat) list" where
  "count_group nm [] = [(nm, 1)]"
| "count_group nm ((k, v) # kvs) = (if k = nm then (k, v + 1) # kvs else (k, v) # count_group nm kvs)"

definition updateFusionGroupUtilization :: "string \<Rightarrow> Decode \<Rightarrow> Decode" where
  "updateFusionGroupUtilization nm s =
     (let m = count_group nm (dc_matched_groups s)
      in s\<lparr>dc_matched_groups := m, dc_num_groups_utilized := length m\<rparr>)"

definition ghost_one :: "ptr list \<Rightarrow> Decode \<times> heap \<Rightarrow> nat \<Rightarrow> (Decode \<times> heap) result" where
  "ghost_one insts sh k =
     (case sh of (s, h) \<Rightarrow>
        bindE (assertE (k < length insts) ''processMatches inst iterator exceeded range'') (\<lambda>_.
        bindE (setExtendedStatus FUSION_GHOST (h (insts ! k))) (\<lambda>i.
          Inr (s\<lparr>dc_num_ghost_instructions := dc_num_ghost_instructions s + 1,
                 dc_pred_cycles_saved := dc_pred_cycles_saved s + 1\<rparr>, h(insts ! k := i)))))"

definition process_match ::
    "fusion_api \<Rightarrow> ptr list \<Rightarrow> Decode \<times> heap \<Rightarrow> FusionGroupMatchInfo \<Rightarrow> (Decode \<times> heap) result" where
  "process_match fa insts sh m =
     (case sh of (s, h) \<Rightarrow>
        if length insts \<le> mi_startIdx m then Inl (UndefinedBehaviour ''iterator past the end'')
        else let p = insts ! mi_startIdx m in
          if i_extended_status (h p) = UNMOD
          then bindE (setExtendedStatus FUSED (h p)) (\<lambda>i.
               bindE (foldE (ghost_one insts)
                        (s\<lparr>dc_num_fuse_instructions := dc_num_fuse_instructions s + 1\<rparr>, h(p := i))
                        [mi_startIdx m + 1 ..< mi_startIdx m + fa_size fa m]) (\<lambda>(s1, h1).
                 Inr (updateFusionGroupUtilization (mi_name m) s1, h1)))
          else Inr (s, h))"

text \<open>Returns the list of matches as \<open>processMatches_\<close> leaves it.\<close>

definition processMatches ::
    "fusion_api \<Rightarrow> ptr list \<Rightarrow> FusionGroupMatchInfo list \<Rightarrow> Decode \<times> heap
       \<Rightarrow> (Decode \<times> heap \<times> FusionGroupMatchInfo list) result" where
  "processMatches fa insts ms sh =
     (if ms = [] then Inr (fst sh, snd sh, ms)
      else bindE (foldE (process_match fa insts) sh ms) (\<lambda>(s, h). Inr (s, h, [])))"

text \<open>The do-while loop with its iteration counter.\<close>

function fuse_loop ::
    "fusion_api \<Rightarrow> (nat \<times> FusionGroup) list \<Rightarrow> nat \<Rightarrow> ptr list \<Rightarrow> nat list \<Rightarrow> nat \<Rightarrow> Decode \<times> heap
       \<Rightarrow> (Decode \<times> heap \<times> nat) result" where
  "fuse_loop fa groups tries insts uids itrs sh =
     bindE (matchFusionGroups fa uids groups) (\<lambda>ms.
     bindE (processMatches fa insts ms sh) (\<lambda>(s, h, ms1).
       if ms1 \<noteq> [] \<and> itrs + 1 < tries then fuse_loop fa groups tries insts uids (itrs + 1) (s, h)
       else Inr (s, h, itrs + 1)))"
  by pat_completeness auto
termination
  by (relation "measure (\<lambda>(fa, groups, tries, insts, uids, itrs, sh). tries - itrs)") auto

declare fuse_loop.simps [simp del]

definition fuse_insts ::
    "fusion_api \<Rightarrow> (nat \<times> FusionGroup) list \<Rightarrow> DecodeParameterSet \<Rightarrow> ptr list \<Rightarrow> nat list \<Rightarrow> Decode \<times> heap
       \<Rightarrow> (Decode \<times> heap) result" where
  "fuse_insts fa groups pr insts uids sh =
     bindE (fuse_loop fa groups (dcp_fusion_match_max_tries pr) insts uids 0 sh) (\<lambda>(s, h, itrs).
       if dcp_fusion_match_max_tries pr \<le> itrs
       then Inl (SpartaException ''Fusion group match watch dog exceeded.'')
       else Inr (s, h))"

definition whereIsEgon :: "heap \<Rightarrow> ptr list \<Rightarrow> nat \<Rightarrow> ptr list \<times> nat" where
  "whereIsEgon h insts numGhosts =
     (filter (\<lambda>p. i_extended_status (h p) \<noteq> FUSION_GHOST) insts,
      numGhosts + length (filter (\<lambda>p. i_extended_status (h p) = FUSION_GHOST) insts))"

section \<open>The decode session\<close>

text \<open>\<open>generateUop\<close>, a fresh handle for its result, and the status change.\<close>

definition decode_uop ::
    "(direct_op_info \<Rightarrow> Inst result) \<Rightarrow> Decode \<times> heap \<Rightarrow> (Decode \<times> heap \<times> ptr) result" where
  "decode_uop mav sh =
     (case sh of (s, h) \<Rightarrow>
        bindE (generateUop mav h (dc_vec_uop_gen s)) (\<lambda>(g, uop).
        bindE (setStatus DECODED uop) (\<lambda>(uop1, _).
          Inr (s\<lparr>dc_vec_uop_gen := g, dc_next := dc_next s + 1\<rparr>, h(dc_next s := uop1), dc_next s))))"

definition decode_vset :: "nat \<Rightarrow> ptr \<Rightarrow> Decode \<times> heap \<Rightarrow> Decode \<times> heap" where
  "decode_vset now p sh =
     (case sh of (s, h) \<Rightarrow>
        let uid = getMavisUid (h p) in
        if uid = MAVIS_UID_VSETIVLI \<or> (uid = MAVIS_UID_VSETVLI \<and> hasZeroRegSource (h p))
        then updateVectorConfig p (s, h)
        else if uid = MAVIS_UID_VSETVLI \<or> uid = MAVIS_UID_VSETVL
        then (s\<lparr>dc_vset_blocking_count := dc_vset_blocking_count s + 1, dc_vset_block_start := now,
                dc_waiting_on_vset := True\<rparr>, h(p := (h p)\<lparr>i_is_blocking_vset := True\<rparr>))
        else if \<not> isVset (h p) \<and> i_is_vector (h p)
        then (s, h(p := (h p)\<lparr>i_vector_config := dc_vector_config s\<rparr>))
        else (s, h))"

definition needs_uops :: "Inst \<Rightarrow> bool" where
  "needs_uops i = (i_is_vector i \<and> \<not> isVset i \<and> getUopGenType i \<noteq> UG_NONE)"

text \<open>One entry of the fetch queue; the result is the handle appended to the group.\<close>

definition decode_inst ::
    "(direct_op_info \<Rightarrow> Inst result) \<Rightarrow> nat \<Rightarrow> ptr \<Rightarrow> Decode \<times> heap \<Rightarrow> (Decode \<times> heap \<times> ptr) result" where
  "decode_inst mav now p sh =
     (case decode_vset now p sh of (s, h) \<Rightarrow>
        if needs_uops (h p)
        then bindE (vg_setInst p h (dc_vec_uop_gen s)) (\<lambda>g. decode_uop mav (s\<lparr>dc_vec_uop_gen := g\<rparr>, h))
        else bindE (setStatus DECODED (h p)) (\<lambda>(i, _). Inr (s, h(p := i), p)))"

fun decode_loop ::
    "(direct_op_info \<Rightarrow> Inst result) \<Rightarrow> DecodeParameterSet \<Rightarrow> nat \<Rightarrow> nat
       \<Rightarrow> Decode \<times> heap \<times> ptr list \<times> nat list \<Rightarrow> (Decode \<times> heap \<times> ptr list \<times> nat list) result" where
  "decode_loop mav pr now 0 st = Inr st"
| "decode_loop mav pr now (Suc k) (s, h, insts, uids) =
     (if dc_waiting_on_vset s then Inr (s, h, insts, uids)
      else if getNumUopsRemaining (dc_vec_uop_gen s) > 0
      then bindE (decode_uop mav (s, h)) (\<lambda>(s1, h1, u). decode_loop mav pr now k (s1, h1, insts @ [u], uids))
      else (case dc_fetch_queue s of
              [] \<Rightarrow> Inr (s, h, insts, uids)
            | p # rest \<Rightarrow>
                bindE (decode_inst mav now p (s, h)) (\<lambda>(s1, h1, u).
                  decode_loop mav pr now k
                    (s1\<lparr>dc_fetch_queue := rest\<rparr>, h1, insts @ [u],
                     if dcp_fusion_enable pr then uids @ [getMavisUid (h1 p)] else uids))))"

definition decode_tail :: "ptr list \<Rightarrow> Decode \<Rightarrow> Decode" where
  "decode_tail insts s =
     (let s1 = dc_emit (OutUopQueueWrite insts) s;
          s2 = s1\<lparr>dc_uop_queue_credits := sub32 (dc_uop_queue_credits s1) (length insts)\<rparr>;
          s3 = dc_emit (OutFetchQueueCredits (length insts)) s2
      in if dc_uop_queue_credits s3 > 0 \<and> length (dc_fetch_queue s3) + getNumVecUopsRemaining s3 > 0
         then dc_emit (EvDecodeInsts 1) s3 else s3)"

definition decodeInsts ::
    "(direct_op_info \<Rightarrow> Inst result) \<Rightarrow> fusion_api \<Rightarrow> (nat \<times> FusionGroup) list \<Rightarrow> DecodeParameterSet \<Rightarrow> nat
       \<Rightarrow> Decode \<times> heap \<Rightarrow> (Decode \<times> heap) result" where
  "decodeInsts mav fa groups pr now sh =
     (case sh of (s, h) \<Rightarrow>
        let num_to_decode = min (dc_uop_queue_credits s) (dcp_num_to_decode pr) in
        if dcp_fusion_enable pr \<and> num_to_decode < dcp_fusion_max_group_size pr
           \<and> dc_latency_count s < dcp_fusion_max_latency pr
        then Inr (s\<lparr>dc_latency_count := dc_latency_count s + 1\<rparr>, h)
        else
          bindE (decode_loop mav pr now num_to_decode (s\<lparr>dc_latency_count := 0\<rparr>, h, [], [])) (\<lambda>(s1, h1, insts, uids).
          bindE (if dcp_fusion_enable pr then fuse_insts fa groups pr insts uids (s1, h1) else Inr (s1, h1)) (\<lambda>(s2, h2).
            Inr (decode_tail insts s2, h2))))"

end
