(* ===== verification/DecodeProps.thy ===== *)
theory DecodeProps
  imports DecodeUnit Credits
begin

text \<open>
  Properties of the decode unit: order and completeness of a decode session, the vector configuration
  each instruction gets, blocking on a \<open>vset\<close>, conservation of fetch-queue credits, and what fusion
  matches. \<open>decode_ok\<close> is the well-formedness of queue, generator and configuration that every decode
  session keeps; \<open>decoded_by\<close> describes a stretch of the decode loop and composes step by step.
\<close>

section \<open>Instructions that decode accepts\<close>

definition blocking_vset :: "Inst \<Rightarrow> bool" where
  "blocking_vset i \<longleftrightarrow> getMavisUid i = MAVIS_UID_VSETVL \<or> getMavisUid i = MAVIS_UID_VSETVLI \<and> \<not> hasZeroRegSource i"

definition immediate_vset :: "Inst \<Rightarrow> bool" where
  "immediate_vset i \<longleftrightarrow> getMavisUid i = MAVIS_UID_VSETIVLI \<or> getMavisUid i = MAVIS_UID_VSETVLI \<and> hasZeroRegSource i"

text \<open>The configuration in force after an instruction, and after a sequence.\<close>

definition vset_config :: "Inst \<Rightarrow> VectorConfig" where
  "vset_config i =
     (let vc = i_vector_config i in
      if getMavisUid i = MAVIS_UID_VSETVLI \<and> hasZeroRegSource i
      then setVL (if hasZeroRegDest i then min (vc_vl vc) (vc_vlmax vc) else vc_vlmax vc) vc else vc)"

definition config_step :: "Inst \<Rightarrow> VectorConfig \<Rightarrow> VectorConfig" where
  "config_step i vc = (if immediate_vset i then vset_config i else vc)"

definition config_good :: "nat \<Rightarrow> VectorConfig \<Rightarrow> bool" where
  "config_good L vc \<longleftrightarrow> vector_config_ok vc \<and> 0 < vc_vl vc \<and> vc_lmul vc \<le> L"

definition operands_exist :: "Inst \<Rightarrow> bool" where
  "operands_exist i \<longleftrightarrow> (\<forall>g k. vg_modifiers g = vg_modifiers (int_ext_modifier i mk_VectorUopGenerator)
     \<longrightarrow> operands_ok i g k)"

definition entry_ok :: "nat \<Rightarrow> Inst \<Rightarrow> bool" where
  "entry_ok L i \<longleftrightarrow> i_status i < DECODED \<and> i_parent_uop i = None
   \<and> (immediate_vset i \<or> blocking_vset i \<longrightarrow> isVset i)
   \<and> (immediate_vset i \<longrightarrow> config_good L (i_vector_config i))
   \<and> (needs_uops i \<longrightarrow> getUopGenType i \<noteq> UG_UNKNOWN \<and> (is_widening (getUopGenType i) \<longrightarrow> L \<le> 4)
        \<and> \<not> i_is_vector_whole_reg i \<and> operands_exist i)"

definition mavis_ok :: "(direct_op_info \<Rightarrow> Inst result) \<Rightarrow> bool" where
  "mavis_ok mav \<longleftrightarrow> (\<forall>d. \<exists>u. mav d = Inr u \<and> i_status u < DECODED)"

definition current_of :: "Decode \<Rightarrow> ptr list" where
  "current_of s = (if getNumUopsRemaining (dc_vec_uop_gen s) > 0
     then (case vg_current_inst (dc_vec_uop_gen s) of Some p \<Rightarrow> [p] | None \<Rightarrow> []) else [])"

definition gen_idle :: "VectorUopGenerator \<Rightarrow> bool" where
  "gen_idle g \<longleftrightarrow> vg_num_uops_to_generate g = 0 \<and> vg_current_inst g = None \<and> vg_num_uops_generated g = 0
     \<and> vg_modifiers g = []"

definition gen_busy :: "heap \<Rightarrow> VectorUopGenerator \<Rightarrow> bool" where
  "gen_busy h g \<longleftrightarrow> (\<exists>c. vg_current_inst g = Some c \<and> vg_num_uops_generated g < vg_num_uops_to_generate g
     \<and> getUopGenType (h c) \<noteq> UG_UNKNOWN \<and> 0 < vc_sew (i_vector_config (h c)) \<and> (\<forall>k. operands_ok (h c) g k))"

definition decode_ok :: "nat \<Rightarrow> heap \<Rightarrow> Decode \<Rightarrow> bool" where
  "decode_ok L h s \<longleftrightarrow> distinct (current_of s @ dc_fetch_queue s)
   \<and> (\<forall>p\<in>set (current_of s @ dc_fetch_queue s). p < dc_next s)
   \<and> (\<forall>p\<in>set (dc_fetch_queue s). entry_ok L (h p))
   \<and> config_good L (dc_vector_config s)
   \<and> (gen_idle (dc_vec_uop_gen s) \<or> gen_busy h (dc_vec_uop_gen s))"

definition origin :: "heap \<Rightarrow> ptr \<Rightarrow> ptr" where
  "origin h u = (case i_parent_uop (h u) of Some p \<Rightarrow> p | None \<Rightarrow> u)"

text \<open>What a stretch of the decode loop does: \<open>new\<close> are the handles it emits, \<open>popped\<close> the entries
  it takes from the fetch queue.\<close>

definition decoded_by :: "heap \<Rightarrow> Decode \<Rightarrow> ptr list \<Rightarrow> ptr list \<Rightarrow> Decode \<Rightarrow> heap \<Rightarrow> bool" where
  "decoded_by h s new popped s' h' \<longleftrightarrow>
     dc_fetch_queue s = popped @ dc_fetch_queue s'
   \<and> remdups_adj (current_of s @ map (origin h') new) = current_of s @ popped
   \<and> (\<forall>u\<in>set new. i_status (h' u) = DECODED)
   \<and> dc_vector_config s' = fold config_step (map h popped) (dc_vector_config s)
   \<and> (\<forall>j<length popped. i_is_vector (h (popped ! j)) \<and> \<not> isVset (h (popped ! j)) \<longrightarrow>
        i_vector_config (h' (popped ! j)) = fold config_step (map h (take j popped)) (dc_vector_config s))
   \<and> (dc_waiting_on_vset s' \<longleftrightarrow> popped \<noteq> [] \<and> blocking_vset (h (last popped)))
   \<and> (\<forall>p\<in>set (butlast popped). \<not> blocking_vset (h p))
   \<and> dc_uop_queue_credits s' = dc_uop_queue_credits s \<and> dc_out s' = dc_out s
   \<and> dc_next s \<le> dc_next s' \<and> (\<forall>q<dc_next s. q \<notin> set popped \<longrightarrow> h' q = h q)
   \<and> set new \<subseteq> set popped \<union> {dc_next s ..< dc_next s'}"

section \<open>One iteration of the loop\<close>

lemma generateUop_status:
  assumes "generateUop mav h g = Inr (g', u)" and "mavis_ok mav"
  shows "i_status u < DECODED"
proof -
  from assms(1) obtain parent srcs dests u0 where "makeInst mav parent srcs dests = Inr u0" "i_status u = i_status u0"
    by (auto simp: generateUop_def Let_def bindE_eq_Inr split: option.splits if_splits)
  moreover from this obtain d where "mav d = Inr u0"
    by (auto simp: makeInst_def bindE_eq_Inr split: if_splits)
  moreover from assms(2) obtain v where "mav d = Inr v" "i_status v < DECODED" unfolding mavis_ok_def by blast
  ultimately show ?thesis by simp
qed

lemma mavis_okD: "mavis_ok mav \<Longrightarrow> is_ok (mav d)"
  unfolding mavis_ok_def is_ok_iff by blast

lemma current_of_busy: "gen_busy h (dc_vec_uop_gen s) \<Longrightarrow> \<exists>c. vg_current_inst (dc_vec_uop_gen s) = Some c \<and> current_of s = [c]"
  by (auto simp: gen_busy_def current_of_def getNumUopsRemaining_def)

lemma current_of_idle: "gen_idle (dc_vec_uop_gen s) \<Longrightarrow> current_of s = []"
  by (auto simp: gen_idle_def current_of_def getNumUopsRemaining_def)

lemma operands_ok_cong:
  "vg_modifiers g1 = vg_modifiers g \<Longrightarrow> vg_num_uops_to_generate g1 = vg_num_uops_to_generate g
     \<Longrightarrow> operands_ok i g1 k = operands_ok i g k"
  by (simp add: operands_ok_def uop_operands_def getModifier_def Let_def cong: if_cong)

lemma decode_uop_ok:
  assumes "gen_busy h (dc_vec_uop_gen s)" and "vg_current_inst (dc_vec_uop_gen s) = Some c" and "mavis_ok mav"
    and "c < dc_next s"
  shows "\<exists>g u. decode_uop mav (s, h) = Inr (s\<lparr>dc_vec_uop_gen := g, dc_next := dc_next s + 1\<rparr>, h(dc_next s := u), dc_next s)
    \<and> i_status u = DECODED \<and> i_parent_uop u = Some c \<and> (gen_idle g \<or> gen_busy (h(dc_next s := u)) g \<and> vg_current_inst g = Some c)"
proof -
  let ?g = "dc_vec_uop_gen s"
  have b: "vg_num_uops_generated ?g < vg_num_uops_to_generate ?g" "getUopGenType (h c) \<noteq> UG_UNKNOWN"
    "0 < vc_sew (i_vector_config (h c))" "\<And>k. operands_ok (h c) ?g k"
    using assms(1,2) by (auto simp: gen_busy_def)
  define g1 where "g1 = ?g\<lparr>vg_num_uops_generated := vg_num_uops_generated ?g + 1,
                        vg_vuops_generated := vg_vuops_generated ?g + 1\<rparr>"
  define g where "g = (if vg_num_uops_generated ?g + 1 = vg_num_uops_to_generate ?g then vg_reset g1 else g1)"
  from generateUop_ok[where h = h and mav = mav, OF assms(2) b(2,3,4) mavis_okD[OF assms(3)]]
  obtain u where u: "generateUop mav h ?g = Inr (g, u)" "uop_of h c (vg_num_uops_generated ?g) u"
    by (auto simp: g_def g1_def Let_def)
  have st: "setStatus DECODED u = Inr (u\<lparr>i_status := DECODED\<rparr>, False)"
    using generateUop_status[OF u(1) assms(3)] by (simp add: setStatus_ok_iff)
  have "gen_idle g \<or> gen_busy (h(dc_next s := v)) g \<and> vg_current_inst g = Some c" for v
  proof (cases "vg_num_uops_generated ?g + 1 = vg_num_uops_to_generate ?g")
    case True
    then show ?thesis by (simp add: g_def gen_idle_def vg_reset_def)
  next
    case False
    have "operands_ok (h c) g1 k" for k using b(4)[of k] operands_ok_cong[of g1 ?g] by (simp add: g1_def)
    then have "gen_busy (h(dc_next s := v)) g1"
      using False b assms(2,4) by (auto simp: gen_busy_def g1_def)
    then show ?thesis using False assms(2) by (simp add: g_def g1_def)
  qed
  with u st show ?thesis
    by (auto simp: decode_uop_def uop_of_def intro!: exI[of _ g])
qed

lemma vset_config_good:
  assumes "config_good L (i_vector_config i)"
  shows "config_good L (vset_config i)"
proof -
  have "0 < vc_vlmax (i_vector_config i)"
    using assms unfolding config_good_def vector_config_ok_def by linarith
  with assms show ?thesis by (simp add: config_good_def vset_config_def vector_config_ok_def setVL_def Let_def)
qed

lemma config_step_good: "entry_ok L i \<Longrightarrow> config_good L vc \<Longrightarrow> config_good L (config_step i vc)"
  by (auto simp: config_step_def entry_ok_def vset_config_good)

text \<open>What the \<open>vset\<close> part of the loop body does, case by case.\<close>

lemma decode_vset_eq:
  "decode_vset now p (s, h) =
    (if immediate_vset (h p)
     then (s\<lparr>dc_vector_config := vset_config (h p)\<rparr>, h(p := (h p)\<lparr>i_vector_config := vset_config (h p)\<rparr>))
     else if blocking_vset (h p)
     then (s\<lparr>dc_vset_blocking_count := dc_vset_blocking_count s + 1, dc_vset_block_start := now,
             dc_waiting_on_vset := True\<rparr>, h(p := (h p)\<lparr>i_is_blocking_vset := True\<rparr>))
     else if \<not> isVset (h p) \<and> i_is_vector (h p)
     then (s, h(p := (h p)\<lparr>i_vector_config := dc_vector_config s\<rparr>))
     else (s, h))"
  by (auto simp: decode_vset_def updateVectorConfig_def vset_config_def immediate_vset_def blocking_vset_def Let_def)


lemma vset_disjoint: "immediate_vset i \<Longrightarrow> \<not> blocking_vset i"
  by (auto simp: immediate_vset_def blocking_vset_def)

lemma vset_no_uops: "entry_ok L i \<Longrightarrow> immediate_vset i \<or> blocking_vset i \<Longrightarrow> \<not> needs_uops i"
  by (auto simp: entry_ok_def needs_uops_def)

lemma static_of_config [simp]:
  "getUopGenType (i\<lparr>i_vector_config := vc\<rparr>) = getUopGenType i" "isVset (i\<lparr>i_vector_config := vc\<rparr>) = isVset i"
  "getMavisUid (i\<lparr>i_vector_config := vc\<rparr>) = getMavisUid i" "needs_uops (i\<lparr>i_vector_config := vc\<rparr>) = needs_uops i"
  "needs_uops (i\<lparr>i_is_blocking_vset := b\<rparr>) = needs_uops i"
  "operands_ok (i\<lparr>i_vector_config := vc\<rparr>) g k = operands_ok i g k"
  by (simp_all add: getUopGenType_def isVset_def getMavisUid_def needs_uops_def operands_ok_def)

text \<open>Starting a vector instruction on an idle generator.\<close>

lemma vg_setInst_ok:
  assumes "gen_idle g" and "entry_ok L i" and "needs_uops i" and "config_good L vc"
    and "h p = i\<lparr>i_vector_config := vc\<rparr>"
  shows "\<exists>g'. vg_setInst p h g = Inr g' \<and> gen_busy h g' \<and> vg_current_inst g' = Some p"
proof -
  have e: "getUopGenType i \<noteq> UG_UNKNOWN" "getUopGenType i \<noteq> UG_NONE" "is_widening (getUopGenType i) \<longrightarrow> vc_lmul vc \<le> 4"
    "\<not> i_is_vector_whole_reg i" "operands_exist i"
    using assms(2-4) by (auto simp: entry_ok_def needs_uops_def config_good_def)
  have c: "vector_config_ok vc" "0 < vc_vl vc" "0 < vc_sew vc"
    using assms(4) by (auto simp: config_good_def vector_config_ok_def)
  define n where "n = (let el = VLEN div vc_sew vc; m = (vc_vl vc + el - 1) div el
     in if is_widening (getUopGenType i) then m * 2 else m)"
  have hp: "i_vector_config (h p) = vc" "getUopGenType (h p) = getUopGenType i"
    "i_is_vector_whole_reg (h p) = i_is_vector_whole_reg i" by (simp_all add: assms(5))
  have n: "num_uops_for (h p) = Inr n" "n \<le> N_VECTOR_UOPS"
    using num_uops_for_regular[of "h p", unfolded hp, OF c(1) e(4,3)] unfolding n_def Let_def by blast+
  have "0 < n"
  proof -
    have "vc_vl vc \<le> (vc_vl vc + VLEN div vc_sew vc - 1) div (VLEN div vc_sew vc) * (VLEN div vc_sew vc)"
      by (rule ceil_div_bounds(1)[OF elems_pos[OF c(1)]])
    with c(2) have "0 < (vc_vl vc + VLEN div vc_sew vc - 1) div (VLEN div vc_sew vc)" by (metis gr0I le_zero_eq mult_0 not_gr_zero)
    then show ?thesis by (simp add: n_def Let_def)
  qed
  define g' where "g' = (int_ext_modifier (h p) g)\<lparr>vg_num_uops_to_generate := n, vg_current_inst := Some p\<rparr>"
  have "vg_modifiers g' = vg_modifiers (int_ext_modifier i mk_VectorUopGenerator)" "vg_num_uops_generated g' = 0"
    using assms(1) by (auto simp: g'_def int_ext_modifier_def addModifier_def gen_idle_def mk_VectorUopGenerator_def assms(5))
  then have "gen_busy h g'" using e(1,5) c(3) \<open>0 < n\<close>
    by (auto simp: gen_busy_def g'_def assms(5) operands_exist_def)
  moreover have "vg_setInst p h g = Inr g'"
    using assms(1) e(1,2) n by (simp add: vg_setInst_def gen_idle_def assms(5) g'_def Let_def)
  ultimately show ?thesis by (simp add: g'_def)
qed


lemma decode_ok_busy: "decode_ok L h s \<Longrightarrow> getNumUopsRemaining (dc_vec_uop_gen s) > 0 \<Longrightarrow> gen_busy h (dc_vec_uop_gen s)"
  by (auto simp: decode_ok_def gen_idle_def getNumUopsRemaining_def)

lemma decode_ok_idle: "decode_ok L h s \<Longrightarrow> getNumUopsRemaining (dc_vec_uop_gen s) = 0 \<Longrightarrow> gen_idle (dc_vec_uop_gen s)"
  by (auto simp: decode_ok_def gen_busy_def getNumUopsRemaining_def)

text \<open>A heap change at a popped entry and at fresh handles leaves what is queued as it was.\<close>

lemma decode_ok_frame:
  assumes "decode_ok L h s" and "dc_fetch_queue s1 = rest" and "dc_fetch_queue s = ps @ rest"
    and "set (current_of s1) \<subseteq> set (current_of s) \<union> set ps" and "dc_next s \<le> dc_next s1"
    and "\<And>q. q \<in> set rest \<Longrightarrow> h1 q = h q" and "config_good L (dc_vector_config s1)"
    and "gen_idle (dc_vec_uop_gen s1) \<or> gen_busy h1 (dc_vec_uop_gen s1)"
  shows "decode_ok L h1 s1"
proof -
  have d: "distinct (current_of s @ ps @ rest)" "\<And>q. q \<in> set (current_of s @ ps @ rest) \<Longrightarrow> q < dc_next s"
    "\<And>q. q \<in> set rest \<Longrightarrow> entry_ok L (h q)"
    using assms(1,3) by (auto simp: decode_ok_def)
  have "distinct (current_of s1)" by (auto simp: current_of_def split: option.splits)
  moreover have "set (current_of s1) \<inter> set rest = {}" using assms(4) d(1) by auto
  ultimately have "distinct (current_of s1 @ rest)" using d(1) by simp
  moreover have "q < dc_next s1" if "q \<in> set (current_of s1 @ rest)" for q
    using that assms(4,5) d(2)[of q] by auto
  ultimately show ?thesis using assms(2,6,7,8) d(3) unfolding decode_ok_def by simp
qed

lemma current_of_subset: "set (current_of s) \<subseteq> set_option (vg_current_inst (dc_vec_uop_gen s))"
  by (cases "getNumUopsRemaining (dc_vec_uop_gen s) > 0"; cases "vg_current_inst (dc_vec_uop_gen s)")
    (simp_all add: current_of_def)

lemma decode_uop_step:
  assumes "decode_ok L h s" and "getNumUopsRemaining (dc_vec_uop_gen s) > 0" and "mavis_ok mav" and "\<not> dc_waiting_on_vset s"
  shows "\<exists>s1 h1 u c. decode_uop mav (s, h) = Inr (s1, h1, u) \<and> decoded_by h s [u] [] s1 h1 \<and> decode_ok L h1 s1
    \<and> current_of s = [c] \<and> origin h1 u = c \<and> set (current_of s1) \<subseteq> {c}"
proof -
  note b = decode_ok_busy[OF assms(1,2)]
  from current_of_busy[OF b] obtain c where c: "vg_current_inst (dc_vec_uop_gen s) = Some c" "current_of s = [c]" by blast
  have "c < dc_next s" using assms(1) c(2) by (simp add: decode_ok_def)
  from decode_uop_ok[OF b c(1) assms(3) this] obtain g u where u:
    "decode_uop mav (s, h) = Inr (s\<lparr>dc_vec_uop_gen := g, dc_next := dc_next s + 1\<rparr>, h(dc_next s := u), dc_next s)"
    "i_status u = DECODED" "i_parent_uop u = Some c"
    "gen_idle g \<or> gen_busy (h(dc_next s := u)) g \<and> vg_current_inst g = Some c" by blast
  let ?s1 = "s\<lparr>dc_vec_uop_gen := g, dc_next := dc_next s + 1\<rparr>"
  have "set_option (vg_current_inst g) \<subseteq> {c}" using u(4) unfolding gen_idle_def by auto
  then have cur: "set (current_of ?s1) \<subseteq> {c}" using current_of_subset[of ?s1] by auto
  have "decode_ok L (h(dc_next s := u)) ?s1"
  proof (rule decode_ok_frame[OF assms(1), where ps = "[]" and rest = "dc_fetch_queue s"])
    show "(h(dc_next s := u)) q = h q" if "q \<in> set (dc_fetch_queue s)" for q
      using that assms(1) by (auto simp: decode_ok_def)
  qed (use cur c(2) u(4) assms(1) in \<open>auto simp: decode_ok_def\<close>)
  moreover have "decoded_by h s [dc_next s] [] ?s1 (h(dc_next s := u))"
    using u(2,3) c(2) assms(4) by (auto simp: decoded_by_def origin_def)
  ultimately show ?thesis using u(1,3) c(2) cur by (auto simp: origin_def)
qed


lemma decode_ok_rest:
  assumes "decode_ok L h s" and "dc_fetch_queue s = p # rest" and "q \<in> set rest"
  shows "q \<noteq> p" "q < dc_next s"
proof -
  have "distinct (p # rest)" "\<forall>q\<in>set (p # rest). q < dc_next s" using assms(1,2) by (simp_all add: decode_ok_def)
  with assms(3) show "q \<noteq> p" "q < dc_next s" by auto
qed

definition opcode_kept :: "heap \<Rightarrow> heap \<Rightarrow> ptr \<Rightarrow> bool" where
  "opcode_kept h h1 p \<longleftrightarrow> i_opcode_info (h1 p) = i_opcode_info (h p)"

text \<open>The two kinds of entry: one that becomes micro-ops, and one that passes through.\<close>

lemma decode_inst_vector:
  assumes "decode_ok L h s" and "gen_idle (dc_vec_uop_gen s)" and "mavis_ok mav" and "\<not> dc_waiting_on_vset s"
    and "dc_fetch_queue s = p # rest" and "needs_uops (h p)"
  shows "\<exists>s1 h1 u. decode_inst mav now p (s, h) = Inr (s1, h1, u)
    \<and> decoded_by h s [u] [p] (s1\<lparr>dc_fetch_queue := rest\<rparr>) h1 \<and> decode_ok L h1 (s1\<lparr>dc_fetch_queue := rest\<rparr>)
    \<and> origin h1 u = p \<and> set (current_of (s1\<lparr>dc_fetch_queue := rest\<rparr>)) \<subseteq> {p} \<and> opcode_kept h h1 p"
proof -
  have e: "entry_ok L (h p)" "p < dc_next s" "config_good L (dc_vector_config s)"
    using assms(1,5) by (auto simp: decode_ok_def)
  have nv: "\<not> immediate_vset (h p)" "\<not> blocking_vset (h p)" using vset_no_uops[OF e(1)] assms(6) by auto
  have v: "\<not> isVset (h p)" "i_is_vector (h p)" using assms(6) by (auto simp: needs_uops_def)
  define h0 where "h0 = h(p := (h p)\<lparr>i_vector_config := dc_vector_config s\<rparr>)"
  have dv: "decode_vset now p (s, h) = (s, h0)" using nv v by (simp add: decode_vset_eq h0_def)
  have "needs_uops (h0 p)" using assms(6) by (simp add: h0_def)
  from vg_setInst_ok[where h = h0 and p = p, OF assms(2) e(1) assms(6) e(3)] obtain g where
    g: "vg_setInst p h0 (dc_vec_uop_gen s) = Inr g" "gen_busy h0 g" "vg_current_inst g = Some p"
    by (auto simp: h0_def)
  from decode_uop_ok[where s = "s\<lparr>dc_vec_uop_gen := g\<rparr>" and h = h0 and c = p and mav = mav] g e(2) assms(3)
  obtain g1 u where u: "decode_uop mav (s\<lparr>dc_vec_uop_gen := g\<rparr>, h0)
      = Inr (s\<lparr>dc_vec_uop_gen := g1, dc_next := dc_next s + 1\<rparr>, h0(dc_next s := u), dc_next s)"
    "i_status u = DECODED" "i_parent_uop u = Some p"
    "gen_idle g1 \<or> gen_busy (h0(dc_next s := u)) g1 \<and> vg_current_inst g1 = Some p" by auto
  let ?s1 = "s\<lparr>dc_vec_uop_gen := g1, dc_next := dc_next s + 1\<rparr>" and ?h1 = "h0(dc_next s := u)"
  let ?t = "?s1\<lparr>dc_fetch_queue := rest\<rparr>"
  have "set_option (vg_current_inst g1) \<subseteq> {p}" using u(4) unfolding gen_idle_def by auto
  then have cur: "set (current_of ?t) \<subseteq> {p}" using current_of_subset[of ?t] by auto
  have c0: "current_of s = []" by (rule current_of_idle[OF assms(2)])
  have "decode_ok L ?h1 ?t"
  proof (rule decode_ok_frame[OF assms(1), where ps = "[p]" and rest = rest])
    show "?h1 q = h q" if "q \<in> set rest" for q
      using decode_ok_rest[OF assms(1,5) that] by (simp add: h0_def)
  qed (use cur u(4) assms(5) e(3) in auto)
  moreover have "decoded_by h s [dc_next s] [p] ?t ?h1"
    using u(2,3) c0 assms(4,5) nv v e(2)
    by (auto simp: decoded_by_def origin_def config_step_def h0_def)
  moreover have "decode_inst mav now p (s, h) = Inr (?s1, ?h1, dc_next s)"
    using dv \<open>needs_uops (h0 p)\<close> g(1) u(1) by (simp add: decode_inst_def)
  moreover have "opcode_kept h ?h1 p" using e(2) by (simp add: opcode_kept_def h0_def)
  ultimately show ?thesis using u(3) cur by (auto simp: origin_def)
qed

lemma decode_inst_plain:
  assumes "decode_ok L h s" and "gen_idle (dc_vec_uop_gen s)" and "\<not> dc_waiting_on_vset s"
    and "dc_fetch_queue s = p # rest" and "\<not> needs_uops (h p)"
  shows "\<exists>s1 h1. decode_inst mav now p (s, h) = Inr (s1, h1, p)
    \<and> decoded_by h s [p] [p] (s1\<lparr>dc_fetch_queue := rest\<rparr>) h1 \<and> decode_ok L h1 (s1\<lparr>dc_fetch_queue := rest\<rparr>)
    \<and> origin h1 p = p \<and> set (current_of (s1\<lparr>dc_fetch_queue := rest\<rparr>)) \<subseteq> {p} \<and> opcode_kept h h1 p"
proof -
  have e: "entry_ok L (h p)" "p < dc_next s" "config_good L (dc_vector_config s)"
    using assms(1,4) by (auto simp: decode_ok_def)
  obtain s1 h0 where dv: "decode_vset now p (s, h) = (s1, h0)" by fastforce
  have f: "dc_vec_uop_gen s1 = dc_vec_uop_gen s" "dc_next s1 = dc_next s" "dc_out s1 = dc_out s"
    "dc_uop_queue_credits s1 = dc_uop_queue_credits s" "dc_fetch_queue s1 = dc_fetch_queue s"
    "dc_vector_config s1 = config_step (h p) (dc_vector_config s)" "dc_waiting_on_vset s1 = blocking_vset (h p)"
    "needs_uops (h0 p) = needs_uops (h p)" "i_status (h0 p) = i_status (h p)" "i_parent_uop (h0 p) = i_parent_uop (h p)"
    "\<And>q. q \<noteq> p \<Longrightarrow> h0 q = h q" "i_opcode_info (h0 p) = i_opcode_info (h p)"
    "i_is_vector (h p) \<and> \<not> isVset (h p) \<longrightarrow> i_vector_config (h0 p) = dc_vector_config s"
    using dv e(1) assms(3) vset_disjoint[of "h p"]
    by (auto simp: decode_vset_eq config_step_def entry_ok_def split: if_splits)
  define h1 where "h1 = h0(p := (h0 p)\<lparr>i_status := DECODED\<rparr>)"
  have "setStatus DECODED (h0 p) = Inr ((h0 p)\<lparr>i_status := DECODED\<rparr>, False)"
    using e(1) f(9) by (simp add: setStatus_ok_iff entry_ok_def)
  with dv f(8) assms(5) have "decode_inst mav now p (s, h) = Inr (s1, h1, p)"
    by (simp add: decode_inst_def h1_def)
  moreover let ?t = "s1\<lparr>dc_fetch_queue := rest\<rparr>"
  have idle: "gen_idle (dc_vec_uop_gen ?t)" using f(1) assms(2) by simp
  note cur = current_of_idle[OF idle] current_of_idle[OF assms(2)]
  have "decode_ok L h1 ?t"
  proof (rule decode_ok_frame[OF assms(1), where ps = "[p]" and rest = rest])
    show "h1 q = h q" if "q \<in> set rest" for q
      using decode_ok_rest[OF assms(1,4) that] f(11)[of q] by (simp add: h1_def)
    show "config_good L (dc_vector_config ?t)" using config_step_good[OF e(1,3)] f(6) by simp
  qed (use cur idle f(2) assms(4) in auto)
  moreover have "decoded_by h s [p] [p] ?t h1"
    unfolding decoded_by_def using e(1) assms(4) cur f by (auto simp: origin_def entry_ok_def h1_def)
  moreover have "origin h1 p = p" using f(10) e(1) by (simp add: origin_def h1_def entry_ok_def)
  moreover have "opcode_kept h h1 p" using f(12) by (simp add: opcode_kept_def h1_def)
  ultimately show ?thesis using cur by auto
qed


section \<open>The loop\<close>

lemma remdups_adj_prefix:
  assumes "remdups_adj (cs @ xs) = cs @ ps" and "set cs \<subseteq> {c}" and "length cs \<le> 1" and "c \<notin> set ps"
  shows "remdups_adj (c # xs) = c # ps"
proof (cases cs)
  case Nil
  with assms(1,4) show ?thesis by (cases ps) (auto simp: remdups_adj_Cons)
next
  case (Cons d ds)
  with assms(2,3) have "cs = [c]" by auto
  with assms(1) show ?thesis by simp
qed

lemma decoded_by_cons:
  assumes A: "decoded_by h s [u] ps s1 h1" and c: "current_of s @ ps = [c]" "origin h1 u = c" "set (current_of s1) \<subseteq> {c}"
    and nw: "\<not> dc_waiting_on_vset s1" and ok: "decode_ok L h s" and B: "decoded_by h1 s1 new popped s2 h2"
  shows "decoded_by h s (u # new) (ps @ popped) s2 h2"
proof -
  have q: "dc_fetch_queue s = ps @ popped @ dc_fetch_queue s2" "dc_fetch_queue s1 = popped @ dc_fetch_queue s2"
    using A B by (auto simp: decoded_by_def)
  have sp: "\<And>x. x \<in> set ps \<Longrightarrow> x = c"
    using c(1) by (metis append_is_Nil_conv in_set_conv_decomp list.set_cases set_ConsD set_append Un_iff empty_iff list.set(1))
  have "distinct ((current_of s @ ps) @ popped @ dc_fetch_queue s2)" "\<forall>q\<in>set (ps @ popped @ dc_fetch_queue s2). q < dc_next s"
    using ok q(1) by (auto simp: decode_ok_def)
  then have cp: "c \<notin> set popped" and d: "set ps \<inter> set popped = {}" "\<And>q. q \<in> set (ps @ popped) \<Longrightarrow> q < dc_next s"
    using c(1) sp by (auto simp del: append_assoc)
  have af: "h1 x = h x" if "x < dc_next s" "x \<notin> set ps" for x using A that by (simp add: decoded_by_def)
  have hp: "h1 x = h x" if "x \<in> set popped" for x
    using af[of x] that d(1) d(2)[of x] by auto
  then have mp: "map h1 popped = map h popped" "\<And>j. map h1 (take j popped) = map h (take j popped)"
    by (auto dest: in_set_takeD)
  have fr: "h2 x = h1 x" if "x < dc_next s1" "x \<notin> set popped" for x using B that by (simp add: decoded_by_def)
  have nx: "dc_next s \<le> dc_next s1" "dc_next s1 \<le> dc_next s2" using A B by (simp_all add: decoded_by_def)
  have psl: "x < dc_next s1 \<and> x \<notin> set popped" if "x \<in> set ps" for x
    using that d(1) d(2)[of x] nx(1) by auto
  have u: "u < dc_next s1" "u \<notin> set popped"
  proof -
    have "u \<in> set ps \<or> dc_next s \<le> u \<and> u < dc_next s1" using A by (auto simp: decoded_by_def)
    moreover have "u \<notin> set popped" if "dc_next s \<le> u" using that d(2)[of u] by auto
    ultimately show "u < dc_next s1" "u \<notin> set popped" using psl by auto
  qed
  have len: "length (current_of s1) \<le> 1" by (auto simp: current_of_def split: option.splits)
  have "remdups_adj (current_of s1 @ map (origin h2) new) = current_of s1 @ popped" using B by (simp add: decoded_by_def)
  from remdups_adj_prefix[OF this c(3) len cp]
  have r: "remdups_adj (c # map (origin h2) new) = c # popped" .
  have o: "origin h2 u = c" using c(2) fr[OF u] by (simp add: origin_def)
  have R: "remdups_adj (current_of s @ map (origin h2) (u # new)) = current_of s @ ps @ popped"
  proof (cases "current_of s")
    case Nil
    with c(1) r o show ?thesis by simp
  next
    case (Cons x xs)
    with c(1) have "x = c" "xs = []" "ps = []" by auto
    with Cons r o show ?thesis by (simp add: remdups_adj_Cons)
  qed
  have len1: "length ps \<le> 1" using c(1) by (cases ps) (auto simp: Cons_eq_append_conv append_eq_Cons_conv)
  have C: "dc_vector_config s1 = fold config_step (map h ps) (dc_vector_config s)"
    "dc_vector_config s2 = fold config_step (map h popped) (dc_vector_config s1)"
    using A B mp(1) by (simp_all add: decoded_by_def)
  have V: "i_vector_config (h2 ((ps @ popped) ! j)) = fold config_step (map h (take j (ps @ popped))) (dc_vector_config s)"
    if j: "j < length (ps @ popped)" "i_is_vector (h ((ps @ popped) ! j))" "\<not> isVset (h ((ps @ popped) ! j))" for j
  proof (cases "j < length ps")
    case True
    then have "h2 (ps ! j) = h1 (ps ! j)" using psl fr by simp
    with True j A show ?thesis by (simp add: decoded_by_def nth_append)
  next
    case False
    then have k: "j - length ps < length popped" "(ps @ popped) ! j = popped ! (j - length ps)" using j(1) by (auto simp: nth_append)
    then have "h1 (popped ! (j - length ps)) = h (popped ! (j - length ps))" using hp by simp
    with k j(2,3) B False C(1) mp(2) show ?thesis by (simp add: decoded_by_def)
  qed
  have W: "dc_waiting_on_vset s2 = (ps @ popped \<noteq> [] \<and> blocking_vset (h (last (ps @ popped))))"
  proof (cases "popped = []")
    case True
    with A B nw show ?thesis by (simp add: decoded_by_def)
  next
    case False
    then have "h1 (last popped) = h (last popped)" using hp by simp
    with B False show ?thesis by (simp add: decoded_by_def)
  qed
  have L: "\<not> blocking_vset (h x)" if x: "x \<in> set (butlast (ps @ popped))" for x
  proof (cases "popped = []")
    case True
    with x A show ?thesis by (simp add: decoded_by_def)
  next
    case False
    with x consider "x \<in> set ps" | "x \<in> set (butlast popped)" by (auto simp: butlast_append)
    then show ?thesis
    proof cases
      case 1
      with len1 have "ps = [x]" by (cases ps) auto
      with A nw show ?thesis by (simp add: decoded_by_def)
    next
      case 2
      then have "h1 x = h x" by (rule hp[OF in_set_butlastD])
      with B 2 show ?thesis by (auto simp: decoded_by_def)
    qed
  qed
  have S: "\<forall>x\<in>set (u # new). i_status (h2 x) = DECODED" using A B fr[OF u] by (simp add: decoded_by_def)
  have F: "h2 x = h x" if "x < dc_next s" "x \<notin> set (ps @ popped)" for x
    using that fr[of x] nx(1) af[of x] by simp
  have N: "set (u # new) \<subseteq> set (ps @ popped) \<union> {dc_next s ..< dc_next s2}"
  proof -
    have "u \<in> set ps \<union> {dc_next s ..< dc_next s1}" "set new \<subseteq> set popped \<union> {dc_next s1 ..< dc_next s2}"
      using A B by (simp_all add: decoded_by_def)
    with nx show ?thesis by force
  qed
  have E: "dc_uop_queue_credits s2 = dc_uop_queue_credits s" "dc_out s2 = dc_out s"
    using A B by (simp_all add: decoded_by_def)
  have L': "\<forall>x\<in>set (butlast (ps @ popped)). \<not> blocking_vset (h x)" using L by blast
  have C': "dc_vector_config s2 = fold config_step (map h (ps @ popped)) (dc_vector_config s)" using C by simp
  have q': "dc_fetch_queue s = (ps @ popped) @ dc_fetch_queue s2" "dc_next s \<le> dc_next s2" using q(1) nx by simp_all
  have V': "\<forall>j<length (ps @ popped). i_is_vector (h ((ps @ popped) ! j)) \<and> \<not> isVset (h ((ps @ popped) ! j)) \<longrightarrow>
    i_vector_config (h2 ((ps @ popped) ! j)) = fold config_step (map h (take j (ps @ popped))) (dc_vector_config s)"
    using V by blast
  have F': "\<forall>q<dc_next s. q \<notin> set (ps @ popped) \<longrightarrow> h2 q = h q" using F by blast
  show ?thesis unfolding decoded_by_def
    by (intro conjI) (rule q' R S C' V' W L' E F' N)+
qed


lemma decoded_by_refl: "\<not> dc_waiting_on_vset s \<Longrightarrow> decoded_by h s [] [] s h"
  by (auto simp: decoded_by_def current_of_def split: option.split)

definition uids_ok :: "bool \<Rightarrow> heap \<Rightarrow> ptr list \<Rightarrow> nat list \<Rightarrow> bool" where
  "uids_ok b h popped us \<longleftrightarrow> us = (if b then map (\<lambda>p. getMavisUid (h p)) popped else [])"

lemma decode_loop_ok:
  assumes "decode_ok L h s" and "mavis_ok mav" and "\<not> dc_waiting_on_vset s"
  shows "\<exists>s' h' new popped us. decode_loop mav pr now k (s, h, insts, uids) = Inr (s', h', insts @ new, uids @ us)
    \<and> decoded_by h s new popped s' h' \<and> decode_ok L h' s' \<and> uids_ok (dcp_fusion_enable pr) h popped us
    \<and> length new \<le> k \<and> (length new < k \<longrightarrow> dc_waiting_on_vset s'
          \<or> getNumUopsRemaining (dc_vec_uop_gen s') = 0 \<and> dc_fetch_queue s' = [])"
  using assms
proof (induction k arbitrary: s h insts uids)
  case 0
  from decoded_by_refl[of s h, OF 0(3)] 0(1) show ?case
    by (intro exI[of _ s] exI[of _ h] exI[of _ "[]"]) (simp add: uids_ok_def)
next
  case (Suc k)
  have cont: ?case
    if step: "decode_loop mav pr now (Suc k) (s, h, insts, uids) = decode_loop mav pr now k (s1, h1, insts @ [u], uids @ vs)"
      and D: "decoded_by h s [u] ps s1 h1" "decode_ok L h1 s1" "current_of s @ ps = [c]" "origin h1 u = c"
        "set (current_of s1) \<subseteq> {c}" "uids_ok (dcp_fusion_enable pr) h ps vs"
    for s1 h1 u ps c vs
  proof (cases "dc_waiting_on_vset s1")
    case True
    have "decode_loop mav pr now k (s1, h1, insts @ [u], uids @ vs) = Inr (s1, h1, insts @ [u], uids @ vs)"
      using True by (cases k) simp_all
    with step D True show ?thesis
      by (intro exI[of _ s1] exI[of _ h1] exI[of _ "[u]"] exI[of _ ps] exI[of _ vs]) simp
  next
    case False
    from Suc.IH[OF D(2) Suc.prems(2) False, of "insts @ [u]" "uids @ vs"] obtain s' h' new popped us where I:
      "decode_loop mav pr now k (s1, h1, insts @ [u], uids @ vs) = Inr (s', h', (insts @ [u]) @ new, (uids @ vs) @ us)"
      "decoded_by h1 s1 new popped s' h'" "decode_ok L h' s'" "uids_ok (dcp_fusion_enable pr) h1 popped us"
      "length new \<le> k" "length new < k \<longrightarrow> dc_waiting_on_vset s'
          \<or> getNumUopsRemaining (dc_vec_uop_gen s') = 0 \<and> dc_fetch_queue s' = []" by blast
    note T = decoded_by_cons[OF D(1,3,4,5) False Suc.prems(1) I(2)]
    have "h1 x = h x" if "x \<in> set popped" for x
    proof -
      have "dc_fetch_queue s = ps @ popped @ dc_fetch_queue s'" using D(1) I(2) by (simp add: decoded_by_def)
      then have "x < dc_next s" "x \<notin> set ps" using Suc.prems(1) that by (auto simp: decode_ok_def)
      then show ?thesis using D(1) by (simp add: decoded_by_def)
    qed
    then have "uids_ok (dcp_fusion_enable pr) h (ps @ popped) (vs @ us)"
      using D(6) I(4) by (auto simp: uids_ok_def)
    with T I(1,3,5,6) step show ?thesis
      by (intro exI[of _ s'] exI[of _ h'] exI[of _ "u # new"] exI[of _ "ps @ popped"] exI[of _ "vs @ us"]) simp
  qed
  show ?case
  proof (cases "getNumUopsRemaining (dc_vec_uop_gen s) > 0")
    case True
    from decode_uop_step[OF Suc.prems(1) True Suc.prems(2,3)] obtain s1 h1 u c where U:
      "decode_uop mav (s, h) = Inr (s1, h1, u)" "decoded_by h s [u] [] s1 h1" "decode_ok L h1 s1"
      "current_of s = [c]" "origin h1 u = c" "set (current_of s1) \<subseteq> {c}" by blast
    show ?thesis by (rule cont[where vs = "[]" and ps = "[]", OF _ U(2,3) _ U(5,6)])
      (use U(1,4) True Suc.prems(3) in \<open>simp_all add: uids_ok_def\<close>)
  next
    case False
    then have idle: "gen_idle (dc_vec_uop_gen s)" using decode_ok_idle[OF Suc.prems(1)] by simp
    show ?thesis
    proof (cases "dc_fetch_queue s")
      case Nil
      from decoded_by_refl[of s h, OF Suc.prems(3)] Nil False Suc.prems(1,3) show ?thesis
        by (intro exI[of _ s] exI[of _ h] exI[of _ "[]"]) (simp add: uids_ok_def)
    next
      case (Cons p rest)
      have "\<exists>s1 h1 u. decode_inst mav now p (s, h) = Inr (s1, h1, u)
        \<and> decoded_by h s [u] [p] (s1\<lparr>dc_fetch_queue := rest\<rparr>) h1 \<and> decode_ok L h1 (s1\<lparr>dc_fetch_queue := rest\<rparr>)
        \<and> origin h1 u = p \<and> set (current_of (s1\<lparr>dc_fetch_queue := rest\<rparr>)) \<subseteq> {p} \<and> opcode_kept h h1 p"
        using decode_inst_vector[where now = now, OF Suc.prems(1) idle Suc.prems(2,3) Cons]
          decode_inst_plain[where now = now and mav = mav, OF Suc.prems(1) idle Suc.prems(3) Cons]
        by (cases "needs_uops (h p)") blast+
      then obtain s1 h1 u where U: "decode_inst mav now p (s, h) = Inr (s1, h1, u)"
        "decoded_by h s [u] [p] (s1\<lparr>dc_fetch_queue := rest\<rparr>) h1" "decode_ok L h1 (s1\<lparr>dc_fetch_queue := rest\<rparr>)"
        "origin h1 u = p" "set (current_of (s1\<lparr>dc_fetch_queue := rest\<rparr>)) \<subseteq> {p}" "opcode_kept h h1 p" by blast
      show ?thesis
        by (rule cont[where vs = "if dcp_fusion_enable pr then [getMavisUid (h1 p)] else []", OF _ U(2,3) _ U(4,5)])
          (use U(1,6) Cons False Suc.prems(3) current_of_idle[OF idle] in
            \<open>simp_all add: uids_ok_def opcode_kept_def getMavisUid_def\<close>)
    qed
  qed
qed

section \<open>The session\<close>

lemma decode_tail_simps [simp]:
  "dc_fetch_queue (decode_tail is s) = dc_fetch_queue s" "dc_vec_uop_gen (decode_tail is s) = dc_vec_uop_gen s"
  "dc_vector_config (decode_tail is s) = dc_vector_config s" "dc_waiting_on_vset (decode_tail is s) = dc_waiting_on_vset s"
  "dc_next (decode_tail is s) = dc_next s" "dc_latency_count (decode_tail is s) = dc_latency_count s"
  "dc_uop_queue_credits (decode_tail is s) = sub32 (dc_uop_queue_credits s) (length is)"
  "current_of (decode_tail is s) = current_of s"
  by (simp_all add: decode_tail_def dc_emit_def Let_def current_of_def)

lemma decode_tail_out:
  "dc_out (decode_tail is s) = dc_out s @ [OutUopQueueWrite is, OutFetchQueueCredits (length is)]
     @ (if sub32 (dc_uop_queue_credits s) (length is) > 0 \<and> length (dc_fetch_queue s) + getNumUopsRemaining (dc_vec_uop_gen s) > 0
        then [EvDecodeInsts 1] else [])"
  by (simp add: decode_tail_def dc_emit_def Let_def getNumVecUopsRemaining_def)

lemma decode_ok_tail: "decode_ok L h (decode_tail is s) = decode_ok L h s"
  by (simp add: decode_ok_def)

lemma current_of_latency [simp]: "current_of (s\<lparr>dc_latency_count := n\<rparr>) = current_of s"
  by (simp add: current_of_def)

lemma decode_ok_latency: "decode_ok L h (s\<lparr>dc_latency_count := n\<rparr>) = decode_ok L h s"
  by (simp add: decode_ok_def)

lemma decoded_by_latency: "decoded_by h (s\<lparr>dc_latency_count := n\<rparr>) new popped s' h' = decoded_by h s new popped s' h'"
  by (simp add: decoded_by_def)

text \<open>The session without fusion, as one statement.\<close>

lemma decode_session_ok:
  assumes "decode_ok L h s" and "mavis_ok mav" and "\<not> dc_waiting_on_vset s" and "\<not> dcp_fusion_enable pr"
  shows "\<exists>s1 h' new popped. decodeInsts mav fa groups pr now (s, h) = Inr (decode_tail new s1, h')
    \<and> decoded_by h s new popped s1 h' \<and> decode_ok L h' s1
    \<and> length new \<le> min (dc_uop_queue_credits s) (dcp_num_to_decode pr)
    \<and> (length new < min (dc_uop_queue_credits s) (dcp_num_to_decode pr) \<longrightarrow> dc_waiting_on_vset s1
         \<or> getNumUopsRemaining (dc_vec_uop_gen s1) = 0 \<and> dc_fetch_queue s1 = [])"
proof -
  have ok: "decode_ok L h (s\<lparr>dc_latency_count := 0\<rparr>)" using assms(1) by (simp add: decode_ok_latency)
  have "\<not> dc_waiting_on_vset (s\<lparr>dc_latency_count := 0\<rparr>)" using assms(3) by simp
  from decode_loop_ok[OF ok assms(2) this, of pr now "min (dc_uop_queue_credits s) (dcp_num_to_decode pr)" "[]" "[]"]
  obtain s1 h' new popped us where l:
    "decode_loop mav pr now (min (dc_uop_queue_credits s) (dcp_num_to_decode pr)) (s\<lparr>dc_latency_count := 0\<rparr>, h, [], [])
       = Inr (s1, h', new, us)" "decoded_by h s new popped s1 h'" "decode_ok L h' s1"
    "length new \<le> min (dc_uop_queue_credits s) (dcp_num_to_decode pr)"
    "length new < min (dc_uop_queue_credits s) (dcp_num_to_decode pr) \<longrightarrow> dc_waiting_on_vset s1
         \<or> getNumUopsRemaining (dc_vec_uop_gen s1) = 0 \<and> dc_fetch_queue s1 = []"
    unfolding decoded_by_latency append_Nil by blast
  from l(1) assms(4) have "decodeInsts mav fa groups pr now (s, h) = Inr (decode_tail new s1, h')"
    by (simp add: decodeInsts_def Let_def)
  with l(2-5) show ?thesis by blast
qed

section \<open>Waiting for a vset\<close>

lemma decode_loop_waiting:
  "dc_waiting_on_vset s \<Longrightarrow> decode_loop mav pr now k (s, h, insts, uids) = Inr (s, h, insts, uids)"
  by (cases k) simp_all

text \<open>The steps of the unit other than the result of a vset: credits, appends, flushes, sessions, and
  changes of the store by other units.\<close>

inductive dc_step_no_vset ::
    "(direct_op_info \<Rightarrow> Inst result) \<Rightarrow> fusion_api \<Rightarrow> (nat \<times> FusionGroup) list \<Rightarrow> DecodeParameterSet
       \<Rightarrow> Decode \<times> heap \<Rightarrow> Decode \<times> heap \<Rightarrow> bool" for mav fa groups pr where
  nv_credits: "dc_step_no_vset mav fa groups pr (s, h) (receiveUopQueueCredits n s, h)"
| nv_append: "fetchBufferAppended pr insts s = Inr s' \<Longrightarrow> dc_step_no_vset mav fa groups pr (s, h) (s', h)"
| nv_flush: "dc_step_no_vset mav fa groups pr (s, h) (dc_handleFlush c h s, h)"
| nv_session: "decodeInsts mav fa groups pr now (s, h) = Inr x \<Longrightarrow> dc_step_no_vset mav fa groups pr (s, h) x"
| nv_heap: "dc_step_no_vset mav fa groups pr (s, h) (s, h')"

definition decoded_insts :: "decode_event list \<Rightarrow> ptr list" where
  "decoded_insts out = concat (map (\<lambda>e. case e of OutUopQueueWrite g \<Rightarrow> g | _ \<Rightarrow> []) out)"

definition dc_credits_sent :: "decode_event list \<Rightarrow> nat" where
  "dc_credits_sent out = sum_list (map (\<lambda>e. case e of OutFetchQueueCredits n \<Rightarrow> n | _ \<Rightarrow> 0) out)"

lemma decode_log_simps [simp]:
  "decoded_insts [] = []" "decoded_insts (xs @ ys) = decoded_insts xs @ decoded_insts ys"
  "decoded_insts (OutUopQueueWrite g # xs) = g @ decoded_insts xs"
  "decoded_insts (OutFetchQueueCredits n # xs) = decoded_insts xs" "decoded_insts (EvDecodeInsts d # xs) = decoded_insts xs"
  "dc_credits_sent [] = 0" "dc_credits_sent (xs @ ys) = dc_credits_sent xs + dc_credits_sent ys"
  "dc_credits_sent (OutUopQueueWrite g # xs) = dc_credits_sent xs"
  "dc_credits_sent (OutFetchQueueCredits n # xs) = n + dc_credits_sent xs"
  "dc_credits_sent (EvDecodeInsts d # xs) = dc_credits_sent xs"
  by (simp_all add: decoded_insts_def dc_credits_sent_def)

interpretation dc_fifo: bounded_queue dcp_fetch_queue_size dc_fetch_queue "\<lambda>xs s. s\<lparr>dc_fetch_queue := xs\<rparr>" dc_push
  by unfold_locales (auto simp: dc_push_def)

lemma fetchBufferAppended_spec:
  "fetchBufferAppended pr insts s = Inr s' \<Longrightarrow> dc_fetch_queue s' = dc_fetch_queue s @ insts
     \<and> dc_vec_uop_gen s' = dc_vec_uop_gen s \<and> dc_waiting_on_vset s' = dc_waiting_on_vset s
     \<and> decoded_insts (dc_out s') = decoded_insts (dc_out s) \<and> dc_credits_sent (dc_out s') = dc_credits_sent (dc_out s)"
  by (auto simp: fetchBufferAppended_def bindE_eq_Inr dc_emit_def dc_fifo.push_all split: if_splits)

section \<open>Fusion changes marks and statistics only\<close>

definition same_core :: "Decode \<Rightarrow> Decode \<Rightarrow> bool" where
  "same_core s s' \<longleftrightarrow> dc_fetch_queue s' = dc_fetch_queue s \<and> dc_uop_queue_credits s' = dc_uop_queue_credits s
     \<and> dc_vec_uop_gen s' = dc_vec_uop_gen s \<and> dc_vector_config s' = dc_vector_config s
     \<and> dc_waiting_on_vset s' = dc_waiting_on_vset s \<and> dc_next s' = dc_next s \<and> dc_out s' = dc_out s"

definition same_but_mark :: "heap \<Rightarrow> heap \<Rightarrow> bool" where
  "same_but_mark h h' \<longleftrightarrow> (\<forall>p. \<exists>st. h' p = (h p)\<lparr>i_extended_status := st\<rparr>)"

lemma same_but_mark_refl [simp]: "same_but_mark h h"
proof -
  have "h p = (h p)\<lparr>i_extended_status := i_extended_status (h p)\<rparr>" for p by (cases "h p") simp
  then show ?thesis unfolding same_but_mark_def by blast
qed

lemma same_but_mark_upd:
  assumes "same_but_mark h h1" and "setExtendedStatus st (h1 p) = Inr i"
  shows "same_but_mark h (h1(p := i))"
  unfolding same_but_mark_def
proof
  fix q
  from assms(1) obtain a b where ab: "h1 q = (h q)\<lparr>i_extended_status := a\<rparr>" "h1 p = (h p)\<lparr>i_extended_status := b\<rparr>"
    unfolding same_but_mark_def by blast
  have "i = (h p)\<lparr>i_extended_status := st\<rparr>" using assms(2) ab(2) by (auto simp: setExtendedStatus_def)
  with ab(1) show "\<exists>st. (h1(p := i)) q = (h q)\<lparr>i_extended_status := st\<rparr>" by (cases "q = p") auto
qed

lemma ghost_one_frame:
  assumes "ghost_one insts (s1, h1) k = Inr (s2, h2)" and "same_core s s1" and "same_but_mark h h1"
  shows "same_core s s2 \<and> same_but_mark h h2"
  using assms(1,2) same_but_mark_upd[OF assms(3)] by (auto simp: ghost_one_def bindE_eq_Inr same_core_def)

lemma process_match_frame:
  assumes "process_match fa insts (s1, h1) m = Inr (s2, h2)" and "same_core s s1" and "same_but_mark h h1"
  shows "same_core s s2 \<and> same_but_mark h h2"
proof (cases "i_extended_status (h1 (insts ! mi_startIdx m)) = UNMOD")
  case True
  let ?p = "insts ! mi_startIdx m"
  from assms(1) True obtain i s3 h3 where x: "setExtendedStatus FUSED (h1 ?p) = Inr i"
    "foldE (ghost_one insts) (s1\<lparr>dc_num_fuse_instructions := dc_num_fuse_instructions s1 + 1\<rparr>, h1(?p := i))
       [mi_startIdx m + 1 ..< mi_startIdx m + fa_size fa m] = Inr (s3, h3)"
    "s2 = updateFusionGroupUtilization (mi_name m) s3" "h2 = h3"
    by (auto simp: process_match_def Let_def bindE_eq_Inr split: if_splits)
  have "case (s3, h3) of (a, b) \<Rightarrow> same_core s a \<and> same_but_mark h b"
  proof (rule foldE_partial[OF x(2)])
    show "case (s1\<lparr>dc_num_fuse_instructions := dc_num_fuse_instructions s1 + 1\<rparr>, h1(?p := i)) of
        (a, b) \<Rightarrow> same_core s a \<and> same_but_mark h b"
      using assms(2) same_but_mark_upd[OF assms(3) x(1)] by (simp add: same_core_def)
  next
    fix y k y' assume "case y of (a, b) \<Rightarrow> same_core s a \<and> same_but_mark h b" "ghost_one insts y k = Inr y'"
    then show "case y' of (a, b) \<Rightarrow> same_core s a \<and> same_but_mark h b"
      using ghost_one_frame by (cases y; cases y') fastforce
  qed
  with x(3,4) show ?thesis by (simp add: same_core_def updateFusionGroupUtilization_def Let_def)
next
  case False
  with assms show ?thesis by (auto simp: process_match_def Let_def split: if_splits)
qed

lemma processMatches_spec:
  assumes "processMatches fa insts ms (s, h) = Inr (s', h', ms')"
  shows "ms' = [] \<and> same_core s s' \<and> same_but_mark h h'"
proof (cases "ms = []")
  case True
  with assms show ?thesis by (auto simp: processMatches_def same_core_def)
next
  case False
  with assms have f: "foldE (process_match fa insts) (s, h) ms = Inr (s', h')" "ms' = []"
    by (auto simp: processMatches_def bindE_eq_Inr)
  have "case (s', h') of (a, b) \<Rightarrow> same_core s a \<and> same_but_mark h b"
  proof (rule foldE_partial[OF f(1)])
    fix y k y' assume "case y of (a, b) \<Rightarrow> same_core s a \<and> same_but_mark h b" "process_match fa insts y k = Inr y'"
    then show "case y' of (a, b) \<Rightarrow> same_core s a \<and> same_but_mark h b"
      using process_match_frame by (cases y; cases y') fastforce
  qed (simp add: same_core_def)
  with f(2) show ?thesis by simp
qed

text \<open>The do-while loop runs once: \<open>processMatches_\<close> empties the list its condition looks at.\<close>

lemma fuse_loop_once:
  "fuse_loop fa groups tries insts uids itrs sh =
     bindE (matchFusionGroups fa uids groups) (\<lambda>ms.
     bindE (processMatches fa insts ms sh) (\<lambda>(s, h, _). Inr (s, h, itrs + 1)))"
proof -
  have "processMatches fa insts ms sh = Inr (s, h, ms1) \<Longrightarrow> ms1 = []" for ms s h ms1
    using processMatches_spec by (cases sh) blast
  then show ?thesis by (subst fuse_loop.simps) (auto simp: bindE_def split: sum.splits)
qed

lemma fuse_insts_frame:
  assumes "fuse_insts fa groups pr insts uids (s, h) = Inr (s', h')"
  shows "same_core s s' \<and> same_but_mark h h'"
proof -
  from assms obtain ms ms' where "processMatches fa insts ms (s, h) = Inr (s', h', ms')"
    by (auto simp: fuse_insts_def fuse_loop_once bindE_eq_Inr split: if_splits)
  from processMatches_spec[OF this] show ?thesis by simp
qed

lemma waiting_step:
  assumes "dc_step_no_vset mav fa groups pr x y" and "dc_waiting_on_vset (fst x)"
  shows "dc_waiting_on_vset (fst y) \<and> decoded_insts (dc_out (fst y)) = decoded_insts (dc_out (fst x))"
  using assms
proof (cases rule: dc_step_no_vset.cases)
  case (nv_append insts s s' h)
  then show ?thesis using assms(2) fetchBufferAppended_spec[of pr insts s s'] by auto
next
  case (nv_session now s h)
  obtain s' h' where y: "y = (s', h')" by (cases y)
  from nv_session y have d: "decodeInsts mav fa groups pr now (s, h) = Inr (s', h')" and w: "dc_waiting_on_vset s"
    using assms(2) by auto
  show ?thesis
  proof (cases "dcp_fusion_enable pr")
    case True
    with d w consider "s' = s\<lparr>dc_latency_count := dc_latency_count s + 1\<rparr>" |
      s2 where "fuse_insts fa groups pr [] [] (s\<lparr>dc_latency_count := 0\<rparr>, h) = Inr (s2, h')" "s' = decode_tail [] s2"
      by (auto simp: decodeInsts_def Let_def decode_loop_waiting bindE_eq_Inr split: if_splits)
    then show ?thesis
    proof cases
      case 2
      with fuse_insts_frame[OF 2(1)] w y nv_session(1) show ?thesis by (auto simp: same_core_def decode_tail_out)
    qed (use w y nv_session(1) in simp)
  next
    case False
    with d w y nv_session(1) show ?thesis
      by (auto simp: decodeInsts_def Let_def decode_loop_waiting decode_tail_out)
  qed
qed (auto simp: receiveUopQueueCredits_def dc_handleFlush_def dc_emit_def Let_def)


section \<open>Credits of the fetch queue\<close>

text \<open>
  A run of the unit on instructions that need no micro-ops; the ghost component counts the
  instructions received from fetch. Other units may change the store but not the kind of an
  instruction.
\<close>

inductive dc_step ::
    "(direct_op_info \<Rightarrow> Inst result) \<Rightarrow> fusion_api \<Rightarrow> (nat \<times> FusionGroup) list \<Rightarrow> DecodeParameterSet
       \<Rightarrow> Decode \<times> heap \<times> nat \<Rightarrow> Decode \<times> heap \<times> nat \<Rightarrow> bool" for mav fa groups pr where
  dc_credits: "dc_step mav fa groups pr (s, h, n) (receiveUopQueueCredits c s, h, n)"
| dc_append: "fetchBufferAppended pr insts s = Inr s' \<Longrightarrow> \<forall>p\<in>set insts. \<not> needs_uops (h p) \<Longrightarrow>
    dc_step mav fa groups pr (s, h, n) (s', h, n + length insts)"
| dc_flush: "dc_step mav fa groups pr (s, h, n) (dc_handleFlush c h s, h, n)"
| dc_session: "decodeInsts mav fa groups pr now (s, h) = Inr (s', h') \<Longrightarrow> dc_step mav fa groups pr (s, h, n) (s', h', n)"
| dc_vset: "processVset now p (s, h) = (s', h') \<Longrightarrow> dc_step mav fa groups pr (s, h, n) (s', h', n)"
| dc_env: "\<forall>p. needs_uops (h' p) = needs_uops (h p) \<Longrightarrow> dc_step mav fa groups pr (s, h, n) (s, h', n)"

inductive dc_reachable ::
    "(direct_op_info \<Rightarrow> Inst result) \<Rightarrow> fusion_api \<Rightarrow> (nat \<times> FusionGroup) list \<Rightarrow> DecodeParameterSet
       \<Rightarrow> Decode \<times> heap \<times> nat \<Rightarrow> bool" for mav fa groups pr where
  dc_init: "mk_Decode pr w0 t0 n0 = Inr s \<Longrightarrow> dc_reachable mav fa groups pr (dc_sendInitialCredits pr s, h, 0)"
| dc_next_step: "dc_reachable mav fa groups pr x \<Longrightarrow> dc_step mav fa groups pr x y \<Longrightarrow> dc_reachable mav fa groups pr y"

inductive_cases dc_stepE: "dc_step mav fa groups pr (s, h, n) y"

definition plain_ok :: "heap \<Rightarrow> Decode \<Rightarrow> bool" where
  "plain_ok h s \<longleftrightarrow> gen_idle (dc_vec_uop_gen s) \<and> (\<forall>p\<in>set (dc_fetch_queue s). \<not> needs_uops (h p))"

definition dc_inv :: "DecodeParameterSet \<Rightarrow> Decode \<times> heap \<times> nat \<Rightarrow> bool" where
  "dc_inv pr x \<longleftrightarrow> (case x of (s, h, n) \<Rightarrow> plain_ok h s
     \<and> dc_credits_sent (dc_out s) + length (dc_fetch_queue s) = dcp_fetch_queue_size pr + n)"

lemma needs_uops_cong:
  "i_is_vector i = i_is_vector j \<Longrightarrow> i_arch_info i = i_arch_info j \<Longrightarrow> needs_uops i = needs_uops j"
  by (simp add: needs_uops_def isVset_def getUopGenType_def)

lemma decode_inst_plain_partial:
  assumes "decode_inst mav now p (s, h) = Inr (s1, h1, u)" and "\<not> needs_uops (h p)"
  shows "u = p \<and> dc_vec_uop_gen s1 = dc_vec_uop_gen s \<and> dc_out s1 = dc_out s \<and> dc_fetch_queue s1 = dc_fetch_queue s
    \<and> (\<forall>q. needs_uops (h1 q) = needs_uops (h q))"
proof -
  obtain s0 h0 where dv: "decode_vset now p (s, h) = (s0, h0)" by fastforce
  have f: "dc_vec_uop_gen s0 = dc_vec_uop_gen s" "dc_out s0 = dc_out s" "dc_fetch_queue s0 = dc_fetch_queue s"
    "\<And>q. needs_uops (h0 q) = needs_uops (h q)"
    using dv by (auto simp: decode_vset_eq split: if_splits)
  have "\<not> needs_uops (h0 p)" using assms(2) f(4) by simp
  with assms(1) dv have x: "s1 = s0" "h1 = h0(p := (h0 p)\<lparr>i_status := DECODED\<rparr>)" "u = p"
    by (auto simp: decode_inst_def bindE_eq_Inr setStatus_ok_iff split: if_splits)
  have "needs_uops ((h0 p)\<lparr>i_status := DECODED\<rparr>) = needs_uops (h0 p)" by (intro needs_uops_cong) simp_all
  then show ?thesis using f x by simp
qed

lemma decode_loop_plain:
  assumes "decode_loop mav pr now k (s, h, insts, uids) = Inr (s', h', insts', uids')" and "plain_ok h s"
  shows "\<exists>new. insts' = insts @ new \<and> dc_fetch_queue s = new @ dc_fetch_queue s' \<and> dc_out s' = dc_out s \<and> plain_ok h' s'"
  using assms
proof (induction k arbitrary: s h insts uids)
  case (Suc k)
  have idle: "getNumUopsRemaining (dc_vec_uop_gen s) = 0"
    using Suc.prems(2) by (simp add: plain_ok_def gen_idle_def getNumUopsRemaining_def)
  show ?case
  proof (cases "dc_waiting_on_vset s \<or> dc_fetch_queue s = []")
    case True
    with Suc.prems idle show ?thesis by (auto split: list.splits if_splits)
  next
    case False
    then obtain p rest where q: "dc_fetch_queue s = p # rest" by (cases "dc_fetch_queue s") auto
    with False idle Suc.prems(1) obtain s1 h1 u vs where d: "decode_inst mav now p (s, h) = Inr (s1, h1, u)"
      "decode_loop mav pr now k (s1\<lparr>dc_fetch_queue := rest\<rparr>, h1, insts @ [u], vs) = Inr (s', h', insts', uids')"
      by (auto simp: bindE_eq_Inr)
    have "\<not> needs_uops (h p)" using Suc.prems(2) q by (simp add: plain_ok_def)
    note e = decode_inst_plain_partial[OF d(1) this]
    have "plain_ok h1 (s1\<lparr>dc_fetch_queue := rest\<rparr>)" using e Suc.prems(2) q by (simp add: plain_ok_def)
    from Suc.IH[OF d(2) this] obtain new where "insts' = (insts @ [u]) @ new" "rest = new @ dc_fetch_queue s'"
      "dc_out s' = dc_out s1" "plain_ok h' s'" by auto
    with e q show ?thesis by (intro exI[of _ "p # new"]) simp
  qed
qed auto

lemma decodeInsts_plain:
  assumes "decodeInsts mav fa groups pr now (s, h) = Inr (s', h')" and "plain_ok h s"
  shows "plain_ok h' s' \<and> dc_credits_sent (dc_out s') + length (dc_fetch_queue s')
    = dc_credits_sent (dc_out s) + length (dc_fetch_queue s)"
proof -
  have p0: "plain_ok h (s\<lparr>dc_latency_count := n\<rparr>)" for n using assms(2) by (simp add: plain_ok_def)
  consider "s' = s\<lparr>dc_latency_count := dc_latency_count s + 1\<rparr>" "h' = h" |
    s1 h1 insts uids s2 where
      "decode_loop mav pr now (min (dc_uop_queue_credits s) (dcp_num_to_decode pr)) (s\<lparr>dc_latency_count := 0\<rparr>, h, [], [])
         = Inr (s1, h1, insts, uids)" "same_core s1 s2" "same_but_mark h1 h'" "s' = decode_tail insts s2"
  proof (cases "dcp_fusion_enable pr \<and> min (dc_uop_queue_credits s) (dcp_num_to_decode pr) < dcp_fusion_max_group_size pr
      \<and> dc_latency_count s < dcp_fusion_max_latency pr")
    case True
    with assms(1) that(1) show ?thesis by (simp add: decodeInsts_def Let_def)
  next
    case False
    from assms(1) False obtain s1 h1 insts uids s2 where d:
      "decode_loop mav pr now (min (dc_uop_queue_credits s) (dcp_num_to_decode pr)) (s\<lparr>dc_latency_count := 0\<rparr>, h, [], [])
         = Inr (s1, h1, insts, uids)" "s' = decode_tail insts s2"
      "(if dcp_fusion_enable pr then fuse_insts fa groups pr insts uids (s1, h1) else Inr (s1, h1)) = Inr (s2, h')"
      by (auto simp: decodeInsts_def Let_def bindE_eq_Inr simp del: fuse_loop.simps)
    moreover have "same_core s1 s2 \<and> same_but_mark h1 h'"
    proof (cases "dcp_fusion_enable pr")
      case True
      with d(3) fuse_insts_frame show ?thesis by (metis (full_types))
    next
      case f: False
      with d(3) show ?thesis by (simp add: same_core_def)
    qed
    ultimately show ?thesis using that(2) by blast
  qed
  then show ?thesis
  proof cases
    case 1
    with p0 show ?thesis by simp
  next
    case 2
    from decode_loop_plain[OF 2(1) p0] obtain new where n: "insts = new" "dc_fetch_queue s = new @ dc_fetch_queue s1"
      "dc_out s1 = dc_out s" "plain_ok h1 s1" by auto
    have "needs_uops (h' q) = needs_uops (h1 q)" for q
    proof -
      from 2(3) obtain st where "h' q = (h1 q)\<lparr>i_extended_status := st\<rparr>" unfolding same_but_mark_def by blast
      then show ?thesis by (intro needs_uops_cong) simp_all
    qed
    moreover have "dc_fetch_queue s2 = dc_fetch_queue s1" "dc_out s2 = dc_out s1" "dc_vec_uop_gen s2 = dc_vec_uop_gen s1"
      using 2(2) by (simp_all add: same_core_def)
    ultimately show ?thesis using n unfolding 2(4) by (simp add: plain_ok_def decode_tail_out)
  qed
qed

lemma dc_step_inv:
  assumes "dc_step mav fa groups pr x y" and "dc_inv pr x"
  shows "dc_inv pr y"
  using assms
proof (cases rule: dc_step.cases)
  case (dc_append insts s s' h n)
  then show ?thesis using assms(2) fetchBufferAppended_spec[of pr insts s s']
    by (auto simp: dc_inv_def plain_ok_def)
next
  case (dc_session now s h s' h' n)
  then show ?thesis using assms(2) decodeInsts_plain[of mav fa groups pr now s h s' h'] by (auto simp: dc_inv_def)
next
  case (dc_vset now p s h s' h' n)
  then show ?thesis using assms(2)
    by (auto simp: processVset_def updateVectorConfig_def dc_inv_def plain_ok_def dc_emit_def Let_def split: if_splits)
next
  case (dc_flush s h n c)
  then show ?thesis using assms(2)
    by (auto simp: dc_handleFlush_def dc_inv_def plain_ok_def dc_emit_def Let_def vg_handleFlush_def gen_idle_def)
qed (auto simp: dc_inv_def plain_ok_def receiveUopQueueCredits_def dc_emit_def Let_def)

lemma dc_reachable_inv: "dc_reachable mav fa groups pr x \<Longrightarrow> dc_inv pr x"
proof (induction rule: dc_reachable.induct)
  case (dc_init w0 t0 n0 s h)
  then show ?case
    by (auto simp: mk_Decode_def bindE_eq_Inr dc_inv_def plain_ok_def gen_idle_def mk_VectorUopGenerator_def
        dc_sendInitialCredits_def dc_emit_def)
next
  case (dc_next_step x y)
  then show ?case using dc_step_inv by blast
qed

definition dc_runs :: "DecodeParameterSet \<Rightarrow> Decode \<times> heap \<times> nat \<Rightarrow> bool" where
  "dc_runs pr x \<longleftrightarrow> (\<exists>mav fa groups. dc_reachable mav fa groups pr x)"

interpretation dc_credits: exact_credit_interface dc_runs dcp_fetch_queue_size
  "\<lambda>x. dc_credits_sent (dc_out (fst x))" "\<lambda>x. length (dc_fetch_queue (fst x))" "\<lambda>x. snd (snd x)"
proof
  fix pr and x :: "Decode \<times> heap \<times> nat"
  assume "dc_runs pr x"
  then show "dc_credits_sent (dc_out (fst x)) + length (dc_fetch_queue (fst x)) = dcp_fetch_queue_size pr + snd (snd x)"
    by (auto simp: dc_runs_def dc_inv_def split: prod.splits dest!: dc_reachable_inv)
qed

section \<open>What fusion matches\<close>

text \<open>The documented behaviour of the fusion API: the hash cache holds, for a size, the hash of every
  segment of that size with its position, and a match is as long as its group. \<open>std::sort\<close>, called with a strict weak
  order, returns a permutation in which no element comes after one that should follow it.\<close>

definition segments :: "(nat list \<Rightarrow> nat) \<Rightarrow> nat list \<Rightarrow> nat \<Rightarrow> (nat \<times> nat) list" where
  "segments H uids n = map (\<lambda>i. (i, H (take n (drop i uids)))) [0 ..< length uids + 1 - n]"

definition strict_weak :: "('a \<Rightarrow> 'a \<Rightarrow> bool) \<Rightarrow> bool" where
  "strict_weak lt \<longleftrightarrow> (\<forall>a b. lt a b \<longrightarrow> \<not> lt b a) \<and> (\<forall>a b c. lt a c \<longrightarrow> lt a b \<or> lt b c)"

definition fusion_api_ok :: "(nat list \<Rightarrow> nat) \<Rightarrow> fusion_api \<Rightarrow> bool" where
  "fusion_api_ok H fa \<longleftrightarrow>
     (\<forall>uids n hc. fa_build fa uids n hc = hc(n \<mapsto> segments H uids n))
   \<and> (\<forall>m. fa_size fa m = length (mi_uids m))
   \<and> (\<forall>lt ms. strict_weak lt \<longrightarrow> mset (fa_sort fa lt ms) = mset ms \<and> sorted_wrt (\<lambda>a b. \<not> lt b a) (fa_sort fa lt ms))"

text \<open>The comparison of the code is one.\<close>

lemma match_before_strict_weak: "strict_weak (match_before fa)"
  unfolding strict_weak_def match_before_def by (auto split: if_splits)

lemma build_cache_spec:
  assumes "fusion_api_ok H fa"
  shows "build_cache fa uids groups hc n =
    (if \<exists>(x, g)\<in>set groups. length (fg_uids g) = n \<and> n \<le> length uids then Some (segments H uids n) else hc n)"
  using assms
proof (induction groups arbitrary: hc)
  case (Cons hg groups)
  have b: "fa_build fa us k c = c(k \<mapsto> segments H us k)" for us k c using Cons.prems by (simp add: fusion_api_ok_def)
  show ?case using Cons.IH[OF Cons.prems] by (cases hg) (auto simp: build_cache_def b)
qed (simp add: build_cache_def)

definition matches_of :: "(nat list \<Rightarrow> nat) \<Rightarrow> nat list \<Rightarrow> nat \<times> FusionGroup \<Rightarrow> FusionGroupMatchInfo list" where
  "matches_of H uids hg = (if length (fg_uids (snd hg)) > length uids then []
     else group_matches uids hg (segments H uids (length (fg_uids (snd hg)))))"

lemma match_groups_spec:
  assumes "\<forall>hg\<in>set groups. length (fg_uids (snd hg)) \<le> length uids \<longrightarrow>
      hc (length (fg_uids (snd hg))) = Some (segments H uids (length (fg_uids (snd hg))))"
  shows "foldE (match_group fa uids) (hc, ms) groups = Inr (hc, ms @ concat (map (matches_of H uids) groups))"
  using assms by (induction groups arbitrary: ms) (auto simp: match_group_def matches_of_def Let_def)

lemma matchFusionGroups_spec:
  assumes "fusion_api_ok H fa"
  shows "matchFusionGroups fa uids groups = Inr (fa_sort fa (match_before fa) (concat (map (matches_of H uids) groups)))"
proof -
  have "\<forall>hg\<in>set groups. length (fg_uids (snd hg)) \<le> length uids \<longrightarrow>
      build_cache fa uids groups Map.empty (length (fg_uids (snd hg))) = Some (segments H uids (length (fg_uids (snd hg))))"
    by (auto simp: build_cache_spec[OF assms])
  from match_groups_spec[OF this] show ?thesis by (simp add: matchFusionGroups_def)
qed

text \<open>Where the segment equals the group the comparison loop agrees, whatever part of it the loop looks at.\<close>

lemma segment_matches_window:
  "take (length grp) (drop i uids) = grp \<Longrightarrow> segment_matches uids grp i"
proof -
  assume a: "take (length grp) (drop i uids) = grp"
  have "uids ! k = grp ! (k - i)" if "i \<le> k" "k < length grp" for k
  proof -
    have "grp ! (k - i) = take (length grp) (drop i uids) ! (k - i)" using a by simp
    also have "\<dots> = drop i uids ! (k - i)" using that by simp
    also have "\<dots> = uids ! k"
    proof -
      have "length grp \<le> length uids - i" using a by (metis length_drop length_take min.cobounded1)
      then show ?thesis using that by simp
    qed
    finally show ?thesis by simp
  qed
  then show ?thesis by (simp add: segment_matches_def list_all_iff)
qed

definition occurs_at :: "nat list \<Rightarrow> FusionGroup \<Rightarrow> FusionGroupMatchInfo \<Rightarrow> bool" where
  "occurs_at uids g m \<longleftrightarrow> mi_name m = fg_name g \<and> mi_uids m = fg_uids g
     \<and> mi_startIdx m + length (fg_uids g) \<le> length uids
     \<and> take (length (fg_uids g)) (drop (mi_startIdx m) uids) = fg_uids g"

text \<open>What the code accepts as a match: the hash of the segment is that of the group, and the uids agree at those places
  of the segment that lie before the length of the group, counted from the start of the input.\<close>

definition accepted_at :: "(nat list \<Rightarrow> nat) \<Rightarrow> nat list \<Rightarrow> nat \<Rightarrow> FusionGroup \<Rightarrow> FusionGroupMatchInfo \<Rightarrow> bool" where
  "accepted_at H uids x g m \<longleftrightarrow> mi_name m = fg_name g \<and> mi_uids m = fg_uids g
     \<and> mi_startIdx m + length (fg_uids g) \<le> length uids
     \<and> H (take (length (fg_uids g)) (drop (mi_startIdx m) uids)) = x
     \<and> (\<forall>j. mi_startIdx m + j < length (fg_uids g) \<longrightarrow> uids ! (mi_startIdx m + j) = fg_uids g ! j)"

lemma segment_matches_iff: "segment_matches uids grp i \<longleftrightarrow> (\<forall>j. i + j < length grp \<longrightarrow> uids ! (i + j) = grp ! j)"
proof -
  have "(\<forall>k\<in>{i..<length grp}. uids ! k = grp ! (k - i)) \<longleftrightarrow> (\<forall>j. i + j < length grp \<longrightarrow> uids ! (i + j) = grp ! j)"
    by (metis add_diff_cancel_left' atLeastLessThan_iff le_add1 le_add_diff_inverse)
  then show ?thesis by (simp add: segment_matches_def list_all_iff)
qed

lemma matches_of_iff: "m \<in> set (matches_of H uids (x, g)) \<longleftrightarrow> accepted_at H uids x g m"
proof
  assume "m \<in> set (matches_of H uids (x, g))"
  then obtain i where "i < length uids + 1 - length (fg_uids g)" "length (fg_uids g) \<le> length uids" "segment_matches uids (fg_uids g) i"
    "H (take (length (fg_uids g)) (drop i uids)) = x" "m = \<lparr>mi_name = fg_name g, mi_startIdx = i, mi_uids = fg_uids g\<rparr>"
    by (auto simp: matches_of_def group_matches_def segments_def split: if_splits)
  then show "accepted_at H uids x g m" by (auto simp: accepted_at_def segment_matches_iff)
next
  assume a: "accepted_at H uids x g m"
  then have m: "m = \<lparr>mi_name = fg_name g, mi_startIdx = mi_startIdx m, mi_uids = fg_uids g\<rparr>"
    by (cases m) (auto simp: accepted_at_def)
  let ?ep = "(mi_startIdx m, H (take (length (fg_uids g)) (drop (mi_startIdx m) uids)))"
  have "?ep \<in> set (segments H uids (length (fg_uids g)))" using a by (auto simp: segments_def accepted_at_def)
  moreover have "snd ?ep = x \<and> segment_matches uids (fg_uids g) (fst ?ep)" using a by (simp add: accepted_at_def segment_matches_iff)
  ultimately show "m \<in> set (matches_of H uids (x, g))" using a m by (force simp: matches_of_def group_matches_def accepted_at_def)
qed

lemma occurs_accepted: "occurs_at uids g m \<Longrightarrow> accepted_at H uids (H (fg_uids g)) g m"
  using segment_matches_window[of "fg_uids g" "mi_startIdx m" uids] by (auto simp: occurs_at_def accepted_at_def segment_matches_iff)

lemma accepted_at_start: "accepted_at H uids x g m \<Longrightarrow> mi_startIdx m = 0 \<Longrightarrow> occurs_at uids g m"
  by (auto simp: occurs_at_def accepted_at_def intro: nth_equalityI)

section \<open>A sample unit\<close>

definition ex_dc_params :: DecodeParameterSet where
  "ex_dc_params = \<lparr>dcp_num_to_decode = 4, dcp_fetch_queue_size = 10, dcp_fusion_enable = False,
     dcp_fusion_max_latency = 4, dcp_fusion_match_max_tries = 1023, dcp_fusion_max_group_size = 4,
     dcp_init_lmul = 1, dcp_init_sew = 8, dcp_init_vl = 128, dcp_init_vta = 0\<rparr>"

definition ex_dc_inst :: "nat \<Rightarrow> Inst" where
  "ex_dc_inst uid = (sample_Inst TP_INT 1 [] [])\<lparr>i_status := FETCHED,
     i_opcode_info := sample_opcode\<lparr>oi_mavis_uid := uid\<rparr>\<rparr>"

text \<open>Handle 1 is a vector multiply-add, handle 2 a scalar instruction, handle 3 a \<open>vsetvl\<close>.\<close>

definition ex_dc_heap :: heap where
  "ex_dc_heap = (\<lambda>p. if p = 1 then (ex_vec_inst 0)\<lparr>i_status := FETCHED\<rparr>
     else if p = 3 then (ex_dc_inst MAVIS_UID_VSETVL)\<lparr>i_arch_info := (i_arch_info (ex_dc_inst 4))\<lparr>is_vset := True\<rparr>\<rparr>
     else ex_dc_inst 100)"

definition ex_dc :: "ptr list \<Rightarrow> Decode" where
  "ex_dc q = \<lparr>dc_fetch_queue = q, dc_uop_queue_credits = 6, dc_vec_uop_gen = mk_VectorUopGenerator,
     dc_vector_config = \<lparr>vc_sew = 8, vc_lmul = 4, vc_vl = 250, vc_vlmax = 512, vc_vta = False\<rparr>,
     dc_waiting_on_vset = False, dc_vset_block_start = 0, dc_vset_blocking_count = 0, dc_vset_blocking_stall_latency = 0,
     dc_latency_count = 0, dc_num_fuse_instructions = 0, dc_num_ghost_instructions = 0, dc_pred_cycles_saved = 0,
     dc_matched_groups = [], dc_num_groups_utilized = 0, dc_next = 50, dc_out = []\<rparr>"

fun ins_match :: "('a \<Rightarrow> 'a \<Rightarrow> bool) \<Rightarrow> 'a \<Rightarrow> 'a list \<Rightarrow> 'a list" where
  "ins_match lt m [] = [m]"
| "ins_match lt m (x # xs) = (if lt m x then m # x # xs else x # ins_match lt m xs)"

definition ex_hash :: "nat list \<Rightarrow> nat" where
  "ex_hash us = foldr (\<lambda>u a. u + 1000 * a) us 1"

definition ex_api :: fusion_api where
  "ex_api = \<lparr>fa_build = (\<lambda>uids n hc. hc(n \<mapsto> segments ex_hash uids n)),
     fa_size = (\<lambda>m. length (mi_uids m)), fa_sort = (\<lambda>lt ms. foldr (ins_match lt) ms [])\<rparr>"

lemma mset_ins_match: "mset (ins_match lt m xs) = add_mset m (mset xs)"
  by (induction xs) auto

lemma sorted_ins_match:
  assumes "strict_weak lt" "sorted_wrt (\<lambda>a b. \<not> lt b a) xs"
  shows "sorted_wrt (\<lambda>a b. \<not> lt b a) (ins_match lt m xs)"
  using assms(2)
proof (induction xs)
  case (Cons x xs)
  have "y \<in> set (ins_match lt m xs) \<longleftrightarrow> y = m \<or> y \<in> set xs" for y
    using mset_ins_match[of lt m xs] by (metis insert_iff set_mset_add_mset_insert set_mset_mset)
  moreover have "\<not> lt y m" if "lt m x" "\<not> lt y x" for y using that assms(1) unfolding strict_weak_def by blast
  moreover have "\<not> lt x m" if "lt m x" using that assms(1) unfolding strict_weak_def by blast
  ultimately show ?case using Cons by auto
qed simp

lemma ex_api_ok: "fusion_api_ok ex_hash ex_api"
proof -
  have "mset (foldr (ins_match lt) ms []) = mset ms \<and> sorted_wrt (\<lambda>a b. \<not> lt b a) (foldr (ins_match lt) ms [])"
    if "strict_weak lt" for lt :: "FusionGroupMatchInfo \<Rightarrow> FusionGroupMatchInfo \<Rightarrow> bool" and ms
    using that by (induction ms) (simp_all add: mset_ins_match sorted_ins_match)
  then show ?thesis by (auto simp: fusion_api_ok_def ex_api_def)
qed

lemma ex_vec_operands_exist: "operands_exist ((ex_vec_inst vl)\<lparr>i_status := FETCHED\<rparr>)"
  by (simp add: operands_exist_def operands_ok_def uop_operands_def ex_vec_inst_def getUopGenType_def generateUops_def
      uop_src_def ex_vec_opcode_def add_narrowing_def uop_dest_def add_dest_as_src_def rs_field_def Let_def)

lemma ex_mavis_decode_ok: "mavis_ok ex_mavis"
  by (auto simp: mavis_ok_def ex_mavis_def less_Status_def)

lemma ex_entries_ok: "entry_ok 4 (ex_dc_heap 1)" "entry_ok 4 (ex_dc_heap 2)" "entry_ok 4 (ex_dc_heap 3)"
proof -
  show "entry_ok 4 (ex_dc_heap 1)"
    unfolding entry_ok_def ex_dc_heap_def using ex_vec_operands_exist
    by (auto simp: less_Status_def ex_vec_inst_def sample_Inst_def immediate_vset_def blocking_vset_def
        getMavisUid_def ex_vec_opcode_def sample_opcode_def getUopGenType_def is_widening_def)
qed (auto simp: entry_ok_def ex_dc_heap_def ex_dc_inst_def less_Status_def sample_Inst_def immediate_vset_def
       blocking_vset_def getMavisUid_def sample_opcode_def isVset_def needs_uops_def)

lemma ex_dc_ok: "decode_ok 4 ex_dc_heap (ex_dc [1, 2, 3])"
  using ex_entries_ok
  by (simp add: decode_ok_def ex_dc_def current_of_def getNumUopsRemaining_def mk_VectorUopGenerator_def gen_idle_def
      config_good_def vector_config_ok_def VLEN_def)

section \<open>Properties\<close>

text \<open>C20. A decode session is in order and complete. Where the queued instructions are ones decode
  accepts and Mavis builds the requested micro-ops, a session without fusion that is not waiting for a
  \<open>vset\<close> never asserts. It sends one group, of at most \<open>num_to_decode\<close> and at most the credits of
  rename, spends exactly as many credits, and marks every member decoded; the instructions the group
  stems from are, in order and without a gap, the one whose micro-ops were under way and the entries
  popped from the fetch queue. It stops early only at a blocking \<open>vset\<close> or when nothing is left, and it
  returns one fetch-queue credit per member of the group, not per entry popped.\<close>

theorem decode_session_in_order:
  assumes "decode_ok L h s" and "mavis_ok mav" and "\<not> dc_waiting_on_vset s" and "\<not> dcp_fusion_enable pr"
    and "dc_uop_queue_credits s < 4294967296"
  shows "\<exists>s' h' insts popped ev. decodeInsts mav fa groups pr now (s, h) = Inr (s', h')
    \<and> dc_out s' = dc_out s @ [OutUopQueueWrite insts, OutFetchQueueCredits (length insts)] @ ev
    \<and> dc_fetch_queue s = popped @ dc_fetch_queue s'
    \<and> remdups_adj (current_of s @ map (origin h') insts) = current_of s @ popped
    \<and> (\<forall>u\<in>set insts. i_status (h' u) = DECODED)
    \<and> length insts \<le> min (dc_uop_queue_credits s) (dcp_num_to_decode pr)
    \<and> (length insts < min (dc_uop_queue_credits s) (dcp_num_to_decode pr) \<longrightarrow> dc_waiting_on_vset s'
         \<or> getNumVecUopsRemaining s' = 0 \<and> dc_fetch_queue s' = [])
    \<and> dc_uop_queue_credits s' + length insts = dc_uop_queue_credits s \<and> decode_ok L h' s'"
proof -
  from decode_session_ok[OF assms(1-4)] obtain s1 h' new popped where d:
    "decodeInsts mav fa groups pr now (s, h) = Inr (decode_tail new s1, h')" "decoded_by h s new popped s1 h'"
    "decode_ok L h' s1" "length new \<le> min (dc_uop_queue_credits s) (dcp_num_to_decode pr)"
    "length new < min (dc_uop_queue_credits s) (dcp_num_to_decode pr) \<longrightarrow> dc_waiting_on_vset s1
         \<or> getNumUopsRemaining (dc_vec_uop_gen s1) = 0 \<and> dc_fetch_queue s1 = []" by blast
  have "sub32 (dc_uop_queue_credits s) (length new) + length new = dc_uop_queue_credits s"
    using d(4) assms(5) by (simp add: sub32_exact)
  then show ?thesis using d
    by (intro exI[of _ "decode_tail new s1"] exI[of _ h'] exI[of _ new] exI[of _ popped]
        exI[of _ "if sub32 (dc_uop_queue_credits s1) (length new) > 0
          \<and> length (dc_fetch_queue s1) + getNumUopsRemaining (dc_vec_uop_gen s1) > 0 then [EvDecodeInsts 1] else []"])
      (simp add: decoded_by_def decode_tail_out decode_ok_tail getNumVecUopsRemaining_def)
qed

theorem decode_session_in_order_witness:
  "\<exists>s' h' insts popped. decodeInsts ex_mavis ex_api [] ex_dc_params 7 (ex_dc [1, 2, 3], ex_dc_heap) = Inr (s', h')
     \<and> dc_fetch_queue (ex_dc [1, 2, 3]) = popped @ dc_fetch_queue s'
     \<and> remdups_adj (map (origin h') insts) = popped \<and> length insts \<le> 4 \<and> decode_ok 4 h' s'"
proof -
  have a: "\<not> dc_waiting_on_vset (ex_dc [1, 2, 3])" "\<not> dcp_fusion_enable ex_dc_params"
    "dc_uop_queue_credits (ex_dc [1, 2, 3]) < 4294967296" "current_of (ex_dc [1, 2, 3]) = []"
    "min (dc_uop_queue_credits (ex_dc [1, 2, 3])) (dcp_num_to_decode ex_dc_params) = 4"
    by (simp_all add: ex_dc_def ex_dc_params_def current_of_def getNumUopsRemaining_def mk_VectorUopGenerator_def)
  from decode_session_in_order[OF ex_dc_ok ex_mavis_decode_ok a(1-3), of ex_api "[]" 7] show ?thesis
    unfolding a(4,5) append_Nil by blast
qed

text \<open>C21. The vector configuration in force. A session leaves as current configuration the one set by
  the last of the popped \<open>vsetivli\<close> and \<open>vsetvli\<close> with zero source, gives every popped vector instruction the
  configuration set by the last of them before it in the program, and
  blocks exactly when the last popped entry is a \<open>vset\<close> that needs a register; none before it is. For a \<open>vsetvli\<close> with zero
  source and zero destination the code departs from its comment, which leaves the vector length unchanged: the new length is
  the one the instruction carries from the trace, limited by its maximum, whatever length was in force.\<close>

theorem decode_config_in_force:
  assumes "decode_ok L h s" and "mavis_ok mav" and "\<not> dc_waiting_on_vset s" and "\<not> dcp_fusion_enable pr"
  shows "\<exists>s' h' popped. decodeInsts mav fa groups pr now (s, h) = Inr (s', h')
    \<and> dc_fetch_queue s = popped @ dc_fetch_queue s'
    \<and> dc_vector_config s' = fold config_step (map h popped) (dc_vector_config s)
    \<and> (\<forall>j<length popped. i_is_vector (h (popped ! j)) \<and> \<not> isVset (h (popped ! j)) \<longrightarrow>
         i_vector_config (h' (popped ! j)) = fold config_step (map h (take j popped)) (dc_vector_config s))
    \<and> (\<forall>j<length popped. getMavisUid (h (popped ! j)) = MAVIS_UID_VSETVLI \<and> hasZeroRegSource (h (popped ! j)) \<and> hasZeroRegDest (h (popped ! j)) \<longrightarrow>
         vc_vl (fold config_step (map h (take (j + 1) popped)) (dc_vector_config s)) =
           min (vc_vl (i_vector_config (h (popped ! j)))) (vc_vlmax (i_vector_config (h (popped ! j)))))
    \<and> (dc_waiting_on_vset s' \<longleftrightarrow> popped \<noteq> [] \<and> blocking_vset (h (last popped)))
    \<and> (\<forall>p\<in>set (butlast popped). \<not> blocking_vset (h p))"
proof -
  have "vc_vl (fold config_step (map h (take (Suc j) ps)) vc) = min (vc_vl (i_vector_config (h (ps ! j)))) (vc_vlmax (i_vector_config (h (ps ! j))))"
    if "j < length ps" "getMavisUid (h (ps ! j)) = MAVIS_UID_VSETVLI" "hasZeroRegSource (h (ps ! j))" "hasZeroRegDest (h (ps ! j))" for j ps vc
    using that by (simp add: take_Suc_conv_app_nth config_step_def immediate_vset_def vset_config_def setVL_def Let_def)
  moreover from decode_session_ok[OF assms] obtain s1 h' new popped where d:
    "decodeInsts mav fa groups pr now (s, h) = Inr (decode_tail new s1, h')" "decoded_by h s new popped s1 h'" by blast
  ultimately show ?thesis
    by (intro exI[of _ "decode_tail new s1"] exI[of _ h'] exI[of _ popped]) (simp add: decoded_by_def)
qed

theorem decode_config_in_force_witness:
  "\<exists>s' h' popped. decodeInsts ex_mavis ex_api [] ex_dc_params 7 (ex_dc [1, 2, 3], ex_dc_heap) = Inr (s', h')
     \<and> dc_fetch_queue (ex_dc [1, 2, 3]) = popped @ dc_fetch_queue s'
     \<and> dc_vector_config s' = fold config_step (map ex_dc_heap popped) (dc_vector_config (ex_dc [1, 2, 3]))"
proof -
  have a: "\<not> dc_waiting_on_vset (ex_dc [1, 2, 3])" "\<not> dcp_fusion_enable ex_dc_params"
    by (simp_all add: ex_dc_def ex_dc_params_def)
  from decode_config_in_force[OF ex_dc_ok ex_mavis_decode_ok a, of ex_api "[]" 7] show ?thesis by blast
qed

text \<open>C29. Nothing passes a blocking \<open>vset\<close>. While decode waits, no sequence of credits, appends,
  flushes, decode sessions and changes by other units sends an instruction to rename or ends the wait (a
  flush does not either, even of the \<open>vset\<close> itself); the result of a \<open>vset\<close> ends it, installs the
  configuration of that instruction and schedules a session.\<close>

theorem decode_blocked_until_vset:
  assumes "dc_waiting_on_vset s" and "(dc_step_no_vset mav fa groups pr)\<^sup>*\<^sup>* (s, h) (s', h')"
  shows "dc_waiting_on_vset s' \<and> decoded_insts (dc_out s') = decoded_insts (dc_out s)
    \<and> (case processVset now p (s', h') of (s2, h2) \<Rightarrow> \<not> dc_waiting_on_vset s2
         \<and> dc_vector_config s2 = vset_config (h' p) \<and> dc_out s2 = dc_out s' @ [EvDecodeInsts 0])"
proof -
  from assms(2) have "dc_waiting_on_vset (fst (s', h')) \<and> decoded_insts (dc_out (fst (s', h'))) = decoded_insts (dc_out s)"
  proof (induction rule: rtranclp_induct)
    case (step y z)
    with waiting_step[OF step.hyps(2)] show ?case by simp
  qed (use assms(1) in simp)
  then show ?thesis by (simp add: processVset_def updateVectorConfig_def vset_config_def dc_emit_def Let_def)
qed

theorem decode_blocked_until_vset_witness:
  "decoded_insts (dc_out (dc_handleFlush \<lparr>fc_cause = TRAP, fc_is_inclusive = True, fc_inst = 0\<rparr> ex_dc_heap
      ((ex_dc [2])\<lparr>dc_waiting_on_vset := True\<rparr>))) = []"
proof -
  let ?s = "(ex_dc [2])\<lparr>dc_waiting_on_vset := True\<rparr>"
  let ?s' = "dc_handleFlush \<lparr>fc_cause = TRAP, fc_is_inclusive = True, fc_inst = 0\<rparr> ex_dc_heap ?s"
  have "dc_waiting_on_vset ?s" by simp
  moreover have "(dc_step_no_vset ex_mavis ex_api [] ex_dc_params)\<^sup>*\<^sup>* (?s, ex_dc_heap) (?s', ex_dc_heap)"
    by (intro r_into_rtranclp nv_flush)
  ultimately have "decoded_insts (dc_out ?s') = decoded_insts (dc_out ?s)"
    using decode_blocked_until_vset[of ?s ex_mavis ex_api "[]" ex_dc_params ex_dc_heap ?s' ex_dc_heap 0 0] by blast
  then show ?thesis by (simp add: ex_dc_def)
qed

text \<open>C30. Fetch-queue credits on scalar code. In every state reached without instructions that need
  micro-ops, credits sent and queue occupancy make up exactly the queue size and the instructions
  received; a group within the credits is accepted.\<close>

theorem decode_credits_exact:
  assumes "dc_reachable mav fa groups pr (s, h, n)"
  shows "dc_credits_sent (dc_out s) + length (dc_fetch_queue s) = dcp_fetch_queue_size pr + n
    \<and> (n + length insts \<le> dc_credits_sent (dc_out s) \<longrightarrow>
         (\<exists>s'. fetchBufferAppended pr insts s = Inr s' \<and> dc_fetch_queue s' = dc_fetch_queue s @ insts))"
proof -
  have r: "dc_runs pr (s, h, n)" using assms unfolding dc_runs_def by blast
  have "\<exists>s'. fetchBufferAppended pr insts s = Inr s' \<and> dc_fetch_queue s' = dc_fetch_queue s @ insts"
    if "n + length insts \<le> dc_credits_sent (dc_out s)"
  proof -
    have "length (dc_fetch_queue s) + length insts \<le> dcp_fetch_queue_size pr"
      using dc_credits.fits[OF r, of "length insts"] that by simp
    then have "foldE (dc_push pr) s insts = Inr (s\<lparr>dc_fetch_queue := dc_fetch_queue s @ insts\<rparr>)"
      by (simp add: dc_fifo.push_all)
    then show ?thesis by (simp add: fetchBufferAppended_def dc_emit_def)
  qed
  then show ?thesis using dc_credits.conserve_eq[OF r] by simp
qed

theorem decode_credits_exact_witness:
  "\<exists>s s'. dc_reachable ex_mavis ex_api [] ex_dc_params (s, ex_dc_heap, 0)
     \<and> fetchBufferAppended ex_dc_params [2, 3] s = Inr s'"
proof -
  have "\<exists>s. mk_Decode ex_dc_params False 0 50 = Inr s \<and> dc_out s = []"
    by (simp add: mk_Decode_def mk_VectorConfig_def vlmax_formula_def ex_dc_params_def VLEN_def)
  then obtain s where s: "mk_Decode ex_dc_params False 0 50 = Inr s" "dc_out s = []" by blast
  have r: "dc_reachable ex_mavis ex_api [] ex_dc_params (dc_sendInitialCredits ex_dc_params s, ex_dc_heap, 0)"
    by (rule dc_init[OF s(1)])
  have c: "dc_credits_sent (dc_out (dc_sendInitialCredits ex_dc_params s)) = 10"
    using s(2) by (simp add: dc_sendInitialCredits_def dc_emit_def ex_dc_params_def)
  from decode_credits_exact[OF r, of "[2, 3]"] c r show ?thesis by auto
qed

text \<open>C31. The fusion loop is a single pass. The do-while loop of \<open>decodeInsts_\<close> always ends after its
  first iteration: it is the match followed by the marking, and the watchdog exception is thrown exactly
  when \<open>fusion_match_max_tries\<close> is at most one.\<close>

theorem fusion_loop_single_pass:
  "fuse_insts fa groups pr insts uids sh =
     bindE (matchFusionGroups fa uids groups) (\<lambda>ms.
     bindE (processMatches fa insts ms sh) (\<lambda>(s, h, _).
       if dcp_fusion_match_max_tries pr \<le> 1
       then Inl (SpartaException ''Fusion group match watch dog exceeded.'') else Inr (s, h)))"
  by (auto simp: fuse_insts_def fuse_loop_once bindE_def split: sum.splits)

text \<open>C32. What fusion matches. With the documented hash cache and sort, the matches are exactly the segments of
  the input whose hash is that of a group and whose uids agree with the group at the places the comparison loop looks at: from
  the start of the segment up to the length of the group counted from the start of the input, so all of it at position 0, less of
  it further on and nothing from the length of the group on. A match at position 0 is therefore an occurrence of
  the group; every occurrence of a group stored under its own hash is a match; and the matches are exactly the occurrences if no
  other segment of the input shares the hash of a group. Longer groups come before shorter ones, equal lengths by position.\<close>

theorem fusion_matches_exact:
  assumes "fusion_api_ok H fa"
  shows "\<exists>ms. matchFusionGroups fa uids groups = Inr ms
    \<and> (\<forall>m. m \<in> set ms \<longleftrightarrow> (\<exists>(x, g)\<in>set groups. accepted_at H uids x g m))
    \<and> (\<forall>m\<in>set ms. mi_startIdx m = 0 \<longrightarrow> (\<exists>(x, g)\<in>set groups. occurs_at uids g m))
    \<and> (\<forall>(x, g)\<in>set groups. x = H (fg_uids g) \<longrightarrow> (\<forall>m. occurs_at uids g m \<longrightarrow> m \<in> set ms))
    \<and> ((\<forall>(x, g)\<in>set groups. x = H (fg_uids g) \<and> (\<forall>i. i + length (fg_uids g) \<le> length uids \<longrightarrow>
           H (take (length (fg_uids g)) (drop i uids)) = H (fg_uids g) \<longrightarrow> take (length (fg_uids g)) (drop i uids) = fg_uids g)) \<longrightarrow>
        (\<forall>m. m \<in> set ms \<longleftrightarrow> (\<exists>(x, g)\<in>set groups. occurs_at uids g m)))
    \<and> sorted_wrt (\<lambda>a b. length (mi_uids a) > length (mi_uids b)
          \<or> length (mi_uids a) = length (mi_uids b) \<and> mi_startIdx a \<le> mi_startIdx b) ms"
proof -
  let ?l = "concat (map (matches_of H uids) groups)"
  let ?ms = "fa_sort fa (match_before fa) ?l"
  have srt: "mset ?ms = mset ?l" "sorted_wrt (\<lambda>a b. \<not> match_before fa b a) ?ms"
    using assms(1) match_before_strict_weak[of fa] unfolding fusion_api_ok_def by blast+
  have "set ?ms = set ?l" using srt(1) by (metis set_mset_mset)
  then have acc: "m \<in> set ?ms \<longleftrightarrow> (\<exists>(x, g)\<in>set groups. accepted_at H uids x g m)" for m
    using matches_of_iff[of m H uids] by (fastforce simp: split_beta)
  have start: "\<exists>(x, g)\<in>set groups. occurs_at uids g m" if "m \<in> set ?ms" "mi_startIdx m = 0" for m
    using that acc accepted_at_start by fastforce
  have occ: "m \<in> set ?ms" if "(x, g) \<in> set groups" "x = H (fg_uids g)" "occurs_at uids g m" for x g m
    using that acc occurs_accepted by fastforce
  have iff: "m \<in> set ?ms \<longleftrightarrow> (\<exists>(x, g)\<in>set groups. occurs_at uids g m)"
    if "\<forall>(x, g)\<in>set groups. x = H (fg_uids g) \<and> (\<forall>i. i + length (fg_uids g) \<le> length uids \<longrightarrow>
           H (take (length (fg_uids g)) (drop i uids)) = H (fg_uids g) \<longrightarrow> take (length (fg_uids g)) (drop i uids) = fg_uids g)" for m
  proof -
    have "accepted_at H uids x g m \<Longrightarrow> occurs_at uids g m" if "(x, g) \<in> set groups" for x g
      using \<open>\<forall>(x, g)\<in>set groups. _ x g\<close> that by (fastforce simp: accepted_at_def occurs_at_def)
    then show ?thesis using acc occ \<open>\<forall>(x, g)\<in>set groups. _ x g\<close> by fastforce
  qed
  have "sorted_wrt (\<lambda>a b. length (mi_uids a) > length (mi_uids b)
          \<or> length (mi_uids a) = length (mi_uids b) \<and> mi_startIdx a \<le> mi_startIdx b) ?ms"
    by (rule sorted_wrt_mono_rel[OF _ srt(2)])
      (use assms(1) in \<open>auto simp: match_before_def fusion_api_ok_def split: if_splits\<close>)
  moreover have "matchFusionGroups fa uids groups = Inr ?ms" by (rule matchFusionGroups_spec[OF assms(1)])
  ultimately show ?thesis using acc start occ iff by (intro exI[of _ ?ms] conjI) blast+
qed

theorem fusion_matches_exact_witness:
  "\<exists>ms. matchFusionGroups ex_api [1, 2, 1, 2] [(ex_hash [1, 2], \<lparr>fg_name = ''g'', fg_uids = [1, 2]\<rparr>)] = Inr ms
     \<and> \<lparr>mi_name = ''g'', mi_startIdx = 2, mi_uids = [1, 2]\<rparr> \<in> set ms"
proof -
  let ?g = "\<lparr>fg_name = ''g'', fg_uids = [1, 2]\<rparr>"
  have "occurs_at [1, 2, 1, 2] ?g \<lparr>mi_name = ''g'', mi_startIdx = 2, mi_uids = [1, 2]\<rparr>" by (simp add: occurs_at_def)
  with fusion_matches_exact[OF ex_api_ok, of "[1, 2, 1, 2]" "[(ex_hash [1, 2], ?g)]"] show ?thesis by auto
qed

end
