(* ===== verification/ExecuteUnit.thy ===== *)
theory ExecuteUnit
  imports DispatchUnit
begin

text \<open>
  Execution: the execution pipe (\<open>core/execute/ExecutePipe.hpp\<close>, \<open>ExecutePipe.cpp\<close>), the issue queue
  (\<open>core/execute/IssueQueue.hpp\<close>, \<open>IssueQueue.cpp\<close>) and the construction of the queues and pipes
  (\<open>core/execute/Execute.cpp\<close>).

  A payload event that is scheduled and has not run yet is an entry of a list of the pipe; the
  simulator takes the entry out and calls the handler. The scoreboards are the sets of ready registers
  of the three register files. Of the scoreboard views of the Sparta framework only the calls that the
  queue makes are recorded: \<open>iq_callbacks\<close> are the registrations, in order, and a request to clear the
  callbacks of an instruction is an output. What the scoreboard does with them is left open; the body of a callback is
  \<open>handleOperandIssueCheck\<close>. Two pieces of the Sparta framework are parameters: where the priority
  queue inserts (\<open>pqi\<close>, given the sorter), and the outcome of the random draw that injects a
  misprediction.
\<close>

section \<open>The execution pipe\<close>

record ExecutePipeParameterSet =
  epp_ignore_inst_execute_time :: bool
  epp_execute_time :: nat
  epp_enable_random_misprediction :: bool
  epp_contains_branch_unit :: bool
  epp_valu_adder_num :: nat

datatype pipe_event =
    OutVset ptr
  | SetReady RegFile "nat set"
  | OutExecutePipe nat

record ExecutePipe =
  ep_unit_busy :: bool
  ep_num_passes_needed :: nat
  ep_curr_num_pass :: nat
  ep_issue_inst :: "ptr list"
  ep_execute_inst :: "(ptr \<times> nat) list"
  ep_complete_inst :: "ptr list"
  ep_total_insts_executed :: nat
  ep_out :: "pipe_event list"

definition mk_ExecutePipe :: ExecutePipe where
  "mk_ExecutePipe = \<lparr>ep_unit_busy = False, ep_num_passes_needed = 0, ep_curr_num_pass = 0, ep_issue_inst = [],
     ep_execute_inst = [], ep_complete_inst = [], ep_total_insts_executed = 0, ep_out = []\<rparr>"

definition ep_canAccept :: "ExecutePipe \<Rightarrow> bool" where
  "ep_canAccept e = (\<not> ep_unit_busy e)"

definition ep_emit :: "pipe_event \<Rightarrow> ExecutePipe \<Rightarrow> ExecutePipe" where
  "ep_emit x e = e\<lparr>ep_out := ep_out e @ [x]\<rparr>"

text \<open>The passes a vector micro-op needs: 32-bit unsigned arithmetic, on the low half of the 64-bit
  product, and an integer quotient inside \<open>std::ceil\<close>.\<close>

definition num_passes :: "ExecutePipeParameterSet \<Rightarrow> Inst \<Rightarrow> nat result" where
  "num_passes pr i =
     (let vc = i_vector_config i in
      if vc_lmul vc = 0 then Inl (UndefinedBehaviour ''division by zero'')
      else let num_elems_per_uop = vc_vlmax vc div vc_lmul vc;
               uop_before = (getUOpID i + 18446744073709551615) mod 18446744073709551616;
               num_elems_remaining = sub32 (vc_vl vc) (num_elems_per_uop * uop_before mod 4294967296);
               vl = min num_elems_per_uop num_elems_remaining
           in if epp_valu_adder_num pr = 0 then Inl (UndefinedBehaviour ''division by zero'')
              else Inr (vl div epp_valu_adder_num pr))"

definition start_pass :: "ExecutePipeParameterSet \<Rightarrow> Inst \<Rightarrow> ExecutePipe \<Rightarrow> ExecutePipe result" where
  "start_pass pr i e =
     (if \<not> isVset i \<and> i_is_vector i \<and> getPipe i = TP_VINT
      then (if ep_num_passes_needed e = 0
            then bindE (num_passes pr i) (\<lambda>n.
                   Inr (if n > 1 then e\<lparr>ep_num_passes_needed := n, ep_curr_num_pass := 1\<rparr> else e))
            else bindE (assertE (ep_curr_num_pass e + 1 \<le> ep_num_passes_needed e)
                          ''Instruction with multiple passes incremented for more than the total'') (\<lambda>_.
                   Inr (e\<lparr>ep_curr_num_pass := ep_curr_num_pass e + 1\<rparr>)))
      else Inr e)"

definition insertInst :: "ExecutePipeParameterSet \<Rightarrow> ptr \<Rightarrow> ExecutePipe \<times> heap \<Rightarrow> (ExecutePipe \<times> heap) result" where
  "insertInst pr p eh =
     (case eh of (e, h) \<Rightarrow>
        bindE (if ep_num_passes_needed e = 0
               then bindE (setStatus SCHEDULED (h p)) (\<lambda>(i, _).
                    bindE (assertE (\<not> ep_unit_busy e)
                             ''ExecutePipe is receiving a new instruction when it is already busy!!'') (\<lambda>_.
                      Inr (h(p := i))))
               else Inr h) (\<lambda>h1.
        let exe_time = (if epp_ignore_inst_execute_time pr then epp_execute_time pr else getExecuteTime (h1 p)) in
        bindE (start_pass pr (h1 p) e) (\<lambda>e1.
        bindE (assertE (exe_time \<noteq> 0) ''exe_time'') (\<lambda>_.
          Inr (e1\<lparr>ep_unit_busy := True, ep_execute_inst := ep_execute_inst e1 @ [(p, exe_time)]\<rparr>, h1)))))"

definition set_ready_all :: "Inst \<Rightarrow> ExecutePipe \<Rightarrow> ExecutePipe" where
  "set_ready_all i e = fold (\<lambda>rf e1. ep_emit (SetReady rf (i_dest_mask i rf)) e1) regfiles e"

text \<open>\<open>hit\<close> is the outcome of \<open>std::rand() % 20 == 0\<close>.\<close>

definition executeInst ::
    "ExecutePipeParameterSet \<Rightarrow> bool \<Rightarrow> ptr \<Rightarrow> ExecutePipe \<times> heap \<Rightarrow> ExecutePipe \<times> heap" where
  "executeInst pr hit p eh =
     (case eh of (e, h) \<Rightarrow>
        if ep_num_passes_needed e \<noteq> 0 \<and> ep_curr_num_pass e < ep_num_passes_needed e
        then (e\<lparr>ep_issue_inst := ep_issue_inst e @ [p]\<rparr>, h)
        else
          let e1 = (if ep_num_passes_needed e \<noteq> 0 then e\<lparr>ep_curr_num_pass := 0, ep_num_passes_needed := 0\<rparr> else e);
              e2 = (if isVset (h p) \<and> i_is_blocking_vset (h p) then ep_emit (OutVset p) e1 else e1);
              e3 = set_ready_all (h p) e2;
              h1 = (if epp_enable_random_misprediction pr \<and> epp_contains_branch_unit pr \<and> i_is_branch (h p) \<and> hit
                    then h(p := (h p)\<lparr>i_is_mispredicted := True\<rparr>) else h)
          in (e3\<lparr>ep_unit_busy := False, ep_total_insts_executed := ep_total_insts_executed e3 + 1,
                 ep_complete_inst := ep_complete_inst e3 @ [p]\<rparr>, h1))"

text \<open>\<open>completeInst\<close> also returns whether the ROB's retire event was scheduled.\<close>

definition completeInst :: "ptr \<Rightarrow> ExecutePipe \<times> heap \<Rightarrow> (ExecutePipe \<times> heap \<times> bool) result" where
  "completeInst p eh =
     (case eh of (e, h) \<Rightarrow>
        bindE (setStatus COMPLETED (h p)) (\<lambda>(i, retire). Inr (ep_emit (OutExecutePipe 1) e, h(p := i), retire)))"

definition ep_flushInst :: "FlushingCriteria \<Rightarrow> heap \<Rightarrow> ExecutePipe \<Rightarrow> ExecutePipe" where
  "ep_flushInst c h e =
     (let e1 = e\<lparr>ep_issue_inst := [],
                 ep_complete_inst := filter (\<lambda>p. \<not> includedInFlush h c p) (ep_complete_inst e),
                 ep_execute_inst := filter (\<lambda>(p, t). \<not> includedInFlush h c p) (ep_execute_inst e)\<rparr>
      in if ep_execute_inst e1 = [] then e1\<lparr>ep_unit_busy := False\<rparr> else e1)"

section \<open>The issue queue\<close>

record IssueQueueParameterSet =
  iqp_scheduler_size :: nat
  iqp_in_order_issue :: bool

datatype iq_event =
    OutSchedulerCredits nat
  | EvIssueReady
  | ClearCallbacks RegFile nat

type_synonym ready_callback = "RegFile \<times> nat set \<times> ptr"

record IssueQueue =
  iq_exe_pipes :: "(string \<times> nat) list"
  iq_pipe_exe_pipe_mapping :: "TargetPipe \<Rightarrow> nat list"
  iq_pipes :: "nat list"
  iq_ready_queue :: "ptr list"
  iq_issue_queue :: "ptr list"
  iq_callbacks :: "ready_callback list"
  iq_total_insts_issued :: nat
  iq_rob_stopped_simulation :: bool
  iq_out :: "iq_event list"

definition mk_IssueQueue :: IssueQueue where
  "mk_IssueQueue = \<lparr>iq_exe_pipes = [], iq_pipe_exe_pipe_mapping = (\<lambda>_. []), iq_pipes = [], iq_ready_queue = [],
     iq_issue_queue = [], iq_callbacks = [], iq_total_insts_issued = 0, iq_rob_stopped_simulation = False, iq_out = []\<rparr>"

definition iq_emit :: "iq_event \<Rightarrow> IssueQueue \<Rightarrow> IssueQueue" where
  "iq_emit x q = q\<lparr>iq_out := iq_out q @ [x]\<rparr>"

text \<open>The sorter: \<open>choose(existing, to_be_inserted)\<close>.\<close>

definition iq_choose :: "bool \<Rightarrow> heap \<Rightarrow> ptr \<Rightarrow> ptr \<Rightarrow> bool" where
  "iq_choose fifo h existing to_be_inserted =
     (if fifo then False else i_unique_id (h existing) > i_unique_id (h to_be_inserted))"

definition setupIssueQueue :: "IssueQueueParameterSet \<Rightarrow> IssueQueue \<Rightarrow> IssueQueue" where
  "setupIssueQueue pr q = iq_emit (OutSchedulerCredits (iqp_scheduler_size pr)) q"

definition onROBTerminate :: "bool \<Rightarrow> IssueQueue \<Rightarrow> IssueQueue" where
  "onROBTerminate v q = q\<lparr>iq_rob_stopped_simulation := v\<rparr>"

definition onStartingTeardown :: "IssueQueue \<Rightarrow> unit result" where
  "onStartingTeardown q =
     assertE (\<not> (\<not> iq_rob_stopped_simulation q \<and> iq_ready_queue q \<noteq> [])) ''Issue queue has pending instructions''"

definition setExePipe :: "string \<Rightarrow> nat \<Rightarrow> IssueQueue \<Rightarrow> IssueQueue" where
  "setExePipe nm e q = q\<lparr>iq_exe_pipes := (nm, e) # filter (\<lambda>x. fst x \<noteq> nm) (iq_exe_pipes q)\<rparr>"

definition setExePipeMapping :: "TargetPipe \<Rightarrow> nat \<Rightarrow> IssueQueue \<Rightarrow> IssueQueue" where
  "setExePipeMapping tgt e q =
     q\<lparr>iq_pipe_exe_pipe_mapping := (iq_pipe_exe_pipe_mapping q)(tgt := iq_pipe_exe_pipe_mapping q tgt @ [e]),
       iq_pipes := iq_pipes q @ [e]\<rparr>"

definition appendIssueQueue :: "IssueQueueParameterSet \<Rightarrow> ptr \<Rightarrow> IssueQueue \<Rightarrow> IssueQueue result" where
  "appendIssueQueue pr p q =
     bindE (assertE (length (iq_issue_queue q) \<le> iqp_scheduler_size pr) ''Appending issue queue causes overflows!'') (\<lambda>_.
       Inr (q\<lparr>iq_issue_queue := iq_issue_queue q @ [p]\<rparr>))"

definition popIssueQueue :: "ptr \<Rightarrow> IssueQueue \<Rightarrow> IssueQueue result" where
  "popIssueQueue p q =
     (if p \<in> set (iq_issue_queue q)
      then Inr (iq_emit (OutSchedulerCredits 1) (q\<lparr>iq_issue_queue := remove1 p (iq_issue_queue q)\<rparr>))
      else Inl (SpartaAssert ''Attempt to complete instruction no longer exiting in issue queue!''))"

text \<open>The loop over the sources of one register file; every source is checked against the mask of the
  whole file, and the first that is not ready registers a callback and ends the loop.\<close>

fun check_srcs :: "nat set \<Rightarrow> nat set \<Rightarrow> Reg list \<Rightarrow> bool" where
  "check_srcs ready bits [] = True"
| "check_srcs ready bits (src # srcs) = (if bits \<subseteq> ready then check_srcs ready bits srcs else False)"

definition check_regfile ::
    "(RegFile \<Rightarrow> nat set) \<Rightarrow> Inst \<Rightarrow> ptr \<Rightarrow> RegFile \<Rightarrow> bool \<times> ready_callback list \<Rightarrow> bool \<times> ready_callback list" where
  "check_regfile sb i p rf st =
     (case st of (all_srcs_ready, cbs) \<Rightarrow>
        let srcs = rd_src (i_rename_data i) rf in
        if srcs = [] then (all_srcs_ready, cbs)
        else if check_srcs (sb rf) (i_src_mask i rf) srcs then (all_srcs_ready, cbs)
        else (False, cbs @ [(rf, i_src_mask i rf, p)]))"

definition handleOperandIssueCheck ::
    "((ptr \<Rightarrow> ptr \<Rightarrow> bool) \<Rightarrow> ptr list \<Rightarrow> ptr \<Rightarrow> ptr list) \<Rightarrow> IssueQueueParameterSet \<Rightarrow> (RegFile \<Rightarrow> nat set)
       \<Rightarrow> heap \<Rightarrow> ptr \<Rightarrow> IssueQueue \<Rightarrow> IssueQueue" where
  "handleOperandIssueCheck pqi pr sb h p q =
     (case fold (check_regfile sb (h p) p) regfiles (True, []) of (all_srcs_ready, cbs) \<Rightarrow>
        let q1 = q\<lparr>iq_callbacks := iq_callbacks q @ cbs\<rparr> in
        if all_srcs_ready
        then iq_emit EvIssueReady
               (q1\<lparr>iq_ready_queue := pqi (iq_choose (iqp_in_order_issue pr) h) (iq_ready_queue q1) p\<rparr>)
        else q1)"

definition receiveInstsFromDispatch ::
    "((ptr \<Rightarrow> ptr \<Rightarrow> bool) \<Rightarrow> ptr list \<Rightarrow> ptr \<Rightarrow> ptr list) \<Rightarrow> IssueQueueParameterSet \<Rightarrow> (RegFile \<Rightarrow> nat set)
       \<Rightarrow> heap \<Rightarrow> ptr \<Rightarrow> IssueQueue \<Rightarrow> IssueQueue result" where
  "receiveInstsFromDispatch pqi pr sb h p q =
     bindE (assertE (i_status (h p) = DISPATCHED) ''Bad instruction status'') (\<lambda>_.
     bindE (appendIssueQueue pr p q) (\<lambda>q1. Inr (handleOperandIssueCheck pqi pr sb h p q1)))"

definition readyExeUnit :: "IssueQueue \<Rightarrow> IssueQueue" where
  "readyExeUnit q = (if iq_ready_queue q \<noteq> [] then iq_emit EvIssueReady q else q)"

text \<open>The execution pipes are shared objects; a queue refers to them by index. Every pipe has its own parameters.\<close>

type_synonym exec_state = "IssueQueue \<times> ExecutePipe list \<times> heap"

definition first_free :: "ExecutePipe list \<Rightarrow> nat list \<Rightarrow> nat option" where
  "first_free es ix = List.find (\<lambda>k. ep_canAccept (es ! k)) ix"

definition issue_to :: "(nat \<Rightarrow> ExecutePipeParameterSet) \<Rightarrow> nat \<Rightarrow> ptr \<Rightarrow> exec_state \<Rightarrow> exec_state result" where
  "issue_to pr k p x =
     (case x of (q, es, h) \<Rightarrow>
        bindE (insertInst (pr k) p (es ! k, h)) (\<lambda>(e, h1).
        bindE (popIssueQueue p q) (\<lambda>q1.
          Inr (q1\<lparr>iq_total_insts_issued := iq_total_insts_issued q1 + 1\<rparr>, es[k := e], h1))))"

text \<open>The loop over the ready queue; \<open>kept\<close> are the entries it has passed, \<open>todo\<close> those to come.\<close>

fun send_loop :: "(nat \<Rightarrow> ExecutePipeParameterSet) \<Rightarrow> ptr list \<Rightarrow> ptr list \<Rightarrow> exec_state \<Rightarrow> (ptr list \<times> exec_state) result" where
  "send_loop pr kept [] x = Inr (kept, x)"
| "send_loop pr kept (p # todo) (q, es, h) =
     (case first_free es (iq_pipe_exe_pipe_mapping q (getPipe (h p))) of
        Some k \<Rightarrow> bindE (issue_to pr k p (q, es, h)) (\<lambda>x. send_loop pr kept todo x)
      | None \<Rightarrow> send_loop pr (kept @ [p]) todo (q, es, h))"

definition sendReadyInsts ::
    "IssueQueueParameterSet \<Rightarrow> (nat \<Rightarrow> ExecutePipeParameterSet) \<Rightarrow> exec_state \<Rightarrow> exec_state result" where
  "sendReadyInsts pr epr x =
     (case x of (q, es, h) \<Rightarrow>
        bindE (assertE (length (iq_ready_queue q) \<le> iqp_scheduler_size pr) ''ready queue greater than issue queue size'') (\<lambda>_.
        bindE (send_loop epr [] (iq_ready_queue q) (q, es, h)) (\<lambda>(kept, q1, es1, h1).
          Inr (q1\<lparr>iq_ready_queue := kept\<rparr>, es1, h1))))"

definition iq_clear_callbacks :: "heap \<Rightarrow> ptr \<Rightarrow> IssueQueue \<Rightarrow> IssueQueue" where
  "iq_clear_callbacks h p q =
     fold (\<lambda>rf q1. iq_emit (ClearCallbacks rf (i_unique_id (h p))) q1) regfiles q"

definition iq_flush_one :: "FlushingCriteria \<Rightarrow> heap \<Rightarrow> IssueQueue \<times> nat \<Rightarrow> ptr \<Rightarrow> IssueQueue \<times> nat" where
  "iq_flush_one c h qn p =
     (case qn of (q, n) \<Rightarrow>
        if includedInFlush h c p
        then (iq_clear_callbacks h p (q\<lparr>iq_issue_queue := remove1 p (iq_issue_queue q)\<rparr>), n + 1)
        else (q, n))"

definition iq_flushInst :: "FlushingCriteria \<Rightarrow> heap \<Rightarrow> IssueQueue \<Rightarrow> IssueQueue" where
  "iq_flushInst c h q =
     (case foldl (iq_flush_one c h) (q, 0) (iq_issue_queue q) of (q1, credits_to_send) \<Rightarrow>
        let q2 = (if credits_to_send \<noteq> 0 then iq_emit (OutSchedulerCredits credits_to_send) q1 else q1)
        in q2\<lparr>iq_ready_queue := filter (\<lambda>p. \<not> includedInFlush h c p) (iq_ready_queue q2)\<rparr>)"

section \<open>Construction of queues and pipes\<close>

text \<open>The range of pipes of an issue queue.\<close>

definition pipe_range :: "nat list \<Rightarrow> nat list result" where
  "pipe_range iq =
     (case iq of
        [] \<Rightarrow> Inl (UndefinedBehaviour ''issue_queue_to_pipe_map'')
      | s # t \<Rightarrow> Inr [s ..< (case t of [] \<Rightarrow> s | e # _ \<Rightarrow> e) + 1])"

definition unit_name :: "string list list \<Rightarrow> nat \<Rightarrow> string result" where
  "unit_name exe_pipe_rename pipe_idx =
     (let nm = ''exe'' @ digits pipe_idx in
      if length exe_pipe_rename > 0
      then (if pipe_idx < length exe_pipe_rename \<and> length (exe_pipe_rename ! pipe_idx) > 1
            then bindE (assertE (exe_pipe_rename ! pipe_idx ! 0 = nm)
                          ''Rename mapping for execution is not in order'') (\<lambda>_.
                   Inr (exe_pipe_rename ! pipe_idx ! 1))
            else Inl (UndefinedBehaviour ''exe_pipe_rename''))
      else Inr nm)"

fun pipe_to_iq_mapping :: "nat \<Rightarrow> nat list list \<Rightarrow> nat list result" where
  "pipe_to_iq_mapping iq_num [] = Inr []"
| "pipe_to_iq_mapping iq_num (iq # iqs) =
     bindE (pipe_range iq) (\<lambda>ix.
     bindE (pipe_to_iq_mapping (iq_num + 1) iqs) (\<lambda>rest. Inr (map (\<lambda>_. iq_num) ix @ rest)))"

text \<open>An execution-pipe node: its name, the issue queue whose scoreboard view it uses, and whether it
  holds a branch unit.\<close>

record exe_pipe_node =
  tn_name :: string
  tn_iq_name :: string
  tn_contains_branch_unit :: bool

definition exe_pipe_tn ::
    "nat list \<Rightarrow> string list list \<Rightarrow> string list list \<Rightarrow> string list list \<Rightarrow> nat \<Rightarrow> exe_pipe_node result" where
  "exe_pipe_tn p2iq issue_queue_rename exe_pipe_rename pipelines pipeidx =
     (if length p2iq \<le> pipeidx then Inl (UndefinedBehaviour ''pipe_to_iq_mapping'')
      else bindE (issue_queue_name issue_queue_rename (p2iq ! pipeidx)) (\<lambda>iq_name.
           bindE (unit_name exe_pipe_rename pipeidx) (\<lambda>nm.
             Inr \<lparr>tn_name = nm, tn_iq_name = iq_name,
                  tn_contains_branch_unit = (''br'' \<in> set (pipelines ! pipeidx))\<rparr>)))"

fun mapE :: "('a \<Rightarrow> 'b result) \<Rightarrow> 'a list \<Rightarrow> 'b list result" where
  "mapE f [] = Inr []"
| "mapE f (x # xs) = bindE (f x) (\<lambda>y. bindE (mapE f xs) (\<lambda>ys. Inr (y # ys)))"

definition onConfiguring ::
    "nat list list \<Rightarrow> string list list \<Rightarrow> string list list \<Rightarrow> string list list
       \<Rightarrow> (string list \<times> exe_pipe_node list) result" where
  "onConfiguring issue_queue_to_pipe_map issue_queue_rename exe_pipe_rename pipelines =
     bindE (mapE (issue_queue_name issue_queue_rename) [0 ..< length issue_queue_to_pipe_map]) (\<lambda>iq_names.
     bindE (pipe_to_iq_mapping 0 issue_queue_to_pipe_map) (\<lambda>p2iq.
     bindE (mapE (exe_pipe_tn p2iq issue_queue_rename exe_pipe_rename pipelines) [0 ..< length pipelines]) (\<lambda>tns.
       Inr (iq_names, tns))))"

text \<open>\<open>bindLate\<close>: first every pipe is registered by name with its queue, then every target of every
  pipe is mapped. The state is the queues and the map from pipe names to queue numbers.\<close>

type_synonym bind_state = "IssueQueue list \<times> (string \<rightharpoonup> nat)"

definition register_pipe ::
    "exe_pipe_node list \<Rightarrow> string list list \<Rightarrow> nat \<Rightarrow> bind_state \<Rightarrow> nat \<Rightarrow> bind_state result" where
  "register_pipe tns exe_pipe_rename iq_num st pipe_idx =
     bindE (unit_name exe_pipe_rename pipe_idx) (\<lambda>nm.
       Inr (foldl (\<lambda>(qs, m) k. if tn_name (tns ! k) = nm
                               then (qs[iq_num := setExePipe nm k (qs ! iq_num)], m(nm \<mapsto> iq_num)) else (qs, m))
              st [0 ..< length tns]))"

definition register_queue ::
    "exe_pipe_node list \<Rightarrow> string list list \<Rightarrow> nat list list \<Rightarrow> bind_state \<Rightarrow> nat \<Rightarrow> bind_state result" where
  "register_queue tns exe_pipe_rename iqs st iq_num =
     bindE (pipe_range (iqs ! iq_num)) (\<lambda>ix. foldE (register_pipe tns exe_pipe_rename iq_num) st ix)"

definition map_pipe_target ::
    "string \<Rightarrow> bind_state \<Rightarrow> string \<Rightarrow> bind_state result" where
  "map_pipe_target nm st pipe_name =
     (case st of (qs, m) \<Rightarrow>
        (case m nm of
           None \<Rightarrow> Inl (SpartaException ''exe_pipe_to_iq_number at'')
         | Some iq_num \<Rightarrow>
             (case map_of (iq_exe_pipes (qs ! iq_num)) nm of
                None \<Rightarrow> Inl (SpartaException ''getExePipes at'')
              | Some k \<Rightarrow>
                  (case map_of execution_pipe_map pipe_name of
                     None \<Rightarrow> Inl (UndefinedBehaviour ''execution_pipe_map end'')
                   | Some tgt \<Rightarrow> Inr (qs[iq_num := setExePipeMapping tgt k (qs ! iq_num)], m)))))"

definition map_pipe :: "string list list \<Rightarrow> string list list \<Rightarrow> bind_state \<Rightarrow> nat \<Rightarrow> bind_state result" where
  "map_pipe exe_pipe_rename pipelines st pipe_idx =
     (if length pipelines \<le> pipe_idx then Inl (UndefinedBehaviour ''pipelines'')
      else foldE (\<lambda>st1 pipe_name. bindE (unit_name exe_pipe_rename pipe_idx) (\<lambda>nm. map_pipe_target nm st1 pipe_name))
             st (pipelines ! pipe_idx))"

definition bindLate ::
    "exe_pipe_node list \<Rightarrow> nat list list \<Rightarrow> string list list \<Rightarrow> string list list \<Rightarrow> IssueQueue list
       \<Rightarrow> IssueQueue list result" where
  "bindLate tns iqs exe_pipe_rename pipelines qs =
     bindE (foldE (register_queue tns exe_pipe_rename iqs) (qs, Map.empty) [0 ..< length iqs]) (\<lambda>st.
     bindE (foldE (\<lambda>st1 iq. bindE (pipe_range iq) (\<lambda>ix. foldE (map_pipe exe_pipe_rename pipelines) st1 ix)) st iqs) (\<lambda>(qs1, m).
       Inr qs1))"

end
