(* ===== verification/ExecuteProps.thy ===== *)
theory ExecuteProps
  imports ExecuteUnit DispatchProps
begin

text \<open>
  Properties of execution: what one issue session does, when an instruction is woken up, the passes of
  a vector micro-op, and the pipes an issue queue is built with. \<open>issued\<close> describes a stretch of the
  issue loop and composes step by step.
\<close>

section \<open>Inserting into a free pipe\<close>

definition pipe_free :: "ExecutePipe \<Rightarrow> bool" where
  "pipe_free e \<longleftrightarrow> \<not> ep_unit_busy e \<and> ep_num_passes_needed e = 0"

definition exec_time :: "ExecutePipeParameterSet \<Rightarrow> Inst \<Rightarrow> nat" where
  "exec_time pr i = (if epp_ignore_inst_execute_time pr then epp_execute_time pr else getExecuteTime i)"

definition multi_pass :: "Inst \<Rightarrow> bool" where
  "multi_pass i \<longleftrightarrow> \<not> isVset i \<and> i_is_vector i \<and> getPipe i = TP_VINT"

definition issuable :: "ExecutePipeParameterSet \<Rightarrow> Inst \<Rightarrow> bool" where
  "issuable pr i \<longleftrightarrow> i_status i < SCHEDULED \<and> exec_time pr i \<noteq> 0 \<and> (multi_pass i \<longrightarrow> is_ok (num_passes pr i))"

definition set_scheduled :: "heap \<Rightarrow> ptr list \<Rightarrow> heap" where
  "set_scheduled h ps = (\<lambda>p. if p \<in> set ps then (h p)\<lparr>i_status := SCHEDULED\<rparr> else h p)"

lemma static_of_status [simp]:
  "isVset (i\<lparr>i_status := st\<rparr>) = isVset i" "getPipe (i\<lparr>i_status := st\<rparr>) = getPipe i"
  "getExecuteTime (i\<lparr>i_status := st\<rparr>) = getExecuteTime i" "num_passes pr (i\<lparr>i_status := st\<rparr>) = num_passes pr i"
  "multi_pass (i\<lparr>i_status := st\<rparr>) = multi_pass i"
  by (simp_all add: isVset_def getPipe_def getExecuteTime_def num_passes_def getUOpID_def multi_pass_def Let_def)

lemma set_scheduled_simps [simp]:
  "set_scheduled h [] = h" "getPipe (set_scheduled h ps p) = getPipe (h p)"
  "p \<notin> set ps \<Longrightarrow> set_scheduled h ps p = h p"
  "set_scheduled (set_scheduled h ps) qs = set_scheduled h (ps @ qs)"
  by (auto simp: set_scheduled_def fun_eq_iff)

lemma start_pass_ok:
  assumes "ep_num_passes_needed e = 0" and "multi_pass i \<longrightarrow> is_ok (num_passes pr i)"
  shows "\<exists>n m. start_pass pr i e = Inr (e\<lparr>ep_num_passes_needed := n, ep_curr_num_pass := m\<rparr>)"
proof -
  have same: "e\<lparr>ep_num_passes_needed := 0, ep_curr_num_pass := ep_curr_num_pass e\<rparr> = e" using assms(1) by (cases e) simp
  have e: "\<exists>n m. Inr e = (Inr (e\<lparr>ep_num_passes_needed := n, ep_curr_num_pass := m\<rparr>) :: ExecutePipe result)"
    using same[symmetric] by metis
  show ?thesis
  proof (cases "multi_pass i")
    case True
    with assms(2) obtain n where n: "num_passes pr i = Inr n" by (auto simp: is_ok_iff)
    then show ?thesis using True assms(1) e by (cases "n > 1") (auto simp: start_pass_def multi_pass_def)
  next
    case False
    then show ?thesis using e by (auto simp: start_pass_def multi_pass_def)
  qed
qed

lemma insertInst_ok:
  assumes "pipe_free e" and "issuable pr (h p)"
  shows "\<exists>e'. insertInst pr p (e, h) = Inr (e', set_scheduled h [p]) \<and> ep_unit_busy e'
    \<and> ep_execute_inst e' = ep_execute_inst e @ [(p, exec_time pr (h p))] \<and> ep_complete_inst e' = ep_complete_inst e
    \<and> ep_out e' = ep_out e"
proof -
  have i: "i_status (h p) < SCHEDULED" "exec_time pr (h p) \<noteq> 0" "multi_pass (h p) \<longrightarrow> is_ok (num_passes pr (h p))"
    using assms(2) by (auto simp: issuable_def)
  have f: "\<not> ep_unit_busy e" "ep_num_passes_needed e = 0" using assms(1) by (auto simp: pipe_free_def)
  let ?i = "(h p)\<lparr>i_status := SCHEDULED\<rparr>"
  have st: "setStatus SCHEDULED (h p) = Inr (?i, False)" using i(1) by (simp add: setStatus_ok_iff)
  from start_pass_ok[OF f(2), of ?i pr] i(3) obtain n m where
    sp: "start_pass pr ?i e = Inr (e\<lparr>ep_num_passes_needed := n, ep_curr_num_pass := m\<rparr>)" by auto
  have hs: "set_scheduled h [p] = h(p := ?i)" by (auto simp: set_scheduled_def)
  show ?thesis unfolding hs
    using st sp f i(2) by (simp add: insertInst_def Let_def exec_time_def split: if_splits)
qed

section \<open>One issue session\<close>

definition queue_in_order :: "(nat \<Rightarrow> ExecutePipeParameterSet) \<Rightarrow> exec_state \<Rightarrow> bool" where
  "queue_in_order pr x \<longleftrightarrow> (case x of (q, es, h) \<Rightarrow>
     distinct (iq_issue_queue q)
   \<and> (\<forall>tp. \<forall>k\<in>set (iq_pipe_exe_pipe_mapping q tp). k < length es)
   \<and> (\<forall>e\<in>set es. ep_unit_busy e \<or> pipe_free e))"

text \<open>What a stretch of the issue loop does; \<open>asg\<close> pairs pipes with the instructions they take.\<close>

definition issued :: "(nat \<Rightarrow> ExecutePipeParameterSet) \<Rightarrow> exec_state \<Rightarrow> (nat \<times> ptr) list \<Rightarrow> exec_state \<Rightarrow> bool" where
  "issued pr x asg y \<longleftrightarrow> (case x of (q, es, h) \<Rightarrow> case y of (q', es', h') \<Rightarrow>
     q' = q\<lparr>iq_issue_queue := filter (\<lambda>p. p \<notin> snd ` set asg) (iq_issue_queue q),
            iq_total_insts_issued := iq_total_insts_issued q + length asg,
            iq_out := iq_out q @ replicate (length asg) (OutSchedulerCredits 1)\<rparr>
   \<and> h' = set_scheduled h (map snd asg) \<and> length es' = length es \<and> distinct (map fst asg)
   \<and> (\<forall>(k, p)\<in>set asg. k \<in> set (iq_pipe_exe_pipe_mapping q (getPipe (h p))) \<and> ep_canAccept (es ! k)
        \<and> ep_unit_busy (es' ! k) \<and> ep_execute_inst (es' ! k) = ep_execute_inst (es ! k) @ [(p, exec_time (pr k) (h p))])
   \<and> (\<forall>k<length es. k \<notin> fst ` set asg \<longrightarrow> es' ! k = es ! k))"


lemma first_free_Some: "first_free es ix = Some k \<Longrightarrow> k \<in> set ix \<and> ep_canAccept (es ! k)"
  by (auto simp: first_free_def find_Some_iff)

lemma first_free_None: "first_free es ix = None \<longleftrightarrow> (\<forall>k\<in>set ix. \<not> ep_canAccept (es ! k))"
  by (auto simp: first_free_def find_None_iff)

lemma issue_to_ok:
  assumes "queue_in_order pr (q, es, h)" and "k \<in> set (iq_pipe_exe_pipe_mapping q (getPipe (h p)))"
    and "ep_canAccept (es ! k)" and "issuable (pr k) (h p)" and "p \<in> set (iq_issue_queue q)"
  shows "\<exists>y. issue_to pr k p (q, es, h) = Inr y \<and> issued pr (q, es, h) [(k, p)] y \<and> queue_in_order pr y"
proof -
  have k: "k < length es" "distinct (iq_issue_queue q)" using assms(1,2) by (auto simp: queue_in_order_def)
  have "pipe_free (es ! k)" using assms(1,3) k(1) by (auto simp: queue_in_order_def ep_canAccept_def)
  from insertInst_ok[where h = h and p = p, OF this assms(4)] obtain e' where e: "insertInst (pr k) p (es ! k, h) = Inr (e', set_scheduled h [p])"
    "ep_unit_busy e'" "ep_execute_inst e' = ep_execute_inst (es ! k) @ [(p, exec_time (pr k) (h p))]" by blast
  let ?q = "q\<lparr>iq_issue_queue := filter (\<lambda>x. x \<notin> snd ` set [(k, p)]) (iq_issue_queue q),
            iq_total_insts_issued := iq_total_insts_issued q + length [(k, p)],
            iq_out := iq_out q @ replicate (length [(k, p)]) (OutSchedulerCredits 1)\<rparr>"
  have r: "remove1 p (iq_issue_queue q) = filter (\<lambda>x. x \<noteq> p) (iq_issue_queue q)"
    unfolding distinct_remove1_removeAll[OF k(2)] removeAll_filter_not_eq by (rule filter_cong) auto
  have "issue_to pr k p (q, es, h) = Inr (?q, es[k := e'], set_scheduled h [p])"
    using e(1) assms(5) by (simp add: issue_to_def popIssueQueue_def iq_emit_def r)
  moreover have "issued pr (q, es, h) [(k, p)] (?q, es[k := e'], set_scheduled h [p])"
    using assms(2,3) e(2,3) k(1) by (auto simp: issued_def)
  moreover have "queue_in_order pr (?q, es[k := e'], set_scheduled h [p])"
    using assms(1) e(2) by (auto simp: queue_in_order_def dest: set_update_subset_insert[THEN subsetD])
  ultimately show ?thesis by blast
qed

lemma issued_Cons:
  assumes "issued pr x [(k, p)] y" and "issued pr y asg z" and "queue_in_order pr x"
  shows "issued pr x ((k, p) # asg) z"
proof -
  obtain q es h q1 es1 h1 q2 es2 h2 where xyz: "x = (q, es, h)" "y = (q1, es1, h1)" "z = (q2, es2, h2)"
    by (cases x; cases y; cases z)
  have A: "q1 = q\<lparr>iq_issue_queue := filter (\<lambda>x. x \<noteq> p) (iq_issue_queue q),
       iq_total_insts_issued := iq_total_insts_issued q + 1, iq_out := iq_out q @ [OutSchedulerCredits 1]\<rparr>"
    "h1 = set_scheduled h [p]" "length es1 = length es" "k \<in> set (iq_pipe_exe_pipe_mapping q (getPipe (h p)))"
    "ep_canAccept (es ! k)" "ep_unit_busy (es1 ! k)"
    "ep_execute_inst (es1 ! k) = ep_execute_inst (es ! k) @ [(p, exec_time (pr k) (h p))]"
    "\<And>j. j < length es \<Longrightarrow> j \<noteq> k \<Longrightarrow> es1 ! j = es ! j"
    using assms(1) unfolding xyz by (auto simp: issued_def)
  have B: "q2 = q1\<lparr>iq_issue_queue := filter (\<lambda>x. x \<notin> snd ` set asg) (iq_issue_queue q1),
       iq_total_insts_issued := iq_total_insts_issued q1 + length asg,
       iq_out := iq_out q1 @ replicate (length asg) (OutSchedulerCredits 1)\<rparr>"
    "h2 = set_scheduled h1 (map snd asg)" "length es2 = length es1" "distinct (map fst asg)"
    "\<And>j r. (j, r) \<in> set asg \<Longrightarrow> j \<in> set (iq_pipe_exe_pipe_mapping q1 (getPipe (h1 r))) \<and> ep_canAccept (es1 ! j)
        \<and> ep_unit_busy (es2 ! j) \<and> ep_execute_inst (es2 ! j) = ep_execute_inst (es1 ! j) @ [(r, exec_time (pr j) (h1 r))]"
    "\<And>j. j < length es1 \<Longrightarrow> j \<notin> fst ` set asg \<Longrightarrow> es2 ! j = es1 ! j"
    using assms(2) unfolding xyz by (auto simp: issued_def)
  have kn: "k \<notin> fst ` set asg" using B(5) A(6) by (force simp: ep_canAccept_def)
  have kl: "k < length es" using assms(3) A(4) unfolding xyz by (auto simp: queue_in_order_def)
  have et: "exec_time (pr j) (h1 r) = exec_time (pr j) (h r)" for j r by (simp add: A(2) exec_time_def set_scheduled_def)
  have C: "j \<in> set (iq_pipe_exe_pipe_mapping q (getPipe (h r))) \<and> ep_canAccept (es ! j)
        \<and> ep_unit_busy (es2 ! j) \<and> ep_execute_inst (es2 ! j) = ep_execute_inst (es ! j) @ [(r, exec_time (pr j) (h r))]"
    if "(j, r) \<in> set asg" for j r
  proof -
    have "j \<noteq> k" using that kn by force
    moreover have "j < length es" using B(5)[OF that] assms(3) A(1) unfolding xyz by (auto simp: queue_in_order_def)
    ultimately show ?thesis using B(5)[OF that] A(1,2) A(8)[of j] et by simp
  qed
  have K: "ep_unit_busy (es2 ! k)" "ep_execute_inst (es2 ! k) = ep_execute_inst (es ! k) @ [(p, exec_time (pr k) (h p))]"
    using B(6)[of k] kn kl A(3,6,7) by simp_all
  have Q: "q2 = q\<lparr>iq_issue_queue := filter (\<lambda>x. x \<notin> snd ` set ((k, p) # asg)) (iq_issue_queue q),
       iq_total_insts_issued := iq_total_insts_issued q + length ((k, p) # asg),
       iq_out := iq_out q @ replicate (length ((k, p) # asg)) (OutSchedulerCredits 1)\<rparr>"
    unfolding B(1) A(1) by (simp add: conj_commute)
  have O: "es2 ! j = es ! j" if "j < length es" "j \<notin> fst ` set ((k, p) # asg)" for j
    using that A(3) A(8)[of j] B(6)[of j] by simp
  have H: "h2 = set_scheduled h (map snd ((k, p) # asg))" using A(2) B(2) by simp
  show ?thesis unfolding issued_def xyz using Q H A(3,4,5) B(3,4) kn C K O by auto
qed


text \<open>No pipe that an instruction left behind could use goes to a younger one.\<close>

fun no_overtaking :: "(ptr \<Rightarrow> nat list) \<Rightarrow> (nat \<times> ptr) list \<Rightarrow> ptr list \<Rightarrow> bool" where
  "no_overtaking pipes asg [] = True"
| "no_overtaking pipes asg (p # ps) =
     ((p \<notin> snd ` set asg \<longrightarrow> (\<forall>(k, r)\<in>set asg. r \<in> set ps \<longrightarrow> k \<notin> set (pipes p))) \<and> no_overtaking pipes asg ps)"

lemma no_overtaking_Cons: "p \<notin> set ps \<Longrightarrow> no_overtaking pipes ((k, p) # asg) ps = no_overtaking pipes asg ps"
  by (induction ps) auto

definition pipes_of :: "IssueQueue \<Rightarrow> heap \<Rightarrow> ptr \<Rightarrow> nat list" where
  "pipes_of q h p = iq_pipe_exe_pipe_mapping q (getPipe (h p))"

text \<open>The loop: \<open>todo\<close> is split into the issued and the kept instructions, in order; a kept one has all
  its pipes busy, and no pipe of its was given to a younger one.\<close>

lemma send_loop_ok:
  assumes "queue_in_order pr (q, es, h)" and "distinct todo" and "set todo \<subseteq> set (iq_issue_queue q)"
    and "\<forall>p\<in>set todo. \<forall>k\<in>set (iq_pipe_exe_pipe_mapping q (getPipe (h p))). issuable (pr k) (h p)"
  shows "\<exists>asg q' es' h'. send_loop pr kept todo (q, es, h)
      = Inr (kept @ filter (\<lambda>p. p \<notin> snd ` set asg) todo, q', es', h')
    \<and> issued pr (q, es, h) asg (q', es', h') \<and> queue_in_order pr (q', es', h')
    \<and> map snd asg = filter (\<lambda>p. p \<in> snd ` set asg) todo
    \<and> (\<forall>p\<in>set todo. p \<notin> snd ` set asg \<longrightarrow> (\<forall>k\<in>set (iq_pipe_exe_pipe_mapping q (getPipe (h p))). ep_unit_busy (es' ! k)))
    \<and> no_overtaking (pipes_of q h) asg todo"
  using assms
proof (induction todo arbitrary: q es h kept)
  case Nil
  have "issued pr (q, es, h) [] (q, es, h)" by (auto simp: issued_def)
  with Nil.prems(1) show ?case by (intro exI[of _ "[]"]) auto
next
  case (Cons p todo)
  show ?case
  proof (cases "first_free es (iq_pipe_exe_pipe_mapping q (getPipe (h p)))")
    case None
    from Cons.IH[of q es h "kept @ [p]"] Cons.prems obtain asg q' es' h' where I:
      "send_loop pr (kept @ [p]) todo (q, es, h) = Inr ((kept @ [p]) @ filter (\<lambda>p. p \<notin> snd ` set asg) todo, q', es', h')"
      "issued pr (q, es, h) asg (q', es', h')" "queue_in_order pr (q', es', h')"
      "map snd asg = filter (\<lambda>p. p \<in> snd ` set asg) todo"
      "\<forall>p\<in>set todo. p \<notin> snd ` set asg \<longrightarrow> (\<forall>k\<in>set (iq_pipe_exe_pipe_mapping q (getPipe (h p))). ep_unit_busy (es' ! k))"
      "no_overtaking (pipes_of q h) asg todo"
      by auto
    have sub: "snd ` set asg \<subseteq> set todo" using arg_cong[OF I(4), of set] by auto
    then have pn: "p \<notin> snd ` set asg" using Cons.prems(2) by auto
    have busy: "\<forall>k\<in>set (iq_pipe_exe_pipe_mapping q (getPipe (h p))). \<not> ep_canAccept (es ! k)"
      using None by (simp add: first_free_None)
    have kn: "k \<notin> set (iq_pipe_exe_pipe_mapping q (getPipe (h p)))" if "(k, r) \<in> set asg" for k r
      using I(2) that busy by (auto simp: issued_def)
    have "ep_unit_busy (es' ! k)" if "k \<in> set (iq_pipe_exe_pipe_mapping q (getPipe (h p)))" for k
    proof -
      have "k \<notin> fst ` set asg" using kn that by force
      moreover have "k < length es" using Cons.prems(1) that by (auto simp: queue_in_order_def)
      ultimately show ?thesis using I(2) busy that by (auto simp: issued_def ep_canAccept_def)
    qed
    moreover have "no_overtaking (pipes_of q h) asg (p # todo)"
      using I(6) kn by (auto simp: pipes_of_def)
    ultimately show ?thesis using I None pn by (intro exI[of _ asg] exI[of _ q'] exI[of _ es'] exI[of _ h']) auto
  next
    case (Some k)
    note ff = first_free_Some[OF Some]
    have pi: "issuable (pr k) (h p)" "p \<in> set (iq_issue_queue q)" using Cons.prems(3,4) ff by auto
    from issue_to_ok[where h = h and p = p, OF Cons.prems(1) _ _ pi] ff obtain q1 es1 h1 where J:
      "issue_to pr k p (q, es, h) = Inr (q1, es1, h1)" "issued pr (q, es, h) [(k, p)] (q1, es1, h1)"
      "queue_in_order pr (q1, es1, h1)" by (metis prod_cases3)
    have s1: "h1 = set_scheduled h [p]" "iq_pipe_exe_pipe_mapping q1 = iq_pipe_exe_pipe_mapping q"
      "iq_issue_queue q1 = filter (\<lambda>x. x \<noteq> p) (iq_issue_queue q)" using J(2) by (auto simp: issued_def)
    have pt: "p \<notin> set todo" "distinct todo" using Cons.prems(2) by auto
    have "set todo \<subseteq> set (iq_issue_queue q1)" using Cons.prems(3) pt(1) s1(3) by auto
    moreover have "\<forall>r\<in>set todo. \<forall>k\<in>set (iq_pipe_exe_pipe_mapping q1 (getPipe (h1 r))). issuable (pr k) (h1 r)"
      using Cons.prems(4) pt(1) s1(1,2) by (auto simp: set_scheduled_def)
    ultimately obtain asg q' es' h' where I:
      "send_loop pr kept todo (q1, es1, h1) = Inr (kept @ filter (\<lambda>p. p \<notin> snd ` set asg) todo, q', es', h')"
      "issued pr (q1, es1, h1) asg (q', es', h')" "queue_in_order pr (q', es', h')"
      "map snd asg = filter (\<lambda>p. p \<in> snd ` set asg) todo"
      "\<forall>p\<in>set todo. p \<notin> snd ` set asg \<longrightarrow> (\<forall>k\<in>set (iq_pipe_exe_pipe_mapping q1 (getPipe (h1 p))). ep_unit_busy (es' ! k))"
      "no_overtaking (pipes_of q1 h1) asg todo"
      using Cons.IH[OF J(3) pt(2)] by blast
    have pn: "p \<notin> snd ` set asg" using arg_cong[OF I(4), of set] pt(1) by auto
    have f1: "filter (\<lambda>r. r = p \<or> r \<in> snd ` set asg) todo = filter (\<lambda>r. r \<in> snd ` set asg) todo"
      "filter (\<lambda>r. r \<noteq> p \<and> r \<notin> snd ` set asg) todo = filter (\<lambda>r. r \<notin> snd ` set asg) todo"
      using pt(1) by (auto intro: filter_cong)
    have "pipes_of q1 h1 = pipes_of q h" using s1(1,2) by (simp add: pipes_of_def fun_eq_iff)
    then have "no_overtaking (pipes_of q h) ((k, p) # asg) (p # todo)"
      using I(6) pt(1) by (simp add: no_overtaking_Cons)
    then show ?thesis using I(1,3,4,5) J(1) Some issued_Cons[OF J(2) I(2) Cons.prems(1)] f1 s1(1,2)
      by (intro exI[of _ "(k, p) # asg"] exI[of _ q'] exI[of _ es'] exI[of _ h']) auto
  qed
qed


section \<open>Wake-up\<close>

definition file_ready :: "(RegFile \<Rightarrow> nat set) \<Rightarrow> Inst \<Rightarrow> RegFile \<Rightarrow> bool" where
  "file_ready sb i rf \<longleftrightarrow> rd_src (i_rename_data i) rf = [] \<or> i_src_mask i rf \<subseteq> sb rf"

definition all_ready :: "(RegFile \<Rightarrow> nat set) \<Rightarrow> Inst \<Rightarrow> bool" where
  "all_ready sb i \<longleftrightarrow> (\<forall>rf\<in>set regfiles. file_ready sb i rf)"

lemma check_srcs_iff: "check_srcs ready bits srcs \<longleftrightarrow> srcs = [] \<or> bits \<subseteq> ready"
  by (induction srcs) auto

lemma check_regfile_eq:
  "check_regfile sb i p rf (b, cbs) =
     (if file_ready sb i rf then (b, cbs) else (False, cbs @ [(rf, i_src_mask i rf, p)]))"
  by (auto simp: check_regfile_def file_ready_def check_srcs_iff Let_def)

definition waits_for :: "(RegFile \<Rightarrow> nat set) \<Rightarrow> Inst \<Rightarrow> ptr \<Rightarrow> ready_callback list" where
  "waits_for sb i p = map (\<lambda>rf. (rf, i_src_mask i rf, p)) (filter (\<lambda>rf. \<not> file_ready sb i rf) regfiles)"

lemma fold_check_regfile:
  "fold (check_regfile sb i p) rfs (b, cbs) =
     (b \<and> (\<forall>rf\<in>set rfs. file_ready sb i rf),
      cbs @ map (\<lambda>rf. (rf, i_src_mask i rf, p)) (filter (\<lambda>rf. \<not> file_ready sb i rf) rfs))"
  by (induction rfs arbitrary: b cbs) (auto simp: check_regfile_eq)

lemma operandCheck_eq:
  "handleOperandIssueCheck pqi pr sb h p q =
     (if all_ready sb (h p)
      then iq_emit EvIssueReady (q\<lparr>iq_ready_queue := pqi (iq_choose (iqp_in_order_issue pr) h) (iq_ready_queue q) p\<rparr>)
      else q\<lparr>iq_callbacks := iq_callbacks q @ waits_for sb (h p) p\<rparr>)"
proof -
  have "q\<lparr>iq_callbacks := iq_callbacks q\<rparr> = q" by (cases q) simp
  moreover have "all_ready sb (h p) \<Longrightarrow> waits_for sb (h p) p = []"
    by (simp add: all_ready_def waits_for_def filter_empty_conv)
  ultimately show ?thesis
    by (auto simp: handleOperandIssueCheck_def fold_check_regfile all_ready_def[symmetric] waits_for_def[symmetric] Let_def)
qed

text \<open>The documented insertion of the priority queue: before the first element that the sorter places
  behind the new one, or at the end.\<close>

definition priority_insert_ok :: "((ptr \<Rightarrow> ptr \<Rightarrow> bool) \<Rightarrow> ptr list \<Rightarrow> ptr \<Rightarrow> ptr list) \<Rightarrow> bool" where
  "priority_insert_ok pqi \<longleftrightarrow> (\<forall>ch xs x. pqi ch xs x = takeWhile (\<lambda>e. \<not> ch e x) xs @ x # dropWhile (\<lambda>e. \<not> ch e x) xs)"

definition age_ordered :: "heap \<Rightarrow> ptr list \<Rightarrow> bool" where
  "age_ordered h ps \<longleftrightarrow> sorted_wrt (\<lambda>a b. i_unique_id (h a) \<le> i_unique_id (h b)) ps"

lemma age_ordered_insert:
  assumes "age_ordered h ps"
  shows "age_ordered h (takeWhile (\<lambda>e. \<not> iq_choose False h e x) ps @ x # dropWhile (\<lambda>e. \<not> iq_choose False h e x) ps)"
  using assms
proof (induction ps)
  case (Cons a ps)
  have a: "\<forall>b\<in>set ps. i_unique_id (h a) \<le> i_unique_id (h b)" "age_ordered h ps" using Cons.prems by (simp_all add: age_ordered_def)
  show ?case
  proof (cases "iq_choose False h a x")
    case True
    with a show ?thesis by (fastforce simp: age_ordered_def iq_choose_def)
  next
    case False
    then have "i_unique_id (h a) \<le> i_unique_id (h x)" by (simp add: iq_choose_def)
    moreover have "b \<in> set ps" if "b \<in> set (takeWhile P ps) \<or> b \<in> set (dropWhile P ps)" for b P
      using that by (auto dest: set_takeWhileD set_dropWhileD)
    ultimately show ?thesis using False a Cons.IH[OF a(2)] unfolding age_ordered_def by fastforce
  qed
qed (simp add: age_ordered_def)

lemma fifo_insert: "takeWhile (\<lambda>e. \<not> iq_choose True h e x) ps @ x # dropWhile (\<lambda>e. \<not> iq_choose True h e x) ps = ps @ [x]"
proof -
  have "takeWhile (\<lambda>e. \<not> iq_choose True h e x) ps = ps" by (simp add: iq_choose_def)
  moreover have "dropWhile (\<lambda>e. \<not> iq_choose True h e x) ps = []" by (simp add: iq_choose_def)
  ultimately show ?thesis by simp
qed

section \<open>Passes of a vector micro-op\<close>

text \<open>The simulator runs the execute event of \<open>p\<close>, and after it the issue event if there is one.\<close>

definition run_execute ::
    "ExecutePipeParameterSet \<Rightarrow> bool \<Rightarrow> ptr \<Rightarrow> ExecutePipe \<times> heap \<Rightarrow> (ExecutePipe \<times> heap) result" where
  "run_execute pr hit p eh =
     (case eh of (e, h) \<Rightarrow>
        let (e1, h1) = executeInst pr hit p (e\<lparr>ep_execute_inst := filter (\<lambda>x. fst x \<noteq> p) (ep_execute_inst e)\<rparr>, h)
        in if p \<in> set (ep_issue_inst e1)
           then insertInst pr p (e1\<lparr>ep_issue_inst := filter (\<lambda>x. x \<noteq> p) (ep_issue_inst e1)\<rparr>, h1)
           else Inr (e1, h1))"

primrec run_executes ::
    "ExecutePipeParameterSet \<Rightarrow> bool \<Rightarrow> ptr \<Rightarrow> nat \<Rightarrow> ExecutePipe \<times> heap \<Rightarrow> (ExecutePipe \<times> heap) result" where
  "run_executes pr hit p 0 eh = Inr eh"
| "run_executes pr hit p (Suc n) eh = bindE (run_execute pr hit p eh) (run_executes pr hit p n)"

definition in_pass :: "ExecutePipeParameterSet \<Rightarrow> heap \<Rightarrow> ptr \<Rightarrow> nat \<Rightarrow> nat \<Rightarrow> ExecutePipe \<Rightarrow> bool" where
  "in_pass pr h p n c e \<longleftrightarrow> ep_num_passes_needed e = n \<and> ep_curr_num_pass e = c \<and> ep_unit_busy e
     \<and> ep_execute_inst e = [(p, exec_time pr (h p))] \<and> ep_issue_inst e = [] \<and> ep_complete_inst e = []"

lemma run_execute_next_pass:
  assumes "in_pass pr h p n c e" and "c < n" and "multi_pass (h p)" and "exec_time pr (h p) \<noteq> 0"
  shows "\<exists>e'. run_execute pr hit p (e, h) = Inr (e', h) \<and> in_pass pr h p n (c + 1) e'"
  using assms
  by (auto simp: run_execute_def executeInst_def insertInst_def start_pass_def in_pass_def multi_pass_def exec_time_def Let_def)

lemma set_ready_all_simps [simp]:
  "ep_complete_inst (set_ready_all i e) = ep_complete_inst e" "ep_execute_inst (set_ready_all i e) = ep_execute_inst e"
  "ep_issue_inst (set_ready_all i e) = ep_issue_inst e" "ep_num_passes_needed (set_ready_all i e) = ep_num_passes_needed e"
  "ep_curr_num_pass (set_ready_all i e) = ep_curr_num_pass e"
  by (simp_all add: set_ready_all_def regfiles_def ep_emit_def)

lemma run_execute_last_pass:
  assumes "in_pass pr h p n n e"
  shows "\<exists>e' h'. run_execute pr hit p (e, h) = Inr (e', h') \<and> pipe_free e' \<and> ep_complete_inst e' = [p]
    \<and> ep_execute_inst e' = [] \<and> ep_issue_inst e' = []"
  using assms by (auto simp: run_execute_def executeInst_def in_pass_def Let_def pipe_free_def ep_emit_def)

lemma run_executes_passes:
  assumes "in_pass pr h p n c e" and "c \<le> n" and "multi_pass (h p)" and "exec_time pr (h p) \<noteq> 0" and "k \<le> n - c"
  shows "\<exists>e'. run_executes pr hit p k (e, h) = Inr (e', h) \<and> in_pass pr h p n (c + k) e'"
  using assms
proof (induction k arbitrary: c e)
  case (Suc k)
  then have "c < n" by simp
  from run_execute_next_pass[where h = h and p = p, OF Suc.prems(1) this Suc.prems(3,4)] obtain e1 where
    "run_execute pr hit p (e, h) = Inr (e1, h)" "in_pass pr h p n (c + 1) e1" by blast
  with Suc.IH[of "c + 1" e1] Suc.prems show ?case by auto
qed simp

lemma exec_time_status [simp]: "exec_time pr (i\<lparr>i_status := st\<rparr>) = exec_time pr i"
  by (simp add: exec_time_def)

text \<open>A flush between the passes frees the pipe but keeps its counters: the next instruction is taken
  for a further pass and is never marked scheduled.\<close>

lemma flushed_pipe_skips_schedule:
  assumes "ep_num_passes_needed e \<noteq> 0" and "\<forall>(p, t)\<in>set (ep_execute_inst e). includedInFlush h c p"
  shows "ep_canAccept (ep_flushInst c h e)
    \<and> (insertInst pr r (ep_flushInst c h e, h) = Inr (e1, h1) \<longrightarrow> h1 = h)"
proof -
  have "filter (\<lambda>(p, t). \<not> includedInFlush h c p) (ep_execute_inst e) = []"
    using assms(2) by (auto simp: filter_empty_conv)
  then show ?thesis using assms(1) by (auto simp: ep_flushInst_def ep_canAccept_def insertInst_def bindE_eq_Inr Let_def)
qed

section \<open>Construction of the issue queues\<close>

lemma pipe_range_units: "pipe_range iq = Inr ix \<Longrightarrow> ix = iq_units iq"
  by (auto simp: pipe_range_def iq_units_def split: list.splits)

lemma mapE_nth: "mapE f xs = Inr ys \<Longrightarrow> length ys = length xs \<and> (\<forall>k<length xs. f (xs ! k) = Inr (ys ! k))"
proof (induction xs arbitrary: ys)
  case (Cons x xs)
  then obtain y zs where "f x = Inr y" "mapE f xs = Inr zs" "ys = y # zs" by (auto simp: bindE_eq_Inr)
  with Cons.IH[of zs] show ?case by (auto simp: nth_Cons split: nat.split)
qed simp

text \<open>The nodes carry the names of their pipes, and every pipe its own.\<close>

definition nodes_named :: "string list list \<Rightarrow> exe_pipe_node list \<Rightarrow> bool" where
  "nodes_named rn tns \<longleftrightarrow> (\<forall>k<length tns. unit_name rn k = Inr (tn_name (tns ! k))) \<and> distinct (map tn_name tns)"

lemma onConfiguring_names:
  assumes "onConfiguring iqs iqrn rn pipelines = Inr (iq_names, tns)"
  shows "length tns = length pipelines \<and> length iq_names = length iqs \<and> (\<forall>k<length tns. unit_name rn k = Inr (tn_name (tns ! k)))"
proof -
  from assms obtain p2iq where
    m: "mapE (issue_queue_name iqrn) [0 ..< length iqs] = Inr iq_names"
       "mapE (exe_pipe_tn p2iq iqrn rn pipelines) [0 ..< length pipelines] = Inr tns"
    by (auto simp: onConfiguring_def bindE_eq_Inr)
  have tn: "exe_pipe_tn p2iq iqrn rn pipelines k = Inr t \<Longrightarrow> unit_name rn k = Inr (tn_name t)" for k t
    by (auto simp: exe_pipe_tn_def bindE_eq_Inr split: if_splits)
  from mapE_nth[OF m(1)] mapE_nth[OF m(2)] tn show ?thesis by simp
qed

definition registered :: "exe_pipe_node list \<Rightarrow> nat \<Rightarrow> nat \<Rightarrow> bind_state \<Rightarrow> bool" where
  "registered tns q i st \<longleftrightarrow> snd st (tn_name (tns ! i)) = Some q
     \<and> map_of (iq_exe_pipes (fst st ! q)) (tn_name (tns ! i)) = Some i"

definition same_maps :: "bind_state \<Rightarrow> bind_state \<Rightarrow> bool" where
  "same_maps st st' \<longleftrightarrow> length (fst st') = length (fst st)
     \<and> (\<forall>q<length (fst st). iq_pipe_exe_pipe_mapping (fst st' ! q) = iq_pipe_exe_pipe_mapping (fst st ! q))"

lemma register_one:
  fixes iq :: nat
  assumes "distinct (map tn_name tns)" and "i < length tns"
  defines "f \<equiv> \<lambda>(qs, m) k. if tn_name (tns ! k) = tn_name (tns ! i)
      then (qs[iq := setExePipe (tn_name (tns ! i)) k (qs ! iq)], m(tn_name (tns ! i) \<mapsto> iq)) else (qs, m)"
  shows "n \<le> length tns \<Longrightarrow> foldl f (qs, m) [0 ..< n] =
    (if i < n then (qs[iq := setExePipe (tn_name (tns ! i)) i (qs ! iq)], m(tn_name (tns ! i) \<mapsto> iq)) else (qs, m))"
proof (induction n)
  case (Suc n)
  have "tn_name (tns ! n) = tn_name (tns ! i) \<longleftrightarrow> n = i"
    using assms(1,2) Suc.prems by (metis Suc_le_lessD length_map nth_eq_iff_index_eq nth_map)
  with Suc show ?case by (auto simp: f_def)
qed simp

lemma register_pipe_spec:
  assumes "nodes_named rn tns" and "i < length tns" and "iq < length (fst st)" and "register_pipe tns rn iq st i = Inr st'"
  shows "same_maps st st' \<and> registered tns iq i st'
    \<and> (\<forall>q j. j < length tns \<longrightarrow> j \<noteq> i \<longrightarrow> q < length (fst st) \<longrightarrow> registered tns q j st \<longrightarrow> registered tns q j st')"
proof -
  obtain qs m where st: "st = (qs, m)" by (cases st)
  let ?nm = "tn_name (tns ! i)"
  have "st' = (qs[iq := setExePipe ?nm i (qs ! iq)], m(?nm \<mapsto> iq))"
    using assms(1,2,4) register_one[of tns i "length tns" iq qs m]
    unfolding st by (simp add: register_pipe_def nodes_named_def)
  moreover have "tn_name (tns ! j) \<noteq> ?nm" if "j < length tns" "j \<noteq> i" for j
    using assms(1,2) that by (auto simp: nodes_named_def nth_eq_iff_index_eq distinct_conv_nth)
  moreover have "map_of (filter (\<lambda>x. fst x \<noteq> a) xs) b = map_of xs b" if "b \<noteq> a" for a b and xs :: "(string \<times> nat) list"
    using that by (induction xs) auto
  ultimately show ?thesis using assms(3) unfolding st
    by (auto simp: same_maps_def registered_def setExePipe_def nth_list_update)
qed

lemma same_maps_trans: "same_maps a b \<Longrightarrow> same_maps b c \<Longrightarrow> same_maps a c"
  by (simp add: same_maps_def)

lemma same_maps_refl [simp]: "same_maps a a"
  by (simp add: same_maps_def)

text \<open>Registering the pipes \<open>ix\<close> of queue \<open>iq\<close>; \<open>done\<close> are pairs of queue and pipe registered before.\<close>

lemma register_pipes_spec:
  assumes "foldE (register_pipe tns rn iq) st ix = Inr st'" and "nodes_named rn tns" and "iq < length (fst st)"
    and "\<forall>i\<in>set ix. i < length tns" and "distinct ix"
    and "\<forall>(q, j)\<in>D. q < length (fst st) \<and> j < length tns \<and> j \<notin> set ix \<and> registered tns q j st"
  shows "same_maps st st' \<and> (\<forall>(q, j)\<in>D \<union> {iq} \<times> set ix. registered tns q j st')"
  using assms
proof (induction ix arbitrary: st D)
  case (Cons i ix)
  from Cons.prems(1) obtain st1 where s1: "register_pipe tns rn iq st i = Inr st1"
    and f: "foldE (register_pipe tns rn iq) st1 ix = Inr st'" by (auto simp: bindE_eq_Inr)
  have il: "i < length tns" using Cons.prems(4) by simp
  note r = register_pipe_spec[OF Cons.prems(2) il Cons.prems(3) s1]
  have l: "length (fst st1) = length (fst st)" using r by (simp add: same_maps_def)
  have D1: "\<forall>(q, j)\<in>insert (iq, i) D. q < length (fst st1) \<and> j < length tns \<and> j \<notin> set ix \<and> registered tns q j st1"
    using Cons.prems(3,5,6) r l il by fastforce
  have "same_maps st1 st' \<and> (\<forall>(q, j)\<in>insert (iq, i) D \<union> {iq} \<times> set ix. registered tns q j st')"
    by (rule Cons.IH[OF f Cons.prems(2) _ _ _ D1]) (use Cons.prems(3,4,5) l in auto)
  with r same_maps_trans[of st st1 st'] show ?case by auto
qed auto


definition owned :: "nat list list \<Rightarrow> nat \<Rightarrow> (nat \<times> nat) set" where
  "owned iqs n = {(q, j). q < n \<and> j \<in> set (iq_units (iqs ! q))}"

definition ranges_ok :: "nat list list \<Rightarrow> nat \<Rightarrow> bool" where
  "ranges_ok iqs n \<longleftrightarrow> distinct (concat (map iq_units iqs)) \<and> (\<forall>iq\<in>set iqs. \<forall>i\<in>set (iq_units iq). i < n)"

lemma ranges_disjoint:
  assumes "ranges_ok iqs n" and "q < length iqs" and "r < length iqs" and "q \<noteq> r"
  shows "set (iq_units (iqs ! q)) \<inter> set (iq_units (iqs ! r)) = {}"
proof -
  have "distinct (concat (map iq_units iqs))" using assms(1) by (simp add: ranges_ok_def)
  then show ?thesis using assms(2-4)
  proof (induction iqs arbitrary: q r)
    case (Cons iq iqs)
    have d: "set (iq_units iq) \<inter> set (concat (map iq_units iqs)) = {}" using Cons.prems(1) by simp
    have m: "set (iq_units (iqs ! j)) \<subseteq> set (concat (map iq_units iqs))" if "j < length iqs" for j using nth_mem[OF that] by auto
    show ?case
    proof (cases q; cases r)
      fix q' r' assume "q = Suc q'" "r = Suc r'"
      with Cons show ?thesis by auto
    qed (use Cons.prems d m in fastforce)+
  qed simp
qed

lemma register_queues_spec:
  assumes "foldE (register_queue tns rn iqs) st [0 ..< n] = Inr st'" and "nodes_named rn tns" and "ranges_ok iqs (length tns)"
    and "n \<le> length iqs" and "length (fst st) = length iqs"
  shows "same_maps st st' \<and> (\<forall>(q, j)\<in>owned iqs n. registered tns q j st')"
  using assms
proof (induction n arbitrary: st')
  case (Suc n)
  from Suc.prems(1) obtain st1 where f: "foldE (register_queue tns rn iqs) st [0 ..< n] = Inr st1"
    and g: "register_queue tns rn iqs st1 n = Inr st'" by (auto simp: foldE_append bindE_eq_Inr)
  from Suc.IH[OF f] Suc.prems have I: "same_maps st st1" "\<forall>(q, j)\<in>owned iqs n. registered tns q j st1" by auto
  have l: "length (fst st1) = length iqs" using I(1) Suc.prems(5) by (simp add: same_maps_def)
  from g have g1: "foldE (register_pipe tns rn n) st1 (iq_units (iqs ! n)) = Inr st'"
    by (auto simp: register_queue_def bindE_eq_Inr dest!: pipe_range_units)
  have n: "n < length iqs" using Suc.prems(4) by simp
  have u: "\<forall>i\<in>set (iq_units (iqs ! n)). i < length tns" "distinct (iq_units (iqs ! n))"
    using Suc.prems(3) n by (auto simp: ranges_ok_def distinct_concat_iff)
  have D: "\<forall>(q, j)\<in>owned iqs n. q < length (fst st1) \<and> j < length tns \<and> j \<notin> set (iq_units (iqs ! n)) \<and> registered tns q j st1"
  proof (clarify, intro conjI)
    fix q j assume qj: "(q, j) \<in> owned iqs n"
    then have q: "q < n" "j \<in> set (iq_units (iqs ! q))" by (auto simp: owned_def)
    show "q < length (fst st1)" using q n l by simp
    show "j < length tns" using q(2) q(1) n Suc.prems(3) by (auto simp: ranges_ok_def)
    show "j \<notin> set (iq_units (iqs ! n))" using ranges_disjoint[OF Suc.prems(3), of q n] q n by auto
    show "registered tns q j st1" using I(2) qj by auto
  qed
  have nl: "n < length (fst st1)" using n l by simp
  note R = register_pipes_spec[OF g1 Suc.prems(2) nl u D]
  have "owned iqs (Suc n) = owned iqs n \<union> {n} \<times> set (iq_units (iqs ! n))" by (auto simp: owned_def less_Suc_eq)
  then show ?case using R same_maps_trans[OF I(1)] by simp
qed (simp add: owned_def)

text \<open>The second phase keeps the names and adds the pipes of the targets.\<close>

definition same_names :: "bind_state \<Rightarrow> bind_state \<Rightarrow> bool" where
  "same_names st st' \<longleftrightarrow> snd st' = snd st \<and> length (fst st') = length (fst st)
     \<and> (\<forall>q<length (fst st). iq_exe_pipes (fst st' ! q) = iq_exe_pipes (fst st ! q))"

definition mapped :: "bind_state \<Rightarrow> nat \<Rightarrow> TargetPipe \<Rightarrow> nat set" where
  "mapped st q tp = set (iq_pipe_exe_pipe_mapping (fst st ! q) tp)"

lemma map_targets_spec:
  assumes "foldE (\<lambda>st1 pn. bindE (unit_name rn i) (\<lambda>nm. map_pipe_target nm st1 pn)) st names = Inr st'"
    and "unit_name rn i = Inr (tn_name (tns ! i))" and "registered tns q i st" and "q < length (fst st)"
  shows "same_names st st' \<and> (\<forall>r tp. r < length (fst st) \<longrightarrow>
    mapped st' r tp = mapped st r tp \<union> (if r = q \<and> names_pipe names tp then {i} else {}))"
  using assms
proof (induction names arbitrary: st)
  case (Cons pn names)
  from Cons.prems(1,2) obtain st1 where m: "map_pipe_target (tn_name (tns ! i)) st pn = Inr st1"
    and f: "foldE (\<lambda>st1 pn. bindE (unit_name rn i) (\<lambda>nm. map_pipe_target nm st1 pn)) st1 names = Inr st'"
    by (auto simp: bindE_eq_Inr)
  obtain qs m0 where st: "st = (qs, m0)" by (cases st)
  from m Cons.prems(3) obtain tgt where t: "map_of execution_pipe_map pn = Some tgt"
    "st1 = (qs[q := setExePipeMapping tgt i (qs ! q)], m0)"
    unfolding st by (auto simp: map_pipe_target_def registered_def split: option.splits)
  have s1: "same_names st st1" "registered tns q i st1" "q < length (fst st1)"
    "\<And>r tp. r < length (fst st) \<Longrightarrow> mapped st1 r tp = mapped st r tp \<union> (if r = q \<and> tp = tgt then {i} else {})"
    using t(2) Cons.prems(3,4) unfolding st
    by (auto simp: same_names_def registered_def setExePipeMapping_def nth_list_update mapped_def)
  have l: "length (fst st1) = length (fst st)" using s1(1) by (simp add: same_names_def)
  from Cons.IH[OF f Cons.prems(2) s1(2,3)] s1(1,4) l t(1) show ?case
    by (auto simp: names_pipe_def same_names_def)
qed (simp add: same_names_def names_pipe_def)

lemma map_pipes_spec:
  assumes "foldE (map_pipe rn pipelines) st ix = Inr st'" and "\<forall>i\<in>set ix. unit_name rn i = Inr (tn_name (tns ! i)) \<and> registered tns q i st"
    and "q < length (fst st)"
  shows "same_names st st' \<and> (\<forall>r tp. r < length (fst st) \<longrightarrow>
    mapped st' r tp = mapped st r tp \<union> (if r = q then {i \<in> set ix. names_pipe (pipelines ! i) tp} else {}))"
  using assms
proof (induction ix arbitrary: st)
  case (Cons i ix)
  from Cons.prems(1) obtain st1 where m: "map_pipe rn pipelines st i = Inr st1" and f: "foldE (map_pipe rn pipelines) st1 ix = Inr st'"
    by (auto simp: bindE_eq_Inr)
  from m have m1: "foldE (\<lambda>st1 pn. bindE (unit_name rn i) (\<lambda>nm. map_pipe_target nm st1 pn)) st (pipelines ! i) = Inr st1"
    by (simp add: map_pipe_def split: if_splits)
  have i: "unit_name rn i = Inr (tn_name (tns ! i))" "registered tns q i st" using Cons.prems(2) by auto
  note s1 = map_targets_spec[OF m1 i Cons.prems(3)]
  have l: "length (fst st1) = length (fst st)" using s1 by (simp add: same_names_def)
  have "\<forall>j\<in>set ix. unit_name rn j = Inr (tn_name (tns ! j)) \<and> registered tns q j st1"
    using Cons.prems(2,3) s1 by (auto simp: registered_def same_names_def)
  from Cons.IH[OF f this] Cons.prems(3) l have I: "same_names st1 st'"
    "\<And>r tp. r < length (fst st) \<Longrightarrow> mapped st' r tp = mapped st1 r tp \<union> (if r = q then {i \<in> set ix. names_pipe (pipelines ! i) tp} else {})"
    by auto
  have "same_names st st'" using s1 I(1) by (auto simp: same_names_def)
  moreover have "mapped st' r tp = mapped st r tp \<union> (if r = q then {j \<in> set (i # ix). names_pipe (pipelines ! j) tp} else {})"
    if "r < length (fst st)" for r tp using s1 I(2)[OF that, of tp] that by auto
  ultimately show ?case by blast
qed (simp add: same_names_def)


lemma map_queues_spec:
  assumes "foldE (\<lambda>st1 iq. bindE (pipe_range iq) (\<lambda>ix. foldE (map_pipe rn pipelines) st1 ix)) st (take n iqs) = Inr st'"
    and "\<forall>(q, j)\<in>owned iqs (length iqs). unit_name rn j = Inr (tn_name (tns ! j)) \<and> registered tns q j st"
    and "n \<le> length iqs" and "length (fst st) = length iqs"
  shows "same_names st st' \<and> (\<forall>r tp. r < length iqs \<longrightarrow>
    mapped st' r tp = mapped st r tp \<union> (if r < n then {i \<in> set (iq_units (iqs ! r)). names_pipe (pipelines ! i) tp} else {}))"
  using assms
proof (induction n arbitrary: st')
  case (Suc n)
  let ?F = "\<lambda>st1 iq. bindE (pipe_range iq) (\<lambda>ix. foldE (map_pipe rn pipelines) st1 ix)"
  have n: "n < length iqs" using Suc.prems(3) by simp
  then have t: "take (Suc n) iqs = take n iqs @ [iqs ! n]" by (rule take_Suc_conv_app_nth)
  from Suc.prems(1) obtain st1 where f: "foldE ?F st (take n iqs) = Inr st1" and g: "?F st1 (iqs ! n) = Inr st'"
    unfolding t foldE_append by (auto simp: bindE_eq_Inr)
  from Suc.IH[OF f] Suc.prems have I: "same_names st st1" "\<And>r tp. r < length iqs \<Longrightarrow> mapped st1 r tp = mapped st r tp
      \<union> (if r < n then {i \<in> set (iq_units (iqs ! r)). names_pipe (pipelines ! i) tp} else {})" by auto
  from g have g1: "foldE (map_pipe rn pipelines) st1 (iq_units (iqs ! n)) = Inr st'"
    by (auto simp: bindE_eq_Inr dest!: pipe_range_units)
  have l: "n < length (fst st1)" "length (fst st1) = length iqs" using I(1) Suc.prems(4) n by (auto simp: same_names_def)
  have "\<forall>i\<in>set (iq_units (iqs ! n)). unit_name rn i = Inr (tn_name (tns ! i)) \<and> registered tns n i st1"
    using Suc.prems(2,4) I(1) n by (auto simp: owned_def registered_def same_names_def)
  note J = map_pipes_spec[OF g1 this l(1)]
  have "same_names st st'" using I(1) J by (auto simp: same_names_def)
  moreover have "mapped st' r tp = mapped st r tp
      \<union> (if r < Suc n then {i \<in> set (iq_units (iqs ! r)). names_pipe (pipelines ! i) tp} else {})"
    if "r < length iqs" for r tp using I(2)[OF that, of tp] J that l(2) by (auto simp: less_Suc_eq)
  ultimately show ?case by blast
qed (simp add: same_names_def)

lemma bindLate_spec:
  assumes "bindLate tns iqs rn pipelines (replicate (length iqs) mk_IssueQueue) = Inr qs"
    and "nodes_named rn tns" and "ranges_ok iqs (length tns)"
  shows "length qs = length iqs \<and> (\<forall>q<length iqs. \<forall>tp.
    set (iq_pipe_exe_pipe_mapping (qs ! q) tp) = {i \<in> set (iq_units (iqs ! q)). names_pipe (pipelines ! i) tp})"
proof -
  let ?st = "(replicate (length iqs) mk_IssueQueue, Map.empty)"
  from assms(1) obtain st1 st2 where b: "foldE (register_queue tns rn iqs) ?st [0 ..< length iqs] = Inr st1"
    "foldE (\<lambda>st1 iq. bindE (pipe_range iq) (\<lambda>ix. foldE (map_pipe rn pipelines) st1 ix)) st1 (take (length iqs) iqs) = Inr st2"
    "qs = fst st2"
    by (auto simp: bindLate_def bindE_eq_Inr)
  from register_queues_spec[OF b(1) assms(2,3)] have R: "same_maps ?st st1"
    "\<forall>(q, j)\<in>owned iqs (length iqs). registered tns q j st1" by auto
  have "\<forall>(q, j)\<in>owned iqs (length iqs). unit_name rn j = Inr (tn_name (tns ! j)) \<and> registered tns q j st1"
    using R(2) assms(2,3) by (fastforce simp: owned_def nodes_named_def ranges_ok_def)
  moreover have l: "length (fst st1) = length iqs" using R(1) by (simp add: same_maps_def)
  ultimately have M: "same_names st1 st2" "\<And>r tp. r < length iqs \<Longrightarrow> mapped st2 r tp = mapped st1 r tp
      \<union> {i \<in> set (iq_units (iqs ! r)). names_pipe (pipelines ! i) tp}"
    using map_queues_spec[OF b(2)] by auto
  have "mapped st1 r tp = {}" if "r < length iqs" for r tp
    using R(1) that by (simp add: mapped_def same_maps_def mk_IssueQueue_def)
  with M l show ?thesis unfolding b(3) by (auto simp: same_names_def mapped_def)
qed

section \<open>Sample state\<close>

definition ex_pqi :: "(ptr \<Rightarrow> ptr \<Rightarrow> bool) \<Rightarrow> ptr list \<Rightarrow> ptr \<Rightarrow> ptr list" where
  "ex_pqi ch xs x = takeWhile (\<lambda>e. \<not> ch e x) xs @ x # dropWhile (\<lambda>e. \<not> ch e x) xs"

lemma ex_pqi_ok: "priority_insert_ok ex_pqi"
  by (simp add: priority_insert_ok_def ex_pqi_def)

definition ex_epp :: ExecutePipeParameterSet where
  "ex_epp = \<lparr>epp_ignore_inst_execute_time = False, epp_execute_time = 1, epp_enable_random_misprediction = False,
     epp_contains_branch_unit = False, epp_valu_adder_num = 8\<rparr>"

definition ex_iqp :: "bool \<Rightarrow> IssueQueueParameterSet" where
  "ex_iqp b = \<lparr>iqp_scheduler_size = 8, iqp_in_order_issue = b\<rparr>"

definition ex_iq :: "ptr list \<Rightarrow> ptr list \<Rightarrow> IssueQueue" where
  "ex_iq ready issue = mk_IssueQueue\<lparr>iq_pipe_exe_pipe_mapping := (\<lambda>tp. if tp = TP_INT then [0, 1] else []),
     iq_ready_queue := ready, iq_issue_queue := issue\<rparr>"

definition ex_exec_heap :: heap where
  "ex_exec_heap = (\<lambda>p. (sample_Inst TP_INT p [] [])\<lparr>i_status := DISPATCHED\<rparr>)"

text \<open>An instruction with an integer and a float source.\<close>

definition ex_two_file_inst :: Inst where
  "ex_two_file_inst = (sample_Inst TP_INT 7 [] [])\<lparr>i_status := DISPATCHED,
     i_src_mask := (\<lambda>rf. if rf = RF_INTEGER then {3} else if rf = RF_FLOAT then {4} else {}),
     i_rename_data := init_RenameData\<lparr>rd_src := (\<lambda>rf. if rf = RF_INTEGER \<or> rf = RF_FLOAT then [default_Reg] else [])\<rparr>\<rparr>"

definition ex_vint :: Inst where
  "ex_vint = (sample_Inst TP_VINT 9 [] [])\<lparr>i_status := DISPATCHED, i_is_vector := True, i_uopid := Some 1,
     i_vector_config := \<lparr>vc_sew = 8, vc_lmul = 4, vc_vl = 500, vc_vlmax = 512, vc_vta = False\<rparr>\<rparr>"

definition ex_tns :: "exe_pipe_node list" where
  "ex_tns = [\<lparr>tn_name = ''exe0'', tn_iq_name = ''iq0'', tn_contains_branch_unit = False\<rparr>,
             \<lparr>tn_name = ''exe1'', tn_iq_name = ''iq1'', tn_contains_branch_unit = False\<rparr>,
             \<lparr>tn_name = ''exe2'', tn_iq_name = ''iq1'', tn_contains_branch_unit = False\<rparr>]"

section \<open>Properties\<close>

text \<open>C22. An issue session. From a consistent queue whose ready instructions can execute, the session
  never asserts. It gives ready instructions to free pipes that support them, in queue order, at most
  one to a pipe, marks them scheduled with their latency, removes exactly them from both queues and
  returns one credit each; what stays ready has only busy pipes, and no pipe it could use went to an
  instruction behind it.\<close>

theorem issue_session_exact:
  assumes "queue_in_order epr (q, es, h)" and "distinct (iq_ready_queue q)" and "set (iq_ready_queue q) \<subseteq> set (iq_issue_queue q)"
    and "length (iq_issue_queue q) \<le> iqp_scheduler_size pr" 
    and "\<forall>p\<in>set (iq_ready_queue q). \<forall>k\<in>set (pipes_of q h p). issuable (epr k) (h p)"
  shows "\<exists>asg q' es' h'. sendReadyInsts pr epr (q, es, h) = Inr (q', es', h')
    \<and> distinct (map fst asg) \<and> map snd asg = filter (\<lambda>p. p \<in> snd ` set asg) (iq_ready_queue q)
    \<and> iq_ready_queue q' = filter (\<lambda>p. p \<notin> snd ` set asg) (iq_ready_queue q)
    \<and> iq_issue_queue q' = filter (\<lambda>p. p \<notin> snd ` set asg) (iq_issue_queue q)
    \<and> iq_out q' = iq_out q @ replicate (length asg) (OutSchedulerCredits 1)
    \<and> h' = set_scheduled h (map snd asg)
    \<and> (\<forall>(k, p)\<in>set asg. k \<in> set (pipes_of q h p) \<and> ep_canAccept (es ! k) \<and> ep_unit_busy (es' ! k)
         \<and> ep_execute_inst (es' ! k) = ep_execute_inst (es ! k) @ [(p, exec_time (epr k) (h p))])
    \<and> (\<forall>k<length es. k \<notin> fst ` set asg \<longrightarrow> es' ! k = es ! k)
    \<and> (\<forall>p\<in>set (iq_ready_queue q'). \<forall>k\<in>set (pipes_of q h p). ep_unit_busy (es' ! k))
    \<and> no_overtaking (pipes_of q h) asg (iq_ready_queue q) \<and> queue_in_order epr (q', es', h')"
proof -
  have len: "length (iq_ready_queue q) \<le> iqp_scheduler_size pr"
    using assms(2,3,4) by (metis card_length card_mono distinct_card finite_set le_trans)
  from send_loop_ok[OF assms(1,2,3) assms(5)[unfolded pipes_of_def], of "[]"] obtain asg q1 es' h' where S:
    "send_loop epr [] (iq_ready_queue q) (q, es, h) = Inr (filter (\<lambda>p. p \<notin> snd ` set asg) (iq_ready_queue q), q1, es', h')"
    "issued epr (q, es, h) asg (q1, es', h')" "queue_in_order epr (q1, es', h')"
    "map snd asg = filter (\<lambda>p. p \<in> snd ` set asg) (iq_ready_queue q)"
    "\<forall>p\<in>set (iq_ready_queue q). p \<notin> snd ` set asg \<longrightarrow> (\<forall>k\<in>set (iq_pipe_exe_pipe_mapping q (getPipe (h p))). ep_unit_busy (es' ! k))"
    "no_overtaking (pipes_of q h) asg (iq_ready_queue q)" by auto
  let ?q = "q1\<lparr>iq_ready_queue := filter (\<lambda>p. p \<notin> snd ` set asg) (iq_ready_queue q)\<rparr>"
  have "sendReadyInsts pr epr (q, es, h) = Inr (?q, es', h')" using len S(1) by (simp add: sendReadyInsts_def)
  moreover have "queue_in_order epr (?q, es', h')" using S(3) by (simp add: queue_in_order_def)
  moreover have "\<forall>p\<in>set (iq_ready_queue ?q). \<forall>k\<in>set (pipes_of q h p). ep_unit_busy (es' ! k)"
    using S(5) by (auto simp: pipes_of_def)
  ultimately show ?thesis using S(2,4,6)
    by (intro exI[of _ asg] exI[of _ ?q] exI[of _ es'] exI[of _ h']) (simp add: issued_def pipes_of_def)
qed

theorem issue_session_exact_witness:
  "\<exists>(asg :: (nat \<times> ptr) list) q' es' h'. sendReadyInsts (ex_iqp True) (\<lambda>_. ex_epp) (ex_iq [4, 5, 6] [3, 4, 5, 6], [mk_ExecutePipe, mk_ExecutePipe], ex_exec_heap)
      = Inr (q', es', h') \<and> distinct (map fst asg) \<and> iq_ready_queue q' = filter (\<lambda>p. p \<notin> snd ` set asg) [4, 5, 6]"
proof -
  let ?q = "ex_iq [4, 5, 6] [3, 4, 5, 6]" and ?es = "[mk_ExecutePipe, mk_ExecutePipe]"
  have a: "queue_in_order (\<lambda>_. ex_epp) (?q, ?es, ex_exec_heap)" "distinct (iq_ready_queue ?q)"
    "set (iq_ready_queue ?q) \<subseteq> set (iq_issue_queue ?q)" "length (iq_issue_queue ?q) \<le> iqp_scheduler_size (ex_iqp True)"
    "\<forall>p\<in>set (iq_ready_queue ?q). \<forall>k\<in>set (pipes_of ?q ex_exec_heap p). issuable ex_epp (ex_exec_heap p)" "iq_ready_queue ?q = [4, 5, 6]"
    by (auto simp: queue_in_order_def ex_iq_def mk_IssueQueue_def mk_ExecutePipe_def pipe_free_def ex_iqp_def issuable_def
        ex_exec_heap_def less_Status_def exec_time_def ex_epp_def getExecuteTime_def sample_Inst_def multi_pass_def)
  from issue_session_exact[OF a(1-5)] show ?thesis unfolding a(6) by blast
qed

text \<open>C33. Wake-up. An instruction that arrives from dispatch enters the ready queue and schedules an
  issue session exactly when the sources of every register file are ready; otherwise it leaves one
  callback per register file that is not. With in-order issue it goes to the end of the ready queue,
  otherwise the queue stays ordered by age.\<close>

theorem issue_wakeup_exact:
  assumes "priority_insert_ok pqi" and "i_status (h p) = DISPATCHED" and "length (iq_issue_queue q) < iqp_scheduler_size pr"
  shows "\<exists>q'. receiveInstsFromDispatch pqi pr sb h p q = Inr q' \<and> iq_issue_queue q' = iq_issue_queue q @ [p]
    \<and> (if all_ready sb (h p)
       then mset (iq_ready_queue q') = add_mset p (mset (iq_ready_queue q)) \<and> iq_callbacks q' = iq_callbacks q
          \<and> iq_out q' = iq_out q @ [EvIssueReady]
       else iq_ready_queue q' = iq_ready_queue q \<and> iq_callbacks q' = iq_callbacks q @ waits_for sb (h p) p \<and> iq_out q' = iq_out q)
    \<and> (iqp_in_order_issue pr \<longrightarrow> all_ready sb (h p) \<longrightarrow> iq_ready_queue q' = iq_ready_queue q @ [p])
    \<and> (\<not> iqp_in_order_issue pr \<longrightarrow> age_ordered h (iq_ready_queue q) \<longrightarrow> age_ordered h (iq_ready_queue q'))"
proof -
  let ?ch = "iq_choose (iqp_in_order_issue pr) h"
  have pq: "pqi ?ch xs p = takeWhile (\<lambda>e. \<not> ?ch e p) xs @ p # dropWhile (\<lambda>e. \<not> ?ch e p) xs" for xs
    using assms(1) by (simp add: priority_insert_ok_def)
  have ms: "mset (pqi ?ch xs p) = add_mset p (mset xs)" for xs
    unfolding pq by (metis add_mset_add_single mset.simps(2) mset_append takeWhile_dropWhile_id union_mset_add_mset_right)
  have ord: "iqp_in_order_issue pr \<Longrightarrow> pqi ?ch xs p = xs @ [p]"
    "\<not> iqp_in_order_issue pr \<Longrightarrow> age_ordered h xs \<Longrightarrow> age_ordered h (pqi ?ch xs p)" for xs
    unfolding pq using fifo_insert[of h p xs] age_ordered_insert[of h xs p] by simp_all
  show ?thesis
  proof (cases "all_ready sb (h p)")
    case True
    with assms(2,3) ms ord show ?thesis
      by (simp add: receiveInstsFromDispatch_def appendIssueQueue_def operandCheck_eq iq_emit_def)
  next
    case False
    with assms(2,3) show ?thesis
      by (simp add: receiveInstsFromDispatch_def appendIssueQueue_def operandCheck_eq)
  qed
qed

theorem issue_wakeup_exact_witness:
  "\<exists>q'. receiveInstsFromDispatch ex_pqi (ex_iqp False) (\<lambda>_. {}) ex_exec_heap 3 (ex_iq [5, 6] [5, 6]) = Inr q'
     \<and> age_ordered ex_exec_heap (iq_ready_queue q')"
proof -
  have a: "i_status (ex_exec_heap 3) = DISPATCHED" "length (iq_issue_queue (ex_iq [5, 6] [5, 6])) < iqp_scheduler_size (ex_iqp False)"
    "\<not> iqp_in_order_issue (ex_iqp False)" "age_ordered ex_exec_heap (iq_ready_queue (ex_iq [5, 6] [5, 6]))"
    by (simp_all add: ex_exec_heap_def ex_iq_def mk_IssueQueue_def ex_iqp_def age_ordered_def)
  from issue_wakeup_exact[where h = ex_exec_heap and p = 3, OF ex_pqi_ok a(1,2), of "\<lambda>_. {}"] a(3,4) show ?thesis by blast
qed

text \<open>C34. A wait on two register files can wake up twice. If an instruction finds two register files not
  ready, it registers a callback for each; the callback of the first file that becomes ready registers a
  second one for the other file. Once all sources are ready every run of a callback inserts the instruction into the
  ready queue again, so it is there as often as the scoreboard runs callbacks for it: with two registrations for
  the last file the handler does not keep it from being there twice.\<close>

theorem two_file_wait_wakes_twice:
  assumes "priority_insert_ok pqi" and "p \<notin> set (iq_ready_queue q)"
    and "a \<in> set regfiles" and "b \<in> set regfiles" and "a \<noteq> b"
    and "\<forall>rf\<in>set regfiles. file_ready sb0 (h p) rf = (rf \<noteq> a \<and> rf \<noteq> b)"
    and "\<forall>rf\<in>set regfiles. file_ready sb1 (h p) rf = (rf \<noteq> b)" and "all_ready sb2 (h p)"
    and "q1 = handleOperandIssueCheck pqi pr sb0 h p q" and "q2 = handleOperandIssueCheck pqi pr sb1 h p q1"
  shows "\<exists>new. iq_callbacks q2 = iq_callbacks q @ new
      \<and> mset new = {#(a, i_src_mask (h p) a, p), (b, i_src_mask (h p) b, p), (b, i_src_mask (h p) b, p)#}
      \<and> (\<forall>n. count_list (iq_ready_queue ((handleOperandIssueCheck pqi pr sb2 h p ^^ n) q2)) p = n)"
proof -
  have w0: "waits_for sb0 (h p) p = map (\<lambda>rf. (rf, i_src_mask (h p) rf, p)) (filter (\<lambda>rf. rf = a \<or> rf = b) regfiles)"
    using assms(6) by (auto simp: waits_for_def intro!: arg_cong[of _ _ "map _"] filter_cong)
  have w1: "waits_for sb1 (h p) p = map (\<lambda>rf. (rf, i_src_mask (h p) rf, p)) (filter (\<lambda>rf. rf = b) regfiles)"
    using assms(7) by (auto simp: waits_for_def intro!: arg_cong[of _ _ "map _"] filter_cong)
  have n0: "\<not> all_ready sb0 (h p)" "\<not> all_ready sb1 (h p)" using assms(3,4,6,7) by (auto simp: all_ready_def)
  have q2: "iq_callbacks q2 = iq_callbacks q @ waits_for sb0 (h p) p @ waits_for sb1 (h p) p" "iq_ready_queue q2 = iq_ready_queue q"
    using assms(9,10) n0 by (simp_all add: operandCheck_eq)
  have new: "mset (waits_for sb0 (h p) p @ waits_for sb1 (h p) p) =
      {#(a, i_src_mask (h p) a, p), (b, i_src_mask (h p) b, p), (b, i_src_mask (h p) b, p)#}"
    using assms(3-5) unfolding w0 w1 by (auto simp: regfiles_def)
  have pq: "count_list (pqi ch xs p) p = count_list xs p + 1" for ch xs
  proof -
    have "pqi ch xs p = takeWhile (\<lambda>e. \<not> ch e p) xs @ p # dropWhile (\<lambda>e. \<not> ch e p) xs"
      using assms(1) by (simp add: priority_insert_ok_def)
    then show ?thesis using count_list_append[of "takeWhile (\<lambda>e. \<not> ch e p) xs" "dropWhile (\<lambda>e. \<not> ch e p) xs" p] by simp
  qed
  have "count_list (iq_ready_queue q2) p = 0" using assms(2) q2(2) by (simp add: count_list_0_iff)
  then have "count_list (iq_ready_queue ((handleOperandIssueCheck pqi pr sb2 h p ^^ n) q2)) p = n" for n
    by (induction n) (use assms(8) pq in \<open>simp_all add: operandCheck_eq iq_emit_def\<close>)
  with q2(1) new show ?thesis by blast
qed

theorem two_file_wait_wakes_twice_witness:
  "\<exists>q1 q2. count_list (iq_ready_queue ((handleOperandIssueCheck ex_pqi (ex_iqp True) (\<lambda>_. {3, 4}) (\<lambda>_. ex_two_file_inst) 7 ^^ 2) q2)) 7 = 2
     \<and> q2 = handleOperandIssueCheck ex_pqi (ex_iqp True) (\<lambda>rf. if rf = RF_INTEGER then {3} else {}) (\<lambda>_. ex_two_file_inst) 7 q1
     \<and> q1 = handleOperandIssueCheck ex_pqi (ex_iqp True) (\<lambda>_. {}) (\<lambda>_. ex_two_file_inst) 7 (ex_iq [] [7])"
proof -
  let ?i = "ex_two_file_inst"
  have a: "7 \<notin> set (iq_ready_queue (ex_iq [] [7]))" "RF_INTEGER \<in> set regfiles" "RF_FLOAT \<in> set regfiles"
    "RF_INTEGER \<noteq> RF_FLOAT" "\<forall>rf\<in>set regfiles. file_ready (\<lambda>_. {}) ?i rf = (rf \<noteq> RF_INTEGER \<and> rf \<noteq> RF_FLOAT)"
    "\<forall>rf\<in>set regfiles. file_ready (\<lambda>rf. if rf = RF_INTEGER then {3} else {}) ?i rf = (rf \<noteq> RF_FLOAT)"
    "all_ready (\<lambda>_. {3, 4}) ?i"
    by (auto simp: ex_iq_def mk_IssueQueue_def regfiles_def file_ready_def all_ready_def ex_two_file_inst_def)
  from two_file_wait_wakes_twice[where h = "\<lambda>_. ?i" and p = 7, OF ex_pqi_ok a refl refl, of "ex_iqp True"]
  show ?thesis by blast
qed

text \<open>C35. All passes of a vector micro-op run. Inserted into an idle pipe, an integer vector micro-op
  that needs \<open>n\<close> passes keeps the pipe busy for exactly \<open>n\<close> runs of the execute event; after \<open>k < n\<close>
  of them it is in pass \<open>k + 1\<close> and not yet complete, and after the last one its completion is scheduled
  and the pipe is free for another instruction.\<close>

theorem pipe_runs_all_passes:
  assumes "i_status (h p) < SCHEDULED" and "exec_time pr (h p) \<noteq> 0" and "multi_pass (h p)" and "num_passes pr (h p) = Inr n" and "1 < n"
  shows "\<exists>e h1. insertInst pr p (mk_ExecutePipe, h) = Inr (e, h1)
    \<and> (\<forall>k<n. \<exists>e'. run_executes pr hit p k (e, h1) = Inr (e', h1) \<and> ep_unit_busy e' \<and> ep_curr_num_pass e' = k + 1 \<and> ep_complete_inst e' = [])
    \<and> (\<exists>e' h'. run_executes pr hit p n (e, h1) = Inr (e', h') \<and> ep_canAccept e' \<and> ep_complete_inst e' = [p] \<and> ep_num_passes_needed e' = 0)"
proof -
  define h1 where "h1 = h(p := (h p)\<lparr>i_status := SCHEDULED\<rparr>)"
  have s: "multi_pass (h1 p)" "exec_time pr (h1 p) \<noteq> 0" "num_passes pr (h1 p) = Inr n"
    using assms(2-4) by (simp_all add: h1_def)
  have "setStatus SCHEDULED (h p) = Inr ((h p)\<lparr>i_status := SCHEDULED\<rparr>, False)" using assms(1) by (simp add: setStatus_ok_iff)
  then obtain e where e: "insertInst pr p (mk_ExecutePipe, h) = Inr (e, h1)" "in_pass pr h1 p n 1 e"
    using s assms(5) by (auto simp: insertInst_def mk_ExecutePipe_def start_pass_def multi_pass_def in_pass_def exec_time_def
        h1_def Let_def split: if_splits)
  have P: "\<exists>e'. run_executes pr hit p k (e, h1) = Inr (e', h1) \<and> in_pass pr h1 p n (1 + k) e'" if "k < n" for k
    using run_executes_passes[where h = h1 and p = p, OF e(2) _ s(1,2), of k hit] that assms(5) by simp
  have comp: "run_executes pr hit p (a + b) x = bindE (run_executes pr hit p a x) (run_executes pr hit p b)" for a b x
    by (induction a arbitrary: x) (auto simp: bindE_def split: sum.splits)
  obtain e2 where e2: "run_executes pr hit p (n - 1) (e, h1) = Inr (e2, h1)" "in_pass pr h1 p n n e2"
    using P[of "n - 1"] assms(5) by auto
  from run_execute_last_pass[OF e2(2), of hit] obtain e3 h3 where e3: "run_execute pr hit p (e2, h1) = Inr (e3, h3)"
    "pipe_free e3" "ep_complete_inst e3 = [p]" by blast
  have "run_executes pr hit p n (e, h1) = Inr (e3, h3)"
    using comp[of "n - 1" 1 "(e, h1)"] e2(1) e3(1) assms(5) by simp
  moreover have "\<forall>k<n. \<exists>e'. run_executes pr hit p k (e, h1) = Inr (e', h1) \<and> ep_unit_busy e' \<and> ep_curr_num_pass e' = k + 1 \<and> ep_complete_inst e' = []"
    using P by (fastforce simp: in_pass_def)
  ultimately show ?thesis using e(1) e3(2,3) by (auto simp: pipe_free_def ep_canAccept_def)
qed

theorem pipe_runs_all_passes_witness:
  "num_passes ex_epp ex_vint = Inr 16 \<and>
   (\<exists>e h1 e' h'. insertInst ex_epp 1 (mk_ExecutePipe, \<lambda>_. ex_vint) = Inr (e, h1)
      \<and> run_executes ex_epp False 1 16 (e, h1) = Inr (e', h') \<and> ep_complete_inst e' = [1])"
proof -
  have a: "i_status ex_vint < SCHEDULED" "exec_time ex_epp ex_vint \<noteq> 0" "multi_pass ex_vint" "num_passes ex_epp ex_vint = Inr 16" "(1::nat) < 16"
    by (simp_all add: ex_vint_def less_Status_def exec_time_def ex_epp_def getExecuteTime_def sample_Inst_def multi_pass_def
        isVset_def getPipe_def num_passes_def getUOpID_def sub32_def)
  from pipe_runs_all_passes[where h = "\<lambda>_. ex_vint" and p = 1, OF a, of False] a(4) show ?thesis by blast
qed

text \<open>C36. Dispatch and the issue queues agree. When the dispatch unit and the execution factories are
  built from the same topology (names distinct, pipes of one queue each), the pipes of issue queue
  \<open>d\<close> for a target are exactly its execution units that list the target, and an instruction that
  dispatch may send to queue \<open>d\<close> always finds at least one pipe there.\<close>

theorem issue_queues_match_dispatch:
  assumes "mk_Dispatch pipelines iqs iqrn = Inr s" and "onConfiguring iqs iqrn rn pipelines = Inr (iq_names, tns)"
    and "bindLate tns iqs rn pipelines (replicate (length iqs) mk_IssueQueue) = Inr qs"
    and "distinct (map tn_name tns)" and "ranges_ok iqs (length pipelines)"
  shows "length qs = length iqs
    \<and> (\<forall>d<length iqs. \<forall>tp. set (iq_pipe_exe_pipe_mapping (qs ! d) tp) = {i \<in> set (iq_units (iqs ! d)). names_pipe (pipelines ! i) tp})
    \<and> (\<forall>tp. \<forall>d\<in>set (ds_pipe_map s tp). d < length iqs \<longrightarrow> iq_pipe_exe_pipe_mapping (qs ! d) tp \<noteq> [])"
proof -
  have n: "nodes_named rn tns" "length tns = length pipelines"
    using onConfiguring_names[OF assms(2)] assms(4) by (auto simp: nodes_named_def)
  note B = bindLate_spec[OF assms(3) n(1) assms(5)[folded n(2)]]
  have "iq_serves pipelines (iqs ! d) tp" if "d \<in> set (ds_pipe_map s tp)" "d < length iqs" for d tp
    using mk_Dispatch_spec[OF assms(1)] that by (auto split: if_splits)
  then have "iq_pipe_exe_pipe_mapping (qs ! d) tp \<noteq> []" if "d \<in> set (ds_pipe_map s tp)" "d < length iqs" for d tp
    using B that by (fastforce simp: iq_serves_def set_empty[symmetric] simp del: set_empty)
  with B show ?thesis by blast
qed

theorem issue_queues_match_dispatch_witness:
  "\<exists>qs. bindLate ex_tns [[0], [1, 2]] [] ex_pipelines (replicate 2 mk_IssueQueue) = Inr qs
     \<and> set (iq_pipe_exe_pipe_mapping (qs ! 1) TP_INT) = {i \<in> set (iq_units [1, 2]). names_pipe (ex_pipelines ! i) TP_INT}"
proof -
  let ?iqs = "[[0], [1, 2]] :: nat list list"
  from ex_mk_Dispatch obtain s where s: "mk_Dispatch ex_pipelines ?iqs [] = Inr s" by blast
  have c: "onConfiguring ?iqs [] [] ex_pipelines = Inr ([''iq0'', ''iq1''], ex_tns)" by code_simp
  have d: "distinct (map tn_name ex_tns)" by (simp add: ex_tns_def)
  have "is_ok (bindLate ex_tns ?iqs [] ex_pipelines (replicate (length ?iqs) mk_IssueQueue))" by code_simp
  then obtain qs where q: "bindLate ex_tns ?iqs [] ex_pipelines (replicate (length ?iqs) mk_IssueQueue) = Inr qs"
    unfolding is_ok_iff by blast
  have r: "ranges_ok ?iqs (length ex_pipelines)"
    by (simp add: ranges_ok_def iq_units_def ex_pipelines_def eval_nat_numeral)
  from issue_queues_match_dispatch[OF s c q d r] show ?thesis using q
    by (intro exI[of _ qs]) (simp add: numeral_2_eq_2)
qed

end
