(* ===== verification/MemAccess.thy ===== *)
theory MemAccess
  imports FlushMgr
begin

text \<open>
  The objects the memory side of the core shares: the memory access (\<open>core/MemoryAccessInfo.hpp\<close>) that
  travels between the load/store unit, the MMU and the caches, and the load/store instruction information
  (\<open>core/LoadStoreInstInfo.hpp\<close>) of the load/store unit.

  Both are reached through shared pointers, so they live in stores of the record \<open>world\<close>, beside the
  instructions; the units extend that record with their own state. An iterator into a buffer is the handle
  of the entry it was made for; it is valid while that entry is in the buffer.
\<close>

section \<open>Memory accesses\<close>

datatype MMUState = MMU_NO_ACCESS | MMU_MISS | MMU_HIT

datatype CacheState = CS_NO_ACCESS | CS_RELOAD | CS_MISS | CS_HIT

datatype ArchUnit = AU_NO_ACCESS | AU_ICACHE | AU_LSU | AU_DCACHE | AU_L2CACHE | AU_BIU

type_synonym mptr = nat

type_synonym lptr = nat

record MemoryAccessInfo =
  mi_ldst_inst :: "ptr option"
  mi_phy_addr_ready :: bool
  mi_mmu_access_state :: MMUState
  mi_cache_access_state :: CacheState
  mi_cache_data_ready :: bool
  mi_is_refill :: bool
  mi_src :: ArchUnit
  mi_dest :: ArchUnit
  mi_vaddr :: "64 word"
  mi_paddr :: "64 word"
  mi_next_req :: "mptr option"
  mi_fetch_group :: "ptr list option"
  mi_issue_queue_iterator :: "lptr option"
  mi_replay_queue_iterator :: "lptr option"
  mi_mshr_entry_info_iterator :: "nat option"

text \<open>The two constructors. The one that takes an address leaves \<open>is_refill_\<close> without an initial
  value; that value is the parameter \<open>junk\<close>.\<close>

definition mk_MemoryAccessInfo_addr :: "bool \<Rightarrow> 64 word \<Rightarrow> MemoryAccessInfo" where
  "mk_MemoryAccessInfo_addr junk a =
     \<lparr>mi_ldst_inst = None, mi_phy_addr_ready = True, mi_mmu_access_state = MMU_NO_ACCESS,
      mi_cache_access_state = CS_NO_ACCESS, mi_cache_data_ready = False, mi_is_refill = junk,
      mi_src = AU_NO_ACCESS, mi_dest = AU_NO_ACCESS, mi_vaddr = a, mi_paddr = a, mi_next_req = None,
      mi_fetch_group = None, mi_issue_queue_iterator = None, mi_replay_queue_iterator = None, mi_mshr_entry_info_iterator = None\<rparr>"

definition mk_MemoryAccessInfo :: "heap \<Rightarrow> ptr \<Rightarrow> MemoryAccessInfo" where
  "mk_MemoryAccessInfo h p =
     \<lparr>mi_ldst_inst = Some p, mi_phy_addr_ready = False, mi_mmu_access_state = MMU_NO_ACCESS,
      mi_cache_access_state = CS_NO_ACCESS, mi_cache_data_ready = False, mi_is_refill = False,
      mi_src = AU_NO_ACCESS, mi_dest = AU_NO_ACCESS, mi_vaddr = i_target_vaddr (h p), mi_paddr = getRAdr (h p),
      mi_next_req = None, mi_fetch_group = None, mi_issue_queue_iterator = None, mi_replay_queue_iterator = None,
      mi_mshr_entry_info_iterator = None\<rparr>"

definition isCacheHit :: "MemoryAccessInfo \<Rightarrow> bool" where
  "isCacheHit m = (mi_cache_access_state m = CS_HIT)"

section \<open>Load/store instruction information\<close>

datatype IssuePriority = HIGHEST | CACHE_RELOAD | CACHE_PENDING | MMU_RELOAD | MMU_PENDING | NEW_DISP | LOWEST

datatype IssueState = IS_READY | IS_ISSUED | IS_NOT_READY

record LoadStoreInstInfo =
  li_mem_access_info :: mptr
  li_rank :: IssuePriority
  li_state :: IssueState
  li_in_ready_queue :: bool

text \<open>The constructor leaves \<open>in_ready_queue_\<close> without an initial value.\<close>

definition mk_LoadStoreInstInfo :: "bool \<Rightarrow> mptr \<Rightarrow> LoadStoreInstInfo" where
  "mk_LoadStoreInstInfo junk m = \<lparr>li_mem_access_info = m, li_rank = LOWEST, li_state = IS_NOT_READY, li_in_ready_queue = junk\<rparr>"

fun priority_code :: "IssuePriority \<Rightarrow> nat" where
  "priority_code HIGHEST = 0"
| "priority_code CACHE_RELOAD = 1"
| "priority_code CACHE_PENDING = 2"
| "priority_code MMU_RELOAD = 3"
| "priority_code MMU_PENDING = 4"
| "priority_code NEW_DISP = 5"
| "priority_code LOWEST = 6"

definition winArb :: "LoadStoreInstInfo \<Rightarrow> LoadStoreInstInfo option \<Rightarrow> bool" where
  "winArb this_info that =
     (case that of None \<Rightarrow> True | Some t \<Rightarrow> priority_code (li_rank this_info) < priority_code (li_rank t))"

section \<open>The stores\<close>

record world =
  w_inst :: heap
  w_mai :: "mptr \<Rightarrow> MemoryAccessInfo"
  w_lsi :: "lptr \<Rightarrow> LoadStoreInstInfo"
  w_next :: nat

definition upd_inst :: "ptr \<Rightarrow> Inst \<Rightarrow> 'a world_scheme \<Rightarrow> 'a world_scheme" where
  "upd_inst p i s = s\<lparr>w_inst := (w_inst s)(p := i)\<rparr>"

definition upd_mai :: "mptr \<Rightarrow> (MemoryAccessInfo \<Rightarrow> MemoryAccessInfo) \<Rightarrow> 'a world_scheme \<Rightarrow> 'a world_scheme" where
  "upd_mai m f s = s\<lparr>w_mai := (w_mai s)(m := f (w_mai s m))\<rparr>"

definition upd_lsi :: "lptr \<Rightarrow> (LoadStoreInstInfo \<Rightarrow> LoadStoreInstInfo) \<Rightarrow> 'a world_scheme \<Rightarrow> 'a world_scheme" where
  "upd_lsi l f s = s\<lparr>w_lsi := (w_lsi s)(l := f (w_lsi s l))\<rparr>"

text \<open>The accessors of a load/store information object: its memory access, its instruction.\<close>

definition mem_of :: "'a world_scheme \<Rightarrow> lptr \<Rightarrow> MemoryAccessInfo" where
  "mem_of s l = w_mai s (li_mem_access_info (w_lsi s l))"

definition ip_of :: "'a world_scheme \<Rightarrow> lptr \<Rightarrow> ptr" where
  "ip_of s l = the (mi_ldst_inst (mem_of s l))"

definition inst_of :: "'a world_scheme \<Rightarrow> lptr \<Rightarrow> Inst" where
  "inst_of s l = w_inst s (ip_of s l)"

definition getInstUniqueID :: "'a world_scheme \<Rightarrow> lptr \<Rightarrow> nat" where
  "getInstUniqueID s l =
     (case mi_ldst_inst (mem_of s l) of None \<Rightarrow> 0 | Some p \<Rightarrow> i_unique_id (w_inst s p))"

definition isRetired :: "'a world_scheme \<Rightarrow> lptr \<Rightarrow> bool" where
  "isRetired s l = (i_status (inst_of s l) = RETIRED)"

text \<open>The order of the ready queue: \<open>operator<\<close> on two pointers.\<close>

definition lsi_less :: "'a world_scheme \<Rightarrow> lptr \<Rightarrow> lptr \<Rightarrow> bool" where
  "lsi_less s a b = (getInstUniqueID s a < getInstUniqueID s b)"

definition setPriority :: "lptr \<Rightarrow> IssuePriority \<Rightarrow> 'a world_scheme \<Rightarrow> 'a world_scheme" where
  "setPriority l r s = upd_lsi l (\<lambda>x. x\<lparr>li_rank := r\<rparr>) s"

definition setState :: "lptr \<Rightarrow> IssueState \<Rightarrow> 'a world_scheme \<Rightarrow> 'a world_scheme" where
  "setState l st s = upd_lsi l (\<lambda>x. x\<lparr>li_state := st\<rparr>) s"

definition setInReadyQueue :: "lptr \<Rightarrow> bool \<Rightarrow> 'a world_scheme \<Rightarrow> 'a world_scheme" where
  "setInReadyQueue l b s = upd_lsi l (\<lambda>x. x\<lparr>li_in_ready_queue := b\<rparr>) s"

definition setIssueQueueIterator :: "lptr \<Rightarrow> lptr option \<Rightarrow> 'a world_scheme \<Rightarrow> 'a world_scheme" where
  "setIssueQueueIterator l it s = upd_mai (li_mem_access_info (w_lsi s l)) (\<lambda>m. m\<lparr>mi_issue_queue_iterator := it\<rparr>) s"

definition setReplayQueueIterator :: "lptr \<Rightarrow> lptr option \<Rightarrow> 'a world_scheme \<Rightarrow> 'a world_scheme" where
  "setReplayQueueIterator l it s = upd_mai (li_mem_access_info (w_lsi s l)) (\<lambda>m. m\<lparr>mi_replay_queue_iterator := it\<rparr>) s"

definition iter_valid :: "lptr option \<Rightarrow> lptr list \<Rightarrow> bool" where
  "iter_valid it buf = (case it of None \<Rightarrow> False | Some l \<Rightarrow> l \<in> set buf)"

definition iter_erase :: "lptr option \<Rightarrow> lptr list \<Rightarrow> lptr list" where
  "iter_erase it buf = (case it of None \<Rightarrow> buf | Some l \<Rightarrow> remove1 l buf)"

end
