(* ===== verification/CacheModel.thy ===== *)
theory CacheModel
  imports MemAccess
begin

text \<open>
  The cache lines and the cache that the caches and the TLB are built on (\<open>core/CacheFuncModel.hpp\<close>,
  \<open>core/SimpleTLB.hpp\<close>, \<open>core/MSHREntryInfo.hpp\<close>, \<open>core/ReplacementFactory.hpp\<close>).

  The set-associative cache itself is Sparta's \<open>SimpleCache2\<close>, which is not part of the repository: the record
  \<open>cache_api\<close> holds the operations the units call, and \<open>cache_api_ok\<close> what they rely on: an allocated line is
  present, presence depends on the block of an address only, a touch changes the replacement state only, and an
  allocation adds no other block.
\<close>

section \<open>Cache lines\<close>

record SimpleCacheLine =
  cl_addr :: "64 word"
  cl_line_size :: nat
  cl_valid :: bool
  cl_modified :: bool

definition is_power_of_2 :: "nat \<Rightarrow> bool" where
  "is_power_of_2 n = (n \<noteq> 0 \<and> list_ex (\<lambda>k. n = 2 ^ k) [0 ..< n])"

definition mk_SimpleCacheLine :: "64 word \<Rightarrow> nat \<Rightarrow> SimpleCacheLine result" where
  "mk_SimpleCacheLine addr line_size =
     bindE (assertE (is_power_of_2 line_size) ''DCache line size must be a power of 2.'') (\<lambda>_.
       Inr \<lparr>cl_addr = addr, cl_line_size = line_size, cl_valid = False, cl_modified = False\<rparr>)"

definition cl_reset :: "64 word \<Rightarrow> SimpleCacheLine \<Rightarrow> SimpleCacheLine" where
  "cl_reset addr l = l\<lparr>cl_valid := True, cl_addr := addr\<rparr>"

record SimpleTLBEntry =
  te_addr :: "64 word"
  te_page_size :: nat
  te_valid :: bool

definition mk_SimpleTLBEntry :: "64 word \<Rightarrow> nat \<Rightarrow> SimpleTLBEntry result" where
  "mk_SimpleTLBEntry addr page_size =
     bindE (assertE (is_power_of_2 page_size) ''TLBEntry: Page size must be a power of 2.'') (\<lambda>_.
       Inr \<lparr>te_addr = addr, te_page_size = page_size, te_valid = False\<rparr>)"

definition te_reset :: "64 word \<Rightarrow> SimpleTLBEntry \<Rightarrow> SimpleTLBEntry" where
  "te_reset addr e = e\<lparr>te_valid := True, te_addr := addr\<rparr>"

datatype ReplacementPolicy = TreePLRUReplacement nat | LRUReplacement nat

definition selectReplacementPolicy :: "string \<Rightarrow> nat \<Rightarrow> ReplacementPolicy result" where
  "selectReplacementPolicy policy_name num_ways =
     (if policy_name = ''TreePLRU'' then Inr (TreePLRUReplacement num_ways)
      else if policy_name = ''LRU'' \<or> policy_name = ''MRU'' then Inr (LRUReplacement num_ways)
      else Inl (SpartaException ''Unknown replacement policy''))"

section \<open>The cache\<close>

record 'c cache_api =
  ca_hit :: "'c \<Rightarrow> 64 word \<Rightarrow> bool"
  ca_touch :: "64 word \<Rightarrow> 'c \<Rightarrow> 'c"
  ca_allocate :: "64 word \<Rightarrow> 'c \<Rightarrow> 'c"
  ca_block :: "64 word \<Rightarrow> 64 word"

definition cache_api_ok :: "'c cache_api \<Rightarrow> bool" where
  "cache_api_ok ca \<longleftrightarrow>
     (\<forall>c a b. ca_hit ca (ca_touch ca a c) b = ca_hit ca c b) \<and>
     (\<forall>c a b. ca_block ca a = ca_block ca b \<longrightarrow> ca_hit ca c a = ca_hit ca c b) \<and>
     (\<forall>c a. ca_hit ca (ca_allocate ca a c) a) \<and>
     (\<forall>c a b. ca_hit ca (ca_allocate ca a c) b \<longrightarrow> ca_block ca a = ca_block ca b \<or> ca_hit ca c b)"

lemma cache_api_okD:
  assumes "cache_api_ok ca"
  shows "ca_hit ca (ca_touch ca a c) b = ca_hit ca c b"
    and "ca_block ca a = ca_block ca b \<Longrightarrow> ca_hit ca c a = ca_hit ca c b"
    and "ca_block ca a = ca_block ca b \<Longrightarrow> ca_hit ca (ca_allocate ca a c) b"
    and "ca_hit ca (ca_allocate ca a c) b \<Longrightarrow> ca_block ca a = ca_block ca b \<or> ca_hit ca c b"
  using assms unfolding cache_api_ok_def by blast+

text \<open>The lookup that the TLB and the three caches share: always a hit if so configured, otherwise the presence of
  a valid line, whose replacement state is touched on a hit.\<close>

definition cache_lookup :: "'c cache_api \<Rightarrow> bool \<Rightarrow> 64 word \<Rightarrow> 'c \<Rightarrow> bool \<times> 'c" where
  "cache_lookup ca always_hit a c =
     (if always_hit then (True, c)
      else let cache_hit = ca_hit ca c a in (cache_hit, if cache_hit then ca_touch ca a c else c))"

lemma cache_lookup_hit: "cache_api_ok ca \<Longrightarrow> ca_hit ca (snd (cache_lookup ca h a c)) b = ca_hit ca c b"
  by (simp add: cache_lookup_def Let_def cache_api_okD(1))

text \<open>The preload of a cache: every line is allocated and must then be present.\<close>

definition preload_line :: "'c cache_api \<Rightarrow> 'c \<Rightarrow> 64 word \<Rightarrow> 'c result" where
  "preload_line ca c va =
     (let c1 = ca_allocate ca va c in bindE (assertE (ca_hit ca c1 va) ''getLine(va) != nullptr'') (\<lambda>_. Inr c1))"

definition preloadPkt :: "'c cache_api \<Rightarrow> 64 word list \<Rightarrow> 'c \<Rightarrow> 'c result" where
  "preloadPkt ca lines c = foldE (preload_line ca) c lines"

lemma preloadPkt_ok:
  assumes "cache_api_ok ca"
  shows "preloadPkt ca vas c = Inr (fold (ca_allocate ca) vas c)"
  unfolding preloadPkt_def
  by (induction vas arbitrary: c) (simp_all add: preload_line_def Let_def cache_api_okD(3)[OF assms])

section \<open>Miss status holding registers\<close>

record MSHREntryInfo =
  me_line_fill_buffer :: SimpleCacheLine
  me_memory_access_info :: "mptr option"
  me_data_arrived :: bool

definition mk_MSHREntryInfo :: "nat \<Rightarrow> MSHREntryInfo result" where
  "mk_MSHREntryInfo line_size =
     bindE (mk_SimpleCacheLine 0 line_size) (\<lambda>l.
       Inr \<lparr>me_line_fill_buffer = l\<lparr>cl_valid := True\<rparr>, me_memory_access_info = None, me_data_arrived = False\<rparr>)"

definition me_isValid :: "MSHREntryInfo \<Rightarrow> bool" where
  "me_isValid e = cl_valid (me_line_fill_buffer e)"

definition me_setModified :: "bool \<Rightarrow> MSHREntryInfo \<Rightarrow> MSHREntryInfo" where
  "me_setModified m e = e\<lparr>me_line_fill_buffer := (me_line_fill_buffer e)\<lparr>cl_modified := m\<rparr>\<rparr>"

section \<open>A sample cache\<close>

text \<open>A cache that never evicts: the list of the blocks it holds, with blocks of 64 bytes.\<close>

definition sample_block :: "64 word \<Rightarrow> 64 word" where
  "sample_block a = drop_bit 6 a"

definition sample_cache :: "64 word list cache_api" where
  "sample_cache = \<lparr>ca_hit = (\<lambda>c a. sample_block a \<in> set c), ca_touch = (\<lambda>a c. c),
     ca_allocate = (\<lambda>a c. sample_block a # c), ca_block = sample_block\<rparr>"

lemma sample_cache_ok: "cache_api_ok sample_cache"
  by (simp add: cache_api_ok_def sample_cache_def)

end
