(* ===== verification/MemUnits.thy ===== *)
theory MemUnits
  imports CacheModel
begin

text \<open>
  The MMU with its TLB (\<open>core/MMU.hpp\<close>, \<open>MMU.cpp\<close>) and the data cache (\<open>core/lsu/DCache.hpp\<close>, \<open>DCache.cpp\<close>).

  Both change the memory accesses of the load/store unit, so every handler takes the stores (a record that extends
  \<open>world\<close>) beside the unit's own state and returns both. Scheduled unique events are flags or delays; what a unit
  sends is the list of its output. The entries of the MSHR file are handles into a store of entries, and an iterator
  is the handle of the entry it was made for.
\<close>

section \<open>MMU\<close>

record MMUParameterSet =
  mup_tlb_always_hit :: bool
  mup_mmu_latency :: nat

datatype mmu_event = OutLsuLookupAck mptr | OutLsuLookupReq mptr

record 'c MMU =
  mu_tlb_cache :: 'c
  mu_mmu_pending_inst :: "mptr option"
  mu_busy :: bool
  mu_uev_lookup_inst :: "nat option"
  mu_tlb_hits :: nat
  mu_tlb_misses :: nat
  mu_touches :: nat
  mu_out :: "mmu_event list"

definition mk_MMU :: "'c \<Rightarrow> 'c MMU" where
  "mk_MMU tlb = \<lparr>mu_tlb_cache = tlb, mu_mmu_pending_inst = None, mu_busy = False, mu_uev_lookup_inst = None,
     mu_tlb_hits = 0, mu_tlb_misses = 0, mu_touches = 0, mu_out = []\<rparr>"

definition mu_emit :: "mmu_event \<Rightarrow> 'c MMU \<Rightarrow> 'c MMU" where
  "mu_emit e u = u\<lparr>mu_out := mu_out u @ [e]\<rparr>"

text \<open>The instruction of a memory access; the pointer is dereferenced.\<close>

definition access_inst :: "mptr \<Rightarrow> 'a world_scheme \<Rightarrow> Inst result" where
  "access_inst m w =
     (case mi_ldst_inst (w_mai w m) of
        None \<Rightarrow> Inl (UndefinedBehaviour ''null instruction pointer'')
      | Some p \<Rightarrow> Inr (w_inst w p))"

definition memLookup :: "'c cache_api \<Rightarrow> MMUParameterSet \<Rightarrow> mptr \<Rightarrow> 'a world_scheme \<Rightarrow> 'c MMU \<Rightarrow> (bool \<times> 'c MMU) result" where
  "memLookup ca pr m w u =
     bindE (access_inst m w) (\<lambda>i.
       case cache_lookup ca (mup_tlb_always_hit pr) (i_target_vaddr i) (mu_tlb_cache u) of (tlb_hit, c) \<Rightarrow>
         let u1 = u\<lparr>mu_tlb_cache := c,
                    mu_touches := (if tlb_hit \<and> \<not> mup_tlb_always_hit pr then mu_touches u + 1 else mu_touches u)\<rparr>
         in Inr (tlb_hit, if tlb_hit then u1\<lparr>mu_tlb_hits := mu_tlb_hits u1 + 1\<rparr> else u1\<lparr>mu_tlb_misses := mu_tlb_misses u1 + 1\<rparr>))"

definition reloadTLB :: "'c cache_api \<Rightarrow> 64 word \<Rightarrow> 'c MMU \<Rightarrow> 'c MMU" where
  "reloadTLB ca vaddr u = u\<lparr>mu_tlb_cache := ca_allocate ca vaddr (mu_tlb_cache u)\<rparr>"

definition mu_getInstsFromLSU ::
    "'c cache_api \<Rightarrow> MMUParameterSet \<Rightarrow> mptr \<Rightarrow> 'a world_scheme \<times> 'c MMU \<Rightarrow> ('a world_scheme \<times> 'c MMU) result" where
  "mu_getInstsFromLSU ca pr m wu =
     (case wu of (w, u) \<Rightarrow>
        bindE (memLookup ca pr m w u) (\<lambda>(hit, u1).
          let w1 = upd_mai m (\<lambda>x. x\<lparr>mi_mmu_access_state := (if hit then MMU_HIT else MMU_MISS), mi_phy_addr_ready := hit\<rparr>) w;
              u2 = (if \<not> hit \<and> \<not> mu_busy u1
                    then u1\<lparr>mu_busy := True, mu_mmu_pending_inst := Some m, mu_uev_lookup_inst := Some (mup_mmu_latency pr)\<rparr>
                    else u1)
          in Inr (w1, mu_emit (OutLsuLookupAck m) u2)))"

definition mu_lookupInst :: "'c cache_api \<Rightarrow> 'a world_scheme \<Rightarrow> 'c MMU \<Rightarrow> 'c MMU result" where
  "mu_lookupInst ca w u =
     (let u1 = u\<lparr>mu_busy := False\<rparr> in
      case mu_mmu_pending_inst u1 of
        None \<Rightarrow> Inl (UndefinedBehaviour ''null memory access'')
      | Some m \<Rightarrow> bindE (access_inst m w) (\<lambda>i. Inr (mu_emit (OutLsuLookupReq m) (reloadTLB ca (i_target_vaddr i) u1))))"

section \<open>Data cache\<close>

record CacheParameterSet =
  cp_l1_line_size :: nat
  cp_l1_always_hit :: bool
  cp_mshr_entries :: nat

datatype dcache_event = OutLsuCacheAck mptr | OutL2CacheReq mptr

record 'c DCache =
  dl_l1_cache :: 'c
  dl_mshr_file :: "nat list"
  dl_mshr :: "nat \<Rightarrow> MSHREntryInfo"
  dl_mshr_next :: nat
  dl_cache_pipeline :: "mptr option list"
  dl_pipeline_in :: "mptr option"
  dl_l2cache_busy :: bool
  dl_dcache_l2cache_credits :: nat
  dl_l2_mem_access_info :: "mptr option"
  dl_lsu_mem_access_info :: "mptr option"
  dl_receive_event :: bool
  dl_uev_mshr_request :: bool
  dl_dl1_cache_hits :: nat
  dl_dl1_cache_misses :: nat
  dl_out :: "dcache_event list"

text \<open>The stages of the pipeline.\<close>

definition LOOKUP :: nat where "LOOKUP = 0"
definition DATA_READ :: nat where "DATA_READ = 1"
definition DEALLOCATE :: nat where "DEALLOCATE = 2"
definition NUM_STAGES :: nat where "NUM_STAGES = 3"

text \<open>The store of MSHR entries is arbitrary at first.\<close>

definition mk_DCache :: "CacheParameterSet \<Rightarrow> 'c \<Rightarrow> (nat \<Rightarrow> MSHREntryInfo) \<Rightarrow> 'c DCache result" where
  "mk_DCache pr c junk =
     bindE (assertE (cp_mshr_entries pr > 0) ''There must be atleast 1 MSHR entry'') (\<lambda>_.
       Inr \<lparr>dl_l1_cache = c, dl_mshr_file = [], dl_mshr = junk, dl_mshr_next = 0,
            dl_cache_pipeline = replicate NUM_STAGES None, dl_pipeline_in = None, dl_l2cache_busy = False,
            dl_dcache_l2cache_credits = 0, dl_l2_mem_access_info = None, dl_lsu_mem_access_info = None,
            dl_receive_event = False, dl_uev_mshr_request = False, dl_dl1_cache_hits = 0, dl_dl1_cache_misses = 0, dl_out = []\<rparr>)"

definition dl_emit :: "dcache_event \<Rightarrow> 'c DCache \<Rightarrow> 'c DCache" where
  "dl_emit e d = d\<lparr>dl_out := dl_out d @ [e]\<rparr>"

definition dl_reloadCache :: "'c cache_api \<Rightarrow> 64 word \<Rightarrow> 'c DCache \<Rightarrow> 'c DCache" where
  "dl_reloadCache ca phy_addr d = d\<lparr>dl_l1_cache := ca_allocate ca phy_addr (dl_l1_cache d)\<rparr>"

definition dataLookup ::
    "'c cache_api \<Rightarrow> CacheParameterSet \<Rightarrow> mptr \<Rightarrow> 'a world_scheme \<Rightarrow> 'c DCache \<Rightarrow> (bool \<times> 'c DCache) result" where
  "dataLookup ca pr m w d =
     bindE (access_inst m w) (\<lambda>i.
       case cache_lookup ca (cp_l1_always_hit pr) (getRAdr i) (dl_l1_cache d) of (cache_hit, c) \<Rightarrow>
         let d1 = d\<lparr>dl_l1_cache := c\<rparr>
         in Inr (cache_hit, if cache_hit then d1\<lparr>dl_dl1_cache_hits := dl_dl1_cache_hits d1 + 1\<rparr>
                            else d1\<lparr>dl_dl1_cache_misses := dl_dl1_cache_misses d1 + 1\<rparr>))"

definition mshr_valid :: "nat option \<Rightarrow> 'c DCache \<Rightarrow> bool" where
  "mshr_valid it d = (case it of None \<Rightarrow> False | Some e \<Rightarrow> e \<in> set (dl_mshr_file d))"

definition mshr_erase :: "nat option \<Rightarrow> 'c DCache \<Rightarrow> 'c DCache" where
  "mshr_erase it d = (case it of None \<Rightarrow> d | Some e \<Rightarrow> d\<lparr>dl_mshr_file := remove1 e (dl_mshr_file d)\<rparr>)"

text \<open>The append to a full buffer is an assertion of the buffer.\<close>

definition allocateMSHREntry ::
    "CacheParameterSet \<Rightarrow> mptr \<Rightarrow> 'a world_scheme \<times> 'c DCache \<Rightarrow> ('a world_scheme \<times> 'c DCache) result" where
  "allocateMSHREntry pr m wd =
     (case wd of (w, d) \<Rightarrow>
        bindE (assertE (length (dl_mshr_file d) \<le> cp_mshr_entries pr) ''Appending mshr causes overflows!'') (\<lambda>_.
        bindE (mk_MSHREntryInfo (cp_l1_line_size pr)) (\<lambda>e.
        bindE (assertE (length (dl_mshr_file d) < cp_mshr_entries pr) ''push_back on a full buffer'') (\<lambda>_.
          let n = dl_mshr_next d in
          Inr (upd_mai m (\<lambda>x. x\<lparr>mi_mshr_entry_info_iterator := Some n\<rparr>) w,
               d\<lparr>dl_mshr_file := dl_mshr_file d @ [n], dl_mshr := (dl_mshr d)(n := e), dl_mshr_next := n + 1\<rparr>)))))"

definition upd_mshr :: "nat \<Rightarrow> (MSHREntryInfo \<Rightarrow> MSHREntryInfo) \<Rightarrow> 'c DCache \<Rightarrow> 'c DCache" where
  "upd_mshr e f d = d\<lparr>dl_mshr := (dl_mshr d)(e := f (dl_mshr d e))\<rparr>"

definition set_cache_state :: "mptr \<Rightarrow> CacheState \<Rightarrow> 'a world_scheme \<Rightarrow> 'a world_scheme" where
  "set_cache_state m st w = upd_mai m (\<lambda>x. x\<lparr>mi_cache_access_state := st\<rparr>) w"

text \<open>What the lookup stage does with a miss that has an MSHR entry.\<close>

definition lookup_mshr :: "mptr \<Rightarrow> 'a world_scheme \<times> 'c DCache \<Rightarrow> ('a world_scheme \<times> 'c DCache) result" where
  "lookup_mshr m wd =
     (case wd of (w, d) \<Rightarrow>
        case mi_mshr_entry_info_iterator (w_mai w m) of
          None \<Rightarrow> Inl (UndefinedBehaviour ''invalid MSHR iterator'')
        | Some e \<Rightarrow>
            bindE (access_inst m w) (\<lambda>i.
              if i_is_store i
              then Inr (set_cache_state m CS_HIT w,
                        upd_mshr e (\<lambda>x. (me_setModified True x)\<lparr>me_memory_access_info := Some m\<rparr>) d)
              else if me_data_arrived (dl_mshr d e) then Inr (set_cache_state m CS_HIT w, d)
              else Inr (set_cache_state m CS_MISS w, upd_mshr e (\<lambda>x. x\<lparr>me_memory_access_info := Some m\<rparr>) d)))"

definition ack_lsu :: "mptr \<Rightarrow> 'a world_scheme \<times> 'c DCache \<Rightarrow> 'a world_scheme \<times> 'c DCache" where
  "ack_lsu m wd = (case wd of (w, d) \<Rightarrow> (w, dl_emit (OutLsuCacheAck m) d))"

text \<open>The handlers of the pipeline stages; the pipeline calls the handler of a stage that holds an access.\<close>

definition handleLookup ::
    "'c cache_api \<Rightarrow> CacheParameterSet \<Rightarrow> 'a world_scheme \<times> 'c DCache \<Rightarrow> ('a world_scheme \<times> 'c DCache) result" where
  "handleLookup ca pr wd =
     (case wd of (w, d) \<Rightarrow>
        case dl_cache_pipeline d ! LOOKUP of
          None \<Rightarrow> Inr (w, d)
        | Some m \<Rightarrow>
            if mi_is_refill (w_mai w m) then Inr (w, d)
            else bindE (dataLookup ca pr m w d) (\<lambda>(hit, d1).
              if hit then Inr (ack_lsu m (set_cache_state m CS_HIT w, d1))
              else if \<not> mshr_valid (mi_mshr_entry_info_iterator (w_mai w m)) d1 \<and> length (dl_mshr_file d1) \<ge> cp_mshr_entries pr
              then Inr (ack_lsu m (set_cache_state m CS_MISS w, d1))
              else bindE (if \<not> mshr_valid (mi_mshr_entry_info_iterator (w_mai w m)) d1
                          then allocateMSHREntry pr m (w, d1) else Inr (w, d1)) (\<lambda>wd2.
                   bindE (lookup_mshr m wd2) (\<lambda>wd3. Inr (ack_lsu m wd3)))))"

definition handleDataRead ::
    "'c cache_api \<Rightarrow> 'a world_scheme \<times> 'c DCache \<Rightarrow> 'a world_scheme \<times> 'c DCache" where
  "handleDataRead ca wd =
     (case wd of (w, d) \<Rightarrow>
        case dl_cache_pipeline d ! DATA_READ of
          None \<Rightarrow> (w, d)
        | Some m \<Rightarrow>
            if mi_is_refill (w_mai w m) then (w, dl_reloadCache ca (mi_paddr (w_mai w m)) d)
            else ack_lsu m
              (if isCacheHit (w_mai w m) then (upd_mai m (\<lambda>x. x\<lparr>mi_cache_data_ready := True\<rparr>) w, d)
               else if \<not> dl_l2cache_busy d then (w, (dl_emit (OutL2CacheReq m) d)\<lparr>dl_l2cache_busy := True\<rparr>)
               else (w, d\<lparr>dl_uev_mshr_request := True\<rparr>)))"

definition mshrRequest :: "'c DCache \<Rightarrow> 'c DCache" where
  "mshrRequest d =
     (if \<not> dl_l2cache_busy d
      then case List.find (\<lambda>e. me_isValid (dl_mshr d e) \<and> \<not> me_data_arrived (dl_mshr d e)
                              \<and> me_memory_access_info (dl_mshr d e) \<noteq> None) (dl_mshr_file d) of
             None \<Rightarrow> d
           | Some e \<Rightarrow> (dl_emit (OutL2CacheReq (the (me_memory_access_info (dl_mshr d e)))) d)\<lparr>dl_l2cache_busy := True\<rparr>
      else d)"

text \<open>The acknowledge of the dependent load sends the pointer of the entry, which may be null.\<close>

definition handleDeallocate :: "'a world_scheme \<Rightarrow> 'c DCache \<Rightarrow> 'c DCache result" where
  "handleDeallocate w d =
     (case dl_cache_pipeline d ! DEALLOCATE of
        None \<Rightarrow> Inr d
      | Some m \<Rightarrow>
          if mi_is_refill (w_mai w m) \<and> mshr_valid (mi_mshr_entry_info_iterator (w_mai w m)) d
          then (case me_memory_access_info (dl_mshr d (the (mi_mshr_entry_info_iterator (w_mai w m)))) of
                  None \<Rightarrow> Inl (UndefinedBehaviour ''null memory access'')
                | Some l \<Rightarrow> Inr (mshr_erase (mi_mshr_entry_info_iterator (w_mai w m)) (dl_emit (OutLsuCacheAck l) d)))
          else Inr d)"

definition receiveMemReqFromLSU :: "mptr \<Rightarrow> 'c DCache \<Rightarrow> 'c DCache" where
  "receiveMemReqFromLSU m d = d\<lparr>dl_receive_event := True, dl_lsu_mem_access_info := Some m\<rparr>"

definition receiveRespFromL2Cache :: "mptr \<Rightarrow> 'a world_scheme \<times> 'c DCache \<Rightarrow> 'a world_scheme \<times> 'c DCache" where
  "receiveRespFromL2Cache m wd =
     (case wd of (w, d) \<Rightarrow>
        let it = mi_mshr_entry_info_iterator (w_mai w m);
            d1 = d\<lparr>dl_l2_mem_access_info := Some m\<rparr>;
            d2 = (if mshr_valid it d1 then mshr_erase it d1 else d1)
        in (upd_mai m (\<lambda>x. x\<lparr>mi_is_refill := True\<rparr>) w, d2\<lparr>dl_l2cache_busy := False, dl_receive_event := True\<rparr>))"

definition dl_getCreditsFromL2Cache :: "nat \<Rightarrow> 'c DCache \<Rightarrow> 'c DCache" where
  "dl_getCreditsFromL2Cache ack d = d\<lparr>dl_dcache_l2cache_credits := add32 (dl_dcache_l2cache_credits d) ack\<rparr>"

definition dl_pl_append :: "mptr \<Rightarrow> 'c DCache \<Rightarrow> 'c DCache result" where
  "dl_pl_append m d =
     (case dl_pipeline_in d of
        None \<Rightarrow> Inr (d\<lparr>dl_pipeline_in := Some m\<rparr>)
      | Some _ \<Rightarrow> Inl (SpartaAssert ''append twice''))"

definition arbitrateL2LsuReq :: "'c DCache \<Rightarrow> 'c DCache result" where
  "arbitrateL2LsuReq d =
     bindE (case dl_l2_mem_access_info d of
              Some m \<Rightarrow> dl_pl_append m d
            | None \<Rightarrow> (case dl_lsu_mem_access_info d of
                         Some m \<Rightarrow> dl_pl_append m d
                       | None \<Rightarrow> Inl (SpartaAssert ''value is not valid''))) (\<lambda>d1.
       Inr (d1\<lparr>dl_l2_mem_access_info := None, dl_lsu_mem_access_info := None, dl_uev_mshr_request := True\<rparr>))"

text \<open>The pipeline moves by one stage per cycle.\<close>

definition dl_pl_update :: "'c DCache \<Rightarrow> 'c DCache" where
  "dl_pl_update d = d\<lparr>dl_cache_pipeline := take NUM_STAGES (dl_pipeline_in d # dl_cache_pipeline d), dl_pipeline_in := None\<rparr>"

end
