(* ===== verification/LoadStoreUnit.thy ===== *)
theory LoadStoreUnit
  imports MemAccess
begin

text \<open>
  The load/store unit (\<open>core/lsu/LSU.hpp\<close>, \<open>LSU.cpp\<close>).

  Scheduled events that have not run are part of the state: the delays at which the issue event is
  scheduled, the payloads of the append-ready event, and the payloads of the replay-ready event with
  their delays; the simulator takes a payload out and calls the handler. The Sparta pipeline is the list
  of its stages and the entry appended in this cycle, which enters stage 0 at the next update; \<open>pl_update\<close>
  is that update. As for the issue queues the scoreboards are sets of ready registers (\<open>sb\<close>), of the calls to a
  scoreboard only the fact is recorded (registrations in \<open>ls_callbacks\<close>, requests to clear in the output), and the
  insertion of the priority queue is a parameter (\<open>pqi\<close>, given the order).
\<close>

section \<open>Parameters and state\<close>

record LSUParameterSet =
  lsp_ldst_inst_queue_size :: nat
  lsp_replay_buffer_size :: nat
  lsp_replay_issue_delay :: nat
  lsp_allow_speculative_load_exec :: bool
  lsp_allow_data_forwarding :: bool
  lsp_mmu_lookup_stage_length :: nat
  lsp_cache_lookup_stage_length :: nat
  lsp_cache_read_stage_length :: nat

definition address_calculation_stage :: nat where
  "address_calculation_stage = 0"

definition mmu_lookup_stage :: "LSUParameterSet \<Rightarrow> nat" where
  "mmu_lookup_stage pr = address_calculation_stage + lsp_mmu_lookup_stage_length pr"

definition cache_lookup_stage :: "LSUParameterSet \<Rightarrow> nat" where
  "cache_lookup_stage pr = mmu_lookup_stage pr + lsp_cache_lookup_stage_length pr"

definition cache_read_stage :: "LSUParameterSet \<Rightarrow> nat" where
  "cache_read_stage pr = cache_lookup_stage pr + 1"

definition complete_stage :: "LSUParameterSet \<Rightarrow> nat" where
  "complete_stage pr = cache_read_stage pr + lsp_cache_read_stage_length pr"

datatype lsu_event =
    OutLsuCredits nat
  | OutMmuLookupReq mptr
  | OutCacheLookupReq mptr
  | ScoreboardSetReady RegFile "nat set"
  | ClearLsuCallbacks RegFile nat
  | ScheduleRobRetire

record LSU = world +
  ls_ldst_inst_queue :: "lptr list"
  ls_replay_buffer :: "lptr list"
  ls_store_buffer :: "lptr list"
  ls_ready_queue :: "lptr list"
  ls_pipeline :: "lptr option list"
  ls_pipeline_in :: "lptr option"
  ls_uev_issue_inst :: "nat list"
  ls_uev_append_ready :: "lptr list"
  ls_uev_replay_ready :: "(lptr \<times> nat) list"
  ls_callbacks :: "(RegFile \<times> nat set \<times> ptr) list"
  ls_rob_stopped_simulation :: bool
  ls_insts_dispatched :: nat
  ls_stores_retired :: nat
  ls_insts_issued :: nat
  ls_replay_insts :: nat
  ls_insts_completed :: nat
  ls_flushes :: nat
  ls_out :: "lsu_event list"

definition mk_LSU :: "LSUParameterSet \<Rightarrow> world \<Rightarrow> LSU result" where
  "mk_LSU pr w =
     bindE (assertE (lsp_mmu_lookup_stage_length pr > 0) ''MMU lookup stage should atleast be one cycle'') (\<lambda>_.
     bindE (assertE (lsp_cache_read_stage_length pr > 0) ''Cache read stage should atleast be one cycle'') (\<lambda>_.
     bindE (assertE (lsp_cache_lookup_stage_length pr > 0) ''Cache lookup stage should atleast be one cycle'') (\<lambda>_.
       Inr (world.extend w (LSU.fields [] [] [] [] (replicate (complete_stage pr + 1) None) None [] [] [] [] False
              0 0 0 0 0 0 [])))))"

definition ls_emit :: "lsu_event \<Rightarrow> LSU \<Rightarrow> LSU" where
  "ls_emit e s = s\<lparr>ls_out := ls_out s @ [e]\<rparr>"

text \<open>The issue event is a unique event: scheduling it twice for the same cycle is scheduling it once.\<close>

definition schedule_issue :: "nat \<Rightarrow> LSU \<Rightarrow> LSU" where
  "schedule_issue d s = (if d \<in> set (ls_uev_issue_inst s) then s else s\<lparr>ls_uev_issue_inst := ls_uev_issue_inst s @ [d]\<rparr>)"

definition isReadyToIssueInsts :: "LSUParameterSet \<Rightarrow> LSU \<Rightarrow> bool" where
  "isReadyToIssueInsts pr s =
     (if lsp_allow_speculative_load_exec pr \<and> length (ls_replay_buffer s) \<ge> lsp_replay_buffer_size pr then False
      else ls_ready_queue s \<noteq> [])"

text \<open>The recurring \<open>if (isReadyToIssueInsts_()) uev_issue_inst_.schedule(d)\<close>.\<close>

definition issue_if_ready :: "LSUParameterSet \<Rightarrow> nat \<Rightarrow> LSU \<Rightarrow> LSU" where
  "issue_if_ready pr d s = (if isReadyToIssueInsts pr s then schedule_issue d s else s)"

definition ls_stage :: "LSU \<Rightarrow> nat \<Rightarrow> lptr option" where
  "ls_stage s k = (if k < length (ls_pipeline s) then ls_pipeline s ! k else None)"

definition invalidateStage :: "nat \<Rightarrow> LSU \<Rightarrow> LSU" where
  "invalidateStage k s = s\<lparr>ls_pipeline := (ls_pipeline s)[k := None]\<rparr>"

definition pl_append :: "lptr \<Rightarrow> LSU \<Rightarrow> LSU result" where
  "pl_append l s =
     (case ls_pipeline_in s of
        None \<Rightarrow> Inr (s\<lparr>ls_pipeline_in := Some l\<rparr>)
      | Some _ \<Rightarrow> Inl (SpartaAssert ''append twice''))"

definition pl_update :: "LSU \<Rightarrow> LSU" where
  "pl_update s = s\<lparr>ls_pipeline := take (length (ls_pipeline s)) (ls_pipeline_in s # ls_pipeline s), ls_pipeline_in := None\<rparr>"

section \<open>Queues\<close>

definition createLoadStoreInst :: "bool \<Rightarrow> ptr \<Rightarrow> LSU \<Rightarrow> lptr \<times> LSU" where
  "createLoadStoreInst junk p s =
     (let n = w_next s in
      (n, s\<lparr>w_mai := (w_mai s)(n := mk_MemoryAccessInfo (w_inst s) p),
            w_lsi := (w_lsi s)(n := mk_LoadStoreInstInfo junk n), w_next := n + 1\<rparr>))"

definition allocateInstToIssueQueue :: "LSUParameterSet \<Rightarrow> bool \<Rightarrow> ptr \<Rightarrow> LSU \<Rightarrow> LSU result" where
  "allocateInstToIssueQueue pr junk p s =
     (case createLoadStoreInst junk p s of (l, s1) \<Rightarrow>
        bindE (assertE (length (ls_ldst_inst_queue s1) < lsp_ldst_inst_queue_size pr)
                 ''Appending issue queue causes overflows!'') (\<lambda>_.
          Inr (setIssueQueueIterator l (Some l) (s1\<lparr>ls_ldst_inst_queue := ls_ldst_inst_queue s1 @ [l]\<rparr>))))"

definition allocateInstToStoreBuffer :: "LSUParameterSet \<Rightarrow> bool \<Rightarrow> ptr \<Rightarrow> LSU \<Rightarrow> LSU result" where
  "allocateInstToStoreBuffer pr junk p s =
     (case createLoadStoreInst junk p s of (l, s1) \<Rightarrow>
        bindE (assertE (length (ls_store_buffer s1) < lsp_ldst_inst_queue_size pr)
                 ''Appending store buffer causes overflows!'') (\<lambda>_.
          Inr (s1\<lparr>ls_store_buffer := ls_store_buffer s1 @ [l]\<rparr>)))"

definition getOldestStore :: "LSU \<Rightarrow> lptr option" where
  "getOldestStore s = (case ls_store_buffer s of [] \<Rightarrow> None | l # _ \<Rightarrow> Some l)"

definition olderStoresExists :: "LSU \<Rightarrow> ptr \<Rightarrow> bool" where
  "olderStoresExists s p =
     list_ex (\<lambda>l. i_is_store (inst_of s l) \<and> i_unique_id (inst_of s l) < i_unique_id (w_inst s p)) (ls_ldst_inst_queue s)"

definition allOlderStoresIssued :: "LSU \<Rightarrow> ptr \<Rightarrow> bool" where
  "allOlderStoresIssued s p =
     list_all (\<lambda>l. \<not> (i_is_store (inst_of s l) \<and> i_unique_id (inst_of s l) < i_unique_id (w_inst s p)
                     \<and> \<not> mi_phy_addr_ready (mem_of s l) \<and> ip_of s l \<noteq> p)) (ls_ldst_inst_queue s)"

definition instOperandReady :: "(RegFile \<Rightarrow> nat set) \<Rightarrow> LSU \<Rightarrow> ptr \<Rightarrow> bool" where
  "instOperandReady sb s p = (i_src_mask (w_inst s p) RF_INTEGER \<subseteq> sb RF_INTEGER)"

definition issue_entry :: "LSU \<Rightarrow> ptr \<Rightarrow> lptr option" where
  "issue_entry s p = List.find (\<lambda>l. ip_of s l = p) (ls_ldst_inst_queue s)"

definition appendToReadyQueue ::
    "((lptr \<Rightarrow> lptr \<Rightarrow> bool) \<Rightarrow> lptr list \<Rightarrow> lptr \<Rightarrow> lptr list) \<Rightarrow> lptr \<Rightarrow> LSU \<Rightarrow> LSU result" where
  "appendToReadyQueue pqi l s =
     bindE (assertE (l \<notin> set (ls_ready_queue s)) ''Instruction in ready queue'') (\<lambda>_.
       Inr (setState l IS_READY (setInReadyQueue l True
             (s\<lparr>ls_ready_queue := pqi (lsi_less s) (ls_ready_queue s) l\<rparr>))))"

definition appendToReadyQueue_inst ::
    "((lptr \<Rightarrow> lptr \<Rightarrow> bool) \<Rightarrow> lptr list \<Rightarrow> lptr \<Rightarrow> lptr list) \<Rightarrow> ptr \<Rightarrow> LSU \<Rightarrow> LSU result" where
  "appendToReadyQueue_inst pqi p s =
     (case issue_entry s p of
        Some l \<Rightarrow> appendToReadyQueue pqi l s
      | None \<Rightarrow> Inl (SpartaAssert ''Instruction not found in the issue queue''))"

definition appendToReplayQueue :: "LSUParameterSet \<Rightarrow> lptr \<Rightarrow> LSU \<Rightarrow> LSU result" where
  "appendToReplayQueue pr l s =
     bindE (assertE (length (ls_replay_buffer s) < lsp_replay_buffer_size pr) ''Appending load queue causes overflows!'') (\<lambda>_.
     bindE (assertE (\<not> iter_valid (mi_replay_queue_iterator (mem_of s l)) (ls_replay_buffer s))
              ''Cannot push duplicate instructions into the replay queue'') (\<lambda>_.
       Inr (setReplayQueueIterator l (Some l) (s\<lparr>ls_replay_buffer := ls_replay_buffer s @ [l]\<rparr>))))"

definition removeInstFromReplayQueue :: "lptr \<Rightarrow> LSU \<Rightarrow> LSU" where
  "removeInstFromReplayQueue l s =
     (let it = mi_replay_queue_iterator (mem_of s l);
          s1 = (if iter_valid it (ls_replay_buffer s)
                then s\<lparr>ls_replay_buffer := iter_erase it (ls_replay_buffer s)\<rparr> else s)
      in setReplayQueueIterator l None s1)"

definition removeInstFromReplayQueue_inst :: "ptr \<Rightarrow> LSU \<Rightarrow> LSU" where
  "removeInstFromReplayQueue_inst p s =
     fold (\<lambda>l s1. if ip_of s1 l = p \<and> iter_valid (mi_replay_queue_iterator (mem_of s1 l)) (ls_replay_buffer s1)
                  then removeInstFromReplayQueue l s1 else s1) (ls_ldst_inst_queue s) s"

definition ls_popIssueQueue :: "lptr \<Rightarrow> LSU \<Rightarrow> LSU result" where
  "ls_popIssueQueue l s =
     (let it = mi_issue_queue_iterator (mem_of s l) in
      if iter_valid it (ls_ldst_inst_queue s)
      then Inr (setIssueQueueIterator l None (s\<lparr>ls_ldst_inst_queue := iter_erase it (ls_ldst_inst_queue s)\<rparr>))
      else Inl (UndefinedBehaviour ''erase of an invalid iterator''))"

text \<open>The append-ready event is scheduled for the current cycle.\<close>

definition schedule_append_ready :: "lptr \<Rightarrow> LSU \<Rightarrow> LSU" where
  "schedule_append_ready l s = s\<lparr>ls_uev_append_ready := ls_uev_append_ready s @ [l]\<rparr>"

definition set_ready_unless_issued :: "lptr \<Rightarrow> LSU \<Rightarrow> LSU" where
  "set_ready_unless_issued l s = (if li_state (w_lsi s l) \<noteq> IS_ISSUED then setState l IS_READY s else s)"

section \<open>Issue priorities\<close>

definition updateIssuePriorityAfterNewDispatch :: "ptr \<Rightarrow> LSU \<Rightarrow> LSU result" where
  "updateIssuePriorityAfterNewDispatch p s =
     (case issue_entry s p of
        Some l \<Rightarrow> bindE (setStatus SCHEDULED (w_inst s p)) (\<lambda>(i, _).
                    Inr (upd_inst p i (setPriority l NEW_DISP (setState l IS_READY s))))
      | None \<Rightarrow> Inl (SpartaAssert ''Attempt to update issue priority for instruction not yet in the issue queue!''))"

definition tlb_reload_entry :: "LSUParameterSet \<Rightarrow> ptr \<Rightarrow> lptr \<Rightarrow> bool \<times> LSU \<Rightarrow> bool \<times> LSU" where
  "tlb_reload_entry pr p l fs =
     (case fs of (is_found, s) \<Rightarrow>
        let s1 = (if mi_mmu_access_state (mem_of s l) = MMU_MISS
                  then setPriority l MMU_PENDING
                         (if \<not> lsp_allow_speculative_load_exec pr then setState l IS_READY s else s)
                  else s)
        in if ip_of s1 l = p
           then (True, schedule_append_ready l (setPriority l MMU_RELOAD (set_ready_unless_issued l s1)))
           else (is_found, s1))"

definition updateIssuePriorityAfterTLBReload :: "LSUParameterSet \<Rightarrow> ptr \<Rightarrow> LSU \<Rightarrow> LSU result" where
  "updateIssuePriorityAfterTLBReload pr p s =
     (case fold (tlb_reload_entry pr p) (ls_ldst_inst_queue s) (False, s) of (is_found, s1) \<Rightarrow>
        bindE (assertE (i_status (w_inst s1 p) = FLUSHED \<or> is_found)
                 ''Attempt to rehandle TLB lookup for instruction not yet in the issue queue! '') (\<lambda>_. Inr s1))"

definition updateIssuePriorityAfterCacheReload :: "mptr \<Rightarrow> ptr \<Rightarrow> LSU \<Rightarrow> LSU result" where
  "updateIssuePriorityAfterCacheReload m p s =
     bindE (assertE (i_status (w_inst s p) \<noteq> FLUSHED) ''Attempt to rehandle cache lookup for flushed instruction!'') (\<lambda>_.
     let it = mi_issue_queue_iterator (w_mai s m) in
     bindE (assertE (iter_valid it (ls_ldst_inst_queue s))
              ''Attempt to rehandle cache lookup for instruction not yet in the issue queue! '') (\<lambda>_.
       Inr (schedule_append_ready (the it) (setPriority (the it) CACHE_RELOAD (set_ready_unless_issued (the it) s)))))"

definition updateIssuePriorityAfterStoreInstRetire :: "ptr \<Rightarrow> LSU \<Rightarrow> LSU result" where
  "updateIssuePriorityAfterStoreInstRetire p s =
     (case issue_entry s p of
        Some l \<Rightarrow> Inr (schedule_append_ready l (setPriority l CACHE_PENDING (set_ready_unless_issued l s)))
      | None \<Rightarrow> Inl (SpartaAssert ''Attempt to update issue priority for instruction not yet in the issue queue!''))"

section \<open>Store-to-load forwarding\<close>

text \<open>The bytes of the load that one store covers: the loop over the overlapping addresses, with the
  64-bit additions of the source; \<open>cov\<close> is the coverage mask and the number of covered bytes.\<close>

definition cover_byte :: "64 word \<Rightarrow> 64 word \<Rightarrow> nat \<Rightarrow> bool list \<times> nat \<Rightarrow> bool list \<times> nat" where
  "cover_byte load_addr start k cov =
     (case cov of (coverage_mask, n) \<Rightarrow>
        let load_byte_idx = unat (ucast (start + word_of_nat k - load_addr) :: 32 word) in
        if \<not> coverage_mask ! load_byte_idx then (coverage_mask[load_byte_idx := True], n + 1) else (coverage_mask, n))"

definition cover_by_store :: "64 word \<Rightarrow> nat \<Rightarrow> 64 word \<Rightarrow> nat \<Rightarrow> bool list \<times> nat \<Rightarrow> bool list \<times> nat" where
  "cover_by_store load_addr load_size store_addr store_size cov =
     (let overlap_start_addr = max load_addr store_addr;
          overlap_end_addr = min (load_addr + word_of_nat load_size) (store_addr + word_of_nat store_size)
      in if overlap_start_addr < overlap_end_addr
         then fold (cover_byte load_addr overlap_start_addr) [0 ..< unat overlap_end_addr - unat overlap_start_addr] cov
         else cov)"

text \<open>The loop over the store buffer, youngest store first, that stops once every byte is covered.\<close>

fun forward_loop :: "LSU \<Rightarrow> 64 word \<Rightarrow> nat \<Rightarrow> lptr list \<Rightarrow> bool list \<times> nat \<Rightarrow> bool list \<times> nat" where
  "forward_loop s load_addr load_size [] cov = cov"
| "forward_loop s load_addr load_size (l # ls) cov =
     (if getMemAccessSize (inst_of s l) = 0 then forward_loop s load_addr load_size ls cov
      else let cov1 = cover_by_store load_addr load_size (i_target_vaddr (inst_of s l)) (getMemAccessSize (inst_of s l)) cov
           in if snd cov1 = load_size then cov1 else forward_loop s load_addr load_size ls cov1)"

definition tryStoreToLoadForwarding :: "LSU \<Rightarrow> ptr \<Rightarrow> bool" where
  "tryStoreToLoadForwarding s p =
     (let load_addr = i_target_vaddr (w_inst s p); load_size = getMemAccessSize (w_inst s p) in
      if load_size = 0 then False
      else snd (forward_loop s load_addr load_size (rev (ls_store_buffer s)) (replicate load_size False, 0)) = load_size)"

section \<open>Dispatch and operand readiness\<close>

definition check_store_data ::
    "(RegFile \<Rightarrow> nat set) \<Rightarrow> ptr \<Rightarrow> RegFile \<Rightarrow> bool \<times> LSU \<Rightarrow> bool \<times> LSU" where
  "check_store_data sb p rf rs =
     (case rs of (all_ready, s) \<Rightarrow>
        if \<not> is_x0 (op_info (rd_data_reg (i_rename_data (w_inst s p)))) \<and> \<not> i_data_mask (w_inst s p) rf \<subseteq> sb rf
        then (False, s\<lparr>ls_callbacks := ls_callbacks s @ [(rf, i_data_mask (w_inst s p) rf, p)]\<rparr>)
        else (all_ready, s))"

definition operand_check :: "LSUParameterSet \<Rightarrow> (RegFile \<Rightarrow> nat set) \<Rightarrow> ptr \<Rightarrow> LSU \<Rightarrow> bool \<times> LSU" where
  "operand_check pr sb p s =
     (if \<not> instOperandReady sb s p
      then (False, s\<lparr>ls_callbacks := ls_callbacks s @ [(RF_INTEGER, i_src_mask (w_inst s p) RF_INTEGER, p)]\<rparr>)
      else if i_is_store (w_inst s p) then fold (check_store_data sb p) regfiles (True, s)
      else if \<not> lsp_allow_speculative_load_exec pr then (allOlderStoresIssued s p, s)
      else (True, s))"

definition ls_handleOperandIssueCheck ::
    "((lptr \<Rightarrow> lptr \<Rightarrow> bool) \<Rightarrow> lptr list \<Rightarrow> lptr \<Rightarrow> lptr list) \<Rightarrow> LSUParameterSet \<Rightarrow> (RegFile \<Rightarrow> nat set) \<Rightarrow> ptr \<Rightarrow> LSU
       \<Rightarrow> LSU result" where
  "ls_handleOperandIssueCheck pqi pr sb p s =
     (if i_status (w_inst s p) = SCHEDULED then Inr s
      else case operand_check pr sb p s of (all_ready, s1) \<Rightarrow>
        if all_ready
        then bindE (updateIssuePriorityAfterNewDispatch p s1) (\<lambda>s2.
             bindE (appendToReadyQueue_inst pqi p s2) (\<lambda>s3. Inr (issue_if_ready pr 0 s3)))
        else Inr s1)"

definition getInstsFromDispatch ::
    "((lptr \<Rightarrow> lptr \<Rightarrow> bool) \<Rightarrow> lptr list \<Rightarrow> lptr \<Rightarrow> lptr list) \<Rightarrow> LSUParameterSet \<Rightarrow> (RegFile \<Rightarrow> nat set) \<Rightarrow> bool \<Rightarrow> bool
       \<Rightarrow> ptr \<Rightarrow> LSU \<Rightarrow> LSU result" where
  "getInstsFromDispatch pqi pr sb junk1 junk2 p s =
     bindE (allocateInstToIssueQueue pr junk1 p s) (\<lambda>s1.
     bindE (if i_is_store (w_inst s1 p) then allocateInstToStoreBuffer pr junk2 p s1 else Inr s1) (\<lambda>s2.
     bindE (ls_handleOperandIssueCheck pqi pr sb p s2) (\<lambda>s3.
       Inr (s3\<lparr>ls_insts_dispatched := ls_insts_dispatched s3 + 1\<rparr>))))"

definition getAckFromROB_lsu :: "LSUParameterSet \<Rightarrow> ptr \<Rightarrow> LSU \<Rightarrow> LSU result" where
  "getAckFromROB_lsu pr p s =
     bindE (assertE (i_status (w_inst s p) = RETIRED) ''Get ROB Ack, but the store inst hasnt retired yet!'') (\<lambda>_.
     bindE (if i_is_store (w_inst s p)
            then bindE (assertE (case getOldestStore s of None \<Rightarrow> False
                                 | Some l \<Rightarrow> i_unique_id (inst_of s l) = i_unique_id (w_inst s p))
                          ''Attempting to retire store out of order!'') (\<lambda>_.
                   Inr (s\<lparr>ls_store_buffer := tl (ls_store_buffer s), ls_stores_retired := ls_stores_retired s + 1\<rparr>))
            else Inr s) (\<lambda>s1.
     bindE (updateIssuePriorityAfterStoreInstRetire p s1) (\<lambda>s2. Inr (issue_if_ready pr 0 s2))))"

definition ls_sendInitialCredits :: "LSUParameterSet \<Rightarrow> LSU \<Rightarrow> LSU" where
  "ls_sendInitialCredits pr s = ls_emit (OutLsuCredits (lsp_ldst_inst_queue_size pr)) s"

definition ls_onROBTerminate :: "bool \<Rightarrow> LSU \<Rightarrow> LSU" where
  "ls_onROBTerminate v s = s\<lparr>ls_rob_stopped_simulation := v\<rparr>"

definition ls_onStartingTeardown :: "LSU \<Rightarrow> unit result" where
  "ls_onStartingTeardown s =
     assertE (\<not> (\<not> ls_rob_stopped_simulation s \<and> ls_ldst_inst_queue s \<noteq> [])) ''Issue queue has pending instructions''"

section \<open>Issue and replay\<close>

definition arbitrateInstIssue :: "LSU \<Rightarrow> (lptr \<times> LSU) result" where
  "arbitrateInstIssue s =
     (case ls_ready_queue s of
        [] \<Rightarrow> Inl (SpartaAssert ''Arbitration fails: issue is empty!'')
      | l # rest \<Rightarrow> Inr (l, s\<lparr>ls_ready_queue := rest\<rparr>))"

definition issueInst :: "LSUParameterSet \<Rightarrow> LSU \<Rightarrow> LSU result" where
  "issueInst pr s =
     bindE (arbitrateInstIssue s) (\<lambda>(win, s1).
     bindE (pl_append win (s1\<lparr>ls_insts_issued := ls_insts_issued s1 + 1\<rparr>)) (\<lambda>s2.
     bindE (if lsp_allow_speculative_load_exec pr then appendToReplayQueue pr win s2 else Inr s2) (\<lambda>s3.
       Inr (issue_if_ready pr 1 (setPriority win LOWEST (setState win IS_ISSUED (setInReadyQueue win False s3)))))))"

definition updateInstReplayReady :: "LSUParameterSet \<Rightarrow> lptr \<Rightarrow> LSU \<Rightarrow> LSU" where
  "updateInstReplayReady pr l s =
     (let s1 = setState l IS_NOT_READY s;
          s2 = s1\<lparr>ls_uev_replay_ready := ls_uev_replay_ready s1 @ [(l, lsp_replay_issue_delay pr)]\<rparr>;
          s3 = removeInstFromReplayQueue l s2
      in s3\<lparr>ls_replay_insts := ls_replay_insts s3 + 1\<rparr>)"

definition replayReady :: "LSUParameterSet \<Rightarrow> lptr \<Rightarrow> LSU \<Rightarrow> LSU" where
  "replayReady pr l s =
     (let s1 = (if li_state (w_lsi s l) = IS_NOT_READY then setState l IS_READY s else s);
          s2 = setPriority l (if mi_phy_addr_ready (mem_of s1 l) then CACHE_PENDING else MMU_PENDING) s1
      in issue_if_ready pr 0 (schedule_append_ready l s2))"

definition appendReady ::
    "((lptr \<Rightarrow> lptr \<Rightarrow> bool) \<Rightarrow> lptr list \<Rightarrow> lptr \<Rightarrow> lptr list) \<Rightarrow> LSUParameterSet \<Rightarrow> lptr \<Rightarrow> LSU \<Rightarrow> LSU result" where
  "appendReady pqi pr l s =
     bindE (if \<not> li_in_ready_queue (w_lsi s l) \<and> \<not> iter_valid (mi_replay_queue_iterator (mem_of s l)) (ls_replay_buffer s)
            then appendToReadyQueue pqi l s else Inr s) (\<lambda>s1. Inr (issue_if_ready pr 0 s1))"

section \<open>Address translation\<close>

definition handleAddressCalculation :: "LSUParameterSet \<Rightarrow> LSU \<Rightarrow> LSU" where
  "handleAddressCalculation pr s =
     (case ls_stage s address_calculation_stage of None \<Rightarrow> s | Some l \<Rightarrow> issue_if_ready pr 0 s)"

definition ready_dependent_load ::
    "((lptr \<Rightarrow> lptr \<Rightarrow> bool) \<Rightarrow> lptr list \<Rightarrow> lptr \<Rightarrow> lptr list) \<Rightarrow> (RegFile \<Rightarrow> nat set) \<Rightarrow> bool \<times> LSU \<Rightarrow> lptr
       \<Rightarrow> (bool \<times> LSU) result" where
  "ready_dependent_load pqi sb fs l =
     (case fs of (found, s) \<Rightarrow>
        if i_is_store (inst_of s l) then Inr (found, s)
        else if i_status (inst_of s l) = DISPATCHED \<and> instOperandReady sb s (ip_of s l)
        then bindE (updateIssuePriorityAfterNewDispatch (ip_of s l) s) (\<lambda>s1.
             bindE (appendToReadyQueue pqi l s1) (\<lambda>s2. Inr (True, s2)))
        else Inr (found, s))"

definition readyDependentLoads ::
    "((lptr \<Rightarrow> lptr \<Rightarrow> bool) \<Rightarrow> lptr list \<Rightarrow> lptr \<Rightarrow> lptr list) \<Rightarrow> LSUParameterSet \<Rightarrow> (RegFile \<Rightarrow> nat set) \<Rightarrow> LSU
       \<Rightarrow> LSU result" where
  "readyDependentLoads pqi pr sb s =
     bindE (foldE (ready_dependent_load pqi sb) (False, s) (ls_ldst_inst_queue s)) (\<lambda>(found, s1).
       Inr (if found \<and> isReadyToIssueInsts pr s1 then schedule_issue 0 s1 else s1))"

definition handleMMULookupReq ::
    "((lptr \<Rightarrow> lptr \<Rightarrow> bool) \<Rightarrow> lptr list \<Rightarrow> lptr \<Rightarrow> lptr list) \<Rightarrow> LSUParameterSet \<Rightarrow> (RegFile \<Rightarrow> nat set) \<Rightarrow> LSU
       \<Rightarrow> LSU result" where
  "handleMMULookupReq pqi pr sb s =
     (case ls_stage s (mmu_lookup_stage pr) of
        None \<Rightarrow> Inr s
      | Some l \<Rightarrow>
          if mi_mmu_access_state (mem_of s l) = MMU_HIT then Inr s
          else bindE (if \<not> lsp_allow_speculative_load_exec pr \<and> i_is_store (inst_of s l)
                      then readyDependentLoads pqi pr sb s else Inr s) (\<lambda>s1.
                 Inr (ls_emit (OutMmuLookupReq (li_mem_access_info (w_lsi s1 l))) s1)))"

definition dropInstFromPipeline :: "lptr \<Rightarrow> LSU \<Rightarrow> LSU" where
  "dropInstFromPipeline l s =
     (case List.find (\<lambda>k. ls_stage s k = Some l) [0 ..< length (ls_pipeline s)] of
        None \<Rightarrow> s
      | Some k \<Rightarrow> invalidateStage k s)"

definition UINT64_MAX :: nat where
  "UINT64_MAX = 18446744073709551615"

definition min_age :: "ptr \<Rightarrow> LSU \<Rightarrow> nat" where
  "min_age p s =
     fold (\<lambda>l a. if i_is_store (inst_of s l) \<or> ip_of s l = p then a
                 else if i_target_vaddr (inst_of s l) = i_target_vaddr (w_inst s p) \<and> i_unique_id (inst_of s l) < a
                 then i_unique_id (inst_of s l) else a) (ls_replay_buffer s) UINT64_MAX"

definition abort_load ::
    "((lptr \<Rightarrow> lptr \<Rightarrow> bool) \<Rightarrow> lptr list \<Rightarrow> lptr \<Rightarrow> lptr list) \<Rightarrow> nat \<Rightarrow> LSU \<Rightarrow> lptr \<Rightarrow> LSU result" where
  "abort_load pqi min_inst_age s l =
     (if i_is_store (inst_of s l) then Inr s
      else if getInstUniqueID s l \<ge> min_inst_age
      then bindE (appendToReadyQueue pqi l (setState l IS_READY s)) (\<lambda>s1.
             Inr (removeInstFromReplayQueue l (dropInstFromPipeline l s1)))
      else Inr s)"

definition abortYoungerLoads ::
    "((lptr \<Rightarrow> lptr \<Rightarrow> bool) \<Rightarrow> lptr list \<Rightarrow> lptr \<Rightarrow> lptr list) \<Rightarrow> ptr \<Rightarrow> LSU \<Rightarrow> LSU result" where
  "abortYoungerLoads pqi p s =
     (let min_inst_age = min_age p s in
      if min_inst_age = UINT64_MAX then Inr s
      else foldE (abort_load pqi min_inst_age) s (ls_replay_buffer s))"

text \<open>The handlers of a port receive a memory access; its instruction pointer is dereferenced.\<close>

definition with_inst :: "mptr \<Rightarrow> LSU \<Rightarrow> (ptr \<Rightarrow> 'a result) \<Rightarrow> 'a result" where
  "with_inst m s f =
     (case mi_ldst_inst (w_mai s m) of None \<Rightarrow> Inl (UndefinedBehaviour ''null instruction pointer'') | Some p \<Rightarrow> f p)"

definition getAckFromMMU ::
    "((lptr \<Rightarrow> lptr \<Rightarrow> bool) \<Rightarrow> lptr list \<Rightarrow> lptr \<Rightarrow> lptr list) \<Rightarrow> LSUParameterSet \<Rightarrow> mptr \<Rightarrow> LSU \<Rightarrow> LSU result" where
  "getAckFromMMU pqi pr m s =
     (case ls_stage s (mmu_lookup_stage pr) of
        None \<Rightarrow> Inr s
      | Some _ \<Rightarrow> with_inst m s (\<lambda>p.
          if i_is_store (w_inst s p) \<and> mi_phy_addr_ready (w_mai s m) \<and> lsp_allow_speculative_load_exec pr
          then abortYoungerLoads pqi p s else Inr s))"

definition handleMMUReadyReq :: "LSUParameterSet \<Rightarrow> mptr \<Rightarrow> LSU \<Rightarrow> LSU result" where
  "handleMMUReadyReq pr m s =
     with_inst m s (\<lambda>p.
       bindE (updateIssuePriorityAfterTLBReload pr p s) (\<lambda>s1.
         if i_status (w_inst s1 p) = FLUSHED then Inr (issue_if_ready pr 0 s1)
         else Inr (issue_if_ready pr 0 (removeInstFromReplayQueue_inst p s1))))"

section \<open>Cache access\<close>

text \<open>An access that cannot go on is put back into the ready queue, unless it is there already.\<close>

definition retry_access ::
    "((lptr \<Rightarrow> lptr \<Rightarrow> bool) \<Rightarrow> lptr list \<Rightarrow> lptr \<Rightarrow> lptr list) \<Rightarrow> LSUParameterSet \<Rightarrow> nat \<Rightarrow> lptr \<Rightarrow> LSU \<Rightarrow> LSU result" where
  "retry_access pqi pr stage l s =
     (let s1 = (if lsp_allow_speculative_load_exec pr then updateInstReplayReady pr l s else s) in
      bindE (if \<not> li_in_ready_queue (w_lsi s1 l)
             then bindE (appendToReadyQueue pqi l s1) (\<lambda>s2. Inr (issue_if_ready pr 0 (setState l IS_READY s2)))
             else Inr s1) (\<lambda>s3. Inr (invalidateStage stage s3)))"

definition set_inst_status :: "ptr \<Rightarrow> Status \<Rightarrow> LSU \<Rightarrow> LSU result" where
  "set_inst_status p st s =
     bindE (setStatus st (w_inst s p)) (\<lambda>(i, ev_retire).
       Inr (let s1 = upd_inst p i s in if ev_retire then ls_emit ScheduleRobRetire s1 else s1))"

definition handleCacheLookupReq ::
    "((lptr \<Rightarrow> lptr \<Rightarrow> bool) \<Rightarrow> lptr list \<Rightarrow> lptr \<Rightarrow> lptr list) \<Rightarrow> LSUParameterSet \<Rightarrow> LSU \<Rightarrow> LSU result" where
  "handleCacheLookupReq pqi pr s =
     (case ls_stage s (cache_lookup_stage pr) of
        None \<Rightarrow> Inr s
      | Some l \<Rightarrow>
          let m = li_mem_access_info (w_lsi s l); p = ip_of s l; i = inst_of s l;
              phy_addr_is_ready = mi_phy_addr_ready (mem_of s l);
              spec = lsp_allow_speculative_load_exec pr
          in
          if \<not> phy_addr_is_ready then retry_access pqi pr (cache_lookup_stage pr) l s
          else if i_is_store i \<and> i_status i = SCHEDULED
          then bindE (set_inst_status p COMPLETED s) (\<lambda>s1.
                 let s2 = invalidateStage (cache_lookup_stage pr) (setState l IS_READY s1)
                 in Inr (if spec then updateInstReplayReady pr l s2 else s2))
          else if \<not> i_is_store i \<and> \<not> allOlderStoresIssued s p \<and> spec
          then (let s2 = invalidateStage (cache_lookup_stage pr) (setState l IS_READY s)
                in Inr (if spec then updateInstReplayReady pr l s2 else s2))
          else if \<not> i_is_store i \<and> lsp_allow_data_forwarding pr \<and> tryStoreToLoadForwarding s p
          then Inr (upd_mai m (\<lambda>x. x\<lparr>mi_cache_data_ready := True, mi_cache_access_state := CS_HIT\<rparr>) s)
          else
            let is_already_hit = (mi_cache_access_state (mem_of s l) = CS_HIT);
                is_unretired_store = (i_is_store i \<and> i_status i \<noteq> RETIRED)
            in if is_already_hit \<or> \<not> phy_addr_is_ready \<or> is_unretired_store
               then (if is_already_hit then Inr s else if is_unretired_store then Inr s
                     else Inl (SpartaAssert ''Cache access is bypassed without a valid reason!''))
               else Inr (ls_emit (OutCacheLookupReq m) s))"

definition getAckFromCache :: "mptr \<Rightarrow> LSU \<Rightarrow> LSU" where
  "getAckFromCache m s =
     (let it = mi_issue_queue_iterator (w_mai s m) in
      if \<not> iter_valid it (ls_ldst_inst_queue s) then s
      else if \<not> isCacheHit (w_mai s m) then s
      else let l = the it; s1 = setPriority l CACHE_RELOAD (set_ready_unless_issued l s)
           in if \<not> li_in_ready_queue (w_lsi s1 l) then schedule_append_ready l s1 else s1)"

definition handleCacheReadyReq :: "LSUParameterSet \<Rightarrow> mptr \<Rightarrow> LSU \<Rightarrow> LSU result" where
  "handleCacheReadyReq pr m s =
     with_inst m s (\<lambda>p.
       if i_status (w_inst s p) = FLUSHED then Inr (issue_if_ready pr 0 s)
       else bindE (updateIssuePriorityAfterCacheReload m p s) (\<lambda>s1.
              Inr (issue_if_ready pr 0 (removeInstFromReplayQueue_inst p s1))))"

definition handleCacheRead ::
    "((lptr \<Rightarrow> lptr \<Rightarrow> bool) \<Rightarrow> lptr list \<Rightarrow> lptr \<Rightarrow> lptr list) \<Rightarrow> LSUParameterSet \<Rightarrow> LSU \<Rightarrow> LSU result" where
  "handleCacheRead pqi pr s =
     (case ls_stage s (cache_read_stage pr) of
        None \<Rightarrow> Inr s
      | Some l \<Rightarrow>
          if \<not> isCacheHit (mem_of s l) then retry_access pqi pr (cache_read_stage pr) l s
          else if mi_cache_data_ready (mem_of s l) then Inr s
          else Inr (issue_if_ready pr 0
                 (upd_mai (li_mem_access_info (w_lsi s l)) (\<lambda>x. x\<lparr>mi_cache_data_ready := True\<rparr>) s)))"

section \<open>Completion\<close>

definition set_dest_ready :: "Inst \<Rightarrow> LSU \<Rightarrow> LSU result" where
  "set_dest_ready i s =
     (case oi_dest_list (i_opcode_info i) of
        [] \<Rightarrow> Inr s
      | d # ds \<Rightarrow>
          bindE (assertE (ds = []) ''dests.size() == 1'') (\<lambda>_.
          bindE (determineRegisterFile (oe_operand_type d)) (\<lambda>rf.
            Inr (ls_emit (ScoreboardSetReady rf (i_dest_mask i rf)) s))))"

text \<open>The removal from the queues and the credit that end a load and a store.\<close>

definition finish_inst :: "LSUParameterSet \<Rightarrow> lptr \<Rightarrow> LSU \<Rightarrow> LSU result" where
  "finish_inst pr l s =
     bindE (ls_popIssueQueue l s) (\<lambda>s1.
       let s2 = (if lsp_allow_speculative_load_exec pr then removeInstFromReplayQueue l s1 else s1)
       in Inr (ls_emit (OutLsuCredits 1) (s2\<lparr>ls_insts_completed := ls_insts_completed s2 + 1\<rparr>)))"

definition complete_load :: "LSUParameterSet \<Rightarrow> lptr \<Rightarrow> LSU \<Rightarrow> LSU result" where
  "complete_load pr l s =
     bindE (assertE (mi_cache_access_state (mem_of s l) = CS_HIT)
              ''Load instruction cannot complete when cache is still a miss! '') (\<lambda>_.
     let s1 = issue_if_ready pr 0 s in
     if isRetired s1 l \<or> i_status (inst_of s1 l) = COMPLETED
     then Inr (if lsp_allow_speculative_load_exec pr then removeInstFromReplayQueue l s1 else s1)
     else bindE (set_inst_status (ip_of s1 l) COMPLETED s1) (\<lambda>s2. finish_inst pr l s2))"

definition complete_store :: "LSUParameterSet \<Rightarrow> lptr \<Rightarrow> LSU \<Rightarrow> LSU result" where
  "complete_store pr l s =
     (if i_status (inst_of s l) \<noteq> RETIRED
      then bindE (assertE (mi_mmu_access_state (mem_of s l) = MMU_HIT)
                    ''Store instruction cannot complete when TLB is still a miss!'') (\<lambda>_. Inr (issue_if_ready pr 0 s))
      else bindE (assertE (mi_cache_access_state (mem_of s l) = CS_HIT)
                    ''Store inst cannot finish when cache is still a miss! '') (\<lambda>_.
           bindE (assertE (mi_mmu_access_state (mem_of s l) = MMU_HIT)
                    ''Store inst cannot finish when cache is still a miss! '') (\<lambda>_.
             let s1 = issue_if_ready pr 0 s in
             if \<not> iter_valid (mi_issue_queue_iterator (mem_of s1 l)) (ls_ldst_inst_queue s1)
             then Inr (if lsp_allow_speculative_load_exec pr then removeInstFromReplayQueue l s1 else s1)
             else finish_inst pr l s1)))"

definition ls_completeInst :: "LSUParameterSet \<Rightarrow> LSU \<Rightarrow> LSU result" where
  "ls_completeInst pr s =
     (case ls_stage s (complete_stage pr) of
        None \<Rightarrow> Inr s
      | Some l \<Rightarrow>
          if \<not> mi_cache_data_ready (mem_of s l) then Inr s
          else bindE (set_dest_ready (inst_of s l) s) (\<lambda>s1.
                 if \<not> i_is_store (inst_of s l) then complete_load pr l s1 else complete_store pr l s1))"

section \<open>Flush\<close>

definition flushed_lsi :: "FlushingCriteria \<Rightarrow> LSU \<Rightarrow> lptr \<Rightarrow> bool" where
  "flushed_lsi c s l = includedInFlush (w_inst s) c (ip_of s l)"

definition clear_lsu_callbacks :: "nat \<Rightarrow> LSU \<Rightarrow> LSU" where
  "clear_lsu_callbacks uid s =
     fold (\<lambda>rf s1. ls_emit (ClearLsuCallbacks rf uid) s1) [RF_INTEGER, RF_FLOAT] s"

definition flush_issue_entry :: "FlushingCriteria \<Rightarrow> lptr \<Rightarrow> LSU \<times> nat \<Rightarrow> LSU \<times> nat" where
  "flush_issue_entry c l sn =
     (case sn of (s, n) \<Rightarrow>
        if flushed_lsi c s l
        then (clear_lsu_callbacks (i_unique_id (inst_of s l)) (s\<lparr>ls_ldst_inst_queue := remove1 l (ls_ldst_inst_queue s)\<rparr>), n + 1)
        else (s, n))"

definition flushIssueQueue :: "FlushingCriteria \<Rightarrow> LSU \<Rightarrow> LSU" where
  "flushIssueQueue c s =
     (case fold (flush_issue_entry c) (ls_ldst_inst_queue s) (s, 0) of (s1, credits_to_send) \<Rightarrow>
        if credits_to_send > 0 then ls_emit (OutLsuCredits credits_to_send) s1 else s1)"

definition flushLSPipeline :: "FlushingCriteria \<Rightarrow> LSU \<Rightarrow> LSU" where
  "flushLSPipeline c s =
     s\<lparr>ls_pipeline := map (\<lambda>x. case x of None \<Rightarrow> None | Some l \<Rightarrow> if flushed_lsi c s l then None else Some l) (ls_pipeline s)\<rparr>"

definition flushReplayBuffer :: "FlushingCriteria \<Rightarrow> LSU \<Rightarrow> LSU" where
  "flushReplayBuffer c s = s\<lparr>ls_replay_buffer := filter (\<lambda>l. \<not> flushed_lsi c s l) (ls_replay_buffer s)\<rparr>"

definition flushReadyQueue :: "FlushingCriteria \<Rightarrow> LSU \<Rightarrow> LSU" where
  "flushReadyQueue c s = s\<lparr>ls_ready_queue := filter (\<lambda>l. \<not> flushed_lsi c s l) (ls_ready_queue s)\<rparr>"

definition flushStoreBuffer :: "FlushingCriteria \<Rightarrow> LSU \<Rightarrow> LSU" where
  "flushStoreBuffer c s = s\<lparr>ls_store_buffer := filter (\<lambda>l. \<not> flushed_lsi c s l) (ls_store_buffer s)\<rparr>"

definition ls_handleFlush :: "LSUParameterSet \<Rightarrow> FlushingCriteria \<Rightarrow> LSU \<Rightarrow> LSU" where
  "ls_handleFlush pr c s =
     (let s1 = flushLSPipeline c (s\<lparr>ls_flushes := ls_flushes s + 1\<rparr>);
          s2 = flushIssueQueue c s1;
          s3 = flushStoreBuffer c (flushReadyQueue c (flushReplayBuffer c s2));
          s4 = s3\<lparr>ls_uev_append_ready := filter (\<lambda>l. \<not> flushed_lsi c s3 l) (ls_uev_append_ready s3),
                  ls_uev_replay_ready := filter (\<lambda>(l, d). \<not> flushed_lsi c s3 l) (ls_uev_replay_ready s3)\<rparr>
      in if \<not> isReadyToIssueInsts pr s4 then s4\<lparr>ls_uev_issue_inst := []\<rparr> else s4)"

end
