(* ===== verification/LsuInv.thy ===== *)
theory LsuInv
  imports LoadStoreUnit Credits
begin

text \<open>
  The invariant of the load/store unit. It speaks about a view of the state (\<open>lview\<close>): the queues, the entries in
  the pipeline and in pending events, the flags and iterators of the objects, and the credits sent so far; each
  operation of the unit is then an update of the view, and the lemmas \<open>vinv_*\<close> keep the invariant under these updates.
\<close>

section \<open>The view of the state that the invariant is about\<close>

record lview =
  v_inst :: heap
  v_next :: nat
  v_mem :: "lptr \<Rightarrow> mptr"
  v_flag :: "lptr \<Rightarrow> bool"
  v_ip :: "mptr \<Rightarrow> ptr option"
  v_ii :: "mptr \<Rightarrow> lptr option"
  v_ri :: "mptr \<Rightarrow> lptr option"
  v_q :: "lptr list"
  v_d :: "lptr list"
  v_r :: "lptr list"
  v_pl :: "lptr set"
  v_ev :: "lptr set"
  v_sent :: "mptr set"
  v_cr :: nat
  v_disp :: nat

fun event_credits :: "lsu_event \<Rightarrow> nat" where
  "event_credits (OutLsuCredits n) = n"
| "event_credits _ = 0"

definition lsu_credits :: "LSU \<Rightarrow> nat" where
  "lsu_credits s = sum_list (map event_credits (ls_out s))"

definition view :: "LSU \<Rightarrow> lview" where
  "view s = \<lparr>v_inst = w_inst s, v_next = w_next s, v_mem = (\<lambda>l. li_mem_access_info (w_lsi s l)),
     v_flag = (\<lambda>l. li_in_ready_queue (w_lsi s l)), v_ip = (\<lambda>m. mi_ldst_inst (w_mai s m)),
     v_ii = (\<lambda>m. mi_issue_queue_iterator (w_mai s m)), v_ri = (\<lambda>m. mi_replay_queue_iterator (w_mai s m)),
     v_q = ls_ldst_inst_queue s, v_d = ls_ready_queue s, v_r = ls_replay_buffer s,
     v_pl = {l. Some l \<in> set (ls_pipeline s) \<or> ls_pipeline_in s = Some l},
     v_ev = set (ls_uev_append_ready s) \<union> fst ` set (ls_uev_replay_ready s),
     v_sent = {m. OutMmuLookupReq m \<in> set (ls_out s) \<or> OutCacheLookupReq m \<in> set (ls_out s)},
     v_cr = lsu_credits s, v_disp = ls_insts_dispatched s\<rparr>"

definition vlive :: "lview \<Rightarrow> lptr set" where
  "vlive v = set (v_d v) \<union> set (v_r v) \<union> v_pl v \<union> v_ev v"

definition vip :: "lview \<Rightarrow> lptr \<Rightarrow> ptr" where
  "vip v l = the (v_ip v (v_mem v l))"

definition vinst :: "lview \<Rightarrow> lptr \<Rightarrow> Inst" where
  "vinst v l = v_inst v (vip v l)"

definition obj_inv :: "lview \<Rightarrow> bool" where
  "obj_inv v = (\<forall>l<v_next v. v_mem v l = l \<and> v_ip v l \<noteq> None \<and> v_ii v l \<in> {None, Some l} \<and> v_ri v l \<in> {None, Some l})"

definition queue_inv :: "lview \<Rightarrow> bool" where
  "queue_inv v =
     (distinct (v_q v) \<and> distinct (v_d v) \<and> distinct (v_r v) \<and> set (v_q v) \<union> vlive v \<subseteq> {..<v_next v} \<and>
      (\<forall>l\<in>set (v_q v). v_ii v l = Some l) \<and> (\<forall>l\<in>set (v_r v). v_ri v l = Some l) \<and>
      inj_on (vip v) (set (v_q v) \<union> vlive v) \<and> (\<forall>l\<in>set (v_d v). v_flag v l) \<and> set (v_d v) \<inter> set (v_r v) = {})"

definition status_inv :: "lview \<Rightarrow> bool" where
  "status_inv v =
     ((\<forall>l\<in>vlive v. SCHEDULED \<le> i_status (vinst v l) \<and>
        (\<not> i_is_store (vinst v l) \<and> i_status (vinst v l) = SCHEDULED \<longrightarrow> l \<in> set (v_q v))) \<and>
      (\<forall>l\<in>set (v_q v) \<union> vlive v. i_status (vinst v l) \<le> RETIRED) \<and>
      (\<forall>m\<in>v_sent v. m < v_next v \<and> SCHEDULED \<le> i_status (vinst v m)))"

text \<open>The last conjunct is the balance of credits: \<open>k\<close> is the capacity, up to the steps of a handler that are
  still to come.\<close>

definition vinv :: "bool \<Rightarrow> int \<Rightarrow> lview \<Rightarrow> bool" where
  "vinv spec k v =
     (obj_inv v \<and> queue_inv v \<and> status_inv v \<and> (\<not> spec \<longrightarrow> v_r v = []) \<and>
      int (v_cr v) + int (length (v_q v)) = k + int (v_disp v))"

definition lsu_inv :: "LSUParameterSet \<Rightarrow> int \<Rightarrow> LSU \<Rightarrow> bool" where
  "lsu_inv pr k s = vinv (lsp_allow_speculative_load_exec pr) k (view s)"

section \<open>The effect of the operations on the view\<close>

named_theorems view_simps \<open>the view after an operation\<close>

lemma view_sels [simp]:
  "v_inst (view s) = w_inst s" "v_next (view s) = w_next s" "v_q (view s) = ls_ldst_inst_queue s"
  "v_d (view s) = ls_ready_queue s" "v_r (view s) = ls_replay_buffer s"
  "v_mem (view s) l = li_mem_access_info (w_lsi s l)" "v_flag (view s) l = li_in_ready_queue (w_lsi s l)"
  "v_ip (view s) m = mi_ldst_inst (w_mai s m)" "v_ii (view s) m = mi_issue_queue_iterator (w_mai s m)"
  "v_ri (view s) m = mi_replay_queue_iterator (w_mai s m)"
  "v_cr (view s) = lsu_credits s" "v_disp (view s) = ls_insts_dispatched s"
  "vip (view s) l = ip_of s l" "vinst (view s) l = inst_of s l"
  by (simp_all add: view_def lsu_credits_def vip_def vinst_def ip_of_def mem_of_def inst_of_def)

lemma view_setPriority [view_simps]: "view (setPriority l r s) = view s"
  by (auto simp: view_def lsu_credits_def setPriority_def upd_lsi_def)

lemma view_setState [view_simps]: "view (setState l st s) = view s"
  by (auto simp: view_def lsu_credits_def setState_def upd_lsi_def)

lemma view_schedule_issue [view_simps]: "view (schedule_issue d s) = view s"
  by (auto simp: view_def lsu_credits_def schedule_issue_def)

lemma view_issue_if_ready [view_simps]: "view (issue_if_ready pr d s) = view s"
  by (auto simp: issue_if_ready_def view_simps)

lemma view_set_ready_unless_issued [view_simps]: "view (set_ready_unless_issued l s) = view s"
  by (auto simp: set_ready_unless_issued_def view_simps)

lemma view_counters [view_simps]:
  "view (s\<lparr>ls_insts_issued := n\<rparr>) = view s"
  "view (s\<lparr>ls_replay_insts := n\<rparr>) = view s" "view (s\<lparr>ls_insts_completed := n\<rparr>) = view s"
  "view (s\<lparr>ls_flushes := n\<rparr>) = view s" "view (s\<lparr>ls_callbacks := cb\<rparr>) = view s"
  "view (s\<lparr>ls_store_buffer := b, ls_stores_retired := n\<rparr>) = view s" "view (s\<lparr>ls_store_buffer := b\<rparr>) = view s"
  "view (s\<lparr>ls_uev_issue_inst := ds\<rparr>) = view s" "view (s\<lparr>ls_rob_stopped_simulation := b1\<rparr>) = view s"
  by (simp_all add: view_def lsu_credits_def)

lemma view_dispatched [view_simps]: "view (s\<lparr>ls_insts_dispatched := n\<rparr>) = (view s)\<lparr>v_disp := n\<rparr>"
  by (simp add: view_def lsu_credits_def)

lemma view_emit [view_simps]:
  "view (ls_emit (OutLsuCredits n) s) = (view s)\<lparr>v_cr := v_cr (view s) + n\<rparr>" "view (ls_emit (ScoreboardSetReady rf x) s) = view s"
  "view (ls_emit (ClearLsuCallbacks rf k) s) = view s" "view (ls_emit ScheduleRobRetire s) = view s"
  "view (ls_emit (OutMmuLookupReq m) s) = (view s)\<lparr>v_sent := insert m (v_sent (view s))\<rparr>"
  "view (ls_emit (OutCacheLookupReq m) s) = (view s)\<lparr>v_sent := insert m (v_sent (view s))\<rparr>"
  by (auto simp: view_def lsu_credits_def ls_emit_def)

lemma view_schedule_append_ready [view_simps]:
  "view (schedule_append_ready l s) = (view s)\<lparr>v_ev := insert l (v_ev (view s))\<rparr>"
  by (auto simp: view_def lsu_credits_def schedule_append_ready_def)

lemma view_upd_inst [view_simps]: "view (upd_inst p i s) = (view s)\<lparr>v_inst := (w_inst s)(p := i)\<rparr>"
  by (simp add: view_def lsu_credits_def upd_inst_def)

lemma view_upd_mai [view_simps]:
  "(\<And>x. mi_ldst_inst (f x) = mi_ldst_inst x) \<Longrightarrow> (\<And>x. mi_issue_queue_iterator (f x) = mi_issue_queue_iterator x) \<Longrightarrow>
   (\<And>x. mi_replay_queue_iterator (f x) = mi_replay_queue_iterator x) \<Longrightarrow> view (upd_mai m f s) = view s"
  by (auto simp: view_def lsu_credits_def upd_mai_def)

lemma view_set_inst_status:
  "set_inst_status p st s = Inr s' \<Longrightarrow> i_status (w_inst s p) < st \<and>
     view s' = (view s)\<lparr>v_inst := (w_inst s)(p := (w_inst s p)\<lparr>i_status := st\<rparr>)\<rparr>"
  by (auto simp: set_inst_status_def bindE_eq_Inr setStatus_ok_iff Let_def view_simps split: if_splits)

lemma set_inst_status_ok: "i_status (w_inst s p) < st \<Longrightarrow> is_ok (set_inst_status p st s)"
  by (simp add: set_inst_status_def setStatus_ok_iff)

lemma view_appendToReadyQueue:
  "appendToReadyQueue pqi l s = Inr s' \<Longrightarrow> l \<notin> set (ls_ready_queue s) \<and>
     view s' = (view s)\<lparr>v_d := pqi (lsi_less s) (ls_ready_queue s) l, v_flag := (v_flag (view s))(l := True)\<rparr>"
  by (auto simp: appendToReadyQueue_def view_def lsu_credits_def setState_def setInReadyQueue_def upd_lsi_def fun_eq_iff)

lemma appendToReadyQueue_ok: "l \<notin> set (ls_ready_queue s) \<Longrightarrow> is_ok (appendToReadyQueue pqi l s)"
  by (simp add: appendToReadyQueue_def)

lemma view_invalidate: "\<exists>P \<subseteq> v_pl (view s). view (invalidateStage k s) = (view s)\<lparr>v_pl := P\<rparr>"
proof (intro exI conjI)
  show "view (invalidateStage k s) = (view s)\<lparr>v_pl := v_pl (view (invalidateStage k s))\<rparr>"
    by (simp add: view_def lsu_credits_def invalidateStage_def)
  show "v_pl (view (invalidateStage k s)) \<subseteq> v_pl (view s)"
    by (auto simp: view_def lsu_credits_def invalidateStage_def dest: set_update_subset_insert[THEN subsetD])
qed

lemma view_drop: "\<exists>P \<subseteq> v_pl (view s). view (dropInstFromPipeline l s) = (view s)\<lparr>v_pl := P\<rparr>"
proof (cases "List.find (\<lambda>k. ls_stage s k = Some l) [0 ..< length (ls_pipeline s)]")
  case None
  then show ?thesis by (auto simp: dropInstFromPipeline_def)
next
  case (Some k)
  then show ?thesis using view_invalidate[of s k] by (simp add: dropInstFromPipeline_def)
qed

lemma view_pl_update: "\<exists>P \<subseteq> v_pl (view s). view (pl_update s) = (view s)\<lparr>v_pl := P\<rparr>"
proof (intro exI conjI)
  show "view (pl_update s) = (view s)\<lparr>v_pl := v_pl (view (pl_update s))\<rparr>"
    by (simp add: view_def lsu_credits_def pl_update_def)
  show "v_pl (view (pl_update s)) \<subseteq> v_pl (view s)"
    by (auto simp: view_def lsu_credits_def pl_update_def dest: in_set_takeD)
qed

lemma view_removeReplay:
  assumes "obj_inv (view s)" "l < w_next s"
    and "\<forall>l\<in>set (ls_replay_buffer s). mi_replay_queue_iterator (w_mai s l) = Some l"
  shows "view (removeInstFromReplayQueue l s) =
     (view s)\<lparr>v_r := remove1 l (ls_replay_buffer s), v_ri := (v_ri (view s))(l := None)\<rparr>"
proof -
  have mem: "li_mem_access_info (w_lsi s l) = l" using assms by (auto simp: obj_inv_def)
  have r: "(if iter_valid (mi_replay_queue_iterator (w_mai s l)) (ls_replay_buffer s)
      then s\<lparr>ls_replay_buffer := iter_erase (mi_replay_queue_iterator (w_mai s l)) (ls_replay_buffer s)\<rparr> else s)
    = s\<lparr>ls_replay_buffer := remove1 l (ls_replay_buffer s)\<rparr>"
  proof (cases "mi_replay_queue_iterator (w_mai s l)")
    case None
    with assms(3) have "l \<notin> set (ls_replay_buffer s)" by auto
    with None show ?thesis by (simp add: iter_valid_def remove1_idem)
  next
    case (Some k)
    with assms(1,2) have "k = l" by (auto simp: obj_inv_def)
    with Some show ?thesis by (simp add: iter_valid_def iter_erase_def remove1_idem)
  qed
  show ?thesis
    by (simp add: removeInstFromReplayQueue_def mem_of_def mem r setReplayQueueIterator_def upd_mai_def)
       (simp add: view_def lsu_credits_def fun_eq_iff)
qed

section \<open>Preservation, on views\<close>

text \<open>What the unit needs of the priority queue: an insertion adds one entry.\<close>

definition pqi_ok :: "((lptr \<Rightarrow> lptr \<Rightarrow> bool) \<Rightarrow> lptr list \<Rightarrow> lptr \<Rightarrow> lptr list) \<Rightarrow> bool" where
  "pqi_ok pqi = (\<forall>f q l. mset (pqi f q l) = add_mset l (mset q))"

lemma pqi_set: "pqi_ok pqi \<Longrightarrow> set (pqi f q l) = insert l (set q)"
  by (metis pqi_ok_def set_mset_add_mset_insert set_mset_mset)

lemma pqi_distinct: "pqi_ok pqi \<Longrightarrow> distinct q \<Longrightarrow> l \<notin> set q \<Longrightarrow> distinct (pqi f q l)"
  by (metis pqi_ok_def distinct.simps(2) mset.simps(2) mset_eq_imp_distinct_iff)

lemmas vinv_defs = vinv_def obj_inv_def queue_inv_def status_inv_def

lemma vlive_subset_next: "vinv spec k v \<Longrightarrow> l \<in> vlive v \<Longrightarrow> l < v_next v"
  by (auto simp: vinv_defs)

lemma vlive_status: "vinv spec k v \<Longrightarrow> l \<in> vlive v \<Longrightarrow> SCHEDULED \<le> i_status (vinst v l)"
  by (auto simp: vinv_defs)

lemma vinv_sent: "vinv spec k v \<Longrightarrow> m < v_next v \<Longrightarrow> SCHEDULED \<le> i_status (vinst v m) \<Longrightarrow> vinv spec k (v\<lparr>v_sent := insert m (v_sent v)\<rparr>)"
proof -
  assume v: "vinv spec k v" and m: "m < v_next v" "SCHEDULED \<le> i_status (vinst v m)"
  let ?v = "v\<lparr>v_sent := insert m (v_sent v)\<rparr>"
  have ip: "vip ?v = vip v" "vinst ?v = vinst v" "vlive ?v = vlive v"
    by (simp_all add: vip_def[abs_def] vinst_def[abs_def] vlive_def)
  show ?thesis using v m by (auto simp: vinv_defs ip)
qed

lemma vinv_less_live:
  assumes v: "vinv spec k v" and same: "v_inst v' = v_inst v" "v_next v' = v_next v" "v_mem v' = v_mem v" "v_ip v' = v_ip v"
      "v_ii v' = v_ii v" "v_ri v' = v_ri v" "v_sent v' = v_sent v" "v_q v' = v_q v" "v_r v' = v_r v" "v_cr v' = v_cr v" "v_disp v' = v_disp v"
    and d: "distinct (v_d v')" "set (v_d v') \<inter> set (v_r v) = {}" "\<forall>l\<in>set (v_d v'). v_flag v' l"
    and live: "vlive v' \<subseteq> vlive v \<union> {l \<in> set (v_q v). SCHEDULED \<le> i_status (vinst v l)}"
  shows "vinv spec k v'"
proof -
  have ip: "vip v' = vip v" "vinst v' = vinst v" using same by (simp_all add: vip_def[abs_def] vinst_def[abs_def])
  have sub: "set (v_q v') \<union> vlive v' \<subseteq> set (v_q v) \<union> vlive v" using live same by auto
  have o: "obj_inv v'" using v same by (simp add: vinv_defs)
  have q: "queue_inv v'"
    using v same d sub inj_on_subset[OF _ sub] by (auto simp: vinv_defs ip)
  have s: "status_inv v'"
    using v same live by (auto simp: vinv_defs ip)
  show ?thesis using v same o q s by (simp add: vinv_def)
qed

lemma vinv_pl:
  assumes "vinv spec k v" "P \<subseteq> vlive v"
  shows "vinv spec k (v\<lparr>v_pl := P\<rparr>)"
  using assms by (intro vinv_less_live[OF assms(1)]) (auto simp: vinv_defs vlive_def)

lemma vinv_ev:
  assumes "vinv spec k v" "E \<subseteq> vlive v \<union> {l \<in> set (v_q v). SCHEDULED \<le> i_status (vinst v l)}"
  shows "vinv spec k (v\<lparr>v_ev := E\<rparr>)"
  using assms by (intro vinv_less_live[OF assms(1)]) (auto simp: vinv_defs vlive_def)

lemma vinv_ready:
  assumes "vinv spec k v" "pqi_ok pqi" "l \<notin> set (v_d v)" "l \<notin> set (v_r v)"
    and "l \<in> vlive v \<or> l \<in> set (v_q v) \<and> SCHEDULED \<le> i_status (vinst v l)"
  shows "vinv spec k (v\<lparr>v_d := pqi f (v_d v) l, v_flag := (v_flag v)(l := True)\<rparr>)"
  using assms
  by (intro vinv_less_live[OF assms(1)])
     (auto simp: vinv_defs vlive_def pqi_set pqi_distinct)

lemma vinv_issue:
  assumes v: "vinv spec k v" and d: "v_d v = l # rest"
  shows "vinv spec k (v\<lparr>v_d := rest, v_pl := insert l (v_pl v), v_flag := (v_flag v)(l := False)\<rparr>)"
  using v d by (intro vinv_less_live[OF v]) (auto simp: vinv_defs vlive_def)

lemma vinv_replay_add:
  assumes v: "vinv True k v" and l: "l \<in> vlive v" "l \<notin> set (v_d v)" "l \<notin> set (v_r v)"
  shows "vinv True k (v\<lparr>v_r := v_r v @ [l], v_ri := (v_ri v)(l := Some l)\<rparr>)"
proof -
  let ?v = "v\<lparr>v_r := v_r v @ [l], v_ri := (v_ri v)(l := Some l)\<rparr>"
  have ip: "vip ?v = vip v" "vinst ?v = vinst v" by (simp_all add: vip_def[abs_def] vinst_def[abs_def])
  have live: "vlive ?v = vlive v" using l by (auto simp: vlive_def)
  show ?thesis using v l by (auto simp: vinv_defs ip live)
qed

lemma vinv_replay_remove:
  assumes v: "vinv spec k v"
  shows "vinv spec k (v\<lparr>v_r := remove1 l (v_r v), v_ri := (v_ri v)(l := None)\<rparr>)"
proof -
  let ?v = "v\<lparr>v_r := remove1 l (v_r v), v_ri := (v_ri v)(l := None)\<rparr>"
  have ip: "vip ?v = vip v" "vinst ?v = vinst v" by (simp_all add: vip_def[abs_def] vinst_def[abs_def])
  have dr: "distinct (v_r v)" using v by (simp add: vinv_defs)
  then have r: "set (remove1 l (v_r v)) = set (v_r v) - {l}" by simp
  have live: "vlive ?v \<subseteq> vlive v" using r by (auto simp: vlive_def)
  have sub: "set (v_q v) \<union> vlive ?v \<subseteq> set (v_q v) \<union> vlive v" using live by auto
  have o: "obj_inv ?v" using v by (auto simp: vinv_defs)
  have q: "queue_inv ?v"
    using v r dr sub live inj_on_subset[OF _ sub] by (auto simp: vinv_defs ip)
  have s: "status_inv ?v" using v live by (auto simp: vinv_defs ip)
  have "\<not> spec \<longrightarrow> v_r ?v = []" using v by (auto simp: vinv_defs)
  with o q s v show ?thesis by (simp add: vinv_def)
qed

text \<open>Statuses move forward; those of the entries of the unit not beyond \<^term>\<open>RETIRED\<close>.\<close>

lemma vinv_status:
  assumes v: "vinv spec k v"
    and st: "\<And>p. i_is_store (h p) = i_is_store (v_inst v p)"
    and sent: "\<And>p. SCHEDULED \<le> i_status (v_inst v p) \<Longrightarrow> SCHEDULED \<le> i_status (h p)"
    and fwd: "\<And>l. l \<in> set (v_q v) \<union> vlive v \<Longrightarrow> i_status (h (vip v l)) \<le> RETIRED \<and>
       (l \<in> vlive v \<and> i_status (h (vip v l)) = SCHEDULED \<longrightarrow> i_status (vinst v l) = SCHEDULED)"
  shows "vinv spec k (v\<lparr>v_inst := h\<rparr>)"
proof -
  let ?v = "v\<lparr>v_inst := h\<rparr>"
  have ip: "vip ?v = vip v" by (simp_all add: vip_def[abs_def])
  have live: "vlive ?v = vlive v" by (simp add: vlive_def)
  have i: "vinst ?v l = h (vip v l)" for l by (simp add: vinst_def ip)
  have s1: "\<forall>l\<in>vlive v. SCHEDULED \<le> i_status (h (vip v l))"
    using v sent by (auto simp: vinv_defs vinst_def)
  have s2: "\<forall>l\<in>vlive v. \<not> i_is_store (h (vip v l)) \<and> i_status (h (vip v l)) = SCHEDULED \<longrightarrow> l \<in> set (v_q v)"
    using v st fwd by (auto simp: vinv_defs vinst_def)
  have s3: "\<forall>m\<in>v_sent v. m < v_next v \<and> SCHEDULED \<le> i_status (h (vip v m))"
    using v sent by (auto simp: vinv_defs vinst_def)
  have "status_inv ?v" using s1 s2 s3 fwd unfolding status_inv_def live i by simp
  with v show ?thesis by (simp add: vinv_def obj_inv_def queue_inv_def live ip)
qed

text \<open>An entry leaves the issue queue: a store, or a load whose status is no longer \<^term>\<open>SCHEDULED\<close>.\<close>

lemma vinv_pop:
  assumes v: "vinv spec k v" and l: "l < v_next v" "i_is_store (vinst v l) \<or> i_status (vinst v l) \<noteq> SCHEDULED"
    and lq: "l \<in> set (v_q v)"
  shows "vinv spec (k - 1) (v\<lparr>v_q := remove1 l (v_q v), v_ii := (v_ii v)(l := None)\<rparr>)"
proof -
  let ?v = "v\<lparr>v_q := remove1 l (v_q v), v_ii := (v_ii v)(l := None)\<rparr>"
  have ip: "vip ?v = vip v" "vinst ?v = vinst v" by (simp_all add: vip_def[abs_def] vinst_def[abs_def])
  have live: "vlive ?v = vlive v" by (simp add: vlive_def)
  have dq: "distinct (v_q v)" using v by (simp add: vinv_defs)
  then have q: "set (remove1 l (v_q v)) = set (v_q v) - {l}" by simp
  have sub: "set (v_q ?v) \<union> vlive ?v \<subseteq> set (v_q v) \<union> vlive v" using q live by auto
  have "queue_inv ?v"
    using v q dq inj_on_subset[OF _ sub] by (auto simp: vinv_defs ip live)
  moreover have "status_inv ?v" using v l(2) q by (auto simp: vinv_defs ip live)
  moreover have "obj_inv ?v" using v by (auto simp: vinv_defs)
  moreover have "int (length (remove1 l (v_q v))) = int (length (v_q v)) - 1"
    using lq length_pos_if_in_set[OF lq] unfolding length_remove1 by (auto simp del: length_greater_0_conv)
  ultimately show ?thesis using v by (simp add: vinv_def)
qed


text \<open>New objects: an entry of the issue queue, and an entry of the store buffer.\<close>

lemma vinv_alloc:
  assumes v: "vinv spec k v" and n: "n = v_next v"
    and q: "q = v_q v \<and> ii = None \<or> q = v_q v @ [n] \<and> ii = Some n \<and> (\<forall>l<v_next v. v_ip v l \<noteq> Some p) \<and>
       i_status (v_inst v p) \<le> RETIRED"
  shows "vinv spec (k + int (length q) - int (length (v_q v))) (v\<lparr>v_next := Suc n, v_mem := (v_mem v)(n := n), v_flag := (v_flag v)(n := junk),
    v_ip := (v_ip v)(n := Some p), v_ii := (v_ii v)(n := ii), v_ri := (v_ri v)(n := None), v_q := q\<rparr>)"
    (is "vinv spec _ ?v")
proof -
  have live: "vlive ?v = vlive v" by (simp add: vlive_def)
  have lt: "l < n" if "l \<in> set (v_q v) \<union> vlive v" for l using v that by (auto simp: vinv_defs n)
  have ip: "vip ?v l = vip v l" "vinst ?v l = vinst v l" if "l < n" for l
    using v that by (auto simp: vinv_defs vip_def vinst_def n)
  have nq: "n \<notin> set (v_q v)" "n \<notin> vlive v" using lt[of n] by auto
  have ipn: "vip ?v n = p" by (simp add: vip_def)
  have inj: "inj_on (vip ?v) (set (v_q v) \<union> vlive v)"
    using v ip(1) lt by (auto simp: vinv_defs inj_on_def)
  have inj2: "inj_on (vip ?v) (insert n (set (v_q v) \<union> vlive v))" if "\<forall>l<v_next v. v_ip v l \<noteq> Some p"
  proof -
    have new: "vip v l \<noteq> p" if "l < n" for l
      using v that \<open>\<forall>l<v_next v. v_ip v l \<noteq> Some p\<close> by (auto simp: vinv_def obj_inv_def vip_def n)
    have "p \<notin> vip ?v ` (set (v_q v) \<union> vlive v)"
    proof
      assume "p \<in> vip ?v ` (set (v_q v) \<union> vlive v)"
      then obtain l where l: "l \<in> set (v_q v) \<union> vlive v" "p = vip ?v l" by (rule imageE)
      show False using l(2) ip(1)[OF lt[OF l(1)]] new[OF lt[OF l(1)]] by simp
    qed
    with inj show ?thesis by (subst inj_on_insert) (auto simp: ipn)
  qed
  have o: "obj_inv ?v" using v q by (auto simp: vinv_defs n less_Suc_eq)
  have bnd: "set (v_q ?v) \<union> vlive ?v \<subseteq> {..<v_next ?v}" using q lt by (auto simp: live less_Suc_eq)
  have dis: "distinct (v_q ?v)" using v q nq by (auto simp: vinv_defs)
  have ii: "\<forall>l\<in>set (v_q ?v). v_ii ?v l = Some l" using v q nq by (auto simp: vinv_defs)
  have ri: "\<forall>l\<in>set (v_r ?v). v_ri ?v l = Some l" using v nq by (auto simp: vinv_defs vlive_def)
  have fl: "\<forall>l\<in>set (v_d ?v). v_flag ?v l" using v nq by (auto simp: vinv_defs vlive_def)
  have "inj_on (vip ?v) (set (v_q ?v) \<union> vlive ?v)" using q inj inj2 by (auto simp: live)
  with bnd dis ii ri fl v have qi: "queue_inv ?v" by (simp add: vinv_def queue_inv_def)
  have st: "status_inv ?v"
    unfolding status_inv_def live
  proof (intro conjI ballI)
    fix l assume l: "l \<in> vlive v"
    then have "l < n" using lt by blast
    with v l q show "SCHEDULED \<le> i_status (vinst ?v l)"
      "\<not> i_is_store (vinst ?v l) \<and> i_status (vinst ?v l) = SCHEDULED \<longrightarrow> l \<in> set (v_q ?v)"
      by (auto simp: vinv_defs ip)
  next
    fix l assume l: "l \<in> set (v_q ?v) \<union> vlive v"
    show "i_status (vinst ?v l) \<le> RETIRED"
    proof (cases "l \<in> set (v_q v) \<union> vlive v")
      case True
      with ip(2)[OF lt[OF True]] v show ?thesis by (auto simp: vinv_defs)
    next
      case False
      with l q show ?thesis by (auto simp: vinst_def vip_def)
    qed
  next
    fix m assume "m \<in> v_sent ?v"
    then have m: "m < n" "SCHEDULED \<le> i_status (vinst v m)" using v by (auto simp: vinv_defs n)
    then show "m < v_next ?v" "SCHEDULED \<le> i_status (vinst ?v m)" by (simp_all add: ip)
  qed
  from o qi st v show ?thesis by (simp add: vinv_def)
qed

text \<open>A flush keeps the entries that satisfy \<open>K\<close>, everywhere.\<close>

lemma vinv_filter:
  assumes v: "vinv spec k v" and P: "P \<subseteq> v_pl v \<inter> Collect K" and E: "E \<subseteq> v_ev v \<inter> Collect K"
  shows "vinv spec (k - int (length (filter (\<lambda>l. \<not> K l) (v_q v)))) (v\<lparr>v_q := filter K (v_q v), v_d := filter K (v_d v), v_r := filter K (v_r v), v_pl := P, v_ev := E\<rparr>)"
    (is "vinv spec _ ?v")
proof -
  have ip: "vip ?v = vip v" "vinst ?v = vinst v" by (simp_all add: vip_def[abs_def] vinst_def[abs_def])
  have live: "vlive ?v \<subseteq> vlive v \<inter> Collect K" using P E by (auto simp: vlive_def)
  have sub: "set (v_q ?v) \<union> vlive ?v \<subseteq> set (v_q v) \<union> vlive v" using live by auto
  have q: "queue_inv ?v"
    using v live sub inj_on_subset[OF _ sub] by (auto simp: vinv_defs ip)
  have s: "status_inv ?v" using v live by (auto simp: vinv_defs ip)
  have "int (length (filter K (v_q v))) = int (length (v_q v)) - int (length (filter (\<lambda>l. \<not> K l) (v_q v)))"
    using sum_length_filter_compl[of K "v_q v"] by linarith
  with v q s show ?thesis by (auto simp: vinv_def obj_inv_def)
qed


text \<open>The two counters of the balance.\<close>

lemma vinv_balance:
  assumes v: "vinv spec k v" and c: "int c = int (v_cr v) + a" and d: "int d = int (v_disp v) + b"
  shows "vinv spec (k + a - b) (v\<lparr>v_cr := c, v_disp := d\<rparr>)"
proof -
  let ?v = "v\<lparr>v_cr := c, v_disp := d\<rparr>"
  have "vip ?v = vip v" "vinst ?v = vinst v" "vlive ?v = vlive v"
    by (simp_all add: vip_def[abs_def] vinst_def[abs_def] vlive_def)
  with v c d show ?thesis by (simp add: vinv_defs)
qed

lemma vinv_credit: "vinv spec k v \<Longrightarrow> vinv spec (k + int n) (v\<lparr>v_cr := v_cr v + n\<rparr>)"
  using vinv_balance[of spec k v "v_cr v + n" "int n" "v_disp v" 0] by simp

lemma vinv_disp: "vinv spec k v \<Longrightarrow> vinv spec (k - 1) (v\<lparr>v_disp := v_disp v + 1\<rparr>)"
  using vinv_balance[of spec k v "v_cr v" 0 "v_disp v + 1" 1] by simp

section \<open>Preservation, on the operations\<close>

lemma vip_upd [simp]:
  "vip (v\<lparr>v_inst := h\<rparr>) = vip v" "vip (v\<lparr>v_d := d\<rparr>) = vip v" "vip (v\<lparr>v_flag := f\<rparr>) = vip v"
  "vip (v\<lparr>v_r := r\<rparr>) = vip v" "vip (v\<lparr>v_ri := ri\<rparr>) = vip v" "vip (v\<lparr>v_pl := P\<rparr>) = vip v"
  "vip (v\<lparr>v_ev := E\<rparr>) = vip v" "vip (v\<lparr>v_sent := M\<rparr>) = vip v" "vip (v\<lparr>v_q := q\<rparr>) = vip v" "vip (v\<lparr>v_ii := ii\<rparr>) = vip v"
  by (simp_all add: vip_def[abs_def])

lemma vinst_upd [simp]:
  "vinst (v\<lparr>v_inst := h\<rparr>) l = h (vip v l)" "vinst (v\<lparr>v_d := d\<rparr>) = vinst v" "vinst (v\<lparr>v_flag := f\<rparr>) = vinst v"
  "vinst (v\<lparr>v_r := r\<rparr>) = vinst v" "vinst (v\<lparr>v_ri := ri\<rparr>) = vinst v" "vinst (v\<lparr>v_pl := P\<rparr>) = vinst v"
  "vinst (v\<lparr>v_ev := E\<rparr>) = vinst v" "vinst (v\<lparr>v_sent := M\<rparr>) = vinst v" "vinst (v\<lparr>v_q := q\<rparr>) = vinst v" "vinst (v\<lparr>v_ii := ii\<rparr>) = vinst v"
  by (simp_all add: vinst_def[abs_def])

definition live :: "LSU \<Rightarrow> lptr set" where
  "live s = vlive (view s)"

text \<open>An operation that leaves the view alone leaves everything the invariant speaks of alone.\<close>

lemma view_congD:
  assumes "view s' = view s"
  shows "lsu_inv pr k s' = lsu_inv pr k s" "live s' = live s" "ls_ldst_inst_queue s' = ls_ldst_inst_queue s"
    "ls_ready_queue s' = ls_ready_queue s" "ls_replay_buffer s' = ls_replay_buffer s" "w_inst s' = w_inst s"
    "inst_of s' l = inst_of s l" "ip_of s' l = ip_of s l" "w_next s' = w_next s"
    "li_in_ready_queue (w_lsi s' l) = li_in_ready_queue (w_lsi s l)"
  using assms by (simp add: lsu_inv_def, simp add: live_def, metis view_sels, metis view_sels, metis view_sels,
      metis view_sels, metis view_sels, metis view_sels, metis view_sels, metis view_sels)

lemma inv_facts:
  assumes "lsu_inv pr k s"
  shows "obj_inv (view s)" "distinct (ls_ldst_inst_queue s)" "distinct (ls_ready_queue s)" "distinct (ls_replay_buffer s)"
    "\<And>l. l \<in> live s \<Longrightarrow> l < w_next s" "\<And>l. l \<in> set (ls_ldst_inst_queue s) \<Longrightarrow> l < w_next s"
    "\<And>l. l \<in> set (ls_replay_buffer s) \<Longrightarrow> mi_replay_queue_iterator (w_mai s l) = Some l"
    "\<And>l. l \<in> set (ls_ready_queue s) \<Longrightarrow> li_in_ready_queue (w_lsi s l)"
    "set (ls_ready_queue s) \<inter> set (ls_replay_buffer s) = {}"
    "\<And>l. l \<in> live s \<Longrightarrow> SCHEDULED \<le> i_status (inst_of s l)"
    "\<And>l. l \<in> live s \<Longrightarrow> \<not> i_is_store (inst_of s l) \<Longrightarrow> i_status (inst_of s l) = SCHEDULED \<Longrightarrow> l \<in> set (ls_ldst_inst_queue s)"
    "\<not> lsp_allow_speculative_load_exec pr \<Longrightarrow> ls_replay_buffer s = []"
    "inj_on (ip_of s) (set (ls_ldst_inst_queue s) \<union> live s)"
    "\<And>m. m \<in> v_sent (view s) \<Longrightarrow> m < w_next s \<and> SCHEDULED \<le> i_status (inst_of s m)"
    "\<And>l. l < w_next s \<Longrightarrow> li_mem_access_info (w_lsi s l) = l"
    "\<And>l. l < w_next s \<Longrightarrow> mi_replay_queue_iterator (w_mai s l) \<in> {None, Some l}"
    "\<And>l. l < w_next s \<Longrightarrow> mi_issue_queue_iterator (w_mai s l) \<in> {None, Some l}"
    "\<And>l. l \<in> set (ls_ldst_inst_queue s) \<Longrightarrow> mi_issue_queue_iterator (w_mai s l) = Some l"
    "\<And>l. l \<in> set (ls_ldst_inst_queue s) \<union> live s \<Longrightarrow> i_status (inst_of s l) \<le> RETIRED"
proof -
  show "obj_inv (view s)" using assms by (simp add: lsu_inv_def vinv_def)
qed (insert assms, auto simp: lsu_inv_def vinv_defs live_def fun_eq_iff[symmetric] inj_on_def)

lemma live_memI:
  "l \<in> set (ls_ready_queue s) \<Longrightarrow> l \<in> live s" "l \<in> set (ls_replay_buffer s) \<Longrightarrow> l \<in> live s"
  "l \<in> set (ls_uev_append_ready s) \<Longrightarrow> l \<in> live s"
  by (simp_all add: live_def vlive_def view_def lsu_credits_def)

lemma live_replayI: "(l, d) \<in> set (ls_uev_replay_ready s) \<Longrightarrow> l \<in> live s"
  by (force simp: live_def vlive_def view_def lsu_credits_def)

lemma live_stageI: "ls_stage s k = Some l \<Longrightarrow> l \<in> live s"
proof -
  assume "ls_stage s k = Some l"
  then have "Some l \<in> set (ls_pipeline s)" by (metis ls_stage_def nth_mem option.distinct(1))
  then show ?thesis by (simp add: live_def vlive_def view_def lsu_credits_def)
qed

lemma issue_entry_view: "issue_entry s p = List.find (\<lambda>l. vip (view s) l = p) (v_q (view s))"
  by (simp add: issue_entry_def)

lemma issue_entryD: "issue_entry s p = Some l \<Longrightarrow> l \<in> set (ls_ldst_inst_queue s) \<and> ip_of s l = p"
  by (auto simp: issue_entry_def find_Some_iff)

lemma issue_entry_ip:
  assumes "lsu_inv pr k s" "l \<in> set (ls_ldst_inst_queue s)"
  shows "issue_entry s (ip_of s l) = Some l"
proof (cases "issue_entry s (ip_of s l)")
  case None
  with assms(2) show ?thesis by (auto simp: issue_entry_def find_None_iff)
next
  case (Some k)
  with issue_entryD[OF Some] assms inv_facts(13)[OF assms(1)] show ?thesis
    by (metis UnI1 inj_onD)
qed

lemma inv_ready:
  assumes "lsu_inv pr k s" "pqi_ok pqi" "appendToReadyQueue pqi l s = Inr s'" "l \<notin> set (ls_replay_buffer s)"
    and "l \<in> live s \<or> l \<in> set (ls_ldst_inst_queue s) \<and> SCHEDULED \<le> i_status (inst_of s l)"
  shows "lsu_inv pr k s'"
  using view_appendToReadyQueue[OF assms(3)] assms vinv_ready[of "lsp_allow_speculative_load_exec pr" k "view s" pqi l]
  by (auto simp: lsu_inv_def live_def)

lemma inv_event:
  assumes "lsu_inv pr k s" "l \<in> live s \<or> l \<in> set (ls_ldst_inst_queue s) \<and> SCHEDULED \<le> i_status (inst_of s l)"
  shows "lsu_inv pr k (schedule_append_ready l s)"
  using assms vinv_ev[of "lsp_allow_speculative_load_exec pr" k "view s" "insert l (v_ev (view s))"]
  by (auto simp: lsu_inv_def live_def view_simps vlive_def)

lemma inv_sub_pl:
  assumes "lsu_inv pr k s" "\<exists>P \<subseteq> v_pl (view s). view s' = (view s)\<lparr>v_pl := P\<rparr>"
  shows "lsu_inv pr k s'"
proof -
  from assms(2) obtain P where P: "P \<subseteq> v_pl (view s)" "view s' = (view s)\<lparr>v_pl := P\<rparr>" by blast
  then have "P \<subseteq> vlive (view s)" unfolding vlive_def by blast
  from vinv_pl[OF assms(1)[unfolded lsu_inv_def] this] P(2) show ?thesis by (simp add: lsu_inv_def)
qed

lemmas inv_invalidate = inv_sub_pl[OF _ view_invalidate]
lemmas inv_drop = inv_sub_pl[OF _ view_drop]
lemmas inv_pl_update = inv_sub_pl[OF _ view_pl_update]

lemma view_remove:
  assumes "lsu_inv pr k s" "l < w_next s"
  shows "view (removeInstFromReplayQueue l s) =
     (view s)\<lparr>v_r := remove1 l (ls_replay_buffer s), v_ri := (v_ri (view s))(l := None)\<rparr>"
  using inv_facts[OF assms(1)] assms(2) by (intro view_removeReplay) auto

lemma inv_remove:
  assumes "lsu_inv pr k s" "l < w_next s"
  shows "lsu_inv pr k (removeInstFromReplayQueue l s)"
  using view_remove[OF assms] assms(1) vinv_replay_remove[of "lsp_allow_speculative_load_exec pr" k "view s" l]
  by (simp add: lsu_inv_def)

lemma inv_remove_inst:
  assumes "lsu_inv pr k s"
  shows "lsu_inv pr k (removeInstFromReplayQueue_inst p s)"
proof -
  have "lsu_inv pr k (fold (\<lambda>l s1. if ip_of s1 l = p \<and> iter_valid (mi_replay_queue_iterator (mem_of s1 l)) (ls_replay_buffer s1)
      then removeInstFromReplayQueue l s1 else s1) ls s)" if "\<forall>l\<in>set ls. l < w_next s" for ls
    using assms that
  proof (induction ls arbitrary: s)
    case (Cons l ls)
    define s1 where "s1 = (if ip_of s l = p \<and> iter_valid (mi_replay_queue_iterator (mem_of s l)) (ls_replay_buffer s)
      then removeInstFromReplayQueue l s else s)"
    have l: "l < w_next s" using Cons.prems by simp
    have "lsu_inv pr k s1" using Cons.prems(1) inv_remove[OF Cons.prems(1) l] by (simp add: s1_def)
    moreover have "w_next s1 = w_next s"
      using arg_cong[OF view_remove[OF Cons.prems(1) l], of v_next] by (simp add: s1_def)
    ultimately show ?case using Cons by (simp add: s1_def)
  qed simp
  with inv_facts(6)[OF assms] show ?thesis by (simp add: removeInstFromReplayQueue_inst_def)
qed

text \<open>A status of one instruction moves forward to \<^term>\<open>SCHEDULED\<close> or beyond.\<close>

lemma inv_status:
  assumes "lsu_inv pr k s" "view s' = (view s)\<lparr>v_inst := (w_inst s)(p := (w_inst s p)\<lparr>i_status := st\<rparr>)\<rparr>"
    and "i_status (w_inst s p) < st" "SCHEDULED \<le> st" "st \<le> RETIRED"
  shows "lsu_inv pr k s'"
proof -
  let ?h = "(w_inst s)(p := (w_inst s p)\<lparr>i_status := st\<rparr>)"
  have "vinv (lsp_allow_speculative_load_exec pr) k ((view s)\<lparr>v_inst := ?h\<rparr>)"
  proof (rule vinv_status)
    fix l assume l: "l \<in> set (v_q (view s)) \<union> vlive (view s)"
    show "i_status (?h (vip (view s) l)) \<le> RETIRED \<and> (l \<in> vlive (view s) \<and> i_status (?h (vip (view s) l)) = SCHEDULED
        \<longrightarrow> i_status (vinst (view s) l) = SCHEDULED)"
      using l assms(3,5) inv_facts(10,19)[OF assms(1), of l]
      by (cases "ip_of s l = p") (auto simp: inst_of_def live_def)
  qed (use assms in \<open>auto simp: lsu_inv_def\<close>)
  with assms(2) show ?thesis by (simp add: lsu_inv_def)
qed

end
