(* ===== verification/LsuFlow.thy ===== *)
theory LsuFlow
  imports LsuInv
begin

text \<open>
  Every handler of the load/store unit keeps the invariant, and the handlers succeed under it: dispatch, retire and
  issue; replay and pending events; the answers of the MMU and the abort of younger loads; the cache stages; completion;
  and the flush.
\<close>

section \<open>Dispatch\<close>

lemma w_inst_set: "w_inst (setPriority l r s) = w_inst s" "w_inst (setState l st s) = w_inst s"
  by (simp_all add: setPriority_def setState_def upd_lsi_def)

lemma view_newDispatch:
  "updateIssuePriorityAfterNewDispatch p s = Inr s' \<Longrightarrow>
   \<exists>l. issue_entry s p = Some l \<and> i_status (w_inst s p) < SCHEDULED \<and>
       view s' = (view s)\<lparr>v_inst := (w_inst s)(p := (w_inst s p)\<lparr>i_status := SCHEDULED\<rparr>)\<rparr>"
  by (auto simp: updateIssuePriorityAfterNewDispatch_def setStatus_ok_iff view_simps w_inst_set split: option.splits if_splits)

lemma newDispatch_ok:
  "issue_entry s p = Some l \<Longrightarrow> i_status (w_inst s p) < SCHEDULED \<Longrightarrow> is_ok (updateIssuePriorityAfterNewDispatch p s)"
  by (simp add: updateIssuePriorityAfterNewDispatch_def setStatus_ok_iff)

text \<open>An instruction that becomes ready is marked scheduled and its entry enters the ready queue.\<close>

lemma inv_schedule_entry:
  assumes inv: "lsu_inv pr k s" and pqi: "pqi_ok pqi" and l: "issue_entry s p = Some l"
    and up: "updateIssuePriorityAfterNewDispatch p s = Inr s1"
  shows "is_ok (appendToReadyQueue pqi l s1)" "appendToReadyQueue pqi l s1 = Inr s2 \<Longrightarrow> lsu_inv pr k s2"
    "ls_ldst_inst_queue s1 = ls_ldst_inst_queue s" "issue_entry s1 p = Some l"
    "appendToReadyQueue pqi l s1 = Inr s2 \<Longrightarrow> ls_ldst_inst_queue s2 = ls_ldst_inst_queue s"
proof -
  from view_newDispatch[OF up] l have st: "i_status (w_inst s p) < SCHEDULED"
    and v: "view s1 = (view s)\<lparr>v_inst := (w_inst s)(p := (w_inst s p)\<lparr>i_status := SCHEDULED\<rparr>)\<rparr>" by auto
  from issue_entryD[OF l] have q: "l \<in> set (ls_ldst_inst_queue s)" "ip_of s l = p" by auto
  have nl: "l \<notin> live s" using inv_facts(10)[OF inv, of l] st q by (auto simp: inst_of_def)
  have sel: "ls_ldst_inst_queue s1 = ls_ldst_inst_queue s" "ls_replay_buffer s1 = ls_replay_buffer s"
    "ls_ready_queue s1 = ls_ready_queue s"
    using arg_cong[OF v, of v_q] arg_cong[OF v, of v_r] arg_cong[OF v, of v_d] by simp_all
  have i: "i_status (inst_of s1 l) = SCHEDULED"
    using arg_cong[OF v, of "\<lambda>x. vinst x l"] q(2) by simp
  have inv1: "lsu_inv pr k s1" using inv_status[OF inv v st] by (simp add: less_eq_Status_def)
  show "is_ok (appendToReadyQueue pqi l s1)" using nl live_memI(1) sel by (intro appendToReadyQueue_ok) auto
  show "lsu_inv pr k s2" if "appendToReadyQueue pqi l s1 = Inr s2"
    using inv_ready[OF inv1 pqi that] nl live_memI(2) sel q i by auto
  show "ls_ldst_inst_queue s1 = ls_ldst_inst_queue s" by (rule sel)
  show "issue_entry s1 p = Some l" using l by (simp add: issue_entry_view v)
  show "ls_ldst_inst_queue s2 = ls_ldst_inst_queue s" if "appendToReadyQueue pqi l s1 = Inr s2"
    using arg_cong[OF conjunct2[OF view_appendToReadyQueue[OF that]], of v_q] sel by simp
qed

lemma view_operand_check: "view (snd (operand_check pr sb p s)) = view s"
  by (simp add: operand_check_def check_store_data_def regfiles_def view_simps)

lemma inv_handleOperandIssueCheck:
  assumes inv: "lsu_inv pr k s" and pqi: "pqi_ok pqi" and h: "ls_handleOperandIssueCheck pqi pr sb p s = Inr s'"
  shows "lsu_inv pr k s'"
proof (cases "i_status (w_inst s p) = SCHEDULED")
  case True
  with h inv show ?thesis by (simp add: ls_handleOperandIssueCheck_def)
next
  case False
  obtain b s1 where oc: "operand_check pr sb p s = (b, s1)" by (cases "operand_check pr sb p s")
  have v1: "view s1 = view s" using view_operand_check[of pr sb p s] oc by simp
  have inv1: "lsu_inv pr k s1" using view_congD(1)[OF v1] inv by simp
  show ?thesis
  proof (cases b)
    case False
    with h oc inv1 \<open>i_status (w_inst s p) \<noteq> SCHEDULED\<close> show ?thesis by (simp add: ls_handleOperandIssueCheck_def)
  next
    case True
    with h oc \<open>i_status (w_inst s p) \<noteq> SCHEDULED\<close> obtain s2 s3 where
      up: "updateIssuePriorityAfterNewDispatch p s1 = Inr s2" and ap: "appendToReadyQueue_inst pqi p s2 = Inr s3"
      and s': "s' = issue_if_ready pr 0 s3"
      by (auto simp: ls_handleOperandIssueCheck_def bindE_eq_Inr)
    from view_newDispatch[OF up] obtain l where l: "issue_entry s1 p = Some l" by blast
    note e = inv_schedule_entry[OF inv1 pqi l up]
    from ap e(4) have "appendToReadyQueue pqi l s2 = Inr s3" by (simp add: appendToReadyQueue_inst_def)
    from e(2)[OF this] show ?thesis using view_congD(1)[OF view_issue_if_ready] s' by simp
  qed
qed

lemma view_alloc_queue:
  "allocateInstToIssueQueue pr junk p s = Inr s' \<Longrightarrow> length (ls_ldst_inst_queue s) < lsp_ldst_inst_queue_size pr \<and>
     view s' = (view s)\<lparr>v_next := Suc (w_next s), v_mem := (v_mem (view s))(w_next s := w_next s),
       v_flag := (v_flag (view s))(w_next s := junk), v_ip := (v_ip (view s))(w_next s := Some p),
       v_ii := (v_ii (view s))(w_next s := Some (w_next s)), v_ri := (v_ri (view s))(w_next s := None),
       v_q := ls_ldst_inst_queue s @ [w_next s]\<rparr>"
  by (auto simp: allocateInstToIssueQueue_def createLoadStoreInst_def Let_def setIssueQueueIterator_def upd_mai_def
      mk_MemoryAccessInfo_def mk_LoadStoreInstInfo_def view_def lsu_credits_def fun_eq_iff)

lemma view_alloc_store:
  "allocateInstToStoreBuffer pr junk p s = Inr s' \<Longrightarrow>
     view s' = (view s)\<lparr>v_next := Suc (w_next s), v_mem := (v_mem (view s))(w_next s := w_next s),
       v_flag := (v_flag (view s))(w_next s := junk), v_ip := (v_ip (view s))(w_next s := Some p),
       v_ii := (v_ii (view s))(w_next s := None), v_ri := (v_ri (view s))(w_next s := None),
       v_q := ls_ldst_inst_queue s\<rparr>"
  by (auto simp: allocateInstToStoreBuffer_def createLoadStoreInst_def Let_def
      mk_MemoryAccessInfo_def mk_LoadStoreInstInfo_def view_def lsu_credits_def fun_eq_iff)

lemma inv_dispatch:
  assumes inv: "lsu_inv pr k s" and pqi: "pqi_ok pqi" and fresh: "\<forall>l<w_next s. mi_ldst_inst (w_mai s l) \<noteq> Some p"
    and p: "i_status (w_inst s p) = DISPATCHED" and h: "getInstsFromDispatch pqi pr sb j1 j2 p s = Inr s'"
  shows "lsu_inv pr k s'"
proof -
  from h obtain s1 s2 s3 where
    a: "allocateInstToIssueQueue pr j1 p s = Inr s1"
    and b: "(if i_is_store (w_inst s1 p) then allocateInstToStoreBuffer pr j2 p s1 else Inr s1) = Inr s2"
    and c: "ls_handleOperandIssueCheck pqi pr sb p s2 = Inr s3"
    and s': "s' = s3\<lparr>ls_insts_dispatched := ls_insts_dispatched s3 + 1\<rparr>"
    unfolding getInstsFromDispatch_def by (auto elim!: bindE_InrE)
  have 1: "lsu_inv pr (k + 1) s1"
    using vinv_alloc[of _ k "view s" "w_next s" "ls_ldst_inst_queue s @ [w_next s]" "Some (w_next s)" p j1]
      view_alloc_queue[OF a] inv fresh p by (simp add: lsu_inv_def less_eq_Status_def)
  have 2: "lsu_inv pr (k + 1) s2"
  proof (cases "i_is_store (w_inst s1 p)")
    case True
    with b have "allocateInstToStoreBuffer pr j2 p s1 = Inr s2" by simp
    with view_alloc_store[OF this] 1
      vinv_alloc[of _ "k + 1" "view s1" "w_next s1" "ls_ldst_inst_queue s1" None p j2] show ?thesis
      by (simp add: lsu_inv_def)
  qed (use b 1 in simp)
  from inv_handleOperandIssueCheck[OF 2 pqi c] show ?thesis
    using vinv_disp[of _ "k + 1" "view s3"] by (simp add: lsu_inv_def s' view_simps)
qed

section \<open>Retirement and issue\<close>

lemma inv_ack_rob:
  assumes inv: "lsu_inv pr k s" and h: "getAckFromROB_lsu pr p s = Inr s'"
  shows "lsu_inv pr k s'"
proof -
  from h obtain s1 s2 where st: "i_status (w_inst s p) = RETIRED"
    and s1: "s1 = s \<or> (\<exists>b n. s1 = s\<lparr>ls_store_buffer := b, ls_stores_retired := n\<rparr>)"
    and up: "updateIssuePriorityAfterStoreInstRetire p s1 = Inr s2" and s': "s' = issue_if_ready pr 0 s2"
    unfolding getAckFromROB_lsu_def by (auto elim!: bindE_InrE split: if_splits)
  have v1: "view s1 = view s" using s1 view_counters(6) by blast
  have inv1: "lsu_inv pr k s1" using view_congD(1)[OF v1] inv by simp
  from up obtain l where l: "issue_entry s1 p = Some l"
    and s2: "s2 = schedule_append_ready l (setPriority l CACHE_PENDING (set_ready_unless_issued l s1))"
    by (auto simp: updateIssuePriorityAfterStoreInstRetire_def split: option.splits)
  let ?s = "setPriority l CACHE_PENDING (set_ready_unless_issued l s1)"
  have v: "view ?s = view s1" by (simp add: view_simps)
  from issue_entryD[OF l] st view_congD(6)[OF v1]
  have "l \<in> set (ls_ldst_inst_queue s1)" "i_status (inst_of s1 l) = RETIRED" by (auto simp: inst_of_def)
  then have "lsu_inv pr k s2"
    unfolding s2 using inv1 by (intro inv_event) (simp_all add: view_congD[OF v] less_eq_Status_def)
  then show ?thesis using view_congD(1)[OF view_issue_if_ready] s' by simp
qed

lemma issueInst_ok_inv:
  assumes inv: "lsu_inv pr k s" and r: "isReadyToIssueInsts pr s" and i: "ls_pipeline_in s = None"
  shows "is_ok (issueInst pr s)"
proof -
  from r obtain l rest where d: "ls_ready_queue s = l # rest"
    by (auto simp: isReadyToIssueInsts_def neq_Nil_conv split: if_splits)
  have "l < w_next s" "l \<notin> set (ls_replay_buffer s)"
    using inv_facts(5,9)[OF inv] live_memI(1)[of l s] d by auto
  then have "\<not> iter_valid (mi_replay_queue_iterator (w_mai s l)) (ls_replay_buffer s)"
    using inv_facts(16)[OF inv, of l] by (auto simp: iter_valid_def)
  moreover have "li_mem_access_info (w_lsi s l) = l" using inv_facts(15)[OF inv] \<open>l < w_next s\<close> by simp
  ultimately show ?thesis
    using r i by (auto simp: issueInst_def arbitrateInstIssue_def d pl_append_def appendToReplayQueue_def mem_of_def
        isReadyToIssueInsts_def split: if_splits)
qed

lemma inv_issueInst:
  assumes inv: "lsu_inv pr k s" and h: "issueInst pr s = Inr s'"
  shows "lsu_inv pr k s'"
proof -
  from h obtain l s1 s2 s3 where ar: "arbitrateInstIssue s = Inr (l, s1)"
    and pa: "pl_append l (s1\<lparr>ls_insts_issued := ls_insts_issued s1 + 1\<rparr>) = Inr s2"
    and rp: "(if lsp_allow_speculative_load_exec pr then appendToReplayQueue pr l s2 else Inr s2) = Inr s3"
    and s': "s' = issue_if_ready pr 1 (setPriority l LOWEST (setState l IS_ISSUED (setInReadyQueue l False s3)))"
    unfolding issueInst_def by (auto elim!: bindE_InrE)
  from ar obtain rest where d: "ls_ready_queue s = l # rest" and s1: "s1 = s\<lparr>ls_ready_queue := rest\<rparr>"
    by (auto simp: arbitrateInstIssue_def split: list.splits)
  have s2: "view s2 = (view s)\<lparr>v_d := rest, v_pl := insert l (v_pl (view s))\<rparr>"
    using pa s1 by (auto simp: pl_append_def view_def lsu_credits_def split: option.splits)
  have l: "l < w_next s" "l \<notin> set (ls_replay_buffer s)" "l \<notin> set rest"
    using inv_facts(3,5,9)[OF inv] live_memI(1)[of l s] d by auto
  have mem: "li_mem_access_info (w_lsi s2 l) = l"
    using inv_facts(15)[OF inv l(1)] arg_cong[OF s2, of "\<lambda>v. v_mem v l"] by simp
  let ?v = "(view s)\<lparr>v_d := rest, v_pl := insert l (v_pl (view s)), v_flag := (v_flag (view s))(l := False)\<rparr>"
  have i: "vinv (lsp_allow_speculative_load_exec pr) k ?v"
    using vinv_issue[of _ k "view s" l rest] inv d by (simp add: lsu_inv_def)
  have fl: "view (setInReadyQueue l False s3) = (view s3)\<lparr>v_flag := (v_flag (view s3))(l := False)\<rparr>"
    by (auto simp: view_def lsu_credits_def setInReadyQueue_def upd_lsi_def fun_eq_iff)
  show ?thesis
  proof (cases "lsp_allow_speculative_load_exec pr")
    case False
    with rp s2 fl i have "vinv False k (view s')" by (simp add: s' view_simps)
    with False show ?thesis by (simp add: lsu_inv_def)
  next
    case True
    with rp have "view s3 = (view s2)\<lparr>v_r := v_r (view s2) @ [l], v_ri := (v_ri (view s2))(l := Some l)\<rparr>"
      by (auto simp: appendToReplayQueue_def setReplayQueueIterator_def upd_mai_def mem view_def lsu_credits_def fun_eq_iff)
    with s2 fl have "view s' = ?v\<lparr>v_r := v_r ?v @ [l], v_ri := (v_ri ?v)(l := Some l)\<rparr>"
      by (simp add: s' view_simps)
    moreover have "vinv True k (?v\<lparr>v_r := v_r ?v @ [l], v_ri := (v_ri ?v)(l := Some l)\<rparr>)"
      using i True l by (intro vinv_replay_add) (auto simp: vlive_def)
    ultimately show ?thesis using True by (simp add: lsu_inv_def)
  qed
qed

section \<open>Replay and ready events\<close>

lemma inv_sub_ev:
  assumes "lsu_inv pr k s" "view s' = (view s)\<lparr>v_ev := E\<rparr>" "E \<subseteq> live s"
  shows "lsu_inv pr k s'"
  using assms vinv_ev[of "lsp_allow_speculative_load_exec pr" k "view s" E] by (auto simp: lsu_inv_def live_def)

lemma view_replayReady: "view (replayReady pr l s) = (view s)\<lparr>v_ev := insert l (v_ev (view s))\<rparr>"
  by (simp add: replayReady_def Let_def view_simps)

lemma inv_replayReady:
  assumes inv: "lsu_inv pr k s" and l: "(l, d) \<in> set (ls_uev_replay_ready s)"
  shows "lsu_inv pr k (replayReady pr l (s\<lparr>ls_uev_replay_ready := remove1 (l, d) (ls_uev_replay_ready s)\<rparr>))"
proof (rule inv_sub_ev[OF inv])
  let ?s = "s\<lparr>ls_uev_replay_ready := remove1 (l, d) (ls_uev_replay_ready s)\<rparr>"
  show "view (replayReady pr l ?s) = (view s)\<lparr>v_ev := insert l (v_ev (view ?s))\<rparr>"
    by (simp add: view_replayReady) (simp add: view_def lsu_credits_def)
  have "v_ev (view ?s) \<subseteq> v_ev (view s)"
    using set_remove1_subset[of "(l, d)" "ls_uev_replay_ready s"] by (auto simp: view_def lsu_credits_def)
  then show "insert l (v_ev (view ?s)) \<subseteq> live s" using live_replayI[OF l] by (auto simp: live_def vlive_def)
qed

lemma replay_iter_iff:
  "lsu_inv pr k s \<Longrightarrow> l < w_next s \<Longrightarrow>
   iter_valid (mi_replay_queue_iterator (mem_of s l)) (ls_replay_buffer s) \<longleftrightarrow> l \<in> set (ls_replay_buffer s)"
  using inv_facts(7,15,16)[of pr k s l] by (auto simp: iter_valid_def mem_of_def split: option.splits)

lemma appendReady_ok_inv:
  assumes inv: "lsu_inv pr k s" and pqi: "pqi_ok pqi" and l: "l \<in> set (ls_uev_append_ready s)"
  shows "\<exists>s'. appendReady pqi pr l (s\<lparr>ls_uev_append_ready := remove1 l (ls_uev_append_ready s)\<rparr>) = Inr s' \<and> lsu_inv pr k s'"
proof -
  let ?s = "s\<lparr>ls_uev_append_ready := remove1 l (ls_uev_append_ready s)\<rparr>"
  define E where "E = v_ev (view ?s)"
  have vs: "view ?s = (view s)\<lparr>v_ev := E\<rparr>" by (simp add: E_def) (simp add: view_def lsu_credits_def)
  have E: "E \<subseteq> vlive (view s)"
    using set_remove1_subset[of l "ls_uev_append_ready s"] by (auto simp: E_def view_def lsu_credits_def vlive_def)
  have inv0: "lsu_inv pr k ?s" using inv_sub_ev[OF inv vs] E by (simp add: live_def)
  have ll: "l \<in> live s" "l < w_next s" using live_memI(3)[OF l] inv_facts(5)[OF inv] by auto
  show ?thesis
  proof (cases "\<not> li_in_ready_queue (w_lsi s l) \<and> l \<notin> set (ls_replay_buffer s)")
    case False
    then have "appendReady pqi pr l ?s = Inr (issue_if_ready pr 0 ?s)"
      using replay_iter_iff[OF inv ll(2)] by (auto simp: appendReady_def mem_of_def)
    with inv0 view_congD(1)[OF view_issue_if_ready] show ?thesis by simp
  next
    case True
    then have d: "l \<notin> set (ls_ready_queue s)" using inv_facts(8)[OF inv] by blast
    from appendToReadyQueue_ok[of l ?s pqi] d obtain s1 where s1: "appendToReadyQueue pqi l ?s = Inr s1"
      by (auto simp: is_ok_iff)
    let ?v = "(view s)\<lparr>v_d := pqi (lsi_less ?s) (v_d (view s)) l, v_flag := (v_flag (view s))(l := True)\<rparr>"
    have "vinv (lsp_allow_speculative_load_exec pr) k ?v"
      using inv True d ll pqi by (intro vinv_ready) (auto simp: lsu_inv_def live_def)
    moreover have "view s1 = ?v\<lparr>v_ev := E\<rparr>" using view_appendToReadyQueue[OF s1] vs by simp
    moreover have "E \<subseteq> vlive ?v" using E pqi by (auto simp: vlive_def pqi_set)
    ultimately have "lsu_inv pr k s1" using vinv_ev[of _ k ?v E] by (auto simp: lsu_inv_def)
    moreover have "appendReady pqi pr l ?s = Inr (issue_if_ready pr 0 s1)"
      using True replay_iter_iff[OF inv ll(2)] s1 by (simp add: appendReady_def mem_of_def)
    ultimately show ?thesis using view_congD(1)[OF view_issue_if_ready] by simp
  qed
qed

section \<open>Address translation\<close>

lemma pipeline_newDispatch: "updateIssuePriorityAfterNewDispatch p s = Inr s' \<Longrightarrow> ls_pipeline s' = ls_pipeline s"
  by (auto simp: updateIssuePriorityAfterNewDispatch_def setStatus_ok_iff setPriority_def setState_def upd_lsi_def upd_inst_def
      split: option.splits if_splits)

lemma pipeline_appendToReadyQueue: "appendToReadyQueue pqi l s = Inr s' \<Longrightarrow> ls_pipeline s' = ls_pipeline s"
  by (auto simp: appendToReadyQueue_def setState_def setInReadyQueue_def upd_lsi_def)

lemma ready_dependent_load_ok_inv:
  assumes inv: "lsu_inv pr k s" and pqi: "pqi_ok pqi" and l: "l \<in> set (ls_ldst_inst_queue s)"
  shows "\<exists>f s'. ready_dependent_load pqi sb (found, s) l = Inr (f, s') \<and> lsu_inv pr k s' \<and>
           ls_ldst_inst_queue s' = ls_ldst_inst_queue s \<and> ls_pipeline s' = ls_pipeline s"
proof (cases "\<not> i_is_store (inst_of s l) \<and> i_status (inst_of s l) = DISPATCHED \<and> instOperandReady sb s (ip_of s l)")
  case False
  with inv show ?thesis by (auto simp: ready_dependent_load_def)
next
  case True
  have e: "issue_entry s (ip_of s l) = Some l" by (rule issue_entry_ip[OF inv l])
  from True have st: "i_status (w_inst s (ip_of s l)) < SCHEDULED" by (auto simp: inst_of_def less_Status_def)
  from newDispatch_ok[OF e st] obtain s1 where s1: "updateIssuePriorityAfterNewDispatch (ip_of s l) s = Inr s1"
    by (auto simp: is_ok_iff)
  note en = inv_schedule_entry[OF inv pqi e s1]
  from en(1) obtain s2 where "appendToReadyQueue pqi l s1 = Inr s2" by (auto simp: is_ok_iff)
  with en(2,5) True s1 pipeline_newDispatch[OF s1] pipeline_appendToReadyQueue show ?thesis
    by (auto simp: ready_dependent_load_def)
qed

lemma readyDependentLoads_ok_inv:
  assumes inv: "lsu_inv pr k s" and pqi: "pqi_ok pqi"
  shows "\<exists>s'. readyDependentLoads pqi pr sb s = Inr s' \<and> lsu_inv pr k s' \<and> ls_pipeline s' = ls_pipeline s"
proof -
  let ?I = "\<lambda>(fs :: bool \<times> LSU) ls. lsu_inv pr k (snd fs) \<and> set ls \<subseteq> set (ls_ldst_inst_queue (snd fs)) \<and>
    ls_pipeline (snd fs) = ls_pipeline s"
  have "\<exists>fs. foldE (ready_dependent_load pqi sb) (False, s) (ls_ldst_inst_queue s) = Inr fs \<and> ?I fs []"
  proof (rule foldE_rule)
    show "?I (False, s) (ls_ldst_inst_queue s)" using inv by simp
    fix fs l ls assume "?I fs (l # ls)"
    with ready_dependent_load_ok_inv[OF _ pqi, of pr k "snd fs" l sb "fst fs"]
    show "\<exists>fs'. ready_dependent_load pqi sb fs l = Inr fs' \<and> ?I fs' ls" by (cases fs) auto
  qed
  then obtain f s1 where "foldE (ready_dependent_load pqi sb) (False, s) (ls_ldst_inst_queue s) = Inr (f, s1)" "lsu_inv pr k s1"
    "ls_pipeline s1 = ls_pipeline s" by auto
  moreover have "lsu_inv pr k (schedule_issue 0 s1) = lsu_inv pr k s1" by (rule view_congD(1)[OF view_schedule_issue])
  moreover have "ls_pipeline (schedule_issue 0 s1) = ls_pipeline s1" by (simp add: schedule_issue_def)
  ultimately show ?thesis by (auto simp: readyDependentLoads_def)
qed

lemma inv_emit_req:
  assumes inv: "lsu_inv pr k s" and l: "l < w_next s" "SCHEDULED \<le> i_status (inst_of s l)"
  shows "lsu_inv pr k (ls_emit (OutMmuLookupReq (li_mem_access_info (w_lsi s l))) s)"
    and "lsu_inv pr k (ls_emit (OutCacheLookupReq (li_mem_access_info (w_lsi s l))) s)"
  using inv_facts(15)[OF inv l(1)] vinv_sent[of _ k "view s" l] inv l by (simp_all add: lsu_inv_def view_simps)

lemma handleMMULookupReq_ok_inv:
  assumes inv: "lsu_inv pr k s" and pqi: "pqi_ok pqi"
  shows "\<exists>s'. handleMMULookupReq pqi pr sb s = Inr s' \<and> lsu_inv pr k s'"
proof (cases "ls_stage s (mmu_lookup_stage pr)")
  case None
  with inv show ?thesis by (simp add: handleMMULookupReq_def)
next
  case (Some l)
  from readyDependentLoads_ok_inv[OF inv pqi] inv obtain s1 where
    s1: "(if \<not> lsp_allow_speculative_load_exec pr \<and> i_is_store (inst_of s l) then readyDependentLoads pqi pr sb s else Inr s) = Inr s1"
      "lsu_inv pr k s1" "ls_pipeline s1 = ls_pipeline s" by metis
  have "l \<in> live s1" using Some s1(3) by (intro live_stageI[of _ "mmu_lookup_stage pr"]) (simp add: ls_stage_def split: if_splits)
  with inv_emit_req(1)[OF s1(2)] inv_facts(5,10)[OF s1(2)]
  have "lsu_inv pr k (ls_emit (OutMmuLookupReq (li_mem_access_info (w_lsi s1 l))) s1)" by simp
  with inv Some s1(1) show ?thesis by (simp add: handleMMULookupReq_def)
qed

text \<open>Aborting the younger loads: each of them leaves the replay buffer and the pipeline and becomes ready.\<close>

lemma abort_load_ok_inv:
  assumes inv: "lsu_inv pr k s" and pqi: "pqi_ok pqi" and l: "l \<in> set (ls_replay_buffer s)"
  shows "\<exists>s'. abort_load pqi a s l = Inr s' \<and> lsu_inv pr k s' \<and>
           (set (ls_replay_buffer s') = set (ls_replay_buffer s) \<or> set (ls_replay_buffer s') = set (ls_replay_buffer s) - {l})"
proof (cases "i_is_store (inst_of s l) \<or> getInstUniqueID s l < a")
  case True
  with inv show ?thesis by (auto simp: abort_load_def)
next
  case False
  let ?sp = "lsp_allow_speculative_load_exec pr"
  have nd: "l \<notin> set (ls_ready_queue s)" using inv_facts(9)[OF inv] l by auto
  have lt: "l < w_next s" using inv_facts(5)[OF inv] live_memI(2)[OF l] by simp
  have vs: "view (setState l IS_READY s) = view s" by (simp add: view_simps)
  from appendToReadyQueue_ok[of l "setState l IS_READY s" pqi] nd view_congD(4)[OF vs]
  obtain s1 where s1: "appendToReadyQueue pqi l (setState l IS_READY s) = Inr s1" by (auto simp: is_ok_iff)
  define f where "f = lsi_less (setState l IS_READY s)"
  have v1: "view s1 = (view s)\<lparr>v_d := pqi f (v_d (view s)) l, v_flag := (v_flag (view s))(l := True)\<rparr>"
    using view_appendToReadyQueue[OF s1] vs view_congD(4)[OF vs] by (simp add: f_def)
  obtain P where P: "P \<subseteq> v_pl (view s1)" "view (dropInstFromPipeline l s1) = (view s1)\<lparr>v_pl := P\<rparr>"
    using view_drop[of s1 l] by blast
  let ?s = "removeInstFromReplayQueue l (dropInstFromPipeline l s1)"
  have v2: "view (dropInstFromPipeline l s1) =
      (view s)\<lparr>v_d := pqi f (v_d (view s)) l, v_flag := (v_flag (view s))(l := True), v_pl := P\<rparr>"
    using P v1 by simp
  let ?d = "dropInstFromPipeline l s1"
  have rb: "ls_replay_buffer ?d = ls_replay_buffer s" using arg_cong[OF v2, of v_r] by simp
  have nx: "w_next ?d = w_next s" using arg_cong[OF v2, of v_next] by simp
  have ri: "mi_replay_queue_iterator (w_mai ?d k) = mi_replay_queue_iterator (w_mai s k)" for k
    using arg_cong[OF v2, of "\<lambda>v. v_ri v k"] by simp
  have ob: "obj_inv (view ?d)" using inv_facts(1)[OF inv] by (simp add: v2 obj_inv_def)
  have itr: "\<forall>k\<in>set (ls_replay_buffer ?d). mi_replay_queue_iterator (w_mai ?d k) = Some k"
    using inv_facts(7)[OF inv] by (simp add: rb ri)
  have v3: "view ?s = (view s)\<lparr>v_d := pqi f (v_d (view s)) l, v_flag := (v_flag (view s))(l := True), v_pl := P,
      v_r := remove1 l (v_r (view s)), v_ri := (v_ri (view s))(l := None)\<rparr>"
    unfolding view_removeReplay[OF ob lt[folded nx] itr] rb unfolding v2 by simp
  have "vinv ?sp k (view s)" using inv by (simp add: lsu_inv_def)
  from vinv_pl[OF this, of "insert l (v_pl (view s))"] l
  have "vinv ?sp k ((view s)\<lparr>v_pl := insert l (v_pl (view s))\<rparr>)" by (auto simp: vlive_def)
  from vinv_replay_remove[OF this, of l] have "vinv ?sp k ((view s)\<lparr>v_pl := insert l (v_pl (view s)),
      v_r := remove1 l (v_r (view s)), v_ri := (v_ri (view s))(l := None)\<rparr>)" by simp
  from vinv_ready[OF this pqi, of l f] nd inv_facts(4)[OF inv]
  have "vinv ?sp k ((view s)\<lparr>v_pl := insert l (v_pl (view s)), v_r := remove1 l (v_r (view s)),
      v_ri := (v_ri (view s))(l := None), v_d := pqi f (v_d (view s)) l, v_flag := (v_flag (view s))(l := True)\<rparr>)"
    by (simp add: vlive_def)
  from vinv_pl[OF this, of P] P(1) v1 have fin: "vinv ?sp k ((view s)\<lparr>v_r := remove1 l (v_r (view s)), v_ri := (v_ri (view s))(l := None),
      v_d := pqi f (v_d (view s)) l, v_flag := (v_flag (view s))(l := True), v_pl := P\<rparr>)"
    (is "vinv _ _ ?w") by (auto simp: vlive_def)
  have "view ?s = ?w" unfolding v3 by (rule lview.equality) simp_all
  with fin have "lsu_inv pr k ?s" by (simp add: lsu_inv_def)
  moreover have "set (ls_replay_buffer ?s) = set (ls_replay_buffer s) - {l}"
    using arg_cong[OF v3, of v_r] inv_facts(4)[OF inv] by simp
  ultimately show ?thesis using False s1 by (simp add: abort_load_def)
qed

lemma getAckFromMMU_ok_inv:
  assumes inv: "lsu_inv pr k s" and pqi: "pqi_ok pqi" and m: "mi_ldst_inst (w_mai s m) \<noteq> None"
  shows "\<exists>s'. getAckFromMMU pqi pr m s = Inr s' \<and> lsu_inv pr k s'"
proof -
  obtain p where p: "mi_ldst_inst (w_mai s m) = Some p" using m by blast
  have "\<exists>s'. foldE (abort_load pqi a) s (ls_replay_buffer s) = Inr s' \<and>
      (lsu_inv pr k s' \<and> set [] \<subseteq> set (ls_replay_buffer s') \<and> distinct ([] :: lptr list))" for a
  proof (rule foldE_rule[where I = "\<lambda>s ls. lsu_inv pr k s \<and> set ls \<subseteq> set (ls_replay_buffer s) \<and> distinct ls"])
    show "lsu_inv pr k s \<and> set (ls_replay_buffer s) \<subseteq> set (ls_replay_buffer s) \<and> distinct (ls_replay_buffer s)"
      using inv inv_facts(4)[OF inv] by simp
    fix s1 l ls assume "lsu_inv pr k s1 \<and> set (l # ls) \<subseteq> set (ls_replay_buffer s1) \<and> distinct (l # ls)"
    with abort_load_ok_inv[OF _ pqi, of pr k s1 l a]
    show "\<exists>s'. abort_load pqi a s1 l = Inr s' \<and> lsu_inv pr k s' \<and> set ls \<subseteq> set (ls_replay_buffer s') \<and> distinct ls"
      by fastforce
  qed
  with inv p show ?thesis
    by (auto simp: getAckFromMMU_def with_inst_def abortYoungerLoads_def Let_def split: option.splits)
qed

lemma view_tlb_reload_entry:
  "view (snd (tlb_reload_entry pr p l (f, s))) =
     (if ip_of s l = p then (view s)\<lparr>v_ev := insert l (v_ev (view s))\<rparr> else view s)"
proof -
  define s1 where "s1 = (if mi_mmu_access_state (mem_of s l) = MMU_MISS
    then setPriority l MMU_PENDING (if \<not> lsp_allow_speculative_load_exec pr then setState l IS_READY s else s) else s)"
  have v: "view s1 = view s" by (simp add: s1_def view_simps)
  have "snd (tlb_reload_entry pr p l (f, s)) =
    (if ip_of s1 l = p then schedule_append_ready l (setPriority l MMU_RELOAD (set_ready_unless_issued l s1)) else s1)"
    by (simp add: tlb_reload_entry_def s1_def Let_def)
  then show ?thesis by (simp add: view_simps v view_congD(8)[OF v])
qed

lemma inv_tlb_fold:
  assumes "lsu_inv pr k s" "set ls \<subseteq> set (ls_ldst_inst_queue s)" "SCHEDULED \<le> i_status (w_inst s p)"
  shows "lsu_inv pr k (snd (fold (tlb_reload_entry pr p) ls (f, s)))"
  using assms
proof (induction ls arbitrary: f s)
  case (Cons l ls)
  define fs where "fs = tlb_reload_entry pr p l (f, s)"
  note v = view_tlb_reload_entry[of pr p l f s, folded fs_def]
  have sel: "ls_ldst_inst_queue (snd fs) = ls_ldst_inst_queue s" "w_inst (snd fs) = w_inst s"
    using arg_cong[OF v, of v_q] arg_cong[OF v, of v_inst] by (simp_all split: if_splits)
  have "lsu_inv pr k (snd fs)"
  proof (cases "ip_of s l = p")
    case True
    with Cons.prems have "l \<in> set (ls_ldst_inst_queue s) \<and> SCHEDULED \<le> i_status (inst_of s l)"
      by (simp add: inst_of_def)
    with inv_event[OF Cons.prems(1), of l] v True show ?thesis by (simp add: lsu_inv_def view_simps)
  next
    case False
    with v Cons.prems(1) show ?thesis by (simp add: lsu_inv_def)
  qed
  from Cons.IH[OF this, of "fst fs"] Cons.prems sel show ?case by (simp add: fs_def)
qed simp

lemma inv_handleMMUReadyReq:
  assumes inv: "lsu_inv pr k s" and m: "m \<in> v_sent (view s)" and h: "handleMMUReadyReq pr m s = Inr s'"
  shows "lsu_inv pr k s'"
proof -
  from h obtain p where p: "mi_ldst_inst (w_mai s m) = Some p" by (auto simp: handleMMUReadyReq_def with_inst_def split: option.splits)
  have st: "SCHEDULED \<le> i_status (w_inst s p)"
    using inv_facts(14)[OF inv m] inv_facts(15)[OF inv] p by (auto simp: inst_of_def ip_of_def mem_of_def)
  from h p obtain s1 where s1: "updateIssuePriorityAfterTLBReload pr p s = Inr s1"
    and s': "s' = issue_if_ready pr 0 s1 \<or> s' = issue_if_ready pr 0 (removeInstFromReplayQueue_inst p s1)"
    by (auto simp: handleMMUReadyReq_def with_inst_def bindE_eq_Inr split: if_splits)
  have "lsu_inv pr k s1"
    using s1 inv_tlb_fold[OF inv order_refl st, of False]
    by (auto simp: updateIssuePriorityAfterTLBReload_def split: prod.splits)
  with s' inv_remove_inst view_congD(1)[OF view_issue_if_ready] show ?thesis by metis
qed

section \<open>Cache access\<close>

lemma view_updateInstReplayReady:
  assumes inv: "lsu_inv pr k s" and l: "l < w_next s"
  shows "view (updateInstReplayReady pr l s) = (view s)\<lparr>v_ev := insert l (v_ev (view s)),
      v_r := remove1 l (v_r (view s)), v_ri := (v_ri (view s))(l := None)\<rparr>"
proof -
  let ?s1 = "setState l IS_NOT_READY s"
  let ?s2 = "?s1\<lparr>ls_uev_replay_ready := ls_uev_replay_ready ?s1 @ [(l, lsp_replay_issue_delay pr)]\<rparr>"
  have v2: "view ?s2 = (view s)\<lparr>v_ev := insert l (v_ev (view s))\<rparr>"
    by (auto simp: view_def lsu_credits_def setState_def upd_lsi_def)
  have sel: "w_next ?s2 = w_next s" "ls_replay_buffer ?s2 = ls_replay_buffer s" "w_mai ?s2 = w_mai s"
    by (simp_all add: setState_def upd_lsi_def)
  have "view (removeInstFromReplayQueue l ?s2) =
      (view ?s2)\<lparr>v_r := remove1 l (ls_replay_buffer ?s2), v_ri := (v_ri (view ?s2))(l := None)\<rparr>"
    using inv_facts(1,7)[OF inv] l by (intro view_removeReplay) (simp_all add: v2 obj_inv_def sel)
  then show ?thesis by (simp add: updateInstReplayReady_def Let_def view_simps v2 sel)
qed

text \<open>The entry may have left the pipeline just before.\<close>

lemma updateInstReplayReady_inv:
  assumes inv: "lsu_inv pr k s" and l: "l \<in> live s" and v0: "\<exists>P \<subseteq> v_pl (view s). view s0 = (view s)\<lparr>v_pl := P\<rparr>"
  shows "lsu_inv pr k (updateInstReplayReady pr l s0)"
    "l \<notin> set (ls_replay_buffer (updateInstReplayReady pr l s0))"
    "li_in_ready_queue (w_lsi (updateInstReplayReady pr l s0) l) = li_in_ready_queue (w_lsi s l)"
    "l \<in> live (updateInstReplayReady pr l s0)"
proof -
  from v0 obtain P where P: "P \<subseteq> v_pl (view s)" "view s0 = (view s)\<lparr>v_pl := P\<rparr>" by blast
  have inv0: "lsu_inv pr k s0" by (rule inv_sub_pl[OF inv v0])
  have lt: "l < w_next s0" using inv_facts(5)[OF inv l] arg_cong[OF P(2), of v_next] by simp
  let ?w = "(view s)\<lparr>v_ev := insert l (v_ev (view s)), v_r := remove1 l (v_r (view s)), v_ri := (v_ri (view s))(l := None)\<rparr>"
  have v: "view (updateInstReplayReady pr l s0) = ?w\<lparr>v_pl := P\<rparr>"
    unfolding view_updateInstReplayReady[OF inv0 lt] P(2) by (rule lview.equality) simp_all
  have "vinv (lsp_allow_speculative_load_exec pr) k ((view s)\<lparr>v_ev := insert l (v_ev (view s))\<rparr>)"
    using inv l by (intro vinv_ev) (auto simp: lsu_inv_def live_def vlive_def)
  from vinv_replay_remove[OF this, of l] have w: "vinv (lsp_allow_speculative_load_exec pr) k ?w" by simp
  show "lsu_inv pr k (updateInstReplayReady pr l s0)"
    unfolding lsu_inv_def v using P(1) by (intro vinv_pl[OF w]) (auto simp: vlive_def)
  show "l \<notin> set (ls_replay_buffer (updateInstReplayReady pr l s0))"
    using arg_cong[OF v, of v_r] inv_facts(4)[OF inv] by simp
  show "li_in_ready_queue (w_lsi (updateInstReplayReady pr l s0) l) = li_in_ready_queue (w_lsi s l)"
    using arg_cong[OF v, of "\<lambda>x. v_flag x l"] by simp
  show "l \<in> live (updateInstReplayReady pr l s0)" by (simp add: live_def v vlive_def)
qed

lemma retry_access_ok_inv:
  assumes inv: "lsu_inv pr k s" and pqi: "pqi_ok pqi" and l: "l \<in> live s"
  shows "\<exists>s'. retry_access pqi pr stg l s = Inr s' \<and> lsu_inv pr k s'"
proof -
  define s1 where "s1 = (if lsp_allow_speculative_load_exec pr then updateInstReplayReady pr l s else s)"
  have v0: "\<exists>P \<subseteq> v_pl (view s). view s = (view s)\<lparr>v_pl := P\<rparr>" by (intro exI[of _ "v_pl (view s)"]) simp
  note u = updateInstReplayReady_inv[OF inv l v0]
  have s1: "lsu_inv pr k s1" "l \<notin> set (ls_replay_buffer s1)" "l \<in> live s1"
    using u inv l inv_facts(12)[OF inv] by (auto simp: s1_def)
  show ?thesis
  proof (cases "li_in_ready_queue (w_lsi s1 l)")
    case True
    then show ?thesis using inv_invalidate[OF s1(1)] by (simp add: retry_access_def s1_def Let_def)
  next
    case False
    then have "l \<notin> set (ls_ready_queue s1)" using inv_facts(8)[OF s1(1)] by blast
    from appendToReadyQueue_ok[OF this, of pqi] obtain s2 where s2: "appendToReadyQueue pqi l s1 = Inr s2"
      by (auto simp: is_ok_iff)
    have "lsu_inv pr k s2" using inv_ready[OF s1(1) pqi s2 s1(2)] s1(3) by simp
    then have "lsu_inv pr k (issue_if_ready pr 0 (setState l IS_READY s2))" by (simp add: lsu_inv_def view_simps)
    from inv_invalidate[OF this] False s2 show ?thesis by (simp add: retry_access_def s1_def Let_def)
  qed
qed

lemma handleCacheLookupReq_ok_inv:
  assumes inv: "lsu_inv pr k s" and pqi: "pqi_ok pqi"
  shows "\<exists>s'. handleCacheLookupReq pqi pr s = Inr s' \<and> lsu_inv pr k s'"
proof (cases "ls_stage s (cache_lookup_stage pr)")
  case None
  with inv show ?thesis by (simp add: handleCacheLookupReq_def)
next
  case (Some l)
  note l = live_stageI[OF Some]
  let ?i = "inst_of s l"
  let ?fin = "\<lambda>s0. let s2 = invalidateStage (cache_lookup_stage pr) (setState l IS_READY s0)
      in if lsp_allow_speculative_load_exec pr then updateInstReplayReady pr l s2 else s2"
  have fin: "lsu_inv pr k (?fin s0)" if "lsu_inv pr k s0" "l \<in> live s0" for s0
  proof -
    have v: "view (setState l IS_READY s0) = view s0" by (simp add: view_simps)
    have "lsu_inv pr k (setState l IS_READY s0)" "l \<in> live (setState l IS_READY s0)"
      using that view_congD(1,2)[OF v] by simp_all
    from inv_invalidate[OF this(1)] updateInstReplayReady_inv(1)[OF this view_invalidate] show ?thesis
      by (simp add: Let_def)
  qed
  consider (nophy) "\<not> mi_phy_addr_ready (mem_of s l)"
    | (st) "mi_phy_addr_ready (mem_of s l)" "i_is_store ?i" "i_status ?i = SCHEDULED"
    | (sp) "mi_phy_addr_ready (mem_of s l)" "\<not> i_is_store ?i" "\<not> allOlderStoresIssued s (ip_of s l)" "lsp_allow_speculative_load_exec pr"
    | (other) "mi_phy_addr_ready (mem_of s l)" "\<not> (i_is_store ?i \<and> i_status ?i = SCHEDULED)"
        "\<not> (\<not> i_is_store ?i \<and> \<not> allOlderStoresIssued s (ip_of s l) \<and> lsp_allow_speculative_load_exec pr)"
    by blast
  then show ?thesis
  proof cases
    case nophy
    with Some retry_access_ok_inv[OF inv pqi l] show ?thesis by (simp add: handleCacheLookupReq_def Let_def)
  next
    case st
    then have less: "i_status (w_inst s (ip_of s l)) < COMPLETED" by (simp add: inst_of_def less_Status_def)
    from set_inst_status_ok[OF less] obtain s1 where s1: "set_inst_status (ip_of s l) COMPLETED s = Inr s1"
      by (auto simp: is_ok_iff)
    note v1 = conjunct2[OF view_set_inst_status[OF s1]]
    have "lsu_inv pr k s1" using inv_status[OF inv v1 less] by (simp add: less_eq_Status_def)
    moreover have "l \<in> live s1" using l by (simp add: live_def v1 vlive_def)
    ultimately have "lsu_inv pr k (?fin s1)" by (rule fin)
    with Some st s1 show ?thesis by (simp add: handleCacheLookupReq_def Let_def)
  next
    case sp
    with Some fin[OF inv l] show ?thesis by (auto simp: handleCacheLookupReq_def Let_def)
  next
    case other
    have "lsu_inv pr k (upd_mai m (\<lambda>x. x\<lparr>mi_cache_data_ready := True, mi_cache_access_state := CS_HIT\<rparr>) s)" for m
      using inv by (simp add: lsu_inv_def view_simps)
    moreover have "lsu_inv pr k (ls_emit (OutCacheLookupReq (li_mem_access_info (w_lsi s l))) s)"
      using inv_emit_req(2)[OF inv] inv_facts(5,10)[OF inv l] by simp
    ultimately show ?thesis using inv Some other by (auto simp: handleCacheLookupReq_def Let_def)
  qed
qed

lemma handleCacheRead_ok_inv:
  assumes inv: "lsu_inv pr k s" and pqi: "pqi_ok pqi"
  shows "\<exists>s'. handleCacheRead pqi pr s = Inr s' \<and> lsu_inv pr k s'"
proof (cases "ls_stage s (cache_read_stage pr)")
  case None
  with inv show ?thesis by (simp add: handleCacheRead_def)
next
  case (Some l)
  have "lsu_inv pr k (issue_if_ready pr 0 (upd_mai m (\<lambda>x. x\<lparr>mi_cache_data_ready := True\<rparr>) s))" for m
    using inv by (simp add: lsu_inv_def view_simps)
  with Some inv retry_access_ok_inv[OF inv pqi live_stageI[OF Some]] show ?thesis
    by (auto simp: handleCacheRead_def)
qed

lemma sent_entry:
  assumes inv: "lsu_inv pr k s" and m: "m \<in> v_sent (view s)"
    and it: "iter_valid (mi_issue_queue_iterator (w_mai s m)) (ls_ldst_inst_queue s)"
  shows "mi_issue_queue_iterator (w_mai s m) = Some m" "m \<in> set (ls_ldst_inst_queue s)" "SCHEDULED \<le> i_status (inst_of s m)"
proof -
  from inv_facts(14)[OF inv m] show "SCHEDULED \<le> i_status (inst_of s m)" by simp
  from inv_facts(14)[OF inv m] inv_facts(17)[OF inv, of m] it
  show "mi_issue_queue_iterator (w_mai s m) = Some m" "m \<in> set (ls_ldst_inst_queue s)"
    by (auto simp: iter_valid_def)
qed

lemma inv_event_upd:
  assumes "lsu_inv pr k s" "m \<in> set (ls_ldst_inst_queue s)" "SCHEDULED \<le> i_status (inst_of s m)"
  shows "lsu_inv pr k (schedule_append_ready m (setPriority m r (set_ready_unless_issued m s)))"
    "lsu_inv pr k (setPriority m r (set_ready_unless_issued m s))"
proof -
  have v: "view (setPriority m r (set_ready_unless_issued m s)) = view s" by (simp add: view_simps)
  show "lsu_inv pr k (setPriority m r (set_ready_unless_issued m s))" using assms(1) view_congD(1)[OF v] by simp
  from inv_event[OF this] assms(2,3) view_congD[OF v]
  show "lsu_inv pr k (schedule_append_ready m (setPriority m r (set_ready_unless_issued m s)))" by simp
qed

lemma inv_getAckFromCache:
  assumes inv: "lsu_inv pr k s" and m: "m \<in> v_sent (view s)"
  shows "lsu_inv pr k (getAckFromCache m s)"
proof (cases "iter_valid (mi_issue_queue_iterator (w_mai s m)) (ls_ldst_inst_queue s)")
  case True
  note e = sent_entry[OF inv m True]
  with inv inv_event_upd[OF inv e(2,3)] show ?thesis by (simp add: getAckFromCache_def Let_def)
qed (use inv in \<open>simp add: getAckFromCache_def\<close>)

lemma inv_handleCacheReadyReq:
  assumes inv: "lsu_inv pr k s" and m: "m \<in> v_sent (view s)" and h: "handleCacheReadyReq pr m s = Inr s'"
  shows "lsu_inv pr k s'"
proof -
  from h obtain p where p: "mi_ldst_inst (w_mai s m) = Some p"
    by (auto simp: handleCacheReadyReq_def with_inst_def split: option.splits)
  show ?thesis
  proof (cases "i_status (w_inst s p) = FLUSHED")
    case True
    with h p inv view_congD(1)[OF view_issue_if_ready] show ?thesis by (auto simp: handleCacheReadyReq_def with_inst_def)
  next
    case False
    with h p obtain s1 where s1: "updateIssuePriorityAfterCacheReload m p s = Inr s1"
      and s': "s' = issue_if_ready pr 0 (removeInstFromReplayQueue_inst p s1)"
      by (auto simp: handleCacheReadyReq_def with_inst_def bindE_eq_Inr)
    from s1 have it: "iter_valid (mi_issue_queue_iterator (w_mai s m)) (ls_ldst_inst_queue s)"
      by (simp add: updateIssuePriorityAfterCacheReload_def Let_def)
    note e = sent_entry[OF inv m it]
    have "lsu_inv pr k s1" using s1 inv_event_upd(1)[OF inv e(2,3)] e(1)
      by (auto simp: updateIssuePriorityAfterCacheReload_def Let_def)
    from inv_remove_inst[OF this] s' view_congD(1)[OF view_issue_if_ready] show ?thesis by simp
  qed
qed

section \<open>Completion\<close>

lemma view_pop:
  assumes inv: "lsu_inv pr k s" and l: "l < w_next s" and h: "ls_popIssueQueue l s = Inr s'"
  shows "l \<in> set (ls_ldst_inst_queue s)"
    "view s' = (view s)\<lparr>v_q := remove1 l (v_q (view s)), v_ii := (v_ii (view s))(l := None)\<rparr>"
proof -
  have mem: "li_mem_access_info (w_lsi s l) = l" using inv_facts(15)[OF inv l] .
  from h have it: "iter_valid (mi_issue_queue_iterator (w_mai s l)) (ls_ldst_inst_queue s)"
    by (auto simp: ls_popIssueQueue_def mem_of_def mem Let_def split: if_splits)
  then have sl: "mi_issue_queue_iterator (w_mai s l) = Some l" and "l \<in> set (ls_ldst_inst_queue s)"
    using inv_facts(17)[OF inv l] by (auto simp: iter_valid_def)
  then show "l \<in> set (ls_ldst_inst_queue s)" by simp
  from h it show "view s' = (view s)\<lparr>v_q := remove1 l (v_q (view s)), v_ii := (v_ii (view s))(l := None)\<rparr>"
    by (auto simp: ls_popIssueQueue_def mem_of_def mem sl Let_def iter_erase_def setIssueQueueIterator_def upd_mai_def
        view_def lsu_credits_def fun_eq_iff)
qed

lemma inv_finish:
  assumes inv: "lsu_inv pr k s" and l: "l < w_next s" "i_is_store (inst_of s l) \<or> i_status (inst_of s l) \<noteq> SCHEDULED"
    and h: "finish_inst pr l s = Inr s'"
  shows "lsu_inv pr k s'"
proof -
  from h obtain s1 where s1: "ls_popIssueQueue l s = Inr s1"
    and s': "s' = (let s2 = (if lsp_allow_speculative_load_exec pr then removeInstFromReplayQueue l s1 else s1)
       in ls_emit (OutLsuCredits 1) (s2\<lparr>ls_insts_completed := ls_insts_completed s2 + 1\<rparr>))"
    unfolding finish_inst_def by (auto simp: Let_def elim!: bindE_InrE)
  note v1 = view_pop[OF inv l(1) s1]
  have inv1: "lsu_inv pr (k - 1) s1"
    using vinv_pop[of _ k "view s" l] inv l v1 by (simp add: lsu_inv_def)
  have lt: "l < w_next s1" using l(1) arg_cong[OF v1(2), of v_next] by simp
  define s2 where "s2 = (if lsp_allow_speculative_load_exec pr then removeInstFromReplayQueue l s1 else s1)"
  have "lsu_inv pr (k - 1) s2" using inv1 inv_remove[OF inv1 lt] by (simp add: s2_def)
  then have "vinv (lsp_allow_speculative_load_exec pr) (k - 1 + int 1) ((view s2)\<lparr>v_cr := v_cr (view s2) + 1\<rparr>)"
    unfolding lsu_inv_def by (rule vinv_credit)
  then show ?thesis by (simp add: s' s2_def[symmetric] Let_def lsu_inv_def view_simps)
qed

lemma finish_ok: "lsu_inv pr k s \<Longrightarrow> l \<in> set (ls_ldst_inst_queue s) \<Longrightarrow> is_ok (finish_inst pr l s)"
  using inv_facts(6,15,18)[of pr k s l]
  by (simp add: finish_inst_def ls_popIssueQueue_def mem_of_def iter_valid_def Let_def)

lemma view_set_dest_ready: "set_dest_ready i s = Inr s' \<Longrightarrow> view s' = view s"
  by (auto simp: set_dest_ready_def view_simps bindE_eq_Inr split: list.splits)

lemma inv_complete_load:
  assumes inv: "lsu_inv pr k s" and l: "l \<in> live s" and h: "complete_load pr l s = Inr s'"
  shows "lsu_inv pr k s'"
proof -
  let ?s = "issue_if_ready pr 0 s"
  note vs = view_congD[OF view_issue_if_ready[of pr 0 s]]
  have inv1: "lsu_inv pr k ?s" and l1: "l \<in> live ?s" "l < w_next ?s"
    using inv l inv_facts(5)[OF inv l] by (simp_all add: vs)
  show ?thesis
  proof (cases "isRetired ?s l \<or> i_status (inst_of ?s l) = COMPLETED")
    case True
    with h inv1 inv_remove[OF inv1 l1(2)] show ?thesis by (auto simp: complete_load_def Let_def)
  next
    case False
    with h obtain s2 where s2: "set_inst_status (ip_of ?s l) COMPLETED ?s = Inr s2" and f: "finish_inst pr l s2 = Inr s'"
      by (auto simp: complete_load_def Let_def bindE_eq_Inr)
    note v2 = view_set_inst_status[OF s2]
    have inv2: "lsu_inv pr k s2" using inv_status[OF inv1 conjunct2[OF v2] conjunct1[OF v2]] by (simp add: less_eq_Status_def)
    have "l < w_next s2" using l1(2) arg_cong[OF conjunct2[OF v2], of v_next] by simp
    moreover have "i_status (inst_of s2 l) = COMPLETED"
      using arg_cong[OF conjunct2[OF v2], of "\<lambda>x. vinst x l"] by simp
    ultimately show ?thesis using inv_finish[OF inv2 _ _ f] by simp
  qed
qed

lemma inv_complete_store:
  assumes inv: "lsu_inv pr k s" and l: "l \<in> live s" and st: "i_is_store (inst_of s l)" and h: "complete_store pr l s = Inr s'"
  shows "lsu_inv pr k s'"
proof -
  let ?s = "issue_if_ready pr 0 s"
  note vs = view_congD[OF view_issue_if_ready[of pr 0 s]]
  have inv1: "lsu_inv pr k ?s" and l1: "l < w_next ?s" and st1: "i_is_store (inst_of ?s l)"
    using inv inv_facts(5)[OF inv l] st by (simp_all add: vs)
  from h inv1 inv_remove[OF inv1 l1] inv_finish[OF inv1 l1 disjI1[OF st1]] show ?thesis
    by (auto simp: complete_store_def Let_def split: if_splits)
qed

lemma inv_completeInst:
  assumes inv: "lsu_inv pr k s" and h: "ls_completeInst pr s = Inr s'"
  shows "lsu_inv pr k s'"
proof (cases "ls_stage s (complete_stage pr)")
  case None
  with h inv show ?thesis by (simp add: ls_completeInst_def)
next
  case (Some l)
  note l = live_stageI[OF Some]
  show ?thesis
  proof (cases "mi_cache_data_ready (mem_of s l)")
    case False
    with h inv Some show ?thesis by (simp add: ls_completeInst_def)
  next
    case True
    with h Some obtain s1 where s1: "set_dest_ready (inst_of s l) s = Inr s1"
      and c: "(if \<not> i_is_store (inst_of s l) then complete_load pr l s1 else complete_store pr l s1) = Inr s'"
      by (auto simp: ls_completeInst_def bindE_eq_Inr)
    note v = view_congD[OF view_set_dest_ready[OF s1]]
    have "lsu_inv pr k s1" "l \<in> live s1" using inv l by (simp_all add: v)
    with inv_complete_load inv_complete_store c v(7)[of l] show ?thesis by (metis (full_types))
  qed
qed

text \<open>What a completing access needs of the other units: one destination at most, in a known register file, a
  cache hit where the cache was asked, a translation.\<close>

definition completion_ready :: "LSU \<Rightarrow> lptr \<Rightarrow> bool" where
  "completion_ready s l =
     ((case oi_dest_list (i_opcode_info (inst_of s l)) of [] \<Rightarrow> True
       | d # ds \<Rightarrow> ds = [] \<and> is_ok (determineRegisterFile (oe_operand_type d))) \<and>
      (i_is_store (inst_of s l) \<longrightarrow> mi_mmu_access_state (mem_of s l) = MMU_HIT) \<and>
      (\<not> i_is_store (inst_of s l) \<or> i_status (inst_of s l) = RETIRED \<longrightarrow> mi_cache_access_state (mem_of s l) = CS_HIT))"

lemma set_dest_ready_ok:
  "completion_ready s l \<Longrightarrow> \<exists>s1. set_dest_ready (inst_of s l) s = Inr s1 \<and> mem_of s1 l = mem_of s l"
  by (auto simp: completion_ready_def set_dest_ready_def is_ok_iff ls_emit_def mem_of_def split: list.splits)

lemma mem_of_issue_if_ready: "mem_of (issue_if_ready pr d s) l = mem_of s l"
  by (simp add: issue_if_ready_def schedule_issue_def mem_of_def)

lemma completeInst_ok:
  assumes inv: "lsu_inv pr k s" and r: "\<And>l. ls_stage s (complete_stage pr) = Some l \<Longrightarrow> completion_ready s l"
  shows "is_ok (ls_completeInst pr s)"
proof (cases "ls_stage s (complete_stage pr)")
  case None
  then show ?thesis by (simp add: ls_completeInst_def)
next
  case (Some l)
  from set_dest_ready_ok[OF r[OF Some]] obtain s1 where s1: "set_dest_ready (inst_of s l) s = Inr s1" "mem_of s1 l = mem_of s l"
    by blast
  let ?s = "issue_if_ready pr 0 s1"
  note v1 = view_congD[OF view_set_dest_ready[OF s1(1)]]
  note v = view_congD[OF view_issue_if_ready[of pr 0 s1]]
  have inv1: "lsu_inv pr k ?s" "l \<in> live ?s" using inv live_stageI[OF Some] by (simp_all add: v v1)
  have hit: "mem_of ?s l = mem_of s l" using s1(2) by (simp add: mem_of_issue_if_ready)
  show ?thesis
  proof (cases "i_is_store (inst_of s l)")
    case True
    have "is_ok (finish_inst pr l ?s)" if "iter_valid (mi_issue_queue_iterator (mem_of ?s l)) (ls_ldst_inst_queue ?s)"
      using that inv_facts(5,15,17)[OF inv1(1)] inv1 by (intro finish_ok[OF inv1(1)]) (force simp: iter_valid_def mem_of_def split: option.splits)
    with True r[OF Some] Some s1 hit v1 v show ?thesis
      by (auto simp: ls_completeInst_def complete_store_def completion_ready_def Let_def)
  next
    case False
    have "is_ok (bindE (set_inst_status (ip_of ?s l) COMPLETED ?s) (\<lambda>s2. finish_inst pr l s2))"
      if "\<not> (isRetired ?s l \<or> i_status (inst_of ?s l) = COMPLETED)"
    proof -
      from that inv_facts(10)[OF inv1] inv_facts(19)[OF inv1(1), of l] inv1(2)
      have st: "i_status (inst_of ?s l) = SCHEDULED"
        by (cases "i_status (inst_of ?s l)") (auto simp: isRetired_def less_eq_Status_def)
      then have q: "l \<in> set (ls_ldst_inst_queue ?s)" using inv_facts(11)[OF inv1] False v v1 by simp
      from st have less: "i_status (w_inst ?s (ip_of ?s l)) < COMPLETED" by (simp add: inst_of_def less_Status_def)
      from set_inst_status_ok[OF less] obtain s2 where s2: "set_inst_status (ip_of ?s l) COMPLETED ?s = Inr s2"
        by (auto simp: is_ok_iff)
      note v2 = view_set_inst_status[OF s2]
      have "lsu_inv pr k s2" using inv_status[OF inv1(1) conjunct2[OF v2] less] by (simp add: less_eq_Status_def)
      moreover have "l \<in> set (ls_ldst_inst_queue s2)" using q arg_cong[OF conjunct2[OF v2], of v_q] by simp
      ultimately show ?thesis using finish_ok s2 by simp
    qed
    with False r[OF Some] Some s1 hit v1 show ?thesis
      by (auto simp: ls_completeInst_def complete_load_def completion_ready_def Let_def)
  qed
qed

section \<open>Flush\<close>

definition clear_events :: "LSU \<Rightarrow> lptr list \<Rightarrow> lsu_event list" where
  "clear_events s ls = concat (map (\<lambda>l. [ClearLsuCallbacks RF_INTEGER (i_unique_id (inst_of s l)),
     ClearLsuCallbacks RF_FLOAT (i_unique_id (inst_of s l))]) ls)"

lemma clear_lsu_callbacks_eq:
  "clear_lsu_callbacks uid s = s\<lparr>ls_out := ls_out s @ [ClearLsuCallbacks RF_INTEGER uid, ClearLsuCallbacks RF_FLOAT uid]\<rparr>"
  by (simp add: clear_lsu_callbacks_def ls_emit_def)

text \<open>The loop over the issue queue: the entries before the current one that stay are \<open>pre\<close>.\<close>

lemma flush_issue_fold:
  assumes "ls_ldst_inst_queue s = pre @ ls" "\<forall>l\<in>set pre. \<not> flushed_lsi c s l"
  shows "fold (flush_issue_entry c) ls (s, n) =
    (s\<lparr>ls_ldst_inst_queue := pre @ filter (\<lambda>l. \<not> flushed_lsi c s l) ls,
       ls_out := ls_out s @ clear_events s (filter (flushed_lsi c s) ls)\<rparr>, n + length (filter (flushed_lsi c s) ls))"
  using assms
proof (induction ls arbitrary: s n pre)
  case Nil
  then show ?case by (simp add: clear_events_def)
next
  case (Cons l ls)
  show ?case
  proof (cases "flushed_lsi c s l")
    case False
    from Cons.IH[of s "pre @ [l]" n] Cons.prems False show ?thesis by (simp add: flush_issue_entry_def)
  next
    case True
    then have "l \<notin> set pre" using Cons.prems(2) by auto
    then have r: "remove1 l (ls_ldst_inst_queue s) = pre @ ls" using Cons.prems(1) by (simp add: remove1_append)
    let ?s = "clear_lsu_callbacks (i_unique_id (inst_of s l)) (s\<lparr>ls_ldst_inst_queue := pre @ ls\<rparr>)"
    have sel: "flushed_lsi c ?s = flushed_lsi c s" "inst_of ?s = inst_of s" "w_inst ?s = w_inst s" "ls_ldst_inst_queue ?s = pre @ ls"
      by (simp_all add: clear_lsu_callbacks_eq flushed_lsi_def fun_eq_iff ip_of_def mem_of_def inst_of_def)
    have cl: "clear_events ?s = clear_events s" by (simp add: clear_events_def fun_eq_iff sel)
    have "fold (flush_issue_entry c) (l # ls) (s, n) = fold (flush_issue_entry c) ls (?s, n + 1)"
      using True r by (simp add: flush_issue_entry_def)
    also have "\<dots> = (?s\<lparr>ls_ldst_inst_queue := pre @ filter (\<lambda>l. \<not> flushed_lsi c s l) ls,
       ls_out := ls_out ?s @ clear_events s (filter (flushed_lsi c s) ls)\<rparr>, n + 1 + length (filter (flushed_lsi c s) ls))"
      using Cons.IH[of ?s pre "n + 1"] Cons.prems(2) by (simp add: sel cl)
    also have "\<dots> = (s\<lparr>ls_ldst_inst_queue := pre @ filter (\<lambda>l. \<not> flushed_lsi c s l) ls,
       ls_out := ls_out s @ clear_events s (filter (flushed_lsi c s) (l # ls))\<rparr>, n + length (filter (flushed_lsi c s) (l # ls)))"
      using True by (simp add: clear_lsu_callbacks_eq clear_events_def)
    finally show ?thesis using True by simp
  qed
qed

definition keeps :: "FlushingCriteria \<Rightarrow> LSU \<Rightarrow> lptr \<Rightarrow> bool" where
  "keeps c s l = (\<not> includedInFlush (w_inst s) c (ip_of s l))"

lemma keeps_iff: "keeps c s l \<longleftrightarrow> \<not> flushed_lsi c s l"
  by (simp add: keeps_def flushed_lsi_def)

text \<open>What a flush leaves: \<open>gone\<close> are the flushed entries of the issue queue.\<close>

definition flush_result :: "FlushingCriteria \<Rightarrow> LSU \<Rightarrow> LSU" where
  "flush_result c s =
     (let gone = filter (\<lambda>l. \<not> keeps c s l) (ls_ldst_inst_queue s) in
      s\<lparr>ls_flushes := ls_flushes s + 1,
        ls_pipeline := map (\<lambda>x. case x of None \<Rightarrow> None | Some l \<Rightarrow> if keeps c s l then Some l else None) (ls_pipeline s),
        ls_ldst_inst_queue := filter (keeps c s) (ls_ldst_inst_queue s),
        ls_out := ls_out s @ clear_events s gone @ (if gone = [] then [] else [OutLsuCredits (length gone)]),
        ls_replay_buffer := filter (keeps c s) (ls_replay_buffer s), ls_ready_queue := filter (keeps c s) (ls_ready_queue s),
        ls_store_buffer := filter (keeps c s) (ls_store_buffer s),
        ls_uev_append_ready := filter (keeps c s) (ls_uev_append_ready s),
        ls_uev_replay_ready := filter (\<lambda>x. keeps c s (fst x)) (ls_uev_replay_ready s)\<rparr>)"

lemma flush_eq:
  "ls_handleFlush pr c s =
     (if isReadyToIssueInsts pr (flush_result c s) then flush_result c s else (flush_result c s)\<lparr>ls_uev_issue_inst := []\<rparr>)"
proof -
  define s1 where "s1 = flush_result c s"
  note s1_def = s1_def[unfolded flush_result_def Let_def]
  define A where "A = flushLSPipeline c (s\<lparr>ls_flushes := ls_flushes s + 1\<rparr>)"
  have f: "flushed_lsi c (t\<lparr>ls_flushes := x\<rparr>) = flushed_lsi c t" "flushed_lsi c (t\<lparr>ls_pipeline := y\<rparr>) = flushed_lsi c t"
    "flushed_lsi c (t\<lparr>ls_ldst_inst_queue := q\<rparr>) = flushed_lsi c t" "flushed_lsi c (t\<lparr>ls_callbacks := cb\<rparr>) = flushed_lsi c t"
    "flushed_lsi c (t\<lparr>ls_out := e\<rparr>) = flushed_lsi c t" "flushed_lsi c (t\<lparr>ls_replay_buffer := r\<rparr>) = flushed_lsi c t"
    "flushed_lsi c (t\<lparr>ls_ready_queue := d\<rparr>) = flushed_lsi c t" "flushed_lsi c (t\<lparr>ls_store_buffer := b\<rparr>) = flushed_lsi c t"
    for t x y q cb e r d b by (simp_all add: flushed_lsi_def fun_eq_iff ip_of_def mem_of_def)
  have a: "A = s\<lparr>ls_flushes := ls_flushes s + 1,
      ls_pipeline := map (\<lambda>x. case x of None \<Rightarrow> None | Some l \<Rightarrow> if keeps c s l then Some l else None) (ls_pipeline s)\<rparr>"
  proof -
    have "(\<lambda>x. case x of None \<Rightarrow> None | Some l \<Rightarrow> if flushed_lsi c (s\<lparr>ls_flushes := ls_flushes s + 1\<rparr>) l then None else Some l) =
      (\<lambda>x. case x of None \<Rightarrow> None | Some l \<Rightarrow> if keeps c s l then Some l else None)"
      by (auto simp: fun_eq_iff f keeps_iff split: option.splits)
    then show ?thesis unfolding A_def flushLSPipeline_def by (simp only:) simp
  qed
  have fa: "flushed_lsi c A = flushed_lsi c s" "inst_of A = inst_of s" "w_inst A = w_inst s"
    by (simp_all add: a f inst_of_def ip_of_def mem_of_def fun_eq_iff)
  have cl: "clear_events A = clear_events s" by (simp add: clear_events_def fun_eq_iff fa)
  have k: "keeps c s = (\<lambda>l. \<not> flushed_lsi c s l)" by (simp add: fun_eq_iff keeps_iff)
  have q: "fold (flush_issue_entry c) (ls_ldst_inst_queue A) (A, 0) =
    (A\<lparr>ls_ldst_inst_queue := filter (keeps c s) (ls_ldst_inst_queue s),
       ls_out := ls_out s @ clear_events s (filter (\<lambda>l. \<not> keeps c s l) (ls_ldst_inst_queue s))\<rparr>,
     length (filter (\<lambda>l. \<not> keeps c s l) (ls_ldst_inst_queue s)))"
    using flush_issue_fold[of A "[]" "ls_ldst_inst_queue A" c 0] by (simp add: fa cl k) (simp add: a)
  have b: "flushStoreBuffer c (flushReadyQueue c (flushReplayBuffer c (flushIssueQueue c A))) =
      s1\<lparr>ls_uev_append_ready := ls_uev_append_ready s, ls_uev_replay_ready := ls_uev_replay_ready s\<rparr>"
    unfolding flushIssueQueue_def q
    by (simp add: flushStoreBuffer_def flushReadyQueue_def flushReplayBuffer_def ls_emit_def a f s1_def k)
  have fb: "flushed_lsi c (s1\<lparr>ls_uev_append_ready := ls_uev_append_ready s, ls_uev_replay_ready := ls_uev_replay_ready s\<rparr>)
      = flushed_lsi c s" by (simp add: s1_def flushed_lsi_def fun_eq_iff ip_of_def mem_of_def)
  have e: "(\<lambda>(l, d :: nat). \<not> flushed_lsi c s l) = (\<lambda>x. keeps c s (fst x))" by (auto simp: fun_eq_iff keeps_iff)
  have "s1 = s1\<lparr>ls_uev_append_ready := filter (\<lambda>l. \<not> flushed_lsi c s l) (ls_uev_append_ready s),
      ls_uev_replay_ready := filter (\<lambda>(l, d). \<not> flushed_lsi c s l) (ls_uev_replay_ready s)\<rparr>"
    unfolding e k[symmetric] s1_def by simp
  then show ?thesis
    unfolding s1_def[folded flush_result_def[unfolded Let_def], symmetric] ls_handleFlush_def Let_def A_def[symmetric] b fb by simp
qed

end
