(* ===== verification/LsuForward.thy ===== *)
theory LsuForward
  imports LoadStoreUnit
begin

text \<open>
  Store-to-load forwarding: the coverage mask of the loop over the store buffer, byte by byte, and the
  reference it computes (every byte of the load is written by some store of the buffer).
\<close>

text \<open>A coverage mask with its count of covered bytes.\<close>

definition cov_ok :: "nat \<Rightarrow> bool list \<times> nat \<Rightarrow> bool" where
  "cov_ok n cov = (length (fst cov) = n \<and> snd cov = length (filter id (fst cov)))"

lemma length_filter_set_True:
  "i < length m \<Longrightarrow> \<not> m ! i \<Longrightarrow> length (filter id (m[i := True])) = Suc (length (filter id m))"
proof (induction m arbitrary: i)
  case (Cons x m)
  then show ?case by (cases i) auto
qed simp

lemma cov_full: "cov_ok n cov \<Longrightarrow> snd cov = n \<longleftrightarrow> (\<forall>k<n. fst cov ! k)"
proof -
  assume "cov_ok n cov"
  then have len: "length (fst cov) = n" and sn: "snd cov = length (filter id (fst cov))"
    by (auto simp: cov_ok_def)
  have "snd cov = n \<longleftrightarrow> length (filter id (fst cov)) = length (fst cov)" using len sn by simp
  also have "length (filter id (fst cov)) = length (fst cov) \<longleftrightarrow> (\<forall>x\<in>set (fst cov). id x)"
    by (metis length_filter_less filter_True nat_neq_iff)
  also have "\<dots> \<longleftrightarrow> (\<forall>k<n. fst cov ! k)"
    using len by (auto simp: all_set_conv_all_nth)
  finally show ?thesis .
qed

text \<open>The index arithmetic of the loop over the overlapping bytes does not wrap.\<close>

lemma byte_index:
  assumes "unat start = a + d" "unat la = a" "d + k < 4294967296" "a + d + k < 18446744073709551616"
  shows "unat (ucast (start + word_of_nat k - la :: 64 word) :: 32 word) = d + k"
proof -
  have "unat (start + word_of_nat k) = a + d + k"
    using assms by (simp add: unat_word_ariths unat_of_nat take_bit_nat_eq_self_iff)
  then have "unat (start + word_of_nat k - la) = d + k"
    using assms(2) by (subst unat_sub) (simp_all add: word_le_nat_alt)
  then show ?thesis
    using assms(3) by (simp add: unsigned_ucast_eq take_bit_nat_eq_self_iff)
qed

lemma cover_byte_spec:
  assumes "cov_ok n cov" and "unat (ucast (start + word_of_nat k - la :: 64 word) :: 32 word) = j" and "j < n"
  shows "cov_ok n (cover_byte la start k cov)"
    and "fst (cover_byte la start k cov) = (fst cov)[j := True]"
proof -
  obtain m c where cov: "cov = (m, c)" by (cases cov)
  have m: "length m = n" "c = length (filter id m)" using assms(1) by (auto simp: cov_ok_def cov)
  have upd: "m ! j \<Longrightarrow> m[j := True] = m" by (metis (full_types) list_update_id)
  show "cov_ok n (cover_byte la start k cov)"
    using m assms(3) by (simp add: cov cover_byte_def assms(2) cov_ok_def Let_def length_filter_set_True)
  show "fst (cover_byte la start k cov) = (fst cov)[j := True]"
    using upd by (simp add: cov cover_byte_def assms(2) Let_def)
qed

lemma cover_bytes_spec:
  assumes "cov_ok n cov" and "\<And>k. k < c \<Longrightarrow> unat (ucast (start + word_of_nat k - la :: 64 word) :: 32 word) = d + k"
    and "d + c \<le> n"
  shows "cov_ok n (fold (cover_byte la start) [0 ..< c] cov) \<and>
    (\<forall>j<n. fst (fold (cover_byte la start) [0 ..< c] cov) ! j \<longleftrightarrow> fst cov ! j \<or> (d \<le> j \<and> j < d + c))"
  using assms(2,3)
proof (induction c)
  case 0
  with assms(1) show ?case by auto
next
  case (Suc c)
  define r where "r = fold (cover_byte la start) [0 ..< c] cov"
  from Suc have IH: "cov_ok n r" "\<forall>j<n. fst r ! j \<longleftrightarrow> fst cov ! j \<or> (d \<le> j \<and> j < d + c)"
    by (auto simp: r_def)
  have idx: "unat (ucast (start + word_of_nat c - la :: 64 word) :: 32 word) = d + c" using Suc.prems by simp
  have lt: "d + c < n" using Suc.prems by simp
  note step = cover_byte_spec[OF IH(1) idx lt]
  have "length (fst r) = n" using IH(1) by (simp add: cov_ok_def)
  with IH(2) step lt show ?case
    by (auto simp: r_def[symmetric] nth_list_update less_Suc_eq)
qed


text \<open>The bytes of a load that a store covers. An access that reaches the end of the address space covers
  nothing: the addition of its size wraps around.\<close>

definition covers :: "64 word \<Rightarrow> nat \<Rightarrow> 64 word \<Rightarrow> nat \<Rightarrow> nat \<Rightarrow> bool" where
  "covers la ln sa sn k =
     (unat la + ln < 18446744073709551616 \<and> unat sa + sn < 18446744073709551616 \<and>
      unat sa \<le> unat la + k \<and> unat la + k < unat sa + sn)"

lemma unat_add_size:
  "n < 4294967296 \<Longrightarrow> unat (a + word_of_nat n :: 64 word) =
     (if unat a + n < 18446744073709551616 then unat a + n else unat a + n - 18446744073709551616)"
proof -
  assume n: "n < 4294967296"
  have a: "unat a < 18446744073709551616" using unsigned_less[of a] by simp
  have "unat (a + word_of_nat n) = (unat a + n) mod 18446744073709551616"
    using n by (simp add: unat_word_ariths unat_of_nat take_bit_nat_eq_self_iff)
  with a n show ?thesis by (simp add: mod_if)
qed

lemma cover_by_store_spec:
  assumes ok: "cov_ok ln cov" and ln: "ln < 4294967296" and sn: "sn < 4294967296"
  shows "cov_ok ln (cover_by_store la ln sa sn cov) \<and>
    (\<forall>j<ln. fst (cover_by_store la ln sa sn cov) ! j \<longleftrightarrow> fst cov ! j \<or> covers la ln sa sn j)"
proof -
  define a b where "a = unat la" and "b = unat sa"
  define e f where "e = unat (la + word_of_nat ln)" and "f = unat (sa + word_of_nat sn)"
  have ef: "e = (if a + ln < 18446744073709551616 then a + ln else a + ln - 18446744073709551616)"
    "f = (if b + sn < 18446744073709551616 then b + sn else b + sn - 18446744073709551616)"
    using unat_add_size[OF ln, of la] unat_add_size[OF sn, of sa] by (simp_all add: e_def f_def a_def b_def)
  have un: "unat (max la sa) = max a b" "unat (min (la + word_of_nat ln) (sa + word_of_nat sn)) = min e f"
    by (auto simp: max_def min_def word_le_nat_alt a_def b_def e_def f_def)
  show ?thesis
  proof (cases "max a b < min e f")
    case False
    then have "\<not> covers la ln sa sn j" if "j < ln" for j
      using that ef ln sn by (auto simp: covers_def a_def[symmetric] b_def[symmetric] split: if_splits)
    with False ok un show ?thesis by (auto simp: cover_by_store_def Let_def word_less_nat_alt)
  next
    case True
    then have nw: "a + ln < 18446744073709551616" "b + sn < 18446744073709551616" "e = a + ln" "f = b + sn"
      using ef ln sn by (auto split: if_splits)
    define d c where "d = max a b - a" and "c = min e f - max a b"
    have dc: "max a b = a + d" "d + c \<le> ln" using True nw by (auto simp: d_def c_def)
    have idx: "unat (ucast (max la sa + word_of_nat k - la :: 64 word) :: 32 word) = d + k" if "k < c" for k
      using that dc nw ln by (intro byte_index[where a = a]) (simp_all add: un a_def[symmetric])
    have cov: "covers la ln sa sn j \<longleftrightarrow> d \<le> j \<and> j < d + c" if "j < ln" for j
      using that nw True by (auto simp: covers_def a_def[symmetric] b_def[symmetric] d_def c_def)
    have "cover_by_store la ln sa sn cov = fold (cover_byte la (max la sa)) [0 ..< c] cov"
      using True by (simp add: cover_by_store_def Let_def word_less_nat_alt un c_def)
    with cover_bytes_spec[OF ok idx dc(2)] cov show ?thesis by simp
  qed
qed

definition store_covers :: "LSU \<Rightarrow> 64 word \<Rightarrow> nat \<Rightarrow> nat \<Rightarrow> lptr \<Rightarrow> bool" where
  "store_covers s la ln k l = covers la ln (i_target_vaddr (inst_of s l)) (getMemAccessSize (inst_of s l)) k"

lemma getMemAccessSize_less: "getMemAccessSize i < 4294967296"
  unfolding getMemAccessSize_def by (rule mod_less_divisor) simp

lemma forward_loop_spec:
  assumes "cov_ok ln cov" and "ln < 4294967296"
  shows "snd (forward_loop s la ln ls cov) = ln \<longleftrightarrow> (\<forall>k<ln. fst cov ! k \<or> (\<exists>l\<in>set ls. store_covers s la ln k l))"
  using assms(1)
proof (induction ls arbitrary: cov)
  case Nil
  then show ?case by (simp add: cov_full)
next
  case (Cons l ls)
  show ?case
  proof (cases "getMemAccessSize (inst_of s l) = 0")
    case True
    then have "\<not> store_covers s la ln k l" for k by (auto simp: store_covers_def covers_def)
    with True Cons show ?thesis by auto
  next
    case False
    define cov1 where "cov1 = cover_by_store la ln (i_target_vaddr (inst_of s l)) (getMemAccessSize (inst_of s l)) cov"
    have spec: "cov_ok ln cov1" "\<forall>j<ln. fst cov1 ! j \<longleftrightarrow> fst cov ! j \<or> store_covers s la ln j l"
      using cover_by_store_spec[OF Cons.prems assms(2) getMemAccessSize_less] by (auto simp: cov1_def store_covers_def)
    have loop: "forward_loop s la ln (l # ls) cov = (if snd cov1 = ln then cov1 else forward_loop s la ln ls cov1)"
      using False by (simp add: cov1_def Let_def)
    show ?thesis
    proof (cases "snd cov1 = ln")
      case True
      with cov_full[OF spec(1)] spec(2) loop show ?thesis by auto
    next
      case False
      with Cons.IH[OF spec(1)] spec(2) loop show ?thesis by auto
    qed
  qed
qed

lemma forwarding_exact:
  "tryStoreToLoadForwarding s p \<longleftrightarrow>
     getMemAccessSize (w_inst s p) \<noteq> 0 \<and>
     (\<forall>k<getMemAccessSize (w_inst s p). \<exists>l\<in>set (ls_store_buffer s).
        store_covers s (i_target_vaddr (w_inst s p)) (getMemAccessSize (w_inst s p)) k l)"
proof -
  have "cov_ok n (replicate n False, 0)" for n by (simp add: cov_ok_def)
  from forward_loop_spec[OF this getMemAccessSize_less] show ?thesis
    by (simp add: tryStoreToLoadForwarding_def Let_def)
qed

end
