(* ===== verification/LsuProps.thy ===== *)
theory LsuProps
  imports LsuFlow LsuForward
begin

text \<open>
  The reachable states of the load/store unit, the scheduling of loads that wait for a store, and the properties.
\<close>

lemma event_credits_clear: "sum_list (map event_credits (clear_events s ls)) = 0"
  by (induction ls) (simp_all add: clear_events_def)

lemma clear_events_not_req:
  "OutMmuLookupReq m \<notin> set (clear_events s ls)" "OutCacheLookupReq m \<notin> set (clear_events s ls)"
  by (induction ls) (simp_all add: clear_events_def)

text \<open>A flush on the view.\<close>

lemma view_flush:
  fixes s c pr
  defines "gone \<equiv> filter (\<lambda>l. \<not> keeps c s l) (ls_ldst_inst_queue s)"
  assumes "ls_pipeline_in s = None"
  shows "\<exists>P E. P \<subseteq> v_pl (view s) \<inter> Collect (keeps c s) \<and> E \<subseteq> v_ev (view s) \<inter> Collect (keeps c s) \<and>
    view (ls_handleFlush pr c s) = (view s)\<lparr>v_q := filter (keeps c s) (ls_ldst_inst_queue s),
      v_d := filter (keeps c s) (ls_ready_queue s), v_r := filter (keeps c s) (ls_replay_buffer s), v_pl := P, v_ev := E,
      v_cr := lsu_credits s + length gone\<rparr>"
proof (intro exI conjI)
  have v: "view (ls_handleFlush pr c s) = view (flush_result c s)" by (simp add: flush_eq view_simps)
  have out: "sum_list (map event_credits (ls_out (flush_result c s))) = lsu_credits s + length gone"
    by (simp add: flush_result_def Let_def lsu_credits_def event_credits_clear gone_def)
  have sent: "v_sent (view (flush_result c s)) = v_sent (view s)"
    by (auto simp: view_def flush_result_def Let_def clear_events_not_req)
  have eq: "view (flush_result c s) = (view s)\<lparr>v_q := filter (keeps c s) (ls_ldst_inst_queue s),
      v_d := filter (keeps c s) (ls_ready_queue s), v_r := filter (keeps c s) (ls_replay_buffer s),
      v_pl := v_pl (view (flush_result c s)), v_ev := v_ev (view (flush_result c s)),
      v_cr := sum_list (map event_credits (ls_out (flush_result c s))), v_sent := v_sent (view (flush_result c s))\<rparr>"
    by (simp add: view_def flush_result_def Let_def lsu_credits_def)
  show "view (ls_handleFlush pr c s) = (view s)\<lparr>v_q := filter (keeps c s) (ls_ldst_inst_queue s),
      v_d := filter (keeps c s) (ls_ready_queue s), v_r := filter (keeps c s) (ls_replay_buffer s),
      v_pl := v_pl (view (flush_result c s)), v_ev := v_ev (view (flush_result c s)), v_cr := lsu_credits s + length gone\<rparr>"
    unfolding v by (subst eq) (simp add: out sent)
  show "v_pl (view (flush_result c s)) \<subseteq> v_pl (view s) \<inter> Collect (keeps c s)"
    using assms(2) by (auto simp: view_def flush_result_def Let_def split: option.splits if_splits)
  show "v_ev (view (flush_result c s)) \<subseteq> v_ev (view s) \<inter> Collect (keeps c s)"
    by (auto simp: view_def flush_result_def Let_def)
qed

section \<open>The reachable states\<close>

text \<open>What the other units may do to the instructions the unit holds: a completed one retires; one that
  a flush removes (\<open>F\<close>) may take any later status. Everything else of an entry is the unit's own.\<close>

definition env_inst :: "(ptr \<Rightarrow> bool) \<Rightarrow> LSU \<Rightarrow> heap \<Rightarrow> bool" where
  "env_inst F s h =
     ((\<forall>p. i_is_store (h p) = i_is_store (w_inst s p) \<and>
           (SCHEDULED \<le> i_status (w_inst s p) \<longrightarrow> SCHEDULED \<le> i_status (h p))) \<and>
      (\<forall>l\<in>set (ls_ldst_inst_queue s) \<union> live s. F (ip_of s l) \<or> i_status (h (ip_of s l)) = i_status (inst_of s l) \<or>
           i_status (inst_of s l) = COMPLETED \<and> i_status (h (ip_of s l)) = RETIRED))"

definition env_mem :: "LSU \<Rightarrow> (mptr \<Rightarrow> MemoryAccessInfo) \<Rightarrow> bool" where
  "env_mem s f =
     (\<forall>m. mi_ldst_inst (f m) = mi_ldst_inst (w_mai s m) \<and> mi_issue_queue_iterator (f m) = mi_issue_queue_iterator (w_mai s m) \<and>
          mi_replay_queue_iterator (f m) = mi_replay_queue_iterator (w_mai s m))"

text \<open>The passage of a cycle: the pipeline moves and the delays of the scheduled events count down.\<close>

definition lsu_tick :: "LSU \<Rightarrow> LSU" where
  "lsu_tick s =
     (let s1 = pl_update s
      in s1\<lparr>ls_uev_issue_inst := remdups (map (\<lambda>d. d - 1) (ls_uev_issue_inst s1)),
            ls_uev_replay_ready := map (\<lambda>(l, d). (l, d - 1)) (ls_uev_replay_ready s1)\<rparr>)"

inductive lsu_reach ::
    "((lptr \<Rightarrow> lptr \<Rightarrow> bool) \<Rightarrow> lptr list \<Rightarrow> lptr \<Rightarrow> lptr list) \<Rightarrow> LSUParameterSet \<Rightarrow> LSU \<Rightarrow> bool"
  for pqi :: "(lptr \<Rightarrow> lptr \<Rightarrow> bool) \<Rightarrow> lptr list \<Rightarrow> lptr \<Rightarrow> lptr list" and pr :: LSUParameterSet where
  start: "mk_LSU pr w = Inr s \<Longrightarrow> w_next w = 0 \<Longrightarrow> lsu_reach pqi pr (ls_sendInitialCredits pr s)"
| dispatch: "lsu_reach pqi pr s \<Longrightarrow> i_status (w_inst s p) = DISPATCHED \<Longrightarrow>
    \<forall>l<w_next s. mi_ldst_inst (w_mai s l) \<noteq> Some p \<Longrightarrow> getInstsFromDispatch pqi pr sb j1 j2 p s = Inr s' \<Longrightarrow> lsu_reach pqi pr s'"
| callback: "lsu_reach pqi pr s \<Longrightarrow> (rf, bits, p) \<in> set (ls_callbacks s) \<Longrightarrow>
    ls_handleOperandIssueCheck pqi pr sb p s = Inr s' \<Longrightarrow> lsu_reach pqi pr s'"
| retire_ack: "lsu_reach pqi pr s \<Longrightarrow> getAckFromROB_lsu pr p s = Inr s' \<Longrightarrow> lsu_reach pqi pr s'"
| issue: "lsu_reach pqi pr s \<Longrightarrow> issueInst pr (s\<lparr>ls_uev_issue_inst := removeAll 0 (ls_uev_issue_inst s)\<rparr>) = Inr s' \<Longrightarrow> lsu_reach pqi pr s'"
| replay_ready: "lsu_reach pqi pr s \<Longrightarrow> (l, d) \<in> set (ls_uev_replay_ready s) \<Longrightarrow>
    lsu_reach pqi pr (replayReady pr l (s\<lparr>ls_uev_replay_ready := remove1 (l, d) (ls_uev_replay_ready s)\<rparr>))"
| append_ready: "lsu_reach pqi pr s \<Longrightarrow> l \<in> set (ls_uev_append_ready s) \<Longrightarrow>
    appendReady pqi pr l (s\<lparr>ls_uev_append_ready := remove1 l (ls_uev_append_ready s)\<rparr>) = Inr s' \<Longrightarrow> lsu_reach pqi pr s'"
| address: "lsu_reach pqi pr s \<Longrightarrow> lsu_reach pqi pr (handleAddressCalculation pr s)"
| mmu_lookup: "lsu_reach pqi pr s \<Longrightarrow> handleMMULookupReq pqi pr sb s = Inr s' \<Longrightarrow> lsu_reach pqi pr s'"
| mmu_ack: "lsu_reach pqi pr s \<Longrightarrow> OutMmuLookupReq m \<in> set (ls_out s) \<Longrightarrow> getAckFromMMU pqi pr m s = Inr s' \<Longrightarrow> lsu_reach pqi pr s'"
| mmu_ready: "lsu_reach pqi pr s \<Longrightarrow> OutMmuLookupReq m \<in> set (ls_out s) \<Longrightarrow> handleMMUReadyReq pr m s = Inr s' \<Longrightarrow> lsu_reach pqi pr s'"
| cache_lookup: "lsu_reach pqi pr s \<Longrightarrow> handleCacheLookupReq pqi pr s = Inr s' \<Longrightarrow> lsu_reach pqi pr s'"
| cache_ack: "lsu_reach pqi pr s \<Longrightarrow> OutCacheLookupReq m \<in> set (ls_out s) \<Longrightarrow> lsu_reach pqi pr (getAckFromCache m s)"
| cache_ready: "lsu_reach pqi pr s \<Longrightarrow> OutCacheLookupReq m \<in> set (ls_out s) \<Longrightarrow> handleCacheReadyReq pr m s = Inr s' \<Longrightarrow> lsu_reach pqi pr s'"
| cache_read: "lsu_reach pqi pr s \<Longrightarrow> handleCacheRead pqi pr s = Inr s' \<Longrightarrow> lsu_reach pqi pr s'"
| complete: "lsu_reach pqi pr s \<Longrightarrow> ls_completeInst pr s = Inr s' \<Longrightarrow> lsu_reach pqi pr s'"
| flush: "lsu_reach pqi pr s \<Longrightarrow> ls_pipeline_in s = None \<Longrightarrow> env_inst (includedInFlush h c) s h \<Longrightarrow>
    lsu_reach pqi pr (ls_handleFlush pr c (s\<lparr>w_inst := h\<rparr>))"
| cycle: "lsu_reach pqi pr s \<Longrightarrow> lsu_reach pqi pr (lsu_tick s)"
| environment: "lsu_reach pqi pr s \<Longrightarrow> env_inst (\<lambda>_. False) s h \<Longrightarrow> env_mem s f \<Longrightarrow> lsu_reach pqi pr (s\<lparr>w_inst := h, w_mai := f\<rparr>)"
| terminate: "lsu_reach pqi pr s \<Longrightarrow> lsu_reach pqi pr (ls_onROBTerminate b s)"

lemma inv_flush:
  assumes inv: "lsu_inv pr k s" and i: "ls_pipeline_in s = None" and env: "env_inst (includedInFlush h c) s h"
  shows "lsu_inv pr k (ls_handleFlush pr c (s\<lparr>w_inst := h\<rparr>))"
proof -
  let ?s = "s\<lparr>w_inst := h\<rparr>" and ?sp = "lsp_allow_speculative_load_exec pr"
  define K where "K = keeps c ?s"
  have vs: "view ?s = (view s)\<lparr>v_inst := h\<rparr>" by (simp add: view_def lsu_credits_def)
  have K: "K l \<longleftrightarrow> \<not> includedInFlush h c (ip_of s l)" for l by (simp add: K_def keeps_def ip_of_def mem_of_def)
  from view_flush[of ?s c pr] i obtain P E where PE: "P \<subseteq> v_pl (view s) \<inter> Collect K" "E \<subseteq> v_ev (view s) \<inter> Collect K"
    and vf: "view (ls_handleFlush pr c ?s) = (view ?s)\<lparr>v_q := filter K (ls_ldst_inst_queue s), v_d := filter K (ls_ready_queue s),
      v_r := filter K (ls_replay_buffer s), v_pl := P, v_ev := E,
      v_cr := lsu_credits s + length (filter (\<lambda>l. \<not> K l) (ls_ldst_inst_queue s))\<rparr>"
    by (auto simp: vs K_def[symmetric] lsu_credits_def)
  let ?n = "length (filter (\<lambda>l. \<not> K l) (ls_ldst_inst_queue s))"
  let ?v = "(view s)\<lparr>v_q := filter K (v_q (view s)), v_d := filter K (v_d (view s)), v_r := filter K (v_r (view s)), v_pl := P, v_ev := E\<rparr>"
  have f: "vinv ?sp (k - int ?n) ?v" using vinv_filter[OF inv[unfolded lsu_inv_def] PE] by simp
  have sub: "set (v_q ?v) \<union> vlive ?v \<subseteq> (set (ls_ldst_inst_queue s) \<union> live s) \<inter> Collect K"
    using PE by (auto simp: vlive_def live_def)
  have "vinv ?sp (k - int ?n) (?v\<lparr>v_inst := h\<rparr>)"
  proof (rule vinv_status[OF f])
    fix l assume l: "l \<in> set (v_q ?v) \<union> vlive ?v"
    have m: "l \<in> set (ls_ldst_inst_queue s) \<union> live s" "\<not> includedInFlush h c (ip_of s l)"
      using subsetD[OF sub l] K by auto
    then have "i_status (h (ip_of s l)) = i_status (inst_of s l) \<or>
        i_status (inst_of s l) = COMPLETED \<and> i_status (h (ip_of s l)) = RETIRED" using env unfolding env_inst_def by blast
    moreover have "i_status (inst_of s l) \<le> RETIRED" using inv_facts(19)[OF inv m(1)] .
    ultimately show "i_status (h (vip ?v l)) \<le> RETIRED \<and> (l \<in> vlive ?v \<and> i_status (h (vip ?v l)) = SCHEDULED \<longrightarrow> i_status (vinst ?v l) = SCHEDULED)"
      by auto
  qed (use env in \<open>auto simp: env_inst_def\<close>)
  from vinv_credit[OF this, of ?n]
  have "vinv ?sp k (?v\<lparr>v_inst := h, v_cr := lsu_credits s + ?n\<rparr>)" by simp
  moreover have "view (ls_handleFlush pr c ?s) = ?v\<lparr>v_inst := h, v_cr := lsu_credits s + ?n\<rparr>"
    unfolding vf vs by (rule lview.equality) simp_all
  ultimately show ?thesis by (simp add: lsu_inv_def)
qed

lemma inv_env:
  assumes inv: "lsu_inv pr k s" and env: "env_inst (\<lambda>_. False) s h" "env_mem s f"
  shows "lsu_inv pr k (s\<lparr>w_inst := h, w_mai := f\<rparr>)"
proof -
  have "view (s\<lparr>w_inst := h, w_mai := f\<rparr>) = (view s)\<lparr>v_inst := h\<rparr>"
    using env(2) by (simp add: view_def lsu_credits_def env_mem_def)
  moreover have "vinv (lsp_allow_speculative_load_exec pr) k ((view s)\<lparr>v_inst := h\<rparr>)"
  proof (rule vinv_status[OF inv[unfolded lsu_inv_def]])
    fix l assume l: "l \<in> set (v_q (view s)) \<union> vlive (view s)"
    then have "l \<in> set (ls_ldst_inst_queue s) \<union> live s" by (simp add: live_def)
    with env(1) inv_facts(19)[OF inv, of l] have "i_status (inst_of s l) \<le> RETIRED"
      "i_status (h (ip_of s l)) = i_status (inst_of s l) \<or> i_status (inst_of s l) = COMPLETED \<and> i_status (h (ip_of s l)) = RETIRED"
      unfolding env_inst_def by blast+
    then show "i_status (h (vip (view s) l)) \<le> RETIRED \<and>
        (l \<in> vlive (view s) \<and> i_status (h (vip (view s) l)) = SCHEDULED \<longrightarrow> i_status (vinst (view s) l) = SCHEDULED)"
      by auto
  qed (use env(1) in \<open>auto simp: env_inst_def\<close>)
  ultimately show ?thesis by (simp add: lsu_inv_def)
qed

lemma inv_tick: "lsu_inv pr k s \<Longrightarrow> lsu_inv pr k (lsu_tick s)"
proof -
  assume "lsu_inv pr k s"
  then have "lsu_inv pr k (pl_update s)" by (rule inv_pl_update)
  moreover have "fst ` set (map (\<lambda>(l, d). (l, d - 1)) xs) = fst ` set xs" for xs :: "(lptr \<times> nat) list" by force
  then have "view (lsu_tick s) = view (pl_update s)" by (simp add: lsu_tick_def Let_def view_def lsu_credits_def)
  ultimately show ?thesis by (simp add: lsu_inv_def)
qed

lemma inv_start:
  assumes "mk_LSU pr w = Inr s" "w_next w = 0"
  shows "lsu_inv pr (int (lsp_ldst_inst_queue_size pr)) (ls_sendInitialCredits pr s)"
  using assms
  by (auto simp: mk_LSU_def ls_sendInitialCredits_def lsu_inv_def ls_emit_def vinv_defs view_def vlive_def world.extend_def
      LSU.fields_def lsu_credits_def)

theorem reach_inv:
  assumes pqi: "pqi_ok pqi" and r: "lsu_reach pqi pr s"
  shows "lsu_inv pr (int (lsp_ldst_inst_queue_size pr)) s"
  using r
proof (induction rule: lsu_reach.induct)
  case (callback s rf bits p sb s')
  from inv_handleOperandIssueCheck[OF callback.IH pqi] callback.hyps(3) show ?case by blast
next
  case (issue s s')
  then have "lsu_inv pr (int (lsp_ldst_inst_queue_size pr)) (s\<lparr>ls_uev_issue_inst := removeAll 0 (ls_uev_issue_inst s)\<rparr>)"
    by (simp add: lsu_inv_def view_simps)
  from inv_issueInst[OF this] issue(2) show ?case by simp
next
  case (append_ready s l s')
  with appendReady_ok_inv[OF _ pqi, of pr _ s l] show ?case by fastforce
next
  case (address s)
  then show ?case by (simp add: handleAddressCalculation_def lsu_inv_def view_simps split: option.split)
next
  case (mmu_lookup s sb s')
  with handleMMULookupReq_ok_inv[OF _ pqi, of pr _ s sb] show ?case by fastforce
next
  case (mmu_ack s m s')
  then have "m \<in> v_sent (view s)" by (simp add: view_def)
  with inv_facts(1,14)[OF mmu_ack.IH] have "mi_ldst_inst (w_mai s m) \<noteq> None" by (auto simp: obj_inv_def)
  with getAckFromMMU_ok_inv[OF mmu_ack.IH pqi, of m] mmu_ack(3) show ?case by auto
next
  case (cache_lookup s s')
  with handleCacheLookupReq_ok_inv[OF _ pqi, of pr _ s] show ?case by fastforce
next
  case (cache_read s s')
  with handleCacheRead_ok_inv[OF _ pqi, of pr _ s] show ?case by fastforce
next
  case (terminate s b)
  then show ?case by (simp add: ls_onROBTerminate_def lsu_inv_def view_simps)
qed (auto intro: inv_start inv_dispatch[OF _ pqi] inv_ack_rob inv_replayReady inv_handleMMUReadyReq inv_getAckFromCache
      inv_handleCacheReadyReq inv_completeInst inv_flush inv_tick inv_env simp: view_def)

section \<open>Loads that wait for a store\<close>

definition waiting_load :: "(RegFile \<Rightarrow> nat set) \<Rightarrow> LSU \<Rightarrow> lptr \<Rightarrow> bool" where
  "waiting_load sb s l =
     (\<not> i_is_store (inst_of s l) \<and> i_status (inst_of s l) = DISPATCHED \<and> instOperandReady sb s (ip_of s l))"

lemma mai_newDispatch: "updateIssuePriorityAfterNewDispatch p s = Inr s' \<Longrightarrow> w_mai s' = w_mai s"
  by (auto simp: updateIssuePriorityAfterNewDispatch_def setStatus_ok_iff setPriority_def setState_def upd_lsi_def upd_inst_def
      split: option.splits if_splits)

lemma mai_appendToReadyQueue: "appendToReadyQueue pqi l s = Inr s' \<Longrightarrow> w_mai s' = w_mai s"
  by (auto simp: appendToReadyQueue_def setState_def setInReadyQueue_def upd_lsi_def)

text \<open>The effect of the loop body on an entry of the issue queue: a waiting load becomes ready and scheduled, and
  nothing else of the entries changes.\<close>

definition same_entries :: "LSU \<Rightarrow> LSU \<Rightarrow> bool" where
  "same_entries s s' =
     (ls_ldst_inst_queue s' = ls_ldst_inst_queue s \<and> w_mai s' = w_mai s \<and> (\<forall>x. ip_of s' x = ip_of s x) \<and>
      (\<forall>x. mem_of s' x = mem_of s x) \<and>
      (\<forall>p. \<exists>st. w_inst s' p = (w_inst s p)\<lparr>i_status := st\<rparr>) \<and> set (ls_ready_queue s) \<subseteq> set (ls_ready_queue s'))"

lemma same_entries_refl: "same_entries s s"
proof -
  have "\<exists>st. w_inst s p = (w_inst s p)\<lparr>i_status := st\<rparr>" for p by (rule exI[of _ "i_status (w_inst s p)"]) simp
  then show ?thesis by (simp add: same_entries_def)
qed

lemma same_entries_trans:
  assumes "same_entries s t" "same_entries t u"
  shows "same_entries s u"
proof -
  have "\<exists>st. w_inst u p = (w_inst s p)\<lparr>i_status := st\<rparr>" for p
  proof -
    from assms obtain a b where "w_inst t p = (w_inst s p)\<lparr>i_status := a\<rparr>" "w_inst u p = (w_inst t p)\<lparr>i_status := b\<rparr>"
      unfolding same_entries_def by metis
    then show ?thesis by (intro exI[of _ b]) simp
  qed
  with assms show ?thesis unfolding same_entries_def by auto
qed

lemma ready_dependent_load_effect:
  assumes inv: "lsu_inv pr k s" and pqi: "pqi_ok pqi" and l: "l \<in> set (ls_ldst_inst_queue s)"
  shows "\<exists>f s'. ready_dependent_load pqi sb (found, s) l = Inr (f, s') \<and> lsu_inv pr k s' \<and> same_entries s s' \<and>
     (\<forall>x\<in>set (ls_ldst_inst_queue s). x \<noteq> l \<longrightarrow> i_status (inst_of s' x) = i_status (inst_of s x)) \<and>
     (waiting_load sb s l \<longrightarrow> l \<in> set (ls_ready_queue s') \<and> i_status (inst_of s' l) = SCHEDULED)"
proof (cases "waiting_load sb s l")
  case False
  with inv show ?thesis by (auto simp: ready_dependent_load_def waiting_load_def same_entries_refl)
next
  case True
  have e: "issue_entry s (ip_of s l) = Some l" by (rule issue_entry_ip[OF inv l])
  from True have st: "i_status (w_inst s (ip_of s l)) < SCHEDULED" by (auto simp: waiting_load_def inst_of_def less_Status_def)
  from newDispatch_ok[OF e st] obtain s1 where s1: "updateIssuePriorityAfterNewDispatch (ip_of s l) s = Inr s1"
    by (auto simp: is_ok_iff)
  note en = inv_schedule_entry[OF inv pqi e s1]
  from en(1) obtain s2 where s2: "appendToReadyQueue pqi l s1 = Inr s2" by (auto simp: is_ok_iff)
  from view_newDispatch[OF s1] have v1: "view s1 = (view s)\<lparr>v_inst := (w_inst s)(ip_of s l := (w_inst s (ip_of s l))\<lparr>i_status := SCHEDULED\<rparr>)\<rparr>"
    by auto
  have v2: "view s2 = (view s1)\<lparr>v_d := pqi (lsi_less s1) (v_d (view s1)) l, v_flag := (v_flag (view s1))(l := True)\<rparr>"
    using view_appendToReadyQueue[OF s2] by simp
  have w: "w_inst s2 = (w_inst s)(ip_of s l := (w_inst s (ip_of s l))\<lparr>i_status := SCHEDULED\<rparr>)"
    using arg_cong[OF v2, of v_inst] arg_cong[OF v1, of v_inst] by simp
  have ip: "ip_of s2 x = ip_of s x" for x
    using arg_cong[OF v2, of "\<lambda>v. vip v x"] arg_cong[OF v1, of "\<lambda>v. vip v x"] by simp
  have mm: "li_mem_access_info (w_lsi s2 x) = li_mem_access_info (w_lsi s x)" for x
    using arg_cong[OF v2, of "\<lambda>v. v_mem v x"] arg_cong[OF v1, of "\<lambda>v. v_mem v x"] by simp
  have d: "set (ls_ready_queue s2) = insert l (set (ls_ready_queue s))"
    using arg_cong[OF v2, of v_d] arg_cong[OF v1, of v_d] pqi by (simp add: pqi_set)
  have mai: "w_mai s2 = w_mai s" using mai_newDispatch[OF s1] mai_appendToReadyQueue[OF s2] by simp
  have "\<exists>a. w_inst s2 p = (w_inst s p)\<lparr>i_status := a\<rparr>" for p
    by (cases "p = ip_of s l") (auto simp: w intro: exI[of _ "i_status (w_inst s p)"])
  then have "same_entries s s2" using en(5)[OF s2] d mai ip mm by (auto simp: same_entries_def mem_of_def)
  moreover have "i_status (inst_of s2 x) = i_status (inst_of s x)" if "x \<in> set (ls_ldst_inst_queue s)" "x \<noteq> l" for x
    using that l inj_onD[OF inv_facts(13)[OF inv], of x l] by (auto simp: inst_of_def ip w)
  moreover have "ready_dependent_load pqi sb (found, s) l = Inr (True, s2)"
    using True s1 s2 by (simp add: ready_dependent_load_def waiting_load_def)
  ultimately show ?thesis using en(2)[OF s2] d by (auto simp: inst_of_def ip w)
qed

lemma readyDependentLoads_effect:
  assumes inv: "lsu_inv pr k s" and pqi: "pqi_ok pqi"
  shows "\<exists>s'. readyDependentLoads pqi pr sb s = Inr s' \<and> same_entries s s' \<and>
     (\<forall>l\<in>set (ls_ldst_inst_queue s). waiting_load sb s l \<longrightarrow> l \<in> set (ls_ready_queue s') \<and> i_status (inst_of s' l) = SCHEDULED)"
proof -
  let ?Q = "ls_ldst_inst_queue s"
  let ?I = "\<lambda>(fs :: bool \<times> LSU) ls. lsu_inv pr k (snd fs) \<and> same_entries s (snd fs) \<and> set ls \<subseteq> set ?Q \<and> distinct ls \<and>
    (\<forall>l\<in>set ls. i_status (inst_of (snd fs) l) = i_status (inst_of s l)) \<and>
    (\<forall>l\<in>set ?Q - set ls. waiting_load sb s l \<longrightarrow> l \<in> set (ls_ready_queue (snd fs)) \<and> i_status (inst_of (snd fs) l) = SCHEDULED)"
  have "\<exists>fs. foldE (ready_dependent_load pqi sb) (False, s) ?Q = Inr fs \<and> ?I fs []"
  proof (rule foldE_rule)
    show "?I (False, s) ?Q" using inv inv_facts(2)[OF inv] by (simp add: same_entries_refl)
    fix fs l ls assume I: "?I fs (l # ls)"
    obtain f t where fs: "fs = (f, t)" by (cases fs)
    have Q: "ls_ldst_inst_queue t = ?Q" and eq: "same_entries s t" using I by (auto simp: fs same_entries_def)
    have w: "waiting_load sb t l = waiting_load sb s l"
    proof -
      obtain a where "w_inst t (ip_of s l) = (w_inst s (ip_of s l))\<lparr>i_status := a\<rparr>" using eq unfolding same_entries_def by blast
      moreover have "i_status (inst_of t l) = i_status (inst_of s l)" using I by (simp add: fs)
      ultimately show ?thesis using eq by (simp add: waiting_load_def inst_of_def instOperandReady_def same_entries_def)
    qed
    from ready_dependent_load_effect[of pr k t pqi l sb f] I pqi Q obtain f' u where
      u: "ready_dependent_load pqi sb (f, t) l = Inr (f', u)" "lsu_inv pr k u" "same_entries t u"
        "\<forall>x\<in>set ?Q. x \<noteq> l \<longrightarrow> i_status (inst_of u x) = i_status (inst_of t x)"
        "waiting_load sb s l \<longrightarrow> l \<in> set (ls_ready_queue u) \<and> i_status (inst_of u l) = SCHEDULED"
      by (auto simp: fs w)
    have sub: "set (ls_ready_queue t) \<subseteq> set (ls_ready_queue u)" using u(3) by (simp add: same_entries_def)
    have rdy: "x \<in> set (ls_ready_queue u) \<and> i_status (inst_of u x) = SCHEDULED"
      if "x \<in> set ?Q - set ls" "waiting_load sb s x" for x
      using that I u(4,5) sub by (cases "x = l") (auto simp: fs)
    have st: "\<forall>x\<in>set ls. i_status (inst_of u x) = i_status (inst_of s x)"
      using I u(4) by (auto simp: fs)
    have "?I (f', u) ls"
      using I u(2) same_entries_trans[OF eq u(3)] rdy st by simp
    with u(1) show "\<exists>fs'. ready_dependent_load pqi sb fs l = Inr fs' \<and> ?I fs' ls" by (auto simp: fs)
  qed
  then obtain f t where t: "foldE (ready_dependent_load pqi sb) (False, s) ?Q = Inr (f, t)" "same_entries s t"
    "\<forall>l\<in>set ?Q. waiting_load sb s l \<longrightarrow> l \<in> set (ls_ready_queue t) \<and> i_status (inst_of t l) = SCHEDULED" by auto
  let ?t = "if f \<and> isReadyToIssueInsts pr t then schedule_issue 0 t else t"
  have "same_entries t ?t" "inst_of ?t x = inst_of t x" "ls_ready_queue ?t = ls_ready_queue t" for x
    using same_entries_refl[of t] by (auto simp: schedule_issue_def same_entries_def ip_of_def mem_of_def inst_of_def)
  with t same_entries_trans[OF t(2)] show ?thesis by (auto simp: readyDependentLoads_def)
qed

section \<open>Properties\<close>

text \<open>C8. No assertion of the load/store unit fires on the way of an access through the unit. In every reachable
  state the translation and the cache stages of the pipeline, the acknowledge of the MMU (with the abort of younger
  loads) and every pending append-ready event succeed; an issue succeeds whenever the unit may issue; and a completing
  access succeeds once the caches and the MMU have answered it, if it has at most one destination
  (\<open>completion_ready\<close>). The ready queue holds no entry twice.\<close>

theorem lsu_handlers_never_assert:
  assumes "pqi_ok pqi" and "lsu_reach pqi pr s"
  shows "is_ok (handleMMULookupReq pqi pr sb s) \<and> is_ok (handleCacheLookupReq pqi pr s) \<and> is_ok (handleCacheRead pqi pr s) \<and>
    (\<forall>m. OutMmuLookupReq m \<in> set (ls_out s) \<longrightarrow> is_ok (getAckFromMMU pqi pr m s)) \<and>
    (\<forall>l\<in>set (ls_uev_append_ready s).
       is_ok (appendReady pqi pr l (s\<lparr>ls_uev_append_ready := remove1 l (ls_uev_append_ready s)\<rparr>))) \<and>
    (isReadyToIssueInsts pr s \<and> ls_pipeline_in s = None \<longrightarrow> is_ok (issueInst pr s)) \<and>
    ((\<forall>l. ls_stage s (complete_stage pr) = Some l \<longrightarrow> completion_ready s l) \<longrightarrow> is_ok (ls_completeInst pr s)) \<and>
    distinct (ls_ready_queue s)"
proof -
  note inv = reach_inv[OF assms]
  have "is_ok (handleMMULookupReq pqi pr sb s)" "is_ok (handleCacheLookupReq pqi pr s)" "is_ok (handleCacheRead pqi pr s)"
    using handleMMULookupReq_ok_inv[OF inv assms(1)] handleCacheLookupReq_ok_inv[OF inv assms(1)] handleCacheRead_ok_inv[OF inv assms(1)]
    by (force simp: is_ok_iff)+
  moreover have "is_ok (getAckFromMMU pqi pr m s)" if "OutMmuLookupReq m \<in> set (ls_out s)" for m
  proof -
    from that have "m \<in> v_sent (view s)" by (simp add: view_def)
    with inv_facts(1,14)[OF inv] have "mi_ldst_inst (w_mai s m) \<noteq> None" by (auto simp: obj_inv_def)
    from getAckFromMMU_ok_inv[OF inv assms(1) this] show ?thesis by (auto simp: is_ok_iff)
  qed
  moreover have "is_ok (appendReady pqi pr l (s\<lparr>ls_uev_append_ready := remove1 l (ls_uev_append_ready s)\<rparr>))"
    if "l \<in> set (ls_uev_append_ready s)" for l using appendReady_ok_inv[OF inv assms(1) that] by (auto simp: is_ok_iff)
  ultimately show ?thesis using issueInst_ok_inv[OF inv] completeInst_ok[OF inv] inv_facts(3)[OF inv] by blast
qed

text \<open>The unit is a receiver of the credit protocol.\<close>

definition lsu_runs :: "LSUParameterSet \<Rightarrow> LSU \<Rightarrow> bool" where
  "lsu_runs pr s \<longleftrightarrow> (\<exists>pqi. pqi_ok pqi \<and> lsu_reach pqi pr s)"

interpretation lsu_cr: exact_credit_interface lsu_runs lsp_ldst_inst_queue_size lsu_credits
    "\<lambda>s. length (ls_ldst_inst_queue s)" ls_insts_dispatched
proof
  fix pr s assume "lsu_runs pr s"
  then obtain pqi where "pqi_ok pqi" "lsu_reach pqi pr s" by (auto simp: lsu_runs_def)
  from reach_inv[OF this] show "lsu_credits s + length (ls_ldst_inst_queue s) = lsp_ldst_inst_queue_size pr + ls_insts_dispatched s"
    by (simp add: lsu_inv_def vinv_def)
qed

text \<open>C16. Conservation of the credits to dispatch. In every reachable state the credits the unit has sent and the
  occupancy of its issue queue equal the size of the queue plus the instructions it has received; so an instruction
  that dispatch sends within its credits never overflows the queue, whatever completed, replayed or was flushed before.\<close>

theorem lsu_credits_exact:
  assumes "pqi_ok pqi" and "lsu_reach pqi pr s"
  shows "lsu_credits s + length (ls_ldst_inst_queue s) = lsp_ldst_inst_queue_size pr + ls_insts_dispatched s \<and>
    (ls_insts_dispatched s < lsu_credits s \<longrightarrow> is_ok (allocateInstToIssueQueue pr junk p s))"
proof -
  have r: "lsu_runs pr s" using assms by (auto simp: lsu_runs_def)
  from lsu_cr.conserve_eq[OF r] lsu_cr.fits[OF r, of 1] show ?thesis
    by (auto simp: allocateInstToIssueQueue_def createLoadStoreInst_def Let_def)
qed

text \<open>C17. Store-to-load forwarding, exactly. A load takes its data from the store buffer if and only if it reads at
  least one byte and every byte it reads is written by some store in the buffer; accesses that reach the end of the
  64-bit address space take no part, as the sum of address and size wraps around. The age of a store plays no role:
  a store younger than the load forwards to it as well.\<close>

theorem store_forwarding_exact:
  "tryStoreToLoadForwarding s p \<longleftrightarrow>
     (let a = unat (i_target_vaddr (w_inst s p)); n = getMemAccessSize (w_inst s p) in
      0 < n \<and> a + n < 18446744073709551616 \<and>
      (\<forall>k<n. \<exists>l\<in>set (ls_store_buffer s).
         let b = unat (i_target_vaddr (inst_of s l)); m = getMemAccessSize (inst_of s l)
         in b + m < 18446744073709551616 \<and> b \<le> a + k \<and> a + k < b + m))"
  unfolding forwarding_exact store_covers_def covers_def Let_def by auto

text \<open>C37. A flush of the load/store unit, exactly. The issue queue, replay buffer, ready queue, store buffer, pipeline
  and pending events keep exactly the entries the criteria do not include, in order; a credit is returned for every
  entry that left the issue queue; the issue event is cancelled when nothing can issue. For each of these
  entries, in order, the unit asks the scoreboards of the integer and the float file to clear the callbacks of the instruction,
  and nothing else: it makes no such call to the vector file, and no registration.\<close>

theorem lsu_flush_exact:
  "let K = (\<lambda>l. \<not> includedInFlush (w_inst s) c (ip_of s l)); s' = ls_handleFlush pr c s in
     ls_ldst_inst_queue s' = filter K (ls_ldst_inst_queue s) \<and> ls_replay_buffer s' = filter K (ls_replay_buffer s) \<and>
     ls_ready_queue s' = filter K (ls_ready_queue s) \<and> ls_store_buffer s' = filter K (ls_store_buffer s) \<and>
     ls_uev_append_ready s' = filter K (ls_uev_append_ready s) \<and>
     ls_uev_replay_ready s' = filter (\<lambda>x. K (fst x)) (ls_uev_replay_ready s) \<and>
     (\<forall>k. ls_stage s' k = (case ls_stage s k of None \<Rightarrow> None | Some l \<Rightarrow> if K l then Some l else None)) \<and>
     lsu_credits s' + length (ls_ldst_inst_queue s') = lsu_credits s + length (ls_ldst_inst_queue s) \<and>
     ls_uev_issue_inst s' = (if isReadyToIssueInsts pr s' then ls_uev_issue_inst s else []) \<and>
     (let gone = filter (\<lambda>l. \<not> K l) (ls_ldst_inst_queue s) in
        ls_out s' = ls_out s @ concat (map (\<lambda>l. [ClearLsuCallbacks RF_INTEGER (i_unique_id (inst_of s l)),
              ClearLsuCallbacks RF_FLOAT (i_unique_id (inst_of s l))]) gone) @
            (if gone = [] then [] else [OutLsuCredits (length gone)])) \<and>
     ls_callbacks s' = ls_callbacks s"
proof -
  let ?s = "ls_handleFlush pr c s"
  have K: "(\<lambda>l. \<not> includedInFlush (w_inst s) c (ip_of s l)) = keeps c s" by (simp add: keeps_def fun_eq_iff)
  note s' = flush_eq flush_result_def Let_def
  have "ls_stage ?s k = (case ls_stage s k of None \<Rightarrow> None | Some l \<Rightarrow> if keeps c s l then Some l else None)" for k
    by (auto simp: s' ls_stage_def split: option.splits)
  moreover have "lsu_credits ?s + length (ls_ldst_inst_queue ?s) = lsu_credits s + length (ls_ldst_inst_queue s)"
    using sum_length_filter_compl[of "keeps c s" "ls_ldst_inst_queue s"]
    by (auto simp: s' lsu_credits_def event_credits_clear)
  moreover have "ls_uev_issue_inst ?s = (if isReadyToIssueInsts pr ?s then ls_uev_issue_inst s else [])"
    by (simp add: flush_eq isReadyToIssueInsts_def) (simp add: flush_result_def Let_def)
  moreover have "ls_callbacks ?s = ls_callbacks s" by (simp add: s')
  moreover have "ls_out ?s = (let gone = filter (\<lambda>l. \<not> keeps c s l) (ls_ldst_inst_queue s) in
      ls_out s @ clear_events s gone @ (if gone = [] then [] else [OutLsuCredits (length gone)]))" by (simp add: s')
  ultimately show ?thesis unfolding K Let_def clear_events_def by (simp add: s')
qed

text \<open>C38. Without speculation a load should wait until the addresses of all older stores are known; it does not. As
  soon as one store reaches the translation stage, every dispatched load with ready operands is scheduled, also one with
  an older store whose address is still unknown.\<close>

theorem load_passes_unknown_store:
  assumes "pqi_ok pqi" and "lsu_reach pqi pr s" and "\<not> lsp_allow_speculative_load_exec pr"
    and st: "ls_stage s (mmu_lookup_stage pr) = Some st" "i_is_store (inst_of s st)" "mi_mmu_access_state (mem_of s st) \<noteq> MMU_HIT"
    and l: "l \<in> set (ls_ldst_inst_queue s)" "\<not> i_is_store (inst_of s l)" "i_status (inst_of s l) = DISPATCHED"
      "instOperandReady sb s (ip_of s l)"
    and old: "\<not> allOlderStoresIssued s (ip_of s l)"
  shows "\<exists>s'. handleMMULookupReq pqi pr sb s = Inr s' \<and> l \<in> set (ls_ready_queue s') \<and>
     i_status (inst_of s' l) = SCHEDULED \<and> \<not> allOlderStoresIssued s' (ip_of s' l)"
proof -
  have w: "waiting_load sb s l" using l by (simp add: waiting_load_def)
  from readyDependentLoads_effect[OF reach_inv[OF assms(1,2)] assms(1)] obtain s1 where
    s1: "readyDependentLoads pqi pr sb s = Inr s1" "same_entries s s1" "l \<in> set (ls_ready_queue s1)" "i_status (inst_of s1 l) = SCHEDULED"
    using l(1) w by blast
  let ?s = "ls_emit (OutMmuLookupReq (li_mem_access_info (w_lsi s1 st))) s1"
  have "ip_of ?s x = ip_of s1 x" "mem_of ?s x = mem_of s1 x" for x by (simp_all add: ls_emit_def ip_of_def mem_of_def)
  moreover have "w_inst ?s = w_inst s1" "w_mai ?s = w_mai s1" "ls_ldst_inst_queue ?s = ls_ldst_inst_queue s1"
    "ls_ready_queue ?s = ls_ready_queue s1" by (simp_all add: ls_emit_def)
  ultimately have e: "same_entries s ?s" using s1(2) by (simp add: same_entries_def)
  have "i_is_store (inst_of ?s x) = i_is_store (inst_of s x)" "i_unique_id (inst_of ?s x) = i_unique_id (inst_of s x)"
    "i_unique_id (w_inst ?s p) = i_unique_id (w_inst s p)" for x p
  proof -
    obtain a b where "w_inst ?s (ip_of s x) = (w_inst s (ip_of s x))\<lparr>i_status := a\<rparr>" "w_inst ?s p = (w_inst s p)\<lparr>i_status := b\<rparr>"
      using e unfolding same_entries_def by metis
    with e show "i_is_store (inst_of ?s x) = i_is_store (inst_of s x)" "i_unique_id (inst_of ?s x) = i_unique_id (inst_of s x)"
      "i_unique_id (w_inst ?s p) = i_unique_id (w_inst s p)" by (simp_all add: same_entries_def inst_of_def)
  qed
  then have "allOlderStoresIssued ?s (ip_of ?s l) = allOlderStoresIssued s (ip_of s l)"
    using e unfolding allOlderStoresIssued_def same_entries_def by simp
  moreover have "handleMMULookupReq pqi pr sb s = Inr ?s" using st s1(1) assms(3) by (simp add: handleMMULookupReq_def)
  moreover have "inst_of ?s l = inst_of s1 l" "ls_ready_queue ?s = ls_ready_queue s1"
    by (simp_all add: ls_emit_def inst_of_def ip_of_def mem_of_def)
  ultimately show ?thesis using s1(3,4) old by simp
qed

section \<open>A sample run\<close>

definition sample_lsu_params :: LSUParameterSet where
  "sample_lsu_params = \<lparr>lsp_ldst_inst_queue_size = 8, lsp_replay_buffer_size = 4, lsp_replay_issue_delay = 3,
     lsp_allow_speculative_load_exec = False, lsp_allow_data_forwarding = True, lsp_mmu_lookup_stage_length = 1,
     lsp_cache_lookup_stage_length = 1, lsp_cache_read_stage_length = 1\<rparr>"

text \<open>A store that waits for its address register, a store and a load that are ready.\<close>

definition sample_lsu_heap :: heap where
  "sample_lsu_heap p =
     (let i = (sample_Inst TP_LSU p [] [])\<lparr>i_status := DISPATCHED\<rparr> in
      if p = 0 then i\<lparr>i_is_store := True, i_src_mask := (\<lambda>_. {5})\<rparr> else if p = 1 then i\<lparr>i_is_store := True\<rparr> else i)"

definition sample_world :: world where
  "sample_world = \<lparr>w_inst = sample_lsu_heap, w_mai = (\<lambda>_. mk_MemoryAccessInfo_addr False 0),
     w_lsi = (\<lambda>_. mk_LoadStoreInstInfo False 0), w_next = 0\<rparr>"

definition sample_pqi :: "(lptr \<Rightarrow> lptr \<Rightarrow> bool) \<Rightarrow> lptr list \<Rightarrow> lptr \<Rightarrow> lptr list" where
  "sample_pqi f q l = q @ [l]"

definition no_regs :: "RegFile \<Rightarrow> nat set" where
  "no_regs = (\<lambda>_. {})"


text \<open>The objects that dispatch makes for an instruction, before and after it becomes ready, and the states of the run:
  the three instructions arrive, the second store issues, and two cycles later it looks up its address.\<close>

definition sample_mai :: "ptr \<Rightarrow> lptr option \<Rightarrow> MemoryAccessInfo" where
  "sample_mai p it = (mk_MemoryAccessInfo sample_lsu_heap p)\<lparr>mi_issue_queue_iterator := it\<rparr>"

definition lsu0 :: LSU where
  "lsu0 = \<lparr>w_inst = sample_lsu_heap, w_mai = (\<lambda>_. mk_MemoryAccessInfo_addr False 0), w_lsi = (\<lambda>_. mk_LoadStoreInstInfo False 0),
     w_next = 0, ls_ldst_inst_queue = [], ls_replay_buffer = [], ls_store_buffer = [], ls_ready_queue = [],
     ls_pipeline = [None, None, None, None, None], ls_pipeline_in = None, ls_uev_issue_inst = [], ls_uev_append_ready = [],
     ls_uev_replay_ready = [], ls_callbacks = [], ls_rob_stopped_simulation = False, ls_insts_dispatched = 0,
     ls_stores_retired = 0, ls_insts_issued = 0, ls_replay_insts = 0, ls_insts_completed = 0, ls_flushes = 0,
     ls_out = [OutLsuCredits 8]\<rparr>"

definition lsu1 :: LSU where
  "lsu1 = lsu0\<lparr>w_mai := (w_mai lsu0)(0 := sample_mai 0 (Some 0), 1 := sample_mai 0 None),
     w_lsi := (w_lsi lsu0)(0 := mk_LoadStoreInstInfo False 0, 1 := mk_LoadStoreInstInfo False 1), w_next := 2,
     ls_ldst_inst_queue := [0], ls_store_buffer := [1], ls_callbacks := [(RF_INTEGER, {5}, 0)], ls_insts_dispatched := 1\<rparr>"

definition lsu2 :: LSU where
  "lsu2 = lsu1\<lparr>w_inst := sample_lsu_heap(1 := (sample_lsu_heap 1)\<lparr>i_status := SCHEDULED\<rparr>),
     w_mai := (w_mai lsu1)(2 := sample_mai 1 (Some 2), 3 := sample_mai 1 None),
     w_lsi := (w_lsi lsu1)(3 := mk_LoadStoreInstInfo False 3,
       2 := \<lparr>li_mem_access_info = 2, li_rank = NEW_DISP, li_state = IS_READY, li_in_ready_queue = True\<rparr>), w_next := 4,
     ls_ldst_inst_queue := [0, 2], ls_store_buffer := [1, 3], ls_ready_queue := [2], ls_uev_issue_inst := [0], ls_insts_dispatched := 2\<rparr>"

definition lsu3 :: LSU where
  "lsu3 = lsu2\<lparr>w_mai := (w_mai lsu2)(4 := sample_mai 2 (Some 4)), w_lsi := (w_lsi lsu2)(4 := mk_LoadStoreInstInfo False 4),
     w_next := 5, ls_ldst_inst_queue := [0, 2, 4], ls_insts_dispatched := 3\<rparr>"

definition lsu4 :: LSU where
  "lsu4 = lsu3\<lparr>w_lsi := (w_lsi lsu3)(2 := \<lparr>li_mem_access_info = 2, li_rank = LOWEST, li_state = IS_ISSUED, li_in_ready_queue = False\<rparr>),
     ls_ready_queue := [], ls_pipeline_in := Some 2, ls_uev_issue_inst := [], ls_insts_issued := 1\<rparr>"

definition lsu5 :: LSU where
  "lsu5 = lsu_tick (lsu_tick lsu4)"

lemma sample_lsu_heap_simps:
  "i_status (sample_lsu_heap p) = DISPATCHED" "i_is_store (sample_lsu_heap p) = (p < 2)" "i_unique_id (sample_lsu_heap p) = p"
  "i_src_mask (sample_lsu_heap p) rf = (if p = 0 then {5} else {})" "i_data_mask (sample_lsu_heap p) rf = {}"
  "i_dest_mask (sample_lsu_heap p) rf = {}"
  by (auto simp: sample_lsu_heap_def Let_def sample_Inst_def)

lemmas lsu_run_defs = sample_lsu_params_def sample_mai_def sample_lsu_heap_simps
  getInstsFromDispatch_def allocateInstToIssueQueue_def allocateInstToStoreBuffer_def createLoadStoreInst_def Let_def
  mk_MemoryAccessInfo_def mk_LoadStoreInstInfo_def setIssueQueueIterator_def upd_mai_def upd_lsi_def
  ls_handleOperandIssueCheck_def operand_check_def instOperandReady_def check_store_data_def regfiles_def no_regs_def
  updateIssuePriorityAfterNewDispatch_def issue_entry_def ip_of_def mem_of_def inst_of_def setState_def setPriority_def
  setInReadyQueue_def appendToReadyQueue_inst_def appendToReadyQueue_def issue_if_ready_def isReadyToIssueInsts_def
  schedule_issue_def upd_inst_def sample_pqi_def allOlderStoresIssued_def setStatus_def less_Status_def numeral_2_eq_2 numeral_3_eq_3

definition lsu_get :: "ptr \<Rightarrow> LSU \<Rightarrow> LSU result" where
  "lsu_get = getInstsFromDispatch sample_pqi sample_lsu_params no_regs False False"

lemma sample_pqi_ok: "pqi_ok sample_pqi"
  by (simp add: pqi_ok_def sample_pqi_def)

lemmas lsu_states = lsu5_def lsu4_def lsu3_def lsu2_def lsu1_def lsu0_def

lemma lsu_run_0: "mk_LSU sample_lsu_params sample_world = Inr (lsu0\<lparr>ls_out := []\<rparr>)"
  by (simp add: lsu0_def mk_LSU_def sample_world_def sample_lsu_params_def world.extend_def LSU.fields_def
       complete_stage_def cache_read_stage_def cache_lookup_stage_def mmu_lookup_stage_def address_calculation_stage_def)

lemma lsu_run_1: "lsu_get 0 lsu0 = Inr lsu1"
  by (simp add: lsu_get_def lsu0_def lsu1_def lsu_run_defs)

lemma lsu_run_2: "lsu_get 1 lsu1 = Inr lsu2"
  by (simp add: lsu_get_def lsu0_def lsu1_def lsu2_def lsu_run_defs)

lemma lsu_run_3: "lsu_get 2 lsu2 = Inr lsu3"
  by (simp add: lsu_get_def lsu0_def lsu1_def lsu2_def lsu3_def lsu_run_defs eval_nat_numeral)

lemma lsu_run_4: "issueInst sample_lsu_params (lsu3\<lparr>ls_uev_issue_inst := removeAll 0 (ls_uev_issue_inst lsu3)\<rparr>) = Inr lsu4"
  by (simp add: issueInst_def arbitrateInstIssue_def pl_append_def lsu_states lsu_run_defs)

lemma lsu_reach_0: "lsu_reach sample_pqi sample_lsu_params lsu0"
proof -
  have "ls_sendInitialCredits sample_lsu_params (lsu0\<lparr>ls_out := []\<rparr>) = lsu0"
    by (simp add: lsu0_def ls_sendInitialCredits_def ls_emit_def sample_lsu_params_def)
  with lsu_reach.start[OF lsu_run_0, of sample_pqi] show ?thesis by (simp add: sample_world_def)
qed

lemma lsu_reach_3: "lsu_reach sample_pqi sample_lsu_params lsu3"
proof -
  note step = lsu_reach.dispatch[of sample_pqi sample_lsu_params, OF _ _ _ lsu_run_1[unfolded lsu_get_def]]
    lsu_reach.dispatch[of sample_pqi sample_lsu_params, OF _ _ _ lsu_run_2[unfolded lsu_get_def]]
    lsu_reach.dispatch[of sample_pqi sample_lsu_params, OF _ _ _ lsu_run_3[unfolded lsu_get_def]]
  have "lsu_reach sample_pqi sample_lsu_params lsu1"
    by (rule step(1)[OF lsu_reach_0]) (simp_all add: lsu0_def sample_lsu_heap_simps)
  then have "lsu_reach sample_pqi sample_lsu_params lsu2"
    by (rule step(2)) (simp_all add: lsu0_def lsu1_def lsu_run_defs)
  then show ?thesis
    by (rule step(3)) (simp_all add: lsu0_def lsu1_def lsu2_def lsu_run_defs)
qed

lemma lsu_reach_5: "lsu_reach sample_pqi sample_lsu_params lsu5"
  unfolding lsu5_def by (intro lsu_reach.cycle lsu_reach.issue[OF lsu_reach_3 lsu_run_4])

theorem lsu_handlers_never_assert_witness:
  "is_ok (handleMMULookupReq sample_pqi sample_lsu_params no_regs lsu5) \<and> is_ok (issueInst sample_lsu_params lsu3)"
proof -
  have "isReadyToIssueInsts sample_lsu_params lsu3" "ls_pipeline_in lsu3 = None"
    by (simp_all add: lsu_states lsu_run_defs)
  with lsu_handlers_never_assert[OF sample_pqi_ok lsu_reach_5, of no_regs]
    lsu_handlers_never_assert[OF sample_pqi_ok lsu_reach_3, of no_regs] show ?thesis by blast
qed

theorem lsu_credits_exact_witness:
  "lsu_credits lsu3 = 8 \<and> ls_insts_dispatched lsu3 = 3 \<and> is_ok (allocateInstToIssueQueue sample_lsu_params False 7 lsu3)"
proof -
  have "ls_insts_dispatched lsu3 = 3" "length (ls_ldst_inst_queue lsu3) = 3" by (simp_all add: lsu_states)
  with lsu_credits_exact[OF sample_pqi_ok lsu_reach_3, of False 7] show ?thesis by (simp add: sample_lsu_params_def)
qed

theorem load_passes_unknown_store_witness:
  "\<exists>s'. handleMMULookupReq sample_pqi sample_lsu_params no_regs lsu5 = Inr s' \<and> 4 \<in> set (ls_ready_queue s') \<and>
     i_status (inst_of s' 4) = SCHEDULED \<and> \<not> allOlderStoresIssued s' (ip_of s' 4)"
proof (rule load_passes_unknown_store[OF sample_pqi_ok lsu_reach_5])
  show "\<not> lsp_allow_speculative_load_exec sample_lsu_params" by (simp add: sample_lsu_params_def)
  show "ls_stage lsu5 (mmu_lookup_stage sample_lsu_params) = Some 2"
    by (simp add: lsu_states lsu_tick_def pl_update_def ls_stage_def mmu_lookup_stage_def address_calculation_stage_def sample_lsu_params_def)
qed (simp_all add: lsu_states lsu_tick_def pl_update_def lsu_run_defs eval_nat_numeral)

lemma sample_lsu_heap_access:
  "i_target_vaddr (sample_lsu_heap p) = 0" "getMemAccessSize (sample_lsu_heap p) = 8"
  by (simp_all add: sample_lsu_heap_def Let_def sample_Inst_def getMemAccessSize_def sample_opcode_def)

theorem store_forwarding_exact_witness: "tryStoreToLoadForwarding lsu3 2"
proof -
  have "i_target_vaddr (w_inst lsu3 2) = 0" "getMemAccessSize (w_inst lsu3 2) = 8"
    "i_target_vaddr (inst_of lsu3 1) = 0" "getMemAccessSize (inst_of lsu3 1) = 8" "1 \<in> set (ls_store_buffer lsu3)"
    by (simp_all add: lsu_states lsu_run_defs sample_lsu_heap_access)
  then show ?thesis unfolding store_forwarding_exact Let_def by (auto intro!: bexI[of _ 1])
qed

end
