(* ===== verification/MemProps.thy ===== *)
theory MemProps
  imports MemUnits LsuProps
begin

text \<open>
  Properties of the MMU and the data cache: their composition with the load/store unit over the shared memory accesses,
  the repair of a miss by a refill, and the reachable states of the data cache with their invariant.
\<close>

section \<open>The MMU and the load/store unit\<close>

text \<open>The MMU and the data cache are environment steps of the load/store unit: of a memory access they change the
  states of the translation and of the cache, never what the load/store unit keeps there.\<close>

definition only_mem :: "'a world_scheme \<Rightarrow> 'a world_scheme \<Rightarrow> bool" where
  "only_mem w w' \<longleftrightarrow> (\<exists>f. w' = w\<lparr>w_mai := f\<rparr> \<and>
     (\<forall>m. mi_ldst_inst (f m) = mi_ldst_inst (w_mai w m) \<and> mi_issue_queue_iterator (f m) = mi_issue_queue_iterator (w_mai w m) \<and>
          mi_replay_queue_iterator (f m) = mi_replay_queue_iterator (w_mai w m)))"

lemma only_mem_refl: "only_mem w w"
  by (auto simp: only_mem_def intro!: exI[of _ "w_mai w"])

lemma only_mem_upd:
  assumes "only_mem w0 w"
    and "\<And>x. mi_ldst_inst (f x) = mi_ldst_inst x \<and> mi_issue_queue_iterator (f x) = mi_issue_queue_iterator x \<and>
      mi_replay_queue_iterator (f x) = mi_replay_queue_iterator x"
  shows "only_mem w0 (upd_mai m f w)"
proof -
  from assms(1) obtain g where g: "w = w0\<lparr>w_mai := g\<rparr>" "\<And>m. mi_ldst_inst (g m) = mi_ldst_inst (w_mai w0 m) \<and>
    mi_issue_queue_iterator (g m) = mi_issue_queue_iterator (w_mai w0 m) \<and> mi_replay_queue_iterator (g m) = mi_replay_queue_iterator (w_mai w0 m)"
    by (auto simp: only_mem_def)
  have "upd_mai m f w = w0\<lparr>w_mai := g(m := f (g m))\<rparr>" by (simp add: upd_mai_def g(1))
  moreover have "mi_ldst_inst ((g(m := f (g m))) x) = mi_ldst_inst (w_mai w0 x) \<and>
    mi_issue_queue_iterator ((g(m := f (g m))) x) = mi_issue_queue_iterator (w_mai w0 x) \<and>
    mi_replay_queue_iterator ((g(m := f (g m))) x) = mi_replay_queue_iterator (w_mai w0 x)" for x
    using g(2)[of x] assms(2)[of "g m"] g(2)[of m] by simp
  ultimately show ?thesis unfolding only_mem_def by (intro exI[of _ "g(m := f (g m))"]) simp
qed

lemmas only_mem_intros = only_mem_refl only_mem_upd







lemma receiveResp_only_mem: "only_mem w (fst (receiveRespFromL2Cache m (w, d)))"
  by (auto simp: receiveRespFromL2Cache_def Let_def intro!: only_mem_intros)

lemma mmu_answers:
  assumes "mi_ldst_inst (w_mai w m) = Some p"
  shows "\<exists>w' u'. mu_getInstsFromLSU ca pr m (w, u) = Inr (w', u') \<and> w_inst w' = w_inst w \<and>
    mi_mmu_access_state (w_mai w' m) = (if mup_tlb_always_hit pr \<or> ca_hit ca (mu_tlb_cache u) (i_target_vaddr (w_inst w p)) then MMU_HIT else MMU_MISS) \<and>
    mi_phy_addr_ready (w_mai w' m) = (mi_mmu_access_state (w_mai w' m) = MMU_HIT) \<and> mu_out u' = mu_out u @ [OutLsuLookupAck m] \<and>
    (mi_mmu_access_state (w_mai w' m) \<noteq> MMU_HIT \<and> \<not> mu_busy u \<longrightarrow>
       mu_busy u' \<and> mu_mmu_pending_inst u' = Some m \<and> mu_uev_lookup_inst u' = Some (mup_mmu_latency pr))"
  using assms by (auto simp: mu_getInstsFromLSU_def memLookup_def access_inst_def cache_lookup_def Let_def upd_mai_def mu_emit_def)






section \<open>A refill and the retry\<close>

text \<open>The passage of a response of the L2 cache through the data cache: it arrives, wins the arbitration, and moves
  through the lookup and the read stage.\<close>

definition dcache_refill ::
    "'c cache_api \<Rightarrow> CacheParameterSet \<Rightarrow> mptr \<Rightarrow> 'a world_scheme \<times> 'c DCache \<Rightarrow> ('a world_scheme \<times> 'c DCache) result" where
  "dcache_refill ca pr m wd =
     (case receiveRespFromL2Cache m wd of (w1, d1) \<Rightarrow>
        bindE (arbitrateL2LsuReq d1) (\<lambda>d2.
        bindE (handleLookup ca pr (w1, dl_pl_update d2)) (\<lambda>(w3, d3). Inr (handleDataRead ca (w3, dl_pl_update d3)))))"

text \<open>The same for the MMU: the event that ends a TLB miss.\<close>

lemma mu_lookupInst_ok:
  assumes "mu_mmu_pending_inst u = Some m" "mi_ldst_inst (w_mai w m) = Some p"
  shows "mu_lookupInst ca w u = Inr (mu_emit (OutLsuLookupReq m) (reloadTLB ca (i_target_vaddr (w_inst w p)) (u\<lparr>mu_busy := False\<rparr>)))"
  using assms by (simp add: mu_lookupInst_def access_inst_def)

lemma dcache_refill_ok:
  assumes "dl_pipeline_in d = None" "length (dl_cache_pipeline d) = 3"
  shows "\<exists>w' d'. dcache_refill ca pr m (w, d) = Inr (w', d') \<and> only_mem w w' \<and>
    dl_l1_cache d' = ca_allocate ca (mi_paddr (w_mai w m)) (dl_l1_cache d)"
proof -
  obtain a b c where "dl_cache_pipeline d = [a, b, c]" using assms(2) by (auto simp: numeral_3_eq_3 length_Suc_conv)
  then show ?thesis using assms receiveResp_only_mem[of w m d]
    by (auto simp: dcache_refill_def receiveRespFromL2Cache_def Let_def arbitrateL2LsuReq_def dl_pl_append_def mshr_erase_def
        dl_pl_update_def NUM_STAGES_def handleLookup_def LOOKUP_def handleDataRead_def DATA_READ_def upd_mai_def dl_reloadCache_def split: option.splits)
qed

lemma handleLookup_hit:
  assumes "dl_cache_pipeline d ! LOOKUP = Some m" "\<not> mi_is_refill (w_mai w m)" "mi_ldst_inst (w_mai w m) = Some p"
    and "ca_hit ca (dl_l1_cache d) (getRAdr (w_inst w p))"
  shows "\<exists>w' d'. handleLookup ca pr (w, d) = Inr (w', d') \<and> mi_cache_access_state (w_mai w' m) = CS_HIT \<and>
    dl_out d' = dl_out d @ [OutLsuCacheAck m] \<and> dl_mshr_file d' = dl_mshr_file d"
  using assms by (auto simp: handleLookup_def dataLookup_def access_inst_def cache_lookup_def Let_def ack_lsu_def set_cache_state_def
    upd_mai_def dl_emit_def)

text \<open>C18. A miss is repaired. When the event that ends a TLB miss has run, a lookup of any access to the same page hits
  and makes its physical address ready, and the unit that waits is told; when a response of the L2 cache has passed
  through the data cache (arrival, arbitration before the load/store unit, lookup and read stage, none of which fails)
  any access to the same line that reaches the lookup stage hits, is acknowledged as a hit and takes no MSHR entry.\<close>

theorem miss_refill_then_hit:
  assumes ca: "cache_api_ok ca" and tlb: "cache_api_ok ta"
    and u: "mu_mmu_pending_inst u = Some m" "mi_ldst_inst (w_mai w m) = Some p"
    and d: "dl_pipeline_in d = None" "length (dl_cache_pipeline d) = 3"
  shows "(\<exists>u1. mu_lookupInst ta w u = Inr u1 \<and> \<not> mu_busy u1 \<and> OutLsuLookupReq m \<in> set (mu_out u1) \<and>
      (\<forall>n q. mi_ldst_inst (w_mai w n) = Some q \<and> ca_block ta (i_target_vaddr (w_inst w q)) = ca_block ta (i_target_vaddr (w_inst w p)) \<longrightarrow>
         (\<exists>w' u'. mu_getInstsFromLSU ta mpr n (w, u1) = Inr (w', u') \<and> mi_mmu_access_state (w_mai w' n) = MMU_HIT \<and> mi_phy_addr_ready (w_mai w' n)))) \<and>
    (\<exists>w1 d1. dcache_refill ca pr r (w, d) = Inr (w1, d1) \<and>
      (\<forall>d2 n q. dl_l1_cache d2 = dl_l1_cache d1 \<and> dl_cache_pipeline d2 ! LOOKUP = Some n \<and> \<not> mi_is_refill (w_mai w1 n) \<and>
         mi_ldst_inst (w_mai w1 n) = Some q \<and> ca_block ca (getRAdr (w_inst w1 q)) = ca_block ca (mi_paddr (w_mai w r)) \<longrightarrow>
         (\<exists>w' d'. handleLookup ca pr (w1, d2) = Inr (w', d') \<and> mi_cache_access_state (w_mai w' n) = CS_HIT \<and>
            dl_out d' = dl_out d2 @ [OutLsuCacheAck n] \<and> dl_mshr_file d' = dl_mshr_file d2)))"
proof
  let ?u = "mu_emit (OutLsuLookupReq m) (reloadTLB ta (i_target_vaddr (w_inst w p)) (u\<lparr>mu_busy := False\<rparr>))"
  have "\<exists>w' u'. mu_getInstsFromLSU ta mpr n (w, ?u) = Inr (w', u') \<and> mi_mmu_access_state (w_mai w' n) = MMU_HIT \<and> mi_phy_addr_ready (w_mai w' n)"
    if n: "mi_ldst_inst (w_mai w n) = Some q" "ca_block ta (i_target_vaddr (w_inst w q)) = ca_block ta (i_target_vaddr (w_inst w p))" for n q
  proof -
    have "ca_hit ta (mu_tlb_cache ?u) (i_target_vaddr (w_inst w q))"
      using cache_api_okD(3)[OF tlb n(2)[symmetric]] by (simp add: mu_emit_def reloadTLB_def)
    with mmu_answers[OF n(1), of ta mpr ?u] show ?thesis by auto
  qed
  then show "\<exists>u1. mu_lookupInst ta w u = Inr u1 \<and> \<not> mu_busy u1 \<and> OutLsuLookupReq m \<in> set (mu_out u1) \<and>
      (\<forall>n q. mi_ldst_inst (w_mai w n) = Some q \<and> ca_block ta (i_target_vaddr (w_inst w q)) = ca_block ta (i_target_vaddr (w_inst w p)) \<longrightarrow>
         (\<exists>w' u'. mu_getInstsFromLSU ta mpr n (w, u1) = Inr (w', u') \<and> mi_mmu_access_state (w_mai w' n) = MMU_HIT \<and> mi_phy_addr_ready (w_mai w' n)))"
    unfolding mu_lookupInst_ok[OF u] by (intro exI[of _ ?u]) (simp add: mu_emit_def reloadTLB_def)
next
  from dcache_refill_ok[OF d, of ca pr r w] obtain w1 d1 where r: "dcache_refill ca pr r (w, d) = Inr (w1, d1)"
    "dl_l1_cache d1 = ca_allocate ca (mi_paddr (w_mai w r)) (dl_l1_cache d)" by blast
  have "\<exists>w' d'. handleLookup ca pr (w1, d2) = Inr (w', d') \<and> mi_cache_access_state (w_mai w' n) = CS_HIT \<and>
      dl_out d' = dl_out d2 @ [OutLsuCacheAck n] \<and> dl_mshr_file d' = dl_mshr_file d2"
    if n: "dl_l1_cache d2 = dl_l1_cache d1" "dl_cache_pipeline d2 ! LOOKUP = Some n" "\<not> mi_is_refill (w_mai w1 n)"
      "mi_ldst_inst (w_mai w1 n) = Some q" "ca_block ca (getRAdr (w_inst w1 q)) = ca_block ca (mi_paddr (w_mai w r))" for d2 n q
    using handleLookup_hit[OF n(2,3,4)] cache_api_okD(3)[OF ca n(5)[symmetric]] n(1) r(2) by simp
  with r(1) show "\<exists>w1 d1. dcache_refill ca pr r (w, d) = Inr (w1, d1) \<and>
      (\<forall>d2 n q. dl_l1_cache d2 = dl_l1_cache d1 \<and> dl_cache_pipeline d2 ! LOOKUP = Some n \<and> \<not> mi_is_refill (w_mai w1 n) \<and>
         mi_ldst_inst (w_mai w1 n) = Some q \<and> ca_block ca (getRAdr (w_inst w1 q)) = ca_block ca (mi_paddr (w_mai w r)) \<longrightarrow>
         (\<exists>w' d'. handleLookup ca pr (w1, d2) = Inr (w', d') \<and> mi_cache_access_state (w_mai w' n) = CS_HIT \<and>
            dl_out d' = dl_out d2 @ [OutLsuCacheAck n] \<and> dl_mshr_file d' = dl_mshr_file d2))" by blast
qed

section \<open>The reachable states of the data cache\<close>

definition l2_reqs :: "'c DCache \<Rightarrow> nat" where
  "l2_reqs d = length (filter (\<lambda>e. case e of OutL2CacheReq _ \<Rightarrow> True | _ \<Rightarrow> False) (dl_out d))"

text \<open>The accesses the cache holds.\<close>

definition dl_holds :: "'c DCache \<Rightarrow> mptr \<Rightarrow> bool" where
  "dl_holds d m \<longleftrightarrow> Some m \<in> set (dl_cache_pipeline d) \<or> dl_pipeline_in d = Some m \<or>
     dl_lsu_mem_access_info d = Some m \<or> dl_l2_mem_access_info d = Some m"

text \<open>What the other units do to the accesses: those the cache holds keep their instruction, their refill flag and their
  MSHR iterator; another may become a new access or a copy of any access.\<close>

definition mem_keep :: "MemoryAccessInfo \<Rightarrow> MemoryAccessInfo \<Rightarrow> bool" where
  "mem_keep a b \<longleftrightarrow> mi_ldst_inst a = mi_ldst_inst b \<and> mi_is_refill a = mi_is_refill b \<and>
     mi_mshr_entry_info_iterator a = mi_mshr_entry_info_iterator b"

definition env_dcache :: "world \<Rightarrow> 'c DCache \<Rightarrow> world \<Rightarrow> bool" where
  "env_dcache w d w' \<longleftrightarrow>
     (\<forall>m. mem_keep (w_mai w m) (w_mai w' m) \<or>
          \<not> dl_holds d m \<and> ((\<exists>n. mem_keep (w_mai w n) (w_mai w' m)) \<or>
                            \<not> mi_is_refill (w_mai w' m) \<and> mi_mshr_entry_info_iterator (w_mai w' m) = None))"

text \<open>\<open>dcache_reach ca pr r w d\<close>: the cache reaches \<open>d\<close> with the stores \<open>w\<close> after \<open>r\<close> responses of the L2 cache.\<close>

inductive dcache_reach :: "'c cache_api \<Rightarrow> CacheParameterSet \<Rightarrow> nat \<Rightarrow> world \<Rightarrow> 'c DCache \<Rightarrow> bool"
  for ca :: "'c cache_api" and pr :: CacheParameterSet where
  start: "mk_DCache pr c junk = Inr d \<Longrightarrow> (\<And>m. \<not> mi_is_refill (w_mai w m) \<and> mi_mshr_entry_info_iterator (w_mai w m) = None) \<Longrightarrow>
    dcache_reach ca pr 0 w d"
| environment: "dcache_reach ca pr r w d \<Longrightarrow> env_dcache w d w' \<Longrightarrow> dcache_reach ca pr r w' d"
| lsu_request: "dcache_reach ca pr r w d \<Longrightarrow> mi_ldst_inst (w_mai w m) \<noteq> None \<Longrightarrow> dcache_reach ca pr r w (receiveMemReqFromLSU m d)"
| l2_response: "dcache_reach ca pr r w d \<Longrightarrow> r < l2_reqs d \<Longrightarrow> receiveRespFromL2Cache m (w, d) = (w', d') \<Longrightarrow> dcache_reach ca pr (r + 1) w' d'"
| credits: "dcache_reach ca pr r w d \<Longrightarrow> dcache_reach ca pr r w (dl_getCreditsFromL2Cache n d)"
| arbitrate: "dcache_reach ca pr r w d \<Longrightarrow> dl_receive_event d \<Longrightarrow> arbitrateL2LsuReq (d\<lparr>dl_receive_event := False\<rparr>) = Inr d' \<Longrightarrow>
    dcache_reach ca pr r w d'"
| mshr_request: "dcache_reach ca pr r w d \<Longrightarrow> dl_uev_mshr_request d \<Longrightarrow> dcache_reach ca pr r w (mshrRequest (d\<lparr>dl_uev_mshr_request := False\<rparr>))"
| lookup: "dcache_reach ca pr r w d \<Longrightarrow> handleLookup ca pr (w, d) = Inr (w', d') \<Longrightarrow> dcache_reach ca pr r w' d'"
| data_read: "dcache_reach ca pr r w d \<Longrightarrow> handleDataRead ca (w, d) = (w', d') \<Longrightarrow> dcache_reach ca pr r w' d'"
| deallocate: "dcache_reach ca pr r w d \<Longrightarrow> handleDeallocate w d = Inr d' \<Longrightarrow> dcache_reach ca pr r w d'"
| cycle: "dcache_reach ca pr r w d \<Longrightarrow> dcache_reach ca pr r w (dl_pl_update d)"

definition dcache_inv :: "CacheParameterSet \<Rightarrow> nat \<Rightarrow> world \<Rightarrow> 'c DCache \<Rightarrow> bool" where
  "dcache_inv pr r w d \<longleftrightarrow>
     l2_reqs d = r + (if dl_l2cache_busy d then 1 else 0) \<and>
     length (dl_mshr_file d) \<le> cp_mshr_entries pr \<and> distinct (dl_mshr_file d) \<and>
     (\<forall>e\<in>set (dl_mshr_file d). e < dl_mshr_next d) \<and>
     (\<forall>m e. mi_mshr_entry_info_iterator (w_mai w m) = Some e \<longrightarrow> e < dl_mshr_next d) \<and>
     (\<forall>m. mi_is_refill (w_mai w m) \<longrightarrow> \<not> mshr_valid (mi_mshr_entry_info_iterator (w_mai w m)) d) \<and>
     (\<forall>m. dl_holds d m \<and> mi_ldst_inst (w_mai w m) = None \<longrightarrow> mi_is_refill (w_mai w m)) \<and>
     (dl_receive_event d \<longrightarrow> dl_l2_mem_access_info d \<noteq> None \<or> dl_lsu_mem_access_info d \<noteq> None) \<and>
     length (dl_cache_pipeline d) = 3"

lemma mshr_valid_iff: "mshr_valid it d \<longleftrightarrow> (\<exists>e. it = Some e \<and> e \<in> set (dl_mshr_file d))"
  by (auto simp: mshr_valid_def split: option.splits)

text \<open>The invariant reads the MSHR file, the pipeline with its inputs, and three fields of the accesses.\<close>

lemma dcache_inv_cong:
  assumes "dcache_inv pr r w d" "\<And>m. mem_keep (w_mai w m) (w_mai w' m)"
    "dl_mshr_file d' = dl_mshr_file d" "dl_mshr_next d' = dl_mshr_next d" "dl_cache_pipeline d' = dl_cache_pipeline d"
    "dl_pipeline_in d' = dl_pipeline_in d" "dl_lsu_mem_access_info d' = dl_lsu_mem_access_info d"
    "dl_l2_mem_access_info d' = dl_l2_mem_access_info d" "dl_receive_event d' = dl_receive_event d"
    "l2_reqs d' + (if dl_l2cache_busy d then 1 else 0) = l2_reqs d + (if dl_l2cache_busy d' then 1 else 0)"
  shows "dcache_inv pr r w' d'"
proof -
  have "mi_ldst_inst (w_mai w' m) = mi_ldst_inst (w_mai w m)" "mi_is_refill (w_mai w' m) = mi_is_refill (w_mai w m)"
    "mi_mshr_entry_info_iterator (w_mai w' m) = mi_mshr_entry_info_iterator (w_mai w m)" for m
    using assms(2)[of m] by (simp_all add: mem_keep_def)
  moreover have "dl_holds d' m = dl_holds d m" "mshr_valid it d' = mshr_valid it d" for m it
    by (simp_all add: dl_holds_def mshr_valid_iff assms(3-8))
  moreover have "l2_reqs d' = r + (if dl_l2cache_busy d' then 1 else 0)" using assms(1,10) by (simp add: dcache_inv_def)
  ultimately show ?thesis using assms(1) unfolding dcache_inv_def assms(3-9) by simp
qed

lemma dc_inv_start:
  assumes "mk_DCache pr c junk = Inr d" "\<And>m. \<not> mi_is_refill (w_mai w m) \<and> mi_mshr_entry_info_iterator (w_mai w m) = None"
  shows "dcache_inv pr 0 w d"
  using assms by (auto simp: mk_DCache_def dcache_inv_def l2_reqs_def dl_holds_def NUM_STAGES_def)

lemma inv_environment:
  assumes inv: "dcache_inv pr r w d" and env: "env_dcache w d w'"
  shows "dcache_inv pr r w' d"
proof -
  have c: "mem_keep (w_mai w m) (w_mai w' m) \<or> (\<exists>n. mem_keep (w_mai w n) (w_mai w' m)) \<or>
      \<not> mi_is_refill (w_mai w' m) \<and> mi_mshr_entry_info_iterator (w_mai w' m) = None" for m
    using env unfolding env_dcache_def by blast
  have "e < dl_mshr_next d" if "mi_mshr_entry_info_iterator (w_mai w' m) = Some e" for m e
    using c[of m] that inv unfolding dcache_inv_def mem_keep_def by (metis option.distinct(1))
  moreover have "\<not> mshr_valid (mi_mshr_entry_info_iterator (w_mai w' m)) d" if "mi_is_refill (w_mai w' m)" for m
    using c[of m] that inv unfolding dcache_inv_def mem_keep_def by metis
  moreover have "mi_is_refill (w_mai w' m)" if "dl_holds d m" "mi_ldst_inst (w_mai w' m) = None" for m
    using env that inv unfolding dcache_inv_def mem_keep_def env_dcache_def by metis
  ultimately show ?thesis using inv unfolding dcache_inv_def by blast
qed

lemma inv_lsu_request:
  "dcache_inv pr r w d \<Longrightarrow> mi_ldst_inst (w_mai w m) \<noteq> None \<Longrightarrow> dcache_inv pr r w (receiveMemReqFromLSU m d)"
  by (auto simp: dcache_inv_def receiveMemReqFromLSU_def l2_reqs_def dl_holds_def mshr_valid_iff)

lemma inv_l2_response:
  assumes inv: "dcache_inv pr r w d" and "r < l2_reqs d" and w': "receiveRespFromL2Cache m (w, d) = (w', d')"
  shows "dcache_inv pr (r + 1) w' d'"
proof -
  have f: "dl_mshr_file d' = (case mi_mshr_entry_info_iterator (w_mai w m) of None \<Rightarrow> dl_mshr_file d | Some e \<Rightarrow> remove1 e (dl_mshr_file d))"
    using w' by (auto simp: receiveRespFromL2Cache_def Let_def mshr_erase_def mshr_valid_def remove1_idem split: option.splits)
  have d': "dl_out d' = dl_out d" "\<not> dl_l2cache_busy d'" "dl_mshr_next d' = dl_mshr_next d" "dl_l2_mem_access_info d' = Some m"
    "dl_cache_pipeline d' = dl_cache_pipeline d" "dl_pipeline_in d' = dl_pipeline_in d" "dl_lsu_mem_access_info d' = dl_lsu_mem_access_info d"
    and w: "w_mai w' = (w_mai w)(m := (w_mai w m)\<lparr>mi_is_refill := True\<rparr>)"
    using w' by (auto simp: receiveRespFromL2Cache_def Let_def mshr_erase_def upd_mai_def split: option.splits)
  have "length (dl_mshr_file d') \<le> length (dl_mshr_file d)" "set (dl_mshr_file d') \<subseteq> set (dl_mshr_file d)" "distinct (dl_mshr_file d')"
    using inv by (auto simp: f dcache_inv_def length_remove1 set_remove1_subset split: option.splits dest: notin_set_remove1)
  moreover have "\<not> mshr_valid (mi_mshr_entry_info_iterator (w_mai w' n)) d'" if "mi_is_refill (w_mai w' n)" for n
    using inv that by (auto simp: f w dcache_inv_def mshr_valid_def split: option.splits if_splits dest: notin_set_remove1)
  moreover have "mi_is_refill (w_mai w' n)" if "dl_holds d' n" "mi_ldst_inst (w_mai w' n) = None" for n
    using inv that by (auto simp: w d' dcache_inv_def dl_holds_def split: if_splits)
  ultimately show ?thesis using inv assms(2) by (auto simp: dcache_inv_def d' w l2_reqs_def subset_iff split: if_splits)
qed

lemma inv_credits: "dcache_inv pr r w d \<Longrightarrow> dcache_inv pr r w (dl_getCreditsFromL2Cache n d)"
  by (erule dcache_inv_cong) (simp_all add: dl_getCreditsFromL2Cache_def mem_keep_def l2_reqs_def)

lemma inv_arbitrate:
  "dcache_inv pr r w d \<Longrightarrow> arbitrateL2LsuReq (d\<lparr>dl_receive_event := False\<rparr>) = Inr d' \<Longrightarrow> dcache_inv pr r w d'"
  by (auto simp: dcache_inv_def arbitrateL2LsuReq_def dl_pl_append_def bindE_eq_Inr l2_reqs_def dl_holds_def mshr_valid_iff
      split: option.splits)

lemma inv_mshr_request: "dcache_inv pr r w d \<Longrightarrow> dcache_inv pr r w (mshrRequest (d\<lparr>dl_uev_mshr_request := False\<rparr>))"
  by (erule dcache_inv_cong) (auto simp: mshrRequest_def mem_keep_def l2_reqs_def dl_emit_def split: option.splits)

lemma inv_data_read:
  assumes "dcache_inv pr r w d" "handleDataRead ca (w, d) = (w', d')"
  shows "dcache_inv pr r w' d'"
proof (rule dcache_inv_cong[OF assms(1)])
  note defs = handleDataRead_def dl_reloadCache_def ack_lsu_def dl_emit_def upd_mai_def
  show "mem_keep (w_mai w m) (w_mai w' m)" for m using assms(2) by (auto simp: defs mem_keep_def split: option.splits if_splits)
  show "l2_reqs d' + (if dl_l2cache_busy d then 1 else 0) = l2_reqs d + (if dl_l2cache_busy d' then 1 else 0)"
    using assms(2) by (auto simp: defs l2_reqs_def split: option.splits if_splits)
qed (use assms(2) in \<open>auto simp: handleDataRead_def dl_reloadCache_def ack_lsu_def dl_emit_def split: option.splits if_splits\<close>)

lemma dealloc_dead: "dcache_inv pr r w d \<Longrightarrow> handleDeallocate w d = Inr d"
  by (auto simp: handleDeallocate_def dcache_inv_def split: option.splits)

lemma inv_cycle: "dcache_inv pr r w d \<Longrightarrow> dcache_inv pr r w (dl_pl_update d)"
  by (auto simp: dcache_inv_def dl_pl_update_def NUM_STAGES_def l2_reqs_def dl_holds_def mshr_valid_iff
      dest!: in_set_takeD)

lemma inv_allocate:
  assumes inv: "dcache_inv pr r w d" and "allocateMSHREntry pr m (w, d) = Inr (w', d')" and m: "\<not> mi_is_refill (w_mai w m)"
  shows "dcache_inv pr r w' d'"
proof -
  from assms(2) obtain e where e: "length (dl_mshr_file d) < cp_mshr_entries pr"
    "w' = upd_mai m (\<lambda>x. x\<lparr>mi_mshr_entry_info_iterator := Some (dl_mshr_next d)\<rparr>) w"
    "d' = d\<lparr>dl_mshr_file := dl_mshr_file d @ [dl_mshr_next d], dl_mshr := (dl_mshr d)(dl_mshr_next d := e), dl_mshr_next := dl_mshr_next d + 1\<rparr>"
    by (auto simp: allocateMSHREntry_def bindE_eq_Inr Let_def)
  have "\<not> mshr_valid (mi_mshr_entry_info_iterator (w_mai w' n)) d'" if "mi_is_refill (w_mai w' n)" for n
    using inv that m by (auto simp: e upd_mai_def dcache_inv_def mshr_valid_iff split: if_splits)
  with inv e show ?thesis
    by (auto simp: dcache_inv_def l2_reqs_def dl_holds_def upd_mai_def less_Suc_eq split: if_splits)
qed

lemma inv_lookup_mshr:
  assumes "dcache_inv pr r w d" "lookup_mshr m (w, d) = Inr (w', d')"
  shows "dcache_inv pr r w' d'"
proof (rule dcache_inv_cong[OF assms(1)])
  note defs = lookup_mshr_def bindE_eq_Inr set_cache_state_def upd_mshr_def upd_mai_def
  show "mem_keep (w_mai w n) (w_mai w' n)" for n using assms(2) by (auto simp: defs mem_keep_def split: option.splits if_splits)
qed (use assms(2) in \<open>auto simp: lookup_mshr_def bindE_eq_Inr upd_mshr_def l2_reqs_def split: option.splits if_splits\<close>)

lemma inv_ack: "dcache_inv pr r w d \<Longrightarrow> ack_lsu m (w, d) = (w', d') \<Longrightarrow> dcache_inv pr r w' d'"
  by (erule dcache_inv_cong) (auto simp: ack_lsu_def dl_emit_def mem_keep_def l2_reqs_def)

lemma inv_set_state: "dcache_inv pr r w d \<Longrightarrow> dcache_inv pr r (set_cache_state m st w) d"
  by (erule dcache_inv_cong) (auto simp: set_cache_state_def upd_mai_def mem_keep_def)

text \<open>The lookup stage, case by case.\<close>

lemma handleLookup_cases:
  assumes "handleLookup ca pr (w, d) = res" "dl_cache_pipeline d ! LOOKUP = Some m" "\<not> mi_is_refill (w_mai w m)"
  obtains e where "mi_ldst_inst (w_mai w m) = None" "res = Inl e"
  | d1 where "dcache_inv pr r w d \<Longrightarrow> dcache_inv pr r w d1" "res = Inr (ack_lsu m (set_cache_state m CS_HIT w, d1))"
  | d1 where "dcache_inv pr r w d \<Longrightarrow> dcache_inv pr r w d1" "res = Inr (ack_lsu m (set_cache_state m CS_MISS w, d1))"
  | d1 b where "dcache_inv pr r w d \<Longrightarrow> dcache_inv pr r w d1" "b \<or> mshr_valid (mi_mshr_entry_info_iterator (w_mai w m)) d1"
      "b \<Longrightarrow> length (dl_mshr_file d1) < cp_mshr_entries pr" "mi_ldst_inst (w_mai w m) \<noteq> None"
      "res = bindE (if b then allocateMSHREntry pr m (w, d1) else Inr (w, d1)) (\<lambda>wd2. bindE (lookup_mshr m wd2) (\<lambda>wd3. Inr (ack_lsu m wd3)))"
proof (cases "mi_ldst_inst (w_mai w m)")
  case None
  with assms that(1) show ?thesis by (auto simp: handleLookup_def dataLookup_def access_inst_def)
next
  case (Some p)
  then obtain hit d1 where h: "dataLookup ca pr m w d = Inr (hit, d1)"
    by (cases "cache_lookup ca (cp_l1_always_hit pr) (getRAdr (w_inst w p)) (dl_l1_cache d)")
      (simp add: dataLookup_def access_inst_def Let_def)
  have k: "dcache_inv pr r w d1" if "dcache_inv pr r w d"
    by (rule dcache_inv_cong[OF that]) (use h Some in \<open>auto simp: mem_keep_def dataLookup_def access_inst_def Let_def l2_reqs_def split: prod.splits if_splits\<close>)
  let ?b = "\<not> mshr_valid (mi_mshr_entry_info_iterator (w_mai w m)) d1"
  consider "hit" | "\<not> hit" "?b" "cp_mshr_entries pr \<le> length (dl_mshr_file d1)"
    | "\<not> hit" "\<not> (?b \<and> cp_mshr_entries pr \<le> length (dl_mshr_file d1))" by blast
  then show ?thesis
  proof cases
    case 1
    then show ?thesis using that(2)[OF k] assms h by (simp add: handleLookup_def)
  next
    case 2
    then show ?thesis using that(3)[OF k] assms h by (simp add: handleLookup_def)
  next
    case 3
    show ?thesis by (rule that(4)[of d1 ?b]) (use 3 k assms h Some in \<open>auto simp: handleLookup_def not_le\<close>)
  qed
qed

lemma inv_lookup:
  assumes inv: "dcache_inv pr r w d" and l: "handleLookup ca pr (w, d) = Inr (w', d')"
  shows "dcache_inv pr r w' d'"
proof (cases "dl_cache_pipeline d ! LOOKUP")
  case None
  with assms show ?thesis by (simp add: handleLookup_def)
next
  case (Some m)
  show ?thesis
  proof (cases "mi_is_refill (w_mai w m)")
    case True
    with assms Some show ?thesis by (simp add: handleLookup_def)
  next
    case False
    from l Some False show ?thesis
    proof (cases rule: handleLookup_cases[where r = r])
      case (4 d1 b)
      then obtain w2 d2 w3 d3 where s: "(if b then allocateMSHREntry pr m (w, d1) else Inr (w, d1)) = Inr (w2, d2)"
        "lookup_mshr m (w2, d2) = Inr (w3, d3)" "ack_lsu m (w3, d3) = (w', d')" using 4(5)[symmetric] by (auto simp: bindE_eq_Inr simp del: if_splits)
      have "dcache_inv pr r w2 d2" using s(1) inv_allocate[OF 4(1)[OF inv] _ False] 4(1)[OF inv] by (auto split: if_splits)
      from inv_ack[OF inv_lookup_mshr[OF this s(2)] s(3)] show ?thesis .
    next
      case (2 d1)
      then show ?thesis using inv_ack[OF inv_set_state[OF 2(1)[OF inv]]] by simp
    next
      case (3 d1)
      then show ?thesis using inv_ack[OF inv_set_state[OF 3(1)[OF inv]]] by simp
    qed simp
  qed
qed

lemma dcache_reach_inv: "dcache_reach ca pr r w d \<Longrightarrow> dcache_inv pr r w d"
proof (induction rule: dcache_reach.induct)
  case (deallocate r w d d')
  with dealloc_dead show ?case by fastforce
qed (blast intro: dc_inv_start inv_environment inv_lsu_request inv_l2_response inv_credits inv_arbitrate inv_mshr_request inv_lookup inv_data_read inv_cycle)+

lemma handleLookup_ok:
  assumes inv: "dcache_inv pr r w d" and pow: "is_power_of_2 (cp_l1_line_size pr)"
  shows "is_ok (handleLookup ca pr (w, d))"
proof (cases "dl_cache_pipeline d ! LOOKUP")
  case None
  then show ?thesis by (simp add: handleLookup_def)
next
  case (Some m)
  show ?thesis
  proof (cases "mi_is_refill (w_mai w m)")
    case True
    with Some show ?thesis by (simp add: handleLookup_def)
  next
    case False
    have "Some m \<in> set (dl_cache_pipeline d)" using Some inv nth_mem[of LOOKUP "dl_cache_pipeline d"] by (simp add: dcache_inv_def LOOKUP_def)
    with False inv have i: "mi_ldst_inst (w_mai w m) \<noteq> None" by (auto simp: dcache_inv_def dl_holds_def)
    from refl[of "handleLookup ca pr (w, d)"] Some False show ?thesis
    proof (cases rule: handleLookup_cases[where r = r])
      case (4 d1 b)
      have l: "is_ok (lookup_mshr m (w1, d2))" if "mi_ldst_inst (w_mai w1 m) \<noteq> None" "mi_mshr_entry_info_iterator (w_mai w1 m) \<noteq> None"
        for w1 :: world and d2 :: "'a DCache" using that by (auto simp: lookup_mshr_def access_inst_def is_ok_iff)
      have "\<exists>w1 d2. (if b then allocateMSHREntry pr m (w, d1) else Inr (w, d1)) = Inr (w1, d2) \<and>
          mi_ldst_inst (w_mai w1 m) \<noteq> None \<and> mi_mshr_entry_info_iterator (w_mai w1 m) \<noteq> None"
        using 4(2,3) i pow
        by (auto simp: allocateMSHREntry_def mk_MSHREntryInfo_def mk_SimpleCacheLine_def Let_def upd_mai_def mshr_valid_iff)
      then obtain w1 d2 where s: "(if b then allocateMSHREntry pr m (w, d1) else Inr (w, d1)) = Inr (w1, d2)" "is_ok (lookup_mshr m (w1, d2))"
        using l by blast
      then show ?thesis unfolding 4(5) s(1) by (auto simp: is_ok_iff)
    qed (use i in auto)
  qed
qed

text \<open>C19. The data cache in every reachable state, whatever the other units do: the lookup stage and the arbitration
  never fail; at most one request to the L2 cache is outstanding, namely exactly while the cache is busy; the MSHR file never exceeds
  its size. The deallocate stage does nothing: the entry of a refill was erased when the response arrived, so the
  acknowledge to the load that waits in the entry is never sent.\<close>

theorem dcache_single_outstanding:
  fixes d :: "'c DCache"
  assumes "dcache_reach ca pr r w d" and "is_power_of_2 (cp_l1_line_size pr)"
  shows "is_ok (handleLookup ca pr (w, d)) \<and>
    (dl_receive_event d \<and> dl_pipeline_in d = None \<longrightarrow> is_ok (arbitrateL2LsuReq (d\<lparr>dl_receive_event := False\<rparr>))) \<and>
    l2_reqs d = r + (if dl_l2cache_busy d then 1 else 0) \<and> length (dl_mshr_file d) \<le> cp_mshr_entries pr \<and>
    handleDeallocate w d = Inr d"
proof -
  note inv = dcache_reach_inv[OF assms(1)]
  have "is_ok (arbitrateL2LsuReq (d\<lparr>dl_receive_event := False\<rparr>))" if "dl_receive_event d" "dl_pipeline_in d = None"
    using inv that by (auto simp: dcache_inv_def arbitrateL2LsuReq_def dl_pl_append_def is_ok_iff split: option.splits)
  with inv handleLookup_ok[OF inv assms(2)] dealloc_dead[OF inv] show ?thesis by (simp add: dcache_inv_def)
qed

section \<open>Witnesses\<close>



definition sample_mmu_params :: MMUParameterSet where
  "sample_mmu_params = \<lparr>mup_tlb_always_hit = False, mup_mmu_latency = 1\<rparr>"

definition sample_dcache_params :: CacheParameterSet where
  "sample_dcache_params = \<lparr>cp_l1_line_size = 64, cp_l1_always_hit = False, cp_mshr_entries = 8\<rparr>"

definition sample_dcache :: "64 word list DCache" where
  "sample_dcache = projr (mk_DCache sample_dcache_params [] (\<lambda>_. projr (mk_MSHREntryInfo 64)))"

lemma sample_line_size: "is_power_of_2 (cp_l1_line_size sample_dcache_params)"
  unfolding is_power_of_2_def list_ex_iff by (simp add: sample_dcache_params_def bexI[of _ 6])

definition sample_mem_world :: world where
  "sample_mem_world = sample_world\<lparr>w_mai := (\<lambda>_. mk_MemoryAccessInfo sample_lsu_heap 0)\<rparr>"


theorem miss_refill_then_hit_witness:
  "(\<exists>u'. mu_lookupInst sample_cache sample_mem_world ((mk_MMU [])\<lparr>mu_mmu_pending_inst := Some 0\<rparr>) = Inr u' \<and>
      mu_tlb_cache u' = [0] \<and> is_ok (dcache_refill sample_cache sample_dcache_params 0 (sample_mem_world, sample_dcache)))"
proof -
  have h: "mu_mmu_pending_inst ((mk_MMU [])\<lparr>mu_mmu_pending_inst := Some 0\<rparr>) = Some 0"
    "mi_ldst_inst (w_mai sample_mem_world 0) = Some 0" "dl_pipeline_in sample_dcache = None" "length (dl_cache_pipeline sample_dcache) = 3"
    by (simp_all add: sample_mem_world_def mk_MemoryAccessInfo_def sample_dcache_def mk_DCache_def sample_dcache_params_def NUM_STAGES_def)
  have "mu_lookupInst sample_cache sample_mem_world ((mk_MMU [])\<lparr>mu_mmu_pending_inst := Some 0\<rparr>) = Inr u' \<Longrightarrow> mu_tlb_cache u' = [0]" for u'
    using h(2) by (auto simp: mu_lookupInst_def mk_MMU_def access_inst_def mu_emit_def reloadTLB_def sample_cache_def sample_block_def
      sample_mem_world_def sample_world_def sample_lsu_heap_access)
  with miss_refill_then_hit[OF sample_cache_ok sample_cache_ok h, of sample_mmu_params sample_dcache_params 0] show ?thesis
    by (auto simp: is_ok_iff)
qed

theorem dcache_single_outstanding_witness:
  "is_ok (arbitrateL2LsuReq (receiveMemReqFromLSU 3 sample_dcache\<lparr>dl_receive_event := False\<rparr>)) \<and> l2_reqs (receiveMemReqFromLSU 3 sample_dcache) = 0"
proof -
  have "mk_DCache sample_dcache_params [] (\<lambda>_. projr (mk_MSHREntryInfo 64)) = Inr sample_dcache"
    by (simp add: sample_dcache_def mk_DCache_def sample_dcache_params_def)
  then have "dcache_reach sample_cache sample_dcache_params 0 sample_mem_world sample_dcache"
    by (rule dcache_reach.start) (simp add: sample_mem_world_def mk_MemoryAccessInfo_def)
  then have r: "dcache_reach sample_cache sample_dcache_params 0 sample_mem_world (receiveMemReqFromLSU 3 sample_dcache)"
    by (rule dcache_reach.lsu_request) (simp add: sample_mem_world_def mk_MemoryAccessInfo_def)
  have "dl_receive_event (receiveMemReqFromLSU 3 sample_dcache)" "dl_pipeline_in (receiveMemReqFromLSU 3 sample_dcache) = None"
    "\<not> dl_l2cache_busy (receiveMemReqFromLSU 3 sample_dcache)"
    by (simp_all add: receiveMemReqFromLSU_def sample_dcache_def mk_DCache_def sample_dcache_params_def)
  with dcache_single_outstanding[OF r sample_line_size] show ?thesis by simp
qed

end
