(* ===== verification/BusMemory.thy ===== *)
theory BusMemory
  imports MemAccess Credits
begin

text \<open>
  The bus interface unit (\<open>mss/BIU.hpp\<close>, \<open>BIU.cpp\<close>) and the memory behind it (\<open>mss/MSS.hpp\<close>, \<open>MSS.cpp\<close>), and their
  composition. A scheduled unique event is a flag (with its delay where the code gives one), what a unit sends is
  the list of its output. The composition interleaves the events and the messages of the two units in every order.
\<close>

section \<open>Bus interface unit\<close>

record BIUParameterSet =
  bp_biu_req_queue_size :: nat
  bp_biu_latency :: nat

datatype biu_event =
    OutBiuCredits nat
  | OutBiuResp mptr nat
  | OutMssReq mptr nat

record BIU =
  bi_biu_req_queue :: "mptr list"
  bi_biu_busy :: bool
  bi_ev_handle_biu_req :: bool
  bi_ev_handle_mss_ack :: bool
  bi_out :: "biu_event list"

definition mk_BIU :: BIU where
  "mk_BIU = \<lparr>bi_biu_req_queue = [], bi_biu_busy = False, bi_ev_handle_biu_req = False, bi_ev_handle_mss_ack = False, bi_out = []\<rparr>"

definition bi_emit :: "biu_event \<Rightarrow> BIU \<Rightarrow> BIU" where
  "bi_emit e s = s\<lparr>bi_out := bi_out s @ [e]\<rparr>"

definition bi_sendInitialCredits :: "BIUParameterSet \<Rightarrow> BIU \<Rightarrow> BIU" where
  "bi_sendInitialCredits pr s = bi_emit (OutBiuCredits (bp_biu_req_queue_size pr)) s"

text \<open>The assertion admits a queue that is already full.\<close>

definition appendReqQueue :: "BIUParameterSet \<Rightarrow> mptr \<Rightarrow> BIU \<Rightarrow> BIU result" where
  "appendReqQueue pr m s =
     bindE (assertE (length (bi_biu_req_queue s) \<le> bp_biu_req_queue_size pr) ''BIU request queue overflows!'') (\<lambda>_.
       Inr (s\<lparr>bi_biu_req_queue := bi_biu_req_queue s @ [m]\<rparr>))"

definition receiveReqFromL2Cache :: "BIUParameterSet \<Rightarrow> mptr \<Rightarrow> BIU \<Rightarrow> BIU result" where
  "receiveReqFromL2Cache pr m s =
     bindE (appendReqQueue pr m s) (\<lambda>s1. Inr (if \<not> bi_biu_busy s1 then s1\<lparr>bi_ev_handle_biu_req := True\<rparr> else s1))"

definition handleBIUReq :: "BIUParameterSet \<Rightarrow> BIU \<Rightarrow> BIU result" where
  "handleBIUReq pr s =
     (let s1 = s\<lparr>bi_biu_busy := True\<rparr> in
      case bi_biu_req_queue s1 of
        [] \<Rightarrow> Inl (UndefinedBehaviour ''front of an empty list'')
      | m # _ \<Rightarrow> Inr (bi_emit (OutMssReq m (bp_biu_latency pr)) s1))"

definition handleMSSAck :: "BIUParameterSet \<Rightarrow> BIU \<Rightarrow> BIU result" where
  "handleMSSAck pr s =
     (case bi_biu_req_queue s of
        [] \<Rightarrow> Inl (UndefinedBehaviour ''front of an empty list'')
      | m # rest \<Rightarrow>
          let s1 = (bi_emit (OutBiuResp m (bp_biu_latency pr)) s)\<lparr>bi_biu_req_queue := rest\<rparr>;
              s2 = (bi_emit (OutBiuCredits 1) s1)\<lparr>bi_biu_busy := False\<rparr>
          in Inr (if length (bi_biu_req_queue s2) > 0 then s2\<lparr>bi_ev_handle_biu_req := True\<rparr> else s2))"

definition getAckFromMSS :: "bool \<Rightarrow> BIU \<Rightarrow> BIU result" where
  "getAckFromMSS d s =
     (if d then Inr (s\<lparr>bi_ev_handle_mss_ack := True\<rparr>) else Inl (SpartaAssert ''MSS is NOT done!''))"

section \<open>Memory\<close>

record MSSParameterSet =
  mp_mss_latency :: nat

record MSS =
  ms_mss_busy :: bool
  ms_ev_handle_mss_req :: "nat option"
  ms_out_mss_ack :: "bool list"

definition mk_MSS :: MSS where
  "mk_MSS = \<lparr>ms_mss_busy = False, ms_ev_handle_mss_req = None, ms_out_mss_ack = []\<rparr>"

definition getReqFromBIU :: "MSSParameterSet \<Rightarrow> mptr option \<Rightarrow> MSS \<Rightarrow> MSS result" where
  "getReqFromBIU pr mo s =
     bindE (assertE (mo \<noteq> None) ''MSS is not handling a valid request!'') (\<lambda>_.
       if \<not> ms_mss_busy s then Inr (s\<lparr>ms_mss_busy := True, ms_ev_handle_mss_req := Some (mp_mss_latency pr)\<rparr>)
       else Inl (SpartaAssert ''MSS can never receive requests from BIU when it is busy!''))"

definition handle_MSS_req :: "MSS \<Rightarrow> MSS" where
  "handle_MSS_req s = s\<lparr>ms_mss_busy := False, ms_out_mss_ack := ms_out_mss_ack s @ [True]\<rparr>"

section \<open>The bus: the two units and the ports between them\<close>

text \<open>A message on a port is one that was sent and not yet received: \<open>bs_reqs\<close> requests have reached the memory and
  \<open>bs_acks\<close> acknowledges have reached the bus interface. \<open>bs_received\<close> are the requests of the L2 cache.\<close>

record bus =
  bs_biu :: BIU
  bs_mss :: MSS
  bs_reqs :: nat
  bs_acks :: nat
  bs_received :: "mptr list"

definition mss_reqs :: "biu_event list \<Rightarrow> mptr list" where
  "mss_reqs es = concat (map (\<lambda>e. case e of OutMssReq m _ \<Rightarrow> [m] | _ \<Rightarrow> []) es)"

definition biu_resps :: "biu_event list \<Rightarrow> mptr list" where
  "biu_resps es = concat (map (\<lambda>e. case e of OutBiuResp m _ \<Rightarrow> [m] | _ \<Rightarrow> []) es)"

definition biu_credits :: "biu_event list \<Rightarrow> nat" where
  "biu_credits es = sum_list (map (\<lambda>e. case e of OutBiuCredits n \<Rightarrow> n | _ \<Rightarrow> 0) es)"

definition reqs_on_port :: "bus \<Rightarrow> mptr list" where
  "reqs_on_port b = drop (bs_reqs b) (mss_reqs (bi_out (bs_biu b)))"

definition acks_on_port :: "bus \<Rightarrow> bool list" where
  "acks_on_port b = drop (bs_acks b) (ms_out_mss_ack (bs_mss b))"

text \<open>The steps of the units themselves: a scheduled event runs, or a message arrives. The events of a cycle may run
  in any order and the latencies take any time.\<close>

inductive bus_step :: "BIUParameterSet \<Rightarrow> MSSParameterSet \<Rightarrow> bus \<Rightarrow> bus result \<Rightarrow> bool"
  for bp :: BIUParameterSet and mp :: MSSParameterSet where
  run_biu_req: "bi_ev_handle_biu_req (bs_biu b) \<Longrightarrow>
    r = handleBIUReq bp ((bs_biu b)\<lparr>bi_ev_handle_biu_req := False\<rparr>) \<Longrightarrow>
    bus_step bp mp b (bindE r (\<lambda>x. Inr (b\<lparr>bs_biu := x\<rparr>)))"
| req_arrives: "reqs_on_port b = m # ms \<Longrightarrow> r = getReqFromBIU mp (Some m) (bs_mss b) \<Longrightarrow>
    bus_step bp mp b (bindE r (\<lambda>x. Inr (b\<lparr>bs_mss := x, bs_reqs := bs_reqs b + 1\<rparr>)))"
| run_mss_req: "ms_ev_handle_mss_req (bs_mss b) \<noteq> None \<Longrightarrow>
    bus_step bp mp b (Inr (b\<lparr>bs_mss := handle_MSS_req ((bs_mss b)\<lparr>ms_ev_handle_mss_req := None\<rparr>)\<rparr>))"
| ack_arrives: "acks_on_port b = a # as \<Longrightarrow> r = getAckFromMSS a (bs_biu b) \<Longrightarrow>
    bus_step bp mp b (bindE r (\<lambda>x. Inr (b\<lparr>bs_biu := x, bs_acks := bs_acks b + 1\<rparr>)))"
| run_mss_ack: "bi_ev_handle_mss_ack (bs_biu b) \<Longrightarrow>
    r = handleMSSAck bp ((bs_biu b)\<lparr>bi_ev_handle_mss_ack := False\<rparr>) \<Longrightarrow>
    bus_step bp mp b (bindE r (\<lambda>x. Inr (b\<lparr>bs_biu := x\<rparr>)))"

definition bus_receive :: "BIUParameterSet \<Rightarrow> mptr \<Rightarrow> bus \<Rightarrow> bus result" where
  "bus_receive bp m b =
     bindE (receiveReqFromL2Cache bp m (bs_biu b)) (\<lambda>x. Inr (b\<lparr>bs_biu := x, bs_received := bs_received b @ [m]\<rparr>))"

inductive bus_reach :: "BIUParameterSet \<Rightarrow> MSSParameterSet \<Rightarrow> bus \<Rightarrow> bool"
  for bp :: BIUParameterSet and mp :: MSSParameterSet where
  start: "bus_reach bp mp \<lparr>bs_biu = bi_sendInitialCredits bp mk_BIU, bs_mss = mk_MSS, bs_reqs = 0, bs_acks = 0, bs_received = []\<rparr>"
| step: "bus_reach bp mp b \<Longrightarrow> bus_step bp mp b (Inr b') \<Longrightarrow> bus_reach bp mp b'"
| request: "bus_reach bp mp b \<Longrightarrow> length (bs_received b) < biu_credits (bi_out (bs_biu b)) \<Longrightarrow>
    bus_receive bp m b = Inr b' \<Longrightarrow> bus_reach bp mp b'"

section \<open>The invariant\<close>

text \<open>Where the one outstanding transaction is.\<close>

datatype bus_phase = Idle | Starting | Requested | InMemory | Acked | Finishing

fun in_phase :: "bus_phase \<Rightarrow> bus \<Rightarrow> bool" where
  "in_phase ph b =
     ((bi_biu_req_queue (bs_biu b) = []) = (ph = Idle) \<and>
      bi_biu_busy (bs_biu b) = (ph \<notin> {Idle, Starting}) \<and>
      bi_ev_handle_biu_req (bs_biu b) = (ph = Starting) \<and>
      reqs_on_port b = (if ph = Requested then [hd (bi_biu_req_queue (bs_biu b))] else []) \<and>
      ms_mss_busy (bs_mss b) = (ph = InMemory) \<and> (ms_ev_handle_mss_req (bs_mss b) \<noteq> None) = (ph = InMemory) \<and>
      acks_on_port b = (if ph = Acked then [True] else []) \<and>
      bi_ev_handle_mss_ack (bs_biu b) = (ph = Finishing))"

definition bus_inv :: "BIUParameterSet \<Rightarrow> bus_phase \<Rightarrow> bus \<Rightarrow> bool" where
  "bus_inv bp ph b \<longleftrightarrow> in_phase ph b \<and>
     biu_resps (bi_out (bs_biu b)) @ bi_biu_req_queue (bs_biu b) = bs_received b \<and>
     biu_credits (bi_out (bs_biu b)) + length (bi_biu_req_queue (bs_biu b)) = bp_biu_req_queue_size bp + length (bs_received b) \<and>
     bs_reqs b \<le> length (mss_reqs (bi_out (bs_biu b))) \<and> bs_acks b \<le> length (ms_out_mss_ack (bs_mss b))"

text \<open>The phases left for the requests of the queue, five for each.\<close>

fun phases_left :: "bus_phase \<Rightarrow> nat" where
  "phases_left Idle = 0"
| "phases_left Starting = 5"
| "phases_left Requested = 4"
| "phases_left InMemory = 3"
| "phases_left Acked = 2"
| "phases_left Finishing = 1"

lemma event_sum_simps [simp]:
  "mss_reqs (es @ fs) = mss_reqs es @ mss_reqs fs" "mss_reqs (e # es) = (case e of OutMssReq m _ \<Rightarrow> [m] | _ \<Rightarrow> []) @ mss_reqs es"
  "biu_resps (es @ fs) = biu_resps es @ biu_resps fs" "biu_resps (e # es) = (case e of OutBiuResp m _ \<Rightarrow> [m] | _ \<Rightarrow> []) @ biu_resps es"
  "biu_credits (es @ fs) = biu_credits es + biu_credits fs"
  "biu_credits (e # es) = (case e of OutBiuCredits n \<Rightarrow> n | _ \<Rightarrow> 0) + biu_credits es"
  "mss_reqs [] = []" "biu_resps [] = []" "biu_credits [] = 0"
  by (simp_all add: mss_reqs_def biu_resps_def biu_credits_def)

lemmas bus_defs = reqs_on_port_def acks_on_port_def bi_emit_def

fun next_phase :: "bus_phase \<Rightarrow> bool \<Rightarrow> bus_phase" where
  "next_phase Starting e = Requested"
| "next_phase Requested e = InMemory"
| "next_phase InMemory e = Acked"
| "next_phase Acked e = Finishing"
| "next_phase Finishing e = (if e then Idle else Starting)"
| "next_phase Idle e = Idle"

lemma drop_eq_Cons: "drop n xs = y # ys \<Longrightarrow> drop (Suc n) xs = ys \<and> n < length xs"
  by (metis drop_Suc drop_all list.distinct(1) list.sel(3) not_le_imp_less tl_drop)

definition bus_next :: "BIUParameterSet \<Rightarrow> bus_phase \<Rightarrow> bus \<Rightarrow> bus \<Rightarrow> bool" where
  "bus_next bp ph b b' \<longleftrightarrow> bus_inv bp (next_phase ph (bi_biu_req_queue (bs_biu b') = [])) b' \<and> bs_received b' = bs_received b \<and>
     bi_biu_req_queue (bs_biu b') = (if ph = Finishing then tl (bi_biu_req_queue (bs_biu b)) else bi_biu_req_queue (bs_biu b))"

lemma bus_step_phase:
  assumes "bus_step bp mp b r" and inv: "bus_inv bp ph b"
  shows "ph \<noteq> Idle \<and> (\<exists>b'. r = Inr b' \<and> bus_next bp ph b b')"
  using assms(1)
proof cases
  case (run_biu_req r)
  with inv have "ph = Starting" by (simp add: bus_inv_def)
  with inv run_biu_req show ?thesis
    by (cases "bi_biu_req_queue (bs_biu b)") (simp_all add: handleBIUReq_def bus_defs bus_inv_def bus_next_def)
next
  case (req_arrives m ms r)
  with inv have "ph = Requested" by (simp add: bus_inv_def split: if_splits)
  with inv req_arrives drop_eq_Cons[OF req_arrives(2)[unfolded reqs_on_port_def]] show ?thesis
    by (simp add: getReqFromBIU_def bus_defs bus_inv_def bus_next_def)
next
  case run_mss_req
  with inv have "ph = InMemory" by (simp add: bus_inv_def)
  with inv run_mss_req show ?thesis by (simp add: handle_MSS_req_def bus_defs bus_inv_def bus_next_def)
next
  case (ack_arrives a as r)
  with inv have "ph = Acked" by (simp add: bus_inv_def split: if_splits)
  with inv ack_arrives drop_eq_Cons[OF ack_arrives(2)[unfolded acks_on_port_def]] show ?thesis
    by (simp add: getAckFromMSS_def bus_defs bus_inv_def bus_next_def)
next
  case (run_mss_ack r)
  with inv have "ph = Finishing" by (simp add: bus_inv_def)
  with inv run_mss_ack show ?thesis
    by (cases "bi_biu_req_queue (bs_biu b)") (auto simp: handleMSSAck_def bus_defs bus_inv_def bus_next_def Let_def)
qed

lemma bus_receive_phase:
  assumes "bus_inv bp ph b" "length (bs_received b) < biu_credits (bi_out (bs_biu b))"
  shows "\<exists>b'. bus_receive bp m b = Inr b' \<and> bus_inv bp (if ph = Idle then Starting else ph) b'"
  using assms by (auto simp: bus_receive_def receiveReqFromL2Cache_def appendReqQueue_def bus_inv_def bus_defs)

lemma bus_reach_inv: "bus_reach bp mp b \<Longrightarrow> \<exists>ph. bus_inv bp ph b"
proof (induction rule: bus_reach.induct)
  case start
  have "bus_inv bp Idle \<lparr>bs_biu = bi_sendInitialCredits bp mk_BIU, bs_mss = mk_MSS, bs_reqs = 0, bs_acks = 0, bs_received = []\<rparr>"
    by (simp add: bus_inv_def bus_defs bi_sendInitialCredits_def mk_BIU_def mk_MSS_def biu_credits_def mss_reqs_def biu_resps_def)
  then show ?case ..
next
  case (step b b')
  then show ?case using bus_step_phase by (fastforce simp: bus_next_def)
next
  case (request b m b')
  from request.IH obtain ph where "bus_inv bp ph b" by blast
  from bus_receive_phase[OF this request(2), of m] request(3) show ?case by auto
qed

text \<open>Outside the idle phase some step is enabled.\<close>

lemma bus_progress:
  assumes "bus_inv bp ph b" "ph \<noteq> Idle"
  shows "\<exists>r. bus_step bp mp b r"
proof (cases ph)
  case Starting
  with assms show ?thesis by (auto simp: bus_inv_def intro: bus_step.run_biu_req)
next
  case Requested
  with assms show ?thesis by (auto simp: bus_inv_def intro: bus_step.req_arrives)
next
  case InMemory
  with assms show ?thesis by (auto simp: bus_inv_def intro: bus_step.run_mss_req)
next
  case Acked
  with assms show ?thesis by (auto simp: bus_inv_def intro: bus_step.ack_arrives)
next
  case Finishing
  with assms show ?thesis by (auto simp: bus_inv_def intro: bus_step.run_mss_ack)
qed (use assms in simp)

inductive bus_run :: "BIUParameterSet \<Rightarrow> MSSParameterSet \<Rightarrow> nat \<Rightarrow> bus \<Rightarrow> bus \<Rightarrow> bool"
  for bp :: BIUParameterSet and mp :: MSSParameterSet where
  stop: "bus_run bp mp 0 b b"
| more: "bus_step bp mp b (Inr b') \<Longrightarrow> bus_run bp mp n b' b'' \<Longrightarrow> bus_run bp mp (Suc n) b b''"

fun bus_work :: "bus_phase \<Rightarrow> bus \<Rightarrow> nat" where
  "bus_work ph b = 5 * (length (bi_biu_req_queue (bs_biu b)) - 1) + phases_left ph"

lemma bus_work_step:
  assumes "bus_inv bp ph b" "ph \<noteq> Idle" "bus_next bp ph b b'"
  shows "bus_work ph b = Suc (bus_work (next_phase ph (bi_biu_req_queue (bs_biu b') = [])) b')"
  using assms by (cases ph; cases "bi_biu_req_queue (bs_biu b)"; cases "tl (bi_biu_req_queue (bs_biu b))") (auto simp: bus_inv_def bus_next_def)

text \<open>A run of the units is never longer than the work left and can always be extended to exactly that length; then
  every request has been answered.\<close>

lemma bus_run_bounded:
  assumes "bus_run bp mp n b b'" "bus_inv bp ph b"
  shows "n \<le> bus_work ph b \<and> (n = bus_work ph b \<longrightarrow> bus_inv bp Idle b')"
  using assms
proof (induction arbitrary: ph)
  case (stop b)
  then show ?case by (cases ph) (auto simp: bus_inv_def)
next
  case (more b b' n b'')
  from bus_step_phase[OF more(1) more(4)] have "ph \<noteq> Idle" "bus_next bp ph b b'" by auto
  with more.IH[of "next_phase ph (bi_biu_req_queue (bs_biu b') = [])"] bus_work_step[OF more(4)] show ?case
    by (auto simp: bus_next_def)
qed

lemma bus_run_exists:
  assumes "bus_inv bp ph b" "k = bus_work ph b"
  shows "\<exists>b'. bus_run bp mp k b b' \<and> bs_received b' = bs_received b"
  using assms
proof (induction k arbitrary: ph b)
  case 0
  then show ?case by (auto intro: bus_run.stop)
next
  case (Suc k)
  then have ph: "ph \<noteq> Idle" by (auto simp: bus_inv_def)
  from bus_progress[OF Suc.prems(1) ph] obtain r where r: "bus_step bp mp b r" by blast
  from bus_step_phase[OF r Suc.prems(1)] obtain b1 where b1: "r = Inr b1" "bus_next bp ph b b1" by blast
  from Suc.IH[of "next_phase ph (bi_biu_req_queue (bs_biu b1) = [])" b1] bus_work_step[OF Suc.prems(1) ph b1(2)] Suc.prems(2) b1(2)
  obtain b' where "bus_run bp mp k b1 b'" "bs_received b' = bs_received b" by (auto simp: bus_next_def)
  with r b1(1) show ?case by (auto intro: bus_run.more)
qed

interpretation biu_cr: exact_credit_interface "\<lambda>bp b. \<exists>mp. bus_reach bp mp b" bp_biu_req_queue_size
    "\<lambda>b. biu_credits (bi_out (bs_biu b))" "\<lambda>b. length (bi_biu_req_queue (bs_biu b))" "\<lambda>b. length (bs_received b)"
  by unfold_locales (use bus_reach_inv in \<open>fastforce simp: bus_inv_def\<close>)

section \<open>Properties\<close>

text \<open>C13. The bus interface and the memory behind it are a queue that serves its requests one at a time and in order.
  In every reachable state, whatever the order of the events and the latencies: no assertion of either unit fires
  (the memory never gets a request while it is busy, the front of the queue exists whenever it is read), and a request
  within the credits is accepted; the responses are the requests received, in order, without those still queued;
  credits sent and occupancy equal the queue size plus the requests. Every queued request is answered: the units can
  take at most five steps per queued request, and when they can take no step the queue is empty.\<close>

theorem bus_serves_in_order:
  assumes "bus_reach bp mp b"
  shows "(\<forall>r. bus_step bp mp b r \<longrightarrow> is_ok r) \<and>
    (length (bs_received b) < biu_credits (bi_out (bs_biu b)) \<longrightarrow>
       is_ok (bus_receive bp m b) \<and> length (bi_biu_req_queue (bs_biu b)) < bp_biu_req_queue_size bp) \<and>
    biu_resps (bi_out (bs_biu b)) @ bi_biu_req_queue (bs_biu b) = bs_received b \<and>
    biu_credits (bi_out (bs_biu b)) + length (bi_biu_req_queue (bs_biu b)) = bp_biu_req_queue_size bp + length (bs_received b) \<and>
    (\<forall>n b'. bus_run bp mp n b b' \<longrightarrow> n \<le> 5 * length (bi_biu_req_queue (bs_biu b))) \<and>
    ((\<nexists>r. bus_step bp mp b r) \<longleftrightarrow> bi_biu_req_queue (bs_biu b) = [])"
proof -
  from bus_reach_inv[OF assms] obtain ph where inv: "bus_inv bp ph b" ..
  have w: "bus_work ph b \<le> 5 * length (bi_biu_req_queue (bs_biu b))"
    using inv by (cases ph; cases "bi_biu_req_queue (bs_biu b)") (auto simp: bus_inv_def)
  have idle: "ph = Idle \<longleftrightarrow> bi_biu_req_queue (bs_biu b) = []" using inv by (auto simp: bus_inv_def)
  have "\<forall>r. bus_step bp mp b r \<longrightarrow> is_ok r" "(\<nexists>r. bus_step bp mp b r) \<longleftrightarrow> bi_biu_req_queue (bs_biu b) = []"
    using bus_step_phase[OF _ inv] bus_progress[OF inv] idle by (fastforce simp: is_ok_iff)+
  moreover have "\<forall>n b'. bus_run bp mp n b b' \<longrightarrow> n \<le> 5 * length (bi_biu_req_queue (bs_biu b))"
    using bus_run_bounded[OF _ inv] w by (meson order_trans)
  moreover have "is_ok (bus_receive bp m b) \<and> length (bi_biu_req_queue (bs_biu b)) < bp_biu_req_queue_size bp"
    if "length (bs_received b) < biu_credits (bi_out (bs_biu b))"
    using bus_receive_phase[OF inv that, of m] biu_cr.fits[OF exI[of "\<lambda>mp. bus_reach bp mp b", OF assms], of 1] that by (auto simp: is_ok_iff)
  ultimately show ?thesis using inv unfolding bus_inv_def by blast
qed

definition sample_bus :: bus where
  "sample_bus = \<lparr>bs_biu = \<lparr>bi_biu_req_queue = [7], bi_biu_busy = False, bi_ev_handle_biu_req = True, bi_ev_handle_mss_ack = False,
       bi_out = [OutBiuCredits 4]\<rparr>, bs_mss = mk_MSS, bs_reqs = 0, bs_acks = 0, bs_received = [7]\<rparr>"

lemma sample_bus_reach: "bus_reach \<lparr>bp_biu_req_queue_size = 4, bp_biu_latency = 1\<rparr> \<lparr>mp_mss_latency = 5\<rparr> sample_bus"
  by (rule bus_reach.request[OF bus_reach.start, of _ 7])
    (simp_all add: bi_sendInitialCredits_def mk_BIU_def bi_emit_def bus_receive_def receiveReqFromL2Cache_def appendReqQueue_def sample_bus_def)

theorem bus_serves_in_order_witness:
  "is_ok (bus_receive \<lparr>bp_biu_req_queue_size = 4, bp_biu_latency = 1\<rparr> 8 sample_bus) \<and>
   (\<exists>r. bus_step \<lparr>bp_biu_req_queue_size = 4, bp_biu_latency = 1\<rparr> \<lparr>mp_mss_latency = 5\<rparr> sample_bus r)"
  using bus_serves_in_order[OF sample_bus_reach, of 8] by (simp add: sample_bus_def)

end
