(* ===== verification/BranchPred.thy ===== *)
theory BranchPred
  imports Prelude "HOL-Library.Word"
begin

text \<open>
  The simple branch predictor (\<open>core/fetch/SimpleBranchPred.hpp\<close>, \<open>SimpleBranchPred.cpp\<close>, \<open>BranchPredIF.hpp\<close>): the
  history table of byte counters and the target buffer as maps, with the machine arithmetic of the source.
\<close>

section \<open>Data\<close>

record DefaultPrediction =
  pr_branch_idx :: "32 word"
  pr_predicted_PC :: "64 word"

record DefaultUpdate =
  up_fetch_PC :: "64 word"
  up_branch_idx :: "32 word"
  up_corrected_PC :: "64 word"
  up_actually_taken :: bool

record BTBEntry =
  bt_branch_idx :: "32 word"
  bt_predicted_PC :: "64 word"

record SimpleBranchPredictor =
  sb_max_fetch_insts :: "32 word"
  sb_branch_history_table :: "64 word \<rightharpoonup> 8 word"
  sb_branch_target_buffer :: "64 word \<rightharpoonup> BTBEntry"

definition bytes_per_inst :: "8 word" where
  "bytes_per_inst = 4"

definition mk_SimpleBranchPredictor :: "32 word \<Rightarrow> SimpleBranchPredictor" where
  "mk_SimpleBranchPredictor n = \<lparr>sb_max_fetch_insts = n, sb_branch_history_table = Map.empty, sb_branch_target_buffer = Map.empty\<rparr>"

section \<open>Operations\<close>

text \<open>\<open>operator[]\<close> of a map inserts the default value (0) for a missing key.\<close>

definition bht_at :: "64 word \<Rightarrow> SimpleBranchPredictor \<Rightarrow> 8 word" where
  "bht_at pc s = (case sb_branch_history_table s pc of None \<Rightarrow> 0 | Some v \<Rightarrow> v)"

definition updatePredictor :: "DefaultUpdate \<Rightarrow> SimpleBranchPredictor \<Rightarrow> SimpleBranchPredictor result" where
  "updatePredictor u s =
     (let pc = up_fetch_PC u in
      case sb_branch_target_buffer s pc of
        None \<Rightarrow> Inl (SpartaAssert ''branch_target_buffer_.find(update.fetch_PC) != branch_target_buffer_.end()'')
      | Some e \<Rightarrow>
          let e1 = e\<lparr>bt_branch_idx := up_branch_idx u\<rparr>; v = bht_at pc s in
          Inr (if up_actually_taken u
               then s\<lparr>sb_branch_history_table := (sb_branch_history_table s)(pc \<mapsto> if v = 3 then 3 else v + 1),
                      sb_branch_target_buffer := (sb_branch_target_buffer s)(pc \<mapsto> e1\<lparr>bt_predicted_PC := up_corrected_PC u\<rparr>)\<rparr>
               else s\<lparr>sb_branch_history_table := (sb_branch_history_table s)(pc \<mapsto> if v = 0 then 0 else v - 1),
                      sb_branch_target_buffer := (sb_branch_target_buffer s)(pc \<mapsto> e1)\<rparr>))"

definition getPrediction :: "64 word \<Rightarrow> SimpleBranchPredictor \<Rightarrow> DefaultPrediction \<times> SimpleBranchPredictor" where
  "getPrediction pc s =
     (let (predictTaken, s1) =
            (case sb_branch_history_table s pc of
               Some v \<Rightarrow> (v > 1, s)
             | None \<Rightarrow> (False, s\<lparr>sb_branch_history_table := (sb_branch_history_table s)(pc \<mapsto> 1)\<rparr>))
      in case sb_branch_target_buffer s1 pc of
           Some e \<Rightarrow>
             (\<lparr>pr_branch_idx = bt_branch_idx e,
               pr_predicted_PC = (if predictTaken then bt_predicted_PC e else pc + ucast (bt_branch_idx e) + ucast bytes_per_inst)\<rparr>, s1)
         | None \<Rightarrow>
             let p = \<lparr>pr_branch_idx = sb_max_fetch_insts s1,
                      pr_predicted_PC = pc + ucast (sb_max_fetch_insts s1 * ucast bytes_per_inst)\<rparr>
             in (p, s1\<lparr>sb_branch_target_buffer := (sb_branch_target_buffer s1)(pc \<mapsto>
                      \<lparr>bt_branch_idx = pr_branch_idx p, bt_predicted_PC = pr_predicted_PC p\<rparr>)\<rparr>))"

section \<open>Invariant\<close>

datatype bp_op = Predict "64 word" | Update DefaultUpdate

fun bp_do :: "SimpleBranchPredictor \<Rightarrow> bp_op \<Rightarrow> SimpleBranchPredictor result" where
  "bp_do s (Predict pc) = Inr (snd (getPrediction pc s))"
| "bp_do s (Update u) = updatePredictor u s"

definition bp_inv :: "SimpleBranchPredictor \<Rightarrow> bool" where
  "bp_inv s \<longleftrightarrow> (\<forall>pc. sb_branch_history_table s pc = None \<longleftrightarrow> sb_branch_target_buffer s pc = None) \<and>
     (\<forall>pc v. sb_branch_history_table s pc = Some v \<longrightarrow> v \<le> 3)"

lemma two_bit_cases:
  fixes v :: "8 word"
  assumes "v \<le> 3"
  obtains "v = 0" | "v = 1" | "v = 2" | "v = 3"
proof -
  have "unat v \<le> 3" using assms by (simp add: word_le_nat_alt)
  then consider "unat v = 0" | "unat v = 1" | "unat v = 2" | "unat v = 3" by linarith
  then show thesis using that by cases (auto dest!: arg_cong[of _ _ "word_of_nat :: nat \<Rightarrow> 8 word"])
qed

text \<open>The two saturating steps of the counter.\<close>

definition bht_step :: "bool \<Rightarrow> 8 word \<Rightarrow> 8 word" where
  "bht_step taken v = (if taken then if v = 3 then 3 else v + 1 else if v = 0 then 0 else v - 1)"

lemma bht_step_le: "v \<le> 3 \<Longrightarrow> bht_step t v \<le> 3"
  by (erule two_bit_cases) (simp_all add: bht_step_def)

lemma bht_step_twice: "v \<le> 3 \<Longrightarrow> 1 < bht_step t (bht_step t v) \<longleftrightarrow> t"
  by (erule two_bit_cases; cases t) (simp_all add: bht_step_def)

lemma updatePredictor_eq:
  "updatePredictor u s =
     (case sb_branch_target_buffer s (up_fetch_PC u) of
        None \<Rightarrow> Inl (SpartaAssert ''branch_target_buffer_.find(update.fetch_PC) != branch_target_buffer_.end()'')
      | Some e \<Rightarrow> Inr (s\<lparr>sb_branch_history_table := (sb_branch_history_table s)(up_fetch_PC u \<mapsto> bht_step (up_actually_taken u) (bht_at (up_fetch_PC u) s)),
           sb_branch_target_buffer := (sb_branch_target_buffer s)(up_fetch_PC u \<mapsto>
             (if up_actually_taken u then e\<lparr>bt_branch_idx := up_branch_idx u, bt_predicted_PC := up_corrected_PC u\<rparr>
              else e\<lparr>bt_branch_idx := up_branch_idx u\<rparr>))\<rparr>))"
  by (auto simp: updatePredictor_def Let_def bht_step_def split: option.splits)

lemma bp_inv_step:
  assumes "bp_inv s" "bp_do s op = Inr s'"
  shows "bp_inv s' \<and> (\<forall>pc. sb_branch_target_buffer s' pc \<noteq> None \<longleftrightarrow> sb_branch_target_buffer s pc \<noteq> None \<or> op = Predict pc)"
proof (cases op)
  case (Predict pc)
  then have s': "s' = snd (getPrediction pc s)" using assms(2) by simp
  show ?thesis
  proof (cases "sb_branch_history_table s pc")
    case None
    moreover have "sb_branch_target_buffer s pc = None" using None assms(1) by (simp add: bp_inv_def)
    ultimately show ?thesis using assms(1) s' Predict by (auto simp: bp_inv_def getPrediction_def Let_def split: if_splits)
  next
    case (Some v)
    moreover obtain e where "sb_branch_target_buffer s pc = Some e" using Some assms(1) unfolding bp_inv_def by (metis not_None_eq)
    ultimately show ?thesis using assms(1) s' Predict by (auto simp: bp_inv_def getPrediction_def)
  qed
next
  case (Update u)
  then have u: "updatePredictor u s = Inr s'" using assms by simp
  have "bht_step t (bht_at (up_fetch_PC u) s) \<le> 3" for t
    by (rule bht_step_le) (use assms(1) in \<open>auto simp: bht_at_def bp_inv_def split: option.splits\<close>)
  with assms(1) u Update show ?thesis by (auto simp: bp_inv_def updatePredictor_eq split: option.splits if_split_asm)
qed

lemma bp_run_inv:
  "foldE bp_do s ops = Inr s' \<Longrightarrow> bp_inv s \<Longrightarrow>
     bp_inv s' \<and> (\<forall>pc. sb_branch_target_buffer s' pc \<noteq> None \<longleftrightarrow> sb_branch_target_buffer s pc \<noteq> None \<or> Predict pc \<in> set ops)"
proof (induction ops arbitrary: s)
  case (Cons op ops)
  from Cons.prems obtain s1 where "bp_do s op = Inr s1" "foldE bp_do s1 ops = Inr s'" by (auto simp: bindE_eq_Inr)
  with Cons.IH[of s1] bp_inv_step[OF Cons.prems(2)] show ?case by auto
qed simp

section \<open>Properties\<close>

text \<open>C39. The branch predictor in every state that a sequence of predictions and updates leads to. The counters of the
  history table stay two-bit values although they are bytes; an update is accepted exactly for a fetch address that was
  predicted before; after two updates with the same outcome the prediction is that outcome: the branch index of the
  update with the corrected target when it was taken, otherwise with the address \<open>fetch_PC + branch_idx + 4\<close>
  (which is the fall-through address only for branch index 0).\<close>

theorem branch_predictor_learns:
  assumes "foldE bp_do (mk_SimpleBranchPredictor n) ops = Inr s"
  shows "(\<forall>pc v. sb_branch_history_table s pc = Some v \<longrightarrow> v \<le> 3) \<and>
    (is_ok (updatePredictor u s) \<longleftrightarrow> Predict (up_fetch_PC u) \<in> set ops) \<and>
    (Predict (up_fetch_PC u) \<in> set ops \<longrightarrow>
       (\<exists>s2. foldE bp_do s [Update u, Update u] = Inr s2 \<and>
          fst (getPrediction (up_fetch_PC u) s2) =
            \<lparr>pr_branch_idx = up_branch_idx u,
             pr_predicted_PC = (if up_actually_taken u then up_corrected_PC u else up_fetch_PC u + ucast (up_branch_idx u) + 4)\<rparr>))"
proof -
  have "bp_inv (mk_SimpleBranchPredictor n)" by (simp add: bp_inv_def mk_SimpleBranchPredictor_def)
  from bp_run_inv[OF assms this] have inv: "bp_inv s"
    and d: "sb_branch_target_buffer s pc \<noteq> None \<longleftrightarrow> Predict pc \<in> set ops" for pc
    by (auto simp: mk_SimpleBranchPredictor_def)
  have "\<exists>s2. foldE bp_do s [Update u, Update u] = Inr s2 \<and>
      fst (getPrediction (up_fetch_PC u) s2) = \<lparr>pr_branch_idx = up_branch_idx u,
        pr_predicted_PC = (if up_actually_taken u then up_corrected_PC u else up_fetch_PC u + ucast (up_branch_idx u) + 4)\<rparr>"
    if "Predict (up_fetch_PC u) \<in> set ops"
  proof -
    from that d inv obtain e v where e: "sb_branch_target_buffer s (up_fetch_PC u) = Some e"
      and v: "sb_branch_history_table s (up_fetch_PC u) = Some v" "v \<le> 3" unfolding bp_inv_def by blast
    then show ?thesis using bht_step_twice[OF v(2), of "up_actually_taken u"]
      by (simp add: updatePredictor_eq getPrediction_def bht_at_def bytes_per_inst_def)
  qed
  with inv d show ?thesis by (auto simp: bp_inv_def updatePredictor_eq is_ok_iff split: option.splits)
qed

theorem branch_predictor_learns_witness:
  "\<exists>s s2. foldE bp_do (mk_SimpleBranchPredictor 4) [Predict 64] = Inr s \<and>
     foldE bp_do s [Update \<lparr>up_fetch_PC = 64, up_branch_idx = 2, up_corrected_PC = 256, up_actually_taken = True\<rparr>,
                    Update \<lparr>up_fetch_PC = 64, up_branch_idx = 2, up_corrected_PC = 256, up_actually_taken = True\<rparr>] = Inr s2 \<and>
     fst (getPrediction 64 s2) = \<lparr>pr_branch_idx = 2, pr_predicted_PC = 256\<rparr>"
proof -
  obtain s where s: "foldE bp_do (mk_SimpleBranchPredictor 4) [Predict 64] = Inr s" by simp
  from branch_predictor_learns[OF s, of "\<lparr>up_fetch_PC = 64, up_branch_idx = 2, up_corrected_PC = 256, up_actually_taken = True\<rparr>"] s
  show ?thesis by auto
qed

end
