(* ===== verification/InstCache.thy ===== *)
theory InstCache
  imports CacheModel Credits
begin

text \<open>
  The instruction cache (\<open>core/fetch/ICache.hpp\<close>, \<open>ICache.cpp\<close>).

  The handlers take the stores with the memory accesses beside the state of the unit. Scheduled events are part of the
  state: the delays of the two unique events and the payloads of the other two with their delays. What the unit
  sends is the list of its output.
\<close>

record ICacheParameterSet =
  ip_cache_latency :: nat
  ip_l1_always_hit :: bool

datatype icache_event = OutFetchCredit nat | OutFetchResp mptr | OutIcL2Req mptr

record 'c ICache =
  ic_l1_cache :: 'c
  ic_l2cache_resp_queue :: "mptr list"
  ic_fetch_req_queue :: "mptr list"
  ic_replay_buffer :: "mptr list"
  ic_miss_queue :: "mptr list"
  ic_pending_miss_buffer :: "mptr list"
  ic_l2cache_credits :: nat
  ic_ev_arbitrate :: "nat list"
  ic_ev_l2cache_request :: "nat list"
  ic_ev_respond :: "(mptr \<times> nat) list"
  ic_ev_replay_ready :: "(mptr \<times> nat) list"
  ic_il1_cache_hits :: nat
  ic_il1_cache_misses :: nat
  ic_out :: "icache_event list"

definition fetch_queue_size :: nat where
  "fetch_queue_size = 8"

definition mk_ICache :: "'c \<Rightarrow> 'c ICache" where
  "mk_ICache c = \<lparr>ic_l1_cache = c, ic_l2cache_resp_queue = [], ic_fetch_req_queue = [], ic_replay_buffer = [],
     ic_miss_queue = [], ic_pending_miss_buffer = [], ic_l2cache_credits = 0, ic_ev_arbitrate = [], ic_ev_l2cache_request = [],
     ic_ev_respond = [], ic_ev_replay_ready = [], ic_il1_cache_hits = 0, ic_il1_cache_misses = 0, ic_out = []\<rparr>"

definition ic_emit :: "icache_event \<Rightarrow> 'c ICache \<Rightarrow> 'c ICache" where
  "ic_emit e s = s\<lparr>ic_out := ic_out s @ [e]\<rparr>"

text \<open>Scheduling a unique event twice for the same cycle is scheduling it once.\<close>

definition sched :: "nat \<Rightarrow> nat list \<Rightarrow> nat list" where
  "sched n ds = (if n \<in> set ds then ds else ds @ [n])"

definition schedule_arbitrate :: "nat \<Rightarrow> 'c ICache \<Rightarrow> 'c ICache" where
  "schedule_arbitrate n s = s\<lparr>ic_ev_arbitrate := sched n (ic_ev_arbitrate s)\<rparr>"

definition schedule_l2cache_request :: "nat \<Rightarrow> 'c ICache \<Rightarrow> 'c ICache" where
  "schedule_l2cache_request n s = s\<lparr>ic_ev_l2cache_request := sched n (ic_ev_l2cache_request s)\<rparr>"

definition ic_sendInitialCredits :: "'c ICache \<Rightarrow> 'c ICache" where
  "ic_sendInitialCredits s = ic_emit (OutFetchCredit fetch_queue_size) s"

definition lookupCache ::
    "'c cache_api \<Rightarrow> ICacheParameterSet \<Rightarrow> 'a world_scheme \<Rightarrow> mptr \<Rightarrow> 'c ICache \<Rightarrow> bool \<times> 'c ICache" where
  "lookupCache ca pr w m s =
     (case cache_lookup ca (ip_l1_always_hit pr) (mi_paddr (w_mai w m)) (ic_l1_cache s) of (cache_hit, c) \<Rightarrow>
        let s1 = s\<lparr>ic_l1_cache := c\<rparr>
        in (cache_hit, if cache_hit then s1\<lparr>ic_il1_cache_hits := ic_il1_cache_hits s1 + 1\<rparr>
                       else s1\<lparr>ic_il1_cache_misses := ic_il1_cache_misses s1 + 1\<rparr>))"

text \<open>The block of an access.\<close>

definition block_of :: "'c cache_api \<Rightarrow> 'a world_scheme \<Rightarrow> mptr \<Rightarrow> 64 word" where
  "block_of ca w m = ca_block ca (mi_paddr (w_mai w m))"

definition ic_reloadCache :: "'c cache_api \<Rightarrow> 'a world_scheme \<Rightarrow> mptr \<Rightarrow> 'c ICache \<Rightarrow> 'c ICache" where
  "ic_reloadCache ca w m s =
     (let reload_addr = mi_paddr (w_mai w m); reload_block = ca_block ca reload_addr;
          s1 = s\<lparr>ic_l1_cache := ca_allocate ca reload_addr (ic_l1_cache s)\<rparr>;
          s2 = s1\<lparr>ic_replay_buffer := ic_replay_buffer s1 @ filter (\<lambda>n. block_of ca w n = reload_block) (ic_pending_miss_buffer s1),
                  ic_pending_miss_buffer := filter (\<lambda>n. block_of ca w n \<noteq> reload_block) (ic_pending_miss_buffer s1)\<rparr>
      in schedule_arbitrate 1 s2)"

text \<open>The request to the L2 cache is a new memory access, a copy of the one that missed.\<close>

definition copy_access :: "mptr \<Rightarrow> 'a world_scheme \<Rightarrow> mptr \<times> 'a world_scheme" where
  "copy_access m w = (w_next w, w\<lparr>w_mai := (w_mai w)(w_next w := w_mai w m), w_next := w_next w + 1\<rparr>)"

definition makeL2CacheRequest :: "'a world_scheme \<times> 'c ICache \<Rightarrow> 'a world_scheme \<times> 'c ICache" where
  "makeL2CacheRequest ws =
     (case ws of (w, s) \<Rightarrow>
        if ic_l2cache_credits s = 0 then (w, s)
        else case ic_miss_queue s of
               [] \<Rightarrow> (w, s)
             | m # rest \<Rightarrow>
                 (case copy_access m w of (n, w1) \<Rightarrow>
                    let s1 = (ic_emit (OutIcL2Req n) s)\<lparr>ic_l2cache_credits := ic_l2cache_credits s - 1, ic_miss_queue := rest\<rparr>
                    in (w1, if ic_l2cache_credits s1 > 0 \<and> ic_miss_queue s1 \<noteq> [] then schedule_l2cache_request 1 s1 else s1)))"

text \<open>The append to a full buffer is an assertion of the buffer.\<close>

definition addToMissQueue ::
    "'c cache_api \<Rightarrow> mptr \<Rightarrow> 'a world_scheme \<times> 'c ICache \<Rightarrow> ('a world_scheme \<times> 'c ICache) result" where
  "addToMissQueue ca m ws =
     (case ws of (w, s) \<Rightarrow>
        case (if list_ex (\<lambda>n. block_of ca w n = block_of ca w m) (ic_pending_miss_buffer s) then (w, s)
              else makeL2CacheRequest (w, s\<lparr>ic_miss_queue := ic_miss_queue s @ [m]\<rparr>)) of (w1, s1) \<Rightarrow>
          bindE (assertE (length (ic_pending_miss_buffer s1) < fetch_queue_size) ''push_back on a full buffer'') (\<lambda>_.
            Inr (w1, s1\<lparr>ic_pending_miss_buffer := ic_pending_miss_buffer s1 @ [m]\<rparr>)))"

definition ic_set_state :: "mptr \<Rightarrow> CacheState \<Rightarrow> 'a world_scheme \<Rightarrow> 'a world_scheme" where
  "ic_set_state m st w = upd_mai m (\<lambda>x. x\<lparr>mi_cache_access_state := st\<rparr>) w"

definition arbitrate_fill :: "'c cache_api \<Rightarrow> 'a world_scheme \<Rightarrow> 'c ICache \<Rightarrow> 'c ICache" where
  "arbitrate_fill ca w s =
     (case ic_l2cache_resp_queue s of [] \<Rightarrow> s | m # rest \<Rightarrow> (ic_reloadCache ca w m s)\<lparr>ic_l2cache_resp_queue := rest\<rparr>)"

definition arbitrate_fetch ::
    "'c cache_api \<Rightarrow> ICacheParameterSet \<Rightarrow> mptr \<Rightarrow> 'a world_scheme \<times> 'c ICache \<Rightarrow> ('a world_scheme \<times> 'c ICache) result" where
  "arbitrate_fetch ca pr m ws =
     (case ws of (w, s) \<Rightarrow>
        case lookupCache ca pr w m s of (hit, s1) \<Rightarrow>
          bindE (if hit then Inr (ic_set_state m CS_HIT w, s1)
                 else addToMissQueue ca m (ic_set_state m CS_MISS w, s1)) (\<lambda>(w2, s2).
            Inr (w2, s2\<lparr>ic_ev_respond := ic_ev_respond s2 @ [(m, ip_cache_latency pr)],
                        ic_fetch_req_queue := tl (ic_fetch_req_queue s2)\<rparr>)))"

definition doArbitration ::
    "'c cache_api \<Rightarrow> ICacheParameterSet \<Rightarrow> 'a world_scheme \<times> 'c ICache \<Rightarrow> ('a world_scheme \<times> 'c ICache) result" where
  "doArbitration ca pr ws =
     (case ws of (w, s) \<Rightarrow>
        let s1 = arbitrate_fill ca w s in
        bindE (case ic_replay_buffer s1 of
                 m # rest \<Rightarrow> Inr (w, s1\<lparr>ic_ev_replay_ready := ic_ev_replay_ready s1 @ [(m, ip_cache_latency pr)], ic_replay_buffer := rest\<rparr>)
               | [] \<Rightarrow> (case ic_fetch_req_queue s1 of
                          m # _ \<Rightarrow> arbitrate_fetch ca pr m (w, s1)
                        | [] \<Rightarrow> Inr (w, s1))) (\<lambda>(w2, s2).
          Inr (w2, if ic_l2cache_resp_queue s2 \<noteq> [] \<or> ic_replay_buffer s2 \<noteq> [] \<or> ic_fetch_req_queue s2 \<noteq> []
                   then schedule_arbitrate 1 s2 else s2)))"

definition getRequestFromFetch :: "mptr \<Rightarrow> 'c ICache \<Rightarrow> 'c ICache" where
  "getRequestFromFetch m s = schedule_arbitrate 0 (s\<lparr>ic_fetch_req_queue := ic_fetch_req_queue s @ [m]\<rparr>)"

definition ic_getRespFromL2Cache :: "'a world_scheme \<Rightarrow> mptr \<Rightarrow> 'c ICache \<Rightarrow> 'c ICache" where
  "ic_getRespFromL2Cache w m s =
     (if mi_cache_access_state (w_mai w m) = CS_HIT
      then schedule_arbitrate 0 (s\<lparr>ic_l2cache_resp_queue := ic_l2cache_resp_queue s @ [m]\<rparr>) else s)"

definition ic_getCreditsFromL2Cache :: "nat \<Rightarrow> 'c ICache \<Rightarrow> 'c ICache" where
  "ic_getCreditsFromL2Cache ack s =
     (let s1 = s\<lparr>ic_l2cache_credits := add32 (ic_l2cache_credits s) ack\<rparr>
      in if ic_miss_queue s1 \<noteq> [] then schedule_l2cache_request 0 s1 else s1)"

definition sendReplay :: "mptr \<Rightarrow> 'a world_scheme \<times> 'c ICache \<Rightarrow> 'a world_scheme \<times> 'c ICache" where
  "sendReplay m ws =
     (case ws of (w, s) \<Rightarrow> (ic_set_state m CS_HIT w, ic_emit (OutFetchCredit 1) (ic_emit (OutFetchResp m) s)))"

definition sendResponse :: "'a world_scheme \<Rightarrow> mptr \<Rightarrow> 'c ICache \<Rightarrow> 'c ICache" where
  "sendResponse w m s =
     (let s1 = ic_emit (OutFetchResp m) s
      in if mi_cache_access_state (w_mai w m) = CS_HIT then ic_emit (OutFetchCredit 1) s1 else s1)"

end
