(* ===== verification/InstGen.thy ===== *)
theory InstGen
  imports VectorUop
begin

text \<open>
  The instruction generators (\<open>core/InstGenerator.hpp\<close>, \<open>InstGenerator.cpp\<close>): the source of the instructions the fetch
  unit sends down the pipeline, from a JSON file or from an STF trace.

  Mavis is foreign code, as in the decoder: \<open>mavis_facade\<close> holds the two functions that build an instruction from an
  opcode and from an operand list. The parsed JSON array and the records of the STF trace are data of the generator; of
  the STF reader the model takes the position an iterator points to and \<open>valid()\<close>, a function of that position and of
  the position reached in the trace. An instruction object is placed in the store under the next handle of the
  allocator.

  The contract of both generators is the locale \<open>rewindable\<close>: the trace is read in order, and a reset to an
  instruction that was read continues from there.
\<close>

record mavis_facade =
  mv_makeInst :: "nat \<Rightarrow> Inst result"
  mv_makeInstDirectly :: "direct_op_info \<Rightarrow> Inst result"

section \<open>JSON values and numbers in strings\<close>

datatype json_value = JString string | JNumber int | JOther

type_synonym json_object = "(string \<times> json_value) list"

definition as_string :: "json_value \<Rightarrow> string result" where
  "as_string v = (case v of JString s \<Rightarrow> Inr s | _ \<Rightarrow> Inl (SpartaException ''not a string''))"

definition value_to_uint64 :: "json_value \<Rightarrow> nat result" where
  "value_to_uint64 v =
     (case v of
        JNumber n \<Rightarrow> if 0 \<le> n \<and> n < 18446744073709551616 then Inr (nat n) else Inl (SpartaException ''not exact'')
      | _ \<Rightarrow> Inl (SpartaException ''not a number''))"

text \<open>\<open>std::strtoull\<close> with base 0: white space, a sign, the prefix that gives the base, the digits; a number out of range
  becomes the largest value.\<close>

definition isspace :: "char \<Rightarrow> bool" where
  "isspace c = (let n = of_char c :: nat in n = 32 \<or> 9 \<le> n \<and> n \<le> 13)"

definition digit_val :: "char \<Rightarrow> nat option" where
  "digit_val c =
     (let n = of_char c :: nat in
      if 48 \<le> n \<and> n \<le> 57 then Some (n - 48)
      else if 97 \<le> n \<and> n \<le> 122 then Some (n - 87)
      else if 65 \<le> n \<and> n \<le> 90 then Some (n - 55)
      else None)"

definition is_digit :: "nat \<Rightarrow> char \<Rightarrow> bool" where
  "is_digit b c = (case digit_val c of Some d \<Rightarrow> d < b | None \<Rightarrow> False)"

definition scan_number :: "nat \<Rightarrow> string \<Rightarrow> nat" where
  "scan_number b s = foldl (\<lambda>acc c. acc * b + the (digit_val c)) 0 (takeWhile (is_digit b) s)"

definition scan_unsigned :: "string \<Rightarrow> nat" where
  "scan_unsigned s =
     (case s of
        c # x # d # r \<Rightarrow>
          if c = CHR ''0'' \<and> (x = CHR ''x'' \<or> x = CHR ''X'') \<and> is_digit 16 d then scan_number 16 (d # r)
          else if c = CHR ''0'' then scan_number 8 s else scan_number 10 s
      | c # _ \<Rightarrow> if c = CHR ''0'' then scan_number 8 s else scan_number 10 s
      | [] \<Rightarrow> 0)"

definition strtoull :: "string \<Rightarrow> nat" where
  "strtoull s =
     (let t = dropWhile isspace s;
          neg = (case t of c # _ \<Rightarrow> c = CHR ''-'' | [] \<Rightarrow> False);
          u = (case t of c # r \<Rightarrow> if c = CHR ''-'' \<or> c = CHR ''+'' then r else t | [] \<Rightarrow> []);
          n = scan_unsigned u
      in if n \<ge> 18446744073709551616 then 18446744073709551615
         else if neg then (18446744073709551616 - n) mod 18446744073709551616 else n)"

section \<open>The JSON generator\<close>

record JSONInstGenerator =
  jg_unique_id :: nat
  jg_program_id :: nat
  jg_jobj :: "json_object list"
  jg_curr_inst_index :: nat
  jg_n_insts :: nat
  jg_alloc :: ptr

definition mk_JSONInstGenerator :: "json_object list \<Rightarrow> ptr \<Rightarrow> JSONInstGenerator" where
  "mk_JSONInstGenerator jobj a =
     \<lparr>jg_unique_id = 0, jg_program_id = 1, jg_jobj = jobj, jg_curr_inst_index = 0, jg_n_insts = length jobj, jg_alloc = a\<rparr>"

definition jg_isDone :: "JSONInstGenerator \<Rightarrow> bool" where
  "jg_isDone g = (jg_curr_inst_index g \<ge> jg_n_insts g)"

definition getRewindIterator_json :: "Inst \<Rightarrow> nat result" where
  "getRewindIterator_json i =
     (case i_rewind_iter i of JSONIterator k \<Rightarrow> Inr k | STFIterator _ \<Rightarrow> Inl (SpartaException ''bad_variant_access''))"

definition jg_reset :: "Inst \<Rightarrow> bool \<Rightarrow> JSONInstGenerator \<Rightarrow> JSONInstGenerator result" where
  "jg_reset i skip g =
     bindE (getRewindIterator_json i) (\<lambda>saved_index.
     bindE (assertE (saved_index < jg_n_insts g) ''Rewind index is out of bounds for JSON trace'') (\<lambda>_.
       let g1 = g\<lparr>jg_curr_inst_index := saved_index, jg_program_id := i_program_id i\<rparr>
       in Inr (if skip then g1\<lparr>jg_curr_inst_index := saved_index + 1, jg_program_id := i_program_id i + 1\<rparr> else g1)))"

text \<open>The local function \<open>addElement\<close>.\<close>

definition jg_addElement ::
    "json_object \<Rightarrow> string \<Rightarrow> OperandFieldID \<Rightarrow> OperandTypes \<Rightarrow> op_element list \<Rightarrow> op_element list result" where
  "jg_addElement jinst key fid ty ops =
     (case map_of jinst key of
        None \<Rightarrow> Inr ops
      | Some v \<Rightarrow> bindE (value_to_uint64 v) (\<lambda>n. Inr (ops @ [\<lparr>oe_field_id = fid, oe_operand_type = ty, oe_field_value = n\<rparr>])))"

definition jg_srcs :: "json_object \<Rightarrow> op_element list result" where
  "jg_srcs jinst =
     bindE (jg_addElement jinst ''rs1'' OF_RS1 OT_LONG []) (\<lambda>s1.
     bindE (jg_addElement jinst ''fs1'' OF_RS1 OT_DOUBLE s1) (\<lambda>s2.
     bindE (jg_addElement jinst ''rs2'' OF_RS2 OT_LONG s2) (\<lambda>s3.
     bindE (jg_addElement jinst ''fs2'' OF_RS2 OT_DOUBLE s3) (\<lambda>s4.
     bindE (jg_addElement jinst ''vs1'' OF_RS1 OT_VECTOR s4) (\<lambda>s5.
       jg_addElement jinst ''vs2'' OF_RS2 OT_VECTOR s5)))))"

definition jg_dests :: "json_object \<Rightarrow> op_element list result" where
  "jg_dests jinst =
     bindE (jg_addElement jinst ''rd'' OF_RD OT_LONG []) (\<lambda>d1.
     bindE (jg_addElement jinst ''fd'' OF_RD OT_DOUBLE d1) (\<lambda>d2.
       jg_addElement jinst ''vd'' OF_RD OT_VECTOR d2))"

text \<open>The fields of \<open>vtype\<close>: bits 5 to 3 of its low 32 bits give the element width, bits 2 to 0 the multiplier.\<close>

definition vtype_sew :: "nat \<Rightarrow> nat" where
  "vtype_sew vtype = 2 ^ (vtype div 8 mod 8) * 8"

definition vtype_lmul :: "nat \<Rightarrow> nat" where
  "vtype_lmul vtype = 2 ^ (vtype mod 8)"

text \<open>An optional key of the record: its value is read, then the instruction changed.\<close>

definition jg_field :: "json_object \<Rightarrow> string \<Rightarrow> (json_value \<Rightarrow> Inst \<Rightarrow> Inst result) \<Rightarrow> Inst \<Rightarrow> Inst result" where
  "jg_field jinst key upd i = (case map_of jinst key of None \<Rightarrow> Inr i | Some v \<Rightarrow> upd v i)"

definition jg_set_vaddr :: "json_value \<Rightarrow> Inst \<Rightarrow> Inst result" where
  "jg_set_vaddr v i = bindE (as_string v) (\<lambda>s. Inr (i\<lparr>i_target_vaddr := of_nat (strtoull s)\<rparr>))"

definition jg_set_vtype :: "json_value \<Rightarrow> Inst \<Rightarrow> Inst result" where
  "jg_set_vtype v i =
     bindE (as_string v) (\<lambda>s.
     bindE (setLMUL (vtype_lmul (strtoull s)) (i_vector_config i)) (\<lambda>c1.
     bindE (setSEW (vtype_sew (strtoull s)) c1) (\<lambda>c2. Inr (i\<lparr>i_vector_config := c2\<rparr>))))"

definition jg_set_vta :: "json_value \<Rightarrow> Inst \<Rightarrow> Inst result" where
  "jg_set_vta v i =
     bindE (value_to_uint64 v) (\<lambda>n. Inr (i\<lparr>i_vector_config := setVTA (if n > 0 then 1 else 0) (i_vector_config i)\<rparr>))"

definition jg_set_vl :: "json_value \<Rightarrow> Inst \<Rightarrow> Inst result" where
  "jg_set_vl v i =
     bindE (value_to_uint64 v) (\<lambda>n. Inr (i\<lparr>i_vector_config := setVL (n mod 4294967296) (i_vector_config i)\<rparr>))"

definition jg_set_taken :: "json_value \<Rightarrow> Inst \<Rightarrow> Inst result" where
  "jg_set_taken v i = bindE (value_to_uint64 v) (\<lambda>n. Inr (i\<lparr>i_is_taken_branch := (n \<noteq> 0)\<rparr>))"

text \<open>The instruction of one record, before its identifiers are set.\<close>

definition jg_makeInst :: "mavis_facade \<Rightarrow> json_object \<Rightarrow> Inst result" where
  "jg_makeInst mf jinst =
     (case map_of jinst ''opcode'' of
        Some v \<Rightarrow> bindE (as_string v) (\<lambda>s. mv_makeInst mf (strtoull s))
      | None \<Rightarrow>
          (case map_of jinst ''mnemonic'' of
             None \<Rightarrow> Inl (SpartaException ''Missing mnemonic'')
           | Some m \<Rightarrow>
               bindE (as_string m) (\<lambda>mnemonic.
               bindE (jg_srcs jinst) (\<lambda>srcs.
               bindE (jg_dests jinst) (\<lambda>dests.
               bindE (case map_of jinst ''imm'' of
                        None \<Rightarrow> Inr None
                      | Some v \<Rightarrow> bindE (value_to_uint64 v) (\<lambda>n. Inr (Some n))) (\<lambda>imm.
               bindE (mv_makeInstDirectly mf \<lparr>di_mnemonic = mnemonic, di_srcs = srcs, di_dests = dests, di_immediate = imm\<rparr>) (\<lambda>i0.
               bindE (jg_field jinst ''vaddr'' jg_set_vaddr i0) (\<lambda>i1.
               bindE (jg_field jinst ''vtype'' jg_set_vtype i1) (\<lambda>i2.
               bindE (jg_field jinst ''vta'' jg_set_vta i2) (\<lambda>i3.
               bindE (jg_field jinst ''vl'' jg_set_vl i3) (\<lambda>i4.
                 jg_field jinst ''taken'' jg_set_taken i4)))))))))))"

definition jg_getNextInst :: "mavis_facade \<Rightarrow> JSONInstGenerator \<times> heap \<Rightarrow> (ptr option \<times> JSONInstGenerator \<times> heap) result" where
  "jg_getNextInst mf gh =
     (case gh of (g, h) \<Rightarrow>
        if jg_isDone g then Inr (None, g, h)
        else if jg_curr_inst_index g \<ge> length (jg_jobj g) then Inl (SpartaException ''out of range'')
        else bindE (jg_makeInst mf (jg_jobj g ! jg_curr_inst_index g)) (\<lambda>i.
          let i' = i\<lparr>i_rewind_iter := JSONIterator (jg_curr_inst_index g), i_unique_id := jg_unique_id g + 1,
                     i_program_id := jg_program_id g\<rparr>
          in Inr (Some (jg_alloc g),
                  g\<lparr>jg_unique_id := jg_unique_id g + 1, jg_program_id := jg_program_id g + 1,
                    jg_curr_inst_index := jg_curr_inst_index g + 1, jg_alloc := jg_alloc g + 1\<rparr>, h(jg_alloc g := i'))))"

section \<open>The STF generator\<close>

record stf_inst =
  st_opcode :: nat
  st_pc :: "64 word"
  st_memory_accesses :: "64 word list"
  st_isCoF :: bool
  st_isBranch :: bool
  st_isTakenBranch :: bool
  st_branchTarget :: "64 word"

record TraceInstGenerator =
  tg_unique_id :: nat
  tg_program_id :: nat
  tg_reader :: "stf_inst list"
  tg_next_it :: nat
  tg_alloc :: ptr

definition mk_TraceInstGenerator :: "stf_inst list \<Rightarrow> ptr \<Rightarrow> TraceInstGenerator" where
  "mk_TraceInstGenerator insts a =
     \<lparr>tg_unique_id = 0, tg_program_id = 1, tg_reader = insts, tg_next_it = 0, tg_alloc = a\<rparr>"

definition tg_isDone :: "TraceInstGenerator \<Rightarrow> bool" where
  "tg_isDone g = (tg_next_it g = length (tg_reader g))"

definition getRewindIterator_stf :: "Inst \<Rightarrow> nat option result" where
  "getRewindIterator_stf i =
     (case i_rewind_iter i of STFIterator it \<Rightarrow> Inr it | JSONIterator _ \<Rightarrow> Inl (SpartaException ''bad_variant_access''))"

definition tg_reset :: "(nat \<Rightarrow> nat \<Rightarrow> bool) \<Rightarrow> Inst \<Rightarrow> bool \<Rightarrow> TraceInstGenerator \<Rightarrow> TraceInstGenerator result" where
  "tg_reset valid i skip g =
     bindE (getRewindIterator_stf i) (\<lambda>saved.
       case saved of
         None \<Rightarrow> Inl (SpartaAssert ''Rewind iterator is no longer valid'')
       | Some saved_it \<Rightarrow>
           bindE (assertE (valid saved_it (tg_next_it g)) ''Rewind iterator is no longer valid'') (\<lambda>_.
             let g1 = g\<lparr>tg_next_it := saved_it, tg_program_id := i_program_id i\<rparr>
             in Inr (if skip then g1\<lparr>tg_next_it := saved_it + 1, tg_program_id := i_program_id i + 1\<rparr> else g1)))"

definition tg_makeInst :: "mavis_facade \<Rightarrow> stf_inst \<Rightarrow> Inst result" where
  "tg_makeInst mf st =
     bindE (mv_makeInst mf (st_opcode st)) (\<lambda>i0.
       let i1 = i0\<lparr>i_pc := st_pc st\<rparr>;
           i2 = (if st_memory_accesses st \<noteq> [] then i1\<lparr>i_target_vaddr := hd (st_memory_accesses st)\<rparr> else i1);
           i3 = i2\<lparr>i_is_cof := st_isCoF st\<rparr>
       in Inr (if st_isBranch st then i3\<lparr>i_is_taken_branch := st_isTakenBranch st, i_target_vaddr := st_branchTarget st\<rparr> else i3))"

definition tg_getNextInst :: "mavis_facade \<Rightarrow> TraceInstGenerator \<times> heap \<Rightarrow> (ptr option \<times> TraceInstGenerator \<times> heap) result" where
  "tg_getNextInst mf gh =
     (case gh of (g, h) \<Rightarrow>
        if tg_isDone g then Inr (None, g, h)
        else if tg_next_it g > length (tg_reader g) then Inl (UndefinedBehaviour ''iterator past the end'')
        else bindE (tg_makeInst mf (tg_reader g ! tg_next_it g)) (\<lambda>i.
          let i' = i\<lparr>i_unique_id := tg_unique_id g + 1, i_program_id := tg_program_id g,
                     i_rewind_iter := STFIterator (Some (tg_next_it g))\<rparr>
          in Inr (Some (tg_alloc g),
                  g\<lparr>tg_unique_id := tg_unique_id g + 1, tg_program_id := tg_program_id g + 1,
                    tg_next_it := tg_next_it g + 1, tg_alloc := tg_alloc g + 1\<rparr>, h(tg_alloc g := i'))))"

section \<open>The base class\<close>

datatype InstGenerator = JSONGen JSONInstGenerator | TraceGen TraceInstGenerator

definition has_extension :: "string \<Rightarrow> string \<Rightarrow> bool" where
  "has_extension filename ext \<longleftrightarrow> length filename > length ext \<and> drop (length filename - length ext) filename = ext"

text \<open>What opening the files gives is a parameter: the JSON array or the STF records, or the exception.\<close>

definition createGenerator ::
    "(string \<Rightarrow> json_object list result) \<Rightarrow> (string \<Rightarrow> stf_inst list result) \<Rightarrow> ptr \<Rightarrow> string \<Rightarrow> InstGenerator result" where
  "createGenerator parseJSON openSTF a filename =
     (if has_extension filename ''json'' then bindE (parseJSON filename) (\<lambda>jobj. Inr (JSONGen (mk_JSONInstGenerator jobj a)))
      else if has_extension filename ''stf'' then bindE (openSTF filename) (\<lambda>insts. Inr (TraceGen (mk_TraceInstGenerator insts a)))
      else Inl (SpartaAssert ''Unknown file extension''))"

fun getNextInst :: "mavis_facade \<Rightarrow> InstGenerator \<times> heap \<Rightarrow> (ptr option \<times> InstGenerator \<times> heap) result" where
  "getNextInst mf (JSONGen g, h) = bindE (jg_getNextInst mf (g, h)) (\<lambda>(r, g', h'). Inr (r, JSONGen g', h'))"
| "getNextInst mf (TraceGen g, h) = bindE (tg_getNextInst mf (g, h)) (\<lambda>(r, g', h'). Inr (r, TraceGen g', h'))"

fun gen_reset :: "(nat \<Rightarrow> nat \<Rightarrow> bool) \<Rightarrow> Inst \<Rightarrow> bool \<Rightarrow> InstGenerator \<Rightarrow> InstGenerator result" where
  "gen_reset valid i skip (JSONGen g) = bindE (jg_reset i skip g) (\<lambda>g'. Inr (JSONGen g'))"
| "gen_reset valid i skip (TraceGen g) = bindE (tg_reset valid i skip g) (\<lambda>g'. Inr (TraceGen g'))"

fun gen_isDone :: "InstGenerator \<Rightarrow> bool" where
  "gen_isDone (JSONGen g) = jg_isDone g"
| "gen_isDone (TraceGen g) = tg_isDone g"

section \<open>The contract of a generator\<close>

text \<open>The loop of \<open>Fetch::fetchInstruction_\<close> that reads up to \<open>n\<close> instructions behind a buffer.\<close>

fun prefill :: "('g \<times> heap \<Rightarrow> (ptr option \<times> 'g \<times> heap) result) \<Rightarrow> nat \<Rightarrow> 'g \<times> heap \<times> ptr list \<Rightarrow> ('g \<times> heap \<times> ptr list) result" where
  "prefill nxt 0 ghb = Inr ghb"
| "prefill nxt (Suc n) (g, h, buf) =
     bindE (nxt (g, h)) (\<lambda>(r, g1, h1).
       case r of None \<Rightarrow> Inr (g1, h1, buf) | Some p \<Rightarrow> prefill nxt n (g1, h1, buf @ [p]))"

text \<open>An instruction without the identifiers its generator gave it; the instruction read from record \<open>k\<close> of a trace.\<close>

definition content :: "Inst \<Rightarrow> Inst" where
  "content i = i\<lparr>i_rewind_iter := STFIterator None, i_unique_id := 0, i_program_id := 0\<rparr>"

definition read_from :: "Inst result list \<Rightarrow> nat \<Rightarrow> Inst \<Rightarrow> bool" where
  "read_from tr k i \<longleftrightarrow> k < length tr \<and> i_program_id i = k + 1 \<and> (\<exists>i0. tr ! k = Inr i0 \<and> content i = content i0)"

locale rewindable =
  fixes nxt :: "'g \<times> heap \<Rightarrow> (ptr option \<times> 'g \<times> heap) result"
    and rst :: "Inst \<Rightarrow> bool \<Rightarrow> 'g \<Rightarrow> 'g result"
    and gok :: "'g \<Rightarrow> bool"
    and trace :: "'g \<Rightarrow> Inst result list"
    and pos :: "'g \<Rightarrow> nat"
    and uid :: "'g \<Rightarrow> nat"
    and alloc :: "'g \<Rightarrow> ptr"
    and src :: "'g \<Rightarrow> Inst \<Rightarrow> nat option"
    and valid :: "'g \<Rightarrow> nat \<Rightarrow> bool"
  assumes pos_le: "gok g \<Longrightarrow> pos g \<le> length (trace g)"
    and next_end: "gok g \<Longrightarrow> pos g = length (trace g) \<Longrightarrow> nxt (g, h) = Inr (None, g, h)"
    and next_error: "gok g \<Longrightarrow> pos g < length (trace g) \<Longrightarrow> trace g ! pos g = Inl e \<Longrightarrow> nxt (g, h) = Inl e"
    and next_read: "gok g \<Longrightarrow> pos g < length (trace g) \<Longrightarrow> trace g ! pos g = Inr i0 \<Longrightarrow>
      \<exists>g' i. nxt (g, h) = Inr (Some (alloc g), g', h(alloc g := i)) \<and> gok g' \<and> trace g' = trace g \<and> pos g' = pos g + 1 \<and>
        uid g' = uid g + 1 \<and> alloc g' = alloc g + 1 \<and> src g i = Some (pos g) \<and> i_unique_id i = uid g' \<and>
        read_from (trace g) (pos g) i"
    and src_step: "nxt (g, h) = Inr (r, g', h') \<Longrightarrow> src g' = src g"
    and reset_to: "gok g \<Longrightarrow> src g i = Some k \<Longrightarrow> k < length (trace g) \<Longrightarrow> i_program_id i = k + 1 \<Longrightarrow> valid g k \<Longrightarrow>
      \<exists>g'. rst i skip g = Inr g' \<and> gok g' \<and> trace g' = trace g \<and> pos g' = (if skip then k + 1 else k) \<and> uid g' = uid g \<and>
        alloc g' = alloc g \<and> src g' = src g"
begin

text \<open>Reading: the next records in order, in new objects, and nothing else changes.\<close>

lemma prefill_reads:
  assumes "gok g" and "\<forall>k < length (trace g). is_ok (trace g ! k)"
  shows "\<exists>g' h'. prefill nxt n (g, h, buf) = Inr (g', h', buf @ [alloc g ..< alloc g']) \<and> gok g' \<and> trace g' = trace g \<and> src g' = src g \<and>
    alloc g \<le> alloc g' \<and> uid g \<le> uid g' \<and> alloc g' - alloc g = min n (length (trace g) - pos g) \<and> pos g' = pos g + (alloc g' - alloc g) \<and>
    (\<forall>p. p \<notin> {alloc g ..< alloc g'} \<longrightarrow> h' p = h p) \<and>
    (\<forall>p\<in>{alloc g ..< alloc g'}. src g (h' p) = Some (pos g + (p - alloc g)) \<and> read_from (trace g) (pos g + (p - alloc g)) (h' p) \<and>
       uid g < i_unique_id (h' p) \<and> i_unique_id (h' p) \<le> uid g')"
  using assms
proof (induction n arbitrary: g h buf)
  case 0
  then show ?case by simp
next
  case (Suc n)
  show ?case
  proof (cases "pos g = length (trace g)")
    case True
    with next_end[OF Suc.prems(1) True, of h] Suc.prems(1) show ?thesis by simp
  next
    case False
    with pos_le[OF Suc.prems(1)] have lt: "pos g < length (trace g)" by simp
    with Suc.prems(2) obtain i0 where "trace g ! pos g = Inr i0" by (cases "trace g ! pos g") auto
    from next_read[OF Suc.prems(1) lt this, of h] obtain g1 i where
      n1: "nxt (g, h) = Inr (Some (alloc g), g1, h(alloc g := i))" and
      g1: "gok g1" "trace g1 = trace g" "pos g1 = pos g + 1" "uid g1 = uid g + 1" "alloc g1 = alloc g + 1" and
      i: "src g i = Some (pos g)" "i_unique_id i = uid g1" "read_from (trace g) (pos g) i" by blast
    have s1: "src g1 = src g" by (rule src_step[OF n1])
    from Suc.IH[OF g1(1), of "h(alloc g := i)" "buf @ [alloc g]"] Suc.prems(2) g1(2)
    obtain g' h' where p: "prefill nxt n (g1, h(alloc g := i), buf @ [alloc g]) = Inr (g', h', (buf @ [alloc g]) @ [alloc g1 ..< alloc g'])"
      and g': "gok g'" "trace g' = trace g" "src g' = src g" "alloc g1 \<le> alloc g'" "uid g1 \<le> uid g'"
        "alloc g' - alloc g1 = min n (length (trace g) - pos g1)" "pos g' = pos g1 + (alloc g' - alloc g1)"
      and old: "\<And>p. p \<notin> {alloc g1 ..< alloc g'} \<Longrightarrow> h' p = (h(alloc g := i)) p"
      and new: "\<And>p. p \<in> {alloc g1 ..< alloc g'} \<Longrightarrow> src g (h' p) = Some (pos g1 + (p - alloc g1)) \<and>
         read_from (trace g) (pos g1 + (p - alloc g1)) (h' p) \<and> uid g1 < i_unique_id (h' p) \<and> i_unique_id (h' p) \<le> uid g'"
      unfolding g1(2) s1 by blast
    have b: "(buf @ [alloc g]) @ [alloc g1 ..< alloc g'] = buf @ [alloc g ..< alloc g']"
      using g'(4) g1(5) by (simp add: upt_conv_Cons)
    have first: "h' (alloc g) = i" using old[of "alloc g"] g1(5) by simp
    have new': "\<forall>p\<in>{alloc g ..< alloc g'}. src g (h' p) = Some (pos g + (p - alloc g)) \<and> read_from (trace g) (pos g + (p - alloc g)) (h' p) \<and>
       uid g < i_unique_id (h' p) \<and> i_unique_id (h' p) \<le> uid g'"
    proof
      fix p assume p: "p \<in> {alloc g ..< alloc g'}"
      show "src g (h' p) = Some (pos g + (p - alloc g)) \<and> read_from (trace g) (pos g + (p - alloc g)) (h' p) \<and>
        uid g < i_unique_id (h' p) \<and> i_unique_id (h' p) \<le> uid g'"
      proof (cases "p = alloc g")
        case True
        with first i g1 g'(5) show ?thesis by simp
      next
        case False
        with p g1 have "pos g1 + (p - alloc g1) = pos g + (p - alloc g)" by auto
        with new[of p] False p g1 show ?thesis by simp
      qed
    qed
    have q: "prefill nxt (Suc n) (g, h, buf) = Inr (g', h', buf @ [alloc g ..< alloc g'])"
      using n1 p b by simp
    have o: "\<forall>p. p \<notin> {alloc g ..< alloc g'} \<longrightarrow> h' p = h p" using old g1(5) g'(4) by auto
    have c: "alloc g \<le> alloc g'" "uid g \<le> uid g'" "alloc g' - alloc g = min (Suc n) (length (trace g) - pos g)"
      "pos g' = pos g + (alloc g' - alloc g)" using g1 g' lt by auto
    from q g'(1,2,3) c o new' show ?thesis by blast
  qed
qed

text \<open>Replaying: after a reset to an instruction that was read, the same record is read again.\<close>

lemma replay:
  assumes g: "gok g" and i: "src g i = Some k" "k < length (trace g)" "i_program_id i = k + 1" and v: "valid g k"
    and ok: "is_ok (trace g ! k)"
  shows "\<exists>g1 g2 i'. rst i False g = Inr g1 \<and> nxt (g1, h) = Inr (Some (alloc g), g2, h(alloc g := i')) \<and>
    read_from (trace g) k i' \<and> i_unique_id i' = uid g + 1 \<and> src g i' = src g i"
proof -
  from reset_to[OF g i v, of False] obtain g1 where g1: "rst i False g = Inr g1" "gok g1" "trace g1 = trace g" "pos g1 = k"
    "uid g1 = uid g" "alloc g1 = alloc g" "src g1 = src g" by auto
  from ok obtain i0 where i0: "trace g ! k = Inr i0" by (auto simp: is_ok_iff)
  from next_read[OF g1(2), of i0 h] g1 i i0
  obtain g2 i' where "nxt (g1, h) = Inr (Some (alloc g), g2, h(alloc g := i'))" "src g i' = Some k" "i_unique_id i' = uid g + 1"
    "read_from (trace g) k i'" by auto
  with g1(1) i show ?thesis by auto
qed

end

section \<open>Both generators keep the contract\<close>

definition json_src :: "Inst \<Rightarrow> nat option" where
  "json_src i = (case i_rewind_iter i of JSONIterator k \<Rightarrow> Some k | STFIterator _ \<Rightarrow> None)"

definition stf_src :: "Inst \<Rightarrow> nat option" where
  "stf_src i = (case i_rewind_iter i of JSONIterator k \<Rightarrow> None | STFIterator it \<Rightarrow> it)"

definition jg_ok :: "JSONInstGenerator \<Rightarrow> bool" where
  "jg_ok g \<longleftrightarrow> jg_n_insts g = length (jg_jobj g) \<and> jg_curr_inst_index g \<le> jg_n_insts g \<and> jg_program_id g = jg_curr_inst_index g + 1"

definition tg_ok :: "TraceInstGenerator \<Rightarrow> bool" where
  "tg_ok g \<longleftrightarrow> tg_next_it g \<le> length (tg_reader g) \<and> tg_program_id g = tg_next_it g + 1"

definition jg_trace :: "mavis_facade \<Rightarrow> JSONInstGenerator \<Rightarrow> Inst result list" where
  "jg_trace mf g = map (jg_makeInst mf) (jg_jobj g)"

definition tg_trace :: "mavis_facade \<Rightarrow> TraceInstGenerator \<Rightarrow> Inst result list" where
  "tg_trace mf g = map (tg_makeInst mf) (tg_reader g)"

lemma content_stamp [simp]:
  "content (i\<lparr>i_rewind_iter := r, i_unique_id := u, i_program_id := q\<rparr>) = content i"
  "content (i\<lparr>i_unique_id := u, i_program_id := q, i_rewind_iter := r\<rparr>) = content i"
  by (simp_all add: content_def)

interpretation json: rewindable "jg_getNextInst mf" jg_reset jg_ok "jg_trace mf" jg_curr_inst_index jg_unique_id jg_alloc
  "\<lambda>_. json_src" "\<lambda>_ _. True" for mf
proof (unfold_locales, goal_cases)
  case (4 g i0 h)
  then show ?case
    by (auto simp: jg_getNextInst_def jg_isDone_def jg_ok_def jg_trace_def Let_def json_src_def read_from_def)
next
  case (6 g i k skip)
  then show ?case
    by (auto simp: jg_reset_def getRewindIterator_json_def jg_ok_def jg_trace_def json_src_def read_from_def Let_def
        split: RewindIterator.splits)
qed (auto simp: jg_getNextInst_def jg_isDone_def jg_ok_def jg_trace_def)

interpretation stf: rewindable "tg_getNextInst mf" "tg_reset valid" tg_ok "tg_trace mf" tg_next_it tg_unique_id tg_alloc
  "\<lambda>_. stf_src" "\<lambda>g k. valid k (tg_next_it g)" for mf valid
proof (unfold_locales, goal_cases)
  case (4 g i0 h)
  then show ?case
    by (auto simp: tg_getNextInst_def tg_isDone_def tg_ok_def tg_trace_def Let_def stf_src_def read_from_def)
next
  case (6 g i k skip)
  then show ?case
    by (auto simp: tg_reset_def getRewindIterator_stf_def tg_ok_def tg_trace_def stf_src_def read_from_def Let_def
        split: RewindIterator.splits)
qed (auto simp: tg_getNextInst_def tg_isDone_def tg_ok_def tg_trace_def)

fun gen_ok :: "InstGenerator \<Rightarrow> bool" where
  "gen_ok (JSONGen g) = jg_ok g"
| "gen_ok (TraceGen g) = tg_ok g"

fun gen_trace :: "mavis_facade \<Rightarrow> InstGenerator \<Rightarrow> Inst result list" where
  "gen_trace mf (JSONGen g) = jg_trace mf g"
| "gen_trace mf (TraceGen g) = tg_trace mf g"

fun gen_pos :: "InstGenerator \<Rightarrow> nat" where
  "gen_pos (JSONGen g) = jg_curr_inst_index g"
| "gen_pos (TraceGen g) = tg_next_it g"

fun gen_uid :: "InstGenerator \<Rightarrow> nat" where
  "gen_uid (JSONGen g) = jg_unique_id g"
| "gen_uid (TraceGen g) = tg_unique_id g"

fun gen_alloc :: "InstGenerator \<Rightarrow> ptr" where
  "gen_alloc (JSONGen g) = jg_alloc g"
| "gen_alloc (TraceGen g) = tg_alloc g"

fun gen_src :: "InstGenerator \<Rightarrow> Inst \<Rightarrow> nat option" where
  "gen_src (JSONGen g) = json_src"
| "gen_src (TraceGen g) = stf_src"

fun gen_valid :: "(nat \<Rightarrow> nat \<Rightarrow> bool) \<Rightarrow> InstGenerator \<Rightarrow> nat \<Rightarrow> bool" where
  "gen_valid valid (JSONGen g) k = True"
| "gen_valid valid (TraceGen g) k = valid k (tg_next_it g)"

interpretation gen: rewindable "getNextInst mf" "gen_reset valid" gen_ok "gen_trace mf" gen_pos gen_uid gen_alloc gen_src
  "gen_valid valid" for mf valid
proof (unfold_locales, goal_cases)
  case (1 g)
  then show ?case by (cases g) (simp_all add: json.pos_le stf.pos_le)
next
  case (2 g h)
  then show ?case by (cases g) (simp_all add: json.next_end stf.next_end)
next
  case (3 g e h)
  then show ?case by (cases g) (simp_all add: json.next_error stf.next_error)
next
  case (4 g i0 h)
  show ?case
  proof (cases g)
    case (JSONGen j)
    with 4 have "jg_ok j" "jg_curr_inst_index j < length (jg_trace mf j)" "jg_trace mf j ! jg_curr_inst_index j = Inr i0" by simp_all
    from json.next_read[OF this, of h] JSONGen show ?thesis by (elim exE conjE) (simp, blast)
  next
    case (TraceGen t)
    with 4 have "tg_ok t" "tg_next_it t < length (tg_trace mf t)" "tg_trace mf t ! tg_next_it t = Inr i0" by simp_all
    from stf.next_read[OF this, of h] TraceGen show ?thesis by (elim exE conjE) (simp, blast)
  qed
next
  case (5 g h r g' h')
  then show ?case by (cases g) (auto simp: bindE_eq_Inr)
next
  case (6 g i k skip)
  show ?case
  proof (cases g)
    case (JSONGen j)
    with 6 json.reset_to[of j i k mf skip] show ?thesis by auto
  next
    case (TraceGen t)
    with 6 stf.reset_to[of t i k mf valid skip] show ?thesis by auto
  qed
qed

lemma createGenerator_ok:
  "createGenerator pj os a fn = Inr g \<Longrightarrow> gen_ok g \<and> gen_pos g = 0 \<and> gen_uid g = 0 \<and> gen_alloc g = a"
  by (auto simp: createGenerator_def bindE_eq_Inr mk_JSONInstGenerator_def mk_TraceInstGenerator_def jg_ok_def tg_ok_def split: if_splits)

section \<open>Reading a trace and replaying it\<close>

definition trace_ok :: "mavis_facade \<Rightarrow> InstGenerator \<Rightarrow> bool" where
  "trace_ok mf g = list_all is_ok (gen_trace mf g)"

lemma trace_okD: "trace_ok mf g \<Longrightarrow> k < length (gen_trace mf g) \<Longrightarrow> is_ok (gen_trace mf g ! k)"
  by (simp add: trace_ok_def list_all_length)

text \<open>C14. Reading and replaying a trace, for both generators. The first \<open>n\<close> reads of a new generator return new objects
  in the order of the trace: the object read as number \<open>j\<close> is built from record \<open>j\<close>, has program identifier \<open>j + 1\<close> and
  a unique identifier above all earlier ones. A reset to the instruction of number \<open>j\<close>, whose iterator is still valid,
  succeeds, and the next read returns record \<open>j\<close> again (the record after it when the reset skips it): the same
  instruction with the same program identifier, in a new object whose unique identifier was never used before.\<close>

theorem generator_replays:
  assumes new: "createGenerator parseJSON openSTF a filename = Inr g" and ok: "trace_ok mf g"
    and rd: "prefill (getNextInst mf) n (g, h, []) = Inr (g1, h1, ps)" and j: "j < length ps" and v: "gen_valid valid g1 j"
  shows "length ps = min n (length (gen_trace mf g)) \<and> distinct ps
    \<and> (\<forall>k < length ps. read_from (gen_trace mf g) k (h1 (ps ! k)))
    \<and> (\<exists>g2 g3 p i. gen_reset valid (h1 (ps ! j)) False g1 = Inr g2 \<and> getNextInst mf (g2, h1) = Inr (Some p, g3, h1(p := i)) \<and>
         p \<notin> set ps \<and> read_from (gen_trace mf g) j i \<and> content i = content (h1 (ps ! j)) \<and>
         i_program_id i = i_program_id (h1 (ps ! j)) \<and> (\<forall>q\<in>set ps. i_unique_id (h1 q) < i_unique_id i))
    \<and> (\<exists>g2. gen_reset valid (h1 (ps ! j)) True g1 = Inr g2 \<and> gen_pos g2 = j + 1 \<and> gen_trace mf g2 = gen_trace mf g)"
proof -
  from createGenerator_ok[OF new] have g: "gen_ok g" "gen_pos g = 0" "gen_alloc g = a" by simp_all
  have "\<forall>k < length (gen_trace mf g). is_ok (gen_trace mf g ! k)" using trace_okD[OF ok] by simp
  from gen.prefill_reads[OF g(1) this, of n h "[]"] rd g
  have ps: "ps = [a ..< gen_alloc g1]" and g1: "gen_ok g1" "gen_trace mf g1 = gen_trace mf g" "gen_src g1 = gen_src g"
    and len: "gen_alloc g1 - a = min n (length (gen_trace mf g))"
    and new: "\<And>p. p \<in> {a ..< gen_alloc g1} \<Longrightarrow> gen_src g (h1 p) = Some (p - a) \<and> read_from (gen_trace mf g) (p - a) (h1 p) \<and>
       i_unique_id (h1 p) \<le> gen_uid g1" by auto
  from j ps have pj: "ps ! j = a + j" "a + j \<in> {a ..< gen_alloc g1}" by auto
  from new[OF pj(2)] g1(2,3) have i: "gen_src g1 (h1 (ps ! j)) = Some j" "j < length (gen_trace mf g1)" "i_program_id (h1 (ps ! j)) = j + 1"
    and rj: "read_from (gen_trace mf g) j (h1 (ps ! j))" unfolding pj(1) by (auto simp: read_from_def)
  from trace_okD[OF ok] i(2) g1(2) have okj: "is_ok (gen_trace mf g1 ! j)" by simp
  from gen.replay[OF g1(1) i v okj, of h1] g1(2) obtain g2 g3 i' where r: "gen_reset valid (h1 (ps ! j)) False g1 = Inr g2"
    "getNextInst mf (g2, h1) = Inr (Some (gen_alloc g1), g3, h1(gen_alloc g1 := i'))" "read_from (gen_trace mf g) j i'"
    "i_unique_id i' = gen_uid g1 + 1" by auto
  from r(3) rj have same: "content i' = content (h1 (ps ! j))" "i_program_id i' = i_program_id (h1 (ps ! j))"
    by (auto simp: read_from_def)
  have uid: "\<forall>q\<in>set ps. i_unique_id (h1 q) < i_unique_id i'" using new r(4) ps by fastforce
  have rep: "\<exists>g2 g3 p i. gen_reset valid (h1 (ps ! j)) False g1 = Inr g2 \<and> getNextInst mf (g2, h1) = Inr (Some p, g3, h1(p := i)) \<and>
         p \<notin> set ps \<and> read_from (gen_trace mf g) j i \<and> content i = content (h1 (ps ! j)) \<and>
         i_program_id i = i_program_id (h1 (ps ! j)) \<and> (\<forall>q\<in>set ps. i_unique_id (h1 q) < i_unique_id i)"
    by (intro exI[of _ g2] exI[of _ g3] exI[of _ "gen_alloc g1"] exI[of _ i']) (use r(1-3) same uid in \<open>simp add: ps\<close>)
  from gen.reset_to[OF g1(1) i v, of True] g1(2)
  have skip: "\<exists>g2. gen_reset valid (h1 (ps ! j)) True g1 = Inr g2 \<and> gen_pos g2 = j + 1 \<and> gen_trace mf g2 = gen_trace mf g" by auto
  have all: "\<forall>k < length ps. read_from (gen_trace mf g) k (h1 (ps ! k))"
  proof (intro allI impI)
    fix k assume "k < length ps"
    with ps have "ps ! k = a + k" "a + k \<in> {a ..< gen_alloc g1}" by auto
    with new[of "a + k"] show "read_from (gen_trace mf g) k (h1 (ps ! k))" by simp
  qed
  from len ps have "length ps = min n (length (gen_trace mf g))" "distinct ps" by simp_all
  with all rep skip show ?thesis by blast
qed

definition ex_facade :: mavis_facade where
  "ex_facade = \<lparr>mv_makeInst = (\<lambda>opc. Inr ((sample_Inst TP_INT 0 [] [])\<lparr>i_status := BEFORE_FETCH\<rparr>)), mv_makeInstDirectly = ex_mavis\<rparr>"

definition ex_json :: "json_object list" where
  "ex_json = [[(''mnemonic'', JString ''add''), (''rs1'', JNumber 1), (''rd'', JNumber 2)], [(''opcode'', JString ''0x13'')]]"

definition ex_gen :: InstGenerator where
  "ex_gen = JSONGen (mk_JSONInstGenerator ex_json 7)"

lemma ex_gen_created: "createGenerator (\<lambda>_. Inr ex_json) (\<lambda>_. Inr []) 7 ''a.json'' = Inr ex_gen"
  by (simp add: createGenerator_def has_extension_def ex_gen_def)

lemma ex_gen_ok: "trace_ok ex_facade ex_gen"
  by (simp add: trace_ok_def ex_gen_def jg_trace_def mk_JSONInstGenerator_def ex_json_def jg_makeInst_def ex_facade_def ex_mavis_def
      jg_srcs_def jg_dests_def jg_addElement_def as_string_def value_to_uint64_def jg_field_def)

theorem generator_replays_witness:
  "\<exists>g1 h1 ps i. prefill (getNextInst ex_facade) 2 (ex_gen, \<lambda>_. ex_vec_inst 0, []) = Inr (g1, h1, ps) \<and> length ps = 2 \<and>
     read_from (gen_trace ex_facade ex_gen) 1 i \<and> content i = content (h1 (ps ! 1)) \<and> i_program_id i = i_program_id (h1 (ps ! 1))"
proof -
  have len: "length (gen_trace ex_facade ex_gen) = 2"
    by (simp add: ex_gen_def jg_trace_def mk_JSONInstGenerator_def ex_json_def)
  have ok: "\<forall>k < length (gen_trace ex_facade ex_gen). is_ok (gen_trace ex_facade ex_gen ! k)" using trace_okD[OF ex_gen_ok] by simp
  have "gen_ok ex_gen" using createGenerator_ok[OF ex_gen_created] by simp
  from gen.prefill_reads[OF this ok, of 2 "\<lambda>_. ex_vec_inst 0" "[]"] obtain g1 h1 ps where
    rd: "prefill (getNextInst ex_facade) 2 (ex_gen, \<lambda>_. ex_vec_inst 0, []) = Inr (g1, h1, ps)" and l: "length ps = 2"
    using len createGenerator_ok[OF ex_gen_created] by fastforce
  from l have "1 < length ps" by simp
  from generator_replays[OF ex_gen_created ex_gen_ok rd this, of "\<lambda>_ _. True"] rd l show ?thesis
    by (cases g1) auto
qed

end
