(* ===== verification/FetchUnit.thy ===== *)
theory FetchUnit
  imports InstCache InstGen
begin

text \<open>
  The fetch unit (\<open>core/fetch/Fetch.hpp\<close>, \<open>Fetch.cpp\<close>).

  The unit reads the trace through the instruction generator, groups instructions of one cache block into a request to
  the instruction cache, and sends the instructions whose block has arrived to decode. The handlers take the stores
  beside the state of the unit; \<open>mf\<close> and \<open>valid\<close> are the parameters of the generator, and the field
  \<open>fp_floor_log2\<close> stands for \<open>sparta::utils::floor_log2\<close>, of which nothing is assumed.
\<close>

record FetchParameterSet =
  fp_num_to_fetch :: nat
  fp_block_width :: nat
  fp_fetch_buffer_size :: nat
  fp_floor_log2 :: "nat \<Rightarrow> nat"

datatype fetch_event =
    OutFetchQueueWrite "ptr list"
  | OutFetchIcacheReq mptr
  | CancelFetchQueueWrite
  | CancelFetchIcacheReq

record Fetch =
  ft_credits_inst_queue :: nat
  ft_credits_icache :: nat
  ft_ibuf :: "ptr list"
  ft_fetch_buffer :: "ptr list"
  ft_fetch_buffer_occupancy :: nat
  ft_rob_stopped_simulation :: bool
  ft_inst_generator :: InstGenerator
  ft_ev_fetch_insts :: "nat list"
  ft_ev_send_insts :: "nat list"
  ft_speculative_path :: bool
  ft_out :: "fetch_event list"

text \<open>\<open>floor_log2\<close> of the block width, and \<open>ceil\<close> of an integer quotient.\<close>

definition icache_block_shift :: "FetchParameterSet \<Rightarrow> nat" where
  "icache_block_shift pr = fp_floor_log2 pr (fp_block_width pr)"

definition ibuf_capacity :: "FetchParameterSet \<Rightarrow> nat" where
  "ibuf_capacity pr = fp_block_width pr div 2"

definition mk_Fetch :: "InstGenerator \<Rightarrow> Fetch" where
  "mk_Fetch g = \<lparr>ft_credits_inst_queue = 0, ft_credits_icache = 0, ft_ibuf = [], ft_fetch_buffer = [], ft_fetch_buffer_occupancy = 0,
     ft_rob_stopped_simulation = False, ft_inst_generator = g, ft_ev_fetch_insts = [], ft_ev_send_insts = [],
     ft_speculative_path = False, ft_out = []\<rparr>"

definition ft_emit :: "fetch_event \<Rightarrow> Fetch \<Rightarrow> Fetch" where
  "ft_emit e f = f\<lparr>ft_out := ft_out f @ [e]\<rparr>"

definition schedule_fetch :: "nat \<Rightarrow> Fetch \<Rightarrow> Fetch" where
  "schedule_fetch n f = f\<lparr>ft_ev_fetch_insts := sched n (ft_ev_fetch_insts f)\<rparr>"

definition schedule_send :: "nat \<Rightarrow> Fetch \<Rightarrow> Fetch" where
  "schedule_send n f = f\<lparr>ft_ev_send_insts := sched n (ft_ev_send_insts f)\<rparr>"

definition ft_initialize :: "Fetch \<Rightarrow> Fetch" where
  "ft_initialize f = schedule_fetch 1 f"

section \<open>Requests to the instruction cache\<close>

definition different_blocks :: "nat \<Rightarrow> Inst \<Rightarrow> Inst \<Rightarrow> bool" where
  "different_blocks shift lhs rhs \<longleftrightarrow>
     drop_bit shift (i_pc lhs) \<noteq> drop_bit shift (i_pc rhs) \<or> i_is_taken_branch lhs \<or> i_is_cof rhs"

text \<open>The number of instructions before the end of the first block: \<open>std::adjacent_find\<close> and the increment.\<close>

fun block_length :: "nat \<Rightarrow> heap \<Rightarrow> ptr list \<Rightarrow> nat" where
  "block_length shift h [] = 0"
| "block_length shift h [p] = 1"
| "block_length shift h (p # q # ps) =
     (if different_blocks shift (h p) (h q) then 1 else block_length shift h (q # ps) + 1)"

definition setLastInFetchBlock :: "bool \<Rightarrow> Inst \<Rightarrow> Inst" where
  "setLastInFetchBlock b i = i\<lparr>i_last_in_fetch_block := b\<rparr>"

text \<open>The instructions of the first block of the buffer are requested from the cache and wait in the fetch buffer.\<close>

definition request_block :: "FetchParameterSet \<Rightarrow> bool \<Rightarrow> 'a world_scheme \<times> Fetch \<Rightarrow> 'a world_scheme \<times> Fetch" where
  "request_block pr junk st =
     (case st of (w, f) \<Rightarrow>
        let buf = ft_ibuf f in
        if ft_credits_icache f = 0 \<or> ft_ibuf f = [] \<or> length (ft_fetch_buffer f) > fp_fetch_buffer_size pr then (w, f)
        else
          let n = block_length (icache_block_shift pr) (w_inst w) buf;
              grp = take n buf;
              m = w_next w;
              mem = (mk_MemoryAccessInfo_addr junk (i_pc (w_inst w (hd buf))))\<lparr>mi_fetch_group := Some grp\<rparr>;
              fb = ft_fetch_buffer f @ grp;
              w1 = upd_inst (last fb) (setLastInFetchBlock True (w_inst w (last fb)))
                     (w\<lparr>w_mai := (w_mai w)(m := mem), w_next := m + 1\<rparr>);
              f1 = (ft_emit (OutFetchIcacheReq m) f)\<lparr>ft_fetch_buffer := fb, ft_credits_icache := ft_credits_icache f - 1,
                     ft_fetch_buffer_occupancy := add32 (ft_fetch_buffer_occupancy f) 1, ft_ibuf := drop n buf\<rparr>
          in (w1, if ft_ibuf f1 \<noteq> [] \<and> ft_credits_icache f1 > 0 \<and> ft_fetch_buffer_occupancy f1 < fp_fetch_buffer_size pr
                  then schedule_fetch 1 f1 else f1))"

definition fetchInstruction ::
    "mavis_facade \<Rightarrow> FetchParameterSet \<Rightarrow> bool \<Rightarrow> 'a world_scheme \<times> Fetch \<Rightarrow> ('a world_scheme \<times> Fetch) result" where
  "fetchInstruction mf pr junk st =
     (case st of (w0, f0) \<Rightarrow>
        bindE (prefill (getNextInst mf) (ibuf_capacity pr - length (ft_ibuf f0)) (ft_inst_generator f0, w_inst w0, ft_ibuf f0)) (\<lambda>(g, h, buf).
          Inr (request_block pr junk (w0\<lparr>w_inst := h\<rparr>, f0\<lparr>ft_inst_generator := g, ft_ibuf := buf\<rparr>))))"

section \<open>Instructions to decode\<close>

definition setSpeculative :: "bool \<Rightarrow> Inst \<Rightarrow> Inst" where
  "setSpeculative b i = i\<lparr>i_is_speculative := b\<rparr>"

fun fetch_send_loop ::
    "nat \<Rightarrow> ptr list \<Rightarrow> 'a world_scheme \<times> Fetch \<Rightarrow> (ptr list \<times> 'a world_scheme \<times> Fetch) result" where
  "fetch_send_loop 0 grp st = Inr (grp, st)"
| "fetch_send_loop (Suc k) grp (w, f) =
     (case ft_fetch_buffer f of
        [] \<Rightarrow> Inl (UndefinedBehaviour ''front of an empty deque'')
      | p # rest \<Rightarrow>
          if i_status (w_inst w p) \<noteq> FETCHED then Inr (grp, (w, f))
          else if i_is_cof (w_inst w p) \<and> grp \<noteq> [] then Inr (grp, (w, f))
          else let w1 = upd_inst p (setSpeculative (ft_speculative_path f) (w_inst w p)) w;
                   f1 = f\<lparr>ft_fetch_buffer := rest,
                         ft_fetch_buffer_occupancy := (if i_last_in_fetch_block (w_inst w p) then sub32 (ft_fetch_buffer_occupancy f) 1
                                                       else ft_fetch_buffer_occupancy f)\<rparr>
               in if i_is_taken_branch (w_inst w p) then Inr (grp @ [p], (w1, f1)) else fetch_send_loop k (grp @ [p]) (w1, f1))"

definition sendInstructions :: "FetchParameterSet \<Rightarrow> 'a world_scheme \<times> Fetch \<Rightarrow> ('a world_scheme \<times> Fetch) result" where
  "sendInstructions pr st =
     (case st of (w, f) \<Rightarrow>
        let upper = min (ft_credits_inst_queue f) (min (fp_num_to_fetch pr) (length (ft_fetch_buffer f))) in
        if upper = 0 then Inr (w, f)
        else bindE (fetch_send_loop upper [] (w, f)) (\<lambda>(grp, w1, f1).
               let f2 = ft_emit (OutFetchQueueWrite grp) (f1\<lparr>ft_credits_inst_queue := sub32 (ft_credits_inst_queue f1) (length grp)\<rparr>);
                   f3 = (if ft_fetch_buffer f2 \<noteq> [] \<and> ft_credits_inst_queue f2 > 0 then schedule_send 1 f2 else f2)
               in Inr (w1, schedule_fetch 1 f3)))"

section \<open>Responses, credits and flush\<close>

definition mark_fetched :: "'a world_scheme \<Rightarrow> ptr \<Rightarrow> 'a world_scheme result" where
  "mark_fetched w p = bindE (setStatus FETCHED (w_inst w p)) (\<lambda>(i, _). Inr (upd_inst p i w))"

definition receiveCacheResponse :: "mptr \<Rightarrow> 'a world_scheme \<times> Fetch \<Rightarrow> ('a world_scheme \<times> Fetch) result" where
  "receiveCacheResponse m st =
     (case st of (w, f) \<Rightarrow>
        case mi_fetch_group (w_mai w m) of
          None \<Rightarrow> Inl (SpartaAssert ''no instructions set for cache request'')
        | Some grp \<Rightarrow>
            if mi_cache_access_state (w_mai w m) = CS_HIT
            then bindE (foldE mark_fetched w grp) (\<lambda>w1. Inr (w1, schedule_send 0 f))
            else Inr (w, f))"

definition receiveCacheCredit :: "nat \<Rightarrow> Fetch \<Rightarrow> Fetch" where
  "receiveCacheCredit dat f = schedule_fetch 0 (f\<lparr>ft_credits_icache := add32 (ft_credits_icache f) dat\<rparr>)"

definition receiveFetchQueueCredits :: "nat \<Rightarrow> Fetch \<Rightarrow> Fetch" where
  "receiveFetchQueueCredits dat f = schedule_send 0 (f\<lparr>ft_credits_inst_queue := add32 (ft_credits_inst_queue f) dat\<rparr>)"

definition flushFetch :: "(nat \<Rightarrow> nat \<Rightarrow> bool) \<Rightarrow> heap \<Rightarrow> FlushingCriteria \<Rightarrow> Fetch \<Rightarrow> Fetch result" where
  "flushFetch valid h c f =
     bindE (gen_reset valid (h (fc_inst c)) (\<not> fc_is_inclusive c) (ft_inst_generator f)) (\<lambda>g.
       let f1 = ft_emit CancelFetchIcacheReq (ft_emit CancelFetchQueueWrite (f\<lparr>ft_inst_generator := g\<rparr>))
       in Inr (schedule_fetch 1 (f1\<lparr>ft_ibuf := [], ft_fetch_buffer := []\<rparr>)))"

definition ft_onROBTerminate :: "bool \<Rightarrow> Fetch \<Rightarrow> Fetch" where
  "ft_onROBTerminate stopped f = f\<lparr>ft_rob_stopped_simulation := stopped\<rparr>"

definition ft_onStartingTeardown :: "Fetch \<Rightarrow> unit result" where
  "ft_onStartingTeardown f =
     assertE (\<not> (\<not> ft_rob_stopped_simulation f \<and> ft_fetch_buffer f \<noteq> [])) ''fetch buffer has pending instructions''"

end
