(* ===== verification/InstCacheProps.thy ===== *)
theory InstCacheProps
  imports InstCache "HOL-Library.Multiset"
begin

text \<open>
  The reachable states of the instruction cache and their invariant: every open access is in one place and credited
  once, its miss response precedes its replay, the blocks of the pending misses are those with one fill on its way, and
  whatever can go on has its event scheduled.
\<close>

section \<open>The reachable states\<close>

definition ic_credits :: "'c ICache \<Rightarrow> nat" where
  "ic_credits s = sum_list (map (\<lambda>e. case e of OutFetchCredit n \<Rightarrow> n | _ \<Rightarrow> 0) (ic_out s))"

definition new_l2_reqs :: "'c ICache \<Rightarrow> 'c ICache \<Rightarrow> mptr list" where
  "new_l2_reqs s s' = concat (map (\<lambda>e. case e of OutIcL2Req n \<Rightarrow> [n] | _ \<Rightarrow> []) (drop (length (ic_out s)) (ic_out s')))"

text \<open>The accesses of the fetch unit that the cache works on.\<close>

definition ic_waiting :: "'c ICache \<Rightarrow> mptr list" where
  "ic_waiting s = ic_pending_miss_buffer s @ ic_replay_buffer s @ map fst (ic_ev_replay_ready s)"

definition ic_hits :: "'a world_scheme \<Rightarrow> 'c ICache \<Rightarrow> mptr list" where
  "ic_hits w s = filter (\<lambda>m. mi_cache_access_state (w_mai w m) = CS_HIT) (map fst (ic_ev_respond s))"

definition ic_open :: "'a world_scheme \<Rightarrow> 'c ICache \<Rightarrow> mptr list" where
  "ic_open w s = ic_fetch_req_queue s @ ic_hits w s @ ic_waiting s"

definition ic_holds :: "'c ICache \<Rightarrow> mptr set" where
  "ic_holds s = set (ic_fetch_req_queue s) \<union> set (map fst (ic_ev_respond s)) \<union> set (ic_waiting s) \<union>
     set (ic_miss_queue s) \<union> set (ic_l2cache_resp_queue s)"

definition env_icache :: "world \<Rightarrow> 'c ICache \<Rightarrow> world \<Rightarrow> bool" where
  "env_icache w s w' \<longleftrightarrow> w_next w \<le> w_next w' \<and>
     (\<forall>m\<in>ic_holds s. mi_paddr (w_mai w' m) = mi_paddr (w_mai w m) \<and> mi_cache_access_state (w_mai w' m) = mi_cache_access_state (w_mai w m))"

text \<open>The next cycle: every event that is due has run, and the delays count down.\<close>

definition ic_quiet :: "'c ICache \<Rightarrow> bool" where
  "ic_quiet s \<longleftrightarrow> 0 \<notin> set (ic_ev_arbitrate s) \<and> 0 \<notin> set (ic_ev_l2cache_request s) \<and>
     0 \<notin> snd ` set (ic_ev_respond s) \<and> 0 \<notin> snd ` set (ic_ev_replay_ready s)"

definition ic_tick :: "'c ICache \<Rightarrow> 'c ICache" where
  "ic_tick s = s\<lparr>ic_ev_arbitrate := map (\<lambda>d. d - 1) (ic_ev_arbitrate s), ic_ev_l2cache_request := map (\<lambda>d. d - 1) (ic_ev_l2cache_request s),
     ic_ev_respond := map (\<lambda>(m, d). (m, d - 1)) (ic_ev_respond s), ic_ev_replay_ready := map (\<lambda>(m, d). (m, d - 1)) (ic_ev_replay_ready s)\<rparr>"

text \<open>\<open>icache_reach ca pr b n L w s\<close>: the cache reaches \<open>s\<close>, with the stores \<open>w\<close>, after \<open>n\<close> requests of the fetch unit; \<open>L\<close> are
  the blocks requested from the L2 cache that it has not answered; \<open>b\<close> tells that the arbitration of this cycle has run
  (messages of a cycle arrive before it).\<close>

inductive icache_reach :: "'c cache_api \<Rightarrow> ICacheParameterSet \<Rightarrow> bool \<Rightarrow> nat \<Rightarrow> 64 word list \<Rightarrow> world \<Rightarrow> 'c ICache \<Rightarrow> bool"
  for ca :: "'c cache_api" and pr :: ICacheParameterSet where
  start: "icache_reach ca pr False 0 [] w (ic_sendInitialCredits (mk_ICache c))"
| environment: "icache_reach ca pr b n L w s \<Longrightarrow> env_icache w s w' \<Longrightarrow> icache_reach ca pr b n L w' s"
| request: "icache_reach ca pr False n L w s \<Longrightarrow> n < ic_credits s \<Longrightarrow> m \<notin> ic_holds s \<Longrightarrow> m < w_next w \<Longrightarrow>
    icache_reach ca pr False (n + 1) L w (getRequestFromFetch m s)"
| response: "icache_reach ca pr False n L w s \<Longrightarrow> block_of ca w m \<in> set L \<Longrightarrow> mi_cache_access_state (w_mai w m) = CS_HIT \<Longrightarrow>
    m \<notin> ic_holds s \<Longrightarrow> m < w_next w \<Longrightarrow> icache_reach ca pr False n (remove1 (block_of ca w m) L) w (ic_getRespFromL2Cache w m s)"
| credits: "icache_reach ca pr False n L w s \<Longrightarrow> icache_reach ca pr False n L w (ic_getCreditsFromL2Cache k s)"
| arbitrate: "icache_reach ca pr False n L w s \<Longrightarrow> 0 \<in> set (ic_ev_arbitrate s) \<Longrightarrow>
    doArbitration ca pr (w, s\<lparr>ic_ev_arbitrate := removeAll 0 (ic_ev_arbitrate s)\<rparr>) = Inr (w', s') \<Longrightarrow>
    icache_reach ca pr True n (L @ map (block_of ca w') (new_l2_reqs s s')) w' s'"
| l2_request: "icache_reach ca pr b n L w s \<Longrightarrow> 0 \<in> set (ic_ev_l2cache_request s) \<Longrightarrow>
    makeL2CacheRequest (w, s\<lparr>ic_ev_l2cache_request := removeAll 0 (ic_ev_l2cache_request s)\<rparr>) = (w', s') \<Longrightarrow>
    icache_reach ca pr b n (L @ map (block_of ca w') (new_l2_reqs s s')) w' s'"
| respond: "icache_reach ca pr b n L w s \<Longrightarrow> (m, 0) \<in> set (ic_ev_respond s) \<Longrightarrow>
    icache_reach ca pr b n L w (sendResponse w m (s\<lparr>ic_ev_respond := remove1 (m, 0) (ic_ev_respond s)\<rparr>))"
| replay: "icache_reach ca pr b n L w s \<Longrightarrow> (m, 0) \<in> set (ic_ev_replay_ready s) \<Longrightarrow>
    sendReplay m (w, s\<lparr>ic_ev_replay_ready := remove1 (m, 0) (ic_ev_replay_ready s)\<rparr>) = (w', s') \<Longrightarrow> icache_reach ca pr b n L w' s'"
| cycle: "icache_reach ca pr b n L w s \<Longrightarrow> ic_quiet s \<Longrightarrow> icache_reach ca pr False n L w (ic_tick s)"

section \<open>The invariant\<close>

text \<open>Every open access is in one place; what waits is a miss, and a response that is no hit belongs to one that waits.\<close>

definition own_inv :: "nat \<Rightarrow> 'a world_scheme \<Rightarrow> 'c ICache \<Rightarrow> bool" where
  "own_inv n w s \<longleftrightarrow> ic_credits s + length (ic_open w s) = fetch_queue_size + n \<and> distinct (ic_open w s) \<and>
     distinct (map fst (ic_ev_respond s)) \<and> (\<forall>m\<in>set (ic_waiting s). mi_cache_access_state (w_mai w m) = CS_MISS) \<and>
     (\<forall>m\<in>fst ` set (ic_ev_respond s). mi_cache_access_state (w_mai w m) \<noteq> CS_HIT \<longrightarrow> m \<in> set (ic_waiting s)) \<and>
     (\<forall>m\<in>ic_holds s. m < w_next w)"

text \<open>The response of an access is sent before its replay.\<close>

definition time_inv :: "nat \<Rightarrow> bool \<Rightarrow> 'c ICache \<Rightarrow> bool" where
  "time_inv lat b s \<longleftrightarrow> (\<forall>(m, d)\<in>set (ic_ev_respond s). d \<le> lat \<and> (b \<or> d < lat)) \<and>
     (\<forall>(m, d)\<in>set (ic_ev_respond s). \<forall>(m', d')\<in>set (ic_ev_replay_ready s). m = m' \<longrightarrow> d < d')"

text \<open>The blocks of the pending misses are those with one request to the L2 cache on its way.\<close>

definition line_inv :: "'c cache_api \<Rightarrow> 64 word list \<Rightarrow> 'a world_scheme \<Rightarrow> 'c ICache \<Rightarrow> bool" where
  "line_inv ca L w s \<longleftrightarrow>
     distinct (map (block_of ca w) (ic_miss_queue s) @ L @ map (block_of ca w) (ic_l2cache_resp_queue s)) \<and>
     block_of ca w ` set (ic_pending_miss_buffer s) =
       set (map (block_of ca w) (ic_miss_queue s) @ L @ map (block_of ca w) (ic_l2cache_resp_queue s)) \<and>
     set (ic_miss_queue s) \<subseteq> set (ic_pending_miss_buffer s)"

text \<open>Work that can go on has its event scheduled.\<close>

definition wake_inv :: "'c ICache \<Rightarrow> bool" where
  "wake_inv s \<longleftrightarrow>
     (ic_l2cache_resp_queue s \<noteq> [] \<or> ic_replay_buffer s \<noteq> [] \<or> ic_fetch_req_queue s \<noteq> [] \<longrightarrow> ic_ev_arbitrate s \<noteq> []) \<and>
     (ic_miss_queue s \<noteq> [] \<and> ic_l2cache_credits s > 0 \<longrightarrow> ic_ev_l2cache_request s \<noteq> [])"

lemma ic_credits_emit [simp]: "ic_credits (ic_emit e s) = ic_credits s + (case e of OutFetchCredit k \<Rightarrow> k | _ \<Rightarrow> 0)"
  by (simp add: ic_credits_def ic_emit_def)

text \<open>The invariant of the open accesses up to their order, for stores that agree on what the cache holds.\<close>

lemma own_inv_cong:
  assumes own: "own_inv n w s" and cr: "ic_credits s' = ic_credits s" and f: "ic_fetch_req_queue s' = ic_fetch_req_queue s"
    and r: "ic_ev_respond s' = ic_ev_respond s" and m: "mset (ic_waiting s') = mset (ic_waiting s)"
    and h: "ic_holds s' \<subseteq> ic_holds s"
    and w: "\<And>m. m \<in> ic_holds s \<Longrightarrow> mi_cache_access_state (w_mai w' m) = mi_cache_access_state (w_mai w m)" and x: "w_next w \<le> w_next w'"
  shows "own_inv n w' s'"
proof -
  have st: "set (ic_waiting s') = set (ic_waiting s)" using m by (metis set_mset_mset)
  have k: "mi_cache_access_state (w_mai w' m) = mi_cache_access_state (w_mai w m)" if "m \<in> fst ` set (ic_ev_respond s) \<union> set (ic_waiting s)" for m
    by (rule w) (use that in \<open>auto simp: ic_holds_def\<close>)
  have hits: "ic_hits w' s' = ic_hits w s" unfolding ic_hits_def r by (rule filter_cong) (use k in auto)
  have o: "mset (ic_open w' s') = mset (ic_open w s)" by (simp add: ic_open_def f hits m)
  have "length (ic_open w' s') = length (ic_open w s)" "distinct (ic_open w' s') = distinct (ic_open w s)"
    using o by (metis size_mset, metis mset_eq_imp_distinct_iff)
  moreover have "m < w_next w'" if "m \<in> ic_holds s'" for m using own h x that unfolding own_inv_def by (meson less_le_trans subsetD)
  ultimately show ?thesis using own k unfolding own_inv_def st cr r by simp
qed

lemma time_inv_cong:
  "time_inv lat b s \<Longrightarrow> ic_ev_respond s' = ic_ev_respond s \<Longrightarrow> ic_ev_replay_ready s' = ic_ev_replay_ready s \<Longrightarrow> time_inv lat b s'"
  by (simp add: time_inv_def)

lemma line_inv_cong:
  assumes l: "line_inv ca L w s" and q: "ic_miss_queue s' = ic_miss_queue s" "ic_pending_miss_buffer s' = ic_pending_miss_buffer s"
      "ic_l2cache_resp_queue s' = ic_l2cache_resp_queue s"
    and b: "\<And>m. m \<in> ic_holds s \<Longrightarrow> block_of ca w' m = block_of ca w m"
  shows "line_inv ca L w' s'"
proof -
  have e: "map (block_of ca w') (ic_miss_queue s) = map (block_of ca w) (ic_miss_queue s)"
    "map (block_of ca w') (ic_l2cache_resp_queue s) = map (block_of ca w) (ic_l2cache_resp_queue s)"
    "block_of ca w' ` set (ic_pending_miss_buffer s) = block_of ca w ` set (ic_pending_miss_buffer s)"
    by (auto simp: b ic_holds_def ic_waiting_def image_def)
  show ?thesis using l unfolding line_inv_def q e .
qed

definition ic_core :: "'c cache_api \<Rightarrow> nat \<Rightarrow> bool \<Rightarrow> nat \<Rightarrow> 64 word list \<Rightarrow> 'a world_scheme \<Rightarrow> 'c ICache \<Rightarrow> bool" where
  "ic_core ca lat b n L w s \<longleftrightarrow> own_inv n w s \<and> time_inv lat b s \<and> line_inv ca L w s"

text \<open>A change of the scheduled unique events, of the cache and of the statistics is none.\<close>

definition ic_same :: "'c ICache \<Rightarrow> 'c ICache \<Rightarrow> bool" where
  "ic_same s s' \<longleftrightarrow> ic_credits s' = ic_credits s \<and> ic_fetch_req_queue s' = ic_fetch_req_queue s \<and> ic_ev_respond s' = ic_ev_respond s \<and>
     ic_ev_replay_ready s' = ic_ev_replay_ready s \<and> ic_replay_buffer s' = ic_replay_buffer s \<and>
     ic_miss_queue s' = ic_miss_queue s \<and> ic_pending_miss_buffer s' = ic_pending_miss_buffer s \<and> ic_l2cache_resp_queue s' = ic_l2cache_resp_queue s"

lemma ic_core_same:
  assumes "ic_core ca lat b n L w s" "ic_same s s'"
  shows "ic_core ca lat b n L w s'"
proof -
  have "ic_waiting s' = ic_waiting s" "ic_holds s' = ic_holds s" using assms(2) by (simp_all add: ic_same_def ic_waiting_def ic_holds_def)
  then show ?thesis using assms own_inv_cong[of n w s s' w] time_inv_cong[of lat b s s'] line_inv_cong[of ca L w s s' w]
    by (simp add: ic_core_def ic_same_def)
qed

lemma ic_same_sched: "ic_same s (schedule_arbitrate k s)" "ic_same s (schedule_l2cache_request k s)"
  "ic_same s (s\<lparr>ic_ev_arbitrate := x\<rparr>)" "ic_same s (s\<lparr>ic_ev_l2cache_request := x\<rparr>)" "ic_same s (s\<lparr>ic_l2cache_credits := k\<rparr>)"
  "ic_same s (snd (lookupCache ca pr w m s))"
  by (auto simp: ic_same_def schedule_arbitrate_def schedule_l2cache_request_def ic_credits_def lookupCache_def Let_def split: prod.splits)

lemma core_env:
  assumes "ic_core ca lat b n L w s" "env_icache w s w'"
  shows "ic_core ca lat b n L w' s"
  using assms own_inv_cong[of n w s s w'] line_inv_cong[of ca L w s s w'] by (simp add: ic_core_def env_icache_def block_of_def)

lemma mset_filter_split: "mset (filter (\<lambda>x. \<not> P x) xs) + mset (filter P xs) = mset xs"
  by (induction xs) auto

lemma core_fill:
  assumes core: "ic_core ca lat b n L w s"
  shows "ic_core ca lat b n L w (arbitrate_fill ca w s)"
proof (cases "ic_l2cache_resp_queue s")
  case Nil
  with core show ?thesis by (simp add: arbitrate_fill_def)
next
  case (Cons m rest)
  let ?P = "\<lambda>k. block_of ca w k = block_of ca w m" and ?s = "arbitrate_fill ca w s"
  have eq: "ic_credits ?s = ic_credits s" "ic_fetch_req_queue ?s = ic_fetch_req_queue s" "ic_ev_respond ?s = ic_ev_respond s"
    "ic_ev_replay_ready ?s = ic_ev_replay_ready s" "ic_replay_buffer ?s = ic_replay_buffer s @ filter ?P (ic_pending_miss_buffer s)"
    "ic_miss_queue ?s = ic_miss_queue s" "ic_pending_miss_buffer ?s = filter (\<lambda>k. \<not> ?P k) (ic_pending_miss_buffer s)"
    "ic_l2cache_resp_queue ?s = rest"
    by (simp_all add: Cons arbitrate_fill_def ic_reloadCache_def Let_def schedule_arbitrate_def ic_credits_def block_of_def)
  have "mset (ic_waiting ?s) = mset (ic_waiting s)"
    using mset_filter_split[of ?P "ic_pending_miss_buffer s"] by (simp add: ic_waiting_def eq flip: mset_filter)
  moreover have "ic_holds ?s \<subseteq> ic_holds s" by (auto simp: ic_holds_def ic_waiting_def eq Cons)
  ultimately have "own_inv n w ?s" using core own_inv_cong[of n w s ?s w] by (simp add: ic_core_def eq)
  moreover have "line_inv ca L w ?s"
  proof -
    have d: "distinct (map (block_of ca w) (ic_miss_queue s) @ L @ block_of ca w m # map (block_of ca w) rest)"
      and p: "block_of ca w ` set (ic_pending_miss_buffer s) = set (map (block_of ca w) (ic_miss_queue s) @ L @ block_of ca w m # map (block_of ca w) rest)"
      and q: "set (ic_miss_queue s) \<subseteq> set (ic_pending_miss_buffer s)"
      using core by (simp_all add: ic_core_def line_inv_def Cons)
    have "block_of ca w ` set (ic_pending_miss_buffer ?s) = block_of ca w ` set (ic_pending_miss_buffer s) - {block_of ca w m}"
      by (auto simp: eq)
    then have "block_of ca w ` set (ic_pending_miss_buffer ?s) = set (map (block_of ca w) (ic_miss_queue s) @ L @ map (block_of ca w) rest)"
      unfolding p using d by auto
    moreover have "set (ic_miss_queue s) \<subseteq> set (ic_pending_miss_buffer ?s)"
    proof
      fix x assume x: "x \<in> set (ic_miss_queue s)"
      have "block_of ca w m \<notin> block_of ca w ` set (ic_miss_queue s)" using d by auto
      with imageI[OF x, of "block_of ca w"] have "block_of ca w x \<noteq> block_of ca w m" by auto
      with x q show "x \<in> set (ic_pending_miss_buffer ?s)" by (auto simp: eq)
    qed
    ultimately show ?thesis using d by (auto simp: line_inv_def eq)
  qed
  ultimately show ?thesis using core time_inv_cong[of lat b s ?s] by (simp add: ic_core_def eq)
qed

lemma core_replay_pop:
  assumes core: "ic_core ca lat False n L w s" and q: "ic_replay_buffer s = m # rest"
  shows "ic_core ca lat True n L w (s\<lparr>ic_ev_replay_ready := ic_ev_replay_ready s @ [(m, lat)], ic_replay_buffer := rest\<rparr>)"
proof -
  let ?s = "s\<lparr>ic_ev_replay_ready := ic_ev_replay_ready s @ [(m, lat)], ic_replay_buffer := rest\<rparr>"
  have c: "ic_credits ?s = ic_credits s" by (simp add: ic_credits_def)
  have "mset (ic_waiting ?s) = mset (ic_waiting s)" "ic_holds ?s \<subseteq> ic_holds s" by (auto simp: ic_waiting_def ic_holds_def q)
  then have "own_inv n w ?s" using core own_inv_cong[of n w s ?s w] c by (simp add: ic_core_def)
  moreover have "line_inv ca L w ?s" using core line_inv_cong[of ca L w s ?s w] by (simp add: ic_core_def)
  moreover have "time_inv lat True ?s" using core by (fastforce simp: ic_core_def time_inv_def)
  ultimately show ?thesis by (simp add: ic_core_def)
qed

lemma copy_keeps:
  assumes "own_inv n w s" "copy_access k w = (j, w')"
  shows "m \<in> ic_holds s \<Longrightarrow> w_mai w' m = w_mai w m" "w_next w \<le> w_next w'"
  using assms by (auto simp: own_inv_def copy_access_def)

lemma makeL2CacheRequest_cases:
  obtains "makeL2CacheRequest (w, s) = (w, s)"
  | m rest w' s' s1 where "makeL2CacheRequest (w, s) = (w', s')" "ic_miss_queue s = m # rest" "copy_access m w = (w_next w, w')"
      "s1 = (ic_emit (OutIcL2Req (w_next w)) s)\<lparr>ic_l2cache_credits := ic_l2cache_credits s - 1, ic_miss_queue := rest\<rparr>"
      "s' = s1 \<or> s' = schedule_l2cache_request 1 s1"
proof (cases "ic_l2cache_credits s = 0 \<or> ic_miss_queue s = []")
  case True
  then show ?thesis using that(1) by (auto simp: makeL2CacheRequest_def split: list.splits)
next
  case False
  then obtain m rest where "ic_miss_queue s = m # rest" by (cases "ic_miss_queue s") auto
  then show ?thesis using that(2) False by (auto simp: makeL2CacheRequest_def copy_access_def Let_def)
qed

lemma core_l2_request:
  assumes core: "ic_core ca lat b n L w s" and m: "makeL2CacheRequest (w, s) = (w', s')"
  shows "ic_core ca lat b n (L @ map (block_of ca w') (new_l2_reqs s s')) w' s'"
proof (cases rule: makeL2CacheRequest_cases[of w s])
  case 1
  with m core show ?thesis by (simp add: new_l2_reqs_def)
next
  case (2 k rest w1 s2 s1)
  with m have w1: "w1 = w'" "s2 = s'" by simp_all
  have own: "own_inv n w s" using core by (simp add: ic_core_def)
  note keep = copy_keeps[OF own 2(3)]
  have o: "ic_out s' = ic_out s @ [OutIcL2Req (w_next w)]" using 2(4,5) w1 by (auto simp: schedule_l2cache_request_def ic_emit_def)
  then have nr: "new_l2_reqs s s' = [w_next w]" by (simp add: new_l2_reqs_def)
  have bk: "block_of ca w1 (w_next w) = block_of ca w k" using 2(3) by (auto simp: copy_access_def block_of_def)
  have "ic_core ca lat b n (L @ [block_of ca w k]) w1 s1"
  proof -
    have "ic_waiting s1 = ic_waiting s" "ic_holds s1 \<subseteq> ic_holds s" using 2(2) by (auto simp: 2(4) ic_waiting_def ic_holds_def ic_emit_def)
    moreover have "ic_credits s1 = ic_credits s" by (simp add: 2(4) ic_credits_def ic_emit_def)
    ultimately have "own_inv n w1 s1" using own_inv_cong[OF own, of s1 w1] keep by (simp add: 2(4) ic_emit_def)
    moreover have "time_inv lat b s1" using core time_inv_cong[of lat b s s1] by (simp add: ic_core_def 2(4) ic_emit_def)
    moreover have "line_inv ca (L @ [block_of ca w k]) w1 s1"
    proof -
      have "line_inv ca L w1 s" using core line_inv_cong[of ca L w s s w1] keep by (simp add: ic_core_def block_of_def)
      moreover have "block_of ca w1 k = block_of ca w k" using keep(1)[of k] 2(2) by (simp add: ic_holds_def block_of_def)
      ultimately show ?thesis by (auto simp: line_inv_def 2(2,4) ic_emit_def)
    qed
    ultimately show ?thesis by (simp add: ic_core_def)
  qed
  then show ?thesis using 2(5) w1 ic_core_same[OF _ ic_same_sched(2)] by (auto simp: nr bk[unfolded w1])
qed

text \<open>The access at the front of the fetch queue is nowhere else.\<close>

lemma front_fresh:
  assumes "own_inv n w s" "ic_fetch_req_queue s = m # rest"
  shows "m \<notin> set rest" "m \<notin> set (ic_waiting s)" "m \<notin> fst ` set (ic_ev_respond s)" "m < w_next w"
proof -
  have d: "distinct (m # rest @ ic_hits w s @ ic_waiting s)" using assms by (simp add: own_inv_def ic_open_def)
  then show a: "m \<notin> set rest" "m \<notin> set (ic_waiting s)" by simp_all
  show "m < w_next w" using assms by (simp add: own_inv_def ic_holds_def)
  show "m \<notin> fst ` set (ic_ev_respond s)"
  proof
    assume r: "m \<in> fst ` set (ic_ev_respond s)"
    with assms(1) a(2) have "mi_cache_access_state (w_mai w m) = CS_HIT" unfolding own_inv_def by blast
    with r have "m \<in> set (ic_hits w s)" by (auto simp: ic_hits_def)
    with d show False by simp
  qed
qed

lemma state_other [simp]: "k \<noteq> m \<Longrightarrow> w_mai (ic_set_state m st w) k = w_mai w k"
  "mi_cache_access_state (w_mai (ic_set_state m st w) m) = st" "mi_paddr (w_mai (ic_set_state m st w) k) = mi_paddr (w_mai w k)"
  "w_next (ic_set_state m st w) = w_next w" "block_of ca (ic_set_state m st w) = block_of ca w"
  by (simp_all add: ic_set_state_def upd_mai_def block_of_def fun_eq_iff)

lemma hits_other: "m \<notin> fst ` set (ic_ev_respond s) \<Longrightarrow> ic_hits (ic_set_state m st w) s = ic_hits w s"
  unfolding ic_hits_def by (rule filter_cong) (auto simp: image_iff)

text \<open>The end of the access: it leaves the fetch queue and its response is scheduled.\<close>

definition leave_fetch :: "mptr \<Rightarrow> nat \<Rightarrow> 'c ICache \<Rightarrow> 'c ICache" where
  "leave_fetch m lat s = s\<lparr>ic_ev_respond := ic_ev_respond s @ [(m, lat)], ic_fetch_req_queue := tl (ic_fetch_req_queue s)\<rparr>"

lemma time_inv_leave:
  assumes t: "time_inv lat False s" and m: "m \<notin> set (ic_waiting s)"
    and e: "ic_ev_respond s' = ic_ev_respond s @ [(m, lat)]" "ic_ev_replay_ready s' = ic_ev_replay_ready s"
  shows "time_inv lat True s'"
proof -
  have "m \<noteq> k" if "(k, d) \<in> set (ic_ev_replay_ready s)" for k d using m image_eqI[OF _ that, of k fst] by (auto simp: ic_waiting_def)
  then show ?thesis using t unfolding time_inv_def e by (auto intro: less_imp_le)
qed

lemma own_inv_leave:
  assumes own: "own_inv n w s" and m: "m \<notin> fst ` set (ic_ev_respond s)" and cr: "ic_credits s' = ic_credits s"
    and resp: "ic_ev_respond s' = ic_ev_respond s @ [(m, lat)]" and o: "mset (ic_open w' s') = mset (ic_open w s)"
    and hd: "ic_holds s' \<subseteq> ic_holds s" and nx: "w_next w' = w_next w"
    and st: "\<And>k. k \<noteq> m \<Longrightarrow> w_mai w' k = w_mai w k" and ms: "mi_cache_access_state (w_mai w' m) = (if hit then CS_HIT else CS_MISS)"
    and wt: "m \<notin> set (ic_waiting s)" "set (ic_waiting s') = set (ic_waiting s) \<union> (if hit then {} else {m})"
  shows "own_inv n w' s'"
proof -
  have "length (ic_open w' s') = length (ic_open w s)" "distinct (ic_open w' s') = distinct (ic_open w s)"
    using o by (metis size_mset, metis mset_eq_imp_distinct_iff)
  moreover have "distinct (map fst (ic_ev_respond s'))" using own m by (simp add: own_inv_def resp)
  moreover have "mi_cache_access_state (w_mai w' k) = CS_MISS" if "k \<in> set (ic_waiting s')" for k
    using that own wt ms st[of k] by (cases "k = m") (auto simp: own_inv_def split: if_splits)
  moreover have "k \<in> set (ic_waiting s')" if "k \<in> fst ` set (ic_ev_respond s')" "mi_cache_access_state (w_mai w' k) \<noteq> CS_HIT" for k
    using that own wt ms st[of k] by (cases "k = m") (auto simp: own_inv_def resp split: if_splits)
  moreover have "k < w_next w'" if "k \<in> ic_holds s'" for k using own hd nx that unfolding own_inv_def by (metis subsetD)
  ultimately show ?thesis using own unfolding own_inv_def cr by simp
qed

lemma core_fetch_hit:
  assumes core: "ic_core ca lat False n L w s" and q: "ic_fetch_req_queue s = m # rest"
  shows "ic_core ca lat True n L (ic_set_state m CS_HIT w) (leave_fetch m lat s)"
proof -
  have own: "own_inv n w s" using core by (simp add: ic_core_def)
  note f = front_fresh[OF own q]
  let ?w = "ic_set_state m CS_HIT w" and ?s = "leave_fetch m lat s"
  have e: "ic_waiting ?s = ic_waiting s" "ic_credits ?s = ic_credits s" "ic_holds ?s \<subseteq> ic_holds s"
    by (auto simp: leave_fetch_def ic_waiting_def ic_credits_def ic_holds_def q)
  have hits: "ic_hits ?w ?s = ic_hits w s @ [m]" using hits_other[OF f(3), of CS_HIT w] by (simp add: ic_hits_def leave_fetch_def)
  have fq: "ic_fetch_req_queue ?s = rest" by (simp add: leave_fetch_def q)
  have o: "mset (ic_open ?w ?s) = mset (ic_open w s)" by (simp add: ic_open_def hits e q fq)
  have "own_inv n ?w ?s"
    by (rule own_inv_leave[OF own f(3) e(2) _ o e(3), where lat = lat and hit = True])
      (use f(2) e(1) in \<open>simp_all add: leave_fetch_def\<close>)
  moreover have "line_inv ca L ?w ?s" using core line_inv_cong[of ca L w s ?s ?w] by (simp add: ic_core_def leave_fetch_def)
  moreover have "time_inv lat True ?s" 
    using core time_inv_leave[of lat s m ?s] f(2) by (simp add: ic_core_def leave_fetch_def)
  ultimately show ?thesis by (simp add: ic_core_def)
qed

lemma core_fetch_miss:
  assumes core: "ic_core ca lat False n L w s" and q: "ic_fetch_req_queue s = m # rest"
    and present: "P = (block_of ca w m \<in> block_of ca w ` set (ic_pending_miss_buffer s))"
  shows "ic_core ca lat True n L (ic_set_state m CS_MISS w)
    (leave_fetch m lat (s\<lparr>ic_miss_queue := (if P then ic_miss_queue s else ic_miss_queue s @ [m]),
                         ic_pending_miss_buffer := ic_pending_miss_buffer s @ [m]\<rparr>))" (is "ic_core _ _ _ _ _ ?w ?s")
proof -
  have own: "own_inv n w s" using core by (simp add: ic_core_def)
  note f = front_fresh[OF own q]
  have e: "ic_waiting ?s = ic_pending_miss_buffer s @ m # ic_replay_buffer s @ map fst (ic_ev_replay_ready s)" "ic_credits ?s = ic_credits s"
    "ic_holds ?s \<subseteq> ic_holds s"
    by (auto simp: leave_fetch_def ic_waiting_def ic_credits_def ic_holds_def q)
  have hits: "ic_hits ?w ?s = ic_hits w s" using hits_other[OF f(3), of CS_MISS w] by (simp add: ic_hits_def leave_fetch_def)
  have fq: "ic_fetch_req_queue ?s = rest" by (simp add: leave_fetch_def q)
  have o: "mset (ic_open ?w ?s) = mset (ic_open w s)" by (simp add: ic_open_def hits e q fq ic_waiting_def[of s])
  have "set (ic_waiting ?s) = set (ic_waiting s) \<union> (if False then {} else {m})" unfolding e(1) ic_waiting_def[of s] by auto
  then have "own_inv n ?w ?s"
    by (intro own_inv_leave[OF own f(3) e(2) _ o e(3), where lat = lat and hit = False])
      (use f(2) in \<open>simp_all add: leave_fetch_def\<close>)
  moreover have "line_inv ca L ?w ?s" using core present by (auto simp: ic_core_def line_inv_def leave_fetch_def)
  moreover have "time_inv lat True ?s" 
    using core time_inv_leave[of lat s m ?s] f(2) by (simp add: ic_core_def leave_fetch_def)
  ultimately show ?thesis by (simp add: ic_core_def)
qed

lemma make_commute:
  assumes "makeL2CacheRequest (w, s) = (w', s')"
  shows "makeL2CacheRequest (w, leave_fetch m lat (s\<lparr>ic_pending_miss_buffer := p\<rparr>)) = (w', leave_fetch m lat (s'\<lparr>ic_pending_miss_buffer := p\<rparr>))"
  using assms by (auto simp: makeL2CacheRequest_def leave_fetch_def copy_access_def Let_def ic_emit_def schedule_l2cache_request_def
      split: list.splits if_splits)

lemma make_pending: "makeL2CacheRequest (w, s) = (w', s') \<Longrightarrow> ic_pending_miss_buffer s' = ic_pending_miss_buffer s"
  by (auto simp: makeL2CacheRequest_def copy_access_def Let_def ic_emit_def schedule_l2cache_request_def split: list.splits if_splits)

lemma lookupCache_hit: "fst (lookupCache ca pr w m s) \<longleftrightarrow> ip_l1_always_hit pr \<or> ca_hit ca (ic_l1_cache s) (mi_paddr (w_mai w m))"
  by (simp add: lookupCache_def cache_lookup_def Let_def)

text \<open>An access of the fetch queue within the credits: it never overflows the buffer of the pending misses.\<close>

lemma arbitrate_fetch_core:
  assumes core: "ic_core ca lat False n L w s" and q: "ic_fetch_req_queue s = m # rest" and n: "n \<le> ic_credits s"
    and lat: "lat = ip_cache_latency pr"
  shows "\<exists>w' s'. arbitrate_fetch ca pr m (w, s) = Inr (w', s') \<and>
    ic_core ca lat True n (L @ map (block_of ca w') (new_l2_reqs s s')) w' s'"
proof -
  obtain hit s1 where l: "lookupCache ca pr w m s = (hit, s1)" by fastforce
  have same: "ic_same s s1" using ic_same_sched(6)[of s ca pr w m] l by simp
  have c1: "ic_core ca lat False n L w s1" and q1: "ic_fetch_req_queue s1 = m # rest"
    using ic_core_same[OF core same] same q by (simp_all add: ic_same_def)
  have out: "ic_out s1 = ic_out s" using l by (auto simp: lookupCache_def Let_def split: prod.splits)
  show ?thesis
  proof (cases hit)
    case True
    have "arbitrate_fetch ca pr m (w, s) = Inr (ic_set_state m CS_HIT w, leave_fetch m lat s1)"
      by (simp add: arbitrate_fetch_def l True leave_fetch_def lat)
    moreover have "new_l2_reqs s (leave_fetch m lat s1) = []" by (simp add: new_l2_reqs_def leave_fetch_def out)
    ultimately show ?thesis using core_fetch_hit[OF c1 q1] by simp
  next
    case False
    let ?w = "ic_set_state m CS_MISS w" and ?P = "block_of ca w m \<in> block_of ca w ` set (ic_pending_miss_buffer s1)"
    let ?mq = "if ?P then ic_miss_queue s1 else ic_miss_queue s1 @ [m]"
    let ?s = "leave_fetch m lat (s1\<lparr>ic_miss_queue := ?mq, ic_pending_miss_buffer := ic_pending_miss_buffer s1 @ [m]\<rparr>)"
    note c = core_fetch_miss[OF c1 q1 refl]
    have room: "length (ic_pending_miss_buffer s1) < fetch_queue_size"
      using c1 n same q1 by (simp add: ic_core_def own_inv_def ic_open_def ic_waiting_def ic_same_def)
    have ex: "list_ex (\<lambda>k. block_of ca w k = block_of ca w m) (ic_pending_miss_buffer s1) \<longleftrightarrow> ?P" unfolding list_ex_iff image_iff by (metis (no_types))
    show ?thesis
    proof (cases ?P)
      case True
      have "arbitrate_fetch ca pr m (w, s) = Inr (?w, ?s)"
        using room True by (simp add: arbitrate_fetch_def l False addToMissQueue_def ex leave_fetch_def lat)
      moreover have "new_l2_reqs s ?s = []" by (simp add: new_l2_reqs_def leave_fetch_def out)
      ultimately show ?thesis using c by simp
    next
      case P: False
      obtain w2 s2 where mk: "makeL2CacheRequest (?w, s1\<lparr>ic_miss_queue := ic_miss_queue s1 @ [m]\<rparr>) = (w2, s2)" by fastforce
      have p2: "ic_pending_miss_buffer s2 = ic_pending_miss_buffer s1" using make_pending[OF mk] by simp
      have "arbitrate_fetch ca pr m (w, s) = Inr (w2, leave_fetch m lat (s2\<lparr>ic_pending_miss_buffer := ic_pending_miss_buffer s1 @ [m]\<rparr>))"
        using room by (simp add: arbitrate_fetch_def l False addToMissQueue_def ex P mk p2 leave_fetch_def lat)
      moreover have "makeL2CacheRequest (?w, ?s) = (w2, leave_fetch m lat (s2\<lparr>ic_pending_miss_buffer := ic_pending_miss_buffer s1 @ [m]\<rparr>))"
        using make_commute[OF mk, of m lat "ic_pending_miss_buffer s1 @ [m]"] P by simp
      moreover have "new_l2_reqs ?s x = new_l2_reqs s x" for x by (simp add: new_l2_reqs_def leave_fetch_def out)
      ultimately show ?thesis using core_l2_request[OF c] by fastforce
    qed
  qed
qed

lemma core_start: "ic_core ca lat False 0 [] w (ic_sendInitialCredits (mk_ICache c))"
  by (simp add: ic_core_def own_inv_def time_inv_def line_inv_def ic_sendInitialCredits_def mk_ICache_def ic_emit_def ic_open_def ic_hits_def
      ic_waiting_def ic_holds_def ic_credits_def)

lemma core_request:
  assumes core: "ic_core ca lat False n L w s" and m: "m \<notin> ic_holds s" "m < w_next w"
  shows "ic_core ca lat False (n + 1) L w (getRequestFromFetch m s)"
proof -
  let ?s = "s\<lparr>ic_fetch_req_queue := ic_fetch_req_queue s @ [m]\<rparr>"
  have e: "ic_hits w ?s = ic_hits w s" "ic_waiting ?s = ic_waiting s" "ic_credits ?s = ic_credits s" "ic_holds ?s = insert m (ic_holds s)"
    by (auto simp: ic_hits_def ic_waiting_def ic_credits_def ic_holds_def)
  have "set (ic_open w s) \<subseteq> ic_holds s" by (auto simp: ic_open_def ic_hits_def ic_holds_def)
  with m have "m \<notin> set (ic_open w s)" by blast
  then have "own_inv (n + 1) w ?s" using core m(2) by (auto simp: ic_core_def own_inv_def e ic_open_def)
  moreover have "line_inv ca L w ?s" using core line_inv_cong[of ca L w s ?s w] by (simp add: ic_core_def)
  moreover have "time_inv lat False ?s" using core time_inv_cong[of lat False s ?s] by (simp add: ic_core_def)
  ultimately have "ic_core ca lat False (n + 1) L w ?s" by (simp add: ic_core_def)
  from ic_core_same[OF this ic_same_sched(1)] show ?thesis by (simp add: getRequestFromFetch_def)
qed

lemma core_response:
  assumes core: "ic_core ca lat False n L w s" and m: "block_of ca w m \<in> set L" "mi_cache_access_state (w_mai w m) = CS_HIT" "m < w_next w"
  shows "ic_core ca lat False n (remove1 (block_of ca w m) L) w (ic_getRespFromL2Cache w m s)"
proof -
  let ?s = "s\<lparr>ic_l2cache_resp_queue := ic_l2cache_resp_queue s @ [m]\<rparr>"
  have e: "ic_hits w ?s = ic_hits w s" "ic_waiting ?s = ic_waiting s" "ic_credits ?s = ic_credits s" "ic_holds ?s = insert m (ic_holds s)"
    by (auto simp: ic_hits_def ic_waiting_def ic_credits_def ic_holds_def)
  have "own_inv n w ?s" using core m(3) by (auto simp: ic_core_def own_inv_def e ic_open_def)
  moreover have "line_inv ca (remove1 (block_of ca w m) L) w ?s"
    using core m(1) by (auto simp: ic_core_def line_inv_def)
  moreover have "time_inv lat False ?s" using core time_inv_cong[of lat False s ?s] by (simp add: ic_core_def)
  ultimately have "ic_core ca lat False n (remove1 (block_of ca w m) L) w ?s" by (simp add: ic_core_def)
  from ic_core_same[OF this ic_same_sched(1)] m(2) show ?thesis by (simp add: ic_getRespFromL2Cache_def)
qed

lemma core_credits: "ic_core ca lat b n L w s \<Longrightarrow> ic_core ca lat b n L w (ic_getCreditsFromL2Cache k s)"
  by (simp add: ic_getCreditsFromL2Cache_def Let_def ic_core_same[OF _ ic_same_sched(5)] ic_core_same[OF ic_core_same[OF _ ic_same_sched(5)] ic_same_sched(2)])

lemma core_b: "ic_core ca lat False n L w s \<Longrightarrow> ic_core ca lat True n L w s"
  by (fastforce simp: ic_core_def time_inv_def)

lemma fill_out: "ic_out (arbitrate_fill ca w s) = ic_out s"
  by (simp add: arbitrate_fill_def ic_reloadCache_def schedule_arbitrate_def Let_def split: list.splits)

lemma core_arbitrate:
  assumes core: "ic_core ca lat False n L w s" and n: "n \<le> ic_credits s" and lat: "lat = ip_cache_latency pr"
  shows "\<exists>w' s'. doArbitration ca pr (w, s) = Inr (w', s') \<and> ic_core ca lat True n (L @ map (block_of ca w') (new_l2_reqs s s')) w' s'"
proof -
  let ?s = "arbitrate_fill ca w s"
  let ?fin = "\<lambda>s2. if ic_l2cache_resp_queue s2 \<noteq> [] \<or> ic_replay_buffer s2 \<noteq> [] \<or> ic_fetch_req_queue s2 \<noteq> [] then schedule_arbitrate 1 s2 else s2"
  have nr: "new_l2_reqs s = new_l2_reqs ?s" by (simp add: new_l2_reqs_def fun_eq_iff fill_out)
  note f = core_fill[OF core]
  have fin: "ic_core ca lat True n L' w' (?fin s2)" if "ic_core ca lat True n L' w' s2" for L' w' s2
    using that ic_core_same[OF that ic_same_sched(1)] by simp
  have ne: "new_l2_reqs ?s (?fin s2) = new_l2_reqs ?s s2" for s2 by (simp add: new_l2_reqs_def schedule_arbitrate_def)
  have "\<exists>w' s2. doArbitration ca pr (w, s) = Inr (w', ?fin s2) \<and> ic_core ca lat True n (L @ map (block_of ca w') (new_l2_reqs ?s s2)) w' s2"
  proof (cases "ic_replay_buffer ?s")
    case (Cons m rest)
    let ?t = "?s\<lparr>ic_ev_replay_ready := ic_ev_replay_ready ?s @ [(m, lat)], ic_replay_buffer := rest\<rparr>"
    have "new_l2_reqs ?s ?t = []" by (simp add: new_l2_reqs_def)
    with core_replay_pop[OF f Cons] show ?thesis by (intro exI[of _ w] exI[of _ ?t]) (simp add: doArbitration_def Let_def Cons lat)
  next
    case Nil
    show ?thesis
    proof (cases "ic_fetch_req_queue ?s")
      case (Cons m rest)
      have "ic_credits ?s = ic_credits s" by (simp add: ic_credits_def fill_out)
      with arbitrate_fetch_core[OF f Cons _ lat] n obtain w' s' where "arbitrate_fetch ca pr m (w, ?s) = Inr (w', s')"
        "ic_core ca lat True n (L @ map (block_of ca w') (new_l2_reqs ?s s')) w' s'" by auto
      then show ?thesis by (intro exI[of _ w'] exI[of _ s']) (simp add: doArbitration_def Let_def Nil Cons)
    next
      case Nil2: Nil
      have "new_l2_reqs ?s ?s = []" by (simp add: new_l2_reqs_def)
      with core_b[OF f] show ?thesis by (intro exI[of _ w] exI[of _ ?s]) (simp add: doArbitration_def Let_def Nil Nil2)
    qed
  qed
  then show ?thesis unfolding nr using fin ne by metis
qed

lemma core_respond:
  assumes core: "ic_core ca lat b n L w s" and m: "(m, 0) \<in> set (ic_ev_respond s)"
  shows "ic_core ca lat b n L w (sendResponse w m (s\<lparr>ic_ev_respond := remove1 (m, 0) (ic_ev_respond s)\<rparr>))"
proof -
  let ?r = "remove1 (m, 0) (ic_ev_respond s)" and ?s = "sendResponse w m (s\<lparr>ic_ev_respond := remove1 (m, 0) (ic_ev_respond s)\<rparr>)"
  let ?h = "mi_cache_access_state (w_mai w m) = CS_HIT"
  have e: "ic_waiting ?s = ic_waiting s" "ic_ev_respond ?s = ?r" "ic_fetch_req_queue ?s = ic_fetch_req_queue s" "ic_ev_replay_ready ?s = ic_ev_replay_ready s"
    "ic_miss_queue ?s = ic_miss_queue s" "ic_pending_miss_buffer ?s = ic_pending_miss_buffer s" "ic_l2cache_resp_queue ?s = ic_l2cache_resp_queue s"
    by (simp_all add: sendResponse_def Let_def ic_emit_def ic_waiting_def)
  have cr: "ic_credits ?s = ic_credits s + (if ?h then 1 else 0)" by (simp add: sendResponse_def Let_def ic_credits_def ic_emit_def)
  have sub: "set ?r \<subseteq> set (ic_ev_respond s)" by (rule set_remove1_subset)
  have p: "mset (ic_ev_respond s) = add_mset (m, 0) (mset ?r)" using m by simp
  have "mset (ic_hits w s) = (if ?h then add_mset m else id) (mset (ic_hits w ?s))" by (simp add: ic_hits_def e p del: mset_remove1)
  then have o: "mset (ic_open w s) = mset ((if ?h then [m] else []) @ ic_open w ?s)" by (auto simp: ic_open_def e)
  have l: "length (ic_open w s) = length (ic_open w ?s) + (if ?h then 1 else 0)" using arg_cong[OF o, of size] by simp
  have d: "distinct (ic_open w ?s)" using mset_eq_imp_distinct_iff[OF o] core by (simp add: ic_core_def own_inv_def)
  have dr: "distinct (map fst ?r)"
  proof -
    have "mset (map fst (ic_ev_respond s)) = mset (m # map fst ?r)" using p by (simp del: mset_remove1)
    from mset_eq_imp_distinct_iff[OF this] show ?thesis using core by (simp add: ic_core_def own_inv_def)
  qed
  have "ic_holds ?s \<subseteq> ic_holds s" using sub by (auto simp: ic_holds_def e)
  then have "own_inv n w ?s" using core l d dr sub unfolding ic_core_def own_inv_def cr e by (auto split: if_splits)
  moreover have "time_inv lat b ?s" using core sub unfolding ic_core_def time_inv_def e by blast
  moreover have "line_inv ca L w ?s" using core line_inv_cong[of ca L w s ?s w] by (simp add: ic_core_def e)
  ultimately show ?thesis by (simp add: ic_core_def)
qed

lemma core_replay:
  assumes core: "ic_core ca lat b n L w s" and m: "(m, 0) \<in> set (ic_ev_replay_ready s)"
    and r: "sendReplay m (w, s\<lparr>ic_ev_replay_ready := remove1 (m, 0) (ic_ev_replay_ready s)\<rparr>) = (w', s')"
  shows "ic_core ca lat b n L w' s'"
proof -
  let ?r = "remove1 (m, 0) (ic_ev_replay_ready s)"
  have e: "ic_ev_replay_ready s' = ?r" "ic_ev_respond s' = ic_ev_respond s" "ic_fetch_req_queue s' = ic_fetch_req_queue s"
    "ic_replay_buffer s' = ic_replay_buffer s" "ic_miss_queue s' = ic_miss_queue s" "ic_pending_miss_buffer s' = ic_pending_miss_buffer s"
    "ic_l2cache_resp_queue s' = ic_l2cache_resp_queue s" "ic_credits s' = ic_credits s + 1" and w': "w' = ic_set_state m CS_HIT w"
    using r by (auto simp: sendReplay_def ic_emit_def ic_credits_def)
  have sub: "set ?r \<subseteq> set (ic_ev_replay_ready s)" by (rule set_remove1_subset)
  have own: "own_inv n w s" and time: "time_inv lat b s" using core by (simp_all add: ic_core_def)
  have nr: "m \<notin> fst ` set (ic_ev_respond s)" using time m by (fastforce simp: time_inv_def)
  have hits: "ic_hits w' s' = ic_hits w s" using hits_other[OF nr, of CS_HIT w] by (simp add: ic_hits_def e w')
  have p: "mset (ic_ev_replay_ready s) = add_mset (m, 0) (mset ?r)" using m by simp
  have wt: "mset (ic_waiting s) = mset (m # ic_waiting s')" by (simp add: ic_waiting_def e p del: mset_remove1)
  have o: "mset (ic_open w s) = mset (m # ic_open w' s')" using wt by (simp add: ic_open_def hits e)
  have l: "length (ic_open w s) = length (ic_open w' s') + 1" using arg_cong[OF o, of size] by simp
  have d: "distinct (m # ic_open w' s')" using mset_eq_imp_distinct_iff[OF o] own by (simp add: own_inv_def)
  then have mw: "m \<notin> set (ic_waiting s')" by (simp add: ic_open_def)
  have ws: "set (ic_waiting s) = insert m (set (ic_waiting s'))" using wt by (metis set_mset_mset list.simps(15))
  have st: "w_mai w' k = w_mai w k" if "k \<noteq> m" for k using that by (simp add: w')
  have "mi_cache_access_state (w_mai w' k) = CS_MISS" if "k \<in> set (ic_waiting s')" for k
    using that mw own st[of k] ws by (cases "k = m") (auto simp: own_inv_def)
  moreover have "k \<in> set (ic_waiting s')" if "k \<in> fst ` set (ic_ev_respond s)" "mi_cache_access_state (w_mai w' k) \<noteq> CS_HIT" for k
    using that nr own st[of k] ws by (cases "k = m") (auto simp: own_inv_def)
  moreover have "ic_holds s' \<subseteq> ic_holds s" using sub by (auto simp: ic_holds_def ic_waiting_def e)
  ultimately have "own_inv n w' s'" using own l d by (auto simp: own_inv_def e w')
  moreover have "time_inv lat b s'" using time sub unfolding time_inv_def e by blast
  moreover have "line_inv ca L w' s'" using core line_inv_cong[of ca L w s s' w'] by (simp add: ic_core_def e w')
  ultimately show ?thesis by (simp add: ic_core_def)
qed

lemma core_cycle:
  assumes core: "ic_core ca lat b n L w s" and q: "ic_quiet s"
  shows "ic_core ca lat False n L w (ic_tick s)"
proof -
  have e: "map fst (ic_ev_respond (ic_tick s)) = map fst (ic_ev_respond s)" "ic_waiting (ic_tick s) = ic_waiting s" "ic_credits (ic_tick s) = ic_credits s"
    "ic_holds (ic_tick s) = ic_holds s"
    by (auto simp: ic_tick_def ic_waiting_def ic_credits_def ic_holds_def image_iff case_prod_beta comp_def)
  have f: "fst ` set (ic_ev_respond (ic_tick s)) = fst ` set (ic_ev_respond s)" using e(1) by (metis image_set)
  have "ic_open w (ic_tick s) = ic_open w s" unfolding ic_open_def ic_hits_def e by (simp add: ic_tick_def)
  then have "own_inv n w (ic_tick s)" using core by (simp add: ic_core_def own_inv_def e f)
  moreover have "line_inv ca L w (ic_tick s)" using core line_inv_cong[of ca L w s "ic_tick s" w] by (simp add: ic_core_def ic_tick_def)
  moreover have "time_inv lat False (ic_tick s)"
  proof -
    have "d > 0" if "(m, d) \<in> set (ic_ev_respond s)" for m d using q that by (force simp: ic_quiet_def)
    moreover have "d > 0" if "(m, d) \<in> set (ic_ev_replay_ready s)" for m d using q that by (force simp: ic_quiet_def)
    moreover have "d \<le> lat" if "(m, d) \<in> set (ic_ev_respond s)" for m d using core that by (auto simp: ic_core_def time_inv_def)
    moreover have "d < d'" if "(m, d) \<in> set (ic_ev_respond s)" "(m, d') \<in> set (ic_ev_replay_ready s)" for m d d'
      using core that by (auto simp: ic_core_def time_inv_def)
    ultimately show ?thesis by (force simp: time_inv_def ic_tick_def)
  qed
  ultimately show ?thesis by (simp add: ic_core_def)
qed

lemma sched_nonempty [simp]: "sched k ds \<noteq> []"
  by (auto simp: sched_def)

text \<open>The two wake-up conditions.\<close>

definition arb_wake :: "'c ICache \<Rightarrow> bool" where
  "arb_wake s \<longleftrightarrow> (ic_l2cache_resp_queue s \<noteq> [] \<or> ic_replay_buffer s \<noteq> [] \<or> ic_fetch_req_queue s \<noteq> [] \<longrightarrow> ic_ev_arbitrate s \<noteq> [])"

definition l2_wake :: "'c ICache \<Rightarrow> bool" where
  "l2_wake s \<longleftrightarrow> (ic_miss_queue s \<noteq> [] \<and> ic_l2cache_credits s > 0 \<longrightarrow> ic_ev_l2cache_request s \<noteq> [])"

lemma wake_inv_iff: "wake_inv s \<longleftrightarrow> arb_wake s \<and> l2_wake s"
  by (simp add: wake_inv_def arb_wake_def l2_wake_def)

lemma make_l2_wake:
  assumes "makeL2CacheRequest (w, s) = (w', s')"
  shows "l2_wake s'" and "arb_wake s' = arb_wake s"
  using assms
  by (auto simp: makeL2CacheRequest_def copy_access_def l2_wake_def arb_wake_def Let_def ic_emit_def schedule_l2cache_request_def
      split: list.splits if_splits)

lemma lookup_l2_wake: "l2_wake (snd (lookupCache ca pr w m s)) = l2_wake s"
  by (simp add: lookupCache_def l2_wake_def Let_def split: prod.splits)

lemma arbitrate_fetch_l2_wake:
  assumes "arbitrate_fetch ca pr m (w, s) = Inr (w', s')" "l2_wake s"
  shows "l2_wake s'"
proof -
  obtain hit s1 where l: "lookupCache ca pr w m s = (hit, s1)" by fastforce
  have k: "l2_wake s1" using lookup_l2_wake[of ca pr w m s] l assms(2) by simp
  obtain w2 s2 where mk: "makeL2CacheRequest (ic_set_state m CS_MISS w, s1\<lparr>ic_miss_queue := ic_miss_queue s1 @ [m]\<rparr>) = (w2, s2)" by fastforce
  note k2 = make_l2_wake(1)[OF mk]
  show ?thesis using assms(1) k k2
    by (auto simp: arbitrate_fetch_def l addToMissQueue_def mk bindE_eq_Inr l2_wake_def split: if_splits)
qed

definition arb_end :: "'c ICache \<Rightarrow> 'c ICache" where
  "arb_end s = (if ic_l2cache_resp_queue s \<noteq> [] \<or> ic_replay_buffer s \<noteq> [] \<or> ic_fetch_req_queue s \<noteq> [] then schedule_arbitrate 1 s else s)"

lemma doArbitration_cases:
  assumes "doArbitration ca pr (w, s) = Inr (w', s')"
  obtains r q where "s' = arb_end ((arbitrate_fill ca w s)\<lparr>ic_ev_replay_ready := r, ic_replay_buffer := q\<rparr>)"
  | m s2 where "arbitrate_fetch ca pr m (w, arbitrate_fill ca w s) = Inr (w', s2)" "s' = arb_end s2"
  | "s' = arb_end (arbitrate_fill ca w s)"
proof (cases "ic_replay_buffer (arbitrate_fill ca w s)")
  case (Cons m rest)
  then show ?thesis using assms
    by (intro that(1)[of rest "ic_ev_replay_ready (arbitrate_fill ca w s) @ [(m, ip_cache_latency pr)]"]) (auto simp: doArbitration_def arb_end_def Let_def)
next
  case Nil
  show ?thesis
  proof (cases "ic_fetch_req_queue (arbitrate_fill ca w s)")
    case Nil2: Nil
    show ?thesis by (rule that(3)) (use assms Nil Nil2 in \<open>auto simp: doArbitration_def arb_end_def Let_def\<close>)
  next
    case (Cons m rest)
    then obtain s2 where "arbitrate_fetch ca pr m (w, arbitrate_fill ca w s) = Inr (w', s2)" "s' = arb_end s2"
      using assms Nil by (auto simp: doArbitration_def arb_end_def Let_def bindE_eq_Inr)
    then show ?thesis by (rule that(2))
  qed
qed

lemma arb_end_wake: "l2_wake s \<Longrightarrow> wake_inv (arb_end s)"
  by (simp add: wake_inv_iff arb_wake_def l2_wake_def schedule_arbitrate_def arb_end_def)

lemma doArbitration_wake:
  assumes "doArbitration ca pr (w, s) = Inr (w', s')" "l2_wake s"
  shows "wake_inv s'"
proof -
  have f: "l2_wake (arbitrate_fill ca w s)"
    using assms(2) by (simp add: arbitrate_fill_def ic_reloadCache_def schedule_arbitrate_def l2_wake_def Let_def split: list.splits)
  from assms(1) show ?thesis
  proof (cases rule: doArbitration_cases)
    case (1 r q)
    show ?thesis unfolding 1 by (rule arb_end_wake) (use f in \<open>simp add: l2_wake_def\<close>)
  next
    case (2 m s2)
    from arbitrate_fetch_l2_wake[OF 2(1) f] show ?thesis unfolding 2(2) by (rule arb_end_wake)
  next
    case 3
    from f show ?thesis unfolding 3 by (rule arb_end_wake)
  qed
qed

lemma ic_credits_make: "makeL2CacheRequest (w, s) = (w', s') \<Longrightarrow> ic_credits s' = ic_credits s"
  by (auto simp: makeL2CacheRequest_def copy_access_def Let_def ic_emit_def ic_credits_def schedule_l2cache_request_def split: list.splits if_splits)

lemma arbitrate_fetch_credits:
  assumes "arbitrate_fetch ca pr m (w, s) = Inr (w', s')"
  shows "ic_credits s' = ic_credits s"
proof -
  obtain hit s1 where l: "lookupCache ca pr w m s = (hit, s1)" by fastforce
  have c: "ic_credits s1 = ic_credits s" using ic_same_sched(6)[of s ca pr w m] l by (simp add: ic_same_def)
  obtain w2 s2 where mk: "makeL2CacheRequest (ic_set_state m CS_MISS w, s1\<lparr>ic_miss_queue := ic_miss_queue s1 @ [m]\<rparr>) = (w2, s2)" by fastforce
  have "ic_credits s2 = ic_credits s1" using ic_credits_make[OF mk] by (simp add: ic_credits_def)
  with assms c show ?thesis by (auto simp: arbitrate_fetch_def l addToMissQueue_def mk bindE_eq_Inr ic_credits_def split: if_splits)
qed

lemma arb_end_credits: "ic_credits (arb_end s) = ic_credits s"
  by (simp add: arb_end_def ic_credits_def schedule_arbitrate_def)

lemma doArbitration_credits:
  assumes "doArbitration ca pr (w, s) = Inr (w', s')"
  shows "ic_credits s' = ic_credits s"
proof -
  have "ic_credits (arbitrate_fill ca w s) = ic_credits s" by (simp add: ic_credits_def fill_out)
  then have f: "ic_credits (arbitrate_fill ca w s) = ic_credits s" .
  note e = arb_end_credits
  from assms show ?thesis
  proof (cases rule: doArbitration_cases)
    case (1 r q)
    have "ic_credits ((arbitrate_fill ca w s)\<lparr>ic_ev_replay_ready := r, ic_replay_buffer := q\<rparr>) = ic_credits (arbitrate_fill ca w s)"
      by (simp add: ic_credits_def)
    with 1 f show ?thesis by (simp add: e)
  qed (simp_all add: e f arbitrate_fetch_credits)
qed

text \<open>The credits grow with every answer and never exceed what the open accesses leave.\<close>

lemma icache_reach_inv:
  "icache_reach ca pr b n L w s \<Longrightarrow> ic_core ca (ip_cache_latency pr) b n L w s \<and> wake_inv s \<and> n \<le> ic_credits s"
proof (induction rule: icache_reach.induct)
  case (start w c)
  have "wake_inv (ic_sendInitialCredits (mk_ICache c))" by (simp add: wake_inv_def ic_sendInitialCredits_def mk_ICache_def ic_emit_def)
  with core_start show ?case by simp
next
  case (environment b n L w s w')
  with core_env show ?case by blast
next
  case (request n L w s m)
  have "ic_credits (getRequestFromFetch m s) = ic_credits s" "wake_inv (getRequestFromFetch m s)"
    using request by (simp_all add: getRequestFromFetch_def schedule_arbitrate_def ic_credits_def wake_inv_def)
  with request core_request[of ca _ n L w s m] show ?case by simp
next
  case (response n L w s m)
  have "ic_credits (ic_getRespFromL2Cache w m s) = ic_credits s" "wake_inv (ic_getRespFromL2Cache w m s)"
    using response by (simp_all add: ic_getRespFromL2Cache_def schedule_arbitrate_def ic_credits_def wake_inv_def)
  with response core_response[of ca _ n L w s m] show ?case by simp
next
  case (credits n L w s k)
  have "ic_credits (ic_getCreditsFromL2Cache k s) = ic_credits s" "wake_inv (ic_getCreditsFromL2Cache k s)"
    using credits by (simp_all add: ic_getCreditsFromL2Cache_def Let_def schedule_l2cache_request_def ic_credits_def wake_inv_def)
  with credits core_credits[of ca _ False n L w s k] show ?case by simp
next
  case (arbitrate n L w s w' s')
  let ?s = "s\<lparr>ic_ev_arbitrate := removeAll 0 (ic_ev_arbitrate s)\<rparr>"
  have c: "ic_core ca (ip_cache_latency pr) False n L w ?s" using arbitrate ic_core_same[OF _ ic_same_sched(3)] by blast
  have k: "ic_credits ?s = ic_credits s" "new_l2_reqs ?s = new_l2_reqs s" "l2_wake ?s"
    using arbitrate by (simp_all add: ic_credits_def new_l2_reqs_def fun_eq_iff wake_inv_def l2_wake_def)
  have "ic_core ca (ip_cache_latency pr) True n (L @ map (block_of ca w') (new_l2_reqs s s')) w' s'"
    using core_arbitrate[OF c _ refl] arbitrate k by auto
  moreover have "wake_inv s'" using doArbitration_wake[OF arbitrate(3) k(3)] .
  moreover have "n \<le> ic_credits s'" using doArbitration_credits[OF arbitrate(3)] arbitrate k(1) by simp
  ultimately show ?case by blast
next
  case (l2_request b n L w s w' s')
  let ?s = "s\<lparr>ic_ev_l2cache_request := removeAll 0 (ic_ev_l2cache_request s)\<rparr>"
  have c: "ic_core ca (ip_cache_latency pr) b n L w ?s" using l2_request ic_core_same[OF _ ic_same_sched(4)] by blast
  have k: "ic_credits ?s = ic_credits s" "new_l2_reqs ?s = new_l2_reqs s" "arb_wake ?s = arb_wake s"
    by (simp_all add: ic_credits_def new_l2_reqs_def fun_eq_iff arb_wake_def)
  show ?case using core_l2_request[OF c l2_request(3)] make_l2_wake[OF l2_request(3)] ic_credits_make[OF l2_request(3)] l2_request k
    by (simp add: wake_inv_iff)
next
  case (respond b n L w s m)
  let ?s = "sendResponse w m (s\<lparr>ic_ev_respond := remove1 (m, 0) (ic_ev_respond s)\<rparr>)"
  have "ic_credits s \<le> ic_credits ?s" "wake_inv ?s = wake_inv s"
    by (simp_all add: sendResponse_def Let_def ic_emit_def ic_credits_def wake_inv_def)
  with respond core_respond[of ca _ b n L w s m] show ?case by auto
next
  case (replay b n L w s m w' s')
  have "ic_credits s \<le> ic_credits s'" "wake_inv s' = wake_inv s"
    using replay(3) by (auto simp: sendReplay_def ic_emit_def ic_credits_def wake_inv_def)
  with replay core_replay[of ca _ b n L w s m w' s'] show ?case by auto
next
  case (cycle b n L w s)
  have "ic_credits (ic_tick s) = ic_credits s" "wake_inv (ic_tick s) = wake_inv s" by (simp_all add: ic_tick_def ic_credits_def wake_inv_def)
  with cycle core_cycle[of ca _ b n L w s] show ?case by auto
qed

section \<open>Properties\<close>

text \<open>C11. The instruction cache in every reachable state. Credits sent and open accesses (queued, answered as a hit
  but not yet sent, pending as a miss, or being replayed) make up the queue size plus the requests received, and no
  access is open twice: every request is credited exactly once, when its hit or its replay is sent. The
  arbitration never fails: the buffer of the pending misses cannot overflow. The blocks of the pending misses are
  exactly those with a fill on its way (queued for the L2 cache, requested there, or returned), each with exactly one.
  Whatever can go on has its event scheduled: no request, replay, fill or queued miss with a credit is left asleep.\<close>

theorem icache_serves_every_miss:
  assumes "icache_reach ca pr b n L w s"
  shows "ic_credits s + length (ic_open w s) = fetch_queue_size + n \<and> distinct (ic_open w s) \<and>
    (\<not> b \<longrightarrow> is_ok (doArbitration ca pr (w, s\<lparr>ic_ev_arbitrate := removeAll 0 (ic_ev_arbitrate s)\<rparr>))) \<and>
    (let fills = map (block_of ca w) (ic_miss_queue s) @ L @ map (block_of ca w) (ic_l2cache_resp_queue s)
     in distinct fills \<and> set fills = block_of ca w ` set (ic_pending_miss_buffer s)) \<and>
    (ic_l2cache_resp_queue s \<noteq> [] \<or> ic_replay_buffer s \<noteq> [] \<or> ic_fetch_req_queue s \<noteq> [] \<longrightarrow> ic_ev_arbitrate s \<noteq> []) \<and>
    (ic_miss_queue s \<noteq> [] \<and> ic_l2cache_credits s > 0 \<longrightarrow> ic_ev_l2cache_request s \<noteq> [])"
proof -
  from icache_reach_inv[OF assms] have core: "ic_core ca (ip_cache_latency pr) b n L w s" and wake: "wake_inv s" and n: "n \<le> ic_credits s" by auto
  have "is_ok (doArbitration ca pr (w, s\<lparr>ic_ev_arbitrate := removeAll 0 (ic_ev_arbitrate s)\<rparr>))" if "\<not> b"
  proof -
    have c: "ic_core ca (ip_cache_latency pr) False n L w (s\<lparr>ic_ev_arbitrate := removeAll 0 (ic_ev_arbitrate s)\<rparr>)"
      using that ic_core_same[OF core ic_same_sched(3)] by simp
    from core_arbitrate[OF c _ refl] n show ?thesis by (auto simp: is_ok_iff ic_credits_def)
  qed
  with core wake show ?thesis unfolding ic_core_def own_inv_def line_inv_def wake_inv_def Let_def by blast
qed

definition sample_ic_world :: world where
  "sample_ic_world = \<lparr>w_inst = (\<lambda>_. sample_Inst TP_INT 0 [] []), w_mai = (\<lambda>_. mk_MemoryAccessInfo_addr False 0),
     w_lsi = (\<lambda>_. mk_LoadStoreInstInfo False 0), w_next = 1\<rparr>"

definition sample_icache :: "64 word list ICache" where
  "sample_icache = getRequestFromFetch 0 (ic_sendInitialCredits (mk_ICache []))"

theorem icache_serves_every_miss_witness:
  "is_ok (doArbitration sample_cache \<lparr>ip_cache_latency = 1, ip_l1_always_hit = False\<rparr>
     (sample_ic_world, sample_icache\<lparr>ic_ev_arbitrate := removeAll 0 (ic_ev_arbitrate sample_icache)\<rparr>)) \<and>
   ic_credits sample_icache = 8 \<and> ic_ev_arbitrate sample_icache \<noteq> []"
proof -
  let ?pr = "\<lparr>ip_cache_latency = 1, ip_l1_always_hit = False\<rparr>"
  have "icache_reach sample_cache ?pr False (0 + 1) [] sample_ic_world sample_icache"
    unfolding sample_icache_def
    by (rule icache_reach.request[OF icache_reach.start])
      (simp_all add: ic_credits_def ic_sendInitialCredits_def mk_ICache_def ic_emit_def fetch_queue_size_def ic_holds_def ic_waiting_def sample_ic_world_def)
  from icache_serves_every_miss[OF this] show ?thesis
    by (simp add: sample_icache_def getRequestFromFetch_def schedule_arbitrate_def ic_sendInitialCredits_def mk_ICache_def ic_emit_def
        ic_credits_def fetch_queue_size_def)
qed

end
