(* ===== verification/FetchProps.thy ===== *)
theory FetchProps
  imports FetchUnit InstCacheProps "HOL-Library.Log_Nat"
begin

text \<open>
  The reachable states of the fetch unit with its instruction generator: the order of the instructions, the credits, the
  blocks in the buffer, and that nothing is left asleep.
\<close>

section \<open>Effects of the handlers\<close>

lemma block_length_pos: "buf \<noteq> [] \<Longrightarrow> 0 < block_length sh h buf"
  by (induction sh h buf rule: block_length.induct) simp_all

lemma block_length_le: "block_length sh h buf \<le> length buf"
  by (induction sh h buf rule: block_length.induct) auto

text \<open>Instructions of one block: the same cache block, a change of flow only as the first, a taken branch only as the last.\<close>

definition one_block :: "nat \<Rightarrow> heap \<Rightarrow> ptr list \<Rightarrow> bool" where
  "one_block sh h ps \<longleftrightarrow> (\<forall>p\<in>set ps. drop_bit sh (i_pc (h p)) = drop_bit sh (i_pc (h (hd ps)))) \<and>
     (\<forall>p\<in>set (tl ps). \<not> i_is_cof (h p)) \<and> (\<forall>p\<in>set (butlast ps). \<not> i_is_taken_branch (h p))"

lemma block_length_block: "one_block sh h (take (block_length sh h buf) buf)"
proof (induction sh h buf rule: block_length.induct)
  case (3 sh h p q ps)
  show ?case
  proof (cases "different_blocks sh (h p) (h q)")
    case True
    then show ?thesis by (simp add: one_block_def)
  next
    case False
    with 3 have ih: "one_block sh h (take (block_length sh h (q # ps)) (q # ps))" by simp
    obtain n where n: "block_length sh h (q # ps) = Suc n" using block_length_pos[of "q # ps" sh h] by (cases "block_length sh h (q # ps)") auto
    from False ih n show ?thesis by (auto simp: one_block_def different_blocks_def)
  qed
qed (simp_all add: one_block_def)

text \<open>The send loop writes only the speculation flag of instructions.\<close>

definition spec_eq :: "'a world_scheme \<Rightarrow> 'a world_scheme \<Rightarrow> bool" where
  "spec_eq w w' \<longleftrightarrow> (\<forall>p. setSpeculative False (w_inst w' p) = setSpeculative False (w_inst w p)) \<and> w_mai w' = w_mai w \<and> w_next w' = w_next w"

lemma spec_eq_refl [simp]: "spec_eq w w"
  by (simp add: spec_eq_def)

lemma spec_eq_fields:
  assumes "spec_eq w w'"
  shows "i_status (w_inst w' p) = i_status (w_inst w p)" "i_is_cof (w_inst w' p) = i_is_cof (w_inst w p)"
    "i_is_taken_branch (w_inst w' p) = i_is_taken_branch (w_inst w p)"
    "i_last_in_fetch_block (w_inst w' p) = i_last_in_fetch_block (w_inst w p)"
    "i_program_id (w_inst w' p) = i_program_id (w_inst w p)"
proof -
  from assms have e: "setSpeculative False (w_inst w' p) = setSpeculative False (w_inst w p)" by (simp add: spec_eq_def)
  from arg_cong[OF e, of i_status] show "i_status (w_inst w' p) = i_status (w_inst w p)" by (simp add: setSpeculative_def)
  from arg_cong[OF e, of i_is_cof] show "i_is_cof (w_inst w' p) = i_is_cof (w_inst w p)" by (simp add: setSpeculative_def)
  from arg_cong[OF e, of i_is_taken_branch] show "i_is_taken_branch (w_inst w' p) = i_is_taken_branch (w_inst w p)"
    by (simp add: setSpeculative_def)
  from arg_cong[OF e, of i_last_in_fetch_block] show "i_last_in_fetch_block (w_inst w' p) = i_last_in_fetch_block (w_inst w p)"
    by (simp add: setSpeculative_def)
  from arg_cong[OF e, of i_program_id] show "i_program_id (w_inst w' p) = i_program_id (w_inst w p)" by (simp add: setSpeculative_def)
qed

lemma spec_eq_trans: "spec_eq w w1 \<Longrightarrow> spec_eq w1 w2 \<Longrightarrow> spec_eq w w2"
  by (simp add: spec_eq_def)

lemma spec_eq_upd [simp]: "spec_eq w (upd_inst p (setSpeculative b (w_inst w p)) w)"
  by (simp add: spec_eq_def upd_inst_def setSpeculative_def)

text \<open>A group to decode: fetched instructions, a change of flow only as the first, a taken branch only as the last.\<close>

definition send_group :: "heap \<Rightarrow> ptr list \<Rightarrow> bool" where
  "send_group h ps \<longleftrightarrow> (\<forall>p\<in>set ps. i_status (h p) = FETCHED) \<and> (\<forall>p\<in>set (tl ps). \<not> i_is_cof (h p)) \<and>
     (\<forall>p\<in>set (butlast ps). \<not> i_is_taken_branch (h p))"

text \<open>Why a group ends where it does.\<close>

definition group_ends :: "heap \<Rightarrow> nat \<Rightarrow> ptr list \<Rightarrow> ptr list \<Rightarrow> bool" where
  "group_ends h k ps rest \<longleftrightarrow> length ps = k \<or> ps \<noteq> [] \<and> i_is_taken_branch (h (last ps)) \<or>
     rest \<noteq> [] \<and> (i_status (h (hd rest)) \<noteq> FETCHED \<or> ps \<noteq> [] \<and> i_is_cof (h (hd rest)))"

definition blocks_in :: "heap \<Rightarrow> ptr list \<Rightarrow> nat" where
  "blocks_in h ps = length (filter (\<lambda>p. i_last_in_fetch_block (h p)) ps)"

lemma blocks_in_simps [simp]:
  "blocks_in h [] = 0"
  "blocks_in h (p # ps) = (if i_last_in_fetch_block (h p) then 1 else 0) + blocks_in h ps"
  "blocks_in h (ps @ qs) = blocks_in h ps + blocks_in h qs"
  by (simp_all add: blocks_in_def)

lemma blocks_in_cong: "(\<And>p. p \<in> set ps \<Longrightarrow> i_last_in_fetch_block (h p) = i_last_in_fetch_block (h' p)) \<Longrightarrow> blocks_in h ps = blocks_in h' ps"
  unfolding blocks_in_def by (metis (mono_tags, lifting) filter_cong)

lemma sub32_one: "sub32 ((b + Suc n) mod 4294967296) 1 = (b + n) mod 4294967296"
proof -
  have m: "sub32 x 1 = (x + 4294967295) mod 4294967296" for x
    by (simp add: sub32_def, subst add.commute, rule refl)
  have "((b + Suc n) mod 4294967296 + 4294967295) mod 4294967296 = (b + n + 4294967296) mod 4294967296"
    by (subst mod_add_left_eq) simp
  then show ?thesis by (simp only: m mod_add_self2)
qed

lemma send_loop_effect:
  assumes "k \<le> length (ft_fetch_buffer f)" and "ft_fetch_buffer_occupancy f = (b + blocks_in (w_inst w) (ft_fetch_buffer f)) mod 4294967296"
  shows "\<exists>ps rest w' f'. fetch_send_loop k grp (w, f) = Inr (grp @ ps, w', f') \<and> ft_fetch_buffer f = ps @ rest \<and> length ps \<le> k \<and>
     spec_eq w w' \<and> f' = f\<lparr>ft_fetch_buffer := rest, ft_fetch_buffer_occupancy := (b + blocks_in (w_inst w) rest) mod 4294967296\<rparr> \<and>
     (\<forall>p\<in>set ps. i_status (w_inst w p) = FETCHED) \<and> (\<forall>p\<in>set (if grp = [] then tl ps else ps). \<not> i_is_cof (w_inst w p)) \<and>
     (\<forall>p\<in>set (butlast ps). \<not> i_is_taken_branch (w_inst w p)) \<and>
     (length ps = k \<or> ps \<noteq> [] \<and> i_is_taken_branch (w_inst w (last ps)) \<or>
       rest \<noteq> [] \<and> (i_status (w_inst w (hd rest)) \<noteq> FETCHED \<or> grp @ ps \<noteq> [] \<and> i_is_cof (w_inst w (hd rest))))"
  using assms
proof (induction k arbitrary: grp w f)
  case 0
  then show ?case by (intro exI[of _ "[]"] exI[of _ "ft_fetch_buffer f"] exI[of _ w] exI[of _ f]) simp
next
  case (Suc k)
  from Suc.prems(1) obtain p fb where fb: "ft_fetch_buffer f = p # fb" by (cases "ft_fetch_buffer f") auto
  show ?case
  proof (cases "i_status (w_inst w p) \<noteq> FETCHED \<or> i_is_cof (w_inst w p) \<and> grp \<noteq> []")
    case True
    then show ?thesis using fb Suc.prems(2)
      by (intro exI[of _ "[]"] exI[of _ "ft_fetch_buffer f"] exI[of _ w] exI[of _ f]) auto
  next
    case False
    define w1 where "w1 = upd_inst p (setSpeculative (ft_speculative_path f) (w_inst w p)) w"
    define f1 where "f1 = f\<lparr>ft_fetch_buffer := fb, ft_fetch_buffer_occupancy := (b + blocks_in (w_inst w) fb) mod 4294967296\<rparr>"
    have s1: "spec_eq w w1" by (simp add: w1_def)
    note e1 = spec_eq_fields[OF s1]
    have occ: "(if i_last_in_fetch_block (w_inst w p) then sub32 (ft_fetch_buffer_occupancy f) 1 else ft_fetch_buffer_occupancy f) =
      (b + blocks_in (w_inst w) fb) mod 4294967296"
      using Suc.prems(2) fb sub32_one[of b "blocks_in (w_inst w) fb"] by simp
    have step: "fetch_send_loop (Suc k) grp (w, f) =
      (if i_is_taken_branch (w_inst w p) then Inr (grp @ [p], w1, f1) else fetch_send_loop k (grp @ [p]) (w1, f1))"
      using False fb occ by (auto simp: w1_def f1_def Let_def)
    show ?thesis
    proof (cases "i_is_taken_branch (w_inst w p)")
      case True
      then show ?thesis using step False fb s1 f1_def
        by (intro exI[of _ "[p]"] exI[of _ fb] exI[of _ w1] exI[of _ f1]) auto
    next
      case nt: False
      have b1: "\<And>ps. blocks_in (w_inst w1) ps = blocks_in (w_inst w) ps" by (rule blocks_in_cong) (simp add: e1)
      have "k \<le> length (ft_fetch_buffer f1)" "ft_fetch_buffer_occupancy f1 = (b + blocks_in (w_inst w1) (ft_fetch_buffer f1)) mod 4294967296"
        using Suc.prems(1) fb by (simp_all add: f1_def b1)
      from Suc.IH[OF this, of "grp @ [p]", unfolded e1 b1] obtain ps rest w' f' where
        ih: "fetch_send_loop k (grp @ [p]) (w1, f1) = Inr ((grp @ [p]) @ ps, w', f')" "ft_fetch_buffer f1 = ps @ rest" "length ps \<le> k" "spec_eq w1 w'"
          "f' = f1\<lparr>ft_fetch_buffer := rest, ft_fetch_buffer_occupancy := (b + blocks_in (w_inst w) rest) mod 4294967296\<rparr>"
        and st: "\<forall>p\<in>set ps. i_status (w_inst w p) = FETCHED" "\<forall>p\<in>set (if grp @ [p] = [] then tl ps else ps). \<not> i_is_cof (w_inst w p)"
          "\<forall>p\<in>set (butlast ps). \<not> i_is_taken_branch (w_inst w p)"
        and en: "length ps = k \<or> ps \<noteq> [] \<and> i_is_taken_branch (w_inst w (last ps)) \<or>
          rest \<noteq> [] \<and> (i_status (w_inst w (hd rest)) \<noteq> FETCHED \<or> (grp @ [p]) @ ps \<noteq> [] \<and> i_is_cof (w_inst w (hd rest)))"
        by blast
      have ff: "ft_fetch_buffer f = (p # ps) @ rest" "f' = f\<lparr>ft_fetch_buffer := rest, ft_fetch_buffer_occupancy := (b + blocks_in (w_inst w) rest) mod 4294967296\<rparr>"
        using ih(2,5) fb by (simp_all add: f1_def)
      show ?thesis
        by (rule exI[of _ "p # ps"], rule exI[of _ rest], rule exI[of _ w'], rule exI[of _ f'])
          (use step nt ih(1,3) ff st en False spec_eq_trans[OF s1 ih(4)] in \<open>simp, blast\<close>)
    qed
  qed
qed

text \<open>What \<open>sendInstructions_\<close> does when it sends: the longest group it may.\<close>

definition send_upper :: "FetchParameterSet \<Rightarrow> Fetch \<Rightarrow> nat" where
  "send_upper pr f = min (ft_credits_inst_queue f) (min (fp_num_to_fetch pr) (length (ft_fetch_buffer f)))"

lemma sendInstructions_effect:
  assumes up: "0 < send_upper pr f" and c: "ft_credits_inst_queue f < 4294967296"
    and occ: "ft_fetch_buffer_occupancy f = (b + blocks_in (w_inst w) (ft_fetch_buffer f)) mod 4294967296"
  shows "\<exists>ps rest w' f'. sendInstructions pr (w, f) = Inr (w', f') \<and> ft_fetch_buffer f = ps @ rest \<and> length ps \<le> send_upper pr f \<and>
     spec_eq w w' \<and> send_group (w_inst w) ps \<and> group_ends (w_inst w) (send_upper pr f) ps rest \<and>
     f' = f\<lparr>ft_fetch_buffer := rest, ft_fetch_buffer_occupancy := (b + blocks_in (w_inst w) rest) mod 4294967296,
            ft_credits_inst_queue := ft_credits_inst_queue f - length ps, ft_out := ft_out f @ [OutFetchQueueWrite ps],
            ft_ev_send_insts := (if rest \<noteq> [] \<and> ft_credits_inst_queue f > length ps then sched 1 (ft_ev_send_insts f) else ft_ev_send_insts f),
            ft_ev_fetch_insts := sched 1 (ft_ev_fetch_insts f)\<rparr>"
proof -
  have "send_upper pr f \<le> length (ft_fetch_buffer f)" by (simp add: send_upper_def)
  from send_loop_effect[OF this occ, of "[]"] obtain ps rest w' f1 where
    l: "fetch_send_loop (send_upper pr f) [] (w, f) = Inr (ps, w', f1)" and fb: "ft_fetch_buffer f = ps @ rest"
    and n: "length ps \<le> send_upper pr f" and s: "spec_eq w w'"
    and f1: "f1 = f\<lparr>ft_fetch_buffer := rest, ft_fetch_buffer_occupancy := (b + blocks_in (w_inst w) rest) mod 4294967296\<rparr>"
    and g: "send_group (w_inst w) ps" and e: "group_ends (w_inst w) (send_upper pr f) ps rest"
    unfolding send_group_def group_ends_def by (simp, blast)
  from n have "length ps \<le> ft_credits_inst_queue f" by (simp add: send_upper_def)
  with c have q: "sub32 (ft_credits_inst_queue f) (length ps) = ft_credits_inst_queue f - length ps" by (simp add: sub32_exact)
  have r: "sendInstructions pr (w, f) = Inr (w', f\<lparr>ft_fetch_buffer := rest, ft_fetch_buffer_occupancy := (b + blocks_in (w_inst w) rest) mod 4294967296,
            ft_credits_inst_queue := ft_credits_inst_queue f - length ps, ft_out := ft_out f @ [OutFetchQueueWrite ps],
            ft_ev_send_insts := (if rest \<noteq> [] \<and> ft_credits_inst_queue f > length ps then sched 1 (ft_ev_send_insts f) else ft_ev_send_insts f),
            ft_ev_fetch_insts := sched 1 (ft_ev_fetch_insts f)\<rparr>)"
    using up l f1 q by (simp add: sendInstructions_def send_upper_def[symmetric] Let_def ft_emit_def schedule_send_def schedule_fetch_def)
  from r fb n s g e show ?thesis by blast
qed

lemma sendInstructions_idle: "send_upper pr f = 0 \<Longrightarrow> sendInstructions pr (w, f) = Inr (w, f)"
  by (simp add: sendInstructions_def send_upper_def[symmetric])

text \<open>What \<open>fetchInstruction_\<close> requests.\<close>

definition can_request :: "FetchParameterSet \<Rightarrow> Fetch \<Rightarrow> bool" where
  "can_request pr f \<longleftrightarrow> 0 < ft_credits_icache f \<and> ft_ibuf f \<noteq> [] \<and> length (ft_fetch_buffer f) \<le> fp_fetch_buffer_size pr"

lemma request_block_idle: "\<not> can_request pr f \<Longrightarrow> request_block pr junk (w, f) = (w, f)"
  by (auto simp: request_block_def can_request_def)

lemma request_block_effect:
  assumes "can_request pr f"
  shows "\<exists>grp ib w' f' m. request_block pr junk (w, f) = (w', f') \<and> m = w_next w \<and> ft_ibuf f = grp @ ib \<and> grp \<noteq> [] \<and>
     one_block (icache_block_shift pr) (w_inst w) grp \<and>
     w_inst w' = (w_inst w)(last grp := setLastInFetchBlock True (w_inst w (last grp))) \<and> w_next w' = m + 1 \<and>
     (\<forall>m'. m' \<noteq> m \<longrightarrow> w_mai w' m' = w_mai w m') \<and> mi_fetch_group (w_mai w' m) = Some grp \<and>
     mi_vaddr (w_mai w' m) = i_pc (w_inst w (hd grp)) \<and>
     f' = f\<lparr>ft_fetch_buffer := ft_fetch_buffer f @ grp, ft_credits_icache := ft_credits_icache f - 1,
            ft_fetch_buffer_occupancy := add32 (ft_fetch_buffer_occupancy f) 1, ft_ibuf := ib, ft_out := ft_out f @ [OutFetchIcacheReq m],
            ft_ev_fetch_insts := (if ib \<noteq> [] \<and> ft_credits_icache f > 1 \<and> add32 (ft_fetch_buffer_occupancy f) 1 < fp_fetch_buffer_size pr
              then sched 1 (ft_ev_fetch_insts f) else ft_ev_fetch_insts f)\<rparr>"
proof -
  define n where "n = block_length (icache_block_shift pr) (w_inst w) (ft_ibuf f)"
  from assms have ne: "ft_ibuf f \<noteq> []" by (simp add: can_request_def)
  have n: "0 < n" unfolding n_def by (rule block_length_pos[OF ne])
  have grp: "take n (ft_ibuf f) \<noteq> []" "hd (take n (ft_ibuf f)) = hd (ft_ibuf f)" using n ne by simp_all
  have one: "one_block (icache_block_shift pr) (w_inst w) (take n (ft_ibuf f))" unfolding n_def by (rule block_length_block)
  show ?thesis
    by (rule exI[of _ "take n (ft_ibuf f)"], rule exI[of _ "drop n (ft_ibuf f)"])
      (use assms grp one in \<open>auto simp: request_block_def can_request_def n_def[symmetric] Let_def ft_emit_def schedule_fetch_def
        upd_inst_def mk_MemoryAccessInfo_addr_def\<close>)
qed

section \<open>The reachable states\<close>

definition group_of :: "'a world_scheme \<Rightarrow> mptr \<Rightarrow> ptr list" where
  "group_of w m = (case mi_fetch_group (w_mai w m) of None \<Rightarrow> [] | Some ps \<Rightarrow> ps)"

definition in_flight :: "'a world_scheme \<Rightarrow> mptr list \<Rightarrow> ptr list" where
  "in_flight w R = concat (map (group_of w) R)"

definition ft_holds :: "'a world_scheme \<Rightarrow> mptr list \<Rightarrow> Fetch \<Rightarrow> ptr set" where
  "ft_holds w R f = set (ft_fetch_buffer f) \<union> set (ft_ibuf f) \<union> set (in_flight w R)"

text \<open>The rest of the core: it leaves the instructions the unit holds alone, and the program identifiers of those it sent.\<close>

definition env_fetch :: "world \<Rightarrow> ptr list \<Rightarrow> mptr list \<Rightarrow> Fetch \<Rightarrow> world \<Rightarrow> bool" where
  "env_fetch w T R f w' \<longleftrightarrow> w_next w \<le> w_next w' \<and> (\<forall>p\<in>ft_holds w R f. w_inst w' p = w_inst w p) \<and>
     (\<forall>p\<in>set T. i_program_id (w_inst w' p) = i_program_id (w_inst w p)) \<and>
     (\<forall>m\<in>set R. mi_fetch_group (w_mai w' m) = mi_fetch_group (w_mai w m))"

definition sent_of :: "fetch_event list \<Rightarrow> ptr list" where
  "sent_of es = concat (map (\<lambda>e. case e of OutFetchQueueWrite ps \<Rightarrow> ps | _ \<Rightarrow> []) es)"

definition reqs_of :: "fetch_event list \<Rightarrow> mptr list" where
  "reqs_of es = concat (map (\<lambda>e. case e of OutFetchIcacheReq m \<Rightarrow> [m] | _ \<Rightarrow> []) es)"

lemma out_of_simps [simp]:
  "sent_of [] = []" "sent_of (es @ es') = sent_of es @ sent_of es'" "sent_of [OutFetchQueueWrite ps] = ps"
  "sent_of [OutFetchIcacheReq m] = []" "sent_of [CancelFetchQueueWrite, CancelFetchIcacheReq] = []"
  "reqs_of [] = []" "reqs_of (es @ es') = reqs_of es @ reqs_of es'" "reqs_of [OutFetchQueueWrite ps] = []"
  "reqs_of [OutFetchIcacheReq m] = [m]" "reqs_of [CancelFetchQueueWrite, CancelFetchIcacheReq] = []"
  by (simp_all add: sent_of_def reqs_of_def)

definition new_out :: "Fetch \<Rightarrow> Fetch \<Rightarrow> fetch_event list" where
  "new_out f f' = drop (length (ft_out f)) (ft_out f')"

definition ft_quiet :: "Fetch \<Rightarrow> bool" where
  "ft_quiet f \<longleftrightarrow> 0 \<notin> set (ft_ev_fetch_insts f) \<and> 0 \<notin> set (ft_ev_send_insts f)"

definition ft_tick :: "Fetch \<Rightarrow> Fetch" where
  "ft_tick f = f\<lparr>ft_ev_fetch_insts := map (\<lambda>d. d - 1) (ft_ev_fetch_insts f), ft_ev_send_insts := map (\<lambda>d. d - 1) (ft_ev_send_insts f)\<rparr>"

text \<open>\<open>fetch_reach mf valid pr k T R b q c w f\<close>: the unit reaches \<open>f\<close> with the stores \<open>w\<close>. Position \<open>k\<close> of the trace is where it
  was last redirected to, \<open>T\<close> are the instructions sent since then, \<open>R\<close> the requests the cache has not answered with a
  hit; \<open>b\<close> blocks were counted as buffered when the last flush cleared the buffer; \<open>q\<close> and \<open>c\<close> credits came from decode
  and from the cache.\<close>

inductive fetch_reach ::
    "mavis_facade \<Rightarrow> (nat \<Rightarrow> nat \<Rightarrow> bool) \<Rightarrow> FetchParameterSet \<Rightarrow> nat \<Rightarrow> ptr list \<Rightarrow> mptr list \<Rightarrow> nat \<Rightarrow> nat \<Rightarrow> nat \<Rightarrow> world \<Rightarrow> Fetch \<Rightarrow> bool"
  for mf :: mavis_facade and valid :: "nat \<Rightarrow> nat \<Rightarrow> bool" and pr :: FetchParameterSet where
  start: "createGenerator pj os a fn = Inr g \<Longrightarrow> trace_ok mf g \<Longrightarrow> fetch_reach mf valid pr 0 [] [] 0 0 0 w (ft_initialize (mk_Fetch g))"
| environment: "fetch_reach mf valid pr k T R b q c w f \<Longrightarrow> env_fetch w T R f w' \<Longrightarrow> fetch_reach mf valid pr k T R b q c w' f"
| fetch: "fetch_reach mf valid pr k T R b q c w f \<Longrightarrow> 0 \<in> set (ft_ev_fetch_insts f) \<Longrightarrow>
    fetchInstruction mf pr junk (w, f\<lparr>ft_ev_fetch_insts := removeAll 0 (ft_ev_fetch_insts f)\<rparr>) = Inr (w', f') \<Longrightarrow>
    fetch_reach mf valid pr k T (R @ reqs_of (new_out f f')) b q c w' f'"
| send: "fetch_reach mf valid pr k T R b q c w f \<Longrightarrow> 0 \<in> set (ft_ev_send_insts f) \<Longrightarrow>
    sendInstructions pr (w, f\<lparr>ft_ev_send_insts := removeAll 0 (ft_ev_send_insts f)\<rparr>) = Inr (w', f') \<Longrightarrow>
    fetch_reach mf valid pr k (T @ sent_of (new_out f f')) R b q c w' f'"
| response: "fetch_reach mf valid pr k T R b q c w f \<Longrightarrow> m \<in> set R \<Longrightarrow> receiveCacheResponse m (w, f) = Inr (w', f') \<Longrightarrow>
    fetch_reach mf valid pr k T (if mi_cache_access_state (w_mai w m) = CS_HIT then remove1 m R else R) b q c w' f'"
| cache_credit: "fetch_reach mf valid pr k T R b q c w f \<Longrightarrow> ft_credits_icache f + n < 4294967296 \<Longrightarrow>
    fetch_reach mf valid pr k T R b q (c + n) w (receiveCacheCredit n f)"
| queue_credit: "fetch_reach mf valid pr k T R b q c w f \<Longrightarrow> ft_credits_inst_queue f + n < 4294967296 \<Longrightarrow>
    fetch_reach mf valid pr k T R b (q + n) c w (receiveFetchQueueCredits n f)"
| redirect: "fetch_reach mf valid pr k T R b q c w f \<Longrightarrow> gen_src (ft_inst_generator f) (w_inst w (fc_inst cr)) = Some j \<Longrightarrow>
    j < length (gen_trace mf (ft_inst_generator f)) \<Longrightarrow> i_program_id (w_inst w (fc_inst cr)) = j + 1 \<Longrightarrow>
    gen_valid valid (ft_inst_generator f) j \<Longrightarrow> flushFetch valid (w_inst w) cr f = Inr f' \<Longrightarrow>
    fetch_reach mf valid pr (if fc_is_inclusive cr then j else j + 1) [] R (ft_fetch_buffer_occupancy f) q c w f'"
| cycle: "fetch_reach mf valid pr k T R b q c w f \<Longrightarrow> ft_quiet f \<Longrightarrow> fetch_reach mf valid pr k T R b q c w (ft_tick f)"

section \<open>The invariant\<close>

text \<open>What the decoder builds has not been fetched yet.\<close>

definition unfetched :: "Inst \<Rightarrow> bool" where
  "unfetched i \<longleftrightarrow> i_status i = BEFORE_FETCH \<and> \<not> i_last_in_fetch_block i"

definition mavis_fresh :: "mavis_facade \<Rightarrow> bool" where
  "mavis_fresh mf \<longleftrightarrow> (\<forall>opc i. mv_makeInst mf opc = Inr i \<longrightarrow> unfetched i) \<and> (\<forall>d i. mv_makeInstDirectly mf d = Inr i \<longrightarrow> unfetched i)"

definition prog_ids :: "'a world_scheme \<Rightarrow> ptr list \<Rightarrow> nat list" where
  "prog_ids w ps = map (\<lambda>p. i_program_id (w_inst w p)) ps"

definition order_inv :: "mavis_facade \<Rightarrow> nat \<Rightarrow> ptr list \<Rightarrow> mptr list \<Rightarrow> 'a world_scheme \<Rightarrow> Fetch \<Rightarrow> bool" where
  "order_inv mf k T R w f \<longleftrightarrow> gen_ok (ft_inst_generator f) \<and> trace_ok mf (ft_inst_generator f) \<and> k \<le> gen_pos (ft_inst_generator f) \<and>
     prog_ids w (T @ ft_fetch_buffer f @ ft_ibuf f) = [k + 1 ..< gen_pos (ft_inst_generator f) + 1] \<and>
     (\<forall>p\<in>set T \<union> ft_holds w R f. p < gen_alloc (ft_inst_generator f))"

definition status_inv :: "mptr list \<Rightarrow> 'a world_scheme \<Rightarrow> Fetch \<Rightarrow> bool" where
  "status_inv R w f \<longleftrightarrow> distinct R \<and> (\<forall>m\<in>set R. m < w_next w \<and> mi_fetch_group (w_mai w m) \<noteq> None) \<and> distinct (in_flight w R) \<and>
     (\<forall>p\<in>set (ft_ibuf f). unfetched (w_inst w p) \<and> p \<notin> set (in_flight w R)) \<and>
     (\<forall>p\<in>set (in_flight w R). i_status (w_inst w p) = BEFORE_FETCH) \<and>
     (\<forall>p\<in>set (ft_fetch_buffer f). i_status (w_inst w p) = FETCHED \<or> p \<in> set (in_flight w R))"

definition occupancy_inv :: "nat \<Rightarrow> 'a world_scheme \<Rightarrow> Fetch \<Rightarrow> bool" where
  "occupancy_inv b w f \<longleftrightarrow> ft_fetch_buffer_occupancy f = (b + blocks_in (w_inst w) (ft_fetch_buffer f)) mod 4294967296"

definition credit_inv :: "nat \<Rightarrow> nat \<Rightarrow> Fetch \<Rightarrow> bool" where
  "credit_inv q c f \<longleftrightarrow> ft_credits_inst_queue f + length (sent_of (ft_out f)) = q \<and> ft_credits_icache f + length (reqs_of (ft_out f)) = c \<and>
     ft_credits_inst_queue f < 4294967296"

definition room_inv :: "FetchParameterSet \<Rightarrow> Fetch \<Rightarrow> bool" where
  "room_inv pr f \<longleftrightarrow> length (ft_ibuf f) \<le> ibuf_capacity pr \<and> length (ft_fetch_buffer f) \<le> fp_fetch_buffer_size pr + ibuf_capacity pr"

definition fetch_inv ::
    "mavis_facade \<Rightarrow> FetchParameterSet \<Rightarrow> nat \<Rightarrow> ptr list \<Rightarrow> mptr list \<Rightarrow> nat \<Rightarrow> nat \<Rightarrow> nat \<Rightarrow> 'a world_scheme \<Rightarrow> Fetch \<Rightarrow> bool" where
  "fetch_inv mf pr k T R b q c w f \<longleftrightarrow> order_inv mf k T R w f \<and> status_inv R w f \<and> occupancy_inv b w f \<and> credit_inv q c f \<and> room_inv pr f"

lemmas fetch_inv_defs = fetch_inv_def order_inv_def status_inv_def occupancy_inv_def credit_inv_def room_inv_def

lemma fetch_inv_events [simp]:
  "fetch_inv mf pr k T R b q c w (f\<lparr>ft_ev_fetch_insts := x\<rparr>) = fetch_inv mf pr k T R b q c w f"
  "fetch_inv mf pr k T R b q c w (f\<lparr>ft_ev_send_insts := x\<rparr>) = fetch_inv mf pr k T R b q c w f"
  by (simp_all add: fetch_inv_defs ft_holds_def)

lemma in_flight_simps [simp]: "in_flight w [] = []" "in_flight w (R @ R') = in_flight w R @ in_flight w R'"
  by (simp_all add: in_flight_def)

lemma in_flight_cong: "(\<And>m. m \<in> set R \<Longrightarrow> mi_fetch_group (w_mai w' m) = mi_fetch_group (w_mai w m)) \<Longrightarrow> in_flight w' R = in_flight w R"
  by (induction R) (simp_all add: in_flight_def group_of_def)

lemma prog_ids_append [simp]: "prog_ids w (ps @ qs) = prog_ids w ps @ prog_ids w qs"
  by (simp add: prog_ids_def)

lemma prog_ids_cong: "(\<And>p. p \<in> set ps \<Longrightarrow> i_program_id (w_inst w' p) = i_program_id (w_inst w p)) \<Longrightarrow> prog_ids w' ps = prog_ids w ps"
  by (simp add: prog_ids_def)

lemma order_inv_distinct: "order_inv mf k T R w f \<Longrightarrow> distinct (T @ ft_fetch_buffer f @ ft_ibuf f)"
  unfolding order_inv_def prog_ids_def by (metis distinct_map distinct_upt)

lemma ft_inv_start: "createGenerator pj os a fn = Inr g \<Longrightarrow> trace_ok mf g \<Longrightarrow> fetch_inv mf pr 0 [] [] 0 0 0 w (ft_initialize (mk_Fetch g))"
  by (simp add: fetch_inv_defs ft_initialize_def schedule_fetch_def mk_Fetch_def ft_holds_def prog_ids_def createGenerator_ok)

lemma ft_inv_environment:
  assumes "fetch_inv mf pr k T R b q c w f" and env: "env_fetch w T R f w'"
  shows "fetch_inv mf pr k T R b q c w' f"
proof -
  have fl: "in_flight w' R = in_flight w R" using env by (intro in_flight_cong) (simp add: env_fetch_def)
  then have h: "ft_holds w' R f = ft_holds w R f" by (simp add: ft_holds_def)
  have same: "\<And>p. p \<in> ft_holds w R f \<Longrightarrow> w_inst w' p = w_inst w p" using env by (simp add: env_fetch_def)
  have ids: "prog_ids w' (T @ ft_fetch_buffer f @ ft_ibuf f) = prog_ids w (T @ ft_fetch_buffer f @ ft_ibuf f)"
    using env same by (intro prog_ids_cong) (auto simp: env_fetch_def ft_holds_def)
  have o: "order_inv mf k T R w' f" using assms(1) ids h by (simp add: fetch_inv_def order_inv_def)
  have b: "blocks_in (w_inst w') (ft_fetch_buffer f) = blocks_in (w_inst w) (ft_fetch_buffer f)"
    by (rule blocks_in_cong) (simp add: same ft_holds_def)
  have s: "status_inv R w' f" using assms fl same by (auto simp: fetch_inv_def status_inv_def env_fetch_def ft_holds_def intro: less_le_trans)
  from o b s assms(1) show ?thesis by (simp add: fetch_inv_def occupancy_inv_def)
qed

section \<open>Every handler keeps the invariant\<close>

lemma unfetched_upd [simp]:
  "unfetched (i\<lparr>i_target_vaddr := a\<rparr>) = unfetched i" "unfetched (i\<lparr>i_vector_config := vc\<rparr>) = unfetched i"
  "unfetched (i\<lparr>i_is_taken_branch := t\<rparr>) = unfetched i" "unfetched (i\<lparr>i_pc := pc\<rparr>) = unfetched i"
  "unfetched (i\<lparr>i_is_cof := t\<rparr>) = unfetched i"
  by (simp_all add: unfetched_def)

lemma unfetched_content:
  assumes "content i = content i'"
  shows "unfetched i = unfetched i'"
  using arg_cong[OF assms, of i_status] arg_cong[OF assms, of i_last_in_fetch_block] by (simp add: unfetched_def content_def)

lemma jg_field_unfetched:
  assumes "jg_field j key upd i = Inr i'" and "unfetched i" and "\<And>v i1. upd v i = Inr i1 \<Longrightarrow> unfetched i1"
  shows "unfetched i'"
  using assms by (auto simp: jg_field_def split: option.splits)

lemma jg_set_unfetched:
  "unfetched i \<Longrightarrow> jg_set_vaddr v i = Inr i1 \<Longrightarrow> unfetched i1" "unfetched i \<Longrightarrow> jg_set_vtype v i = Inr i1 \<Longrightarrow> unfetched i1"
  "unfetched i \<Longrightarrow> jg_set_vta v i = Inr i1 \<Longrightarrow> unfetched i1" "unfetched i \<Longrightarrow> jg_set_vl v i = Inr i1 \<Longrightarrow> unfetched i1"
  "unfetched i \<Longrightarrow> jg_set_taken v i = Inr i1 \<Longrightarrow> unfetched i1"
  by (auto simp: jg_set_vaddr_def jg_set_vtype_def jg_set_vta_def jg_set_vl_def jg_set_taken_def bindE_eq_Inr)

lemma jg_makeInst_unfetched:
  assumes mf: "mavis_fresh mf" and "jg_makeInst mf j = Inr i"
  shows "unfetched i"
proof (cases "map_of j ''opcode''")
  case (Some v)
  with assms show ?thesis by (auto simp: jg_makeInst_def mavis_fresh_def bindE_eq_Inr)
next
  case None
  with assms(2) obtain d i0 i1 i2 i3 i4 where "mv_makeInstDirectly mf d = Inr i0" and
    s: "jg_field j ''vaddr'' jg_set_vaddr i0 = Inr i1" "jg_field j ''vtype'' jg_set_vtype i1 = Inr i2"
      "jg_field j ''vta'' jg_set_vta i2 = Inr i3" "jg_field j ''vl'' jg_set_vl i3 = Inr i4" "jg_field j ''taken'' jg_set_taken i4 = Inr i"
    by (auto simp: jg_makeInst_def bindE_eq_Inr split: option.splits)
  with mf have "unfetched i0" by (auto simp: mavis_fresh_def)
  from jg_field_unfetched[OF s(1) this jg_set_unfetched(1)[OF this]] have "unfetched i1" .
  from jg_field_unfetched[OF s(2) this jg_set_unfetched(2)[OF this]] have "unfetched i2" .
  from jg_field_unfetched[OF s(3) this jg_set_unfetched(3)[OF this]] have "unfetched i3" .
  from jg_field_unfetched[OF s(4) this jg_set_unfetched(4)[OF this]] have "unfetched i4" .
  from jg_field_unfetched[OF s(5) this jg_set_unfetched(5)[OF this]] show ?thesis .
qed

lemma tg_makeInst_unfetched: "mavis_fresh mf \<Longrightarrow> tg_makeInst mf st = Inr i \<Longrightarrow> unfetched i"
  by (auto simp: tg_makeInst_def bindE_eq_Inr mavis_fresh_def Let_def split: if_splits)

lemma read_unfetched: "mavis_fresh mf \<Longrightarrow> read_from (gen_trace mf g) k i \<Longrightarrow> unfetched i"
proof -
  assume mf: "mavis_fresh mf" and "read_from (gen_trace mf g) k i"
  then obtain i0 where "gen_trace mf g ! k = Inr i0" "k < length (gen_trace mf g)" and c: "content i = content i0" by (auto simp: read_from_def)
  then have "unfetched i0"
    using jg_makeInst_unfetched[OF mf] tg_makeInst_unfetched[OF mf] by (cases g) (simp_all add: jg_trace_def tg_trace_def)
  then show ?thesis by (simp add: unfetched_content[OF c])
qed

text \<open>The trace buffer is filled.\<close>

lemma inv_prefill:
  assumes inv: "fetch_inv mf pr k T R b q c w f" and mf: "mavis_fresh mf"
  shows "\<exists>g h buf. prefill (getNextInst mf) (ibuf_capacity pr - length (ft_ibuf f)) (ft_inst_generator f, w_inst w, ft_ibuf f) = Inr (g, h, buf) \<and>
    fetch_inv mf pr k T R b q c (w\<lparr>w_inst := h\<rparr>) (f\<lparr>ft_inst_generator := g, ft_ibuf := buf\<rparr>) \<and>
    (\<forall>p\<in>ft_holds w R f. h p = w_inst w p) \<and>
    (buf = [] \<longrightarrow> ibuf_capacity pr = 0 \<or> gen_pos g = length (gen_trace mf g)) \<and> gen_trace mf g = gen_trace mf (ft_inst_generator f)"
proof -
  define g where "g = ft_inst_generator f"
  from inv have i: "gen_ok g" "trace_ok mf g" "k \<le> gen_pos g" "prog_ids w (T @ ft_fetch_buffer f @ ft_ibuf f) = [k + 1 ..< gen_pos g + 1]"
    "\<And>p. p \<in> set T \<union> ft_holds w R f \<Longrightarrow> p < gen_alloc g" by (auto simp: fetch_inv_def order_inv_def g_def)
  have ok: "\<forall>k < length (gen_trace mf g). is_ok (gen_trace mf g ! k)" using trace_okD[OF i(2)] by simp
  let ?n = "ibuf_capacity pr - length (ft_ibuf f)"
  from gen.prefill_reads[OF i(1) ok, of ?n "w_inst w" "ft_ibuf f"] obtain g' h where
    p: "prefill (getNextInst mf) ?n (g, w_inst w, ft_ibuf f) = Inr (g', h, ft_ibuf f @ [gen_alloc g ..< gen_alloc g'])"
    and g': "gen_ok g'" "gen_trace mf g' = gen_trace mf g" "gen_alloc g \<le> gen_alloc g'"
      "gen_alloc g' - gen_alloc g = min ?n (length (gen_trace mf g) - gen_pos g)" "gen_pos g' = gen_pos g + (gen_alloc g' - gen_alloc g)"
    and old: "\<And>p. p \<notin> {gen_alloc g ..< gen_alloc g'} \<Longrightarrow> h p = w_inst w p"
    and new: "\<And>p. p \<in> {gen_alloc g ..< gen_alloc g'} \<Longrightarrow> read_from (gen_trace mf g) (gen_pos g + (p - gen_alloc g)) (h p)" by blast
  let ?new = "[gen_alloc g ..< gen_alloc g']" and ?w = "w\<lparr>w_inst := h\<rparr>"
  let ?f = "f\<lparr>ft_inst_generator := g', ft_ibuf := ft_ibuf f @ ?new\<rparr>"
  have same: "h p = w_inst w p" if "p \<in> set T \<union> ft_holds w R f" for p using i(5)[OF that] old[of p] by simp
  have fl: "in_flight ?w R = in_flight w R" by (rule in_flight_cong) simp
  have ids: "prog_ids ?w (T @ ft_fetch_buffer f @ ft_ibuf f) = [k + 1 ..< gen_pos g + 1]"
    unfolding i(4)[symmetric] by (rule prog_ids_cong) (use same in \<open>auto simp: ft_holds_def\<close>)
  have "prog_ids ?w ?new = map (\<lambda>p. gen_pos g + 1 + (p - gen_alloc g)) ?new"
    unfolding prog_ids_def by (rule map_cong[OF refl]) (use new in \<open>auto simp: read_from_def\<close>)
  also have "\<dots> = [gen_pos g + 1 ..< gen_pos g' + 1]"
    by (rule nth_equalityI) (use g'(5) in \<open>simp_all del: upt_Suc\<close>)
  finally have "prog_ids ?w (T @ ft_fetch_buffer f @ ft_ibuf f @ ?new) = [k + 1 ..< gen_pos g' + 1]"
    using ids i(3) g'(5) upt_add_eq_append[of "k + 1" "gen_pos g + 1" "gen_pos g' - gen_pos g"] by simp
  moreover have "\<forall>p\<in>set T \<union> ft_holds ?w R ?f. p < gen_alloc g'"
    using i(5) g'(3) fl by (fastforce simp: ft_holds_def)
  ultimately have o: "order_inv mf k T R ?w ?f" using g' i(2,3) by (simp add: order_inv_def trace_ok_def)
  have s: "status_inv R ?w ?f"
  proof -
    have "\<forall>p\<in>set ?new. unfetched (h p) \<and> p \<notin> set (in_flight w R)"
      using read_unfetched[OF mf new] i(5) by (fastforce simp: ft_holds_def)
    with inv same fl show ?thesis by (auto simp: fetch_inv_def status_inv_def ft_holds_def)
  qed
  have bl: "blocks_in h (ft_fetch_buffer f) = blocks_in (w_inst w) (ft_fetch_buffer f)"
    by (rule blocks_in_cong) (use same in \<open>simp add: ft_holds_def\<close>)
  have r: "room_inv pr ?f" using inv g'(4) by (auto simp: fetch_inv_def room_inv_def)
  have "fetch_inv mf pr k T R b q c ?w ?f"
    using o s bl r inv by (simp add: fetch_inv_def occupancy_inv_def credit_inv_def)
  moreover have "ft_ibuf f @ ?new = [] \<longrightarrow> ibuf_capacity pr = 0 \<or> gen_pos g' = length (gen_trace mf g')"
    using g' gen.pos_le[OF g'(1), of mf] by auto
  ultimately show ?thesis using p g'(2) same unfolding g_def by blast
qed

lemma in_flight_one: "in_flight w [m] = group_of w m"
  by (simp add: in_flight_def)

lemma in_flight_mem: "m \<in> set R \<Longrightarrow> set (group_of w m) \<subseteq> set (in_flight w R)"
  by (auto simp: in_flight_def)

lemma add32_one: "add32 (x mod 4294967296) 1 = Suc x mod 4294967296"
  by (simp add: add32_def mod_Suc_eq)

text \<open>A block is requested.\<close>

lemma inv_request:
  assumes inv: "fetch_inv mf pr k T R b q c w f" and can: "can_request pr f" and r: "request_block pr junk (w, f) = (w', f')"
  shows "fetch_inv mf pr k T (R @ reqs_of (new_out f f')) b q c w' f'"
proof -
  from request_block_effect[OF can, of junk w] r obtain grp ib where
    ib: "ft_ibuf f = grp @ ib" "grp \<noteq> []" and
    wi: "w_inst w' = (w_inst w)(last grp := setLastInFetchBlock True (w_inst w (last grp)))" and nx: "w_next w' = w_next w + 1" and
    mai: "\<And>m'. m' \<noteq> w_next w \<Longrightarrow> w_mai w' m' = w_mai w m'" and grp: "mi_fetch_group (w_mai w' (w_next w)) = Some grp" and
    f': "f' = f\<lparr>ft_fetch_buffer := ft_fetch_buffer f @ grp, ft_credits_icache := ft_credits_icache f - 1,
            ft_fetch_buffer_occupancy := add32 (ft_fetch_buffer_occupancy f) 1, ft_ibuf := ib, ft_out := ft_out f @ [OutFetchIcacheReq (w_next w)],
            ft_ev_fetch_insts := (if ib \<noteq> [] \<and> ft_credits_icache f > 1 \<and> add32 (ft_fetch_buffer_occupancy f) 1 < fp_fetch_buffer_size pr
              then sched 1 (ft_ev_fetch_insts f) else ft_ev_fetch_insts f)\<rparr>" by auto
  let ?m = "w_next w" and ?l = "last grp"
  have new: "R @ reqs_of (new_out f f') = R @ [?m]" by (simp add: new_out_def f')
  from inv have Rb: "\<And>m. m \<in> set R \<Longrightarrow> m < ?m" by (simp add: fetch_inv_def status_inv_def)
  then have fl: "in_flight w' (R @ [?m]) = in_flight w R @ grp"
    using in_flight_cong[of R w' w] mai grp by (force simp: in_flight_one group_of_def)
  have fields: "i_status (w_inst w' p) = i_status (w_inst w p)" "i_program_id (w_inst w' p) = i_program_id (w_inst w p)"
    "i_last_in_fetch_block (w_inst w' p) = (p = ?l \<or> i_last_in_fetch_block (w_inst w p))" for p
    by (simp_all add: wi setLastInFetchBlock_def)
  have pids: "prog_ids w' ps = prog_ids w ps" for ps by (rule prog_ids_cong) (rule fields)
  have d: "distinct (ft_fetch_buffer f @ grp @ ib)" using order_inv_distinct[of mf k T R w f] inv ib(1) by (simp add: fetch_inv_def)
  have lg: "?l \<in> set grp" using ib(2) by simp
  with d have lo: "?l \<notin> set (ft_fetch_buffer f)" "?l \<notin> set ib" by auto
  have o: "order_inv mf k T (R @ [?m]) w' f'"
    using inv fl pids ib(1) by (auto simp: fetch_inv_def order_inv_def f' ft_holds_def)
  have s: "status_inv (R @ [?m]) w' f'"
  proof -
    have "unfetched (w_inst w' p)" if "p \<in> set ib" for p
      using inv that lo(2) ib(1) by (auto simp: fetch_inv_def status_inv_def unfetched_def fields)
    moreover have "\<forall>m\<in>set (R @ [?m]). m < w_next w' \<and> mi_fetch_group (w_mai w' m) \<noteq> None"
      using inv Rb mai grp nx by (fastforce simp: fetch_inv_def status_inv_def)
    moreover have "distinct (R @ [?m])" using inv Rb by (force simp: fetch_inv_def status_inv_def)
    moreover have "distinct (in_flight w R @ grp)" using inv d ib(1) by (auto simp: fetch_inv_def status_inv_def)
    moreover have "i_status (w_inst w' p) = BEFORE_FETCH" if "p \<in> set (in_flight w R @ grp)" for p
      using inv that ib(1) by (auto simp: fetch_inv_def status_inv_def fields unfetched_def)
    moreover have "p \<notin> set (in_flight w R @ grp)" if "p \<in> set ib" for p
      using inv that ib(1) d by (auto simp: fetch_inv_def status_inv_def)
    moreover have "i_status (w_inst w' p) = FETCHED \<or> p \<in> set (in_flight w R @ grp)" if "p \<in> set (ft_fetch_buffer f @ grp)" for p
      using inv that by (auto simp: fetch_inv_def status_inv_def fields)
    ultimately show ?thesis unfolding status_inv_def fl by (simp add: f')
  qed
  have old: "blocks_in (w_inst w') (ft_fetch_buffer f) = blocks_in (w_inst w) (ft_fetch_buffer f)"
    by (rule blocks_in_cong) (use lo(1) in \<open>auto simp: fields\<close>)
  have "blocks_in (w_inst w') grp = 1"
  proof -
    have "\<And>p. p \<in> set grp \<Longrightarrow> i_last_in_fetch_block (w_inst w' p) = (?l = p)"
      using inv ib(1) by (auto simp: fetch_inv_def status_inv_def unfetched_def fields)
    then have "blocks_in (w_inst w') grp = length (filter ((=) ?l) grp)" unfolding blocks_in_def by (metis (mono_tags, lifting) filter_cong)
    also have "\<dots> = count_list grp ?l" by (simp add: count_list_eq_length_filter)
    also have "\<dots> = 1" using d lg by (simp add: count_list_distinct)
    finally show ?thesis .
  qed
  with old inv have oc: "occupancy_inv b w' f'"
    by (simp add: fetch_inv_def occupancy_inv_def f' add32_one[simplified])
  have c: "credit_inv q c f'" using inv can by (simp add: fetch_inv_def credit_inv_def f' can_request_def)
  have "length (ft_ibuf f) \<le> ibuf_capacity pr" using inv by (simp add: fetch_inv_def room_inv_def)
  then have rm: "room_inv pr f'" using can ib(1) by (simp add: room_inv_def f' can_request_def)
  show ?thesis unfolding new using o s oc c rm by (simp add: fetch_inv_def)
qed

lemma fetchInstruction_inv:
  assumes inv: "fetch_inv mf pr k T R b q c w f" and mf: "mavis_fresh mf"
  shows "\<exists>w' f'. fetchInstruction mf pr junk (w, f) = Inr (w', f') \<and> fetch_inv mf pr k T (R @ reqs_of (new_out f f')) b q c w' f'"
proof -
  from inv_prefill[OF inv mf] obtain g h buf where
    p: "prefill (getNextInst mf) (ibuf_capacity pr - length (ft_ibuf f)) (ft_inst_generator f, w_inst w, ft_ibuf f) = Inr (g, h, buf)" and
    i: "fetch_inv mf pr k T R b q c (w\<lparr>w_inst := h\<rparr>) (f\<lparr>ft_inst_generator := g, ft_ibuf := buf\<rparr>)" by blast
  let ?w = "w\<lparr>w_inst := h\<rparr>" and ?f = "f\<lparr>ft_inst_generator := g, ft_ibuf := buf\<rparr>"
  obtain w' f' where r: "request_block pr junk (?w, ?f) = (w', f')" by fastforce
  have e: "fetchInstruction mf pr junk (w, f) = Inr (w', f')" using p r by (simp add: fetchInstruction_def)
  have n: "new_out f f' = new_out ?f f'" by (simp add: new_out_def)
  show ?thesis
  proof (cases "can_request pr ?f")
    case True
    from inv_request[OF i True r] e n show ?thesis by auto
  next
    case False
    from request_block_idle[OF False, of junk ?w] r have "w' = ?w" "f' = ?f" by simp_all
    with e i show ?thesis by (simp add: new_out_def)
  qed
qed

text \<open>A group is sent.\<close>

lemma send_inv:
  assumes inv: "fetch_inv mf pr k T R b q c w f"
  shows "\<exists>w' f'. sendInstructions pr (w, f) = Inr (w', f') \<and> fetch_inv mf pr k (T @ sent_of (new_out f f')) R b q c w' f'"
proof (cases "send_upper pr f = 0")
  case True
  with inv show ?thesis by (simp add: sendInstructions_idle new_out_def)
next
  case False
  then have up: "0 < send_upper pr f" by simp
  from inv have "ft_credits_inst_queue f < 4294967296" "ft_fetch_buffer_occupancy f = (b + blocks_in (w_inst w) (ft_fetch_buffer f)) mod 4294967296"
    by (simp_all add: fetch_inv_def credit_inv_def occupancy_inv_def)
  from sendInstructions_effect[OF up this] obtain ps rest w' f' where
    s: "sendInstructions pr (w, f) = Inr (w', f')" and fb: "ft_fetch_buffer f = ps @ rest" and n: "length ps \<le> send_upper pr f" and sp: "spec_eq w w'" and
    f': "f' = f\<lparr>ft_fetch_buffer := rest, ft_fetch_buffer_occupancy := (b + blocks_in (w_inst w) rest) mod 4294967296,
            ft_credits_inst_queue := ft_credits_inst_queue f - length ps, ft_out := ft_out f @ [OutFetchQueueWrite ps],
            ft_ev_send_insts := (if rest \<noteq> [] \<and> ft_credits_inst_queue f > length ps then sched 1 (ft_ev_send_insts f) else ft_ev_send_insts f),
            ft_ev_fetch_insts := sched 1 (ft_ev_fetch_insts f)\<rparr>" by blast
  note e = spec_eq_fields[OF sp]
  have sent: "sent_of (new_out f f') = ps" by (simp add: new_out_def f')
  have fl: "in_flight w' R = in_flight w R" by (rule in_flight_cong) (use sp in \<open>simp add: spec_eq_def\<close>)
  have pids: "prog_ids w' xs = prog_ids w xs" for xs by (rule prog_ids_cong) (rule e)
  have bl: "blocks_in (w_inst w') xs = blocks_in (w_inst w) xs" for xs by (rule blocks_in_cong) (rule e)
  have u: "unfetched (w_inst w' p) = unfetched (w_inst w p)" for p by (simp add: unfetched_def e)
  have o: "order_inv mf k (T @ ps) R w' f'" using inv fl pids fb by (auto simp: fetch_inv_def order_inv_def f' ft_holds_def)
  have st: "status_inv R w' f'" using inv fl fb u e sp by (simp add: fetch_inv_def status_inv_def f' spec_eq_def)
  have cr: "credit_inv q c f'" using inv n by (auto simp: fetch_inv_def credit_inv_def f' send_upper_def)
  have "fetch_inv mf pr k (T @ ps) R b q c w' f'"
    using o st cr inv fb bl by (simp add: fetch_inv_def occupancy_inv_def room_inv_def f')
  with s sent show ?thesis by auto
qed

text \<open>A response marks its group as fetched.\<close>

lemma mark_group:
  assumes "\<forall>p\<in>set ps. i_status (w_inst w p) = BEFORE_FETCH" and "distinct ps"
  shows "foldE mark_fetched w ps = Inr (w\<lparr>w_inst := (\<lambda>p. if p \<in> set ps then (w_inst w p)\<lparr>i_status := FETCHED\<rparr> else w_inst w p)\<rparr>)"
  using assms
proof (induction ps arbitrary: w)
  case (Cons p ps)
  let ?w = "upd_inst p ((w_inst w p)\<lparr>i_status := FETCHED\<rparr>) w"
  have "mark_fetched w p = Inr ?w" using Cons.prems by (simp add: mark_fetched_def setStatus_ok_iff less_Status_def)
  moreover have "foldE mark_fetched ?w ps = Inr (?w\<lparr>w_inst := (\<lambda>q. if q \<in> set ps then (w_inst ?w q)\<lparr>i_status := FETCHED\<rparr> else w_inst ?w q)\<rparr>)"
    using Cons.prems by (intro Cons.IH) (auto simp: upd_inst_def)
  ultimately show ?case using Cons.prems(2) by (auto simp: upd_inst_def fun_eq_iff intro!: arg_cong2[where f = w_inst_update])
qed simp

lemma inv_response_hit:
  assumes inv: "fetch_inv mf pr k T R b q c w f" and m: "m \<in> set R"
  defines "w1 \<equiv> w\<lparr>w_inst := (\<lambda>p. if p \<in> set (group_of w m) then (w_inst w p)\<lparr>i_status := FETCHED\<rparr> else w_inst w p)\<rparr>"
  shows "foldE mark_fetched w (group_of w m) = Inr w1 \<and> fetch_inv mf pr k T (remove1 m R) b q c w1 f"
proof -
  from inv have st: "status_inv R w f" by (simp add: fetch_inv_def)
  obtain R1 R2 where R: "R = R1 @ m # R2" "m \<notin> set R1" using split_list_first[OF m] by blast
  then have rm: "remove1 m R = R1 @ R2" by (simp add: remove1_append)
  have fl: "in_flight w R = in_flight w R1 @ group_of w m @ in_flight w R2" by (simp add: R in_flight_def)
  have fl1: "in_flight w1 S = in_flight w S" for S by (rule in_flight_cong) (simp add: w1_def)
  have "foldE mark_fetched w (group_of w m) = Inr w1"
    unfolding w1_def by (rule mark_group) (use st fl in \<open>auto simp: status_inv_def\<close>)
  moreover have pids: "prog_ids w1 xs = prog_ids w xs" for xs by (rule prog_ids_cong) (simp add: w1_def)
  moreover have "blocks_in (w_inst w1) xs = blocks_in (w_inst w) xs" for xs by (rule blocks_in_cong) (simp add: w1_def)
  moreover have "order_inv mf k T (R1 @ R2) w1 f" using inv fl fl1 pids by (auto simp: fetch_inv_def order_inv_def ft_holds_def)
  moreover have "status_inv (R1 @ R2) w1 f"
  proof -
    have "p \<notin> set (group_of w m)" if "p \<in> set (ft_ibuf f) \<union> set (in_flight w (R1 @ R2))" for p
      using st fl that by (auto simp: status_inv_def)
    then show ?thesis using st fl fl1 R(1) by (auto simp: status_inv_def w1_def)
  qed
  ultimately show ?thesis unfolding rm using inv by (simp add: fetch_inv_def occupancy_inv_def)
qed

lemma inv_cache_credit:
  "fetch_inv mf pr k T R b q c w f \<Longrightarrow> ft_credits_icache f + n < 4294967296 \<Longrightarrow> fetch_inv mf pr k T R b q (c + n) w (receiveCacheCredit n f)"
  by (simp add: fetch_inv_defs receiveCacheCredit_def schedule_fetch_def add32_exact ft_holds_def)

lemma inv_queue_credit:
  "fetch_inv mf pr k T R b q c w f \<Longrightarrow> ft_credits_inst_queue f + n < 4294967296 \<Longrightarrow> fetch_inv mf pr k T R b (q + n) c w (receiveFetchQueueCredits n f)"
  by (simp add: fetch_inv_defs receiveFetchQueueCredits_def schedule_send_def add32_exact ft_holds_def)

text \<open>A flush: the generator goes back to the instruction, both buffers are empty.\<close>

lemma inv_redirect:
  assumes inv: "fetch_inv mf pr k T R b q c w f"
    and j: "gen_src (ft_inst_generator f) (w_inst w (fc_inst cr)) = Some j" "j < length (gen_trace mf (ft_inst_generator f))"
      "i_program_id (w_inst w (fc_inst cr)) = j + 1" "gen_valid valid (ft_inst_generator f) j"
  shows "\<exists>f'. flushFetch valid (w_inst w) cr f = Inr f' \<and>
    fetch_inv mf pr (if fc_is_inclusive cr then j else j + 1) [] R (ft_fetch_buffer_occupancy f) q c w f' \<and>
    ft_fetch_buffer f' = [] \<and> ft_ev_fetch_insts f' \<noteq> []"
proof -
  from inv have g: "gen_ok (ft_inst_generator f)" by (simp add: fetch_inv_def order_inv_def)
  from gen.reset_to[OF g j, of "\<not> fc_is_inclusive cr"] obtain g' where g': "gen_reset valid (w_inst w (fc_inst cr)) (\<not> fc_is_inclusive cr) (ft_inst_generator f) = Inr g'"
    "gen_ok g'" "gen_trace mf g' = gen_trace mf (ft_inst_generator f)" "gen_pos g' = (if fc_is_inclusive cr then j else j + 1)"
    "gen_alloc g' = gen_alloc (ft_inst_generator f)" by (cases "fc_is_inclusive cr") auto
  have occ: "ft_fetch_buffer_occupancy f < 4294967296" using inv by (simp add: fetch_inv_def occupancy_inv_def)
  show ?thesis
    by (rule exI[of _ "schedule_fetch 1 ((ft_emit CancelFetchIcacheReq (ft_emit CancelFetchQueueWrite (f\<lparr>ft_inst_generator := g'\<rparr>)))
          \<lparr>ft_ibuf := [], ft_fetch_buffer := []\<rparr>)"])
      (use g' inv occ in \<open>auto simp: flushFetch_def fetch_inv_defs schedule_fetch_def ft_emit_def ft_holds_def prog_ids_def trace_ok_def\<close>)
qed

section \<open>Nothing is left asleep\<close>

definition send_wake :: "'a world_scheme \<Rightarrow> Fetch \<Rightarrow> bool" where
  "send_wake w f \<longleftrightarrow> (ft_fetch_buffer f \<noteq> [] \<and> i_status (w_inst w (hd (ft_fetch_buffer f))) = FETCHED \<and> ft_credits_inst_queue f > 0 \<longrightarrow>
     ft_ev_send_insts f \<noteq> [])"

definition at_end :: "mavis_facade \<Rightarrow> Fetch \<Rightarrow> bool" where
  "at_end mf f \<longleftrightarrow> ft_ibuf f = [] \<and> gen_pos (ft_inst_generator f) = length (gen_trace mf (ft_inst_generator f))"

definition fetch_wake :: "mavis_facade \<Rightarrow> Fetch \<Rightarrow> bool" where
  "fetch_wake mf f \<longleftrightarrow> (ft_fetch_buffer f = [] \<and> ft_credits_icache f > 0 \<longrightarrow> ft_ev_fetch_insts f \<noteq> [] \<or> at_end mf f)"

definition params_ok :: "FetchParameterSet \<Rightarrow> bool" where
  "params_ok pr \<longleftrightarrow> fp_num_to_fetch pr > 0 \<and> fp_block_width pr \<ge> 2"

lemma fetch_wakes:
  assumes inv: "fetch_inv mf pr k T R b q c w f" and mf: "mavis_fresh mf" and pr: "params_ok pr" and sw: "send_wake w f"
    and r: "fetchInstruction mf pr junk (w, f) = Inr (w', f')"
  shows "send_wake w' f' \<and> fetch_wake mf f'"
proof -
  from inv_prefill[OF inv mf] obtain g h buf where
    p: "prefill (getNextInst mf) (ibuf_capacity pr - length (ft_ibuf f)) (ft_inst_generator f, w_inst w, ft_ibuf f) = Inr (g, h, buf)" and
    i: "fetch_inv mf pr k T R b q c (w\<lparr>w_inst := h\<rparr>) (f\<lparr>ft_inst_generator := g, ft_ibuf := buf\<rparr>)" and
    same: "\<forall>p\<in>ft_holds w R f. h p = w_inst w p" and
    e: "buf = [] \<longrightarrow> ibuf_capacity pr = 0 \<or> gen_pos g = length (gen_trace mf g)" by blast
  let ?w = "w\<lparr>w_inst := h\<rparr>" and ?f = "f\<lparr>ft_inst_generator := g, ft_ibuf := buf\<rparr>"
  have r': "request_block pr junk (?w, ?f) = (w', f')" using r p by (simp add: fetchInstruction_def)
  have s: "send_wake ?w ?f" using sw same by (auto simp: send_wake_def ft_holds_def)
  show ?thesis
  proof (cases "can_request pr ?f")
    case True
    from request_block_effect[OF True, of junk ?w] r' obtain grp ib where
      ib: "buf = grp @ ib" "grp \<noteq> []" and wi: "w_inst w' = h(last grp := setLastInFetchBlock True (h (last grp)))" and
      f': "ft_fetch_buffer f' = ft_fetch_buffer f @ grp" "ft_ev_send_insts f' = ft_ev_send_insts f"
        "ft_credits_inst_queue f' = ft_credits_inst_queue f" by auto
    have st: "i_status (w_inst w' x) = i_status (h x)" for x by (simp add: wi setLastInFetchBlock_def)
    have "i_status (h (hd grp)) = BEFORE_FETCH" using i ib by (simp add: fetch_inv_def status_inv_def unfetched_def)
    with s f' st ib(2) show ?thesis by (cases "ft_fetch_buffer f") (auto simp: send_wake_def fetch_wake_def)
  next
    case False
    from request_block_idle[OF False, of junk ?w] r' have "w' = ?w" "f' = ?f" by simp_all
    moreover have "at_end mf ?f" if "ft_fetch_buffer f = []" "ft_credits_icache f > 0"
      using False that e pr by (auto simp: can_request_def at_end_def params_ok_def ibuf_capacity_def)
    ultimately show ?thesis using s by (auto simp: fetch_wake_def)
  qed
qed

lemma send_wakes:
  assumes inv: "fetch_inv mf pr k T R b q c w f" and pr: "params_ok pr" and fw: "fetch_wake mf f"
    and r: "sendInstructions pr (w, f) = Inr (w', f')"
  shows "send_wake w' f' \<and> fetch_wake mf f'"
proof (cases "send_upper pr f = 0")
  case True
  then have "ft_fetch_buffer f = [] \<or> ft_credits_inst_queue f = 0" using pr by (auto simp: send_upper_def params_ok_def min_def split: if_splits)
  with True r fw show ?thesis by (auto simp: sendInstructions_idle send_wake_def)
next
  case False
  then have up: "0 < send_upper pr f" by simp
  from inv have "ft_credits_inst_queue f < 4294967296" "ft_fetch_buffer_occupancy f = (b + blocks_in (w_inst w) (ft_fetch_buffer f)) mod 4294967296"
    by (simp_all add: fetch_inv_def credit_inv_def occupancy_inv_def)
  from sendInstructions_effect[OF up this] r show ?thesis by (auto simp: send_wake_def fetch_wake_def)
qed

lemma response_cases:
  assumes inv: "fetch_inv mf pr k T R b q c w f" and m: "m \<in> set R"
  shows "\<exists>w' f'. receiveCacheResponse m (w, f) = Inr (w', f') \<and>
    fetch_inv mf pr k T (if mi_cache_access_state (w_mai w m) = CS_HIT then remove1 m R else R) b q c w' f' \<and>
    (fetch_wake mf f \<longrightarrow> fetch_wake mf f') \<and> (send_wake w f \<longrightarrow> send_wake w' f')"
proof -
  from inv m obtain grp where g: "mi_fetch_group (w_mai w m) = Some grp" by (auto simp: fetch_inv_def status_inv_def)
  then have grp: "group_of w m = grp" by (simp add: group_of_def)
  show ?thesis
  proof (cases "mi_cache_access_state (w_mai w m) = CS_HIT")
    case True
    from inv_response_hit[OF inv m] g grp True show ?thesis
      by (auto simp: receiveCacheResponse_def schedule_send_def send_wake_def fetch_wake_def at_end_def)
  next
    case False
    with g inv show ?thesis by (simp add: receiveCacheResponse_def)
  qed
qed

lemma tick_keeps:
  "fetch_inv mf pr k T R b q c w f \<Longrightarrow> fetch_inv mf pr k T R b q c w (ft_tick f)"
  "send_wake w f \<Longrightarrow> send_wake w (ft_tick f)" "fetch_wake mf f \<Longrightarrow> fetch_wake mf (ft_tick f)"
  by (simp_all add: ft_tick_def fetch_inv_defs ft_holds_def send_wake_def fetch_wake_def at_end_def)

lemma fetch_reach_inv:
  assumes "fetch_reach mf valid pr k T R b q c w f" and mf: "mavis_fresh mf" and pr: "params_ok pr"
  shows "fetch_inv mf pr k T R b q c w f \<and> send_wake w f \<and> fetch_wake mf f"
  using assms(1)
proof induction
  case (start pj os a fn g w)
  then show ?case using ft_inv_start[OF start, of pr w]
    by (simp add: ft_initialize_def schedule_fetch_def mk_Fetch_def send_wake_def fetch_wake_def)
next
  case (environment k T R b q c w f w')
  then show ?case using ft_inv_environment[of mf pr k T R b q c w f w']
    by (auto simp: send_wake_def env_fetch_def ft_holds_def)
next
  case (fetch k T R b q c w f junk w' f')
  let ?f = "f\<lparr>ft_ev_fetch_insts := removeAll 0 (ft_ev_fetch_insts f)\<rparr>"
  have i: "fetch_inv mf pr k T R b q c w ?f" and s: "send_wake w ?f" using fetch.IH by (simp_all add: send_wake_def)
  from fetchInstruction_inv[OF i mf, of junk] fetch.hyps(3) fetch_wakes[OF i mf pr s fetch.hyps(3)]
  show ?case by (auto simp: new_out_def)
next
  case (send k T R b q c w f w' f')
  let ?f = "f\<lparr>ft_ev_send_insts := removeAll 0 (ft_ev_send_insts f)\<rparr>"
  have i: "fetch_inv mf pr k T R b q c w ?f" and s: "fetch_wake mf ?f" using send.IH by (simp_all add: fetch_wake_def at_end_def)
  from send_inv[OF i] send.hyps(3) send_wakes[OF i pr s send.hyps(3)]
  show ?case by (auto simp: new_out_def)
next
  case (response k T R b q c w f m w' f')
  then show ?case using response_cases[of mf pr k T R b q c w f m] by auto
next
  case (cache_credit k T R b q c w f n)
  then show ?case using inv_cache_credit[of mf pr k T R b q c w f n]
    by (simp add: send_wake_def fetch_wake_def receiveCacheCredit_def schedule_fetch_def)
next
  case (queue_credit k T R b q c w f n)
  then show ?case using inv_queue_credit[of mf pr k T R b q c w f n]
    by (simp add: send_wake_def fetch_wake_def at_end_def receiveFetchQueueCredits_def schedule_send_def)
next
  case (redirect k T R b q c w f cr j f')
  then show ?case using inv_redirect[OF _ redirect.hyps(2-5)] by (fastforce simp: send_wake_def fetch_wake_def)
next
  case (cycle k T R b q c w f)
  then show ?case by (simp add: tick_keeps)
qed

section \<open>Properties\<close>

text \<open>C10. The fetch unit delivers the trace in program order. In every reachable state, over any number of flushes: the
  instructions sent since the last redirection, then the fetch buffer, then the trace buffer carry consecutive program
  identifiers from the redirection target up to the position reached in the trace, so nothing is lost, repeated or
  reordered. No handler fails: reading and requesting a block, sending a group, and a response to any outstanding
  request. Credits left and instructions sent are the credits decode granted, credits left and requests sent are the
  credits of the cache. The occupancy counter is the number of blocks in the buffer plus the blocks that were in it
  when the last flush cleared it (which the code never takes off), and both buffers keep their bounds.\<close>

theorem fetch_in_program_order:
  assumes "fetch_reach mf valid pr k T R b q c w f" and "mavis_fresh mf" and "params_ok pr"
  shows "map (\<lambda>p. i_program_id (w_inst w p)) (T @ ft_fetch_buffer f @ ft_ibuf f) = [k + 1 ..< gen_pos (ft_inst_generator f) + 1] \<and>
    is_ok (fetchInstruction mf pr junk (w, f)) \<and> is_ok (sendInstructions pr (w, f)) \<and> (\<forall>m\<in>set R. is_ok (receiveCacheResponse m (w, f))) \<and>
    ft_credits_inst_queue f + length (sent_of (ft_out f)) = q \<and> ft_credits_icache f + length (reqs_of (ft_out f)) = c \<and>
    ft_fetch_buffer_occupancy f = (b + blocks_in (w_inst w) (ft_fetch_buffer f)) mod 4294967296 \<and>
    length (ft_ibuf f) \<le> ibuf_capacity pr \<and> length (ft_fetch_buffer f) \<le> fp_fetch_buffer_size pr + ibuf_capacity pr"
proof -
  from fetch_reach_inv[OF assms] have inv: "fetch_inv mf pr k T R b q c w f" by simp
  have "is_ok (fetchInstruction mf pr junk (w, f))" "is_ok (sendInstructions pr (w, f))"
    using fetchInstruction_inv[OF inv assms(2), of junk] send_inv[OF inv] by (auto simp: is_ok_iff)
  moreover have "\<forall>m\<in>set R. is_ok (receiveCacheResponse m (w, f))" using response_cases[OF inv] by (fastforce simp: is_ok_iff)
  ultimately show ?thesis using inv
    by (simp add: fetch_inv_def order_inv_def prog_ids_def credit_inv_def occupancy_inv_def room_inv_def)
qed

text \<open>C40. What the fetch unit sends, and that it goes on. In every reachable state a send with credits and a non-empty
  buffer writes one group, the front of the buffer: only instructions whose block has arrived, a change of flow only as
  its first member, a taken branch only as its last; the group is as long as credits, width and buffer allow unless
  it ends at a taken branch, before a change of flow or before an instruction that has not arrived. Such a send also
  schedules the fetch event. A sendable instruction with a credit has the send event scheduled; an empty buffer with a
  cache credit has the fetch event scheduled unless the trace has ended. While the buffer holds instructions nothing
  more is claimed of the fetch event: with the occupancy at its capacity, which after a flush counts the blocks of the
  cleared buffer too (the excess \<open>b\<close>), only the next send schedules it.\<close>

theorem fetch_groups_and_progress:
  assumes "fetch_reach mf valid pr k T R b q c w f" and "mavis_fresh mf" and "params_ok pr"
  shows "(ft_credits_inst_queue f > 0 \<and> ft_fetch_buffer f \<noteq> [] \<longrightarrow>
      (\<exists>ps rest w' f'. sendInstructions pr (w, f) = Inr (w', f') \<and> ft_out f' = ft_out f @ [OutFetchQueueWrite ps] \<and>
         ft_fetch_buffer f = ps @ rest \<and> ft_fetch_buffer f' = rest \<and> length ps \<le> min (ft_credits_inst_queue f) (fp_num_to_fetch pr) \<and>
         send_group (w_inst w) ps \<and> group_ends (w_inst w) (send_upper pr f) ps rest \<and> ft_ev_fetch_insts f' \<noteq> [])) \<and>
    (ft_fetch_buffer f \<noteq> [] \<and> i_status (w_inst w (hd (ft_fetch_buffer f))) = FETCHED \<and> ft_credits_inst_queue f > 0 \<longrightarrow>
       ft_ev_send_insts f \<noteq> []) \<and>
    (ft_fetch_buffer f = [] \<and> ft_credits_icache f > 0 \<and> \<not> at_end mf f \<longrightarrow> ft_ev_fetch_insts f \<noteq> [])"
proof -
  from fetch_reach_inv[OF assms] have inv: "fetch_inv mf pr k T R b q c w f" and wk: "send_wake w f" "fetch_wake mf f" by simp_all
  have "\<exists>ps rest w' f'. sendInstructions pr (w, f) = Inr (w', f') \<and> ft_out f' = ft_out f @ [OutFetchQueueWrite ps] \<and>
         ft_fetch_buffer f = ps @ rest \<and> ft_fetch_buffer f' = rest \<and> length ps \<le> min (ft_credits_inst_queue f) (fp_num_to_fetch pr) \<and>
         send_group (w_inst w) ps \<and> group_ends (w_inst w) (send_upper pr f) ps rest \<and> ft_ev_fetch_insts f' \<noteq> []"
    if "ft_credits_inst_queue f > 0" "ft_fetch_buffer f \<noteq> []"
  proof -
    from that assms(3) have up: "0 < send_upper pr f" by (simp add: send_upper_def params_ok_def)
    from inv have "ft_credits_inst_queue f < 4294967296" "ft_fetch_buffer_occupancy f = (b + blocks_in (w_inst w) (ft_fetch_buffer f)) mod 4294967296"
      by (simp_all add: fetch_inv_def credit_inv_def occupancy_inv_def)
    from sendInstructions_effect[OF up this] obtain ps rest w' f' where
      s: "sendInstructions pr (w, f) = Inr (w', f')" "ft_fetch_buffer f = ps @ rest" "length ps \<le> send_upper pr f" "send_group (w_inst w) ps"
        "group_ends (w_inst w) (send_upper pr f) ps rest" "ft_out f' = ft_out f @ [OutFetchQueueWrite ps]" "ft_fetch_buffer f' = rest"
        "ft_ev_fetch_insts f' = sched 1 (ft_ev_fetch_insts f)" by fastforce
    moreover from this(8) have "ft_ev_fetch_insts f' \<noteq> []" by (auto simp: sched_def)
    ultimately have s: "sendInstructions pr (w, f) = Inr (w', f')" "ft_fetch_buffer f = ps @ rest" "length ps \<le> send_upper pr f"
        "send_group (w_inst w) ps" "group_ends (w_inst w) (send_upper pr f) ps rest" "ft_out f' = ft_out f @ [OutFetchQueueWrite ps]"
        "ft_fetch_buffer f' = rest" "ft_ev_fetch_insts f' \<noteq> []" by blast+
    then have "length ps \<le> min (ft_credits_inst_queue f) (fp_num_to_fetch pr)" by (simp add: send_upper_def)
    with s show ?thesis by blast
  qed
  with wk show ?thesis by (auto simp: send_wake_def fetch_wake_def)
qed

definition ex_fetch_params :: FetchParameterSet where
  "ex_fetch_params = \<lparr>fp_num_to_fetch = 4, fp_block_width = 16, fp_fetch_buffer_size = 8,
     fp_floor_log2 = (\<lambda>n. floorlog 2 n - 1)\<rparr>"

definition ex_fetch :: Fetch where
  "ex_fetch = receiveCacheCredit 1 (ft_initialize (mk_Fetch ex_gen))"

lemma ex_fetch_ok: "mavis_fresh ex_facade" "params_ok ex_fetch_params"
  by (auto simp: mavis_fresh_def ex_facade_def ex_mavis_def unfetched_def sample_Inst_def params_ok_def ex_fetch_params_def)

lemma ex_fetch_reach: "fetch_reach ex_facade (\<lambda>_ _. True) ex_fetch_params 0 [] [] 0 0 1 sample_ic_world ex_fetch"
proof -
  have "fetch_reach ex_facade (\<lambda>_ _. True) ex_fetch_params 0 [] [] 0 0 (0 + 1) sample_ic_world ex_fetch"
    unfolding ex_fetch_def
    by (rule cache_credit[OF start[OF ex_gen_created ex_gen_ok]]) (simp add: ft_initialize_def schedule_fetch_def mk_Fetch_def)
  then show ?thesis by simp
qed

theorem fetch_in_program_order_witness:
  "\<exists>w f. fetchInstruction ex_facade ex_fetch_params False
       (sample_ic_world, ex_fetch\<lparr>ft_ev_fetch_insts := removeAll 0 (ft_ev_fetch_insts ex_fetch)\<rparr>) = Inr (w, f) \<and>
     map (\<lambda>p. i_program_id (w_inst w p)) (ft_fetch_buffer f @ ft_ibuf f) = [1 ..< gen_pos (ft_inst_generator f) + 1] \<and>
     ft_credits_icache f + length (reqs_of (ft_out f)) = 1 \<and> is_ok (sendInstructions ex_fetch_params (w, f))"
proof -
  let ?f = "ex_fetch\<lparr>ft_ev_fetch_insts := removeAll 0 (ft_ev_fetch_insts ex_fetch)\<rparr>"
  have ev: "0 \<in> set (ft_ev_fetch_insts ex_fetch)"
    by (simp add: ex_fetch_def receiveCacheCredit_def schedule_fetch_def sched_def ft_initialize_def mk_Fetch_def)
  have "fetch_inv ex_facade ex_fetch_params 0 [] [] 0 0 1 sample_ic_world ?f"
    using fetch_reach_inv[OF ex_fetch_reach ex_fetch_ok] by simp
  from fetchInstruction_inv[OF this ex_fetch_ok(1), of False] obtain w f where
    r: "fetchInstruction ex_facade ex_fetch_params False (sample_ic_world, ?f) = Inr (w, f)" by blast
  from fetch_in_program_order[OF fetch_reach.fetch[OF ex_fetch_reach ev r] ex_fetch_ok] r show ?thesis by auto
qed

theorem fetch_groups_and_progress_witness:
  "ft_fetch_buffer ex_fetch = [] \<and> ft_credits_icache ex_fetch = 1 \<and> \<not> at_end ex_facade ex_fetch \<and> ft_ev_fetch_insts ex_fetch \<noteq> []"
proof -
  have "ft_fetch_buffer ex_fetch = []" "ft_credits_icache ex_fetch = 1" "\<not> at_end ex_facade ex_fetch"
    by (simp_all add: ex_fetch_def receiveCacheCredit_def schedule_fetch_def ft_initialize_def mk_Fetch_def add32_def at_end_def ex_gen_def
        mk_JSONInstGenerator_def jg_trace_def ex_json_def)
  with fetch_groups_and_progress[OF ex_fetch_reach ex_fetch_ok] show ?thesis by simp
qed

end
