(* ===== verification/L2CacheUnit.thy ===== *)
theory L2CacheUnit
  imports FetchUnit CacheModel
begin

text \<open>
  The L2 cache (\<open>mss/L2Cache.hpp\<close>, \<open>L2Cache.cpp\<close>): the request queues of the two first-level caches, the arbitration, the
  request queue and the pipeline, the buffer of pending misses, and the queues to and from the bus interface.

  A handler takes the store of the memory accesses beside the state of the unit. An event is the list of delays it is
  scheduled with. A request appended to the Sparta pipeline enters its first stage in the next cycle: \<open>l2_pipeline_in\<close>.
\<close>

record L2CacheParameterSet =
  lp_dcache_req_queue_size :: nat
  lp_dcache_resp_queue_size :: nat
  lp_icache_req_queue_size :: nat
  lp_icache_resp_queue_size :: nat
  lp_biu_req_queue_size :: nat
  lp_biu_resp_queue_size :: nat
  lp_pipeline_req_queue_size :: nat
  lp_miss_pending_buffer_size :: nat
  lp_l2_line_size :: nat
  lp_l2_always_hit :: bool
  lp_l2cache_latency :: nat
  lp_is_icache_connected :: bool
  lp_is_dcache_connected :: bool

datatype l2_event =
    OutBiuReq mptr
  | OutIcacheResp mptr
  | OutDcacheResp mptr
  | OutIcacheCredits nat
  | OutDcacheCredits nat

datatype Channel = CH_NO_ACCESS | CH_BIU | CH_ICACHE | CH_DCACHE

record 'c L2Cache =
  l2_dcache_req_queue :: "mptr list"
  l2_icache_req_queue :: "mptr list"
  l2_biu_req_queue :: "mptr list"
  l2_biu_resp_queue :: "mptr list"
  l2_dcache_resp_queue :: "mptr list"
  l2_icache_resp_queue :: "mptr list"
  l2_pipeline_in :: "mptr option"
  l2_pipeline :: "mptr option list"
  l2_pipeline_req_queue :: "mptr list"
  l2_inFlight_reqs :: nat
  l2_miss_pending_buffer :: "mptr list"
  l2_cache :: 'c
  l2_biu_credits :: nat
  l2_channel_select :: Channel
  l2_ev_dcache_req :: "nat list"
  l2_ev_icache_req :: "nat list"
  l2_ev_icache_resp :: "nat list"
  l2_ev_dcache_resp :: "nat list"
  l2_ev_biu_req :: "nat list"
  l2_ev_biu_resp :: "nat list"
  l2_ev_create_req :: "nat list"
  l2_ev_issue_req :: "nat list"
  l2_out :: "l2_event list"

text \<open>The stages of the pipeline.\<close>

definition L2_NUM_STAGES :: "L2CacheParameterSet \<Rightarrow> nat" where
  "L2_NUM_STAGES pr = lp_l2cache_latency pr"

definition L2_HIT_MISS_HANDLING :: "L2CacheParameterSet \<Rightarrow> nat" where
  "L2_HIT_MISS_HANDLING pr = L2_NUM_STAGES pr - 1"

definition L2_CACHE_LOOKUP :: "L2CacheParameterSet \<Rightarrow> nat" where
  "L2_CACHE_LOOKUP pr = L2_HIT_MISS_HANDLING pr - 1"

text \<open>\<open>log2\<close> of the line size, truncated to an integer by the initialisation of \<open>shiftBy_\<close>.\<close>

fun log2_trunc :: "nat \<Rightarrow> nat" where
  "log2_trunc n = (if n < 2 then 0 else log2_trunc (n div 2) + 1)"

declare log2_trunc.simps [simp del]

definition shiftBy :: "L2CacheParameterSet \<Rightarrow> nat" where
  "shiftBy pr = log2_trunc (lp_l2_line_size pr)"

definition mk_L2Cache :: "L2CacheParameterSet \<Rightarrow> 'c \<Rightarrow> 'c L2Cache" where
  "mk_L2Cache pr c =
     \<lparr>l2_dcache_req_queue = [], l2_icache_req_queue = [], l2_biu_req_queue = [], l2_biu_resp_queue = [], l2_dcache_resp_queue = [],
      l2_icache_resp_queue = [], l2_pipeline_in = None, l2_pipeline = replicate (L2_NUM_STAGES pr) None, l2_pipeline_req_queue = [],
      l2_inFlight_reqs = 0, l2_miss_pending_buffer = [], l2_cache = c, l2_biu_credits = 0, l2_channel_select = CH_ICACHE,
      l2_ev_dcache_req = [], l2_ev_icache_req = [], l2_ev_icache_resp = [], l2_ev_dcache_resp = [], l2_ev_biu_req = [],
      l2_ev_biu_resp = [], l2_ev_create_req = [], l2_ev_issue_req = [], l2_out = []\<rparr>"

definition l2_emit :: "l2_event \<Rightarrow> 'c L2Cache \<Rightarrow> 'c L2Cache" where
  "l2_emit e s = s\<lparr>l2_out := l2_out s @ [e]\<rparr>"

definition schedule_create_req :: "nat \<Rightarrow> 'c L2Cache \<Rightarrow> 'c L2Cache" where
  "schedule_create_req n s = s\<lparr>l2_ev_create_req := sched n (l2_ev_create_req s)\<rparr>"

definition schedule_issue_req :: "nat \<Rightarrow> 'c L2Cache \<Rightarrow> 'c L2Cache" where
  "schedule_issue_req n s = s\<lparr>l2_ev_issue_req := sched n (l2_ev_issue_req s)\<rparr>"

section \<open>Ports\<close>

definition l2_sendInitialCredits :: "L2CacheParameterSet \<Rightarrow> 'c L2Cache \<Rightarrow> 'c L2Cache" where
  "l2_sendInitialCredits pr s =
     (let s1 = (if lp_is_icache_connected pr then l2_emit (OutIcacheCredits (lp_icache_req_queue_size pr)) s else s)
      in if lp_is_dcache_connected pr then l2_emit (OutDcacheCredits (lp_dcache_req_queue_size pr)) s1 else s1)"

definition appendDCacheReqQueue :: "L2CacheParameterSet \<Rightarrow> mptr \<Rightarrow> 'c L2Cache \<Rightarrow> 'c L2Cache result" where
  "appendDCacheReqQueue pr m s =
     bindE (assertE (length (l2_dcache_req_queue s) \<le> lp_dcache_req_queue_size pr) ''DCache request queue overflows!'') (\<lambda>_.
       Inr (s\<lparr>l2_dcache_req_queue := l2_dcache_req_queue s @ [m]\<rparr>))"

definition appendICacheReqQueue :: "L2CacheParameterSet \<Rightarrow> mptr \<Rightarrow> 'c L2Cache \<Rightarrow> 'c L2Cache result" where
  "appendICacheReqQueue pr m s =
     bindE (assertE (length (l2_icache_req_queue s) \<le> lp_icache_req_queue_size pr) ''ICache request queue overflows!'') (\<lambda>_.
       Inr (s\<lparr>l2_icache_req_queue := l2_icache_req_queue s @ [m]\<rparr>))"

definition appendBIURespQueue :: "L2CacheParameterSet \<Rightarrow> mptr \<Rightarrow> 'c L2Cache \<Rightarrow> 'c L2Cache result" where
  "appendBIURespQueue pr m s =
     bindE (assertE (length (l2_biu_resp_queue s) \<le> lp_biu_resp_queue_size pr) ''BIU resp queue overflows!'') (\<lambda>_.
       Inr (s\<lparr>l2_biu_resp_queue := l2_biu_resp_queue s @ [m]\<rparr>))"

definition appendDCacheRespQueue :: "L2CacheParameterSet \<Rightarrow> mptr \<Rightarrow> 'c L2Cache \<Rightarrow> 'c L2Cache result" where
  "appendDCacheRespQueue pr m s =
     bindE (assertE (length (l2_dcache_resp_queue s) \<le> lp_dcache_resp_queue_size pr) ''DCache resp queue overflows!'') (\<lambda>_.
       Inr (s\<lparr>l2_dcache_resp_queue := l2_dcache_resp_queue s @ [m], l2_ev_dcache_resp := sched 0 (l2_ev_dcache_resp s)\<rparr>))"

definition appendICacheRespQueue :: "L2CacheParameterSet \<Rightarrow> mptr \<Rightarrow> 'c L2Cache \<Rightarrow> 'c L2Cache result" where
  "appendICacheRespQueue pr m s =
     bindE (assertE (length (l2_icache_resp_queue s) \<le> lp_icache_resp_queue_size pr) ''ICache resp queue overflows!'') (\<lambda>_.
       Inr (s\<lparr>l2_icache_resp_queue := l2_icache_resp_queue s @ [m], l2_ev_icache_resp := sched 0 (l2_ev_icache_resp s)\<rparr>))"

definition appendBIUReqQueue :: "L2CacheParameterSet \<Rightarrow> mptr \<Rightarrow> 'c L2Cache \<Rightarrow> 'c L2Cache result" where
  "appendBIUReqQueue pr m s =
     bindE (assertE (length (l2_biu_req_queue s) \<le> lp_biu_req_queue_size pr) ''BIU req queue overflows!'') (\<lambda>_.
       Inr (s\<lparr>l2_biu_req_queue := l2_biu_req_queue s @ [m], l2_ev_biu_req := sched 0 (l2_ev_biu_req s)\<rparr>))"

definition getReqFromDCache :: "L2CacheParameterSet \<Rightarrow> mptr \<Rightarrow> 'c L2Cache \<Rightarrow> 'c L2Cache result" where
  "getReqFromDCache pr m s =
     bindE (appendDCacheReqQueue pr m s) (\<lambda>s1. Inr (s1\<lparr>l2_ev_dcache_req := sched 0 (l2_ev_dcache_req s1)\<rparr>))"

definition getReqFromICache :: "L2CacheParameterSet \<Rightarrow> mptr \<Rightarrow> 'c L2Cache \<Rightarrow> 'c L2Cache result" where
  "getReqFromICache pr m s =
     bindE (appendICacheReqQueue pr m s) (\<lambda>s1. Inr (s1\<lparr>l2_ev_icache_req := sched 0 (l2_ev_icache_req s1)\<rparr>))"

definition getRespFromBIU :: "L2CacheParameterSet \<Rightarrow> mptr \<Rightarrow> 'c L2Cache \<Rightarrow> 'c L2Cache result" where
  "getRespFromBIU pr m s =
     bindE (appendBIURespQueue pr m s) (\<lambda>s1.
       if length (l2_biu_resp_queue s1) \<le> lp_biu_resp_queue_size pr
       then Inr (s1\<lparr>l2_ev_biu_resp := sched 0 (l2_ev_biu_resp s1)\<rparr>)
       else Inl (SpartaAssert ''This request cannot be serviced right now''))"

definition getCreditsFromBIU :: "nat \<Rightarrow> 'c L2Cache \<Rightarrow> 'c L2Cache" where
  "getCreditsFromBIU credits s = schedule_issue_req 1 (s\<lparr>l2_biu_credits := add32 (l2_biu_credits s) credits\<rparr>)"

definition handle_DCache_L2Cache_Req :: "'c L2Cache \<Rightarrow> 'c L2Cache" where
  "handle_DCache_L2Cache_Req s = (if l2_dcache_req_queue s \<noteq> [] then schedule_create_req 0 s else s)"

definition handle_ICache_L2Cache_Req :: "'c L2Cache \<Rightarrow> 'c L2Cache" where
  "handle_ICache_L2Cache_Req s = (if l2_icache_req_queue s \<noteq> [] then schedule_create_req 0 s else s)"

definition handle_BIU_L2Cache_Resp :: "'c L2Cache \<Rightarrow> 'c L2Cache" where
  "handle_BIU_L2Cache_Resp s = (if l2_biu_resp_queue s \<noteq> [] then schedule_create_req 0 s else s)"

definition handle_L2Cache_BIU_Req :: "'c L2Cache \<Rightarrow> 'c L2Cache" where
  "handle_L2Cache_BIU_Req s =
     (if l2_biu_credits s > 0 \<and> l2_biu_req_queue s \<noteq> []
      then (l2_emit (OutBiuReq (hd (l2_biu_req_queue s))) s)
             \<lparr>l2_biu_credits := l2_biu_credits s - 1, l2_biu_req_queue := tl (l2_biu_req_queue s)\<rparr>
      else s\<lparr>l2_ev_biu_req := sched 1 (l2_ev_biu_req s)\<rparr>)"

definition handle_L2Cache_DCache_Resp :: "'c L2Cache \<Rightarrow> 'c L2Cache result" where
  "handle_L2Cache_DCache_Resp s =
     (case l2_dcache_resp_queue s of
        [] \<Rightarrow> Inl (UndefinedBehaviour ''front of an empty vector'')
      | m # rest \<Rightarrow> Inr ((l2_emit (OutDcacheResp m) s)\<lparr>l2_dcache_resp_queue := rest\<rparr>))"

definition handle_L2Cache_ICache_Resp :: "'c L2Cache \<Rightarrow> 'c L2Cache result" where
  "handle_L2Cache_ICache_Resp s =
     (case l2_icache_resp_queue s of
        [] \<Rightarrow> Inl (UndefinedBehaviour ''front of an empty vector'')
      | m # rest \<Rightarrow> Inr ((l2_emit (OutIcacheResp m) s)\<lparr>l2_icache_resp_queue := rest\<rparr>))"

section \<open>Arbitration\<close>

definition getCacheLine :: "L2CacheParameterSet \<Rightarrow> 'a world_scheme \<Rightarrow> mptr \<Rightarrow> 64 word" where
  "getCacheLine pr w m = drop_bit (shiftBy pr) (mi_paddr (w_mai w m))"

definition arbitrateL2CacheAccessReqs :: "L2CacheParameterSet \<Rightarrow> 'c L2Cache \<Rightarrow> (Channel \<times> 'c L2Cache) result" where
  "arbitrateL2CacheAccessReqs pr s =
     bindE (assertE (l2_icache_req_queue s \<noteq> [] \<or> l2_dcache_req_queue s \<noteq> [] \<or> l2_biu_resp_queue s \<noteq> [])
              ''Arbitration failed: Reqest queues are empty!'') (\<lambda>_.
       if length (l2_pipeline_req_queue s) = lp_pipeline_req_queue_size pr then Inr (CH_NO_ACCESS, s)
       else if l2_biu_resp_queue s \<noteq> [] then Inr (CH_BIU, s)
       else if l2_channel_select s = CH_ICACHE
            then Inr (if l2_icache_req_queue s \<noteq> [] then CH_ICACHE else CH_NO_ACCESS, s\<lparr>l2_channel_select := CH_DCACHE\<rparr>)
       else if l2_channel_select s = CH_DCACHE
            then Inr (if l2_dcache_req_queue s \<noteq> [] then CH_DCACHE else CH_NO_ACCESS, s\<lparr>l2_channel_select := CH_ICACHE\<rparr>)
       else Inl (SpartaAssert ''Illegal else : Why is channel_select_ incorrectly set?''))"

text \<open>The first pending miss of the line that arrived goes back to the pipeline; after the last one the response is done.\<close>

definition create_reload :: "L2CacheParameterSet \<Rightarrow> 'a world_scheme \<times> 'c L2Cache \<Rightarrow> 'a world_scheme \<times> 'c L2Cache" where
  "create_reload pr ws =
     (case ws of (w, s) \<Rightarrow>
        let other = (\<lambda>m. getCacheLine pr w m \<noteq> getCacheLine pr w (hd (l2_biu_resp_queue s))) in
        case dropWhile other (l2_miss_pending_buffer s) of
          [] \<Rightarrow> (w, s)
        | m # rest \<Rightarrow>
            (upd_mai m (\<lambda>a. a\<lparr>mi_dest := mi_src a, mi_src := AU_BIU, mi_cache_access_state := CS_RELOAD\<rparr>) w,
             s\<lparr>l2_pipeline_req_queue := (if length (l2_pipeline_req_queue s) < lp_pipeline_req_queue_size pr
                                          then l2_pipeline_req_queue s @ [m] else l2_pipeline_req_queue s),
               l2_biu_resp_queue := (if dropWhile other rest = [] then tl (l2_biu_resp_queue s) else l2_biu_resp_queue s),
               l2_miss_pending_buffer := takeWhile other (l2_miss_pending_buffer s) @ rest\<rparr>))"

text \<open>A request of a first-level cache is copied; the copy remembers where it came from.\<close>

definition create_copy :: "ArchUnit \<Rightarrow> mptr \<Rightarrow> 'a world_scheme \<Rightarrow> mptr \<times> 'a world_scheme" where
  "create_copy unit m w =
     (case copy_access m w of (n, w1) \<Rightarrow> (n, upd_mai n (\<lambda>a. a\<lparr>mi_src := unit, mi_dest := unit\<rparr>) w1))"

definition create_icache :: "'a world_scheme \<times> 'c L2Cache \<Rightarrow> 'a world_scheme \<times> 'c L2Cache" where
  "create_icache ws =
     (case ws of (w, s) \<Rightarrow>
        case create_copy AU_ICACHE (hd (l2_icache_req_queue s)) w of (n, w1) \<Rightarrow>
          (w1, l2_emit (OutIcacheCredits 1)
                 (s\<lparr>l2_pipeline_req_queue := l2_pipeline_req_queue s @ [n], l2_icache_req_queue := tl (l2_icache_req_queue s)\<rparr>)))"

definition create_dcache :: "'a world_scheme \<times> 'c L2Cache \<Rightarrow> 'a world_scheme \<times> 'c L2Cache" where
  "create_dcache ws =
     (case ws of (w, s) \<Rightarrow>
        case create_copy AU_DCACHE (hd (l2_dcache_req_queue s)) w of (n, w1) \<Rightarrow>
          (w1, l2_emit (OutDcacheCredits 1)
                 (s\<lparr>l2_pipeline_req_queue := l2_pipeline_req_queue s @ [n], l2_dcache_req_queue := tl (l2_dcache_req_queue s)\<rparr>)))"

definition create_Req :: "L2CacheParameterSet \<Rightarrow> 'a world_scheme \<times> 'c L2Cache \<Rightarrow> ('a world_scheme \<times> 'c L2Cache) result" where
  "create_Req pr ws =
     (case ws of (w, s) \<Rightarrow>
        bindE (arbitrateL2CacheAccessReqs pr s) (\<lambda>(winner, s1).
          let (w2, s2) = (case winner of
                            CH_BIU \<Rightarrow> create_reload pr (w, s1)
                          | CH_ICACHE \<Rightarrow> create_icache (w, s1)
                          | CH_DCACHE \<Rightarrow> create_dcache (w, s1)
                          | CH_NO_ACCESS \<Rightarrow> (w, schedule_create_req 1 s1));
              s3 = schedule_issue_req 1 s2
          in Inr (w2, if l2_biu_resp_queue s3 \<noteq> [] \<or> l2_icache_req_queue s3 \<noteq> [] \<or> l2_dcache_req_queue s3 \<noteq> []
                      then schedule_create_req 1 s3 else s3)))"

section \<open>The pipeline\<close>

text \<open>The free places are unsigned differences.\<close>

definition hasCreditsForPipelineIssue :: "L2CacheParameterSet \<Rightarrow> 'c L2Cache \<Rightarrow> bool" where
  "hasCreditsForPipelineIssue pr s =
     (let num_free_biu_req_queue = sub32 (lp_biu_req_queue_size pr) (length (l2_biu_req_queue s));
          num_free_miss_pending_buffer = lp_miss_pending_buffer_size pr - length (l2_miss_pending_buffer s)
      in l2_inFlight_reqs s < min num_free_biu_req_queue num_free_miss_pending_buffer)"

definition issue_Req :: "L2CacheParameterSet \<Rightarrow> 'c L2Cache \<Rightarrow> 'c L2Cache result" where
  "issue_Req pr s =
     bindE (if hasCreditsForPipelineIssue pr s \<and> l2_pipeline_req_queue s \<noteq> []
            then (if l2_pipeline_in s \<noteq> None then Inl (SpartaAssert ''pipeline stage is already valid'')
                  else Inr (s\<lparr>l2_pipeline_in := Some (hd (l2_pipeline_req_queue s)), l2_inFlight_reqs := l2_inFlight_reqs s + 1,
                              l2_pipeline_req_queue := tl (l2_pipeline_req_queue s)\<rparr>))
            else Inr s) (\<lambda>s1.
       Inr (if l2_pipeline_req_queue s1 \<noteq> [] then schedule_issue_req 1 s1 else s1))"

definition l2_reloadCache :: "'c cache_api \<Rightarrow> 64 word \<Rightarrow> 'c L2Cache \<Rightarrow> 'c L2Cache" where
  "l2_reloadCache ca a s = s\<lparr>l2_cache := ca_allocate ca a (l2_cache s)\<rparr>"

definition cacheLookup :: "'c cache_api \<Rightarrow> L2CacheParameterSet \<Rightarrow> 64 word \<Rightarrow> 'c L2Cache \<Rightarrow> CacheState \<times> 'c L2Cache" where
  "cacheLookup ca pr a s =
     (case cache_lookup ca (lp_l2_always_hit pr) a (l2_cache s) of (hit, c) \<Rightarrow> (if hit then CS_HIT else CS_MISS, s\<lparr>l2_cache := c\<rparr>))"

text \<open>The handler of a stage runs with the request in it; \<open>None\<close> stands for an access to an invalid stage.\<close>

definition handleCacheAccessRequest ::
    "'c cache_api \<Rightarrow> L2CacheParameterSet \<Rightarrow> 'a world_scheme \<times> 'c L2Cache \<Rightarrow> ('a world_scheme \<times> 'c L2Cache) result" where
  "handleCacheAccessRequest ca pr ws =
     (case ws of (w, s) \<Rightarrow>
        case l2_pipeline s ! L2_CACHE_LOOKUP pr of
          None \<Rightarrow> Inl (SpartaAssert ''pipeline stage is not valid'')
        | Some m \<Rightarrow>
            let a = mi_paddr (w_mai w m); (res, s1) = cacheLookup ca pr a s in
            if mi_cache_access_state (w_mai w m) = CS_RELOAD
            then Inr (upd_mai m (\<lambda>i. i\<lparr>mi_cache_access_state := CS_HIT\<rparr>) w, if res = CS_MISS then l2_reloadCache ca a s1 else s1)
            else Inr (upd_mai m (\<lambda>i. i\<lparr>mi_cache_access_state := res\<rparr>) w, s1))"

definition sendOutResp :: "L2CacheParameterSet \<Rightarrow> ArchUnit \<Rightarrow> mptr \<Rightarrow> 'c L2Cache \<Rightarrow> 'c L2Cache result" where
  "sendOutResp pr unit m s =
     (if unit = AU_DCACHE then appendDCacheRespQueue pr m s
      else if unit = AU_ICACHE then appendICacheRespQueue pr m s
      else Inl (SpartaAssert ''Resp is being sent to a Unit that is not valid''))"

definition sendOutReq :: "L2CacheParameterSet \<Rightarrow> ArchUnit \<Rightarrow> mptr \<Rightarrow> 'c L2Cache \<Rightarrow> 'c L2Cache result" where
  "sendOutReq pr unit m s =
     (if unit = AU_BIU then appendBIUReqQueue pr m s
      else Inl (SpartaAssert ''Request is being sent to a Unit that is not valid''))"

definition handle_miss :: "L2CacheParameterSet \<Rightarrow> mptr \<Rightarrow> 'a world_scheme \<times> 'c L2Cache \<Rightarrow> ('a world_scheme \<times> 'c L2Cache) result" where
  "handle_miss pr m ws =
     (case ws of (w, s) \<Rightarrow>
        let w1 = upd_mai m (\<lambda>i. i\<lparr>mi_dest := AU_BIU\<rparr>) w in
        bindE (assertE (length (l2_miss_pending_buffer s) < lp_miss_pending_buffer_size pr) ''No space in miss_pending_buffer_!'') (\<lambda>_.
          let s1 = s\<lparr>l2_miss_pending_buffer := l2_miss_pending_buffer s @ [m]\<rparr> in
          case List.find (\<lambda>x. x \<noteq> m \<and> getCacheLine pr w1 x = getCacheLine pr w1 m) (rev (l2_miss_pending_buffer s1)) of
            None \<Rightarrow> bindE (sendOutReq pr (mi_dest (w_mai w1 m)) m s1) (\<lambda>s2. Inr (w1, s2))
          | Some x \<Rightarrow> Inr (upd_mai x (\<lambda>i. i\<lparr>mi_next_req := Some m\<rparr>) w1, s1)))"

definition handleCacheAccessResult ::
    "L2CacheParameterSet \<Rightarrow> 'a world_scheme \<times> 'c L2Cache \<Rightarrow> ('a world_scheme \<times> 'c L2Cache) result" where
  "handleCacheAccessResult pr ws =
     (case ws of (w, s) \<Rightarrow>
        case l2_pipeline s ! L2_HIT_MISS_HANDLING pr of
          None \<Rightarrow> Inl (SpartaAssert ''pipeline stage is not valid'')
        | Some m \<Rightarrow>
            let s1 = s\<lparr>l2_inFlight_reqs := sub32 (l2_inFlight_reqs s) 1\<rparr> in
            if mi_cache_access_state (w_mai w m) = CS_HIT
            then bindE (sendOutResp pr (mi_dest (w_mai w m)) m s1) (\<lambda>s2. Inr (w, s2))
            else handle_miss pr m (w, s1))"

end
