(* ===== verification/L2CacheProps.thy ===== *)
theory L2CacheProps
  imports L2CacheUnit Credits "HOL-Library.Multiset"
begin

text \<open>
  The L2 cache in operation (model: \<open>L2CacheUnit\<close>). \<open>l2_reach\<close> is the step relation: the requests of the two first-level
  caches within the credits they hold, the responses of the bus interface to lines that were requested, the events of the
  unit and the advance of its pipeline. It counts the requests received (\<open>nd\<close>, \<open>ni\<close>) and lists the lines the bus interface
  owes a response for (\<open>L\<close>); \<open>b\<close>, \<open>lk\<close> and \<open>rs\<close> say which part of a cycle is still due. \<open>l2_inv\<close> is its invariant, in
  parts that are proved for each handler: which list holds a request, the capacities, the fills on their way, the credits and
  the events that are scheduled. The credit contracts towards the two caches are instances of \<open>credit_interface\<close>.
\<close>

section \<open>Where a request is\<close>

definition opt_list :: "'b option \<Rightarrow> 'b list" where
  "opt_list x = (case x of None \<Rightarrow> [] | Some y \<Rightarrow> [y])"

lemma opt_list_simps [simp]: "opt_list None = []" "opt_list (Some x) = [x]"
  by (simp_all add: opt_list_def)

text \<open>The requests of the pipeline before and after the lookup: \<open>lk\<close> and \<open>rs\<close> tell that the lookup stage and the last stage
  have a request whose handler has not run in this cycle. A request whose last handler has run is no longer in flight.\<close>

definition l2_before :: "bool \<Rightarrow> 'c L2Cache \<Rightarrow> mptr list" where
  "l2_before lk s = opt_list (l2_pipeline_in s) @ concat (map opt_list (butlast (butlast (l2_pipeline s)))) @
     (if lk then opt_list (last (butlast (l2_pipeline s))) else [])"

definition l2_after :: "bool \<Rightarrow> bool \<Rightarrow> 'c L2Cache \<Rightarrow> mptr list" where
  "l2_after lk rs s = (if lk then [] else opt_list (last (butlast (l2_pipeline s)))) @ (if rs then opt_list (last (l2_pipeline s)) else [])"

text \<open>The cache a request came from.\<close>

definition home :: "'a world_scheme \<Rightarrow> mptr \<Rightarrow> ArchUnit" where
  "home w m = (if mi_src (w_mai w m) = AU_BIU then mi_dest (w_mai w m) else mi_src (w_mai w m))"

definition is_l1 :: "ArchUnit \<Rightarrow> bool" where
  "is_l1 u \<longleftrightarrow> u = AU_ICACHE \<or> u = AU_DCACHE"

lemma is_l1_BIU [simp]: "\<not> is_l1 AU_BIU" "is_l1 AU_ICACHE" "is_l1 AU_DCACHE"
  by (simp_all add: is_l1_def)

definition before_ok :: "'a world_scheme \<Rightarrow> mptr \<Rightarrow> bool" where
  "before_ok w m \<longleftrightarrow> is_l1 (mi_dest (w_mai w m)) \<and>
     (mi_src (w_mai w m) = mi_dest (w_mai w m) \<or> mi_src (w_mai w m) = AU_BIU \<and> mi_cache_access_state (w_mai w m) = CS_RELOAD)"

definition after_ok :: "'a world_scheme \<Rightarrow> mptr \<Rightarrow> bool" where
  "after_ok w m \<longleftrightarrow> is_l1 (mi_dest (w_mai w m)) \<and>
     (mi_src (w_mai w m) = mi_dest (w_mai w m) \<or> mi_src (w_mai w m) = AU_BIU \<and> mi_cache_access_state (w_mai w m) = CS_HIT)"

definition miss_ok :: "'a world_scheme \<Rightarrow> mptr \<Rightarrow> bool" where
  "miss_ok w m \<longleftrightarrow> is_l1 (mi_src (w_mai w m)) \<and> mi_dest (w_mai w m) = AU_BIU"

definition count_home :: "'a world_scheme \<Rightarrow> ArchUnit \<Rightarrow> mptr list \<Rightarrow> nat" where
  "count_home w u ms = length (filter (\<lambda>m. home w m = u) ms)"

lemma count_home_append [simp]: "count_home w u (xs @ ys) = count_home w u xs + count_home w u ys"
  by (simp add: count_home_def)

lemma count_home_single [simp]: "count_home w u [] = 0" "count_home w u (x # xs) = (if home w x = u then 1 else 0) + count_home w u xs"
  by (simp_all add: count_home_def)

lemma count_home_mset: "mset xs = mset ys \<Longrightarrow> count_home w u xs = count_home w u ys"
  unfolding count_home_def by (metis mset_filter size_mset)

text \<open>Requests \<open>Q\<close> wait for the pipeline, \<open>P\<close> are before and \<open>A\<close> after the lookup, \<open>M\<close> are pending misses, \<open>D\<close> and \<open>I\<close> responses;
  \<open>nd\<close> and \<open>ni\<close> requests of the two caches are inside.\<close>

definition flow_inv ::
    "'a world_scheme \<Rightarrow> mptr list \<Rightarrow> mptr list \<Rightarrow> mptr list \<Rightarrow> mptr list \<Rightarrow> mptr list \<Rightarrow> mptr list \<Rightarrow> nat \<Rightarrow> nat \<Rightarrow> bool" where
  "flow_inv w Q P A M D I nd ni \<longleftrightarrow> distinct (Q @ P @ A @ M @ D @ I) \<and> (\<forall>m\<in>set (Q @ P @ A @ M @ D @ I). m < w_next w) \<and>
     (\<forall>m\<in>set (Q @ P). before_ok w m) \<and> (\<forall>m\<in>set A. after_ok w m) \<and> (\<forall>m\<in>set M. miss_ok w m) \<and>
     (\<forall>m\<in>set D. home w m = AU_DCACHE) \<and> (\<forall>m\<in>set I. home w m = AU_ICACHE) \<and>
     count_home w AU_DCACHE (Q @ P @ A @ M @ D @ I) = nd \<and> count_home w AU_ICACHE (Q @ P @ A @ M @ D @ I) = ni"

lemma count_home_cong: "(\<And>m. m \<in> set ms \<Longrightarrow> home w' m = home w m) \<Longrightarrow> count_home w' u ms = count_home w u ms"
  unfolding count_home_def by (rule arg_cong[where f = length], rule filter_cong) simp_all

lemma home_cong: "w_mai w' m = w_mai w m \<Longrightarrow> home w' m = home w m"
  by (simp add: home_def)

text \<open>Anyone may change what is not inside.\<close>

lemma flow_frame:
  assumes "flow_inv w Q P A M D I nd ni" and "w_next w \<le> w_next w'"
    and "\<And>m. m \<in> set (Q @ P @ A @ M @ D @ I) \<Longrightarrow> mi_src (w_mai w' m) = mi_src (w_mai w m) \<and> mi_dest (w_mai w' m) = mi_dest (w_mai w m) \<and>
      mi_cache_access_state (w_mai w' m) = mi_cache_access_state (w_mai w m)"
  shows "flow_inv w' Q P A M D I nd ni"
proof -
  note same = assms(3)
  have h: "home w' m = home w m" if "m \<in> set (Q @ P @ A @ M @ D @ I)" for m using same[OF that] by (simp add: home_def)
  have c: "count_home w' u (Q @ P @ A @ M @ D @ I) = count_home w u (Q @ P @ A @ M @ D @ I)" for u
    by (rule count_home_cong) (rule h)
  have k: "before_ok w' m = before_ok w m \<and> after_ok w' m = after_ok w m \<and> miss_ok w' m = miss_ok w m"
    if "m \<in> set (Q @ P @ A @ M @ D @ I)" for m using same[OF that] by (simp add: before_ok_def after_ok_def miss_ok_def)
  from assms(1) show ?thesis unfolding flow_inv_def c using h k assms(2) by (fastforce intro: less_le_trans)
qed

text \<open>A request moves: the lists are permuted.\<close>

lemma flow_move:
  assumes "flow_inv w Q P A M D I nd ni" and "mset (Q' @ P' @ A' @ M' @ D' @ I') = mset (Q @ P @ A @ M @ D @ I)"
    and "\<forall>m\<in>set (Q' @ P'). before_ok w' m" "\<forall>m\<in>set A'. after_ok w' m" "\<forall>m\<in>set M'. miss_ok w' m"
      "\<forall>m\<in>set D'. home w' m = AU_DCACHE" "\<forall>m\<in>set I'. home w' m = AU_ICACHE"
    and h: "\<And>m. m \<in> set (Q @ P @ A @ M @ D @ I) \<Longrightarrow> home w' m = home w m" and n: "w_next w' = w_next w"
  shows "flow_inv w' Q' P' A' M' D' I' nd ni"
proof -
  note e = assms(2)
  have d: "distinct (Q' @ P' @ A' @ M' @ D' @ I')" using mset_eq_imp_distinct_iff[OF e] assms(1) by (simp add: flow_inv_def)
  have s: "set (Q' @ P' @ A' @ M' @ D' @ I') = set (Q @ P @ A @ M @ D @ I)" by (rule mset_eq_setD[OF e])
  have c: "count_home w' u (Q' @ P' @ A' @ M' @ D' @ I') = count_home w u (Q @ P @ A @ M @ D @ I)" for u
    using count_home_mset[OF e, of w' u] count_home_cong[of "Q @ P @ A @ M @ D @ I" w' w u] h by simp
  have l: "\<forall>m\<in>set (Q' @ P' @ A' @ M' @ D' @ I'). m < w_next w'" unfolding s n using assms(1) by (simp add: flow_inv_def)
  show ?thesis unfolding flow_inv_def c by (intro conjI d l assms(3-7)) (use assms(1) in \<open>simp_all add: flow_inv_def\<close>)
qed

lemma flow_copy:
  assumes "flow_inv w Q P A M D I nd ni" and "create_copy u m w = (n, w')" and "is_l1 u"
  shows "flow_inv w' (Q @ [n]) P A M D I (if u = AU_DCACHE then nd + 1 else nd) (if u = AU_ICACHE then ni + 1 else ni)"
proof -
  from assms(2) have n: "n = w_next w" and w': "w_next w' = w_next w + 1" "mi_src (w_mai w' n) = u" "mi_dest (w_mai w' n) = u"
    and old: "\<And>x. x \<noteq> n \<Longrightarrow> w_mai w' x = w_mai w x" by (auto simp: create_copy_def copy_access_def upd_mai_def)
  have lt: "x < n" if "x \<in> set (Q @ P @ A @ M @ D @ I)" for x using assms(1) that unfolding n by (simp add: flow_inv_def)
  have "flow_inv w' Q P A M D I nd ni"
    by (rule flow_frame[OF assms(1)]) (use w' old lt in \<open>auto simp: less_le\<close>)
  moreover have "n \<notin> set (Q @ P @ A @ M @ D @ I)" using lt by blast
  moreover have "home w' n = u" "before_ok w' n" using w' assms(3) by (auto simp: home_def before_ok_def)
  ultimately show ?thesis using w'(1) n assms(3) by (auto simp: flow_inv_def is_l1_def)
qed

section \<open>The reachable states\<close>

definition l2_credits :: "(l2_event \<Rightarrow> nat) \<Rightarrow> 'c L2Cache \<Rightarrow> nat" where
  "l2_credits f s = sum_list (map f (l2_out s))"

definition icredit :: "l2_event \<Rightarrow> nat" where
  "icredit e = (case e of OutIcacheCredits n \<Rightarrow> n | _ \<Rightarrow> 0)"

definition dcredit :: "l2_event \<Rightarrow> nat" where
  "dcredit e = (case e of OutDcacheCredits n \<Rightarrow> n | _ \<Rightarrow> 0)"

definition iresp :: "l2_event \<Rightarrow> nat" where
  "iresp e = (case e of OutIcacheResp m \<Rightarrow> 1 | _ \<Rightarrow> 0)"

definition dresp :: "l2_event \<Rightarrow> nat" where
  "dresp e = (case e of OutDcacheResp m \<Rightarrow> 1 | _ \<Rightarrow> 0)"

lemmas l2_event_counts = icredit_def dcredit_def iresp_def dresp_def

definition new_biu_reqs :: "'c L2Cache \<Rightarrow> 'c L2Cache \<Rightarrow> mptr list" where
  "new_biu_reqs s s' = concat (map (\<lambda>e. case e of OutBiuReq m \<Rightarrow> [m] | _ \<Rightarrow> []) (drop (length (l2_out s)) (l2_out s')))"

definition l2_inside :: "bool \<Rightarrow> bool \<Rightarrow> 'c L2Cache \<Rightarrow> mptr list" where
  "l2_inside lk rs s = l2_pipeline_req_queue s @ l2_before lk s @ l2_after lk rs s @ l2_miss_pending_buffer s @
     l2_dcache_resp_queue s @ l2_icache_resp_queue s"

text \<open>The other units: they leave the requests inside alone, and the addresses of the responses.\<close>

definition env_l2 :: "world \<Rightarrow> bool \<Rightarrow> bool \<Rightarrow> 'c L2Cache \<Rightarrow> world \<Rightarrow> bool" where
  "env_l2 w lk rs s w' \<longleftrightarrow> w_next w \<le> w_next w' \<and>
     (\<forall>m\<in>set (l2_inside lk rs s). mi_src (w_mai w' m) = mi_src (w_mai w m) \<and> mi_dest (w_mai w' m) = mi_dest (w_mai w m) \<and>
        mi_cache_access_state (w_mai w' m) = mi_cache_access_state (w_mai w m)) \<and>
     (\<forall>m\<in>set (l2_inside lk rs s) \<union> set (l2_biu_resp_queue s). mi_paddr (w_mai w' m) = mi_paddr (w_mai w m))"

definition l2_quiet :: "'c L2Cache \<Rightarrow> bool" where
  "l2_quiet s \<longleftrightarrow> 0 \<notin> set (l2_ev_dcache_req s) \<and> 0 \<notin> set (l2_ev_icache_req s) \<and> 0 \<notin> set (l2_ev_icache_resp s) \<and>
     0 \<notin> set (l2_ev_dcache_resp s) \<and> 0 \<notin> set (l2_ev_biu_req s) \<and> 0 \<notin> set (l2_ev_biu_resp s) \<and> 0 \<notin> set (l2_ev_create_req s) \<and>
     0 \<notin> set (l2_ev_issue_req s)"

text \<open>The next cycle: delays count down and the pipeline shifts.\<close>

definition next_cycle :: "nat list \<Rightarrow> nat list" where
  "next_cycle ds = map (\<lambda>d. d - 1) ds"

definition l2_tick :: "'c L2Cache \<Rightarrow> 'c L2Cache" where
  "l2_tick s = s\<lparr>l2_pipeline_in := None, l2_pipeline := l2_pipeline_in s # butlast (l2_pipeline s),
     l2_ev_dcache_req := next_cycle (l2_ev_dcache_req s), l2_ev_icache_req := next_cycle (l2_ev_icache_req s),
     l2_ev_icache_resp := next_cycle (l2_ev_icache_resp s), l2_ev_dcache_resp := next_cycle (l2_ev_dcache_resp s),
     l2_ev_biu_req := next_cycle (l2_ev_biu_req s), l2_ev_biu_resp := next_cycle (l2_ev_biu_resp s),
     l2_ev_create_req := next_cycle (l2_ev_create_req s), l2_ev_issue_req := next_cycle (l2_ev_issue_req s)\<rparr>"

definition stage_valid :: "L2CacheParameterSet \<Rightarrow> nat \<Rightarrow> 'c L2Cache \<Rightarrow> bool" where
  "stage_valid pr k s \<longleftrightarrow> l2_pipeline s ! k \<noteq> None"

text \<open>\<open>l2_reach ca pr b lk rs nd ni L w s\<close>: the cache reaches \<open>s\<close> with the stores \<open>w\<close> after \<open>nd\<close> requests of the data cache and \<open>ni\<close>
  of the instruction cache; \<open>L\<close> are the lines requested from the bus interface and not answered; \<open>b\<close> tells that the
  arbitration of this cycle has run (it runs after the ports and the events they schedule), \<open>lk\<close> and \<open>rs\<close> that the
  lookup and the last stage of the pipeline are still to be handled.\<close>

inductive l2_reach ::
    "'c cache_api \<Rightarrow> L2CacheParameterSet \<Rightarrow> bool \<Rightarrow> bool \<Rightarrow> bool \<Rightarrow> nat \<Rightarrow> nat \<Rightarrow> 64 word list \<Rightarrow> world \<Rightarrow> 'c L2Cache \<Rightarrow> bool"
  for ca :: "'c cache_api" and pr :: L2CacheParameterSet where
  start: "l2_reach ca pr False False False 0 0 [] w (l2_sendInitialCredits pr (mk_L2Cache pr c))"
| environment: "l2_reach ca pr b lk rs nd ni L w s \<Longrightarrow> env_l2 w lk rs s w' \<Longrightarrow> l2_reach ca pr b lk rs nd ni L w' s"
| dcache_req: "l2_reach ca pr False lk rs nd ni L w s \<Longrightarrow> nd < l2_credits dcredit s \<Longrightarrow> getReqFromDCache pr m s = Inr s' \<Longrightarrow>
    l2_reach ca pr False lk rs (nd + 1) ni L w s'"
| icache_req: "l2_reach ca pr False lk rs nd ni L w s \<Longrightarrow> ni < l2_credits icredit s \<Longrightarrow> getReqFromICache pr m s = Inr s' \<Longrightarrow>
    l2_reach ca pr False lk rs nd (ni + 1) L w s'"
| biu_resp: "l2_reach ca pr False lk rs nd ni L w s \<Longrightarrow> getCacheLine pr w m \<in> set L \<Longrightarrow> m < w_next w \<Longrightarrow>
    getRespFromBIU pr m s = Inr s' \<Longrightarrow> l2_reach ca pr False lk rs nd ni (remove1 (getCacheLine pr w m) L) w s'"
| biu_credits: "l2_reach ca pr b lk rs nd ni L w s \<Longrightarrow> l2_reach ca pr b lk rs nd ni L w (getCreditsFromBIU n s)"
| ev_dcache: "l2_reach ca pr False lk rs nd ni L w s \<Longrightarrow> 0 \<in> set (l2_ev_dcache_req s) \<Longrightarrow>
    l2_reach ca pr False lk rs nd ni L w (handle_DCache_L2Cache_Req (s\<lparr>l2_ev_dcache_req := removeAll 0 (l2_ev_dcache_req s)\<rparr>))"
| ev_icache: "l2_reach ca pr False lk rs nd ni L w s \<Longrightarrow> 0 \<in> set (l2_ev_icache_req s) \<Longrightarrow>
    l2_reach ca pr False lk rs nd ni L w (handle_ICache_L2Cache_Req (s\<lparr>l2_ev_icache_req := removeAll 0 (l2_ev_icache_req s)\<rparr>))"
| ev_biu_resp: "l2_reach ca pr False lk rs nd ni L w s \<Longrightarrow> 0 \<in> set (l2_ev_biu_resp s) \<Longrightarrow>
    l2_reach ca pr False lk rs nd ni L w (handle_BIU_L2Cache_Resp (s\<lparr>l2_ev_biu_resp := removeAll 0 (l2_ev_biu_resp s)\<rparr>))"
| ev_biu_req: "l2_reach ca pr b lk rs nd ni L w s \<Longrightarrow> 0 \<in> set (l2_ev_biu_req s) \<Longrightarrow>
    handle_L2Cache_BIU_Req (s\<lparr>l2_ev_biu_req := removeAll 0 (l2_ev_biu_req s)\<rparr>) = s' \<Longrightarrow>
    l2_reach ca pr b lk rs nd ni (L @ map (getCacheLine pr w) (new_biu_reqs s s')) w s'"
| ev_dcache_resp: "l2_reach ca pr b lk rs nd ni L w s \<Longrightarrow> 0 \<in> set (l2_ev_dcache_resp s) \<Longrightarrow>
    handle_L2Cache_DCache_Resp (s\<lparr>l2_ev_dcache_resp := removeAll 0 (l2_ev_dcache_resp s)\<rparr>) = Inr s' \<Longrightarrow> l2_reach ca pr b lk rs nd ni L w s'"
| ev_icache_resp: "l2_reach ca pr b lk rs nd ni L w s \<Longrightarrow> 0 \<in> set (l2_ev_icache_resp s) \<Longrightarrow>
    handle_L2Cache_ICache_Resp (s\<lparr>l2_ev_icache_resp := removeAll 0 (l2_ev_icache_resp s)\<rparr>) = Inr s' \<Longrightarrow> l2_reach ca pr b lk rs nd ni L w s'"
| create: "l2_reach ca pr False lk rs nd ni L w s \<Longrightarrow> 0 \<in> set (l2_ev_create_req s) \<Longrightarrow>
    create_Req pr (w, s\<lparr>l2_ev_create_req := removeAll 0 (l2_ev_create_req s)\<rparr>) = Inr (w', s') \<Longrightarrow> l2_reach ca pr True lk rs nd ni L w' s'"
| issue: "l2_reach ca pr b lk rs nd ni L w s \<Longrightarrow> 0 \<in> set (l2_ev_issue_req s) \<Longrightarrow>
    issue_Req pr (s\<lparr>l2_ev_issue_req := removeAll 0 (l2_ev_issue_req s)\<rparr>) = Inr s' \<Longrightarrow> l2_reach ca pr b lk rs nd ni L w s'"
| lookup: "l2_reach ca pr b True rs nd ni L w s \<Longrightarrow> handleCacheAccessRequest ca pr (w, s) = Inr (w', s') \<Longrightarrow>
    l2_reach ca pr b False rs nd ni L w' s'"
| outcome: "l2_reach ca pr b lk True nd ni L w s \<Longrightarrow> handleCacheAccessResult pr (w, s) = Inr (w', s') \<Longrightarrow>
    l2_reach ca pr b lk False nd ni L w' s'"
| cycle: "l2_reach ca pr b False False nd ni L w s \<Longrightarrow> l2_quiet s \<Longrightarrow>
    l2_reach ca pr False (stage_valid pr (L2_CACHE_LOOKUP pr) (l2_tick s)) (stage_valid pr (L2_HIT_MISS_HANDLING pr) (l2_tick s)) nd ni L w (l2_tick s)"

section \<open>The invariant\<close>

definition l2_params_ok :: "L2CacheParameterSet \<Rightarrow> bool" where
  "l2_params_ok pr \<longleftrightarrow> 2 \<le> lp_l2cache_latency pr \<and> lp_biu_req_queue_size pr < 4294967296"

definition pipe_inv :: "L2CacheParameterSet \<Rightarrow> bool \<Rightarrow> bool \<Rightarrow> 'c L2Cache \<Rightarrow> bool" where
  "pipe_inv pr lk rs s \<longleftrightarrow> length (l2_pipeline s) = L2_NUM_STAGES pr \<and> (lk \<longrightarrow> last (butlast (l2_pipeline s)) \<noteq> None) \<and>
     (rs \<longrightarrow> last (l2_pipeline s) \<noteq> None)"

definition own2_inv :: "bool \<Rightarrow> bool \<Rightarrow> nat \<Rightarrow> nat \<Rightarrow> 'a world_scheme \<Rightarrow> 'c L2Cache \<Rightarrow> bool" where
  "own2_inv lk rs nd ni w s \<longleftrightarrow> (\<exists>xd xi. flow_inv w (l2_pipeline_req_queue s) (l2_before lk s) (l2_after lk rs s) (l2_miss_pending_buffer s)
       (l2_dcache_resp_queue s) (l2_icache_resp_queue s) xd xi \<and>
     xd + length (l2_dcache_req_queue s) + l2_credits dresp s = nd \<and> xi + length (l2_icache_req_queue s) + l2_credits iresp s = ni)"

definition cap_inv :: "L2CacheParameterSet \<Rightarrow> bool \<Rightarrow> bool \<Rightarrow> 'c L2Cache \<Rightarrow> bool" where
  "cap_inv pr lk rs s \<longleftrightarrow> l2_inFlight_reqs s = length (l2_before lk s) + length (l2_after lk rs s) \<and>
     l2_inFlight_reqs s + length (l2_biu_req_queue s) \<le> lp_biu_req_queue_size pr \<and>
     l2_inFlight_reqs s + length (l2_miss_pending_buffer s) \<le> lp_miss_pending_buffer_size pr \<and>
     length (l2_pipeline_req_queue s) \<le> lp_pipeline_req_queue_size pr"

definition fills_of :: "L2CacheParameterSet \<Rightarrow> 64 word list \<Rightarrow> 'a world_scheme \<Rightarrow> 'c L2Cache \<Rightarrow> 64 word list" where
  "fills_of pr L w s = map (getCacheLine pr w) (l2_biu_req_queue s) @ L @ map (getCacheLine pr w) (l2_biu_resp_queue s)"

definition fill_inv :: "L2CacheParameterSet \<Rightarrow> 64 word list \<Rightarrow> 'a world_scheme \<Rightarrow> 'c L2Cache \<Rightarrow> bool" where
  "fill_inv pr L w s \<longleftrightarrow> set (l2_biu_req_queue s) \<subseteq> set (l2_miss_pending_buffer s) \<and> (\<forall>m\<in>set (l2_biu_resp_queue s). m < w_next w) \<and>
     distinct (fills_of pr L w s) \<and> set (fills_of pr L w s) = getCacheLine pr w ` set (l2_miss_pending_buffer s)"

definition grant_inv :: "L2CacheParameterSet \<Rightarrow> nat \<Rightarrow> nat \<Rightarrow> 'c L2Cache \<Rightarrow> bool" where
  "grant_inv pr nd ni s \<longleftrightarrow>
     l2_credits dcredit s + length (l2_dcache_req_queue s) = (if lp_is_dcache_connected pr then lp_dcache_req_queue_size pr else 0) + nd \<and>
     l2_credits icredit s + length (l2_icache_req_queue s) = (if lp_is_icache_connected pr then lp_icache_req_queue_size pr else 0) + ni"

definition l2_waiting :: "'c L2Cache \<Rightarrow> bool" where
  "l2_waiting s \<longleftrightarrow> l2_icache_req_queue s \<noteq> [] \<or> l2_dcache_req_queue s \<noteq> [] \<or> l2_biu_resp_queue s \<noteq> []"

definition sched_inv :: "bool \<Rightarrow> bool \<Rightarrow> 'c L2Cache \<Rightarrow> bool" where
  "sched_inv b rs s \<longleftrightarrow>
     (l2_ev_create_req s \<noteq> [] \<longrightarrow> l2_waiting s) \<and> set (l2_ev_create_req s) \<subseteq> (if b then {1} else {0}) \<and>
     (l2_channel_select s = CH_ICACHE \<or> l2_channel_select s = CH_DCACHE) \<and>
     (l2_pipeline_in s \<noteq> None \<longrightarrow> 0 \<notin> set (l2_ev_issue_req s)) \<and>
     l2_ev_dcache_resp s = (if l2_dcache_resp_queue s = [] then [] else [0]) \<and>
     l2_ev_icache_resp s = (if l2_icache_resp_queue s = [] then [] else [0]) \<and>
     length (l2_dcache_resp_queue s) + length (l2_icache_resp_queue s) \<le> (if rs then 0 else 1)"

text \<open>Whatever can go on is scheduled, but for the queue to the bus interface.\<close>

definition wake2_inv :: "'c L2Cache \<Rightarrow> bool" where
  "wake2_inv s \<longleftrightarrow> (l2_dcache_req_queue s \<noteq> [] \<longrightarrow> l2_ev_create_req s \<noteq> [] \<or> l2_ev_dcache_req s \<noteq> []) \<and>
     (l2_icache_req_queue s \<noteq> [] \<longrightarrow> l2_ev_create_req s \<noteq> [] \<or> l2_ev_icache_req s \<noteq> []) \<and>
     (l2_biu_resp_queue s \<noteq> [] \<longrightarrow> l2_ev_create_req s \<noteq> [] \<or> l2_ev_biu_resp s \<noteq> []) \<and>
     (l2_pipeline_req_queue s \<noteq> [] \<longrightarrow> l2_ev_issue_req s \<noteq> [])"

definition l2_inv ::
    "L2CacheParameterSet \<Rightarrow> bool \<Rightarrow> bool \<Rightarrow> bool \<Rightarrow> nat \<Rightarrow> nat \<Rightarrow> 64 word list \<Rightarrow> 'a world_scheme \<Rightarrow> 'c L2Cache \<Rightarrow> bool" where
  "l2_inv pr b lk rs nd ni L w s \<longleftrightarrow> pipe_inv pr lk rs s \<and> own2_inv lk rs nd ni w s \<and> cap_inv pr lk rs s \<and> fill_inv pr L w s \<and>
     grant_inv pr nd ni s \<and> sched_inv b rs s \<and> wake2_inv s"

lemmas l2_inv_defs = pipe_inv_def own2_inv_def cap_inv_def fill_inv_def fills_of_def grant_inv_def sched_inv_def wake2_inv_def l2_waiting_def

lemma l2_pipe_cong:
  "l2_pipeline s' = l2_pipeline s \<Longrightarrow> l2_pipeline_in s' = l2_pipeline_in s \<Longrightarrow> l2_before lk s' = l2_before lk s"
  "l2_pipeline s' = l2_pipeline s \<Longrightarrow> l2_after lk rs s' = l2_after lk rs s"
  by (simp_all add: l2_before_def l2_after_def)

lemma l2_credits_emit: "l2_out s' = l2_out s @ es \<Longrightarrow> l2_credits f s' = l2_credits f s + sum_list (map f es)"
  by (simp add: l2_credits_def)

lemma l2_credits_same: "l2_out s' = l2_out s \<Longrightarrow> l2_credits f s' = l2_credits f s"
  by (simp add: l2_credits_def)

text \<open>Most handlers leave the requests inside where they are.\<close>

definition same_place :: "'c L2Cache \<Rightarrow> 'c L2Cache \<Rightarrow> bool" where
  "same_place s s' \<longleftrightarrow> l2_pipeline s' = l2_pipeline s \<and> l2_pipeline_in s' = l2_pipeline_in s \<and> l2_pipeline_req_queue s' = l2_pipeline_req_queue s \<and>
     l2_miss_pending_buffer s' = l2_miss_pending_buffer s \<and> l2_dcache_resp_queue s' = l2_dcache_resp_queue s \<and>
     l2_icache_resp_queue s' = l2_icache_resp_queue s \<and> l2_inFlight_reqs s' = l2_inFlight_reqs s \<and> l2_biu_req_queue s' = l2_biu_req_queue s"

lemma same_place_keeps:
  assumes "same_place s s'"
  shows "pipe_inv pr lk rs s' = pipe_inv pr lk rs s" and "cap_inv pr lk rs s' = cap_inv pr lk rs s"
    and "l2_before lk s' = l2_before lk s" and "l2_after lk rs s' = l2_after lk rs s"
  using assms l2_pipe_cong[of s' s] by (simp_all add: same_place_def pipe_inv_def cap_inv_def)

lemma same_place_own:
  assumes "same_place s s'" and "own2_inv lk rs nd ni w s"
    and "length (l2_dcache_req_queue s') + l2_credits dresp s' = length (l2_dcache_req_queue s) + l2_credits dresp s + a"
    and "length (l2_icache_req_queue s') + l2_credits iresp s' = length (l2_icache_req_queue s) + l2_credits iresp s + i"
  shows "own2_inv lk rs (nd + a) (ni + i) w s'"
  using assms same_place_keeps(3,4)[OF assms(1)] unfolding own2_inv_def same_place_def by (metis (no_types, lifting) add.assoc)

section \<open>Every handler keeps the invariant\<close>

lemma sched2_nonempty [simp]: "sched k ds \<noteq> []"
  by (auto simp: sched_def)

lemma sched_0 [simp]: "set ds \<subseteq> {0} \<Longrightarrow> set (sched 0 ds) \<subseteq> {0}"
  by (auto simp: sched_def)

lemma l2_start:
  assumes "l2_params_ok pr"
  shows "l2_inv pr False False False 0 0 [] w (l2_sendInitialCredits pr (mk_L2Cache pr c))"
proof -
  let ?s = "l2_sendInitialCredits pr (mk_L2Cache pr c)"
  have p: "l2_pipeline ?s = replicate (L2_NUM_STAGES pr) None" "l2_pipeline_in ?s = None" "l2_out ?s =
      (if lp_is_icache_connected pr then [OutIcacheCredits (lp_icache_req_queue_size pr)] else []) @
      (if lp_is_dcache_connected pr then [OutDcacheCredits (lp_dcache_req_queue_size pr)] else [])"
    by (simp_all add: l2_sendInitialCredits_def mk_L2Cache_def l2_emit_def Let_def)
  have q: "l2_dcache_req_queue ?s = []" "l2_icache_req_queue ?s = []" "l2_biu_req_queue ?s = []" "l2_biu_resp_queue ?s = []"
      "l2_dcache_resp_queue ?s = []" "l2_icache_resp_queue ?s = []" "l2_pipeline_req_queue ?s = []" "l2_miss_pending_buffer ?s = []"
      "l2_inFlight_reqs ?s = 0" "l2_channel_select ?s = CH_ICACHE" "l2_ev_create_req ?s = []" "l2_ev_dcache_resp ?s = []" "l2_ev_icache_resp ?s = []"
    by (simp_all add: l2_sendInitialCredits_def mk_L2Cache_def l2_emit_def Let_def)
  have c: "concat (map opt_list (replicate k None)) = []" for k by (induction k) simp_all
  have r: "butlast (replicate k None) = replicate (k - 1) None" for k
    by (simp add: butlast_conv_take)
  have n: "2 \<le> L2_NUM_STAGES pr" using assms by (simp add: l2_params_ok_def L2_NUM_STAGES_def)
  have f: "l2_before False ?s = []" "l2_after False False ?s = []"
    using n by (simp_all add: l2_before_def l2_after_def p r c)
  have o: "own2_inv False False 0 0 w ?s" unfolding own2_inv_def
    by (rule exI[of _ 0], rule exI[of _ 0]) (simp add: f q flow_inv_def l2_credits_def p l2_event_counts)
  show ?thesis using n o unfolding l2_inv_def
    by (simp add: f q p pipe_inv_def cap_inv_def fill_inv_def fills_of_def grant_inv_def sched_inv_def wake2_inv_def l2_credits_def l2_event_counts)
qed

lemma getCacheLine_cong: "mi_paddr (w_mai w' m) = mi_paddr (w_mai w m) \<Longrightarrow> getCacheLine pr w' m = getCacheLine pr w m"
  by (simp add: getCacheLine_def)

lemma fill_inv_cong:
  assumes "fill_inv pr L w s" and "w_next w \<le> w_next w'"
    and "\<And>m. m \<in> set (l2_miss_pending_buffer s) \<union> set (l2_biu_resp_queue s) \<Longrightarrow> mi_paddr (w_mai w' m) = mi_paddr (w_mai w m)"
  shows "fill_inv pr L w' s"
proof -
  have g: "getCacheLine pr w' m = getCacheLine pr w m" if "m \<in> set (l2_miss_pending_buffer s) \<union> set (l2_biu_resp_queue s)" for m
    by (rule getCacheLine_cong, rule assms(3)[OF that])
  have sub: "set (l2_biu_req_queue s) \<subseteq> set (l2_miss_pending_buffer s)" using assms(1) by (simp add: fill_inv_def)
  have "fills_of pr L w' s = fills_of pr L w s" unfolding fills_of_def using g sub by (auto intro!: map_cong)
  moreover have "getCacheLine pr w' ` set (l2_miss_pending_buffer s) = getCacheLine pr w ` set (l2_miss_pending_buffer s)"
    using g by (auto intro!: image_cong)
  ultimately show ?thesis using assms(1,2) by (auto simp: fill_inv_def)
qed

lemma l2_environment:
  assumes inv: "l2_inv pr b lk rs nd ni L w s" and env: "env_l2 w lk rs s w'"
  shows "l2_inv pr b lk rs nd ni L w' s"
proof -
  have "own2_inv lk rs nd ni w' s"
    using inv env flow_frame[of w _ _ _ _ _ _ _ _ w'] unfolding l2_inv_def own2_inv_def env_l2_def l2_inside_def by blast
  moreover have "fill_inv pr L w' s"
    by (rule fill_inv_cong[of pr L w]) (use inv env in \<open>auto simp: l2_inv_def env_l2_def l2_inside_def\<close>)
  ultimately show ?thesis using inv by (simp add: l2_inv_def)
qed

text \<open>Requests arrive.\<close>

lemma l2_dcache_req:
  assumes inv: "l2_inv pr False lk rs nd ni L w s" and n: "nd < l2_credits dcredit s"
  shows "\<exists>s'. getReqFromDCache pr m s = Inr s' \<and> l2_inv pr False lk rs (nd + 1) ni L w s' \<and> length (l2_dcache_req_queue s) < lp_dcache_req_queue_size pr"
proof -
  have q: "length (l2_dcache_req_queue s) < lp_dcache_req_queue_size pr"
    using inv n by (auto simp: l2_inv_def grant_inv_def split: if_splits)
  let ?s = "s\<lparr>l2_dcache_req_queue := l2_dcache_req_queue s @ [m], l2_ev_dcache_req := sched 0 (l2_ev_dcache_req s)\<rparr>"
  have r: "getReqFromDCache pr m s = Inr ?s" using q by (simp add: getReqFromDCache_def appendDCacheReqQueue_def)
  have sp: "same_place s ?s" by (simp add: same_place_def)
  have c: "l2_credits f ?s = l2_credits f s" for f by (simp add: l2_credits_def)
  have "own2_inv lk rs (nd + 1) (ni + 0) w ?s"
    by (rule same_place_own[OF sp]) (use inv c in \<open>simp_all add: l2_inv_def\<close>)
  then have "l2_inv pr False lk rs (nd + 1) ni L w ?s"
    using inv same_place_keeps[OF sp] c unfolding l2_inv_def
    by (auto simp: fill_inv_def fills_of_def grant_inv_def sched_inv_def wake2_inv_def l2_waiting_def)
  with r q show ?thesis by blast
qed

lemma l2_icache_req:
  assumes inv: "l2_inv pr False lk rs nd ni L w s" and n: "ni < l2_credits icredit s"
  shows "\<exists>s'. getReqFromICache pr m s = Inr s' \<and> l2_inv pr False lk rs nd (ni + 1) L w s' \<and> length (l2_icache_req_queue s) < lp_icache_req_queue_size pr"
proof -
  have q: "length (l2_icache_req_queue s) < lp_icache_req_queue_size pr"
    using inv n by (auto simp: l2_inv_def grant_inv_def split: if_splits)
  let ?s = "s\<lparr>l2_icache_req_queue := l2_icache_req_queue s @ [m], l2_ev_icache_req := sched 0 (l2_ev_icache_req s)\<rparr>"
  have r: "getReqFromICache pr m s = Inr ?s" using q by (simp add: getReqFromICache_def appendICacheReqQueue_def)
  have sp: "same_place s ?s" by (simp add: same_place_def)
  have c: "l2_credits f ?s = l2_credits f s" for f by (simp add: l2_credits_def)
  have "own2_inv lk rs (nd + 0) (ni + 1) w ?s"
    by (rule same_place_own[OF sp]) (use inv c in \<open>simp_all add: l2_inv_def\<close>)
  then have "l2_inv pr False lk rs nd (ni + 1) L w ?s"
    using inv same_place_keeps[OF sp] c unfolding l2_inv_def
    by (auto simp: fill_inv_def fills_of_def grant_inv_def sched_inv_def wake2_inv_def l2_waiting_def)
  with r q show ?thesis by blast
qed

lemma l2_biu_resp:
  assumes inv: "l2_inv pr False lk rs nd ni L w s" and m: "getCacheLine pr w m \<in> set L" "m < w_next w"
    and r: "getRespFromBIU pr m s = Inr s'"
  shows "l2_inv pr False lk rs nd ni (remove1 (getCacheLine pr w m) L) w s'"
proof -
  from r have s': "s' = s\<lparr>l2_biu_resp_queue := l2_biu_resp_queue s @ [m], l2_ev_biu_resp := sched 0 (l2_ev_biu_resp s)\<rparr>"
    by (auto simp: getRespFromBIU_def appendBIURespQueue_def bindE_eq_Inr split: if_splits)
  have sp: "same_place s s'" by (simp add: same_place_def s')
  have c: "l2_credits f s' = l2_credits f s" for f by (simp add: l2_credits_def s')
  have o: "own2_inv lk rs (nd + 0) (ni + 0) w s'"
    by (rule same_place_own[OF sp]) (use inv c in \<open>simp_all add: l2_inv_def s'\<close>)
  let ?l = "getCacheLine pr w m"
  have "mset (fills_of pr (remove1 ?l L) w s') = mset (fills_of pr L w s)"
    using m(1) by (simp add: fills_of_def s')
  then have "distinct (fills_of pr (remove1 ?l L) w s') = distinct (fills_of pr L w s)" "set (fills_of pr (remove1 ?l L) w s') = set (fills_of pr L w s)"
    by (auto dest: mset_eq_imp_distinct_iff mset_eq_setD)
  then have "fill_inv pr (remove1 ?l L) w s'" using inv m(2) by (auto simp: l2_inv_def fill_inv_def s')
  then show ?thesis using inv o same_place_keeps[OF sp] c unfolding l2_inv_def
    by (auto simp: grant_inv_def sched_inv_def wake2_inv_def l2_waiting_def s')
qed

text \<open>Handlers that schedule.\<close>

definition same_queues :: "'c L2Cache \<Rightarrow> 'c L2Cache \<Rightarrow> bool" where
  "same_queues s s' \<longleftrightarrow> same_place s s' \<and> l2_dcache_req_queue s' = l2_dcache_req_queue s \<and> l2_icache_req_queue s' = l2_icache_req_queue s \<and>
     l2_biu_resp_queue s' = l2_biu_resp_queue s \<and> l2_out s' = l2_out s"

lemma same_queues_inv:
  assumes "same_queues s s'" and inv: "l2_inv pr b lk rs nd ni L w s" and ev: "sched_inv b rs s'" "wake2_inv s'"
  shows "l2_inv pr b lk rs nd ni L w s'"
proof -
  have sp: "same_place s s'" using assms(1) by (simp add: same_queues_def)
  have c: "l2_credits f s' = l2_credits f s" for f using assms(1) by (simp add: l2_credits_def same_queues_def)
  have "own2_inv lk rs (nd + 0) (ni + 0) w s'"
    by (rule same_place_own[OF sp]) (use inv c assms(1) in \<open>simp_all add: l2_inv_def same_queues_def\<close>)
  then show ?thesis using inv ev same_place_keeps[OF sp] c assms(1) sp unfolding l2_inv_def
    by (auto simp: fill_inv_def fills_of_def grant_inv_def same_queues_def same_place_def)
qed

lemma l2_schedulers:
  assumes inv: "l2_inv pr b lk rs nd ni L w s"
  shows "l2_inv pr b lk rs nd ni L w (getCreditsFromBIU n s)"
    and "\<not> b \<Longrightarrow> l2_inv pr b lk rs nd ni L w (handle_DCache_L2Cache_Req (s\<lparr>l2_ev_dcache_req := removeAll 0 (l2_ev_dcache_req s)\<rparr>))"
    and "\<not> b \<Longrightarrow> l2_inv pr b lk rs nd ni L w (handle_ICache_L2Cache_Req (s\<lparr>l2_ev_icache_req := removeAll 0 (l2_ev_icache_req s)\<rparr>))"
    and "\<not> b \<Longrightarrow> l2_inv pr b lk rs nd ni L w (handle_BIU_L2Cache_Resp (s\<lparr>l2_ev_biu_resp := removeAll 0 (l2_ev_biu_resp s)\<rparr>))"
proof -
  from inv have ev: "sched_inv b rs s" "wake2_inv s" by (simp_all add: l2_inv_def)
  show "l2_inv pr b lk rs nd ni L w (getCreditsFromBIU n s)"
    by (rule same_queues_inv[OF _ inv])
      (use ev in \<open>auto simp: getCreditsFromBIU_def schedule_issue_req_def same_queues_def same_place_def sched_inv_def wake2_inv_def l2_waiting_def sched_def\<close>)
  show "l2_inv pr b lk rs nd ni L w (handle_DCache_L2Cache_Req (s\<lparr>l2_ev_dcache_req := removeAll 0 (l2_ev_dcache_req s)\<rparr>))" if "\<not> b"
    by (rule same_queues_inv[OF _ inv])
      (use ev that in \<open>auto simp: handle_DCache_L2Cache_Req_def schedule_create_req_def same_queues_def same_place_def sched_inv_def wake2_inv_def l2_waiting_def\<close>)
  show "l2_inv pr b lk rs nd ni L w (handle_ICache_L2Cache_Req (s\<lparr>l2_ev_icache_req := removeAll 0 (l2_ev_icache_req s)\<rparr>))" if "\<not> b"
    by (rule same_queues_inv[OF _ inv])
      (use ev that in \<open>auto simp: handle_ICache_L2Cache_Req_def schedule_create_req_def same_queues_def same_place_def sched_inv_def wake2_inv_def l2_waiting_def\<close>)
  show "l2_inv pr b lk rs nd ni L w (handle_BIU_L2Cache_Resp (s\<lparr>l2_ev_biu_resp := removeAll 0 (l2_ev_biu_resp s)\<rparr>))" if "\<not> b"
    by (rule same_queues_inv[OF _ inv])
      (use ev that in \<open>auto simp: handle_BIU_L2Cache_Resp_def schedule_create_req_def same_queues_def same_place_def sched_inv_def wake2_inv_def l2_waiting_def\<close>)
qed

lemma l2_invD:
  assumes "l2_inv pr b lk rs nd ni L w s"
  shows "pipe_inv pr lk rs s" "own2_inv lk rs nd ni w s" "cap_inv pr lk rs s" "fill_inv pr L w s" "grant_inv pr nd ni s"
    "sched_inv b rs s" "wake2_inv s"
  using assms by (simp_all add: l2_inv_def)

lemma l2_invI:
  "pipe_inv pr lk rs s \<Longrightarrow> own2_inv lk rs nd ni w s \<Longrightarrow> cap_inv pr lk rs s \<Longrightarrow> fill_inv pr L w s \<Longrightarrow> grant_inv pr nd ni s \<Longrightarrow>
   sched_inv b rs s \<Longrightarrow> wake2_inv s \<Longrightarrow> l2_inv pr b lk rs nd ni L w s"
  by (simp add: l2_inv_def)

lemma same_flow_own:
  assumes "own2_inv lk rs nd ni w s" and "l2_pipeline s' = l2_pipeline s" "l2_pipeline_in s' = l2_pipeline_in s"
    "l2_pipeline_req_queue s' = l2_pipeline_req_queue s" "l2_miss_pending_buffer s' = l2_miss_pending_buffer s"
    "l2_dcache_resp_queue s' = l2_dcache_resp_queue s" "l2_icache_resp_queue s' = l2_icache_resp_queue s"
    "l2_dcache_req_queue s' = l2_dcache_req_queue s" "l2_icache_req_queue s' = l2_icache_req_queue s"
    "l2_credits dresp s' = l2_credits dresp s" "l2_credits iresp s' = l2_credits iresp s"
  shows "own2_inv lk rs nd ni w s'"
  using assms l2_pipe_cong[of s' s] by (simp add: own2_inv_def)

text \<open>A request goes to the bus interface.\<close>

lemma l2_biu_req:
  assumes inv: "l2_inv pr b lk rs nd ni L w s" and r: "handle_L2Cache_BIU_Req (s\<lparr>l2_ev_biu_req := removeAll 0 (l2_ev_biu_req s)\<rparr>) = s'"
  shows "l2_inv pr b lk rs nd ni (L @ map (getCacheLine pr w) (new_biu_reqs s s')) w s'"
proof (cases "l2_biu_credits s > 0 \<and> l2_biu_req_queue s \<noteq> []")
  case False
  with r have s': "s' = s\<lparr>l2_ev_biu_req := sched 1 (removeAll 0 (l2_ev_biu_req s))\<rparr>" by (auto simp: handle_L2Cache_BIU_Req_def)
  have "l2_inv pr b lk rs nd ni L w s'"
    by (rule same_queues_inv[OF _ inv]) (use inv in \<open>auto simp: s' same_queues_def same_place_def l2_inv_def sched_inv_def wake2_inv_def l2_waiting_def\<close>)
  then show ?thesis by (simp add: new_biu_reqs_def s')
next
  case True
  then obtain m rest where q: "l2_biu_req_queue s = m # rest" by (cases "l2_biu_req_queue s") auto
  from True r q have s': "s' = s\<lparr>l2_ev_biu_req := removeAll 0 (l2_ev_biu_req s), l2_out := l2_out s @ [OutBiuReq m],
      l2_biu_credits := l2_biu_credits s - 1, l2_biu_req_queue := rest\<rparr>" by (auto simp: handle_L2Cache_BIU_Req_def l2_emit_def)
  have n: "new_biu_reqs s s' = [m]" by (simp add: new_biu_reqs_def s')
  have c: "l2_credits icredit s' = l2_credits icredit s" "l2_credits dcredit s' = l2_credits dcredit s" "l2_credits iresp s' = l2_credits iresp s"
    "l2_credits dresp s' = l2_credits dresp s" by (simp_all add: l2_credits_def s' l2_event_counts)
  have o: "own2_inv lk rs nd ni w s'" by (rule same_flow_own[of _ _ _ _ _ s]) (use inv c in \<open>simp_all add: l2_inv_def s'\<close>)
  have "mset (fills_of pr (L @ [getCacheLine pr w m]) w s') = mset (fills_of pr L w s)" by (simp add: fills_of_def s' q)
  then have "distinct (fills_of pr (L @ [getCacheLine pr w m]) w s') = distinct (fills_of pr L w s)"
    "set (fills_of pr (L @ [getCacheLine pr w m]) w s') = set (fills_of pr L w s)" by (auto dest: mset_eq_imp_distinct_iff mset_eq_setD)
  then have f: "fill_inv pr (L @ [getCacheLine pr w m]) w s'" using inv q by (auto simp: l2_inv_def fill_inv_def s')
  have p: "l2_before lk s' = l2_before lk s" "l2_after lk rs s' = l2_after lk rs s" by (simp_all add: l2_before_def l2_after_def s')
  note i = l2_invD[OF inv]
  show ?thesis unfolding n list.map
  proof (rule l2_invI[OF _ o _ f])
    show "pipe_inv pr lk rs s'" using i(1) by (simp add: pipe_inv_def s')
    show "cap_inv pr lk rs s'" using i(3) q unfolding cap_inv_def p by (simp add: s')
    show "grant_inv pr nd ni s'" using i(5) c by (simp add: grant_inv_def s')
    show "sched_inv b rs s'" using i(6) by (simp add: sched_inv_def l2_waiting_def s')
    show "wake2_inv s'" using i(7) by (simp add: wake2_inv_def s')
  qed
qed

text \<open>A response leaves.\<close>

lemma flow_leave:
  assumes "flow_inv w Q P A M D I xd xi"
  shows "D = [m] \<Longrightarrow> flow_inv w Q P A M [] I (xd - 1) xi \<and> 0 < xd" and "I = [m] \<Longrightarrow> flow_inv w Q P A M D [] xd (xi - 1) \<and> 0 < xi"
  using assms by (auto simp: flow_inv_def)

lemma l2_dcache_resp:
  assumes inv: "l2_inv pr b lk rs nd ni L w s" and ev: "0 \<in> set (l2_ev_dcache_resp s)"
  shows "\<exists>s'. handle_L2Cache_DCache_Resp (s\<lparr>l2_ev_dcache_resp := removeAll 0 (l2_ev_dcache_resp s)\<rparr>) = Inr s' \<and> l2_inv pr b lk rs nd ni L w s'"
proof -
  from inv ev obtain m where q: "l2_dcache_resp_queue s = [m]" "l2_icache_resp_queue s = []"
    by (cases "l2_dcache_resp_queue s") (auto simp: l2_inv_def sched_inv_def split: if_splits)
  let ?s = "s\<lparr>l2_ev_dcache_resp := [], l2_out := l2_out s @ [OutDcacheResp m], l2_dcache_resp_queue := []\<rparr>"
  have e: "removeAll 0 (l2_ev_dcache_resp s) = []" using inv q by (simp add: l2_inv_def sched_inv_def)
  have r: "handle_L2Cache_DCache_Resp (s\<lparr>l2_ev_dcache_resp := removeAll 0 (l2_ev_dcache_resp s)\<rparr>) = Inr ?s"
    unfolding e by (simp add: handle_L2Cache_DCache_Resp_def q l2_emit_def)
  have c: "l2_credits icredit ?s = l2_credits icredit s" "l2_credits dcredit ?s = l2_credits dcredit s" "l2_credits iresp ?s = l2_credits iresp s"
    "l2_credits dresp ?s = l2_credits dresp s + 1" by (simp_all add: l2_credits_def l2_event_counts)
  have p: "l2_before lk ?s = l2_before lk s" "l2_after lk rs ?s = l2_after lk rs s" by (simp_all add: l2_before_def l2_after_def)
  from inv obtain xd xi where fl: "flow_inv w (l2_pipeline_req_queue s) (l2_before lk s) (l2_after lk rs s) (l2_miss_pending_buffer s)
       (l2_dcache_resp_queue s) (l2_icache_resp_queue s) xd xi" and
    x: "xd + length (l2_dcache_req_queue s) + l2_credits dresp s = nd" "xi + length (l2_icache_req_queue s) + l2_credits iresp s = ni"
    by (auto simp: l2_inv_def own2_inv_def)
  have "own2_inv lk rs nd ni w ?s" unfolding own2_inv_def
    by (rule exI[of _ "xd - 1"], rule exI[of _ xi]) (use flow_leave(1)[OF fl q(1)] x c p q in simp)
  note o = this and i = l2_invD[OF inv]
  have "l2_inv pr b lk rs nd ni L w ?s"
  proof (rule l2_invI[OF _ o])
    show "pipe_inv pr lk rs ?s" using i(1) by (simp add: pipe_inv_def)
    show "cap_inv pr lk rs ?s" using i(3) unfolding cap_inv_def p by simp
    show "fill_inv pr L w ?s" using i(4) by (simp add: fill_inv_def fills_of_def)
    show "grant_inv pr nd ni ?s" using i(5) c by (simp add: grant_inv_def)
    show "sched_inv b rs ?s" using i(6) q by (simp add: sched_inv_def l2_waiting_def)
    show "wake2_inv ?s" using i(7) by (simp add: wake2_inv_def)
  qed
  with r show ?thesis by blast
qed

lemma l2_icache_resp:
  assumes inv: "l2_inv pr b lk rs nd ni L w s" and ev: "0 \<in> set (l2_ev_icache_resp s)"
  shows "\<exists>s'. handle_L2Cache_ICache_Resp (s\<lparr>l2_ev_icache_resp := removeAll 0 (l2_ev_icache_resp s)\<rparr>) = Inr s' \<and> l2_inv pr b lk rs nd ni L w s'"
proof -
  from inv ev obtain m where q: "l2_icache_resp_queue s = [m]" "l2_dcache_resp_queue s = []"
    by (cases "l2_icache_resp_queue s") (auto simp: l2_inv_def sched_inv_def split: if_splits)
  let ?s = "s\<lparr>l2_ev_icache_resp := [], l2_out := l2_out s @ [OutIcacheResp m], l2_icache_resp_queue := []\<rparr>"
  have e: "removeAll 0 (l2_ev_icache_resp s) = []" using inv q by (simp add: l2_inv_def sched_inv_def)
  have r: "handle_L2Cache_ICache_Resp (s\<lparr>l2_ev_icache_resp := removeAll 0 (l2_ev_icache_resp s)\<rparr>) = Inr ?s"
    unfolding e by (simp add: handle_L2Cache_ICache_Resp_def q l2_emit_def)
  have c: "l2_credits icredit ?s = l2_credits icredit s" "l2_credits dcredit ?s = l2_credits dcredit s" "l2_credits dresp ?s = l2_credits dresp s"
    "l2_credits iresp ?s = l2_credits iresp s + 1" by (simp_all add: l2_credits_def l2_event_counts)
  have p: "l2_before lk ?s = l2_before lk s" "l2_after lk rs ?s = l2_after lk rs s" by (simp_all add: l2_before_def l2_after_def)
  from inv obtain xd xi where fl: "flow_inv w (l2_pipeline_req_queue s) (l2_before lk s) (l2_after lk rs s) (l2_miss_pending_buffer s)
       (l2_dcache_resp_queue s) (l2_icache_resp_queue s) xd xi" and
    x: "xd + length (l2_dcache_req_queue s) + l2_credits dresp s = nd" "xi + length (l2_icache_req_queue s) + l2_credits iresp s = ni"
    by (auto simp: l2_inv_def own2_inv_def)
  have "own2_inv lk rs nd ni w ?s" unfolding own2_inv_def
    by (rule exI[of _ xd], rule exI[of _ "xi - 1"]) (use flow_leave(2)[OF fl q(1)] x c p q in simp)
  note o = this and i = l2_invD[OF inv]
  have "l2_inv pr b lk rs nd ni L w ?s"
  proof (rule l2_invI[OF _ o])
    show "pipe_inv pr lk rs ?s" using i(1) by (simp add: pipe_inv_def)
    show "cap_inv pr lk rs ?s" using i(3) unfolding cap_inv_def p by simp
    show "fill_inv pr L w ?s" using i(4) by (simp add: fill_inv_def fills_of_def)
    show "grant_inv pr nd ni ?s" using i(5) c by (simp add: grant_inv_def)
    show "sched_inv b rs ?s" using i(6) q by (simp add: sched_inv_def l2_waiting_def)
    show "wake2_inv ?s" using i(7) by (simp add: wake2_inv_def)
  qed
  with r show ?thesis by blast
qed

text \<open>The next cycle: the pipeline shifts, and what was before or after the lookup still is.\<close>

lemma shift_pipe:
  assumes "2 \<le> length (l2_pipeline s)"
  defines "y \<equiv> last (butlast (l2_pipeline s))" and "xs \<equiv> l2_pipeline_in s # butlast (butlast (l2_pipeline s))"
  shows "l2_pipeline (l2_tick s) = xs @ [y]" "l2_pipeline_in (l2_tick s) = None" "length (xs @ [y]) = length (l2_pipeline s)" "xs \<noteq> []"
proof -
  have "butlast (l2_pipeline s) \<noteq> []" using assms(1) by (cases "l2_pipeline s" rule: rev_cases) auto
  then show "l2_pipeline (l2_tick s) = xs @ [y]" by (simp add: l2_tick_def xs_def y_def)
  show "length (xs @ [y]) = length (l2_pipeline s)" using assms(1) by (simp add: xs_def)
qed (simp_all add: l2_tick_def xs_def)

lemma tick_places:
  assumes "2 \<le> length (l2_pipeline s)"
  defines "lk \<equiv> last (butlast (l2_pipeline (l2_tick s))) \<noteq> None" and "rs \<equiv> last (l2_pipeline (l2_tick s)) \<noteq> None"
  shows "l2_before lk (l2_tick s) = l2_before False s" "l2_after lk rs (l2_tick s) = l2_after False False s"
proof -
  note p = shift_pipe[OF assms(1)]
  obtain zs z where xs: "l2_pipeline_in s # butlast (butlast (l2_pipeline s)) = zs @ [z]" by (metis append_butlast_last_id list.distinct(1))
  have c: "concat (map opt_list (zs @ [z])) = opt_list (l2_pipeline_in s) @ concat (map opt_list (butlast (butlast (l2_pipeline s))))"
    by (simp flip: xs)
  have bl: "butlast ((zs @ [z]) @ [y]) = zs @ [z]" "butlast (zs @ [z]) = zs" for y by (simp_all add: butlast_append)
  show "l2_before lk (l2_tick s) = l2_before False s"
    using c unfolding l2_before_def lk_def p(1,2) xs bl by (cases z) simp_all
  show "l2_after lk rs (l2_tick s) = l2_after False False s"
    unfolding l2_after_def lk_def rs_def p(1) xs bl by (cases z; cases "last (butlast (l2_pipeline s))") simp_all
qed

lemma last_stages:
  assumes "2 \<le> length ps"
  shows "ps ! (length ps - 1) = last ps" "ps ! (length ps - 1 - 1) = last (butlast ps)"
proof -
  have "ps \<noteq> []" "butlast ps \<noteq> []" using assms by (auto simp flip: length_greater_0_conv)
  then show "ps ! (length ps - 1) = last ps" "ps ! (length ps - 1 - 1) = last (butlast ps)"
    using assms by (simp_all add: last_conv_nth nth_butlast)
qed

lemma next_cycle_simps [simp]: "next_cycle ds = [] \<longleftrightarrow> ds = []"
  by (simp add: next_cycle_def)

lemma l2_cycle:
  assumes inv: "l2_inv pr b False False nd ni L w s" and q: "l2_quiet s" and pr: "l2_params_ok pr"
  shows "l2_inv pr False (stage_valid pr (L2_CACHE_LOOKUP pr) (l2_tick s)) (stage_valid pr (L2_HIT_MISS_HANDLING pr) (l2_tick s)) nd ni L w (l2_tick s)"
proof -
  have len: "length (l2_pipeline s) = L2_NUM_STAGES pr" "2 \<le> length (l2_pipeline s)"
    using inv pr by (simp_all add: l2_inv_def pipe_inv_def l2_params_ok_def L2_NUM_STAGES_def)
  have len': "length (l2_pipeline (l2_tick s)) = L2_NUM_STAGES pr" "2 \<le> length (l2_pipeline (l2_tick s))"
    using shift_pipe(1,3)[OF len(2)] len by simp_all
  note st = last_stages[OF len'(2), unfolded len'(1)]
  have v: "stage_valid pr (L2_CACHE_LOOKUP pr) (l2_tick s) = (last (butlast (l2_pipeline (l2_tick s))) \<noteq> None)"
    "stage_valid pr (L2_HIT_MISS_HANDLING pr) (l2_tick s) = (last (l2_pipeline (l2_tick s)) \<noteq> None)"
    using st by (simp_all add: stage_valid_def L2_CACHE_LOOKUP_def L2_HIT_MISS_HANDLING_def)
  note pl = tick_places[OF len(2)]
  have e: "l2_dcache_resp_queue s = []" "l2_icache_resp_queue s = []"
    using inv q by (auto simp: l2_inv_def sched_inv_def l2_quiet_def split: if_splits)
  have t: "l2_pipeline_in (l2_tick s) = None" "l2_pipeline_req_queue (l2_tick s) = l2_pipeline_req_queue s" "l2_miss_pending_buffer (l2_tick s) = l2_miss_pending_buffer s"
    "l2_dcache_resp_queue (l2_tick s) = []" "l2_icache_resp_queue (l2_tick s) = []" "l2_dcache_req_queue (l2_tick s) = l2_dcache_req_queue s"
    "l2_icache_req_queue (l2_tick s) = l2_icache_req_queue s" "l2_biu_req_queue (l2_tick s) = l2_biu_req_queue s"
    "l2_biu_resp_queue (l2_tick s) = l2_biu_resp_queue s" "l2_inFlight_reqs (l2_tick s) = l2_inFlight_reqs s" "\<And>f. l2_credits f (l2_tick s) = l2_credits f s"
    "l2_channel_select (l2_tick s) = l2_channel_select s"
    using e by (simp_all add: l2_tick_def l2_credits_def)
  have "set (l2_ev_create_req s) \<subseteq> {1}" using inv q by (auto simp: l2_inv_def sched_inv_def l2_quiet_def split: if_splits)
  then have cr: "set (l2_ev_create_req (l2_tick s)) \<subseteq> {0}" by (auto simp: l2_tick_def next_cycle_def)
  have ev: "sched_inv False rs (l2_tick s)" for rs
    using inv cr e unfolding l2_inv_def sched_inv_def t l2_waiting_def by (simp add: l2_tick_def next_cycle_def)
  have wk: "wake2_inv (l2_tick s)" using inv unfolding l2_inv_def wake2_inv_def t by (simp add: l2_tick_def)
  note i = l2_invD[OF inv]
  show ?thesis unfolding v
  proof (rule l2_invI[OF _ _ _ _ _ ev wk])
    show "pipe_inv pr (last (butlast (l2_pipeline (l2_tick s))) \<noteq> None) (last (l2_pipeline (l2_tick s)) \<noteq> None) (l2_tick s)"
      using len' by (simp add: pipe_inv_def)
    show "own2_inv (last (butlast (l2_pipeline (l2_tick s))) \<noteq> None) (last (l2_pipeline (l2_tick s)) \<noteq> None) nd ni w (l2_tick s)"
      using i(2) unfolding own2_inv_def pl t e .
    show "cap_inv pr (last (butlast (l2_pipeline (l2_tick s))) \<noteq> None) (last (l2_pipeline (l2_tick s)) \<noteq> None) (l2_tick s)"
      using i(3) unfolding cap_inv_def pl t .
    show "fill_inv pr L w (l2_tick s)" using i(4) unfolding fill_inv_def fills_of_def t .
    show "grant_inv pr nd ni (l2_tick s)" using i(5) unfolding grant_inv_def t .
  qed
qed

text \<open>The arbitration. What it leaves behind is completed by the two events at its end.\<close>

definition create_end :: "'c L2Cache \<Rightarrow> 'c L2Cache" where
  "create_end s = (let s3 = schedule_issue_req 1 s in if l2_waiting s3 then schedule_create_req 1 s3 else s3)"

definition mid_inv ::
    "L2CacheParameterSet \<Rightarrow> bool \<Rightarrow> bool \<Rightarrow> nat \<Rightarrow> nat \<Rightarrow> 64 word list \<Rightarrow> 'a world_scheme \<Rightarrow> 'c L2Cache \<Rightarrow> bool" where
  "mid_inv pr lk rs nd ni L w s \<longleftrightarrow> pipe_inv pr lk rs s \<and> own2_inv lk rs nd ni w s \<and> cap_inv pr lk rs s \<and> fill_inv pr L w s \<and>
     grant_inv pr nd ni s \<and> sched_inv True rs s"

lemma create_end_inv:
  assumes "mid_inv pr lk rs nd ni L w s"
  shows "l2_inv pr True lk rs nd ni L w (create_end s)"
proof -
  let ?s = "create_end s"
  have f: "l2_pipeline ?s = l2_pipeline s" "l2_pipeline_in ?s = l2_pipeline_in s" "l2_pipeline_req_queue ?s = l2_pipeline_req_queue s"
    "l2_miss_pending_buffer ?s = l2_miss_pending_buffer s" "l2_dcache_resp_queue ?s = l2_dcache_resp_queue s"
    "l2_icache_resp_queue ?s = l2_icache_resp_queue s" "l2_dcache_req_queue ?s = l2_dcache_req_queue s" "l2_icache_req_queue ?s = l2_icache_req_queue s"
    "l2_biu_req_queue ?s = l2_biu_req_queue s" "l2_biu_resp_queue ?s = l2_biu_resp_queue s" "l2_inFlight_reqs ?s = l2_inFlight_reqs s" "l2_out ?s = l2_out s"
    "l2_ev_issue_req ?s = sched 1 (l2_ev_issue_req s)" "l2_channel_select ?s = l2_channel_select s"
    "l2_ev_dcache_resp ?s = l2_ev_dcache_resp s" "l2_ev_icache_resp ?s = l2_ev_icache_resp s"
    "l2_ev_create_req ?s = (if l2_waiting s then sched 1 (l2_ev_create_req s) else l2_ev_create_req s)"
    by (simp_all add: create_end_def schedule_issue_req_def schedule_create_req_def Let_def l2_waiting_def)
  have p: "l2_before lk ?s = l2_before lk s" "l2_after lk rs ?s = l2_after lk rs s" by (simp_all add: l2_before_def l2_after_def f)
  have c: "l2_credits g ?s = l2_credits g s" for g by (simp add: l2_credits_def f)
  have wt: "l2_waiting ?s = l2_waiting s" by (simp add: l2_waiting_def f)
  note m = assms[unfolded mid_inv_def]
  show ?thesis
  proof (rule l2_invI)
    show "pipe_inv pr lk rs ?s" using m by (simp add: pipe_inv_def f)
    show "own2_inv lk rs nd ni w ?s" using m by (simp add: own2_inv_def f p c)
    show "cap_inv pr lk rs ?s" using m by (simp add: cap_inv_def f p)
    show "fill_inv pr L w ?s" using m by (simp add: fill_inv_def fills_of_def f)
    show "grant_inv pr nd ni ?s" using m by (simp add: grant_inv_def f c)
    have "sched_inv True rs s" using m by simp
    then show "sched_inv True rs ?s" unfolding sched_inv_def wt f by (auto simp: sched_def)
    show "wake2_inv ?s" unfolding wake2_inv_def f by (auto simp: l2_waiting_def)
  qed
qed

lemma create_Req_eq:
  assumes "l2_waiting s" and "l2_channel_select s = CH_ICACHE \<or> l2_channel_select s = CH_DCACHE"
  shows "\<exists>ch winner. create_Req pr (w, s) = Inr (map_prod id create_end (case winner of
         CH_BIU \<Rightarrow> create_reload pr (w, s\<lparr>l2_channel_select := ch\<rparr>) | CH_ICACHE \<Rightarrow> create_icache (w, s\<lparr>l2_channel_select := ch\<rparr>)
       | CH_DCACHE \<Rightarrow> create_dcache (w, s\<lparr>l2_channel_select := ch\<rparr>) | CH_NO_ACCESS \<Rightarrow> (w, schedule_create_req 1 (s\<lparr>l2_channel_select := ch\<rparr>)))) \<and>
     (ch = CH_ICACHE \<or> ch = CH_DCACHE) \<and>
     (winner \<noteq> CH_NO_ACCESS \<longrightarrow> length (l2_pipeline_req_queue s) \<noteq> lp_pipeline_req_queue_size pr) \<and>
     (winner = CH_BIU \<longrightarrow> l2_biu_resp_queue s \<noteq> []) \<and> (winner = CH_ICACHE \<longrightarrow> l2_icache_req_queue s \<noteq> []) \<and>
     (winner = CH_DCACHE \<longrightarrow> l2_dcache_req_queue s \<noteq> [])"
proof -
  obtain winner ch where a: "arbitrateL2CacheAccessReqs pr s = Inr (winner, s\<lparr>l2_channel_select := ch\<rparr>)" "ch = CH_ICACHE \<or> ch = CH_DCACHE"
    "winner \<noteq> CH_NO_ACCESS \<longrightarrow> length (l2_pipeline_req_queue s) \<noteq> lp_pipeline_req_queue_size pr"
    "winner = CH_BIU \<longrightarrow> l2_biu_resp_queue s \<noteq> []" "winner = CH_ICACHE \<longrightarrow> l2_icache_req_queue s \<noteq> []"
    "winner = CH_DCACHE \<longrightarrow> l2_dcache_req_queue s \<noteq> []"
  proof -
    have "\<exists>winner ch. arbitrateL2CacheAccessReqs pr s = Inr (winner, s\<lparr>l2_channel_select := ch\<rparr>) \<and> (ch = CH_ICACHE \<or> ch = CH_DCACHE) \<and>
      (winner \<noteq> CH_NO_ACCESS \<longrightarrow> length (l2_pipeline_req_queue s) \<noteq> lp_pipeline_req_queue_size pr) \<and>
      (winner = CH_BIU \<longrightarrow> l2_biu_resp_queue s \<noteq> []) \<and> (winner = CH_ICACHE \<longrightarrow> l2_icache_req_queue s \<noteq> []) \<and>
      (winner = CH_DCACHE \<longrightarrow> l2_dcache_req_queue s \<noteq> [])"
    proof -
      have same: "s\<lparr>l2_channel_select := l2_channel_select s\<rparr> = s" by simp
      have asrt: "l2_icache_req_queue s \<noteq> [] \<or> l2_dcache_req_queue s \<noteq> [] \<or> l2_biu_resp_queue s \<noteq> []" using assms(1) by (simp add: l2_waiting_def)
      show ?thesis
      proof (cases "length (l2_pipeline_req_queue s) = lp_pipeline_req_queue_size pr \<or> l2_biu_resp_queue s \<noteq> []")
        case True
        show ?thesis
          by (rule exI[of _ "if length (l2_pipeline_req_queue s) = lp_pipeline_req_queue_size pr then CH_NO_ACCESS else CH_BIU"],
              rule exI[of _ "l2_channel_select s"]) (use True asrt assms(2) same in \<open>auto simp: arbitrateL2CacheAccessReqs_def\<close>)
      next
        case False
        show ?thesis
        proof (cases "l2_channel_select s = CH_ICACHE")
          case True
          show ?thesis
            by (rule exI[of _ "if l2_icache_req_queue s \<noteq> [] then CH_ICACHE else CH_NO_ACCESS"], rule exI[of _ CH_DCACHE])
              (use True False asrt in \<open>simp add: arbitrateL2CacheAccessReqs_def\<close>)
        next
          case nI: False
          show ?thesis
            by (rule exI[of _ "if l2_dcache_req_queue s \<noteq> [] then CH_DCACHE else CH_NO_ACCESS"], rule exI[of _ CH_ICACHE])
              (use nI False asrt assms(2) in \<open>simp add: arbitrateL2CacheAccessReqs_def\<close>)
        qed
      qed
    qed
    with that show ?thesis by blast
  qed
  show ?thesis
    by (rule exI[of _ ch], rule exI[of _ winner])
      (cases winner; use a in \<open>simp add: create_Req_def create_end_def Let_def l2_waiting_def disj_ac split: prod.split\<close>)
qed

lemma mid_channel:
  assumes inv: "l2_inv pr False lk rs nd ni L w s" and ch: "ch = CH_ICACHE \<or> ch = CH_DCACHE"
  defines "s0 \<equiv> s\<lparr>l2_ev_create_req := removeAll 0 (l2_ev_create_req s)\<rparr>"
  shows "mid_inv pr lk rs nd ni L w (s0\<lparr>l2_channel_select := ch\<rparr>)" "l2_ev_create_req s0 = []"
proof -
  note i = l2_invD[OF inv]
  have e: "removeAll 0 (l2_ev_create_req s) = []" using i(6) by (auto simp: sched_inv_def filter_empty_conv removeAll_filter_not_eq)
  then show "l2_ev_create_req s0 = []" by (simp add: s0_def)
  let ?s = "s0\<lparr>l2_channel_select := ch\<rparr>"
  have p: "l2_before lk ?s = l2_before lk s" "l2_after lk rs ?s = l2_after lk rs s" by (simp_all add: l2_before_def l2_after_def s0_def)
  have c: "l2_credits g ?s = l2_credits g s" for g by (simp add: l2_credits_def s0_def)
  have "pipe_inv pr lk rs ?s" using i(1) by (simp add: pipe_inv_def s0_def)
  moreover have "own2_inv lk rs nd ni w ?s" using i(2) unfolding own2_inv_def p c by (simp add: s0_def)
  moreover have "cap_inv pr lk rs ?s" using i(3) unfolding cap_inv_def p by (simp add: s0_def)
  moreover have "fill_inv pr L w ?s" using i(4) by (simp add: fill_inv_def fills_of_def s0_def)
  moreover have "grant_inv pr nd ni ?s" using i(5) unfolding grant_inv_def c by (simp add: s0_def)
  moreover have "sched_inv True rs ?s" using i(6) ch e by (simp add: sched_inv_def s0_def)
  ultimately show "mid_inv pr lk rs nd ni L w ?s" by (simp add: mid_inv_def)
qed

lemma dropWhile_pending:
  assumes "dropWhile P ms = m # rest"
  shows "ms = takeWhile P ms @ m # rest" "\<not> P m" "\<forall>x\<in>set (takeWhile P ms). P x"
  using assms takeWhile_dropWhile_id[of P ms] hd_dropWhile[of P ms] by (auto dest: set_takeWhileD)

lemma flowD:
  assumes "flow_inv w Q P A M D I nd ni"
  shows "\<And>m. m \<in> set (Q @ P) \<Longrightarrow> before_ok w m" "\<And>m. m \<in> set A \<Longrightarrow> after_ok w m" "\<And>m. m \<in> set M \<Longrightarrow> miss_ok w m"
    "\<And>m. m \<in> set D \<Longrightarrow> home w m = AU_DCACHE" "\<And>m. m \<in> set I \<Longrightarrow> home w m = AU_ICACHE" "distinct (Q @ P @ A @ M @ D @ I)"
    "\<And>m. m \<in> set (Q @ P @ A @ M @ D @ I) \<Longrightarrow> m < w_next w"
  using assms unfolding flow_inv_def by blast+

lemma ok_cong:
  assumes "w_mai w' m = w_mai w m"
  shows "before_ok w' m = before_ok w m" "after_ok w' m = after_ok w m" "miss_ok w' m = miss_ok w m"
  using assms by (simp_all add: before_ok_def after_ok_def miss_ok_def)

text \<open>A pending miss goes back to the pipeline.\<close>

lemma mid_reload:
  assumes mid: "mid_inv pr lk rs nd ni L w s" and q: "l2_biu_resp_queue s \<noteq> []" and e: "l2_ev_create_req s = []"
    and room: "length (l2_pipeline_req_queue s) \<noteq> lp_pipeline_req_queue_size pr"
    and r: "create_reload pr (w, s) = (w', s')"
  shows "mid_inv pr lk rs nd ni L w' s'"
proof -
  define l where "l = getCacheLine pr w (hd (l2_biu_resp_queue s))"
  obtain x xs where resp: "l2_biu_resp_queue s = x # xs" using q by (cases "l2_biu_resp_queue s") auto
  note i = mid[unfolded mid_inv_def]
  from i have fill: "fill_inv pr L w s" by simp
  let ?P = "\<lambda>m. getCacheLine pr w m \<noteq> l" and ?M = "l2_miss_pending_buffer s"
  have "l \<in> set (fills_of pr L w s)" by (simp add: fills_of_def resp l_def)
  then have "l \<in> getCacheLine pr w ` set ?M" using fill by (simp add: fill_inv_def)
  then have "dropWhile ?P ?M \<noteq> []" by (auto simp: dropWhile_eq_Nil_conv)
  then obtain m rest where dw: "dropWhile ?P ?M = m # rest" by (cases "dropWhile ?P ?M") auto
  note M = dropWhile_pending[OF dw]
  define M1 where "M1 = takeWhile ?P ?M"
  have Mq: "?M = M1 @ m # rest" "getCacheLine pr w m = l" "\<forall>y\<in>set M1. getCacheLine pr w y \<noteq> l" using M by (auto simp: M1_def)
  have lt: "length (l2_pipeline_req_queue s) < lp_pipeline_req_queue_size pr" using room i by (simp add: cap_inv_def)
  define resp' where "resp' = (if dropWhile ?P rest = [] then xs else x # xs)"
  have w': "w' = upd_mai m (\<lambda>a. a\<lparr>mi_dest := mi_src a, mi_src := AU_BIU, mi_cache_access_state := CS_RELOAD\<rparr>) w"
    and s': "s' = s\<lparr>l2_pipeline_req_queue := l2_pipeline_req_queue s @ [m], l2_biu_resp_queue := resp', l2_miss_pending_buffer := M1 @ rest\<rparr>"
    using r[unfolded create_reload_def prod.case Let_def, folded l_def, unfolded dw list.case] lt
    by (auto simp: resp M1_def resp'_def simp del: dropWhile_eq_Nil_conv)
  have mai: "mi_paddr (w_mai w' y) = mi_paddr (w_mai w y)" for y by (simp add: w' upd_mai_def)
  have g: "getCacheLine pr w' y = getCacheLine pr w y" for y by (rule getCacheLine_cong[OF mai])
  have p: "l2_before lk s' = l2_before lk s" "l2_after lk rs s' = l2_after lk rs s" by (simp_all add: l2_before_def l2_after_def s')
  have c: "l2_credits f s' = l2_credits f s" for f by (simp add: l2_credits_def s')
  from i obtain xd xi where fl: "flow_inv w (l2_pipeline_req_queue s) (l2_before lk s) (l2_after lk rs s) ?M (l2_dcache_resp_queue s) (l2_icache_resp_queue s) xd xi"
    and n: "xd + length (l2_dcache_req_queue s) + l2_credits dresp s = nd" "xi + length (l2_icache_req_queue s) + l2_credits iresp s = ni"
    by (auto simp: own2_inv_def)
  have mok: "miss_ok w m" and md: "m \<notin> set (l2_pipeline_req_queue s @ l2_before lk s @ l2_after lk rs s @ M1 @ rest @ l2_dcache_resp_queue s @ l2_icache_resp_queue s)"
    using flowD(3,6)[OF fl] Mq(1) by auto
  have ws: "w_mai w' y = w_mai w y" if "y \<noteq> m" for y using that by (simp add: w' upd_mai_def)
  have hm: "home w' y = home w y" for y
    using mok by (cases "y = m") (auto simp: home_def w' upd_mai_def miss_ok_def is_l1_def)
  have "flow_inv w' (l2_pipeline_req_queue s @ [m]) (l2_before lk s) (l2_after lk rs s) (M1 @ rest) (l2_dcache_resp_queue s) (l2_icache_resp_queue s) xd xi"
  proof (rule flow_move[OF fl])
    show "mset ((l2_pipeline_req_queue s @ [m]) @ l2_before lk s @ l2_after lk rs s @ (M1 @ rest) @ l2_dcache_resp_queue s @ l2_icache_resp_queue s) =
      mset (l2_pipeline_req_queue s @ l2_before lk s @ l2_after lk rs s @ ?M @ l2_dcache_resp_queue s @ l2_icache_resp_queue s)" by (simp add: Mq(1))
    have "before_ok w' m" using mok by (simp add: before_ok_def w' upd_mai_def miss_ok_def)
    moreover have "before_ok w' y" if "y \<in> set (l2_pipeline_req_queue s @ l2_before lk s)" for y
      using flowD(1)[OF fl that] that md ok_cong(1)[OF ws, of y] by auto
    ultimately show "\<forall>y\<in>set ((l2_pipeline_req_queue s @ [m]) @ l2_before lk s). before_ok w' y" by auto
    show "\<forall>y\<in>set (l2_after lk rs s). after_ok w' y" using flowD(2)[OF fl] md ok_cong(2)[OF ws] by fastforce
    show "\<forall>y\<in>set (M1 @ rest). miss_ok w' y" using flowD(3)[OF fl] md ok_cong(3)[OF ws] Mq(1) by fastforce
    show "w_next w' = w_next w" by (simp add: w' upd_mai_def)
  qed (use flowD(4,5)[OF fl] hm in simp_all)
  then have o: "own2_inv lk rs nd ni w' s'" using n unfolding own2_inv_def p c by (auto simp: s')
  have cp: "cap_inv pr lk rs s'" using i lt unfolding cap_inv_def p by (simp add: s' Mq(1))
  have fi: "fill_inv pr L w' s'"
  proof -
    have dist: "distinct (fills_of pr L w s)" and st: "set (fills_of pr L w s) = getCacheLine pr w ` set ?M" and
      sub: "set (l2_biu_req_queue s) \<subseteq> set ?M" using fill by (simp_all add: fill_inv_def)
    have lx: "getCacheLine pr w x = l" by (simp add: l_def resp)
    have nin: "l \<notin> set (map (getCacheLine pr w) (l2_biu_req_queue s) @ L @ map (getCacheLine pr w) xs)"
      using dist by (auto simp: fills_of_def resp lx)
    then have mnot: "m \<notin> set (l2_biu_req_queue s)" using Mq(2) by auto
    have fo: "fills_of pr L w' s' = map (getCacheLine pr w) (l2_biu_req_queue s) @ L @ map (getCacheLine pr w) resp'"
      by (simp add: fills_of_def s' g)
    have d': "distinct (fills_of pr L w' s')" using dist unfolding fo by (auto simp: fills_of_def resp resp'_def)
    have s2: "set (fills_of pr L w' s') = getCacheLine pr w' ` set (M1 @ rest)"
    proof (cases "dropWhile ?P rest = []")
      case True
      then have "l \<notin> getCacheLine pr w ` set (M1 @ rest)" using Mq(3) by (auto simp: dropWhile_eq_Nil_conv)
      moreover have "insert l (set (fills_of pr L w' s')) = set (fills_of pr L w s)" unfolding fo using True by (auto simp: fills_of_def resp resp'_def lx)
      moreover have "l \<notin> set (fills_of pr L w' s')" unfolding fo using nin True by (simp add: resp'_def)
      moreover have "getCacheLine pr w ` set ?M = insert l (getCacheLine pr w ` set (M1 @ rest))" using Mq(1,2) by auto
      ultimately show ?thesis using st by (simp add: insert_ident g)
    next
      case False
      then obtain y where "y \<in> set rest" "getCacheLine pr w y = l" by (auto simp: dropWhile_eq_Nil_conv)
      then have "getCacheLine pr w ` set ?M = getCacheLine pr w ` set (M1 @ rest)" using Mq(1,2) by auto
      then show ?thesis using st False unfolding fo by (auto simp: fills_of_def resp resp'_def g)
    qed
    have "set (l2_biu_req_queue s) \<subseteq> set (M1 @ rest)" using sub mnot Mq(1) by auto
    moreover have "\<forall>y\<in>set resp'. y < w_next w'" using fill by (auto simp: fill_inv_def resp resp'_def w' upd_mai_def)
    ultimately show ?thesis using d' s2 by (simp add: fill_inv_def s')
  qed
  have "pipe_inv pr lk rs s'" using i by (simp add: pipe_inv_def s')
  moreover have "grant_inv pr nd ni s'" using i unfolding grant_inv_def c by (simp add: s')
  moreover have "sched_inv True rs s'" using i e by (simp add: sched_inv_def s')
  ultimately show ?thesis using o cp fi by (simp add: mid_inv_def)
qed

lemma copy_facts:
  assumes "create_copy u m w = (n, w')"
  shows "n = w_next w" "w_next w' = w_next w + 1" "\<And>y. y \<noteq> n \<Longrightarrow> w_mai w' y = w_mai w y"
  using assms by (auto simp: create_copy_def copy_access_def upd_mai_def)

text \<open>The same for a request of the data cache and of the instruction cache.\<close>

lemma mid_copy:
  assumes mid: "mid_inv pr lk rs nd ni L w s" and room: "length (l2_pipeline_req_queue s) \<noteq> lp_pipeline_req_queue_size pr" and e: "l2_ev_create_req s = []"
    and u: "u = AU_DCACHE \<and> l2_dcache_req_queue s \<noteq> [] \<and> dq = tl (l2_dcache_req_queue s) \<and> iq = l2_icache_req_queue s \<and> ev = OutDcacheCredits 1 \<or>
        u = AU_ICACHE \<and> l2_icache_req_queue s \<noteq> [] \<and> iq = tl (l2_icache_req_queue s) \<and> dq = l2_dcache_req_queue s \<and> ev = OutIcacheCredits 1"
    and cp: "create_copy u m w = (n, w')"
    and s': "s' = s\<lparr>l2_pipeline_req_queue := l2_pipeline_req_queue s @ [n], l2_dcache_req_queue := dq, l2_icache_req_queue := iq, l2_out := l2_out s @ [ev]\<rparr>"
  shows "mid_inv pr lk rs nd ni L w' s'"
proof -
  note i = mid[unfolded mid_inv_def] and f = copy_facts[OF cp]
  have lt: "length (l2_pipeline_req_queue s) < lp_pipeline_req_queue_size pr" using room i by (simp add: cap_inv_def)
  have p: "l2_before lk s' = l2_before lk s" "l2_after lk rs s' = l2_after lk rs s" by (simp_all add: l2_before_def l2_after_def s')
  have c: "l2_credits iresp s' = l2_credits iresp s" "l2_credits dresp s' = l2_credits dresp s"
    "l2_credits dcredit s' = l2_credits dcredit s + (if u = AU_DCACHE then 1 else 0)"
    "l2_credits icredit s' = l2_credits icredit s + (if u = AU_ICACHE then 1 else 0)"
    using u by (auto simp: l2_credits_def s' l2_event_counts)
  have q: "length dq + (if u = AU_DCACHE then 1 else 0) = length (l2_dcache_req_queue s)"
    "length iq + (if u = AU_ICACHE then 1 else 0) = length (l2_icache_req_queue s)" using u by auto
  from i obtain xd xi where fl: "flow_inv w (l2_pipeline_req_queue s) (l2_before lk s) (l2_after lk rs s) (l2_miss_pending_buffer s)
      (l2_dcache_resp_queue s) (l2_icache_resp_queue s) xd xi"
    and x: "xd + length (l2_dcache_req_queue s) + l2_credits dresp s = nd" "xi + length (l2_icache_req_queue s) + l2_credits iresp s = ni"
    by (auto simp: own2_inv_def)
  have ul: "is_l1 u" using u by (auto simp: is_l1_def)
  have o: "own2_inv lk rs nd ni w' s'" unfolding own2_inv_def p c
    by (rule exI[of _ "if u = AU_DCACHE then xd + 1 else xd"], rule exI[of _ "if u = AU_ICACHE then xi + 1 else xi"])
      (use flow_copy[OF fl cp ul] x q in \<open>simp add: s' split: if_splits\<close>)
  have old: "w_mai w' y = w_mai w y" if "y \<in> set (l2_miss_pending_buffer s) \<union> set (l2_biu_resp_queue s)" for y
  proof (rule f(3))
    have "y < w_next w" using that i fl by (auto simp: fill_inv_def flow_inv_def)
    then show "y \<noteq> n" using f(1) by simp
  qed
  have fi: "fill_inv pr L w' s"
    by (rule fill_inv_cong[of pr L w]) (use i f(2) old in simp_all)
  then have "fill_inv pr L w' s'" by (simp add: fill_inv_def fills_of_def s')
  moreover have "cap_inv pr lk rs s'" using i lt unfolding cap_inv_def p by (simp add: s')
  moreover have "pipe_inv pr lk rs s'" using i by (simp add: pipe_inv_def s')
  moreover have "grant_inv pr nd ni s'" using i q unfolding grant_inv_def c by (simp add: s' split: if_splits)
  moreover have "sched_inv True rs s'" using i e by (simp add: sched_inv_def s')
  ultimately show ?thesis using o by (simp add: mid_inv_def)
qed

lemma l2_create:
  assumes inv: "l2_inv pr False lk rs nd ni L w s" and ev: "0 \<in> set (l2_ev_create_req s)"
  shows "\<exists>w' s'. create_Req pr (w, s\<lparr>l2_ev_create_req := removeAll 0 (l2_ev_create_req s)\<rparr>) = Inr (w', s') \<and> l2_inv pr True lk rs nd ni L w' s'"
proof -
  let ?s = "s\<lparr>l2_ev_create_req := removeAll 0 (l2_ev_create_req s)\<rparr>"
  note i = l2_invD[OF inv]
  have wt: "l2_waiting s" using i(6) ev by (auto simp: sched_inv_def)
  then have "l2_waiting ?s" "l2_channel_select ?s = CH_ICACHE \<or> l2_channel_select ?s = CH_DCACHE" using i(6) by (auto simp: l2_waiting_def sched_inv_def)
  from create_Req_eq[OF this, of pr w] obtain ch winner where
    r: "create_Req pr (w, ?s) = Inr (map_prod id create_end (case winner of
         CH_BIU \<Rightarrow> create_reload pr (w, ?s\<lparr>l2_channel_select := ch\<rparr>) | CH_ICACHE \<Rightarrow> create_icache (w, ?s\<lparr>l2_channel_select := ch\<rparr>)
       | CH_DCACHE \<Rightarrow> create_dcache (w, ?s\<lparr>l2_channel_select := ch\<rparr>) | CH_NO_ACCESS \<Rightarrow> (w, schedule_create_req 1 (?s\<lparr>l2_channel_select := ch\<rparr>))))"
    and ch: "ch = CH_ICACHE \<or> ch = CH_DCACHE"
    and q: "winner \<noteq> CH_NO_ACCESS \<longrightarrow> length (l2_pipeline_req_queue ?s) \<noteq> lp_pipeline_req_queue_size pr"
      "winner = CH_BIU \<longrightarrow> l2_biu_resp_queue ?s \<noteq> []" "winner = CH_ICACHE \<longrightarrow> l2_icache_req_queue ?s \<noteq> []"
      "winner = CH_DCACHE \<longrightarrow> l2_dcache_req_queue ?s \<noteq> []" by blast
  let ?c = "?s\<lparr>l2_channel_select := ch\<rparr>"
  note mid = mid_channel(1)[OF inv ch] and e = mid_channel(2)[OF inv ch]
  have e': "l2_ev_create_req ?c = []" using e by simp
  have room: "length (l2_pipeline_req_queue ?c) \<noteq> lp_pipeline_req_queue_size pr" if "winner \<noteq> CH_NO_ACCESS" using q(1) that by simp
  obtain w2 s2 where x: "(case winner of
         CH_BIU \<Rightarrow> create_reload pr (w, ?c) | CH_ICACHE \<Rightarrow> create_icache (w, ?c)
       | CH_DCACHE \<Rightarrow> create_dcache (w, ?c) | CH_NO_ACCESS \<Rightarrow> (w, schedule_create_req 1 ?c)) = (w2, s2)" by fastforce
  have "mid_inv pr lk rs nd ni L w2 s2"
  proof (cases winner)
    case CH_NO_ACCESS
    with x have ws: "w2 = w" "s2 = schedule_create_req 1 ?c" by simp_all
    have p: "l2_before lk s2 = l2_before lk ?c" "l2_after lk rs s2 = l2_after lk rs ?c" "l2_credits f s2 = l2_credits f ?c" for f
      by (simp_all add: l2_before_def l2_after_def l2_credits_def ws schedule_create_req_def)
    note m = mid[unfolded mid_inv_def]
    have "own2_inv lk rs nd ni w s2" using m unfolding own2_inv_def p by (simp add: ws schedule_create_req_def)
    moreover have "cap_inv pr lk rs s2" using m unfolding cap_inv_def p by (simp add: ws schedule_create_req_def)
    moreover have "grant_inv pr nd ni s2" using m unfolding grant_inv_def p by (simp add: ws schedule_create_req_def)
    moreover have "sched_inv True rs s2" using m wt e' by (simp add: ws schedule_create_req_def sched_inv_def l2_waiting_def sched_def)
    moreover have "pipe_inv pr lk rs s2" "fill_inv pr L w s2" using m by (simp_all add: ws schedule_create_req_def pipe_inv_def fill_inv_def fills_of_def)
    ultimately show ?thesis by (simp add: mid_inv_def ws(1))
  next
    case CH_BIU
    with x q(2) room show ?thesis by (intro mid_reload[OF mid _ e']) auto
  next
    case CH_ICACHE
    obtain n w1 where cp: "create_copy AU_ICACHE (hd (l2_icache_req_queue s)) w = (n, w1)" by fastforce
    with x CH_ICACHE have ws: "w2 = w1" "s2 = ?c\<lparr>l2_pipeline_req_queue := l2_pipeline_req_queue ?c @ [n], l2_dcache_req_queue := l2_dcache_req_queue ?c,
      l2_icache_req_queue := tl (l2_icache_req_queue ?c), l2_out := l2_out ?c @ [OutIcacheCredits 1]\<rparr>" by (auto simp: create_icache_def l2_emit_def)
    show ?thesis unfolding ws(1)
      by (rule mid_copy[OF mid room e' _ cp ws(2)]) (use CH_ICACHE q(3) in simp_all)
  next
    case CH_DCACHE
    obtain n w1 where cp: "create_copy AU_DCACHE (hd (l2_dcache_req_queue s)) w = (n, w1)" by fastforce
    with x CH_DCACHE have ws: "w2 = w1" "s2 = ?c\<lparr>l2_pipeline_req_queue := l2_pipeline_req_queue ?c @ [n], l2_dcache_req_queue := tl (l2_dcache_req_queue ?c),
      l2_icache_req_queue := l2_icache_req_queue ?c, l2_out := l2_out ?c @ [OutDcacheCredits 1]\<rparr>" by (auto simp: create_dcache_def l2_emit_def)
    show ?thesis unfolding ws(1)
      by (rule mid_copy[OF mid room e' _ cp ws(2)]) (use CH_DCACHE q(4) in simp_all)
  qed
  from create_end_inv[OF this] r x show ?thesis by simp
qed

text \<open>A request enters the pipeline.\<close>

lemma l2_issue:
  assumes inv: "l2_inv pr b lk rs nd ni L w s" and ev: "0 \<in> set (l2_ev_issue_req s)" and pr: "l2_params_ok pr"
  shows "\<exists>s'. issue_Req pr (s\<lparr>l2_ev_issue_req := removeAll 0 (l2_ev_issue_req s)\<rparr>) = Inr s' \<and> l2_inv pr b lk rs nd ni L w s'"
proof -
  note i = l2_invD[OF inv]
  have none: "l2_pipeline_in s = None" using i(6) ev by (auto simp: sched_inv_def)
  let ?e = "removeAll 0 (l2_ev_issue_req s)"
  show ?thesis
  proof (cases "hasCreditsForPipelineIssue pr s \<and> l2_pipeline_req_queue s \<noteq> []")
    case False
    let ?s = "s\<lparr>l2_ev_issue_req := (if l2_pipeline_req_queue s \<noteq> [] then sched 1 ?e else ?e)\<rparr>"
    have h: "hasCreditsForPipelineIssue pr (s\<lparr>l2_ev_issue_req := ?e\<rparr>) = hasCreditsForPipelineIssue pr s" by (simp add: hasCreditsForPipelineIssue_def)
    have r: "issue_Req pr (s\<lparr>l2_ev_issue_req := ?e\<rparr>) = Inr ?s" using False by (auto simp: issue_Req_def h schedule_issue_req_def)
    have "l2_inv pr b lk rs nd ni L w ?s"
      by (rule same_queues_inv[OF _ inv]) (use i(6,7) none in \<open>simp_all add: same_queues_def same_place_def sched_inv_def wake2_inv_def l2_waiting_def\<close>)
    with r show ?thesis by blast
  next
    case True
    then obtain m Q where Q: "l2_pipeline_req_queue s = m # Q" by (cases "l2_pipeline_req_queue s") auto
    let ?s = "s\<lparr>l2_pipeline_in := Some m, l2_inFlight_reqs := l2_inFlight_reqs s + 1, l2_pipeline_req_queue := Q,
        l2_ev_issue_req := (if Q \<noteq> [] then sched 1 ?e else ?e)\<rparr>"
    have h: "hasCreditsForPipelineIssue pr (s\<lparr>l2_ev_issue_req := ?e\<rparr>) = hasCreditsForPipelineIssue pr s" by (simp add: hasCreditsForPipelineIssue_def)
    have r: "issue_Req pr (s\<lparr>l2_ev_issue_req := ?e\<rparr>) = Inr ?s" using True Q none by (auto simp: issue_Req_def h schedule_issue_req_def)
    have cap: "l2_inFlight_reqs s + length (l2_biu_req_queue s) < lp_biu_req_queue_size pr"
      "l2_inFlight_reqs s + length (l2_miss_pending_buffer s) < lp_miss_pending_buffer_size pr"
      using True i(3) pr by (auto simp: hasCreditsForPipelineIssue_def Let_def sub32_exact cap_inv_def l2_params_ok_def)
    have p: "l2_before lk ?s = m # l2_before lk s" "l2_after lk rs ?s = l2_after lk rs s" by (simp_all add: l2_before_def l2_after_def none)
    have c: "l2_credits f ?s = l2_credits f s" for f by (simp add: l2_credits_def)
    from i(2) obtain xd xi where fl: "flow_inv w (l2_pipeline_req_queue s) (l2_before lk s) (l2_after lk rs s) (l2_miss_pending_buffer s)
        (l2_dcache_resp_queue s) (l2_icache_resp_queue s) xd xi"
      and x: "xd + length (l2_dcache_req_queue s) + l2_credits dresp s = nd" "xi + length (l2_icache_req_queue s) + l2_credits iresp s = ni"
      by (auto simp: own2_inv_def)
    have "flow_inv w Q (m # l2_before lk s) (l2_after lk rs s) (l2_miss_pending_buffer s) (l2_dcache_resp_queue s) (l2_icache_resp_queue s) xd xi"
      by (rule flow_move[OF fl]) (use flowD[OF fl] Q in auto)
    then have o: "own2_inv lk rs nd ni w ?s" using x unfolding own2_inv_def p c by auto
    have "l2_inv pr b lk rs nd ni L w ?s"
    proof (rule l2_invI[OF _ o])
      show "pipe_inv pr lk rs ?s" using i(1) by (simp add: pipe_inv_def)
      show "cap_inv pr lk rs ?s" using i(3) cap Q unfolding cap_inv_def p by simp
      show "fill_inv pr L w ?s" using i(4) by (simp add: fill_inv_def fills_of_def)
      show "grant_inv pr nd ni ?s" using i(5) unfolding grant_inv_def c by simp
      show "sched_inv b rs ?s" using i(6) by (auto simp: sched_inv_def l2_waiting_def sched_def)
      show "wake2_inv ?s" using i(7) by (simp add: wake2_inv_def)
    qed
    with r show ?thesis by blast
  qed
qed

text \<open>The lookup stage.\<close>

lemma stage_of:
  assumes "pipe_inv pr lk rs s" and "l2_params_ok pr"
  shows "l2_pipeline s ! L2_CACHE_LOOKUP pr = last (butlast (l2_pipeline s))" "l2_pipeline s ! L2_HIT_MISS_HANDLING pr = last (l2_pipeline s)"
proof -
  have n: "length (l2_pipeline s) = L2_NUM_STAGES pr" "2 \<le> length (l2_pipeline s)" using assms by (simp_all add: pipe_inv_def l2_params_ok_def L2_NUM_STAGES_def)
  from last_stages[OF n(2)] show "l2_pipeline s ! L2_CACHE_LOOKUP pr = last (butlast (l2_pipeline s))" "l2_pipeline s ! L2_HIT_MISS_HANDLING pr = last (l2_pipeline s)"
    by (simp_all add: L2_CACHE_LOOKUP_def L2_HIT_MISS_HANDLING_def n(1))
qed

lemma l2_lookup:
  assumes inv: "l2_inv pr b True rs nd ni L w s" and pr: "l2_params_ok pr"
  shows "\<exists>w' s'. handleCacheAccessRequest ca pr (w, s) = Inr (w', s') \<and> l2_inv pr b False rs nd ni L w' s'"
proof -
  note i = l2_invD[OF inv]
  from i(1) obtain m where y: "last (butlast (l2_pipeline s)) = Some m" by (auto simp: pipe_inv_def)
  obtain hit c1 where lk: "cache_lookup ca (lp_l2_always_hit pr) (mi_paddr (w_mai w m)) (l2_cache s) = (hit, c1)" by fastforce
  define st where "st = (if mi_cache_access_state (w_mai w m) = CS_RELOAD \<or> hit then CS_HIT else CS_MISS)"
  define c' where "c' = (if mi_cache_access_state (w_mai w m) = CS_RELOAD \<and> \<not> hit then ca_allocate ca (mi_paddr (w_mai w m)) c1 else c1)"
  have r: "handleCacheAccessRequest ca pr (w, s) = Inr (upd_mai m (\<lambda>a. a\<lparr>mi_cache_access_state := st\<rparr>) w, s\<lparr>l2_cache := c'\<rparr>)"
    by (simp add: handleCacheAccessRequest_def stage_of(1)[OF i(1) pr] y Let_def cacheLookup_def l2_reloadCache_def lk st_def c'_def)
  have st: "mi_cache_access_state (w_mai w m) = CS_RELOAD \<Longrightarrow> st = CS_HIT" by (simp add: st_def)
  let ?w = "upd_mai m (\<lambda>a. a\<lparr>mi_cache_access_state := st\<rparr>) w" and ?s = "s\<lparr>l2_cache := c'\<rparr>"
  have p: "l2_before True s = l2_before False s @ [m]" "l2_after False rs s = m # l2_after True rs s"
    "l2_before False ?s = l2_before False s" "l2_after False rs ?s = l2_after False rs s" by (simp_all add: l2_before_def l2_after_def y)
  have c: "l2_credits f ?s = l2_credits f s" for f by (simp add: l2_credits_def)
  have hm: "home ?w x = home w x" for x by (simp add: home_def upd_mai_def)
  have other: "w_mai ?w x = w_mai w x" if "x \<noteq> m" for x using that by (simp add: upd_mai_def)
  from i(2) obtain xd xi where fl: "flow_inv w (l2_pipeline_req_queue s) (l2_before True s) (l2_after True rs s) (l2_miss_pending_buffer s)
      (l2_dcache_resp_queue s) (l2_icache_resp_queue s) xd xi"
    and x: "xd + length (l2_dcache_req_queue s) + l2_credits dresp s = nd" "xi + length (l2_icache_req_queue s) + l2_credits iresp s = ni"
    by (auto simp: own2_inv_def)
  note d = flowD(6)[OF fl, unfolded p(1)]
  have "before_ok w m" using flowD(1)[OF fl, of m] by (simp add: p(1))
  then have am: "after_ok ?w m" using st by (auto simp: before_ok_def after_ok_def upd_mai_def)
  have "flow_inv ?w (l2_pipeline_req_queue s) (l2_before False s) (m # l2_after True rs s) (l2_miss_pending_buffer s) (l2_dcache_resp_queue s) (l2_icache_resp_queue s) xd xi"
  proof (rule flow_move[OF fl])
    show "\<forall>x\<in>set (l2_pipeline_req_queue s @ l2_before False s). before_ok ?w x"
    proof
      fix x assume x: "x \<in> set (l2_pipeline_req_queue s @ l2_before False s)"
      with d have "x \<noteq> m" by auto
      with ok_cong(1)[OF other] flowD(1)[OF fl, of x] x show "before_ok ?w x" by (auto simp: p(1))
    qed
    show "\<forall>x\<in>set (m # l2_after True rs s). after_ok ?w x"
    proof
      fix x assume "x \<in> set (m # l2_after True rs s)"
      with am ok_cong(2)[OF other] flowD(2)[OF fl, of x] show "after_ok ?w x" by (cases "x = m") auto
    qed
    show "\<forall>x\<in>set (l2_miss_pending_buffer s). miss_ok ?w x"
      using flowD(3)[OF fl] by (simp add: miss_ok_def upd_mai_def)
    show "w_next ?w = w_next w" by (simp add: upd_mai_def)
  qed (use flowD(4,5)[OF fl] hm p(1) in simp_all)
  then have o: "own2_inv False rs nd ni ?w ?s" using x unfolding own2_inv_def p(2-4) c by auto
  have f: "fill_inv pr L ?w s" by (rule fill_inv_cong[OF i(4)]) (simp_all add: upd_mai_def)
  have "l2_inv pr b False rs nd ni L ?w ?s"
  proof (rule l2_invI[OF _ o])
    show "pipe_inv pr False rs ?s" using i(1) by (simp add: pipe_inv_def)
    show "cap_inv pr False rs ?s" using i(3) unfolding cap_inv_def p by simp
    show "fill_inv pr L ?w ?s" using f by (simp add: fill_inv_def fills_of_def)
    show "grant_inv pr nd ni ?s" using i(5) unfolding grant_inv_def c by simp
    show "sched_inv b rs ?s" using i(6) by (simp add: sched_inv_def l2_waiting_def)
    show "wake2_inv ?s" using i(7) by (simp add: wake2_inv_def)
  qed
  with r show ?thesis by blast
qed

text \<open>The last stage.\<close>

lemma last_stage_leaves:
  assumes "last (l2_pipeline s) = Some m"
  shows "l2_after lk True s = l2_after lk False s @ [m]"
  using assms by (simp add: l2_after_def)

lemma dec_inFlight: "cap_inv pr lk rs s \<Longrightarrow> l2_params_ok pr \<Longrightarrow> 0 < l2_inFlight_reqs s \<Longrightarrow> sub32 (l2_inFlight_reqs s) 1 = l2_inFlight_reqs s - 1"
  unfolding cap_inv_def l2_params_ok_def by (rule sub32_exact) linarith+

lemma l2_outcome_hit:
  assumes inv: "l2_inv pr b lk True nd ni L w s" and pr: "l2_params_ok pr" and z: "last (l2_pipeline s) = Some m"
    and hit: "mi_cache_access_state (w_mai w m) = CS_HIT"
  shows "\<exists>s'. handleCacheAccessResult pr (w, s) = Inr (w, s') \<and> l2_inv pr b lk False nd ni L w s'"
proof -
  note i = l2_invD[OF inv] and a = last_stage_leaves[OF z]
  from i(2) obtain xd xi where fl: "flow_inv w (l2_pipeline_req_queue s) (l2_before lk s) (l2_after lk True s) (l2_miss_pending_buffer s)
      (l2_dcache_resp_queue s) (l2_icache_resp_queue s) xd xi"
    and x: "xd + length (l2_dcache_req_queue s) + l2_credits dresp s = nd" "xi + length (l2_icache_req_queue s) + l2_credits iresp s = ni"
    by (auto simp: own2_inv_def)
  have am: "after_ok w m" using flowD(2)[OF fl, of m] by (simp add: a)
  have q: "l2_dcache_resp_queue s = []" "l2_icache_resp_queue s = []" "l2_ev_dcache_resp s = []" "l2_ev_icache_resp s = []"
    using i(6) by (simp_all add: sched_inv_def)
  have pos: "0 < l2_inFlight_reqs s" using i(3) by (simp add: cap_inv_def a)
  define u where "u = mi_dest (w_mai w m)"
  have u: "u = AU_DCACHE \<or> u = AU_ICACHE" "home w m = u" using am by (auto simp: after_ok_def is_l1_def home_def u_def)
  let ?s = "s\<lparr>l2_inFlight_reqs := l2_inFlight_reqs s - 1, l2_dcache_resp_queue := (if u = AU_DCACHE then [m] else []),
      l2_ev_dcache_resp := (if u = AU_DCACHE then [0] else []), l2_icache_resp_queue := (if u = AU_ICACHE then [m] else []),
      l2_ev_icache_resp := (if u = AU_ICACHE then [0] else [])\<rparr>"
  have r: "handleCacheAccessResult pr (w, s) = Inr (w, ?s)"
    using u(1) q hit by (auto simp: handleCacheAccessResult_def stage_of(2)[OF i(1) pr] z dec_inFlight[OF i(3) pr pos, simplified] Let_def u_def[symmetric]
      sendOutResp_def appendDCacheRespQueue_def appendICacheRespQueue_def sched_def)
  have p: "l2_before lk ?s = l2_before lk s" "l2_after lk False ?s = l2_after lk False s" by (simp_all add: l2_before_def l2_after_def)
  have c: "l2_credits f ?s = l2_credits f s" for f by (simp add: l2_credits_def)
  have "flow_inv w (l2_pipeline_req_queue s) (l2_before lk s) (l2_after lk False s) (l2_miss_pending_buffer s)
      (if u = AU_DCACHE then [m] else []) (if u = AU_ICACHE then [m] else []) xd xi"
    by (rule flow_move[OF fl]) (use flowD[OF fl] u q a in auto)
  then have o: "own2_inv lk False nd ni w ?s" using x unfolding own2_inv_def p c by auto
  have "l2_inv pr b lk False nd ni L w ?s"
  proof (rule l2_invI[OF _ o])
    show "pipe_inv pr lk False ?s" using i(1) by (simp add: pipe_inv_def)
    show "cap_inv pr lk False ?s" using i(3) pos unfolding cap_inv_def p a by simp
    show "fill_inv pr L w ?s" using i(4) by (simp add: fill_inv_def fills_of_def)
    show "grant_inv pr nd ni ?s" using i(5) unfolding grant_inv_def c by simp
    show "sched_inv b False ?s" using i(6) u(1) by (auto simp: sched_inv_def l2_waiting_def)
    show "wake2_inv ?s" using i(7) by (simp add: wake2_inv_def)
  qed
  with r show ?thesis by blast
qed

text \<open>A miss: it is stored, and its line is requested unless it is on its way.\<close>

lemma l2_outcome_miss:
  assumes inv: "l2_inv pr b lk True nd ni L w s" and pr: "l2_params_ok pr" and z: "last (l2_pipeline s) = Some m"
    and miss: "mi_cache_access_state (w_mai w m) \<noteq> CS_HIT"
  shows "\<exists>w' s'. handleCacheAccessResult pr (w, s) = Inr (w', s') \<and> l2_inv pr b lk False nd ni L w' s'"
proof -
  note i = l2_invD[OF inv] and a = last_stage_leaves[OF z]
  from i(2) obtain xd xi where fl: "flow_inv w (l2_pipeline_req_queue s) (l2_before lk s) (l2_after lk True s) (l2_miss_pending_buffer s)
      (l2_dcache_resp_queue s) (l2_icache_resp_queue s) xd xi"
    and x: "xd + length (l2_dcache_req_queue s) + l2_credits dresp s = nd" "xi + length (l2_icache_req_queue s) + l2_credits iresp s = ni"
    by (auto simp: own2_inv_def)
  note d = flowD(6)[OF fl, unfolded a]
  have am: "after_ok w m" using flowD(2)[OF fl, of m] by (simp add: a)
  have sm: "is_l1 (mi_src (w_mai w m))" using am miss by (auto simp: after_ok_def)
  have q: "l2_dcache_resp_queue s = []" "l2_icache_resp_queue s = []" using i(6) by (simp_all add: sched_inv_def)
  have pos: "0 < l2_inFlight_reqs s" using i(3) by (simp add: cap_inv_def a)
  let ?M = "l2_miss_pending_buffer s" and ?w1 = "upd_mai m (\<lambda>i. i\<lparr>mi_dest := AU_BIU\<rparr>) w"
  have room: "length ?M < lp_miss_pending_buffer_size pr" "length (l2_biu_req_queue s) < lp_biu_req_queue_size pr"
    using i(3) pos unfolding cap_inv_def by linarith+
  have mM: "m \<notin> set ?M" using d by auto
  define fnd where "fnd = List.find (\<lambda>x. x \<noteq> m \<and> getCacheLine pr ?w1 x = getCacheLine pr ?w1 m) (rev (?M @ [m]))"
  define w' where "w' = (case fnd of None \<Rightarrow> ?w1 | Some x \<Rightarrow> upd_mai x (\<lambda>i. i\<lparr>mi_next_req := Some m\<rparr>) ?w1)"
  define s' where "s' = s\<lparr>l2_inFlight_reqs := l2_inFlight_reqs s - 1, l2_miss_pending_buffer := ?M @ [m],
      l2_biu_req_queue := (case fnd of None \<Rightarrow> l2_biu_req_queue s @ [m] | Some x \<Rightarrow> l2_biu_req_queue s),
      l2_ev_biu_req := (case fnd of None \<Rightarrow> sched 0 (l2_ev_biu_req s) | Some x \<Rightarrow> l2_ev_biu_req s)\<rparr>"
  have r: "handleCacheAccessResult pr (w, s) = Inr (w', s')"
  proof -
    have "handleCacheAccessResult pr (w, s) = handle_miss pr m (w, s\<lparr>l2_inFlight_reqs := l2_inFlight_reqs s - 1\<rparr>)"
      using miss by (simp add: handleCacheAccessResult_def stage_of(2)[OF i(1) pr] z dec_inFlight[OF i(3) pr pos, simplified])
    also have "\<dots> = Inr (w', s')"
    proof (cases fnd)
      case None
      have md: "mi_dest (w_mai ?w1 m) = AU_BIU" by (simp add: upd_mai_def)
      from None show ?thesis using room
        by (simp add: handle_miss_def Let_def fnd_def[simplified] md sendOutReq_def appendBIUReqQueue_def w'_def s'_def)
    next
      case (Some x)
      then show ?thesis using room by (simp add: handle_miss_def Let_def fnd_def[simplified] w'_def s'_def)
    qed
    finally show ?thesis .
  qed
  have pa: "mi_paddr (w_mai w' y) = mi_paddr (w_mai w y)" "mi_src (w_mai w' y) = mi_src (w_mai w y)"
    "mi_cache_access_state (w_mai w' y) = mi_cache_access_state (w_mai w y)"
    "mi_dest (w_mai w' y) = (if y = m then AU_BIU else mi_dest (w_mai w y))" "w_next w' = w_next w" for y
    by (simp_all add: w'_def upd_mai_def split: option.split)
  have g: "getCacheLine pr w' y = getCacheLine pr w y" "getCacheLine pr ?w1 y = getCacheLine pr w y" for y
    by (simp_all add: getCacheLine_def pa(1) upd_mai_def)
  have fnd_iff: "fnd = None \<longleftrightarrow> getCacheLine pr w m \<notin> getCacheLine pr w ` set ?M"
    unfolding fnd_def find_None_iff g using mM by (simp add: image_iff) metis
  have hm: "home w' y = home w y" for y using sm am by (cases "y = m") (auto simp: home_def pa after_ok_def is_l1_def)
  have p: "l2_before lk s' = l2_before lk s" "l2_after lk False s' = l2_after lk False s" by (simp_all add: l2_before_def l2_after_def s'_def)
  have c: "l2_credits f s' = l2_credits f s" for f by (simp add: l2_credits_def s'_def)
  have "flow_inv w' (l2_pipeline_req_queue s) (l2_before lk s) (l2_after lk False s) (?M @ [m]) [] [] xd xi"
  proof (rule flow_move[OF fl])
    show "\<forall>y\<in>set (l2_pipeline_req_queue s @ l2_before lk s). before_ok w' y"
    proof
      fix y assume y: "y \<in> set (l2_pipeline_req_queue s @ l2_before lk s)"
      then have "y \<noteq> m" using d by auto
      then show "before_ok w' y" using flowD(1)[OF fl y] by (simp add: before_ok_def pa)
    qed
    show "\<forall>y\<in>set (l2_after lk False s). after_ok w' y"
    proof
      fix y assume y: "y \<in> set (l2_after lk False s)"
      then have "y \<noteq> m" using d by auto
      then show "after_ok w' y" using flowD(2)[OF fl, of y] y by (simp add: after_ok_def pa a)
    qed
    show "\<forall>y\<in>set (?M @ [m]). miss_ok w' y" using flowD(3)[OF fl] sm by (auto simp: miss_ok_def pa)
  qed (use q a hm pa(5) in auto)
  then have o: "own2_inv lk False nd ni w' s'" using x q unfolding own2_inv_def p c by (auto simp: s'_def)
  have f: "fill_inv pr L w' s'"
  proof -
    have dist: "distinct (fills_of pr L w s)" and st: "set (fills_of pr L w s) = getCacheLine pr w ` set ?M" and
      sub: "set (l2_biu_req_queue s) \<subseteq> set ?M" "\<forall>y\<in>set (l2_biu_resp_queue s). y < w_next w" using i(4) by (simp_all add: fill_inv_def)
    show ?thesis
    proof (cases fnd)
      case None
      then have nl: "getCacheLine pr w m \<notin> set (fills_of pr L w s)" using fnd_iff st by simp
      have fo: "fills_of pr L w' s' = map (getCacheLine pr w) (l2_biu_req_queue s) @ [getCacheLine pr w m] @ L @ map (getCacheLine pr w) (l2_biu_resp_queue s)"
        by (simp add: fills_of_def s'_def None g)
      have "distinct (fills_of pr L w' s')" unfolding fo using dist nl by (auto simp: fills_of_def)
      moreover have "set (fills_of pr L w' s') = insert (getCacheLine pr w m) (set (fills_of pr L w s))" unfolding fo by (auto simp: fills_of_def)
      ultimately show ?thesis using st sub None by (auto simp: fill_inv_def s'_def g pa(5))
    next
      case (Some y)
      then have inM: "getCacheLine pr w m \<in> getCacheLine pr w ` set ?M" using fnd_iff by auto
      have fo: "fills_of pr L w' s' = fills_of pr L w s" by (simp add: fills_of_def s'_def Some g)
      show ?thesis unfolding fill_inv_def fo using dist st sub Some inM by (auto simp: s'_def g pa(5))
    qed
  qed
  have "l2_inv pr b lk False nd ni L w' s'"
  proof (rule l2_invI[OF _ o _ f])
    show "pipe_inv pr lk False s'" using i(1) by (simp add: pipe_inv_def s'_def)
    show "cap_inv pr lk False s'" using i(3) pos unfolding cap_inv_def p a by (simp add: s'_def split: option.split)
    show "grant_inv pr nd ni s'" using i(5) unfolding grant_inv_def c by (simp add: s'_def)
    show "sched_inv b False s'" using i(6) by (simp add: sched_inv_def l2_waiting_def s'_def)
    show "wake2_inv s'" using i(7) by (simp add: wake2_inv_def s'_def)
  qed
  with r show ?thesis by blast
qed

lemma l2_outcome:
  assumes inv: "l2_inv pr b lk True nd ni L w s" and pr: "l2_params_ok pr"
  shows "\<exists>w' s'. handleCacheAccessResult pr (w, s) = Inr (w', s') \<and> l2_inv pr b lk False nd ni L w' s'"
proof -
  from l2_invD(1)[OF inv] obtain m where "last (l2_pipeline s) = Some m" by (auto simp: pipe_inv_def)
  with l2_outcome_hit[OF inv pr] l2_outcome_miss[OF inv pr] show ?thesis by blast
qed

lemma l2_reach_inv:
  assumes "l2_reach ca pr b lk rs nd ni L w s" and pr: "l2_params_ok pr"
  shows "l2_inv pr b lk rs nd ni L w s"
  using assms(1)
proof induction
  case (start w c)
  show ?case by (rule l2_start[OF pr])
next
  case (environment b lk rs nd ni L w s w')
  then show ?case using l2_environment by blast
next
  case (dcache_req lk rs nd ni L w s m s')
  then show ?case using l2_dcache_req[of pr lk rs nd ni L w s m] by auto
next
  case (icache_req lk rs nd ni L w s m s')
  then show ?case using l2_icache_req[of pr lk rs nd ni L w s m] by auto
next
  case (biu_resp lk rs nd ni L w s m s')
  then show ?case using l2_biu_resp by blast
next
  case (biu_credits b lk rs nd ni L w s n)
  then show ?case using l2_schedulers(1) by blast
next
  case (ev_dcache lk rs nd ni L w s)
  then show ?case using l2_schedulers(2) by blast
next
  case (ev_icache lk rs nd ni L w s)
  then show ?case using l2_schedulers(3) by blast
next
  case (ev_biu_resp lk rs nd ni L w s)
  then show ?case using l2_schedulers(4) by blast
next
  case (ev_biu_req b lk rs nd ni L w s s')
  then show ?case using l2_biu_req by blast
next
  case (ev_dcache_resp b lk rs nd ni L w s s')
  then show ?case using l2_dcache_resp[of pr b lk rs nd ni L w s] by auto
next
  case (ev_icache_resp b lk rs nd ni L w s s')
  then show ?case using l2_icache_resp[of pr b lk rs nd ni L w s] by auto
next
  case (create lk rs nd ni L w s w' s')
  then show ?case using l2_create[of pr lk rs nd ni L w s] by auto
next
  case (issue b lk rs nd ni L w s s')
  then show ?case using l2_issue[OF _ _ pr, of b lk rs nd ni L w s] by auto
next
  case (lookup b rs nd ni L w s w' s')
  then show ?case using l2_lookup[OF _ pr, of b rs nd ni L w s ca] by auto
next
  case (outcome b lk nd ni L w s w' s')
  then show ?case using l2_outcome[OF _ pr, of b lk nd ni L w s] by auto
next
  case (cycle b nd ni L w s)
  then show ?case using l2_cycle[OF _ _ pr] by blast
qed

text \<open>Towards each first-level cache the L2 cache keeps the credit contract.\<close>

definition l2_state :: "L2CacheParameterSet \<Rightarrow> nat \<times> nat \<times> 'c L2Cache \<Rightarrow> bool" where
  "l2_state pr x \<longleftrightarrow> l2_params_ok pr \<and> (case x of (nd, ni, s) \<Rightarrow> \<exists>ca b lk rs L w. l2_reach ca pr b lk rs nd ni L w s)"

interpretation l2d: credit_interface l2_state lp_dcache_req_queue_size "\<lambda>(nd, ni, s). l2_credits dcredit s"
    "\<lambda>(nd, ni, s). length (l2_dcache_req_queue s)" "\<lambda>(nd, ni, s). nd"
  by unfold_locales (auto simp: l2_state_def grant_inv_def dest!: l2_reach_inv l2_invD(5) split: if_splits)

interpretation l2i: credit_interface l2_state lp_icache_req_queue_size "\<lambda>(nd, ni, s). l2_credits icredit s"
    "\<lambda>(nd, ni, s). length (l2_icache_req_queue s)" "\<lambda>(nd, ni, s). ni"
  by unfold_locales (auto simp: l2_state_def grant_inv_def dest!: l2_reach_inv l2_invD(5) split: if_splits)

section \<open>Properties\<close>

text \<open>A response of the bus interface is accepted exactly while its queue is not full. The fills on their way are
  distinct lines of pending misses, so a queue as large as the buffer of pending misses has room for all of them.\<close>

lemma getRespFromBIU_ok_iff: "is_ok (getRespFromBIU pr x s) \<longleftrightarrow> length (l2_biu_resp_queue s) < lp_biu_resp_queue_size pr"
  by (auto simp: getRespFromBIU_def appendBIURespQueue_def bindE_def assertE_def is_ok_iff)

lemma biu_resp_room:
  assumes inv: "l2_inv pr b lk rs nd ni L w s" and L: "l \<in> set L" and le: "lp_miss_pending_buffer_size pr \<le> lp_biu_resp_queue_size pr"
  shows "length (l2_biu_resp_queue s) < lp_biu_resp_queue_size pr"
proof -
  note i = l2_invD[OF inv]
  let ?F = "fills_of pr L w s"
  have "length ?F = card (getCacheLine pr w ` set (l2_miss_pending_buffer s))"
    using i(4) distinct_card[of ?F] by (simp add: fill_inv_def)
  also have "\<dots> \<le> length (l2_miss_pending_buffer s)" using card_image_le card_length le_trans by (metis List.finite_set)
  also have "\<dots> \<le> lp_biu_resp_queue_size pr" using i(3) le by (simp add: cap_inv_def)
  finally have "length ?F \<le> lp_biu_resp_queue_size pr" .
  moreover have "0 < length L" using L by (rule length_pos_if_in_set)
  ultimately show ?thesis unfolding fills_of_def length_append length_map by linarith
qed

text \<open>C12. The L2 cache in every reachable state, with requests of the first-level caches within their credits and accepted
  responses of the bus interface to lines that were requested. No event handler fails: the arbitration finds a request,
  the pipeline accepts the request issued to it, the buffer of pending misses and the request queue to the bus interface
  never overflow, and each response queue has the response that its event sends; a request within the credits is accepted.
  A response of the bus interface is the one input that can assert: it does so exactly when the response queue is full.
  With a response queue at least as large as the buffer of pending misses the response to a requested line is always
  accepted; the default sizes, 4 and 64, do not give this.
  Every request of a cache is in exactly one place until its response goes back to the cache it came from. The
  lines of the pending misses are exactly those with a fill on its way, each with one. Requests and responses that wait
  have an event scheduled. The queue to the bus interface has not: after the event has sent one of two queued requests
  the other one is left with no event, whatever the credits.\<close>

theorem l2_serves_every_request:
  assumes reach: "l2_reach ca pr b lk rs nd ni L w s" and pr: "l2_params_ok pr"
  shows "(\<not> b \<and> 0 \<in> set (l2_ev_create_req s) \<longrightarrow> is_ok (create_Req pr (w, s\<lparr>l2_ev_create_req := removeAll 0 (l2_ev_create_req s)\<rparr>))) \<and>
    (0 \<in> set (l2_ev_issue_req s) \<longrightarrow> is_ok (issue_Req pr (s\<lparr>l2_ev_issue_req := removeAll 0 (l2_ev_issue_req s)\<rparr>))) \<and>
    (lk \<longrightarrow> is_ok (handleCacheAccessRequest ca pr (w, s))) \<and> (rs \<longrightarrow> is_ok (handleCacheAccessResult pr (w, s))) \<and>
    (0 \<in> set (l2_ev_dcache_resp s) \<longrightarrow> is_ok (handle_L2Cache_DCache_Resp s)) \<and> (0 \<in> set (l2_ev_icache_resp s) \<longrightarrow> is_ok (handle_L2Cache_ICache_Resp s)) \<and>
    (nd < l2_credits dcredit s \<longrightarrow> is_ok (getReqFromDCache pr m s) \<and> length (l2_dcache_req_queue s) < lp_dcache_req_queue_size pr) \<and>
    (ni < l2_credits icredit s \<longrightarrow> is_ok (getReqFromICache pr m s) \<and> length (l2_icache_req_queue s) < lp_icache_req_queue_size pr) \<and>
    (is_ok (getRespFromBIU pr x s) \<longleftrightarrow> length (l2_biu_resp_queue s) < lp_biu_resp_queue_size pr) \<and>
    (getCacheLine pr w x \<in> set L \<and> lp_miss_pending_buffer_size pr \<le> lp_biu_resp_queue_size pr \<longrightarrow> is_ok (getRespFromBIU pr x s)) \<and>
    distinct (l2_inside lk rs s) \<and>
    count_home w AU_DCACHE (l2_inside lk rs s) + length (l2_dcache_req_queue s) + l2_credits dresp s = nd \<and>
    count_home w AU_ICACHE (l2_inside lk rs s) + length (l2_icache_req_queue s) + l2_credits iresp s = ni \<and>
    length (l2_biu_req_queue s) \<le> lp_biu_req_queue_size pr \<and> length (l2_miss_pending_buffer s) \<le> lp_miss_pending_buffer_size pr \<and>
    distinct (fills_of pr L w s) \<and> set (fills_of pr L w s) = getCacheLine pr w ` set (l2_miss_pending_buffer s) \<and> wake2_inv s \<and>
    (l2_ev_biu_req s = [0] \<and> l2_biu_credits s > 0 \<and> length (l2_biu_req_queue s) = 2 \<longrightarrow>
       (let s' = handle_L2Cache_BIU_Req (s\<lparr>l2_ev_biu_req := []\<rparr>) in length (l2_biu_req_queue s') = 1 \<and> l2_ev_biu_req s' = []))"
proof -
  note inv = l2_reach_inv[OF reach pr]
  note i = l2_invD[OF inv]
  have st: "l2_state pr (nd, ni, s)" unfolding l2_state_def prod.case using reach pr by blast
  have "is_ok (create_Req pr (w, s\<lparr>l2_ev_create_req := removeAll 0 (l2_ev_create_req s)\<rparr>))" if "\<not> b" "0 \<in> set (l2_ev_create_req s)"
    using l2_create[of pr lk rs nd ni L w s] inv that by (auto simp: is_ok_iff)
  moreover have "is_ok (issue_Req pr (s\<lparr>l2_ev_issue_req := removeAll 0 (l2_ev_issue_req s)\<rparr>))" if "0 \<in> set (l2_ev_issue_req s)"
    using l2_issue[OF inv that pr] by (auto simp: is_ok_iff)
  moreover have "lk \<longrightarrow> is_ok (handleCacheAccessRequest ca pr (w, s))" "rs \<longrightarrow> is_ok (handleCacheAccessResult pr (w, s))"
    using l2_lookup[OF _ pr, of b rs nd ni L w s ca] l2_outcome[OF _ pr, of b lk nd ni L w s] inv by (auto simp: is_ok_iff)
  moreover have "0 \<in> set (l2_ev_dcache_resp s) \<longrightarrow> is_ok (handle_L2Cache_DCache_Resp s)" "0 \<in> set (l2_ev_icache_resp s) \<longrightarrow> is_ok (handle_L2Cache_ICache_Resp s)"
    using i(6) by (auto simp: sched_inv_def handle_L2Cache_DCache_Resp_def handle_L2Cache_ICache_Resp_def is_ok_iff split: list.splits if_splits)
  moreover have "length (l2_dcache_req_queue s) < lp_dcache_req_queue_size pr" if "nd < l2_credits dcredit s"
    using l2d.fits[OF st, of 1] that by simp
  moreover have "length (l2_icache_req_queue s) < lp_icache_req_queue_size pr" if "ni < l2_credits icredit s"
    using l2i.fits[OF st, of 1] that by simp
  moreover have "distinct (l2_inside lk rs s)" "count_home w AU_DCACHE (l2_inside lk rs s) + length (l2_dcache_req_queue s) + l2_credits dresp s = nd"
    "count_home w AU_ICACHE (l2_inside lk rs s) + length (l2_icache_req_queue s) + l2_credits iresp s = ni"
    using i(2) unfolding own2_inv_def flow_inv_def l2_inside_def by blast+
  moreover have "length (l2_biu_req_queue s) \<le> lp_biu_req_queue_size pr" "length (l2_miss_pending_buffer s) \<le> lp_miss_pending_buffer_size pr"
    using i(3) unfolding cap_inv_def by linarith+
  moreover have "distinct (fills_of pr L w s)" "set (fills_of pr L w s) = getCacheLine pr w ` set (l2_miss_pending_buffer s)"
    using i(4) by (simp_all add: fill_inv_def)
  moreover have "let s' = handle_L2Cache_BIU_Req (s\<lparr>l2_ev_biu_req := []\<rparr>) in length (l2_biu_req_queue s') = 1 \<and> l2_ev_biu_req s' = []"
    if "l2_biu_credits s > 0" "length (l2_biu_req_queue s) = 2"
    using that by (auto simp: handle_L2Cache_BIU_Req_def l2_emit_def Let_def)
  moreover have "is_ok (getReqFromDCache pr m s)" if "length (l2_dcache_req_queue s) < lp_dcache_req_queue_size pr"
    using that by (simp add: getReqFromDCache_def appendDCacheReqQueue_def bindE_def assertE_def is_ok_iff)
  moreover have "is_ok (getReqFromICache pr m s)" if "length (l2_icache_req_queue s) < lp_icache_req_queue_size pr"
    using that by (simp add: getReqFromICache_def appendICacheReqQueue_def bindE_def assertE_def is_ok_iff)
  moreover have "is_ok (getRespFromBIU pr x s)" if "getCacheLine pr w x \<in> set L" "lp_miss_pending_buffer_size pr \<le> lp_biu_resp_queue_size pr"
    using biu_resp_room[OF inv that] by (simp add: getRespFromBIU_ok_iff)
  ultimately show ?thesis using i(7) getRespFromBIU_ok_iff[of pr x s] by simp
qed

definition ex_l2_params :: L2CacheParameterSet where
  "ex_l2_params = \<lparr>lp_dcache_req_queue_size = 8, lp_dcache_resp_queue_size = 4, lp_icache_req_queue_size = 8, lp_icache_resp_queue_size = 4,
     lp_biu_req_queue_size = 4, lp_biu_resp_queue_size = 4, lp_pipeline_req_queue_size = 64, lp_miss_pending_buffer_size = 64,
     lp_l2_line_size = 64, lp_l2_always_hit = False, lp_l2cache_latency = 10, lp_is_icache_connected = True, lp_is_dcache_connected = True\<rparr>"

definition ex_l2_world :: world where
  "ex_l2_world = \<lparr>w_inst = (\<lambda>_. sample_Inst TP_INT 0 [] []), w_mai = (\<lambda>_. mk_MemoryAccessInfo_addr False 4096),
     w_lsi = (\<lambda>_. mk_LoadStoreInstInfo False 0), w_next = 1\<rparr>"

definition ex_l2_idle :: "64 word list L2Cache" where
  "ex_l2_idle = l2_sendInitialCredits ex_l2_params (mk_L2Cache ex_l2_params [])"

definition ex_l2 :: "64 word list L2Cache" where
  "ex_l2 = ex_l2_idle\<lparr>l2_icache_req_queue := [0], l2_ev_icache_req := [0]\<rparr>"

lemma ex_l2_reach:
  "l2_reach sample_cache ex_l2_params False False False 0 1 [] ex_l2_world (handle_ICache_L2Cache_Req (ex_l2\<lparr>l2_ev_icache_req := []\<rparr>))"
proof -
  have c: "l2_credits icredit ex_l2_idle = 8"
    by (simp add: l2_credits_def ex_l2_idle_def l2_sendInitialCredits_def ex_l2_params_def l2_emit_def mk_L2Cache_def l2_event_counts)
  have r: "getReqFromICache ex_l2_params 0 ex_l2_idle = Inr ex_l2"
    by (simp add: getReqFromICache_def appendICacheReqQueue_def ex_l2_def ex_l2_idle_def l2_sendInitialCredits_def ex_l2_params_def l2_emit_def
        mk_L2Cache_def sched_def)
  have "l2_reach sample_cache ex_l2_params False False False 0 0 [] ex_l2_world ex_l2_idle" unfolding ex_l2_idle_def by (rule l2_reach.start)
  from icache_req[OF this _ r] c have "l2_reach sample_cache ex_l2_params False False False 0 1 [] ex_l2_world ex_l2" by simp
  from ev_icache[OF this] show ?thesis by (simp add: ex_l2_def)
qed

theorem l2_serves_every_request_witness:
  "is_ok (create_Req ex_l2_params (ex_l2_world, (handle_ICache_L2Cache_Req (ex_l2\<lparr>l2_ev_icache_req := []\<rparr>))\<lparr>l2_ev_create_req := []\<rparr>)) \<and>
   l2_params_ok ex_l2_params"
proof -
  let ?s = "handle_ICache_L2Cache_Req (ex_l2\<lparr>l2_ev_icache_req := []\<rparr>)"
  have ev: "l2_ev_create_req ?s = [0]"
    by (simp add: handle_ICache_L2Cache_Req_def schedule_create_req_def ex_l2_def ex_l2_idle_def l2_sendInitialCredits_def ex_l2_params_def
        l2_emit_def mk_L2Cache_def sched_def)
  have pr: "l2_params_ok ex_l2_params" by (simp add: l2_params_ok_def ex_l2_params_def)
  from l2_serves_every_request[OF ex_l2_reach pr] ev pr show ?thesis by simp
qed

end
