(* ===== verification/Preload.thy ===== *)
theory Preload
  imports CacheModel
begin

text \<open>
  The cache preloader (\<open>core/Preloader.hpp\<close>, \<open>Preloader.cpp\<close>), which fills caches before the run.

  The tree of the simulation is not part of the repository. \<open>findChildren\<close> stands for the search of a path in it, which gives
  numbers of nodes; \<open>cs n\<close> is the cache at a node, \<open>None\<close> at a node that is not preloadable. \<open>parseYaml\<close> stands for the
  parser of the preload file: the packets in the order of the file, each with its path and the addresses of its lines.
\<close>

type_synonym 'c nodes = "nat \<Rightarrow> 'c option"

definition preload_node :: "'c cache_api \<Rightarrow> 64 word list \<Rightarrow> 'c nodes \<times> bool \<Rightarrow> nat \<Rightarrow> ('c nodes \<times> bool) result" where
  "preload_node ca pkt st n =
     (case st of (cs, preloaded_atleast_one) \<Rightarrow>
        case cs n of
          None \<Rightarrow> Inr (cs, preloaded_atleast_one)
        | Some c \<Rightarrow> bindE (preloadPkt ca pkt c) (\<lambda>c1. Inr (cs(n \<mapsto> c1), True)))"

definition preloadPacket ::
    "'c cache_api \<Rightarrow> (string \<Rightarrow> nat list) \<Rightarrow> 'c nodes \<Rightarrow> string \<times> 64 word list \<Rightarrow> 'c nodes result" where
  "preloadPacket ca findChildren cs packet =
     (case packet of (treenode, pkt) \<Rightarrow>
        bindE (foldE (preload_node ca pkt) (cs, False) (findChildren treenode)) (\<lambda>(cs1, preloaded_atleast_one).
        bindE (assertE preloaded_atleast_one ''Failed to preload the packet to any cache'') (\<lambda>_. Inr cs1)))"

definition preload ::
    "'c cache_api \<Rightarrow> (string \<Rightarrow> nat list) \<Rightarrow> (string \<Rightarrow> (string \<times> 64 word list) list) \<Rightarrow> string \<Rightarrow> 'c nodes \<Rightarrow> 'c nodes result" where
  "preload ca findChildren parseYaml filepath cs =
     (if filepath = '''' then Inr cs else foldE (preloadPacket ca findChildren) cs (parseYaml filepath))"

section \<open>What a preload does\<close>

lemma preload_nodes:
  assumes ok: "cache_api_ok ca" and "distinct ns"
  shows "foldE (preload_node ca pkt) (cs, b) ns =
     Inr (\<lambda>n. if n \<in> set ns then map_option (fold (ca_allocate ca) pkt) (cs n) else cs n, b \<or> (\<exists>n\<in>set ns. cs n \<noteq> None))"
  using assms(2)
proof (induction ns arbitrary: cs b)
  case (Cons n ns)
  show ?case
  proof (cases "cs n")
    case None
    then show ?thesis using Cons by (auto simp: preload_node_def fun_eq_iff)
  next
    case (Some c)
    have "preload_node ca pkt (cs, b) n = Inr (cs(n \<mapsto> fold (ca_allocate ca) pkt c), True)"
      by (simp add: preload_node_def Some preloadPkt_ok[OF ok])
    then show ?thesis using Cons Some by (auto simp: fun_eq_iff)
  qed
qed simp

lemma preloadPacket_exact:
  assumes "cache_api_ok ca" and "distinct (findChildren tn)"
  shows "preloadPacket ca findChildren cs (tn, pkt) =
     (if \<exists>n\<in>set (findChildren tn). cs n \<noteq> None
      then Inr (\<lambda>n. if n \<in> set (findChildren tn) then map_option (fold (ca_allocate ca) pkt) (cs n) else cs n)
      else Inl (SpartaAssert ''Failed to preload the packet to any cache''))"
  by (simp add: preloadPacket_def preload_nodes[OF assms] assertE_def)

text \<open>A preload succeeds exactly if every packet of the file reaches a cache, whatever the caches hold; it adds and removes no
  cache.\<close>

lemma preload_succeeds_iff:
  assumes "cache_api_ok ca" and "\<And>tn. distinct (findChildren tn)" and "f \<noteq> ''''"
  shows "is_ok (preload ca findChildren parseYaml f cs) \<longleftrightarrow>
     (\<forall>(tn, pkt)\<in>set (parseYaml f). \<exists>n\<in>set (findChildren tn). cs n \<noteq> None)"
proof -
  have "is_ok (foldE (preloadPacket ca findChildren) cs ps) \<longleftrightarrow> (\<forall>(tn, pkt)\<in>set ps. \<exists>n\<in>set (findChildren tn). cs n \<noteq> None)" for ps
  proof (induction ps arbitrary: cs)
    case (Cons p ps)
    obtain tn pkt where p: "p = (tn, pkt)" by fastforce
    let ?cs = "\<lambda>n. if n \<in> set (findChildren tn) then map_option (fold (ca_allocate ca) pkt) (cs n) else cs n"
    have dom: "?cs n \<noteq> None \<longleftrightarrow> cs n \<noteq> None" for n by simp
    show ?case
      using Cons[of ?cs] unfolding p by (simp add: preloadPacket_exact[OF assms(1,2)] dom is_ok_def del: not_None_eq)
  qed (simp add: is_ok_def)
  then show ?thesis using assms(3) by (simp add: preload_def)
qed

lemma preload_last_line_present:
  assumes ok: "cache_api_ok ca" and "distinct (findChildren tn)" and "preloadPacket ca findChildren cs (tn, pkt @ [va]) = Inr cs'"
    and "n \<in> set (findChildren tn)" and "cs' n = Some c"
  shows "ca_hit ca c va"
  using assms(3-5) by (auto simp: preloadPacket_exact[where findChildren = findChildren, OF ok assms(2)] cache_api_okD(3)[OF ok] split: if_splits)

end
