(* ===== verification/Spec2Isabelle.thy ===== *)
theory Spec2Isabelle
  imports Prelude InstModel FlushMgr RenameProps RobProps DispatchProps DecodeProps ExecuteProps MemProps BusMemory BranchPred FetchProps L2CacheProps Preload
begin

text \<open>
  Verification of Olympia, the RISC-V out-of-order performance model (\<open>src/\<close>).

  \<^bold>\<open>The program.\<close> Olympia simulates the timing of an out-of-order core, cycle by cycle, on the Sparta framework. A unit
  is a C++ class with queues and counters; it acts when a message arrives at one of its ports or when an event it has scheduled fires. An
  instruction takes this way: an instruction generator reads it from a trace; fetch asks the instruction cache for its block and sends it to
  decode; decode splits vector instructions into micro-ops, fuses groups and sends to rename; rename maps architectural to physical
  registers; dispatch distributes to the issue queues, the load/store unit and the reorder buffer; the issue queues give ready instructions
  to execution pipes; the load/store unit translates through the MMU and accesses the data cache; both first-level caches share the L2
  cache, behind which are the bus interface and the memory; the reorder buffer retires in order and raises flushes, which the flush manager
  sends to every unit. Each unit limits the one before it by credits: it sends one for every place that becomes free in its queue.

  \<^bold>\<open>How code becomes definitions.\<close> A unit is a record with the fields of its class, its parameter set a record of
  parameters, an enumeration a datatype. A handler is a function from state to state with the guards, early returns and order of the C++
  method; a handler that can assert or throw has the type \<open>sim_error + 'a\<close>. What a unit writes to its ports is appended to a
  list of events in its state; a scheduled event is a flag or the list of its delays. Objects behind shared pointers live in a store
  (\<open>heap\<close> for instructions, \<open>world\<close> for memory accesses and load/store entries), so that two queues that hold the
  same object see the same updates. Numbers are natural numbers where the code cannot reach their limit, and 64-bit words or arithmetic
  modulo 2 to the 32 (\<open>add32\<close>, \<open>sub32\<close>) where it can wrap around. The way the framework calls a unit is a step
  relation per unit (\<open>..._step\<close>, \<open>..._reach\<close>): which messages can arrive, which events are due, and the protocol
  the neighbour keeps. Every property of the form \<open>in every reachable state\<close> is proved by rule induction over it.

  \<^bold>\<open>Theories.\<close>

  \<^item> \<open>Prelude\<close>: errors as values, 32-bit arithmetic, events, generic lemmas on lists, maps and results.
    \<open>Credits\<close>: the interface between neighbouring units as locales (\<open>bounded_queue\<close>,
    \<open>credit_interface\<close>, \<open>exact_credit_interface\<close>), with the lemma that a sender within its credits never overflows
    the queue. They are interpreted for reorder buffer, dispatch, decode, load/store unit, bus interface, and twice for the L2 cache.
  \<^item> \<open>InstModel\<close> (\<open>core/Inst.*\<close>, \<open>InstArchInfo.*\<close>, \<open>RenameData.hpp\<close>,
    \<open>VectorConfig.hpp\<close>, \<open>CoreUtils.hpp\<close>): the instruction object, its construction from static data, its status
    and register data, the iterator with rewind.
  \<^item> \<open>FlushMgr\<close> (\<open>core/FlushManager.hpp\<close>): criteria and capture of flush requests; what it forwards covers
    all requests of the cycle.
  \<^item> \<open>RenameUnit\<close>, \<open>RenameInv\<close>, \<open>RenameFlow\<close>, \<open>RenameProps\<close>
    (\<open>core/rename/Rename.*\<close>): map tables, free lists, reference counters, and every handler. The invariant
    \<open>rf_inv\<close> accounts for each physical register; it rests on the locale \<open>register_pool\<close>. Shown: the accounting in
    every reachable state, that no assertion fires for parameters in range (\<open>params_ok\<close>), that rename followed by a flush is the identity on the map.
  \<^item> \<open>ReorderBuffer\<close>, \<open>RobProps\<close> (\<open>core/ROB.*\<close>): append, retire, flush. Shown: retirement takes
    exactly the completed prefix, in program order, a flush request stops it, and where credits are conserved.
  \<^item> \<open>DispatchUnit\<close>, \<open>DispatchProps\<close> (\<open>core/dispatch/\<close>): the choice of a dispatcher and the
    session loop; order, bandwidth and credits of a session.
  \<^item> \<open>VectorUop\<close> (\<open>core/vector/VectorUopGenerator.*\<close>): number, identity and operands of the micro-ops.
  \<^item> \<open>DecodeUnit\<close>, \<open>DecodeProps\<close> (\<open>core/decode/Decode.*\<close>, \<open>FusionDecode.cpp\<close>): the
    decode session, vector configuration, blocking on a \<open>vset\<close>, fusion. The matching of fusion is compared with a specification
    by occurrences.
  \<^item> \<open>ExecuteUnit\<close>, \<open>ExecuteProps\<close> (\<open>core/execute/\<close>): issue queues and pipes; what a session
    issues, when an instruction is woken, how many passes it makes, that the queues fit the dispatch tables.
  \<^item> \<open>MemAccess\<close> (\<open>core/MemoryAccessInfo.hpp\<close>, \<open>LoadStoreInstInfo.hpp\<close>),
    \<open>LoadStoreUnit\<close>, \<open>LsuInv\<close>, \<open>LsuFlow\<close>, \<open>LsuForward\<close>, \<open>LsuProps\<close>
    (\<open>core/lsu/LSU.*\<close>): queues, replay, pipeline stages, completion, flush. Shown: an invariant over all queues and events,
    that the handlers succeed, exact credits, exact flush, and what forwarding computes.
  \<^item> \<open>CacheModel\<close> (\<open>core/CacheFuncModel.hpp\<close>, \<open>SimpleTLB.hpp\<close>), \<open>MemUnits\<close>,
    \<open>MemProps\<close> (\<open>core/MMU.*\<close>, \<open>core/lsu/DCache.*\<close>): translation, lookup, miss handling and refill,
    alone and composed with the load/store unit. \<open>Preload\<close> (\<open>core/Preloader.*\<close>): filling caches before the run,
    which succeeds exactly if every packet reaches a cache.
  \<^item> \<open>InstGen\<close> (\<open>core/InstGenerator.*\<close>): the JSON and STF generators, with the contract
    \<open>rewindable\<close> that both keep; \<open>InstCache\<close>, \<open>InstCacheProps\<close> (\<open>core/fetch/ICache.*\<close>);
    \<open>BranchPred\<close> (\<open>core/fetch/SimpleBranchPred.*\<close>); \<open>FetchUnit\<close>, \<open>FetchProps\<close>
    (\<open>core/fetch/Fetch.*\<close>, \<open>core/InstGroup.*\<close>): what was fetched is a run of the trace, across flushes.
  \<^item> \<open>L2CacheUnit\<close>, \<open>L2CacheProps\<close> (\<open>mss/L2Cache.*\<close>): arbitration, request pipeline, pending
    misses; every request is in one place until it is answered, and the one input that can assert is a bus response to a full queue. \<open>BusMemory\<close> (\<open>mss/BIU.*\<close>,
    \<open>mss/MSS.*\<close>): requests are served in order and within a bound.

  \<^bold>\<open>Termination and bounds.\<close> Loops over a queue are structural recursion. Recursion on a number divided by a constant
  (\<open>log2_trunc\<close>, \<open>digits\<close>) ends because it shrinks. Two loops need an argument: \<open>fuse_loop\<close> is a
  do-while loop under a counter and terminates by the limit of tries; the decode session (\<open>decode_loop\<close>) counts down the number
  of instructions still to decode, which is the bound of the loop in the code. No definition has fuel of its own. The step relations are
  unbounded in the number of steps. Queue capacities and widths are parameters; where a property needs a parameter in range (for instance a
  pipeline of at least two stages) this is a named predicate such as \<open>l2_params_ok\<close>, and its witness gives parameters that
  satisfy it.

  \<^bold>\<open>Code outside the repository.\<close> It enters as an argument of the definitions: the Mavis decoder (\<open>mav\<close>,
  \<open>mavis_facade\<close>), the fusion API, the insertion of the Sparta priority queue (\<open>pqi\<close>), the random draw of a
  misprediction, the set-associative container of Sparta (\<open>cache_api\<close>, with laws of peek, touch and allocate as hypotheses),
  the readers of JSON and STF traces, the parser of the preload file, the search in the device tree, the order in which
  \<open>std::sort\<close> leaves equal fusion matches (\<open>fa_sort\<close>, with the documented result of a sort as hypothesis) and
  \<open>sparta::utils::floor_log2\<close> (a field of the parameters of fetch). Of a scoreboard only the calls of the units are recorded: the
  registers they read as ready are an input, a registration of a callback is kept in a log, a request to clear callbacks is an event. Which
  callbacks a scoreboard runs, how often, and whether a request to clear them has an effect is left open: in the step relation of the
  load/store unit any registered callback may run at any time. What is fixed of Sparta is the execution model without which the text of a
  unit has no meaning: an event fires after its delay, and a \<open>Pipeline\<close> moves each entry one stage per cycle
  (\<open>pl_update\<close>, \<open>dl_pl_update\<close>, \<open>l2_tick\<close>).

  \<^bold>\<open>Properties.\<close> Each is marked with its number at its theorem. They are ordered by weight: rename, retirement and
  dispatch; the memory side; fetch and the caches; credits; decode, vector micro-ops and issue; the branch predictor. Some state what the
  code does where it departs from its intention: micro-ops that return no credit, a generator that stays busy at a vector length of zero, a
  wakeup that happens twice, forwarding without regard to age, a bus request without an event.

  \<^bold>\<open>Not modelled.\<close> \<open>core/decode/MavisUnit.*\<close> builds the third-party decoder from its files.
  \<open>core/CPUTopology.*\<close>, \<open>CPUFactory.*\<close>, \<open>CPUFactories.hpp\<close>, \<open>CPU.*\<close>,
  \<open>Core.*\<close>, \<open>CoreExtensions.hpp\<close>, \<open>SimulationConfiguration.hpp\<close> and \<open>InstAllocation.hpp\<close>
  build the device tree, bind the ports and set up object pools, and have no behaviour after that. \<open>sim/\<close> is the command line.
  Of the modelled units, statistics, pipeline collection, logging and debug dumps are left out; they do not influence the simulation.
  \<open>deprecated/\<close> is a vendored JSON parser, \<open>traces/\<close> holds benchmark programs.
\<close>

end
